(* ===== verification/Stork_Prelude.thy ===== *)
theory Stork_Prelude
  imports Main "HOL-Library.Multiset"
begin

text \<open>
  Shared base of the development.  It holds
  \<^item> the collections \<open>stork_simps\<close> (unfolding facts of the components), \<open>stork_inv\<close>
    (invariant preservation) and \<open>stork_split\<close> (case splits);
  \<^item> the outcome of a computation that may panic (\<open>run\<close>);
  \<^item> the contract of the three-way comparison functions that the code hands to
    \<open>slices.SortFunc\<close> and \<open>slices.BinarySearchFunc\<close> (locale \<open>comparison\<close>), with
    the two library routines and what they guarantee for every such comparison.
\<close>

named_theorems stork_simps
named_theorems stork_inv
named_theorems stork_split

section \<open>Panics\<close>

text \<open>
  A Go function that dereferences a nil pointer or indexes out of range panics; a panic
  in a goroutine ends the whole process.  \<open>Panic\<close> is that outcome.
\<close>

datatype 'a run = Panic | Done (the_done: 'a)

fun bind_run :: "'a run \<Rightarrow> ('a \<Rightarrow> 'b run) \<Rightarrow> 'b run" where
  "bind_run Panic f = Panic"
| "bind_run (Done x) f = f x"

lemma bind_run_Done_iff [simp]:
  "bind_run r f = Done y \<longleftrightarrow> (\<exists>x. r = Done x \<and> f x = Done y)"
  by (cases r) auto

lemma bind_run_Panic_iff [simp]:
  "bind_run r f = Panic \<longleftrightarrow> (r = Panic \<or> (\<exists>x. r = Done x \<and> f x = Panic))"
  by (cases r) auto

section \<open>Lists\<close>

lemma takeWhile_dropWhile_sorted:
  assumes "sorted_wrt (\<lambda>x y. P y \<longrightarrow> P x) xs"
  shows "takeWhile P xs = filter P xs" and "dropWhile P xs = filter (\<lambda>x. \<not> P x) xs"
  using assms by (induction xs) (auto simp: filter_empty_conv)

lemma nth_takeWhile_less: "i < length (takeWhile P xs) \<Longrightarrow> P (xs ! i)"
  by (metis nth_mem set_takeWhileD takeWhile_nth)

lemma takeWhile_stops:
  assumes "x \<in> set xs" "\<not> P x"
  shows "length (takeWhile P xs) < length xs" and "\<not> P (xs ! length (takeWhile P xs))"
proof -
  from assms show "length (takeWhile P xs) < length xs"
    by (induction xs) auto
  then show "\<not> P (xs ! length (takeWhile P xs))" by (rule nth_length_takeWhile)
qed

lemma drop_is_filter:
  assumes "\<And>i. i < k \<Longrightarrow> i < length xs \<Longrightarrow> \<not> P (xs ! i)"
    and "\<And>i. k \<le> i \<Longrightarrow> i < length xs \<Longrightarrow> P (xs ! i)"
  shows "drop k xs = filter P xs"
proof -
  have "filter P (take k xs) = []"
    using assms(1) by (auto simp: filter_empty_conv in_set_conv_nth)
  moreover have "filter P (drop k xs) = drop k xs"
    using assms(2) by (auto simp: filter_id_conv in_set_conv_nth)
  ultimately show ?thesis
    by (metis append_Nil append_take_drop_id filter_append)
qed

section \<open>Three-way comparison\<close>

text \<open>
  \<open>slices.SortFunc\<close> requires a strict weak ordering.  The Go implementation is insertion
  sort on short slices and an unstable sort on longer ones; \<open>slices_sort\<close> is the
  insertion sort, and only facts that every correct sort has (the result is sorted and
  has the same elements) are used about it.
\<close>

fun insert_by :: "('a \<Rightarrow> 'a \<Rightarrow> int) \<Rightarrow> 'a \<Rightarrow> 'a list \<Rightarrow> 'a list" where
  "insert_by cmp x [] = [x]"
| "insert_by cmp x (y # ys) = (if cmp x y < 0 then x # y # ys else y # insert_by cmp x ys)"

definition slices_sort :: "('a \<Rightarrow> 'a \<Rightarrow> int) \<Rightarrow> 'a list \<Rightarrow> 'a list" where
  "slices_sort cmp xs = fold (insert_by cmp) xs []"

definition sorted_by :: "('a \<Rightarrow> 'a \<Rightarrow> int) \<Rightarrow> 'a list \<Rightarrow> bool" where
  "sorted_by cmp xs = sorted_wrt (\<lambda>x y. cmp x y \<le> 0) xs"

text \<open>
  \<open>slices.BinarySearchFunc\<close>: the loop over \<open>i\<close> and \<open>j\<close>, with \<open>p h\<close> standing for
  \<open>cmp(x[h], target) < 0\<close>, and the index and flag it returns.
\<close>

function bsearch_loop :: "(nat \<Rightarrow> bool) \<Rightarrow> nat \<Rightarrow> nat \<Rightarrow> nat" where
  "bsearch_loop p i j =
     (if i < j
      then (let h = (i + j) div 2 in if p h then bsearch_loop p (h + 1) j else bsearch_loop p i h)
      else i)"
  by pat_completeness auto
termination
  by (relation "measure (\<lambda>(p, i, j). j - i)") auto

declare bsearch_loop.simps [simp del]

definition slices_binary_search :: "('a \<Rightarrow> int) \<Rightarrow> 'a list \<Rightarrow> nat \<times> bool" where
  "slices_binary_search c xs =
     (let i = bsearch_loop (\<lambda>h. c (xs ! h) < 0) 0 (length xs)
      in (i, i < length xs \<and> c (xs ! i) = 0))"

lemma bsearch_loop_cong:
  assumes "\<And>h. h < j \<Longrightarrow> p h = q h"
  shows "bsearch_loop p i j = bsearch_loop q i j"
  using assms
proof (induction p i j rule: bsearch_loop.induct)
  case (1 p i j)
  show ?case
  proof (cases "i < j")
    case True
    let ?h = "(i + j) div 2"
    from True have pq: "p ?h = q ?h" by (intro "1.prems") simp
    show ?thesis
    proof (cases "p ?h")
      case ph: True
      have "bsearch_loop p (?h + 1) j = bsearch_loop q (?h + 1) j"
        by (rule "1.IH"(1) [OF True refl ph]) (rule "1.prems")
      with True ph pq show ?thesis
        using bsearch_loop.simps [of p i j] bsearch_loop.simps [of q i j] by (metis (full_types))
    next
      case ph: False
      have "bsearch_loop p i ?h = bsearch_loop q i ?h"
        by (rule "1.IH"(2) [OF True refl ph]) (use True "1.prems" in simp)
      with True ph pq show ?thesis
        using bsearch_loop.simps [of p i j] bsearch_loop.simps [of q i j] by (metis (full_types))
    qed
  next
    case False
    then show ?thesis by (simp add: bsearch_loop.simps [of p i j] bsearch_loop.simps [of q i j])
  qed
qed

lemma slices_binary_search_map:
  "slices_binary_search (\<lambda>x. c (f x)) xs = slices_binary_search c (map f xs)"
proof -
  have eq: "bsearch_loop (\<lambda>h. c (f (xs ! h)) < 0) 0 (length xs) =
      bsearch_loop (\<lambda>h. c (map f xs ! h) < 0) 0 (length xs)"
    by (rule bsearch_loop_cong) simp
  show ?thesis
    unfolding slices_binary_search_def Let_def length_map eq by auto
qed

lemma mset_insert_by [simp]: "mset (insert_by cmp x ys) = add_mset x (mset ys)"
  by (induction ys) auto

lemma set_insert_by [simp]: "set (insert_by cmp x ys) = insert x (set ys)"
  by (induction ys) auto

lemma mset_fold_insert_by: "mset (fold (insert_by cmp) xs ys) = mset xs + mset ys"
  by (induction xs arbitrary: ys) auto

lemma mset_slices_sort [simp]: "mset (slices_sort cmp xs) = mset xs"
  by (simp add: slices_sort_def mset_fold_insert_by)

lemma set_slices_sort [simp]: "set (slices_sort cmp xs) = set xs"
  by (metis mset_slices_sort set_mset_mset)

lemma length_slices_sort [simp]: "length (slices_sort cmp xs) = length xs"
  by (metis mset_slices_sort size_mset)

lemma bsearch_loop_split:
  assumes "i \<le> k" "k \<le> j" "\<And>h. i \<le> h \<Longrightarrow> h < k \<Longrightarrow> p h" "\<And>h. k \<le> h \<Longrightarrow> h < j \<Longrightarrow> \<not> p h"
  shows "bsearch_loop p i j = k"
  using assms
proof (induction p i j rule: bsearch_loop.induct)
  case (1 p i j)
  show ?case
  proof (cases "i < j")
    case True
    let ?h = "(i + j) div 2"
    from True have h: "i \<le> ?h" "?h < j" by auto
    show ?thesis
    proof (cases "p ?h")
      case ph: True
      have hk: "?h < k" by (rule ccontr) (use "1.prems"(4) [of ?h] h ph in auto)
      have "bsearch_loop p (?h + 1) j = k"
        by (rule "1.IH"(1) [OF True refl ph]) (use hk h "1.prems" in auto)
      with True ph show ?thesis by (simp add: bsearch_loop.simps [of p i j] Let_def)
    next
      case ph: False
      have hk: "k \<le> ?h" by (rule ccontr) (use "1.prems"(3) [of ?h] h ph in auto)
      have "bsearch_loop p i ?h = k"
        by (rule "1.IH"(2) [OF True refl ph]) (use hk h "1.prems" in auto)
      with True ph show ?thesis by (simp add: bsearch_loop.simps [of p i j] Let_def)
    qed
  next
    case False
    with "1.prems" show ?thesis by (simp add: bsearch_loop.simps [of p i j])
  qed
qed

locale comparison =
  fixes cmp :: "'a \<Rightarrow> 'a \<Rightarrow> int"
  assumes cmp_refl: "cmp x x = 0"
    and cmp_flip: "cmp x y < 0 \<longleftrightarrow> 0 < cmp y x"
    and cmp_trans: "cmp x y \<le> 0 \<Longrightarrow> cmp y z \<le> 0 \<Longrightarrow> cmp x z \<le> 0"
begin

lemma cmp_zero_sym: "cmp x y = 0 \<longleftrightarrow> cmp y x = 0"
  using cmp_flip [of x y] cmp_flip [of y x] by linarith

lemma cmp_less_trans: "cmp x y < 0 \<Longrightarrow> cmp y z \<le> 0 \<Longrightarrow> cmp x z < 0"
  by (metis cmp_flip cmp_trans linorder_not_less)

lemma cmp_le_less_trans: "cmp x y \<le> 0 \<Longrightarrow> cmp y z < 0 \<Longrightarrow> cmp x z < 0"
  by (metis cmp_flip cmp_trans linorder_not_less)

lemma sorted_insert_by: "sorted_by cmp ys \<Longrightarrow> sorted_by cmp (insert_by cmp x ys)"
proof (induction ys)
  case (Cons y ys)
  then have ys: "sorted_by cmp (insert_by cmp x ys)" "\<forall>z \<in> set ys. cmp y z \<le> 0"
    by (auto simp: sorted_by_def)
  show ?case
  proof (cases "cmp x y < 0")
    case True
    then have "cmp x z \<le> 0" if "z \<in> set ys" for z
      using that ys(2) cmp_less_trans by fastforce
    with True Cons.prems show ?thesis
      by (auto simp: sorted_by_def)
  next
    case False
    then have "cmp y x \<le> 0" using cmp_flip [of x y] by linarith
    with ys False show ?thesis by (auto simp: sorted_by_def)
  qed
qed (simp add: sorted_by_def)

lemma sorted_slices_sort: "sorted_by cmp (slices_sort cmp xs)"
proof -
  have "sorted_by cmp ys \<Longrightarrow> sorted_by cmp (fold (insert_by cmp) xs ys)" for ys
    by (induction xs arbitrary: ys) (auto simp: sorted_insert_by)
  then show ?thesis by (simp add: slices_sort_def sorted_by_def)
qed

lemma slices_sort_sorted: "sorted_by cmp xs \<Longrightarrow> slices_sort cmp xs = xs"
proof -
  have snoc: "\<forall>z \<in> set ys. cmp z x \<le> 0 \<Longrightarrow> insert_by cmp x ys = ys @ [x]" for x ys
    by (induction ys) (use cmp_flip in fastforce)+
  have "sorted_by cmp (ys @ xs) \<Longrightarrow> fold (insert_by cmp) xs ys = ys @ xs" for ys
  proof (induction xs arbitrary: ys)
    case (Cons x xs)
    then have "sorted_by cmp ((ys @ [x]) @ xs)" and "\<forall>z \<in> set ys. cmp z x \<le> 0"
      by (auto simp: sorted_by_def sorted_wrt_append)
    with Cons.IH [of "ys @ [x]"] snoc [of ys x] show ?case by simp
  qed simp
  then show "sorted_by cmp xs \<Longrightarrow> slices_sort cmp xs = xs"
    by (simp add: slices_sort_def)
qed

lemma sorted_by_prefix_closed:
  assumes "sorted_by cmp xs" "i \<le> j" "j < length xs"
  shows "cmp (xs ! i) (xs ! j) \<le> 0"
proof (cases "i = j")
  case False
  with assms show ?thesis
    by (auto simp: sorted_by_def sorted_wrt_iff_nth_less)
qed (simp add: cmp_refl)

text \<open>
  The position the binary search returns separates the elements below the target from
  the others.
\<close>

lemma bsearch_position:
  assumes "sorted_by cmp xs"
    and "k = length (takeWhile (\<lambda>x. cmp x t < 0) xs)"
  shows "bsearch_loop (\<lambda>h. cmp (xs ! h) t < 0) 0 (length xs) = k"
proof (rule bsearch_loop_split)
  show "0 \<le> k" by simp
  show "k \<le> length xs" by (simp add: assms(2) length_takeWhile_le)
  show "\<And>h. 0 \<le> h \<Longrightarrow> h < k \<Longrightarrow> cmp (xs ! h) t < 0"
    using assms(2) nth_takeWhile_less [of _ "\<lambda>x. cmp x t < 0" xs] by simp
  fix h assume h: "k \<le> h" "h < length xs"
  then have "\<not> cmp (xs ! k) t < 0"
    using assms(2) nth_length_takeWhile [of "\<lambda>x. cmp x t < 0" xs] by auto
  moreover have "cmp (xs ! k) (xs ! h) \<le> 0"
    using sorted_by_prefix_closed [OF assms(1) h] .
  ultimately show "\<not> cmp (xs ! h) t < 0" using cmp_le_less_trans by blast
qed

lemma binary_search_found_iff:
  assumes "sorted_by cmp xs"
  shows "snd (slices_binary_search (\<lambda>x. cmp x t) xs) \<longleftrightarrow> (\<exists>x \<in> set xs. cmp x t = 0)"
proof
  assume "snd (slices_binary_search (\<lambda>x. cmp x t) xs)"
  then show "\<exists>x \<in> set xs. cmp x t = 0"
    by (auto simp: slices_binary_search_def Let_def)
next
  assume "\<exists>x \<in> set xs. cmp x t = 0"
  then obtain i where i: "i < length xs" "cmp (xs ! i) t = 0"
    by (auto simp: in_set_conv_nth)
  define k where "k = length (takeWhile (\<lambda>x. cmp x t < 0) xs)"
  have ki: "k \<le> i"
  proof (rule ccontr)
    assume "\<not> k \<le> i"
    then have "i < length (takeWhile (\<lambda>x. cmp x t < 0) xs)" using k_def by simp
    then have "cmp (xs ! i) t < 0" by (rule nth_takeWhile_less)
    with i show False by simp
  qed
  with i have k: "k < length xs" by simp
  then have "\<not> cmp (xs ! k) t < 0"
    using k_def nth_length_takeWhile [of "\<lambda>x. cmp x t < 0" xs] by auto
  moreover have "cmp (xs ! k) t \<le> 0"
    using sorted_by_prefix_closed [OF assms ki i(1)] i(2) cmp_trans by fastforce
  ultimately have "cmp (xs ! k) t = 0" by simp
  with k show "snd (slices_binary_search (\<lambda>x. cmp x t) xs)"
    by (simp add: slices_binary_search_def Let_def bsearch_position [OF assms k_def])
qed

lemma sorted_by_unique:
  assumes "sorted_by cmp xs" "sorted_by cmp ys" "mset xs = mset ys"
    and "\<And>x y. x \<in> set xs \<Longrightarrow> y \<in> set xs \<Longrightarrow> cmp x y = 0 \<Longrightarrow> x = y"
  shows "xs = ys"
  using assms
proof (induction xs arbitrary: ys)
  case (Cons x xs)
  from Cons.prems(3) obtain y ys' where ys: "ys = y # ys'" by (cases ys) auto
  have sets: "insert x (set xs) = insert y (set ys')"
    using Cons.prems(3) ys by (metis list.simps(15) set_mset_mset)
  have "y \<in> insert x (set xs)" "x \<in> insert y (set ys')" using sets by auto
  then have "cmp x y \<le> 0" "cmp y x \<le> 0"
    using Cons.prems(1,2) ys by (auto simp: sorted_by_def cmp_refl)
  then have "cmp x y = 0" using cmp_flip [of x y] by linarith
  with Cons.prems(4) sets have xy: "x = y" by auto
  have "xs = ys'"
  proof (rule Cons.IH)
    show "mset xs = mset ys'" using Cons.prems(3) ys xy by simp
    show "\<And>x y. x \<in> set xs \<Longrightarrow> y \<in> set xs \<Longrightarrow> cmp x y = 0 \<Longrightarrow> x = y"
      using Cons.prems(4) by simp
  qed (use Cons.prems(1,2) ys in \<open>auto simp: sorted_by_def\<close>)
  with ys xy show ?case by simp
qed simp

lemma comparison_by: "comparison (\<lambda>a b. cmp (f a) (f b))"
  by unfold_locales (use cmp_refl cmp_flip cmp_trans in blast)+

end

end
