(* ===== verification/Go_Strings.thy ===== *)
theory Go_Strings
  imports Stork_Prelude "HOL-Library.Char_ord" "HOL-Library.List_Lexorder" "HOL-Library.Sublist"
begin

text \<open>
  The functions of the Go packages \<open>strings\<close> and \<open>strconv\<close> that the modelled code calls.
  A Go string is a sequence of bytes, which is what \<^typ>\<open>string\<close> is; \<open><\<close> on strings is
  the bytewise lexicographic order.
\<close>

section \<open>Splitting, joining, trimming\<close>

text \<open>\<open>strings.Split\<close> with a one-byte separator: always at least one piece.\<close>

fun strings_split :: "char \<Rightarrow> string \<Rightarrow> string list" where
  "strings_split c [] = [[]]"
| "strings_split c (x # xs) =
     (if x = c then [] # strings_split c xs
      else (case strings_split c xs of [] \<Rightarrow> [[x]] | p # ps \<Rightarrow> (x # p) # ps))"

fun strings_join :: "string \<Rightarrow> string list \<Rightarrow> string" where
  "strings_join sep [] = []"
| "strings_join sep [x] = x"
| "strings_join sep (x # y # ys) = x @ sep @ strings_join sep (y # ys)"

text \<open>\<open>strings.Cut\<close> at the first occurrence of a byte.\<close>

fun strings_cut :: "char \<Rightarrow> string \<Rightarrow> (string \<times> string) option" where
  "strings_cut c [] = None"
| "strings_cut c (x # xs) =
     (if x = c then Some ([], xs) else map_option (\<lambda>(a, b). (x # a, b)) (strings_cut c xs))"

definition strings_compare :: "string \<Rightarrow> string \<Rightarrow> int" where
  "strings_compare a b = (if a = b then 0 else if a < b then -1 else 1)"

text \<open>
  \<open>strings.TrimSpace\<close> removes leading and trailing Unicode white space: the ASCII
  characters, and the UTF-8 encodings of the others.
\<close>

definition go_spaces :: "nat list list" where
  "go_spaces = [[9], [10], [11], [12], [13], [32], [0xC2, 0x85], [0xC2, 0xA0], [0xE1, 0x9A, 0x80],
     [0xE2, 0x80, 0xA8], [0xE2, 0x80, 0xA9], [0xE2, 0x80, 0xAF], [0xE2, 0x81, 0x9F],
     [0xE3, 0x80, 0x80]] @ map (\<lambda>k. [0xE2, 0x80, k]) [0x80..<0x8B]"

definition space_codes :: "string list" where
  "space_codes = map (map char_of) go_spaces"

fun strip_first :: "string list \<Rightarrow> string \<Rightarrow> string option" where
  "strip_first [] s = None"
| "strip_first (w # ws) s =
     (if take (length w) s = w then Some (drop (length w) s) else strip_first ws s)"

fun trim_left_n :: "nat \<Rightarrow> string list \<Rightarrow> string \<Rightarrow> string" where
  "trim_left_n 0 ws s = s"
| "trim_left_n (Suc n) ws s =
     (case strip_first ws s of None \<Rightarrow> s | Some s' \<Rightarrow> trim_left_n n ws s')"

definition trim_space :: "string \<Rightarrow> string" where
  "trim_space s =
     (let l = trim_left_n (length s) space_codes s
      in rev (trim_left_n (length l) (map rev space_codes) (rev l)))"

section \<open>Decimal numbers\<close>

definition digit_char :: "nat \<Rightarrow> char" where
  "digit_char d = char_of (48 + d)"

fun nat_str :: "nat \<Rightarrow> string" where
  "nat_str n = (if n < 10 then [digit_char n] else nat_str (n div 10) @ [digit_char (n mod 10)])"

declare nat_str.simps [simp del]

text \<open>\<open>fmt.Sprintf("%d", \<dots>)\<close> of a signed integer.\<close>

definition int_str :: "int \<Rightarrow> string" where
  "int_str i = (if i < 0 then CHR ''-'' # nat_str (nat (- i)) else nat_str (nat i))"

definition is_digit :: "char \<Rightarrow> bool" where
  "is_digit c = (48 \<le> (of_char c :: nat) \<and> (of_char c :: nat) \<le> 57)"

definition digit_val :: "char \<Rightarrow> nat" where
  "digit_val c = of_char c - 48"

section \<open>Facts\<close>

lemma strings_split_nonempty [simp]: "strings_split c s \<noteq> []"
  by (induction s) (auto split: list.splits)

lemma strings_split_no_sep [simp]: "c \<notin> set s \<Longrightarrow> strings_split c s = [s]"
  by (induction s) auto

lemma strings_split_pieces: "p \<in> set (strings_split c s) \<Longrightarrow> c \<notin> set p"
  by (induction s arbitrary: p) (auto split: if_splits list.splits)

lemma strings_join_split: "strings_join [c] (strings_split c s) = s"
proof (induction s)
  case (Cons x xs)
  show ?case
  proof (cases "strings_split c xs")
    case (Cons p ps)
    with Cons.IH show ?thesis by (cases ps) auto
  qed (use strings_split_nonempty in blast)
qed simp

lemma strings_split_app:
  "c \<notin> set p \<Longrightarrow> strings_split c (p @ c # s) = p # strings_split c s"
  by (induction p) auto

lemma strings_split_join:
  assumes "ps \<noteq> []" "\<And>p. p \<in> set ps \<Longrightarrow> c \<notin> set p"
  shows "strings_split c (strings_join [c] ps) = ps"
  using assms by (induction "[c]" ps rule: strings_join.induct) (auto simp: strings_split_app)

lemma strings_cut_Some: "strings_cut c s = Some (a, b) \<Longrightarrow> s = a @ c # b \<and> c \<notin> set a"
  by (induction s arbitrary: a) (auto split: if_splits)

lemma strings_cut_app: "c \<notin> set a \<Longrightarrow> strings_cut c (a @ c # b) = Some (a, b)"
  by (induction a) auto

lemma strings_cut_None: "strings_cut c s = None \<longleftrightarrow> c \<notin> set s"
  by (induction s) auto

interpretation string_order: comparison strings_compare
  by unfold_locales (auto simp: strings_compare_def split: if_splits)

lemma of_char_digit: "d < 10 \<Longrightarrow> of_char (digit_char d) = 48 + d"
  by (simp add: digit_char_def)

lemma is_digit_digit_char [simp]: "d < 10 \<Longrightarrow> is_digit (digit_char d)"
  by (simp add: is_digit_def of_char_digit)

lemma digit_val_digit_char [simp]: "d < 10 \<Longrightarrow> digit_val (digit_char d) = d"
  by (simp add: digit_val_def of_char_digit)

lemma nat_str_digits: "c \<in> set (nat_str n) \<Longrightarrow> is_digit c"
proof (induction n rule: nat_str.induct)
  case (1 n)
  then show ?case
    by (cases "n < 10") (auto simp: nat_str.simps [of n])
qed

lemma nat_str_value: "foldl (\<lambda>a c. 10 * a + digit_val c) 0 (nat_str n) = n"
proof (induction n rule: nat_str.induct)
  case (1 n)
  then show ?case
    by (cases "n < 10") (auto simp: nat_str.simps [of n])
qed

lemma nat_str_inject: "nat_str m = nat_str n \<longleftrightarrow> m = n"
  by (metis nat_str_value)

lemma nat_str_not_Nil [simp]: "nat_str n \<noteq> []"
  by (cases "n < 10") (auto simp: nat_str.simps [of n])

text \<open>The encodings written out, for the evaluation of \<^const>\<open>trim_space\<close>.\<close>

lemma space_codes_eq: "space_codes = [[CHR 0x09], [CHR 0x0A], [CHR 0x0B], [CHR 0x0C], [CHR 0x0D], [CHR 0x20],
     [CHR 0xC2, CHR 0x85], [CHR 0xC2, CHR 0xA0], [CHR 0xE1, CHR 0x9A, CHR 0x80],
     [CHR 0xE2, CHR 0x80, CHR 0xA8], [CHR 0xE2, CHR 0x80, CHR 0xA9], [CHR 0xE2, CHR 0x80, CHR 0xAF],
     [CHR 0xE2, CHR 0x81, CHR 0x9F], [CHR 0xE3, CHR 0x80, CHR 0x80]] @
     map (\<lambda>c. [CHR 0xE2, CHR 0x80, c])
       [CHR 0x80, CHR 0x81, CHR 0x82, CHR 0x83, CHR 0x84, CHR 0x85, CHR 0x86, CHR 0x87, CHR 0x88, CHR 0x89, CHR 0x8A]"
  by code_simp

lemmas trim_space_eval = trim_space_def space_codes_eq Let_def numeral_eq_Suc

text \<open>Trimming leaves nothing to trim.\<close>

lemma strip_first_None: "strip_first ws s = None \<longleftrightarrow> (\<forall>w \<in> set ws. take (length w) s \<noteq> w)"
  by (induction ws) auto

lemma strip_first_length: "strip_first ws s = Some t \<Longrightarrow> [] \<notin> set ws \<Longrightarrow> length t < length s"
proof (induction ws)
  case (Cons w ws)
  show ?case
  proof (cases "take (length w) s = w")
    case True
    with Cons.prems have "t = drop (length w) s" "w \<noteq> []" by auto
    moreover have "s \<noteq> []" using True \<open>w \<noteq> []\<close> by auto
    ultimately show ?thesis by simp
  qed (use Cons in auto)
qed simp

lemma trim_left_n_None: "length s \<le> n \<Longrightarrow> [] \<notin> set ws \<Longrightarrow> strip_first ws (trim_left_n n ws s) = None"
proof (induction n arbitrary: s)
  case 0
  then show ?case by (auto simp: strip_first_None)
next
  case (Suc n)
  show ?case
  proof (cases "strip_first ws s")
    case (Some t)
    with Suc.prems strip_first_length [OF Some] have "length t \<le> n" by simp
    with Suc Some show ?thesis by simp
  qed simp
qed

lemma trim_left_n_id: "strip_first ws s = None \<Longrightarrow> trim_left_n n ws s = s"
  by (cases n) simp_all

lemma strip_first_prefix: "strip_first ws (a @ b) = None \<Longrightarrow> strip_first ws a = None"
  unfolding strip_first_None by (metis append_take_drop_id length_take min.absorb2 nle_le take_append take_all_iff append_Nil2 diff_is_0_eq' take_0)

lemma trim_left_n_suffix: "\<exists>p. s = p @ trim_left_n n ws s"
proof (induction n arbitrary: s)
  case (Suc n)
  show ?case
  proof (cases "strip_first ws s")
    case (Some t)
    have "strip_first vs s = Some t \<Longrightarrow> \<exists>p. s = p @ t" for vs
    proof (induction vs)
      case (Cons w vs)
      show ?case
      proof (cases "take (length w) s = w")
        case True
        with Cons.prems have "s = take (length w) s @ t" by (metis append_take_drop_id option.inject strip_first.simps(2))
        then show ?thesis by blast
      qed (use Cons in auto)
    qed simp
    with Some obtain p where p: "s = p @ t" by blast
    from Suc.IH [of t] obtain q where "t = q @ trim_left_n n ws t" by blast
    with p have "s = (p @ q) @ trim_left_n n ws t" by simp
    with Some show ?thesis by (intro exI [of _ "p @ q"]) simp
  qed simp
qed simp

lemma space_codes_nonempty: "[] \<notin> set space_codes" "[] \<notin> set (map rev space_codes)"
  by (auto simp: space_codes_eq)

lemma trim_space_none:
  "strip_first space_codes (trim_space s) = None" "strip_first (map rev space_codes) (rev (trim_space s)) = None"
proof -
  define l where "l = trim_left_n (length s) space_codes s"
  define r where "r = trim_left_n (length l) (map rev space_codes) (rev l)"
  have t: "trim_space s = rev r" by (simp add: trim_space_def l_def r_def Let_def)
  have nl: "strip_first space_codes l = None"
    unfolding l_def by (rule trim_left_n_None) (use space_codes_nonempty in auto)
  have nr: "strip_first (map rev space_codes) r = None"
    unfolding r_def by (rule trim_left_n_None) (use space_codes_nonempty in auto)
  from trim_left_n_suffix [of "rev l" "length l" "map rev space_codes"] obtain p where "rev l = p @ r"
    unfolding r_def by blast
  then have "l = rev r @ rev p" by (metis rev_append rev_rev_ident)
  with nl show "strip_first space_codes (trim_space s) = None" unfolding t using strip_first_prefix by metis
  from nr show "strip_first (map rev space_codes) (rev (trim_space s)) = None" unfolding t by simp
qed

lemma trim_spaceI:
  assumes "strip_first space_codes s = None" and "strip_first (map rev space_codes) (rev s) = None"
  shows "trim_space s = s"
  using trim_left_n_id [OF assms(1)] trim_left_n_id [OF assms(2)] by (simp add: trim_space_def)

lemma trim_space_idem [simp]: "trim_space (trim_space s) = trim_space s"
  by (rule trim_spaceI) (rule trim_space_none)+

end
