(* ===== verification/Dns_Names.thy ===== *)
theory Dns_Names
  imports Go_Strings
begin

text \<open>
  DNS names: the file \<open>util/fqdn.go\<close>.  \<open>CompareNames\<close> orders zones in the DNS order used by
  the zone collections, the zone inventory and the database; \<open>ConvertNameToRname\<close> gives the
  string the database orders by; \<open>ParseFqdn\<close> and \<open>ToBytes\<close> are the FQDN parser and its wire form.

  \<open>dns.SplitDomainName\<close> is a function of the third-party module \<open>miekg/dns\<close>: it is the
  parameter \<open>split\<close> of the definitions that call it.
\<close>

section \<open>Ordering of names\<close>

text \<open>
  The loop of \<open>CompareNames\<close> walks both label lists from the last label on: here it is the
  recursion over the reversed lists.
\<close>

fun compare_labels :: "string list \<Rightarrow> string list \<Rightarrow> int" where
  "compare_labels [] [] = 0"
| "compare_labels [] (b # bs) = -1"
| "compare_labels (a # as) [] = 1"
| "compare_labels (a # as) (b # bs) =
     (if b = a then compare_labels as bs else if a < b then -1 else 1)"

definition compare_names :: "(string \<Rightarrow> string list) \<Rightarrow> string \<Rightarrow> string \<Rightarrow> int" where
  "compare_names split name1 name2 = compare_labels (rev (split name1)) (rev (split name2))"

definition convert_name_to_rname :: "(string \<Rightarrow> string list) \<Rightarrow> string \<Rightarrow> string" where
  "convert_name_to_rname split name = strings_join ''.'' (rev (split name))"

lemma compare_labels_range: "compare_labels a b \<in> {-1, 0, 1}"
  by (induction a b rule: compare_labels.induct) auto

lemma compare_labels_eq_0: "compare_labels a b = 0 \<longleftrightarrow> a = b"
  by (induction a b rule: compare_labels.induct) auto

lemma compare_labels_less: "compare_labels a b < 0 \<longleftrightarrow> a < b"
  by (induction a b rule: compare_labels.induct) auto

lemma compare_labels_sgn: "compare_labels a b = (if a = b then 0 else if a < b then -1 else 1)"
  using compare_labels_range [of a b] compare_labels_eq_0 [of a b] compare_labels_less [of a b]
  by auto

lemma compare_names_sgn [stork_simps]:
  "compare_names split m n =
     (if rev (split m) = rev (split n) then 0 else if rev (split m) < rev (split n) then -1 else 1)"
  by (simp only: compare_names_def compare_labels_sgn)

lemma compare_names_comparison: "comparison (compare_names split)"
  by unfold_locales (auto simp: compare_names_sgn split: if_splits)

lemma compare_names_eq_0 [simp]: "compare_names split m n = 0 \<longleftrightarrow> split m = split n"
  by (simp add: compare_names_sgn)

lemma compare_names_same [simp]: "split m = split n \<Longrightarrow> compare_names split m n = 0"
  by simp

lemma compare_names_1: "compare_names split m n = 1 \<longleftrightarrow> 0 < compare_names split m n"
  by (simp add: compare_names_sgn)

interpretation dns_order: comparison "compare_names split" for split
  by (rule compare_names_comparison)

section \<open>Fully qualified domain names\<close>

record fqdn =
  fq_labels :: "string list"
  fq_partial :: bool

datatype fqdn_error =
    EmptyFqdn
  | TooFewLabels
  | LastLabelTooShort
  | LastLabelNotLetters
  | EmptyLabel
  | BadLabelChar

definition fqdn_is_partial :: "fqdn \<Rightarrow> bool" where
  "fqdn_is_partial f = fq_partial f"

definition is_letter :: "char \<Rightarrow> bool" where
  "is_letter c = ((CHR ''a'' \<le> c \<and> c \<le> CHR ''z'') \<or> (CHR ''A'' \<le> c \<and> c \<le> CHR ''Z''))"

text \<open>The checks of one label: the last one of a full FQDN, and any other one.\<close>

definition check_last_label :: "string \<Rightarrow> fqdn_error option" where
  "check_last_label label =
     (if length label < 2 then Some LastLabelTooShort
      else if \<exists>c \<in> set label. \<not> is_letter c then Some LastLabelNotLetters else None)"

fun bad_label_char :: "nat \<Rightarrow> nat \<Rightarrow> string \<Rightarrow> bool" where
  "bad_label_char n i [] = False"
| "bad_label_char n i (c # cs) =
     (if \<not> is_letter c \<and> \<not> is_digit c \<and> (i = 0 \<or> i = n - 1 \<or> c \<noteq> CHR ''-'') then True
      else bad_label_char n (i + 1) cs)"

definition check_label :: "string \<Rightarrow> fqdn_error option" where
  "check_label label =
     (if label = [] then Some EmptyLabel
      else if bad_label_char (length label) 0 label then Some BadLabelChar else None)"

fun check_labels :: "bool \<Rightarrow> nat \<Rightarrow> nat \<Rightarrow> string list \<Rightarrow> fqdn_error option" where
  "check_labels full n i [] = None"
| "check_labels full n i (l # ls) =
     (case (if full \<and> i = n - 1 then check_last_label l else check_label l) of
        Some e \<Rightarrow> Some e
      | None \<Rightarrow> check_labels full n (i + 1) ls)"

definition parse_fqdn :: "string \<Rightarrow> fqdn_error + fqdn" where
  "parse_fqdn s0 =
     (let s = trim_space s0 in
      if length s = 0 then Inl EmptyFqdn
      else
        let full = (last s = CHR ''.'');
            labels0 = strings_split (CHR ''.'') s;
            labels = (if full then butlast labels0 else labels0)
        in if full \<and> length labels < 3 then Inl TooFewLabels
           else (case check_labels full (length labels) 0 labels of
                   Some e \<Rightarrow> Inl e
                 | None \<Rightarrow> Inr \<lparr>fq_labels = labels, fq_partial = \<not> full\<rparr>))"

text \<open>
  \<open>ToBytes\<close>: each label behind a byte with its length, and a zero byte for a full name.
  \<open>byte(len(label))\<close> keeps the low eight bits of the length.  Writing to a
  \<open>bytes.Buffer\<close> never fails.
\<close>

definition fqdn_to_bytes :: "fqdn \<Rightarrow> string" where
  "fqdn_to_bytes f =
     concat (map (\<lambda>l. char_of (length l mod 256) # l) (fq_labels f)) @
     (if fq_partial f then [] else [char_of (0::nat)])"

section \<open>What the parser accepts, and its round trips\<close>

definition valid_label :: "string \<Rightarrow> bool" where
  "valid_label l \<longleftrightarrow> l \<noteq> [] \<and> (\<forall>c \<in> set l. is_letter c \<or> is_digit c \<or> c = CHR ''-'') \<and>
     hd l \<noteq> CHR ''-'' \<and> last l \<noteq> CHR ''-''"

definition valid_last_label :: "string \<Rightarrow> bool" where
  "valid_last_label l \<longleftrightarrow> 2 \<le> length l \<and> (\<forall>c \<in> set l. is_letter c)"

lemma check_last_label_None: "check_last_label l = None \<longleftrightarrow> valid_last_label l"
  by (auto simp: check_last_label_def valid_last_label_def)

lemma bad_label_char_iff:
  "bad_label_char n i cs \<longleftrightarrow>
     (\<exists>j < length cs. \<not> is_letter (cs ! j) \<and> \<not> is_digit (cs ! j) \<and>
        (i + j = 0 \<or> i + j = n - 1 \<or> cs ! j \<noteq> CHR ''-''))"
proof (induction n i cs rule: bad_label_char.induct)
  case (2 n i c cs)
  then show ?case by (auto simp: less_Suc_eq_0_disj)
qed simp

lemma hyphen_not_alnum [simp]: "\<not> is_letter CHR ''-''" "\<not> is_digit CHR ''-''"
  by (simp_all add: is_letter_def is_digit_def less_eq_char_def)

lemma check_label_None: "check_label l = None \<longleftrightarrow> valid_label l"
proof (cases "l = []")
  case False
  let ?ok = "\<lambda>c. is_letter c \<or> is_digit c"
  let ?good = "\<lambda>j. ?ok (l ! j) \<or> j \<noteq> 0 \<and> j \<noteq> length l - 1 \<and> l ! j = CHR ''-''"
  have "\<not> bad_label_char (length l) 0 l \<longleftrightarrow> (\<forall>j < length l. ?good j)"
    unfolding bad_label_char_iff by auto
  also have "\<dots> \<longleftrightarrow> valid_label l"
  proof
    assume R: "\<forall>j < length l. ?good j"
    from R [rule_format, of 0] R [rule_format, of "length l - 1"] False
    have "?ok (hd l)" "?ok (last l)" by (simp_all add: hd_conv_nth last_conv_nth)
    then have "hd l \<noteq> CHR ''-''" "last l \<noteq> CHR ''-''" by auto
    with R False show "valid_label l"
      unfolding valid_label_def all_set_conv_all_nth by blast
  next
    assume V: "valid_label l"
    then have "l ! 0 \<noteq> CHR ''-''" "l ! (length l - 1) \<noteq> CHR ''-''"
      using False by (simp_all add: valid_label_def hd_conv_nth last_conv_nth)
    with V show "\<forall>j < length l. ?good j"
      unfolding valid_label_def all_set_conv_all_nth by metis
  qed
  finally have "bad_label_char (length l) 0 l \<longleftrightarrow> \<not> valid_label l" by blast
  with False show ?thesis by (simp add: check_label_def)
qed (simp add: check_label_def valid_label_def)

lemma check_labels_Cons:
  "check_labels full n i (l # ls) = None \<longleftrightarrow>
     (if full \<and> i = n - 1 then check_last_label l else check_label l) = None \<and>
     check_labels full n (i + 1) ls = None"
  unfolding check_labels.simps
  by (cases "if full \<and> i = n - 1 then check_last_label l else check_label l") (simp_all only: option.case simp_thms option.distinct)

lemma check_labels_None:
  "check_labels full n i ls = None \<longleftrightarrow>
     (\<forall>j < length ls. if full \<and> i + j = n - 1 then valid_last_label (ls ! j) else valid_label (ls ! j))"
proof (induction ls arbitrary: i)
  case (Cons l ls)
  have tail: "check_labels full n (i + 1) ls = None \<longleftrightarrow>
      (\<forall>j < length ls. if full \<and> i + Suc j = n - 1 then valid_last_label (ls ! j) else valid_label (ls ! j))"
    using Cons.IH [of "i + 1"] by simp
  show ?case
    unfolding check_labels_Cons length_Cons All_less_Suc2 nth_Cons_0 nth_Cons_Suc add_0_right tail
    by (simp only: if_distrib [of "\<lambda>x. x = None"] check_last_label_None check_label_None)
qed simp

lemma strings_split_snoc: "strings_split c (t @ [c]) = strings_split c t @ [[]]"
proof (induction t)
  case (Cons x t)
  then show ?case by (cases "strings_split c t") auto
qed simp

lemma strings_join_snoc: "ps \<noteq> [] \<Longrightarrow> strings_join sep (ps @ [[]]) = strings_join sep ps @ sep"
  by (induction sep ps rule: strings_join.induct) auto

lemma parse_fqdn_cases:
  assumes "parse_fqdn s = Inr f"
  defines "t \<equiv> trim_space s"
  defines "full \<equiv> last t = CHR ''.''"
  defines "labels \<equiv> if full then butlast (strings_split (CHR ''.'') t) else strings_split (CHR ''.'') t"
  shows "t \<noteq> []" and "full \<Longrightarrow> 3 \<le> length labels"
    and "check_labels full (length labels) 0 labels = None"
    and "f = \<lparr>fq_labels = labels, fq_partial = \<not> full\<rparr>"
proof -
  have eq: "parse_fqdn s = (if length t = 0 then Inl EmptyFqdn
      else if full \<and> length labels < 3 then Inl TooFewLabels
      else case check_labels full (length labels) 0 labels of
             Some e \<Rightarrow> Inl e | None \<Rightarrow> Inr \<lparr>fq_labels = labels, fq_partial = \<not> full\<rparr>)"
    unfolding parse_fqdn_def Let_def t_def full_def labels_def ..
  show "t \<noteq> []" using assms(1) eq by auto
  show "full \<Longrightarrow> 3 \<le> length labels" using assms(1) eq by (auto split: if_splits)
  show "check_labels full (length labels) 0 labels = None"
    using assms(1) eq by (auto split: if_splits option.splits)
  show "f = \<lparr>fq_labels = labels, fq_partial = \<not> full\<rparr>"
    using assms(1) eq by (auto split: if_splits option.splits)
qed

lemma parse_fqdn_Inr:
  assumes "parse_fqdn s = Inr f"
  shows "fq_labels f \<noteq> []" and "\<forall>l \<in> set (fq_labels f). valid_label l \<or> valid_last_label l"
    and "strings_join ''.'' (fq_labels f) @ (if fq_partial f then [] else ''.'') = trim_space s"
proof -
  let ?s = "trim_space s"
  let ?full = "last ?s = CHR ''.''"
  let ?ls = "strings_split (CHR ''.'') ?s"
  let ?labels = "if ?full then butlast ?ls else ?ls"
  from assms have ne: "?s \<noteq> []" and len: "?full \<Longrightarrow> 3 \<le> length ?labels"
    and chk: "check_labels ?full (length ?labels) 0 ?labels = None"
    and f: "f = \<lparr>fq_labels = ?labels, fq_partial = \<not> ?full\<rparr>"
    using parse_fqdn_cases [OF assms] by simp_all
  show "fq_labels f \<noteq> []"
  proof (cases ?full)
    case True
    with len have "3 \<le> length ?labels" .
    with f show ?thesis by (metis fqdn.select_convs(1) le_zero_eq list.size(3) zero_neq_numeral)
  qed (simp add: f)
  show "\<forall>l \<in> set (fq_labels f). valid_label l \<or> valid_last_label l"
  proof
    fix l assume "l \<in> set (fq_labels f)"
    then obtain j where "j < length ?labels" "l = ?labels ! j"
      using f by (auto simp: in_set_conv_nth)
    with chk [unfolded check_labels_None, rule_format, of j]
    show "valid_label l \<or> valid_last_label l" by (metis (full_types))
  qed
  show "strings_join ''.'' (fq_labels f) @ (if fq_partial f then [] else ''.'') = ?s"
  proof (cases ?full)
    case True
    with ne obtain t where t: "?s = t @ ''.''"
      by (metis append_butlast_last_id)
    have "strings_join ''.'' ?ls = ?s" by (rule strings_join_split)
    with True f t show ?thesis
      by (simp add: strings_split_snoc strings_join_snoc)
  qed (use f strings_join_split in auto)
qed

lemma valid_label_length: "valid_label l \<or> valid_last_label l \<Longrightarrow> 0 < length l"
  by (auto simp: valid_label_def valid_last_label_def)

text \<open>
  The wire format of RFC 1035 read back: a reference decoder, which is not part of the
  program.  The flag says that the terminating zero byte is missing.
\<close>

function decode_wire :: "string \<Rightarrow> (string list \<times> bool) option" where
  "decode_wire [] = Some ([], True)"
| "decode_wire (c # cs) =
     (let n = of_char c in
      if n = 0 then (if cs = [] then Some ([], False) else None)
      else if length cs < n then None
      else map_option (\<lambda>(ls, b). (take n cs # ls, b)) (decode_wire (drop n cs)))"
  by pat_completeness auto
termination
  by (relation "measure length") auto

lemma decode_wire_labels:
  assumes "\<forall>l \<in> set ls. 0 < length l \<and> length l < 256" and "decode_wire t = Some ([], b)"
  shows "decode_wire (concat (map (\<lambda>l. char_of (length l mod 256) # l) ls) @ t) = Some (ls, b)"
  using assms by (induction ls) (auto simp: Let_def)

section \<open>Properties\<close>

text \<open>
  \<open>ParseFqdn\<close> accepts exactly the names it documents.  Without a final dot: labels of
  letters, digits and inner hyphens, none empty.  With a final dot: at least three labels, the
  last one of two letters or more.  It then keeps the labels as they were typed.
\<close>

theorem parse_fqdn_accepts:
  assumes "ls \<noteq> []" "\<forall>l \<in> set ls. CHR ''.'' \<notin> set l"
    and "trim_space s = strings_join ''.'' ls @ (if full then ''.'' else [])"
    and "full \<or> last ls \<noteq> []"
  shows "parse_fqdn s = Inr \<lparr>fq_labels = ls, fq_partial = \<not> full\<rparr> \<longleftrightarrow>
    (if full then 3 \<le> length ls \<and> (\<forall>l \<in> set (butlast ls). valid_label l) \<and> valid_last_label (last ls)
     else \<forall>l \<in> set ls. valid_label l)"
proof -
  let ?s = "trim_space s"
  have split: "strings_split (CHR ''.'') (strings_join ''.'' ls) = ls"
    using assms(1,2) by (simp add: strings_split_join)
  have dot: "last ?s = CHR ''.'' \<longleftrightarrow> full"
  proof (cases full)
    case False
    then have ne: "last ls \<noteq> []" using assms(4) by simp
    have "strings_join ''.'' ls = (if butlast ls = [] then last ls
        else strings_join ''.'' (butlast ls) @ ''.'' @ last ls)"
      using assms(1) by (induction "''.''" ls rule: strings_join.induct) auto
    with ne have "last (strings_join ''.'' ls) = last (last ls)" by simp
    with False ne assms(1-3) show ?thesis by (metis append_Nil2 last_in_set)
  qed (simp add: assms(3))
  have labels: "(if last ?s = CHR ''.'' then butlast (strings_split (CHR ''.'') ?s)
      else strings_split (CHR ''.'') ?s) = ls"
    unfolding dot by (cases full) (simp_all add: assms(3) strings_split_snoc split)
  have ne: "?s \<noteq> []"
  proof
    assume "?s = []"
    with assms(3) have "\<not> full" "strings_join ''.'' ls = []" by (auto split: if_splits)
    then have "ls = [[]]" using split by simp
    with assms(4) \<open>\<not> full\<close> show False by simp
  qed
  have last: "j = length ls - 1 \<Longrightarrow> ls ! j = last ls" for j
    using assms(1) by (simp add: last_conv_nth)
  have "check_labels full (length ls) 0 ls = None \<longleftrightarrow>
      (if full then (\<forall>l \<in> set (butlast ls). valid_label l) \<and> valid_last_label (last ls)
       else \<forall>l \<in> set ls. valid_label l)"
    using assms(1) last unfolding check_labels_None
    by (auto simp: all_set_conv_all_nth nth_butlast)
  then show ?thesis
    using ne labels by (auto simp: parse_fqdn_def Let_def dot split: option.splits)
qed

theorem parse_fqdn_accepts_witness:
  "parse_fqdn '' a-1.example.org. '' = Inr \<lparr>fq_labels = [''a-1'', ''example'', ''org''], fq_partial = \<not> True\<rparr>"
proof -
  have "3 \<le> length [''a-1'', ''example'', ''org''] \<and>
      (\<forall>l \<in> set (butlast [''a-1'', ''example'', ''org'']). valid_label l) \<and>
      valid_last_label (last [''a-1'', ''example'', ''org''])"
    by code_simp
  then show ?thesis
    by (subst parse_fqdn_accepts) code_simp+
qed

text \<open>
  C0: What \<open>ParseFqdn\<close> returns is written back unchanged.  As text, the labels joined by
  dots give the trimmed input.  As bytes, a reader of the RFC 1035 wire format recovers the
  labels and the flag of \<open>ToBytes\<close>, as long as each label's length fits its length byte.
\<close>

theorem fqdn_roundtrips:
  assumes "parse_fqdn s = Inr f" and "\<forall>l \<in> set (fq_labels f). length l < 256"
  shows "decode_wire (fqdn_to_bytes f) = Some (fq_labels f, fqdn_is_partial f) \<and>
    strings_join ''.'' (fq_labels f) @ (if fqdn_is_partial f then [] else ''.'') = trim_space s"
proof
  have "\<forall>l \<in> set (fq_labels f). 0 < length l \<and> length l < 256"
    using parse_fqdn_Inr(2) [OF assms(1)] valid_label_length assms(2) by blast
  then show "decode_wire (fqdn_to_bytes f) = Some (fq_labels f, fqdn_is_partial f)"
    using decode_wire_labels [of "fq_labels f" "[]" True]
      decode_wire_labels [of "fq_labels f" "[char_of (0::nat)]" False]
    by (cases "fq_partial f") (simp_all add: fqdn_to_bytes_def fqdn_is_partial_def)
  show "strings_join ''.'' (fq_labels f) @ (if fqdn_is_partial f then [] else ''.'') = trim_space s"
    using parse_fqdn_Inr(3) [OF assms(1)] by (simp add: fqdn_is_partial_def)
qed

theorem fqdn_roundtrips_witness:
  "decode_wire (fqdn_to_bytes \<lparr>fq_labels = [''foo'', ''bar''], fq_partial = True\<rparr>) =
     Some ([''foo'', ''bar''], True) \<and> strings_join ''.'' [''foo'', ''bar''] = trim_space ''foo.bar''"
proof -
  have "parse_fqdn ''foo.bar'' = Inr \<lparr>fq_labels = [''foo'', ''bar''], fq_partial = True\<rparr>"
    by code_simp
  from fqdn_roundtrips [OF this] show ?thesis by (simp add: fqdn_is_partial_def)
qed

end
