(* ===== verification/Zones.thy ===== *)
theory Zones
  imports Dns_Names
begin

text \<open>
  Zones, views and zone filters: the package \<open>appdata/bind9stats\<close> (\<open>zone.go\<close>, \<open>view.go\<close>,
  \<open>filter.go\<close>).  The search functions are generic in the code (they take anything with a
  \<open>Name()\<close>); here the accessor is the argument \<open>nm\<close>.  A pointer that may be nil is an
  option; \<open>time.Time\<close> is an instant, an integer, and its zero value is \<open>zero_time\<close>.
\<close>

type_synonym time = int

abbreviation (input) zero_time :: time where "zero_time \<equiv> 0"

record zone =
  zone_name :: string
  zone_class :: string
  zone_serial :: int
  zone_type :: string
  zone_loaded :: time

text \<open>\<open>ExtendedZone\<close>: the zone with the name of its view and the inventory's total.\<close>

record extended_zone =
  ez_zone :: zone
  ez_view_name :: string
  ez_total_zone_count :: int

record zone_filter =
  zf_view :: "string option"
  zf_lower_bound :: "string option"
  zf_limit :: "int option"
  zf_loaded_after :: "time option"
  zf_offset :: "int option"

definition new_zone_filter :: zone_filter where
  "new_zone_filter = \<lparr>zf_view = None, zf_lower_bound = None, zf_limit = None,
     zf_loaded_after = None, zf_offset = None\<rparr>"

definition set_view :: "string \<Rightarrow> zone_filter \<Rightarrow> zone_filter" where
  "set_view view f = f\<lparr>zf_view := Some (trim_space view)\<rparr>"

definition set_loaded_after :: "time \<Rightarrow> zone_filter \<Rightarrow> zone_filter" where
  "set_loaded_after t f = f\<lparr>zf_loaded_after := Some t\<rparr>"

definition set_lower_bound :: "string \<Rightarrow> int \<Rightarrow> zone_filter \<Rightarrow> zone_filter" where
  "set_lower_bound lb limit f = f\<lparr>zf_lower_bound := Some lb, zf_limit := Some limit\<rparr>"

definition set_offset_limit :: "int \<Rightarrow> int \<Rightarrow> zone_filter \<Rightarrow> zone_filter" where
  "set_offset_limit offset limit f = f\<lparr>zf_offset := Some offset, zf_limit := Some limit\<rparr>"

section \<open>Searching a zone collection\<close>

definition binary_zone_search_threshold :: nat where
  "binary_zone_search_threshold = 3000"

fun linear_search_from :: "('z \<Rightarrow> string) \<Rightarrow> string \<Rightarrow> int \<Rightarrow> 'z list \<Rightarrow> int" where
  "linear_search_from nm name i [] = -1"
| "linear_search_from nm name i (z # zs) =
     (if nm z = name then i else linear_search_from nm name (i + 1) zs)"

definition linear_search_zone :: "('z \<Rightarrow> string) \<Rightarrow> 'z list \<Rightarrow> string \<Rightarrow> int" where
  "linear_search_zone nm zones name = linear_search_from nm name 0 zones"

definition binary_search_zone ::
    "(string \<Rightarrow> string list) \<Rightarrow> ('z \<Rightarrow> string) \<Rightarrow> 'z list \<Rightarrow> string \<Rightarrow> int" where
  "binary_search_zone split nm zones name =
     (case slices_binary_search (\<lambda>z. compare_names split (nm z) name) zones of
        (index, ok) \<Rightarrow> if ok then int index else -1)"

definition search_zone ::
    "(string \<Rightarrow> string list) \<Rightarrow> ('z \<Rightarrow> string) \<Rightarrow> 'z list \<Rightarrow> string \<Rightarrow> int" where
  "search_zone split nm zones name =
     (if length zones < binary_zone_search_threshold then linear_search_zone nm zones name
      else binary_search_zone split nm zones name)"

fun linear_lower_bound_from ::
    "(string \<Rightarrow> string list) \<Rightarrow> ('z \<Rightarrow> string) \<Rightarrow> string \<Rightarrow> int \<Rightarrow> 'z list \<Rightarrow> int \<times> bool" where
  "linear_lower_bound_from split nm name i [] = (-1, False)"
| "linear_lower_bound_from split nm name i (z # zs) =
     (let c = compare_names split (nm z) name in
      if c = 0 then (i, True) else if c = 1 then (i, False)
      else linear_lower_bound_from split nm name (i + 1) zs)"

definition linear_search_zone_lower_bound ::
    "(string \<Rightarrow> string list) \<Rightarrow> ('z \<Rightarrow> string) \<Rightarrow> 'z list \<Rightarrow> string \<Rightarrow> int \<times> bool" where
  "linear_search_zone_lower_bound split nm zones name = linear_lower_bound_from split nm name 0 zones"

definition binary_search_zone_lower_bound ::
    "(string \<Rightarrow> string list) \<Rightarrow> ('z \<Rightarrow> string) \<Rightarrow> 'z list \<Rightarrow> string \<Rightarrow> int \<times> bool" where
  "binary_search_zone_lower_bound split nm zones name =
     (case slices_binary_search
             (\<lambda>z. if compare_names split (nm z) name \<ge> 0 then 0 else -1) zones of
        (index, ok) \<Rightarrow> if ok then (int index, nm (zones ! index) = name) else (-1, False))"

definition search_zone_lower_bound ::
    "(string \<Rightarrow> string list) \<Rightarrow> ('z \<Rightarrow> string) \<Rightarrow> 'z list \<Rightarrow> string \<Rightarrow> int \<times> bool" where
  "search_zone_lower_bound split nm zones name =
     (if length zones < binary_zone_search_threshold
      then linear_search_zone_lower_bound split nm zones name
      else binary_search_zone_lower_bound split nm zones name)"

definition apply_zone_lower_bound_filter ::
    "(string \<Rightarrow> string list) \<Rightarrow> ('z \<Rightarrow> string) \<Rightarrow> 'z list \<Rightarrow> zone_filter option \<Rightarrow> 'z list" where
  "apply_zone_lower_bound_filter split nm zones filt =
     (case filt of None \<Rightarrow> zones
      | Some f \<Rightarrow>
          (case zf_lower_bound f of None \<Rightarrow> zones
           | Some lb \<Rightarrow>
               if lb = [] then zones
               else (case search_zone_lower_bound split nm zones lb of
                       (start0, equal) \<Rightarrow>
                         let start = (if equal then start0 + 1 else start0) in
                         if start < 0 \<or> start \<ge> int (length zones) then []
                         else drop (nat start) zones)))"

section \<open>Zone collections and views\<close>

definition zone_cmp :: "(string \<Rightarrow> string list) \<Rightarrow> zone \<Rightarrow> zone \<Rightarrow> int" where
  "zone_cmp split z1 z2 = compare_names split (zone_name z1) (zone_name z2)"

definition sort_zones :: "(string \<Rightarrow> string list) \<Rightarrow> zone list \<Rightarrow> zone list" where
  "sort_zones split zs = slices_sort (zone_cmp split) zs"

definition get_zone :: "(string \<Rightarrow> string list) \<Rightarrow> zone list \<Rightarrow> string \<Rightarrow> zone option" where
  "get_zone split zs name =
     (let index = search_zone split zone_name zs name in
      if index \<ge> 0 then Some (zs ! nat index) else None)"

record view =
  view_name :: string
  view_zones :: "zone list"

definition new_view :: "(string \<Rightarrow> string list) \<Rightarrow> string \<Rightarrow> zone list \<Rightarrow> view" where
  "new_view split name zs = \<lparr>view_name = name, view_zones = sort_zones split zs\<rparr>"

definition set_zones :: "(string \<Rightarrow> string list) \<Rightarrow> view \<Rightarrow> zone list \<Rightarrow> view" where
  "set_zones split v zs = v\<lparr>view_zones := sort_zones split zs\<rparr>"

definition get_zone_names :: "view \<Rightarrow> string list" where
  "get_zone_names v = map zone_name (view_zones v)"

definition view_zone_count :: "view \<Rightarrow> int" where
  "view_zone_count v = int (length (view_zones v))"

text \<open>
  \<open>GetZoneIterator\<close>: the zones the iterator yields to a consumer that takes them all.  The
  loop skips zones by load time, counts the others and returns when the count passes the
  limit.
\<close>

fun iterate_zones :: "zone_filter option \<Rightarrow> int \<Rightarrow> zone list \<Rightarrow> zone list" where
  "iterate_zones filt cnt [] = []"
| "iterate_zones filt cnt (z # zs) =
     (case filt of
        None \<Rightarrow> z # iterate_zones filt cnt zs
      | Some f \<Rightarrow>
          if (case zf_loaded_after f of None \<Rightarrow> False | Some t \<Rightarrow> \<not> zone_loaded z > t)
          then iterate_zones filt cnt zs
          else (case zf_limit f of
                  None \<Rightarrow> z # iterate_zones filt cnt zs
                | Some limit \<Rightarrow>
                    if cnt + 1 > limit then [] else z # iterate_zones filt (cnt + 1) zs))"

definition get_zone_iterator ::
    "(string \<Rightarrow> string list) \<Rightarrow> view \<Rightarrow> zone_filter option \<Rightarrow> zone list" where
  "get_zone_iterator split v filt =
     iterate_zones filt 0 (apply_zone_lower_bound_filter split zone_name (view_zones v) filt)"

definition sort_views :: "view list \<Rightarrow> view list" where
  "sort_views vs = slices_sort (\<lambda>v1 v2. strings_compare (view_name v1) (view_name v2)) vs"

definition new_views :: "view list \<Rightarrow> view list" where
  "new_views vs = sort_views vs"

text \<open>
  \<open>UnmarshalJSON\<close> of the views, after the JSON text has been read into a map from view names
  to views: each view gets the name of its key, and the collection is sorted.  The map's
  iteration order is arbitrary: any list of its entries.
\<close>

definition unmarshal_views :: "(string \<times> view) list \<Rightarrow> view list" where
  "unmarshal_views m = sort_views (map (\<lambda>(name, v). v\<lparr>view_name := name\<rparr>) m)"

definition get_view_names :: "view list \<Rightarrow> string list" where
  "get_view_names vs = map view_name vs"

fun views_zone_count :: "view list \<Rightarrow> int" where
  "views_zone_count [] = 0"
| "views_zone_count (v # vs) = view_zone_count v + views_zone_count vs"

definition get_view :: "view list \<Rightarrow> string \<Rightarrow> view option" where
  "get_view vs name = find (\<lambda>v. view_name v = name) vs"

section \<open>Order of the collections\<close>

interpretation zone_order: comparison "zone_cmp split" for split
  unfolding zone_cmp_def by (rule dns_order.comparison_by)

interpretation view_order: comparison "\<lambda>v1 v2. strings_compare (view_name v1) (view_name v2)"
  by (rule string_order.comparison_by)

text \<open>
  \<open>dns_sorted\<close>: names in strictly increasing DNS order, the state every zone collection is
  kept in; \<open>canonical_for\<close>: on these names the DNS comparison distinguishes what string
  equality distinguishes (it does not when names differ in a trailing dot).
\<close>

definition dns_sorted :: "(string \<Rightarrow> string list) \<Rightarrow> string list \<Rightarrow> bool" where
  "dns_sorted split ns = sorted_wrt (\<lambda>m n. compare_names split m n < 0) ns"

definition canonical_for :: "(string \<Rightarrow> string list) \<Rightarrow> string list \<Rightarrow> string \<Rightarrow> bool" where
  "canonical_for split ns name = (\<forall>m \<in> set ns. split m = split name \<longrightarrow> m = name)"

lemma dns_sorted_imp_sorted_by: "dns_sorted split ns \<Longrightarrow> sorted_by (compare_names split) ns"
  unfolding dns_sorted_def sorted_by_def by (rule sorted_wrt_mono_rel) auto

lemma dns_sorted_distinct: "dns_sorted split ns \<Longrightarrow> distinct ns"
  unfolding dns_sorted_def by (induction ns) (auto simp: dns_order.cmp_refl)

lemma sort_zones_dns_sorted:
  assumes "distinct (map (split \<circ> zone_name) zs)"
  shows "dns_sorted split (map zone_name (sort_zones split zs))"
proof -
  have m: "mset (map (split \<circ> zone_name) (sort_zones split zs)) = mset (map (split \<circ> zone_name) zs)"
    by (simp add: sort_zones_def mset_map)
  then have "distinct (map (split \<circ> zone_name) (sort_zones split zs))"
    using assms by (metis mset_eq_imp_distinct_iff)
  then have ne: "sorted_wrt (\<lambda>a b. split (zone_name a) \<noteq> split (zone_name b)) (sort_zones split zs)"
    by (simp add: distinct_conv_nth sorted_wrt_iff_nth_less)
  have le: "sorted_wrt (\<lambda>a b. zone_cmp split a b \<le> 0) (sort_zones split zs)"
    using zone_order.sorted_slices_sort [of split zs] by (simp add: sort_zones_def sorted_by_def)
  have "compare_names split (zone_name (sort_zones split zs ! i)) (zone_name (sort_zones split zs ! j)) < 0"
    if "i < j" "j < length (sort_zones split zs)" for i j
    using ne le that compare_names_eq_0 unfolding sorted_wrt_iff_nth_less zone_cmp_def
    by (metis less_le order_less_le)
  then show ?thesis
    by (auto simp: dns_sorted_def sorted_wrt_iff_nth_less sort_zones_def)
qed

lemma set_sort_zones [simp]: "set (sort_zones split zs) = set zs"
  by (simp add: sort_zones_def)

lemma length_sort_zones [simp]: "length (sort_zones split zs) = length zs"
  by (simp add: sort_zones_def)

lemma set_sort_views [simp]: "set (sort_views vs) = set vs"
  by (simp add: sort_views_def)

section \<open>Searching\<close>

lemma linear_search_from_nth:
  "linear_search_from nm name i zs =
     (if name \<in> set (map nm zs) then i + int (length (takeWhile (\<lambda>z. nm z \<noteq> name) zs)) else -1)"
  by (induction zs arbitrary: i) auto

text \<open>How many zones come before a name.\<close>

definition below :: "(string \<Rightarrow> string list) \<Rightarrow> ('z \<Rightarrow> string) \<Rightarrow> string \<Rightarrow> 'z list \<Rightarrow> nat" where
  "below split nm name zs = length (takeWhile (\<lambda>z. compare_names split (nm z) name < 0) zs)"

lemma below_le: "below split nm name zs \<le> length zs"
  by (simp add: below_def length_takeWhile_le)

lemma below_before: "i < below split nm name zs \<Longrightarrow> compare_names split (nm (zs ! i)) name < 0"
  using nth_takeWhile_less [of i "\<lambda>z. compare_names split (nm z) name < 0" zs]
  by (simp add: below_def)

lemma below_at: "below split nm name zs < length zs \<Longrightarrow>
    \<not> compare_names split (nm (zs ! below split nm name zs)) name < 0"
  unfolding below_def by (rule nth_length_takeWhile)

lemma below_after:
  assumes "dns_sorted split (map nm zs)" "below split nm name zs < i" "i < length zs"
  shows "0 < compare_names split (nm (zs ! i)) name"
proof -
  let ?k = "below split nm name zs"
  have "compare_names split (nm (zs ! ?k)) (nm (zs ! i)) < 0"
    using assms by (auto simp: dns_sorted_def sorted_wrt_iff_nth_less)
  moreover have "compare_names split name (nm (zs ! ?k)) \<le> 0"
    using below_at [of split nm name zs] assms dns_order.cmp_flip
    by (meson linorder_not_less order.strict_trans)
  ultimately have "compare_names split name (nm (zs ! i)) < 0"
    by (rule dns_order.cmp_le_less_trans [rotated])
  then show ?thesis using dns_order.cmp_flip by blast
qed

lemma linear_lower_bound_below:
  "linear_lower_bound_from split nm name i zs =
     (let k = below split nm name zs in
      if k < length zs then (i + int k, split (nm (zs ! k)) = split name) else (-1, False))"
proof (induction zs arbitrary: i)
  case (Cons z zs)
  consider "split (nm z) = split name"
    | "split (nm z) \<noteq> split name" "compare_names split (nm z) name = 1"
    | "split (nm z) \<noteq> split name" "compare_names split (nm z) name = -1"
    by (cases "rev (split (nm z)) < rev (split name)") (auto simp: compare_names_sgn)
  then show ?case
    by cases (use Cons.IH [of "i + 1"] in \<open>simp_all add: below_def Let_def\<close>)
qed (simp add: below_def)

lemma bsearch_below:
  assumes "dns_sorted split (map nm zs)"
  shows "bsearch_loop (\<lambda>h. compare_names split (nm (zs ! h)) name < 0) 0 (length zs) = below split nm name zs"
proof -
  have "bsearch_loop (\<lambda>h. compare_names split (map nm zs ! h) name < 0) 0 (length (map nm zs)) =
      length (takeWhile (\<lambda>n. compare_names split n name < 0) (map nm zs))"
    by (rule dns_order.bsearch_position [OF dns_sorted_imp_sorted_by [OF assms] refl])
  moreover have "bsearch_loop (\<lambda>h. compare_names split (map nm zs ! h) name < 0) 0 (length zs) =
      bsearch_loop (\<lambda>h. compare_names split (nm (zs ! h)) name < 0) 0 (length zs)"
    by (rule bsearch_loop_cong) simp
  ultimately show ?thesis by (simp add: below_def takeWhile_map comp_def)
qed

lemma binary_lower_bound_below:
  assumes "dns_sorted split (map nm zs)"
  shows "binary_search_zone_lower_bound split nm zs name =
     (let k = below split nm name zs in
      if k < length zs then (int k, nm (zs ! k) = name) else (-1, False))"
proof -
  let ?c = "\<lambda>z. if compare_names split (nm z) name \<ge> 0 then 0 else (-1::int)"
  have lt: "?c z < 0 \<longleftrightarrow> compare_names split (nm z) name < 0" for z by auto
  have "slices_binary_search ?c zs =
      (let k = below split nm name zs in (k, k < length zs \<and> ?c (zs ! k) = 0))"
    unfolding slices_binary_search_def lt bsearch_below [OF assms] ..
  moreover have "k < length zs \<Longrightarrow> ?c (zs ! k) = 0" if "k = below split nm name zs" for k
    using below_at [of split nm name zs] that by auto
  ultimately show ?thesis
    by (auto simp: binary_search_zone_lower_bound_def Let_def)
qed

lemma search_lower_bound_below:
  assumes "dns_sorted split (map nm zs)"
    and "length zs < binary_zone_search_threshold \<or> canonical_for split (map nm zs) name"
  shows "search_zone_lower_bound split nm zs name =
     (let k = below split nm name zs in
      if k < length zs then (int k, split (nm (zs ! k)) = split name) else (-1, False))"
proof (cases "length zs < binary_zone_search_threshold")
  case False
  then have "below split nm name zs < length zs \<Longrightarrow>
      (nm (zs ! below split nm name zs) = name) = (split (nm (zs ! below split nm name zs)) = split name)"
    using assms(2) by (auto simp: canonical_for_def)
  with False show ?thesis
    by (simp add: search_zone_lower_bound_def binary_lower_bound_below [OF assms(1)] Let_def)
qed (simp add: search_zone_lower_bound_def linear_search_zone_lower_bound_def linear_lower_bound_below
  Let_def)

lemma lower_bound_filter_none [simp]:
  "apply_zone_lower_bound_filter split nm zs None = zs"
  "zf_lower_bound f = None \<Longrightarrow> apply_zone_lower_bound_filter split nm zs (Some f) = zs"
  "zf_lower_bound f = Some [] \<Longrightarrow> apply_zone_lower_bound_filter split nm zs (Some f) = zs"
  by (simp_all add: apply_zone_lower_bound_filter_def)

lemma lower_bound_filter_after:
  assumes sorted: "dns_sorted split (map nm zs)"
    and lb: "zf_lower_bound f = Some lb" "lb \<noteq> []"
    and can: "length zs < binary_zone_search_threshold \<or> canonical_for split (map nm zs) lb"
  shows "apply_zone_lower_bound_filter split nm zs (Some f) =
    filter (\<lambda>z. 0 < compare_names split (nm z) lb) zs"
proof -
  let ?k = "below split nm lb zs"
  define e where "e = (?k < length zs \<and> split (nm (zs ! ?k)) = split lb)"
  define s where "s = (if e then ?k + 1 else ?k)"
  have "drop s zs = filter (\<lambda>z. 0 < compare_names split (nm z) lb) zs"
  proof (rule drop_is_filter)
    fix i assume i: "i < s" "i < length zs"
    show "\<not> 0 < compare_names split (nm (zs ! i)) lb"
    proof (cases "i < ?k")
      case True
      then show ?thesis using below_before [of i split nm lb zs] by linarith
    next
      case False
      with i have "e" "i = ?k" by (auto simp: s_def split: if_splits)
      then show ?thesis by (simp add: e_def compare_names_sgn)
    qed
  next
    fix i assume i: "s \<le> i" "i < length zs"
    show "0 < compare_names split (nm (zs ! i)) lb"
    proof (cases "i = ?k")
      case True
      with i have "\<not> e" by (auto simp: s_def split: if_splits)
      with True i below_at [of split nm lb zs] show ?thesis
        by (auto simp: e_def compare_names_sgn split: if_splits)
    next
      case False
      with i have "?k < i" by (auto simp: s_def split: if_splits)
      from below_after [OF sorted this i(2)] show ?thesis .
    qed
  qed
  moreover have "apply_zone_lower_bound_filter split nm zs (Some f) = drop s zs"
    using lb below_le [of split nm lb zs]
    by (auto simp: apply_zone_lower_bound_filter_def search_lower_bound_below [OF sorted can]
        Let_def s_def e_def nat_add_distrib)
  ultimately show ?thesis by simp
qed

lemma bsearch_zone_found:
  assumes "dns_sorted split (map nm zs)" and "canonical_for split (map nm zs) name"
  shows "binary_search_zone split nm zs name = linear_search_zone nm zs name"
proof -
  let ?k = "below split nm name zs"
  have bs: "binary_search_zone split nm zs name =
      (if ?k < length zs \<and> split (nm (zs ! ?k)) = split name then int ?k else -1)"
    unfolding binary_search_zone_def slices_binary_search_def bsearch_below [OF assms(1)]
    by (simp add: Let_def)
  show ?thesis
  proof (cases "name \<in> set (map nm zs)")
    case True
    let ?m = "length (takeWhile (\<lambda>z. nm z \<noteq> name) zs)"
    have m: "?m < length zs" "nm (zs ! ?m) = name"
      using True takeWhile_stops [where P = "\<lambda>z. nm z \<noteq> name" and xs = zs] by auto
    have "?k \<le> ?m" using below_before [of ?m split nm name zs] m dns_order.cmp_refl
      by (metis linorder_not_less order_less_irrefl)
    moreover have "\<not> ?k < ?m"
      using below_after [OF assms(1) _ m(1), of name] m(2) by auto
    ultimately have "?k = ?m" by simp
    with bs m True show ?thesis
      by (simp add: linear_search_zone_def linear_search_from_nth)
  next
    case False
    have "\<not> (?k < length zs \<and> split (nm (zs ! ?k)) = split name)"
    proof
      assume k: "?k < length zs \<and> split (nm (zs ! ?k)) = split name"
      then have "nm (zs ! ?k) = name"
        using assms(2) by (simp add: canonical_for_def)
      with k False show False by (metis image_eqI nth_mem set_map)
    qed
    with bs False show ?thesis
      by (simp only: linear_search_zone_def linear_search_from_nth if_False)
  qed
qed

lemma search_zone_linear:
  assumes "dns_sorted split (map nm zs)" and "canonical_for split (map nm zs) name"
  shows "search_zone split nm zs name = linear_search_zone nm zs name"
  using bsearch_zone_found [OF assms] by (simp add: search_zone_def)

lemma get_zone_iff:
  assumes "dns_sorted split (map zone_name zs)" and "canonical_for split (map zone_name zs) name"
  shows "get_zone split zs name = Some z \<longleftrightarrow> z \<in> set zs \<and> zone_name z = name"
proof -
  let ?P = "\<lambda>z. zone_name z \<noteq> name"
  let ?m = "length (takeWhile ?P zs)"
  have gz: "get_zone split zs name = (if name \<in> set (map zone_name zs) then Some (zs ! ?m) else None)"
    by (simp add: get_zone_def search_zone_linear [OF assms] linear_search_zone_def
        linear_search_from_nth)
  have inj: "inj_on zone_name (set zs)"
    using dns_sorted_distinct [OF assms(1)] by (simp add: distinct_map)
  have "zone_name (zs ! ?m) = name \<and> zs ! ?m \<in> set zs" if "name \<in> set (map zone_name zs)"
    using that takeWhile_stops [where P = ?P and xs = zs] by auto
  with gz inj show ?thesis by (auto dest: inj_onD)
qed

section \<open>Iterators\<close>

definition loaded_after :: "zone_filter \<Rightarrow> zone \<Rightarrow> bool" where
  "loaded_after f z = (case zf_loaded_after f of None \<Rightarrow> True | Some t \<Rightarrow> zone_loaded z > t)"

lemma iterate_zones_None: "iterate_zones None c zs = zs"
  by (induction zs arbitrary: c) auto

lemma iterate_zones_Some:
  "iterate_zones (Some f) c zs =
     (let ok = filter (loaded_after f) zs in
      case zf_limit f of None \<Rightarrow> ok | Some n \<Rightarrow> take (nat (n - c)) ok)"
proof (induction zs arbitrary: c)
  case (Cons z zs)
  have Suc_case: "nat (n - c) = Suc (nat (n - (c + 1)))" if "\<not> c + 1 > n" for n
    using that by simp
  show ?case
  proof (cases "zf_limit f")
    case None
    with Cons.IH [of c] show ?thesis
      by (cases "zf_loaded_after f") (auto simp: loaded_after_def Let_def)
  next
    case (Some n)
    with Cons.IH [of c] Cons.IH [of "c + 1"] Suc_case [of n] show ?thesis
      by (cases "zf_loaded_after f") (auto simp: loaded_after_def Let_def)
  qed
qed (simp add: Let_def split: option.split)

lemma iterate_zones_Some_0:
  "iterate_zones (Some f) 0 zs =
     (case zf_limit f of None \<Rightarrow> filter (loaded_after f) zs
      | Some n \<Rightarrow> take (nat n) (filter (loaded_after f) zs))"
  by (cases "zf_limit f") (simp_all add: iterate_zones_Some Let_def)

lemma sorted_views_unique:
  assumes "mset vs = mset ws" "distinct (map view_name vs)"
  shows "sort_views vs = sort_views ws"
  unfolding sort_views_def
proof (rule view_order.sorted_by_unique [OF view_order.sorted_slices_sort view_order.sorted_slices_sort])
  fix v w assume "v \<in> set (slices_sort (\<lambda>v1 v2. strings_compare (view_name v1) (view_name v2)) vs)"
    and "w \<in> set (slices_sort (\<lambda>v1 v2. strings_compare (view_name v1) (view_name v2)) vs)"
    and "strings_compare (view_name v) (view_name w) = 0"
  with assms(2) show "v = w"
    by (auto simp: strings_compare_def distinct_map split: if_splits dest: inj_onD)
qed (simp add: assms(1))

section \<open>Paging\<close>

text \<open>
  A client that pages through a view: it asks for at most \<open>limit\<close> zones after the last zone
  it has seen, first without a lower bound, until an empty page comes back.
\<close>

definition page :: "(string \<Rightarrow> string list) \<Rightarrow> view \<Rightarrow> string \<Rightarrow> int \<Rightarrow> zone list" where
  "page split v lb limit = get_zone_iterator split v (Some (set_lower_bound lb limit new_zone_filter))"

fun pages :: "(string \<Rightarrow> string list) \<Rightarrow> view \<Rightarrow> int \<Rightarrow> nat \<Rightarrow> string \<Rightarrow> zone list" where
  "pages split v limit 0 lb = []"
| "pages split v limit (Suc n) lb =
     (let p = page split v lb limit in
      if p = [] then [] else p @ pages split v limit n (zone_name (last p)))"

lemma page_first: "page split v [] limit = take (nat limit) (view_zones v)"
proof -
  have "loaded_after (set_lower_bound [] limit new_zone_filter) = (\<lambda>_. True)"
    by (simp add: loaded_after_def set_lower_bound_def new_zone_filter_def fun_eq_iff)
  then show ?thesis
    by (simp add: page_def get_zone_iterator_def iterate_zones_Some_0)
      (simp add: set_lower_bound_def)
qed

lemma page_next:
  assumes sorted: "dns_sorted split (map zone_name (view_zones v))"
    and can: "\<And>n. n \<in> set (map zone_name (view_zones v)) \<Longrightarrow>
      canonical_for split (map zone_name (view_zones v)) n"
    and i: "i < length (view_zones v)" "zone_name (view_zones v ! i) \<noteq> []"
  shows "page split v (zone_name (view_zones v ! i)) limit = take (nat limit) (drop (Suc i) (view_zones v))"
proof -
  let ?zs = "view_zones v"
  let ?lb = "zone_name (?zs ! i)"
  let ?f = "set_lower_bound ?lb limit new_zone_filter"
  have "apply_zone_lower_bound_filter split zone_name ?zs (Some ?f) =
      filter (\<lambda>z. 0 < compare_names split (zone_name z) ?lb) ?zs"
    by (rule lower_bound_filter_after [OF sorted _ i(2)])
      (use can i in \<open>auto simp: set_lower_bound_def\<close>)
  also have "\<dots> = drop (Suc i) ?zs"
  proof (rule drop_is_filter [symmetric])
    fix j assume j: "j < Suc i" "j < length ?zs"
    show "\<not> 0 < compare_names split (zone_name (?zs ! j)) ?lb"
    proof (cases "j = i")
      case False
      with sorted j i have "compare_names split (zone_name (?zs ! j)) ?lb < 0"
        by (auto simp: dns_sorted_def sorted_wrt_iff_nth_less)
      then show ?thesis by simp
    qed simp
  next
    fix j assume j: "Suc i \<le> j" "j < length ?zs"
    with sorted have "compare_names split ?lb (zone_name (?zs ! j)) < 0"
      by (auto simp: dns_sorted_def sorted_wrt_iff_nth_less)
    then show "0 < compare_names split (zone_name (?zs ! j)) ?lb"
      using dns_order.cmp_flip by blast
  qed
  finally have "apply_zone_lower_bound_filter split zone_name ?zs (Some ?f) = drop (Suc i) ?zs" .
  moreover have "loaded_after ?f = (\<lambda>_. True)"
    by (simp add: loaded_after_def set_lower_bound_def new_zone_filter_def fun_eq_iff)
  ultimately show ?thesis
    by (simp add: page_def get_zone_iterator_def iterate_zones_Some_0) (simp add: set_lower_bound_def)
qed

lemma pages_from:
  assumes sorted: "dns_sorted split (map zone_name (view_zones v))"
    and can: "\<And>n. n \<in> set (map zone_name (view_zones v)) \<Longrightarrow>
      canonical_for split (map zone_name (view_zones v)) n"
    and ne: "[] \<notin> set (map zone_name (view_zones v))" and limit: "0 < limit"
    and "i < length (view_zones v)" "length (view_zones v) \<le> i + n"
  shows "pages split v limit n (zone_name (view_zones v ! i)) = drop (Suc i) (view_zones v)"
  using assms(5,6)
proof (induction n arbitrary: i)
  case (Suc n)
  let ?zs = "view_zones v"
  have nz: "zone_name (?zs ! i) \<noteq> []"
    using ne Suc.prems(1) by (metis length_map nth_map nth_mem)
  have p: "page split v (zone_name (?zs ! i)) limit = take (nat limit) (drop (Suc i) ?zs)"
    using page_next [OF sorted can Suc.prems(1) nz] by simp
  show ?case
  proof (cases "drop (Suc i) ?zs = []")
    case True
    with p show ?thesis by (simp add: Let_def)
  next
    case False
    define m where "m = min (nat limit) (length (drop (Suc i) ?zs))"
    have m: "0 < m" "i + m < length ?zs" using False limit by (auto simp: m_def)
    have pm: "page split v (zone_name (?zs ! i)) limit = take m (drop (Suc i) ?zs)"
      unfolding p m_def by (simp add: min_def)
    have lst: "last (take m (drop (Suc i) ?zs)) = ?zs ! (i + m)"
      using m False by (simp add: last_conv_nth)
    have "pages split v limit n (zone_name (?zs ! (i + m))) = drop (Suc (i + m)) ?zs"
      using Suc.IH [of "i + m"] m Suc.prems(2) by simp
    with pm lst False m show ?thesis
      by (simp add: Let_def) (metis add.commute append_take_drop_id drop_drop plus_1_eq_Suc add_Suc)
  qed
qed simp

section \<open>Properties\<close>

text \<open>
  C1: The iterator over a view's zones yields exactly the zones loaded after the given time
  and ordered after the lower bound, cut at the limit.  The view is in DNS order, and above
  the size where the binary search takes over, the lower bound must be spelled like the
  zone it names.
\<close>

theorem zone_iterator_functional:
  assumes "dns_sorted split (map zone_name (view_zones v))"
    and "\<And>lb. zf_lower_bound f = Some lb \<Longrightarrow>
      length (view_zones v) < binary_zone_search_threshold \<or>
      canonical_for split (map zone_name (view_zones v)) lb"
  shows "get_zone_iterator split v (Some f) =
    (let ok = filter (\<lambda>z. loaded_after f z \<and>
                 (case zf_lower_bound f of None \<Rightarrow> True
                  | Some lb \<Rightarrow> lb = [] \<or> 0 < compare_names split (zone_name z) lb)) (view_zones v)
     in case zf_limit f of None \<Rightarrow> ok | Some n \<Rightarrow> take (nat n) ok)"
proof (cases "zf_lower_bound f")
  case None
  then show ?thesis by (simp add: get_zone_iterator_def iterate_zones_Some_0 Let_def)
next
  case (Some lb)
  show ?thesis
  proof (cases "lb = []")
    case True
    with Some show ?thesis by (simp add: get_zone_iterator_def iterate_zones_Some_0 Let_def)
  next
    case False
    from lower_bound_filter_after [OF assms(1) Some False assms(2) [OF Some]] Some False
    show ?thesis
      by (cases "zf_limit f")
        (simp_all add: get_zone_iterator_def iterate_zones_Some_0 Let_def conj_commute)
  qed
qed

definition wit_split :: "string \<Rightarrow> string list" where
  "wit_split s = (if s = [] then [] else strings_split (CHR ''.'') s)"

definition wit_zone :: "string \<Rightarrow> time \<Rightarrow> zone" where
  "wit_zone n t = \<lparr>zone_name = n, zone_class = ''IN'', zone_serial = 1, zone_type = ''primary'', zone_loaded = t\<rparr>"

definition wit_view :: view where
  "wit_view = \<lparr>view_name = ''_default'',
     view_zones = [wit_zone ''com'' 1, wit_zone ''a.com'' 7, wit_zone ''b.com'' 9, wit_zone ''org'' 8]\<rparr>"

definition wit_filter :: zone_filter where
  "wit_filter = set_loaded_after 5 (set_lower_bound ''com'' 2 new_zone_filter)"

lemma wit_view_sorted: "dns_sorted wit_split (map zone_name (view_zones wit_view))"
  by code_simp

lemma wit_view_canonical:
  "\<forall>n \<in> set (map zone_name (view_zones wit_view)).
     canonical_for wit_split (map zone_name (view_zones wit_view)) n"
  by code_simp

theorem zone_iterator_functional_witness:
  "get_zone_iterator wit_split wit_view (Some wit_filter) = [wit_zone ''a.com'' 7, wit_zone ''b.com'' 9]"
proof -
  have small: "length (view_zones wit_view) < binary_zone_search_threshold"
    by code_simp
  show ?thesis
    unfolding zone_iterator_functional [OF wit_view_sorted disjI1 [OF small], of wit_filter]
    by code_simp
qed

text \<open>
  C2: Paging is complete and exact: a client that asks for pages of any positive size, each
  after the last zone of the page before, receives every zone of the view once and in order.
\<close>

theorem paging_complete:
  assumes "dns_sorted split (map zone_name (view_zones v))"
    and "\<forall>n \<in> set (map zone_name (view_zones v)). canonical_for split (map zone_name (view_zones v)) n"
    and "[] \<notin> set (map zone_name (view_zones v))" and "0 < limit"
  shows "pages split v limit (Suc (length (view_zones v))) [] = view_zones v"
proof (cases "view_zones v = []")
  case False
  define m where "m = min (nat limit) (length (view_zones v)) - 1"
  have "0 < min (nat limit) (length (view_zones v))" using False assms(4) by simp
  then have m: "m < length (view_zones v)" "Suc m = min (nat limit) (length (view_zones v))"
    unfolding m_def by linarith+
  have p: "page split v [] limit = take (Suc m) (view_zones v)"
    unfolding page_first m(2) by (simp add: min_def)
  have "last (take (Suc m) (view_zones v)) = view_zones v ! m"
    using m(1) by (simp add: take_Suc_conv_app_nth)
  with p show ?thesis
    using pages_from [of split v limit m "length (view_zones v)"] assms m False by (simp add: Let_def)
qed (simp add: page_first)

theorem paging_complete_witness:
  "pages wit_split wit_view 2 (Suc (length (view_zones wit_view))) [] = view_zones wit_view"
  by (rule paging_complete [OF wit_view_sorted wit_view_canonical]) code_simp+

text \<open>
  \<open>GetZone\<close> finds a zone if and only if the view has one of that name, whichever search
  (linear or binary) the size of the view selects.
\<close>

theorem get_zone_correct:
  assumes "distinct (map (split \<circ> zone_name) zs)"
    and "canonical_for split (map zone_name zs) name"
  shows "get_zone split (view_zones (new_view split n zs)) name = Some z \<longleftrightarrow>
    z \<in> set zs \<and> zone_name z = name"
proof -
  have "canonical_for split (map zone_name (sort_zones split zs)) name"
    using assms(2) by (simp add: canonical_for_def)
  from get_zone_iff [OF sort_zones_dns_sorted [OF assms(1)] this] show ?thesis
    by (simp add: new_view_def)
qed

theorem get_zone_correct_witness:
  "get_zone wit_split (view_zones (new_view wit_split ''v'' [wit_zone ''org'' 8, wit_zone ''a.com'' 7])) ''a.com'' =
     Some (wit_zone ''a.com'' 7)"
proof -
  have "wit_zone ''a.com'' 7 \<in> set [wit_zone ''org'' 8, wit_zone ''a.com'' 7] \<and>
      zone_name (wit_zone ''a.com'' 7) = ''a.com''"
    by (simp add: wit_zone_def)
  then show ?thesis
    by (rule get_zone_correct [THEN iffD2, rotated 2]) code_simp+
qed

text \<open>
  Reading the views from a JSON object does not depend on the order in which the object's
  members are visited: any two orders give the same sorted collection.
\<close>

theorem unmarshal_views_deterministic:
  assumes "distinct (map fst m)" "mset m' = mset m"
  shows "unmarshal_views m' = unmarshal_views m"
proof -
  let ?f = "\<lambda>(name, v). v\<lparr>view_name := name\<rparr>"
  have "map view_name (map ?f m) = map fst m" by (induction m) auto
  with assms have "sort_views (map ?f m) = sort_views (map ?f m')"
    by (intro sorted_views_unique) (simp_all only: mset_map)
  then show ?thesis by (simp add: unmarshal_views_def)
qed

theorem unmarshal_views_deterministic_witness:
  "unmarshal_views [(''b'', wit_view), (''a'', wit_view)] = unmarshal_views [(''a'', wit_view), (''b'', wit_view)]"
  by (rule unmarshal_views_deterministic) simp_all

text \<open>
  The two lower-bound searches disagree on a lower bound spelled differently from the zone
  it names.  In a sorted collection that has the zone \<open>z\<close>, where \<open>name\<close> splits into the
  same labels but is another string (a final dot more), the linear search reports an exact
  match and the page starts after \<open>z\<close>; the binary search, which large collections use, does
  not, and \<open>z\<close> is returned again.
\<close>

theorem lower_bound_spelling:
  assumes "dns_sorted split (map nm zs)" "z \<in> set zs" "split (nm z) = split name" "nm z \<noteq> name"
  shows "\<exists>k. k < length zs \<and> zs ! k = z \<and>
    linear_search_zone_lower_bound split nm zs name = (int k, True) \<and>
    binary_search_zone_lower_bound split nm zs name = (int k, False)"
proof -
  let ?k = "below split nm name zs"
  obtain i where i: "i < length zs" "zs ! i = z" using assms(2) by (auto simp: in_set_conv_nth)
  have z0: "compare_names split (nm (zs ! i)) name = 0" using assms(3) i by simp
  have "\<not> i < ?k" using below_before [of i split nm name zs] z0 by auto
  moreover have "\<not> ?k < i" using below_after [OF assms(1) _ i(1), of name] z0 by auto
  ultimately have "?k = i" by simp
  with i assms(3,4) show ?thesis
    unfolding linear_search_zone_lower_bound_def linear_lower_bound_below
      binary_lower_bound_below [OF assms(1)]
    by (intro exI [of _ i]) (simp add: Let_def)
qed

definition wit_dot_split :: "string \<Rightarrow> string list" where
  "wit_dot_split s = filter (\<lambda>l. l \<noteq> []) (strings_split (CHR ''.'') s)"

theorem lower_bound_spelling_witness:
  "\<exists>k. k < length [''com'', ''a.com''] \<and> [''com'', ''a.com''] ! k = ''a.com'' \<and>
    linear_search_zone_lower_bound wit_dot_split id [''com'', ''a.com''] ''a.com.'' = (int k, True) \<and>
    binary_search_zone_lower_bound wit_dot_split id [''com'', ''a.com''] ''a.com.'' = (int k, False)"
  by (rule lower_bound_spelling) code_simp+

end
