(* ===== verification/Go_FS.thy ===== *)
theory Go_FS
  imports Go_Strings
begin

text \<open>
  The part of the packages \<open>os\<close> and \<open>path\<close> that the disk storage of the zone inventory uses:
  a tree of directories and files, kept as an association list from absolute paths (lists of
  components) to nodes.  Any call can also fail for a reason outside the tree (permissions,
  a full disk): \<open>fs_fault\<close> tells which calls do, and with which error.
\<close>

type_synonym path = "string list"

datatype 'c node = Dir | File 'c

datatype os_error = ErrNotExist | ErrExist | ErrIsDir | ErrNotDir | ErrNotEmpty | ErrOther string

datatype fs_op =
  OpStat | OpMkdir | OpMkdirAll | OpRemove | OpRemoveAll | OpOpen | OpWrite | OpReadFile | OpReadDir

record 'c fs =
  fs_nodes :: "(path \<times> 'c node) list"
  fs_fault :: "fs_op \<Rightarrow> path \<Rightarrow> os_error option"

text \<open>\<open>path.Join\<close> of a clean absolute path and one more string, which may hold slashes.\<close>

definition path_step :: "string \<Rightarrow> path \<Rightarrow> path" where
  "path_step c p = (if c = [] \<or> c = ''.'' then p else if c = ''..'' then butlast p else p @ [c])"

definition path_join :: "path \<Rightarrow> string \<Rightarrow> path" where
  "path_join p s = fold path_step (strings_split (CHR ''/'') s) p"

definition node_at :: "'c fs \<Rightarrow> path \<Rightarrow> 'c node option" where
  "node_at fs p = (if p = [] then Some Dir else map_of (fs_nodes fs) p)"

definition put_node :: "path \<Rightarrow> 'c node \<Rightarrow> 'c fs \<Rightarrow> 'c fs" where
  "put_node p nd fs = fs\<lparr>fs_nodes := (p, nd) # filter (\<lambda>(q, _). q \<noteq> p) (fs_nodes fs)\<rparr>"

definition del_tree :: "path \<Rightarrow> 'c fs \<Rightarrow> 'c fs" where
  "del_tree p fs = fs\<lparr>fs_nodes := filter (\<lambda>(q, _). \<not> prefix p q) (fs_nodes fs)\<rparr>"

definition is_dir_node :: "'c node \<Rightarrow> bool" where
  "is_dir_node nd = (case nd of Dir \<Rightarrow> True | File _ \<Rightarrow> False)"

definition children :: "path \<Rightarrow> 'c fs \<Rightarrow> (string \<times> bool) list" where
  "children p fs =
     map (\<lambda>(q, nd). (last q, is_dir_node nd)) (filter (\<lambda>(q, _). q \<noteq> [] \<and> butlast q = p) (fs_nodes fs))"

text \<open>A missing path is "not a directory" when one of its ancestors is a file.\<close>

definition missing_error :: "'c fs \<Rightarrow> path \<Rightarrow> os_error" where
  "missing_error fs p =
     (if \<exists>k \<in> set [0..<length p]. (case node_at fs (take k p) of Some (File _) \<Rightarrow> True | _ \<Rightarrow> False)
      then ErrNotDir else ErrNotExist)"

text \<open>\<open>os.Stat\<close>: whether the path is a directory.\<close>

definition os_stat :: "'c fs \<Rightarrow> path \<Rightarrow> os_error + bool" where
  "os_stat fs p =
     (case fs_fault fs OpStat p of Some e \<Rightarrow> Inl e
      | None \<Rightarrow> (case node_at fs p of None \<Rightarrow> Inl (missing_error fs p) | Some nd \<Rightarrow> Inr (is_dir_node nd)))"

definition os_mkdir :: "'c fs \<Rightarrow> path \<Rightarrow> os_error + 'c fs" where
  "os_mkdir fs p =
     (case fs_fault fs OpMkdir p of Some e \<Rightarrow> Inl e
      | None \<Rightarrow>
          if node_at fs p \<noteq> None then Inl ErrExist
          else if (case node_at fs (butlast p) of Some Dir \<Rightarrow> True | _ \<Rightarrow> False)
               then Inr (put_node p Dir fs) else Inl (missing_error fs p))"

fun mkdir_prefixes :: "'c fs \<Rightarrow> path list \<Rightarrow> os_error + 'c fs" where
  "mkdir_prefixes fs [] = Inr fs"
| "mkdir_prefixes fs (p # ps) =
     (case node_at fs p of
        None \<Rightarrow> mkdir_prefixes (put_node p Dir fs) ps
      | Some Dir \<Rightarrow> mkdir_prefixes fs ps
      | Some (File _) \<Rightarrow> Inl ErrNotDir)"

definition os_mkdir_all :: "'c fs \<Rightarrow> path \<Rightarrow> os_error + 'c fs" where
  "os_mkdir_all fs p =
     (case fs_fault fs OpMkdirAll p of Some e \<Rightarrow> Inl e
      | None \<Rightarrow> mkdir_prefixes fs (map (\<lambda>k. take k p) [1..<length p + 1]))"

definition os_remove :: "'c fs \<Rightarrow> path \<Rightarrow> os_error + 'c fs" where
  "os_remove fs p =
     (case fs_fault fs OpRemove p of Some e \<Rightarrow> Inl e
      | None \<Rightarrow>
          (case node_at fs p of
             None \<Rightarrow> Inl (missing_error fs p)
           | Some (File _) \<Rightarrow> Inr (del_tree p fs)
           | Some Dir \<Rightarrow> if children p fs = [] then Inr (del_tree p fs) else Inl ErrNotEmpty))"

definition os_remove_all :: "'c fs \<Rightarrow> path \<Rightarrow> os_error + 'c fs" where
  "os_remove_all fs p =
     (case fs_fault fs OpRemoveAll p of Some e \<Rightarrow> Inl e | None \<Rightarrow> Inr (del_tree p fs))"

text \<open>
  \<open>os.OpenFile\<close> with \<open>O_RDWR|O_CREATE|O_TRUNC\<close>: afterwards the file exists and is empty.
\<close>

definition os_open_trunc :: "'c \<Rightarrow> 'c fs \<Rightarrow> path \<Rightarrow> os_error + 'c fs" where
  "os_open_trunc blank fs p =
     (case fs_fault fs OpOpen p of Some e \<Rightarrow> Inl e
      | None \<Rightarrow>
          (case node_at fs p of
             Some Dir \<Rightarrow> Inl ErrIsDir
           | Some (File _) \<Rightarrow> Inr (put_node p (File blank) fs)
           | None \<Rightarrow>
               if (case node_at fs (butlast p) of Some Dir \<Rightarrow> True | _ \<Rightarrow> False)
               then Inr (put_node p (File blank) fs) else Inl (missing_error fs p)))"

definition file_write :: "'c \<Rightarrow> 'c fs \<Rightarrow> path \<Rightarrow> os_error + 'c fs" where
  "file_write c fs p =
     (case fs_fault fs OpWrite p of Some e \<Rightarrow> Inl e | None \<Rightarrow> Inr (put_node p (File c) fs))"

definition os_read_file :: "'c fs \<Rightarrow> path \<Rightarrow> os_error + 'c" where
  "os_read_file fs p =
     (case fs_fault fs OpReadFile p of Some e \<Rightarrow> Inl e
      | None \<Rightarrow>
          (case node_at fs p of
             None \<Rightarrow> Inl (missing_error fs p)
           | Some Dir \<Rightarrow> Inl ErrIsDir
           | Some (File c) \<Rightarrow> Inr c))"

text \<open>\<open>os.ReadDir\<close>: the entries, sorted by file name, each with its \<open>IsDir\<close> flag.\<close>

definition os_read_dir :: "'c fs \<Rightarrow> path \<Rightarrow> os_error + (string \<times> bool) list" where
  "os_read_dir fs p =
     (case fs_fault fs OpReadDir p of Some e \<Rightarrow> Inl e
      | None \<Rightarrow>
          (case node_at fs p of
             None \<Rightarrow> Inl (missing_error fs p)
           | Some (File _) \<Rightarrow> Inl ErrNotDir
           | Some Dir \<Rightarrow> Inr (slices_sort (\<lambda>a b. strings_compare (fst a) (fst b)) (children p fs))))"

section \<open>Facts\<close>

definition simple_name :: "string \<Rightarrow> bool" where
  "simple_name n = (n \<noteq> [] \<and> n \<noteq> ''.'' \<and> n \<noteq> ''..'' \<and> CHR ''/'' \<notin> set n)"

lemma path_join_simple [simp]: "simple_name n \<Longrightarrow> path_join p n = p @ [n]"
  by (simp add: path_join_def path_step_def simple_name_def)

definition fs_ok :: "'c fs \<Rightarrow> bool" where
  "fs_ok fs = distinct (map fst (fs_nodes fs))"

definition no_faults :: "'c fs \<Rightarrow> bool" where
  "no_faults fs \<longleftrightarrow> fs_fault fs = (\<lambda>_ _. None)"

text \<open>All components of the path down to it are directories.\<close>

definition dir_path :: "'c fs \<Rightarrow> path \<Rightarrow> bool" where
  "dir_path fs p = (\<forall>k \<le> length p. node_at fs (take k p) = Some Dir)"

lemma fs_fault_simps [simp]:
  "fs_fault (put_node p nd fs) = fs_fault fs" "fs_fault (del_tree p fs) = fs_fault fs"
  by (simp_all add: put_node_def del_tree_def)

lemma no_faults_simps [simp]:
  "no_faults (put_node p nd fs) = no_faults fs" "no_faults (del_tree p fs) = no_faults fs"
  by (simp_all add: no_faults_def)

lemma map_of_filter_ne: "map_of (filter (\<lambda>(q, _). P q) al) q = (if P q then map_of al q else None)"
  by (induction al) auto

lemma node_at_put [simp]:
  "p \<noteq> [] \<Longrightarrow> node_at (put_node p nd fs) q = (if q = p then Some nd else node_at fs q)"
  by (simp add: node_at_def put_node_def map_of_filter_ne)

lemma node_at_del [simp]:
  "p \<noteq> [] \<Longrightarrow> node_at (del_tree p fs) q = (if prefix p q then None else node_at fs q)"
  by (auto simp: node_at_def del_tree_def map_of_filter_ne)

lemma fs_ok_put [simp]: "fs_ok fs \<Longrightarrow> fs_ok (put_node p nd fs)"
  by (auto simp: fs_ok_def put_node_def distinct_map filter_id_conv intro: inj_on_subset)

lemma fs_ok_del [simp]: "fs_ok fs \<Longrightarrow> fs_ok (del_tree p fs)"
  by (auto simp: fs_ok_def del_tree_def distinct_map intro: inj_on_subset)

lemma set_children:
  assumes "fs_ok fs"
  shows "set (children p fs) = {(n, is_dir_node nd) | n nd. node_at fs (p @ [n]) = Some nd}"
proof -
  have "map_of (fs_nodes fs) q = Some nd \<longleftrightarrow> (q, nd) \<in> set (fs_nodes fs)" for q nd
    using assms by (simp add: fs_ok_def map_of_eq_Some_iff)
  then have n: "node_at fs (p @ [n]) = Some nd \<longleftrightarrow> (p @ [n], nd) \<in> set (fs_nodes fs)" for n nd
    by (simp add: node_at_def)
  have "x \<in> set (children p fs) \<longleftrightarrow> (\<exists>n nd. x = (n, is_dir_node nd) \<and> (p @ [n], nd) \<in> set (fs_nodes fs))" for x
  proof
    assume "x \<in> set (children p fs)"
    then obtain q nd where "(q, nd) \<in> set (fs_nodes fs)" "q \<noteq> []" "butlast q = p"
        "x = (last q, is_dir_node nd)"
      by (auto simp: children_def)
    then show "\<exists>n nd. x = (n, is_dir_node nd) \<and> (p @ [n], nd) \<in> set (fs_nodes fs)"
      by (metis append_butlast_last_id)
  next
    assume "\<exists>n nd. x = (n, is_dir_node nd) \<and> (p @ [n], nd) \<in> set (fs_nodes fs)"
    then obtain n nd where "x = (n, is_dir_node nd)" "(p @ [n], nd) \<in> set (fs_nodes fs)" by blast
    then show "x \<in> set (children p fs)" by (force simp: children_def)
  qed
  then show ?thesis unfolding n by blast
qed

lemma distinct_children:
  assumes "fs_ok fs"
  shows "distinct (map fst (children p fs))"
proof -
  let ?c = "filter (\<lambda>(q, _). q \<noteq> [] \<and> butlast q = p) (fs_nodes fs)"
  have "distinct (map fst ?c)"
    using assms by (auto simp: fs_ok_def distinct_map intro: inj_on_subset)
  moreover have "inj_on last (set (map fst ?c))"
  proof (rule inj_onI)
    fix x y assume "x \<in> set (map fst ?c)" "y \<in> set (map fst ?c)" "last x = last y"
    then have "x \<noteq> []" "y \<noteq> []" "butlast x = p" "butlast y = p" "last x = last y" by auto
    then show "x = y" by (metis append_butlast_last_id)
  qed
  ultimately have "distinct (map last (map fst ?c))" using distinct_map by blast
  then show ?thesis by (simp only: children_def map_map comp_def case_prod_unfold fst_conv)
qed

interpretation entry_order: comparison "\<lambda>a b :: string \<times> bool. strings_compare (fst a) (fst b)"
  by (rule string_order.comparison_by)

text \<open>What \<open>os.ReadDir\<close> returns is fixed by the nodes of the tree.\<close>

lemma os_read_dir_Inr:
  assumes "fs_ok fs" "no_faults fs" "node_at fs p = Some Dir"
    and "sorted_by (\<lambda>a b. strings_compare (fst a) (fst b)) xs" "distinct (map fst xs)"
    and "set xs = {(n, is_dir_node nd) | n nd. node_at fs (p @ [n]) = Some nd}"
  shows "os_read_dir fs p = Inr xs"
proof -
  let ?cmp = "\<lambda>a b :: string \<times> bool. strings_compare (fst a) (fst b)"
  have "slices_sort ?cmp (children p fs) = xs"
  proof (rule entry_order.sorted_by_unique [OF entry_order.sorted_slices_sort assms(4)])
    have "set (children p fs) = set xs" using set_children [OF assms(1)] assms(6) by simp
    moreover have "distinct (children p fs)" "distinct xs"
      using distinct_children [OF assms(1)] assms(5) by (auto simp: distinct_map)
    ultimately show "mset (slices_sort ?cmp (children p fs)) = mset xs"
      by (simp add: set_eq_iff_mset_eq_distinct)
  next
    fix x y assume "x \<in> set (slices_sort ?cmp (children p fs))" "y \<in> set (slices_sort ?cmp (children p fs))"
      and "?cmp x y = 0"
    with distinct_children [OF assms(1), of p] show "x = y"
      by (auto simp: strings_compare_def distinct_map split: if_splits dest: inj_onD)
  qed
  with assms(2,3) show ?thesis by (simp add: os_read_dir_def no_faults_def)
qed

lemma missing_error_dir:
  assumes "dir_path fs p" "node_at fs (p @ [n]) = None"
  shows "missing_error fs (p @ [n]) = ErrNotExist"
  using assms by (auto simp: missing_error_def dir_path_def)

lemma dir_path_node: "dir_path fs p \<Longrightarrow> node_at fs p = Some Dir"
  by (metis dir_path_def order_refl take_all_iff)

end
