(* ===== verification/Zone_Storage.thy ===== *)
theory Zone_Storage
  imports Zones Go_FS
begin

text \<open>
  The storages of the zone inventory: \<open>agent/zoneinventory.go\<close>, the three implementations of
  \<open>zoneInventoryStorage\<close> and the \<open>viewIO\<close> they read and write views with.  A file's text
  is what it decodes to, as a zone and as the inventory's metadata; \<open>None\<close> is text that
  \<open>json.Unmarshal\<close> refuses.  Locks are left out: each operation is one step here.
\<close>

datatype content = Text (as_zone: "zone option") (as_meta: "time option")

definition zero_zone :: zone where
  "zero_zone = \<lparr>zone_name = [], zone_class = [], zone_serial = 0, zone_type = [], zone_loaded = zero_time\<rparr>"

text \<open>
  A zone and the metadata as JSON objects.  The decoder ignores members it does not know, so
  each of the two decodes as the zero value of the other type.  \<open>blank\<close> is the empty text.
\<close>

definition json_of_zone :: "zone \<Rightarrow> content" where
  "json_of_zone z = Text (Some z) (Some zero_time)"

definition json_of_meta :: "time \<Rightarrow> content" where
  "json_of_meta t = Text (Some zero_zone) (Some t)"

definition blank :: content where
  "blank = Text None None"

datatype storage_error = NoDiskStorage | NotADirectory path | OsErr os_error | BadJson

section \<open>Input and output of one view\<close>

record view_io =
  vio_view_name :: string
  vio_location :: path

definition new_view_io :: "path \<Rightarrow> string \<Rightarrow> view_io" where
  "new_view_io storage_location name =
     \<lparr>vio_view_name = name, vio_location = path_join storage_location name\<rparr>"

text \<open>
  \<open>GetZoneIterator\<close> of a \<open>viewIO\<close>: what it yields to a consumer that takes everything.  A
  file that cannot be read or parsed yields an error and does not count towards the limit.
\<close>

fun view_io_read_zones ::
    "content fs \<Rightarrow> path \<Rightarrow> zone_filter option \<Rightarrow> int \<Rightarrow> (string \<times> bool) list \<Rightarrow> (storage_error + zone) list" where
  "view_io_read_zones fs loc filt cnt [] = []"
| "view_io_read_zones fs loc filt cnt (file # files) =
     (case os_read_file fs (path_join loc (fst file)) of
        Inl e \<Rightarrow> Inl (OsErr e) # view_io_read_zones fs loc filt cnt files
      | Inr content \<Rightarrow>
          (case as_zone content of
             None \<Rightarrow> Inl BadJson # view_io_read_zones fs loc filt cnt files
           | Some z \<Rightarrow>
               (case filt of
                  None \<Rightarrow> Inr z # view_io_read_zones fs loc filt cnt files
                | Some f \<Rightarrow>
                    if (case zf_loaded_after f of None \<Rightarrow> False | Some t \<Rightarrow> \<not> zone_loaded z > t)
                    then view_io_read_zones fs loc filt cnt files
                    else (case zf_limit f of
                            None \<Rightarrow> Inr z # view_io_read_zones fs loc filt cnt files
                          | Some limit \<Rightarrow>
                              if cnt + 1 > limit then []
                              else Inr z # view_io_read_zones fs loc filt (cnt + 1) files))))"

definition view_io_zone_iterator ::
    "(string \<Rightarrow> string list) \<Rightarrow> content fs \<Rightarrow> view_io \<Rightarrow> zone_filter option \<Rightarrow> (storage_error + zone) list" where
  "view_io_zone_iterator split fs vio filt =
     (case os_read_dir fs (vio_location vio) of
        Inl e \<Rightarrow> [Inl (OsErr e)]
      | Inr files \<Rightarrow>
          let sorted = slices_sort (\<lambda>f1 f2. compare_names split (fst f1) (fst f2)) files in
          view_io_read_zones fs (vio_location vio) filt 0
            (apply_zone_lower_bound_filter split fst sorted filt))"

definition view_io_zone_count :: "content fs \<Rightarrow> view_io \<Rightarrow> storage_error + int" where
  "view_io_zone_count fs vio =
     (case os_read_dir fs (vio_location vio) of
        Inl e \<Rightarrow> Inl (OsErr e) | Inr files \<Rightarrow> Inr (int (length files)))"

text \<open>
  The operations that write return the error, if any, and the new state of the disk.
\<close>

type_synonym disk_result = "storage_error option \<times> content fs"

definition remove_view :: "content fs \<Rightarrow> view_io \<Rightarrow> disk_result" where
  "remove_view fs vio =
     (case os_remove_all fs (vio_location vio) of
        Inl e \<Rightarrow> (Some (OsErr e), fs) | Inr fs' \<Rightarrow> (None, fs'))"

definition create_zone :: "content fs \<Rightarrow> view_io \<Rightarrow> zone \<Rightarrow> disk_result" where
  "create_zone fs vio z =
     (let p = path_join (vio_location vio) (zone_name z) in
      case os_open_trunc blank fs p of
        Inl e \<Rightarrow> (Some (OsErr e), fs)
      | Inr fs1 \<Rightarrow>
          (case file_write (json_of_zone z) fs1 p of
             Inl e \<Rightarrow> (Some (OsErr e), fs1) | Inr fs2 \<Rightarrow> (None, fs2)))"

fun create_zones :: "content fs \<Rightarrow> view_io \<Rightarrow> zone list \<Rightarrow> disk_result" where
  "create_zones fs vio [] = (None, fs)"
| "create_zones fs vio (z # zs) =
     (case create_zone fs vio z of
        (Some e, fs') \<Rightarrow> (Some e, fs') | (None, fs') \<Rightarrow> create_zones fs' vio zs)"

text \<open>
  When the location is a file, \<open>createView\<close> wraps an error that is nil: \<open>errors.Wrapf\<close>
  of nil is nil, so nothing is written and no error is returned.
\<close>

definition create_view :: "content fs \<Rightarrow> view_io \<Rightarrow> view \<Rightarrow> disk_result" where
  "create_view fs vio v =
     (case os_stat fs (vio_location vio) of
        Inl e \<Rightarrow>
          if e = ErrNotExist
          then (case os_mkdir fs (vio_location vio) of
                  Inl e' \<Rightarrow> (Some (OsErr e'), fs)
                | Inr fs' \<Rightarrow> create_zones fs' vio (view_zones v))
          else (Some (OsErr e), fs)
      | Inr is_dir \<Rightarrow> if is_dir then create_zones fs vio (view_zones v) else (None, fs))"

definition recreate_view :: "content fs \<Rightarrow> view_io \<Rightarrow> view \<Rightarrow> disk_result" where
  "recreate_view fs vio v =
     (case remove_view fs vio of
        (Some e, fs') \<Rightarrow> (Some e, fs') | (None, fs') \<Rightarrow> create_view fs' vio v)"

fun load_view_zones :: "content fs \<Rightarrow> path \<Rightarrow> (string \<times> bool) list \<Rightarrow> zone list" where
  "load_view_zones fs loc [] = []"
| "load_view_zones fs loc (file # files) =
     (if snd file then load_view_zones fs loc files
      else (case os_read_file fs (path_join loc (fst file)) of
              Inl _ \<Rightarrow> load_view_zones fs loc files
            | Inr content \<Rightarrow>
                (case as_zone content of
                   None \<Rightarrow> load_view_zones fs loc files
                 | Some z \<Rightarrow> z # load_view_zones fs loc files)))"

definition load_view :: "(string \<Rightarrow> string list) \<Rightarrow> content fs \<Rightarrow> view_io \<Rightarrow> storage_error + view" where
  "load_view split fs vio =
     (case os_read_dir fs (vio_location vio) of
        Inl e \<Rightarrow> Inl (OsErr e)
      | Inr files \<Rightarrow>
          Inr (new_view split (vio_view_name vio) (load_view_zones fs (vio_location vio) files)))"

definition load_zone :: "content fs \<Rightarrow> view_io \<Rightarrow> string \<Rightarrow> storage_error + zone option" where
  "load_zone fs vio name =
     (case os_read_file fs (path_join (vio_location vio) name) of
        Inl e \<Rightarrow> if e = ErrNotExist then Inr None else Inl (OsErr e)
      | Inr content \<Rightarrow> (case as_zone content of None \<Rightarrow> Inl BadJson | Some z \<Rightarrow> Inr (Some z)))"

section \<open>The disk storage\<close>

definition zone_inventory_meta_file_name :: string where
  "zone_inventory_meta_file_name = ''zone-inventory.json''"

definition new_zone_inventory_storage_disk :: "content fs \<Rightarrow> path \<Rightarrow> disk_result" where
  "new_zone_inventory_storage_disk fs loc =
     (case os_stat fs loc of
        Inr is_dir \<Rightarrow> if \<not> is_dir then (Some (NotADirectory loc), fs) else (None, fs)
      | Inl e \<Rightarrow>
          if e = ErrNotExist
          then (case os_mkdir_all fs loc of Inl e' \<Rightarrow> (Some (OsErr e'), fs) | Inr fs' \<Rightarrow> (None, fs'))
          else (Some (OsErr e), fs))"

text \<open>Every error of \<open>os.Remove\<close> is a \<open>PathError\<close>, so \<open>removeMeta\<close> never reports one.\<close>

definition remove_meta :: "content fs \<Rightarrow> path \<Rightarrow> disk_result" where
  "remove_meta fs loc =
     (case os_remove fs (path_join loc zone_inventory_meta_file_name) of
        Inl _ \<Rightarrow> (None, fs) | Inr fs' \<Rightarrow> (None, fs'))"

definition save_meta :: "content fs \<Rightarrow> path \<Rightarrow> time \<Rightarrow> disk_result" where
  "save_meta fs loc populated_at =
     (let p = path_join loc zone_inventory_meta_file_name in
      case os_open_trunc blank fs p of
        Inl e \<Rightarrow> (Some (OsErr e), fs)
      | Inr fs1 \<Rightarrow>
          (case file_write (json_of_meta populated_at) fs1 p of
             Inl e \<Rightarrow> (Some (OsErr e), fs1) | Inr fs2 \<Rightarrow> (None, fs2)))"

definition read_meta :: "content fs \<Rightarrow> path \<Rightarrow> storage_error + time option" where
  "read_meta fs loc =
     (case os_read_file fs (path_join loc zone_inventory_meta_file_name) of
        Inl e \<Rightarrow> if e = ErrNotExist then Inr None else Inl (OsErr e)
      | Inr content \<Rightarrow> (case as_meta content of None \<Rightarrow> Inl BadJson | Some t \<Rightarrow> Inr (Some t)))"

text \<open>\<open>loadViews\<close> reads a field of what \<open>readMeta\<close> returns, which is nil without the file.\<close>

definition disk_load_views :: "content fs \<Rightarrow> path \<Rightarrow> (storage_error + time) run" where
  "disk_load_views fs loc =
     (case read_meta fs loc of
        Inl e \<Rightarrow> Done (Inl e)
      | Inr None \<Rightarrow> Panic
      | Inr (Some t) \<Rightarrow> Done (Inr t))"

fun recreate_views :: "content fs \<Rightarrow> path \<Rightarrow> view list \<Rightarrow> disk_result" where
  "recreate_views fs loc [] = (None, fs)"
| "recreate_views fs loc (v # vs) =
     (case recreate_view fs (new_view_io loc (view_name v)) v of
        (Some e, fs') \<Rightarrow> (Some e, fs') | (None, fs') \<Rightarrow> recreate_views fs' loc vs)"

text \<open>
  \<open>saveViews\<close>: the error of the loop is overwritten by that of \<open>saveMeta\<close>.  The views are a
  pointer; with nil the loop panics.
\<close>

definition disk_save_views ::
    "time \<Rightarrow> content fs \<Rightarrow> path \<Rightarrow> view list option \<Rightarrow> disk_result run" where
  "disk_save_views now fs loc views =
     (case remove_meta fs loc of
        (Some e, fs1) \<Rightarrow> Done (Some e, fs1)
      | (None, fs1) \<Rightarrow>
          (case views of
             None \<Rightarrow> Panic
           | Some vs \<Rightarrow>
               (case recreate_views fs1 loc vs of (err, fs2) \<Rightarrow> Done (save_meta fs2 loc now))))"

text \<open>What the iterators over views yield: a view in memory or one on disk.\<close>

datatype accessor = InMemory view | OnDisk view_io

definition view_matches :: "zone_filter option \<Rightarrow> string \<Rightarrow> bool" where
  "view_matches filt name =
     (case filt of
        None \<Rightarrow> True
      | Some f \<Rightarrow> (case zf_view f of None \<Rightarrow> True | Some n \<Rightarrow> n = name))"

fun disk_view_entries :: "path \<Rightarrow> zone_filter option \<Rightarrow> (string \<times> bool) list \<Rightarrow> (storage_error + accessor) list" where
  "disk_view_entries loc filt [] = []"
| "disk_view_entries loc filt (file # files) =
     (if \<not> snd file \<or> \<not> view_matches filt (fst file) then disk_view_entries loc filt files
      else Inr (OnDisk (new_view_io loc (fst file))) # disk_view_entries loc filt files)"

definition disk_views_iterator ::
    "content fs \<Rightarrow> path \<Rightarrow> zone_filter option \<Rightarrow> (storage_error + accessor) list" where
  "disk_views_iterator fs loc filt =
     (case os_read_dir fs loc of
        Inl e \<Rightarrow> [Inl (OsErr e)]
      | Inr files \<Rightarrow> disk_view_entries loc filt files)"

definition disk_get_zone_in_view ::
    "content fs \<Rightarrow> path \<Rightarrow> string \<Rightarrow> string \<Rightarrow> storage_error + zone option" where
  "disk_get_zone_in_view fs loc vname zname = load_zone fs (new_view_io loc vname) zname"

section \<open>The memory storage\<close>

definition memory_views_iterator ::
    "view list option \<Rightarrow> zone_filter option \<Rightarrow> (storage_error + accessor) list" where
  "memory_views_iterator views filt =
     (case views of
        None \<Rightarrow> []
      | Some vs \<Rightarrow> map (\<lambda>v. Inr (InMemory v)) (filter (\<lambda>v. view_matches filt (view_name v)) vs))"

definition memory_get_zone_in_view ::
    "(string \<Rightarrow> string list) \<Rightarrow> view list option \<Rightarrow> string \<Rightarrow> string \<Rightarrow> storage_error + zone option" where
  "memory_get_zone_in_view split views vname zname =
     (case views of
        None \<Rightarrow> Inr None
      | Some vs \<Rightarrow>
          (case get_view vs vname of
             None \<Rightarrow> Inr None
           | Some v \<Rightarrow> Inr (get_zone split (view_zones v) zname)))"

section \<open>The storage on disk with a copy in memory, and the interface of the three\<close>

fun load_views_from :: "(string \<Rightarrow> string list) \<Rightarrow> content fs \<Rightarrow> path \<Rightarrow> (string \<times> bool) list \<Rightarrow> storage_error + view list" where
  "load_views_from split fs loc [] = Inr []"
| "load_views_from split fs loc (file # files) =
     (if snd file
      then (case load_view split fs (new_view_io loc (fst file)) of
              Inl e \<Rightarrow> Inl e
            | Inr v \<Rightarrow>
                (case load_views_from split fs loc files of Inl e \<Rightarrow> Inl e | Inr vs \<Rightarrow> Inr (v # vs)))
      else load_views_from split fs loc files)"

text \<open>Loading into memory: the population time and the new contents of the memory.\<close>

definition memory_disk_load_views ::
    "(string \<Rightarrow> string list) \<Rightarrow> content fs \<Rightarrow> path \<Rightarrow> (storage_error + time \<times> view list) run" where
  "memory_disk_load_views split fs loc =
     bind_run (disk_load_views fs loc) (\<lambda>r.
       case r of
         Inl e \<Rightarrow> Done (Inl e)
       | Inr populated_at \<Rightarrow>
           (case os_read_dir fs loc of
              Inl e \<Rightarrow> Done (Inl (OsErr e))
            | Inr files \<Rightarrow>
                (case load_views_from split fs loc files of
                   Inl e \<Rightarrow> Done (Inl e)
                 | Inr vs \<Rightarrow> Done (Inr (populated_at, new_views vs)))))"

text \<open>
  \<open>zoneInventoryStorage\<close>: the type of the storage is fixed; its memory, where it has one, is
  nil until views are stored.
\<close>

datatype storage =
    Memory "view list option"
  | Disk path
  | MemoryDisk path "view list option"

definition new_storage_memory :: storage where
  "new_storage_memory = Memory None"

fun get_views_iterator :: "content fs \<Rightarrow> storage \<Rightarrow> zone_filter option \<Rightarrow> (storage_error + accessor) list" where
  "get_views_iterator fs (Memory views) filt = memory_views_iterator views filt"
| "get_views_iterator fs (Disk loc) filt = disk_views_iterator fs loc filt"
| "get_views_iterator fs (MemoryDisk loc views) filt = memory_views_iterator views filt"

fun storage_get_zone_in_view ::
    "(string \<Rightarrow> string list) \<Rightarrow> content fs \<Rightarrow> storage \<Rightarrow> string \<Rightarrow> string \<Rightarrow> storage_error + zone option" where
  "storage_get_zone_in_view split fs (Memory views) v z = memory_get_zone_in_view split views v z"
| "storage_get_zone_in_view split fs (Disk loc) v z = disk_get_zone_in_view fs loc v z"
| "storage_get_zone_in_view split fs (MemoryDisk loc views) v z = memory_get_zone_in_view split views v z"

fun storage_load_views ::
    "(string \<Rightarrow> string list) \<Rightarrow> content fs \<Rightarrow> storage \<Rightarrow> ((storage_error + time) \<times> storage) run" where
  "storage_load_views split fs (Memory views) = Done (Inl NoDiskStorage, Memory views)"
| "storage_load_views split fs (Disk loc) = bind_run (disk_load_views fs loc) (\<lambda>r. Done (r, Disk loc))"
| "storage_load_views split fs (MemoryDisk loc views) =
     bind_run (memory_disk_load_views split fs loc) (\<lambda>r.
       case r of
         Inl e \<Rightarrow> Done (Inl e, MemoryDisk loc views)
       | Inr (t, vs) \<Rightarrow> Done (Inr t, MemoryDisk loc (Some vs)))"

fun storage_save_views ::
    "time \<Rightarrow> content fs \<Rightarrow> storage \<Rightarrow> view list option \<Rightarrow> (storage_error option \<times> content fs \<times> storage) run" where
  "storage_save_views now fs (Memory old) views = Done (None, fs, Memory views)"
| "storage_save_views now fs (Disk loc) views =
     bind_run (disk_save_views now fs loc views) (\<lambda>(err, fs'). Done (err, fs', Disk loc))"
| "storage_save_views now fs (MemoryDisk loc old) views =
     bind_run (disk_save_views now fs loc views) (\<lambda>(err, fs').
       case err of
         Some e \<Rightarrow> Done (Some e, fs', MemoryDisk loc old)
       | None \<Rightarrow> Done (None, fs', MemoryDisk loc views))"

text \<open>\<open>ZoneIteratorAccessor\<close>: the operations of a view in memory or on disk.\<close>

fun accessor_view_name :: "accessor \<Rightarrow> string" where
  "accessor_view_name (InMemory v) = view_name v"
| "accessor_view_name (OnDisk vio) = vio_view_name vio"

fun accessor_zone_count :: "content fs \<Rightarrow> accessor \<Rightarrow> storage_error + int" where
  "accessor_zone_count fs (InMemory v) = Inr (view_zone_count v)"
| "accessor_zone_count fs (OnDisk vio) = view_io_zone_count fs vio"

fun accessor_zone_iterator ::
    "(string \<Rightarrow> string list) \<Rightarrow> content fs \<Rightarrow> accessor \<Rightarrow> zone_filter option \<Rightarrow> (storage_error + zone) list" where
  "accessor_zone_iterator split fs (InMemory v) filt = map Inr (get_zone_iterator split v filt)"
| "accessor_zone_iterator split fs (OnDisk vio) filt = view_io_zone_iterator split fs vio filt"

end
