(* ===== verification/Storage_Refinement.thy ===== *)
theory Storage_Refinement
  imports Zone_Storage
begin

text \<open>
  What the disk storage keeps of the views it saves: the tree below the storage's directory
  after \<open>saveViews\<close>, and from it the agreement of the disk storage with the memory storage
  and of the loaded views with the saved ones.
\<close>

definition storable_view :: "view \<Rightarrow> bool" where
  "storable_view v \<longleftrightarrow> simple_name (view_name v) \<and> view_name v \<noteq> zone_inventory_meta_file_name \<and>
     (\<forall>z \<in> set (view_zones v). simple_name (zone_name z)) \<and> distinct (map zone_name (view_zones v))"

definition storable :: "view list \<Rightarrow> bool" where
  "storable vs \<longleftrightarrow> (\<forall>v \<in> set vs. storable_view v) \<and> distinct (map view_name vs)"

text \<open>A disk that works, and the nodes that a set of updates leaves.\<close>

definition disk_ok :: "'c fs \<Rightarrow> bool" where
  "disk_ok fs \<longleftrightarrow> fs_ok fs \<and> no_faults fs"

definition zone_files :: "path \<Rightarrow> zone list \<Rightarrow> path \<Rightarrow> content node option" where
  "zone_files p zs q = map_option (\<lambda>z. File (json_of_zone z)) (find (\<lambda>z. q = p @ [zone_name z]) zs)"

definition view_tree :: "path \<Rightarrow> view \<Rightarrow> path \<Rightarrow> content node option" where
  "view_tree loc v q =
     (let p = loc @ [view_name v] in if q = p then Some Dir else zone_files p (view_zones v) q)"

lemma no_faultsD: "no_faults fs \<Longrightarrow> fs_fault fs op p = None"
  by (simp add: no_faults_def)

lemma simple_meta [simp]: "simple_name zone_inventory_meta_file_name"
  by (simp add: simple_name_def zone_inventory_meta_file_name_def)

lemma new_view_io_simple: "simple_name n \<Longrightarrow> new_view_io loc n = \<lparr>vio_view_name = n, vio_location = loc @ [n]\<rparr>"
  by (simp add: new_view_io_def)

lemma write_file_ok:
  assumes "disk_ok fs" "node_at fs p = Some Dir" "node_at fs (p @ [n]) \<noteq> Some Dir"
  shows "os_open_trunc b fs (p @ [n]) = Inr (put_node (p @ [n]) (File b) fs)"
    and "file_write c (put_node (p @ [n]) (File b) fs) (p @ [n]) =
      Inr (put_node (p @ [n]) (File c) (put_node (p @ [n]) (File b) fs))"
  using assms by (auto simp: os_open_trunc_def file_write_def disk_ok_def no_faultsD split: option.split node.split)

lemma create_zone_ok:
  assumes "disk_ok fs" "node_at fs (vio_location vio) = Some Dir" "simple_name (zone_name z)"
    and "node_at fs (vio_location vio @ [zone_name z]) \<noteq> Some Dir"
  obtains fs' where "create_zone fs vio z = (None, fs')" "disk_ok fs'"
    "\<And>q. node_at fs' q = (if q = vio_location vio @ [zone_name z] then Some (File (json_of_zone z)) else node_at fs q)"
proof
  let ?p = "vio_location vio @ [zone_name z]"
  let ?fs = "put_node ?p (File (json_of_zone z)) (put_node ?p (File blank) fs)"
  show "create_zone fs vio z = (None, ?fs)"
    using assms write_file_ok [OF assms(1,2,4)] by (simp add: create_zone_def Let_def)
  show "disk_ok ?fs" using assms(1) by (simp add: disk_ok_def)
qed simp

lemma create_zones_ok:
  assumes "disk_ok fs" "node_at fs (vio_location vio) = Some Dir"
    and "\<forall>z \<in> set zs. simple_name (zone_name z) \<and> node_at fs (vio_location vio @ [zone_name z]) \<noteq> Some Dir"
    and "distinct (map zone_name zs)"
  shows "\<exists>fs'. create_zones fs vio zs = (None, fs') \<and> disk_ok fs' \<and>
    (\<forall>q. node_at fs' q = (case zone_files (vio_location vio) zs q of Some nd \<Rightarrow> Some nd | None \<Rightarrow> node_at fs q))"
  using assms
proof (induction zs arbitrary: fs)
  case (Cons z zs)
  let ?loc = "vio_location vio"
  from Cons.prems obtain fs1 where fs1: "create_zone fs vio z = (None, fs1)" "disk_ok fs1"
    "\<And>q. node_at fs1 q = (if q = ?loc @ [zone_name z] then Some (File (json_of_zone z)) else node_at fs q)"
    using create_zone_ok [of fs vio z] by auto
  have "\<exists>fs'. create_zones fs1 vio zs = (None, fs') \<and> disk_ok fs' \<and>
      (\<forall>q. node_at fs' q = (case zone_files ?loc zs q of Some nd \<Rightarrow> Some nd | None \<Rightarrow> node_at fs1 q))"
    using Cons.prems fs1 by (intro Cons.IH) auto
  then obtain fs' where fs': "create_zones fs1 vio zs = (None, fs')" "disk_ok fs'"
    "\<And>q. node_at fs' q = (case zone_files ?loc zs q of Some nd \<Rightarrow> Some nd | None \<Rightarrow> node_at fs1 q)"
    by blast
  have none: "zone_files ?loc zs (?loc @ [zone_name z]) = None"
    using Cons.prems(4) by (auto simp: zone_files_def find_None_iff)
  have "node_at fs' q = (case zone_files ?loc (z # zs) q of Some nd \<Rightarrow> Some nd | None \<Rightarrow> node_at fs q)" for q
    using none by (cases "q = ?loc @ [zone_name z]")
      (simp_all add: fs'(3) fs1(3) zone_files_def split: option.split)
  with fs1(1) fs'(1,2) show ?case by auto
qed (simp add: zone_files_def)

lemma dir_path_below:
  assumes "\<And>q. \<not> prefix (p @ [n]) q \<Longrightarrow> node_at fs' q = node_at fs q"
  shows "dir_path fs' p = dir_path fs p"
proof -
  have "\<not> prefix (p @ [n]) (take k p)" for k by (auto dest!: prefix_length_le)
  with assms show ?thesis by (simp add: dir_path_def)
qed

lemma recreate_view_ok:
  assumes "disk_ok fs" "dir_path fs loc" "storable_view v"
  shows "\<exists>fs'. recreate_view fs (new_view_io loc (view_name v)) v = (None, fs') \<and> disk_ok fs' \<and>
    (\<forall>q. node_at fs' q = (if prefix (loc @ [view_name v]) q then view_tree loc v q else node_at fs q))"
proof -
  let ?p = "loc @ [view_name v]"
  let ?vio = "\<lparr>vio_view_name = view_name v, vio_location = ?p\<rparr>"
  let ?fs1 = "del_tree ?p fs"
  let ?fs2 = "put_node ?p Dir ?fs1"
  have simple: "simple_name (view_name v)" using assms(3) by (simp add: storable_view_def)
  have dir1: "dir_path ?fs1 loc"
    using dir_path_below [of loc "view_name v" ?fs1 fs] assms(2) by simp
  have none: "node_at ?fs1 ?p = None" by simp
  have ok: "fs_fault ?fs1 op q = None" for op q
    using assms(1) by (simp add: disk_ok_def no_faultsD)
  have rm: "remove_view fs ?vio = (None, ?fs1)"
    using assms(1) by (simp add: remove_view_def os_remove_all_def disk_ok_def no_faultsD)
  have st: "os_stat ?fs1 ?p = Inl ErrNotExist"
    unfolding os_stat_def ok none using missing_error_dir [OF dir1 none] by simp
  have mk: "os_mkdir ?fs1 ?p = Inr ?fs2"
    unfolding os_mkdir_def ok none using dir_path_node [OF dir1] by simp
  have "\<exists>fs'. create_zones ?fs2 ?vio (view_zones v) = (None, fs') \<and> disk_ok fs' \<and>
    (\<forall>q. node_at fs' q = (case zone_files (vio_location ?vio) (view_zones v) q of
        Some nd \<Rightarrow> Some nd | None \<Rightarrow> node_at ?fs2 q))"
    using assms(1,3) by (intro create_zones_ok) (auto simp: disk_ok_def storable_view_def)
  then obtain fs' where fs': "create_zones ?fs2 ?vio (view_zones v) = (None, fs')" "disk_ok fs'"
    "\<And>q. node_at fs' q = (case zone_files ?p (view_zones v) q of Some nd \<Rightarrow> Some nd | None \<Rightarrow> node_at ?fs2 q)"
    by auto
  have "recreate_view fs (new_view_io loc (view_name v)) v = (None, fs')"
    using rm st mk fs'(1) simple by (simp add: recreate_view_def create_view_def new_view_io_simple)
  moreover have "node_at fs' q = (if prefix ?p q then view_tree loc v q else node_at fs q)" for q
  proof -
    have zf: "zone_files ?p (view_zones v) q = None" if "\<not> prefix ?p q \<or> q = ?p"
      using that by (auto simp: zone_files_def find_None_iff prefix_def)
    consider "q = ?p" | "\<not> prefix ?p q" "q \<noteq> ?p" | "prefix ?p q" "q \<noteq> ?p" by blast
    then show ?thesis
      by cases (use zf in \<open>simp_all add: fs'(3) view_tree_def Let_def split: option.split\<close>)
  qed
  ultimately show ?thesis using fs'(2) by blast
qed

text \<open>The tree of all the views, over what was on the disk before.\<close>

definition views_tree :: "path \<Rightarrow> view list \<Rightarrow> (path \<Rightarrow> content node option) \<Rightarrow> path \<Rightarrow> content node option" where
  "views_tree loc vs before q =
     (case find (\<lambda>v. prefix (loc @ [view_name v]) q) vs of
        Some v \<Rightarrow> view_tree loc v q | None \<Rightarrow> before q)"

lemma recreate_views_ok:
  assumes "disk_ok fs" "dir_path fs loc" "storable vs"
  shows "\<exists>fs'. recreate_views fs loc vs = (None, fs') \<and> disk_ok fs' \<and>
    (\<forall>q. node_at fs' q = views_tree loc vs (node_at fs) q)"
  using assms
proof (induction vs arbitrary: fs)
  case (Cons v vs)
  have "storable_view v" "storable vs" using Cons.prems(3) by (auto simp: storable_def)
  from recreate_view_ok [OF Cons.prems(1,2) this(1)] obtain fs1 where
    fs1: "recreate_view fs (new_view_io loc (view_name v)) v = (None, fs1)" "disk_ok fs1"
    "\<And>q. node_at fs1 q = (if prefix (loc @ [view_name v]) q then view_tree loc v q else node_at fs q)"
    by blast
  have "dir_path fs1 loc"
    using dir_path_below [of loc "view_name v" fs1 fs] Cons.prems(2) fs1(3) by simp
  from Cons.IH [OF fs1(2) this \<open>storable vs\<close>] obtain fs' where
    fs': "recreate_views fs1 loc vs = (None, fs')" "disk_ok fs'"
    "\<And>q. node_at fs' q = views_tree loc vs (node_at fs1) q"
    by blast
  have none: "find (\<lambda>v'. prefix (loc @ [view_name v']) q) vs = None" if "prefix (loc @ [view_name v]) q" for q
    using Cons.prems(3) that by (auto simp: find_None_iff storable_def prefix_def)
  have "node_at fs' q = views_tree loc (v # vs) (node_at fs) q" for q
    using none [of q] by (auto simp: fs'(3) fs1(3) views_tree_def split: option.split)
  with fs1(1) fs'(1,2) show ?case by simp
qed (simp add: views_tree_def)

section \<open>Sorting and filtering the entries of a directory\<close>

lemma insert_by_map: "insert_by c (f x) (map f ys) = map f (insert_by (\<lambda>a b. c (f a) (f b)) x ys)"
  by (induction ys) auto

lemma slices_sort_map: "slices_sort c (map f xs) = map f (slices_sort (\<lambda>a b. c (f a) (f b)) xs)"
proof -
  have "fold (insert_by c) (map f xs) (map f ys) = map f (fold (insert_by (\<lambda>a b. c (f a) (f b))) xs ys)" for ys
    by (induction xs arbitrary: ys) (auto simp: insert_by_map)
  from this [of "[]"] show ?thesis by (simp add: slices_sort_def)
qed

lemma linear_lower_bound_map:
  "linear_lower_bound_from split nm name i (map f xs) = linear_lower_bound_from split (\<lambda>x. nm (f x)) name i xs"
  by (induction xs arbitrary: i) (auto simp: Let_def)

lemma search_lower_bound_map:
  "search_zone_lower_bound split nm (map f xs) name = search_zone_lower_bound split (\<lambda>x. nm (f x)) xs name"
proof -
  let ?c = "\<lambda>z. if 0 \<le> compare_names split (nm z) name then 0 else -1 :: int"
  have "slices_binary_search ?c (map f xs) = slices_binary_search (\<lambda>x. ?c (f x)) xs"
    by (rule slices_binary_search_map [symmetric])
  then show ?thesis
    by (auto simp: search_zone_lower_bound_def linear_search_zone_lower_bound_def
        binary_search_zone_lower_bound_def linear_lower_bound_map slices_binary_search_def Let_def)
qed

lemma lower_bound_filter_map:
  "apply_zone_lower_bound_filter split nm (map f xs) filt =
     map f (apply_zone_lower_bound_filter split (\<lambda>x. nm (f x)) xs filt)"
  by (simp add: apply_zone_lower_bound_filter_def search_lower_bound_map drop_map Let_def
      split: option.split prod.split)

lemma set_lower_bound_filter: "set (apply_zone_lower_bound_filter split nm xs filt) \<subseteq> set xs"
  by (auto simp: apply_zone_lower_bound_filter_def Let_def split: option.splits prod.splits if_splits
      dest: in_set_dropD)

interpretation dns_entry_order: comparison "\<lambda>a b :: string \<times> bool. compare_names split (fst a) (fst b)" for split
  by (rule dns_order.comparison_by)

section \<open>A disk that holds given views\<close>

definition holds_view :: "content fs \<Rightarrow> path \<Rightarrow> view \<Rightarrow> bool" where
  "holds_view fs loc v \<longleftrightarrow> (\<forall>q. prefix (loc @ [view_name v]) q \<longrightarrow> node_at fs q = view_tree loc v q)"

text \<open>
  The abstraction relation of the disk storage: the directory has the tree of every view and
  no other directories.
\<close>

definition holds_views :: "content fs \<Rightarrow> path \<Rightarrow> view list \<Rightarrow> bool" where
  "holds_views fs loc vs \<longleftrightarrow> disk_ok fs \<and> dir_path fs loc \<and>
     (\<forall>v \<in> set vs. holds_view fs loc v) \<and>
     (\<forall>n. node_at fs (loc @ [n]) = Some Dir \<longrightarrow> n \<in> view_name ` set vs)"

definition zone_entry :: "zone \<Rightarrow> string \<times> bool" where
  "zone_entry z = (zone_name z, False)"

lemma find_zone_file:
  assumes "distinct (map zone_name zs)" "z \<in> set zs"
  shows "find (\<lambda>z'. p @ [zone_name z] = p @ [zone_name z']) zs = Some z"
  using assms by (induction zs) (auto intro: rev_image_eqI)

lemma zone_file_node:
  assumes "holds_view fs loc v" "storable_view v" "z \<in> set (view_zones v)"
  shows "node_at fs (loc @ [view_name v] @ [zone_name z]) = Some (File (json_of_zone z))"
proof -
  have "prefix (loc @ [view_name v]) (loc @ [view_name v] @ [zone_name z])" by simp
  with assms(1) have "node_at fs (loc @ [view_name v] @ [zone_name z]) =
      view_tree loc v (loc @ [view_name v] @ [zone_name z])"
    unfolding holds_view_def by blast
  also have "\<dots> = Some (File (json_of_zone z))"
    using find_zone_file [of "view_zones v" z] assms(2,3)
    by (simp add: view_tree_def zone_files_def storable_view_def)
  finally show ?thesis .
qed

lemma read_zone_file:
  assumes "disk_ok fs" "holds_view fs loc v" "storable_view v" "z \<in> set (view_zones v)"
  shows "os_read_file fs (path_join (loc @ [view_name v]) (zone_name z)) = Inr (json_of_zone z)"
  using zone_file_node [OF assms(2-4)] assms
  by (simp add: os_read_file_def disk_ok_def no_faultsD storable_view_def)

lemma view_dir_nodes:
  assumes "holds_view fs loc v"
  shows "node_at fs (loc @ [view_name v]) = Some Dir"
    and "node_at fs (loc @ [view_name v] @ [n]) = zone_files (loc @ [view_name v]) (view_zones v) (loc @ [view_name v] @ [n])"
proof -
  have "prefix (loc @ [view_name v]) (loc @ [view_name v] @ [n])" by simp
  with assms show "node_at fs (loc @ [view_name v] @ [n]) =
      zone_files (loc @ [view_name v]) (view_zones v) (loc @ [view_name v] @ [n])"
    unfolding holds_view_def view_tree_def Let_def by simp
  show "node_at fs (loc @ [view_name v]) = Some Dir"
    using assms by (simp add: holds_view_def view_tree_def Let_def)
qed

lemma zone_files_cases:
  "if \<exists>z \<in> set zs. zone_name z = n then \<exists>c. zone_files p zs (p @ [n]) = Some (File c)
   else zone_files p zs (p @ [n]) = None"
  by (cases "find (\<lambda>z. n = zone_name z) zs") (auto simp: zone_files_def find_None_iff find_Some_iff)

lemma read_view_dir:
  assumes "disk_ok fs" "holds_view fs loc v" "storable_view v"
  shows "os_read_dir fs (loc @ [view_name v]) =
    Inr (slices_sort (\<lambda>a b. strings_compare (fst a) (fst b)) (map zone_entry (view_zones v)))"
proof (rule os_read_dir_Inr)
  let ?xs = "map zone_entry (view_zones v)"
  let ?cmp = "\<lambda>a b :: string \<times> bool. strings_compare (fst a) (fst b)"
  have names: "map fst ?xs = map zone_name (view_zones v)" by (simp add: zone_entry_def)
  have "distinct (map fst ?xs)" unfolding names using assms(3) by (simp add: storable_view_def)
  moreover have "mset (map fst (slices_sort ?cmp ?xs)) = mset (map fst ?xs)"
    by (simp only: mset_map mset_slices_sort)
  ultimately show "distinct (map fst (slices_sort ?cmp ?xs))"
    using mset_eq_imp_distinct_iff by blast
  have "(\<exists>nd. x = (n, is_dir_node nd) \<and> node_at fs (loc @ [view_name v] @ [n]) = Some nd) \<longleftrightarrow>
      x = (n, False) \<and> (\<exists>z \<in> set (view_zones v). zone_name z = n)" for x n
    unfolding view_dir_nodes(2) [OF assms(2)] using zone_files_cases [of "view_zones v" n "loc @ [view_name v]"]
    by (cases "\<exists>z \<in> set (view_zones v). zone_name z = n") (auto simp: is_dir_node_def)
  then show "set (slices_sort ?cmp ?xs) =
      {(n, is_dir_node nd) |n nd. node_at fs ((loc @ [view_name v]) @ [n]) = Some nd}"
    by (auto simp: zone_entry_def)
qed (use assms view_dir_nodes(1) [OF assms(2)] entry_order.sorted_slices_sort in \<open>auto simp: disk_ok_def\<close>)

section \<open>Reading a view back\<close>

text \<open>The same zones as the iterator in memory, when every file can be read.\<close>

lemma read_zones_iterate:
  assumes "\<forall>z \<in> set zs. os_read_file fs (path_join p (zone_name z)) = Inr (json_of_zone z)"
  shows "view_io_read_zones fs p filt c (map zone_entry zs) = map Inr (iterate_zones filt c zs)"
  using assms
proof (induction zs arbitrary: c)
  case (Cons z zs)
  show ?case
  proof (cases filt)
    case None
    with Cons show ?thesis by (simp add: zone_entry_def json_of_zone_def)
  next
    case (Some f)
    with Cons show ?thesis
      by (cases "zf_limit f") (simp_all add: zone_entry_def json_of_zone_def)
  qed
qed simp

lemma sort_entries:
  assumes "dns_sorted split (map zone_name zs)"
  shows "slices_sort (\<lambda>f1 f2. compare_names split (fst f1) (fst f2))
      (slices_sort (\<lambda>a b. strings_compare (fst a) (fst b)) (map zone_entry zs)) = map zone_entry zs"
    (is "slices_sort ?c ?es = _")
proof (rule dns_entry_order.sorted_by_unique [OF dns_entry_order.sorted_slices_sort])
  have le: "sorted_wrt (\<lambda>m n. compare_names split m n \<le> 0) (map zone_name zs)"
    using dns_sorted_imp_sorted_by [OF assms] unfolding sorted_by_def by simp
  show "sorted_by ?c (map zone_entry zs)"
    using le unfolding sorted_by_def by (simp add: sorted_wrt_map zone_entry_def)
  show "mset (slices_sort ?c ?es) = mset (map zone_entry zs)" by (simp only: mset_slices_sort)
next
  fix a b assume ab: "a \<in> set (slices_sort ?c ?es)" "b \<in> set (slices_sort ?c ?es)" "?c a b = 0"
  then obtain y z where yz: "y \<in> set zs" "z \<in> set zs" "a = zone_entry y" "b = zone_entry z" by auto
  then obtain i j where ij: "i < length zs" "j < length zs" "y = zs ! i" "z = zs ! j"
    by (auto simp: in_set_conv_nth)
  have "compare_names split (zone_name (zs ! i)) (zone_name (zs ! j)) = 0"
    "compare_names split (zone_name (zs ! j)) (zone_name (zs ! i)) = 0"
    using ab(3) yz ij dns_order.cmp_zero_sym by (auto simp: zone_entry_def)
  moreover have "i < j \<Longrightarrow> compare_names split (zone_name (zs ! i)) (zone_name (zs ! j)) < 0"
    "j < i \<Longrightarrow> compare_names split (zone_name (zs ! j)) (zone_name (zs ! i)) < 0"
    using assms ij(1,2) unfolding dns_sorted_def by (auto simp: sorted_wrt_iff_nth_less)
  ultimately have "i = j" by (cases i j rule: linorder_cases) auto
  then show "a = b" using yz ij by simp
qed

lemma view_io_iterator_eq:
  assumes "disk_ok fs" "holds_view fs loc v" "storable_view v"
    and "dns_sorted split (map zone_name (view_zones v))"
  shows "view_io_zone_iterator split fs (new_view_io loc (view_name v)) filt = map Inr (get_zone_iterator split v filt)"
proof -
  have simple: "simple_name (view_name v)" using assms(3) by (simp add: storable_view_def)
  let ?ok = "apply_zone_lower_bound_filter split zone_name (view_zones v) filt"
  have "apply_zone_lower_bound_filter split fst (map zone_entry (view_zones v)) filt = map zone_entry ?ok"
    unfolding lower_bound_filter_map by (simp add: zone_entry_def)
  moreover have "\<forall>z \<in> set ?ok. os_read_file fs (path_join (loc @ [view_name v]) (zone_name z)) = Inr (json_of_zone z)"
    using read_zone_file [OF assms(1-3)] set_lower_bound_filter [of split zone_name "view_zones v" filt]
    by (auto dest: subsetD)
  ultimately show ?thesis
    using simple read_view_dir [OF assms(1-3)] sort_entries [OF assms(4)]
    by (simp add: view_io_zone_iterator_def new_view_io_simple get_zone_iterator_def read_zones_iterate)
qed

lemma view_io_count_eq:
  assumes "disk_ok fs" "holds_view fs loc v" "storable_view v"
  shows "view_io_zone_count fs (new_view_io loc (view_name v)) = Inr (view_zone_count v)"
  using assms read_view_dir [OF assms]
  by (simp add: view_io_zone_count_def new_view_io_simple storable_view_def view_zone_count_def)

lemma dir_path_snoc:
  assumes "dir_path fs p" "node_at fs (p @ [n]) = Some Dir"
  shows "dir_path fs (p @ [n])"
  unfolding dir_path_def
proof (intro allI impI)
  fix k assume "k \<le> length (p @ [n])"
  then consider "k \<le> length p" | "k = length (p @ [n])" by fastforce
  then show "node_at fs (take k (p @ [n])) = Some Dir"
    by cases (use assms in \<open>auto simp: dir_path_def\<close>)
qed

lemma load_zone_eq:
  assumes "disk_ok fs" "dir_path fs loc" "holds_view fs loc v" "storable_view v" "simple_name name"
  shows "load_zone fs (new_view_io loc (view_name v)) name = Inr (find (\<lambda>z. zone_name z = name) (view_zones v))"
proof -
  let ?p = "loc @ [view_name v]"
  have vio: "new_view_io loc (view_name v) = \<lparr>vio_view_name = view_name v, vio_location = ?p\<rparr>"
    using assms(4) by (simp add: new_view_io_simple storable_view_def)
  show ?thesis
  proof (cases "find (\<lambda>z. zone_name z = name) (view_zones v)")
    case None
    then have "node_at fs (?p @ [name]) = None"
      using view_dir_nodes(2) [OF assms(3), of name] by (auto simp: zone_files_def find_None_iff)
    moreover have "dir_path fs ?p" using dir_path_snoc [OF assms(2)] view_dir_nodes(1) [OF assms(3)] by simp
    ultimately have "missing_error fs (?p @ [name]) = ErrNotExist" by (intro missing_error_dir)
    with None \<open>node_at fs (?p @ [name]) = None\<close> show ?thesis
      using assms(1,5) by (simp add: load_zone_def vio os_read_file_def disk_ok_def no_faultsD)
  next
    case (Some z)
    then have z: "z \<in> set (view_zones v)" "zone_name z = name"
      by (auto simp: find_Some_iff in_set_conv_nth)
    from read_zone_file [OF assms(1,3,4) z(1)] z(2) Some show ?thesis
      by (simp add: load_zone_def vio json_of_zone_def)
  qed
qed

lemma load_zone_missing_view:
  assumes "disk_ok fs" "dir_path fs loc" "simple_name vn" "simple_name name" "node_at fs (loc @ [vn]) = None"
    and "node_at fs (loc @ [vn, name]) = None"
  shows "load_zone fs (new_view_io loc vn) name = Inr None"
proof -
  have "\<not> (case node_at fs (take k (loc @ [vn, name])) of Some (File _) \<Rightarrow> True | _ \<Rightarrow> False)"
    if "k < length (loc @ [vn, name])" for k
  proof -
    from that consider "k \<le> length loc" | "k = Suc (length loc)" by fastforce
    then show ?thesis by cases (use assms(2,5) in \<open>auto simp: dir_path_def\<close>)
  qed
  then have "\<not> (\<exists>k \<in> set [0..<length (loc @ [vn, name])].
      (case node_at fs (take k (loc @ [vn, name])) of Some (File _) \<Rightarrow> True | _ \<Rightarrow> False))"
    by (metis atLeastLessThan_iff set_upt)
  then have "missing_error fs (loc @ [vn, name]) = ErrNotExist"
    unfolding missing_error_def by (simp only: if_False)
  with assms show ?thesis
    by (simp add: load_zone_def new_view_io_simple os_read_file_def disk_ok_def no_faultsD)
qed

lemma load_view_eq:
  assumes "disk_ok fs" "holds_view fs loc v" "storable_view v"
    and "dns_sorted split (map zone_name (view_zones v))"
  shows "load_view split fs (new_view_io loc (view_name v)) = Inr v"
proof -
  let ?p = "loc @ [view_name v]"
  let ?zs = "slices_sort (\<lambda>a b. strings_compare (zone_name a) (zone_name b)) (view_zones v)"
  have load: "load_view_zones fs ?p (map zone_entry zs) = zs"
    if "set zs \<subseteq> set (view_zones v)" for zs
    using that read_zone_file [OF assms(1-3)]
    by (induction zs) (auto simp: zone_entry_def json_of_zone_def)
  have "slices_sort (\<lambda>a b. strings_compare (fst a) (fst b)) (map zone_entry (view_zones v)) = map zone_entry ?zs"
    unfolding slices_sort_map by (simp add: zone_entry_def)
  with read_view_dir [OF assms(1-3)] have dir: "os_read_dir fs ?p = Inr (map zone_entry ?zs)" by simp
  have "sort_zones split ?zs = view_zones v"
    unfolding sort_zones_def
  proof (rule zone_order.sorted_by_unique [OF zone_order.sorted_slices_sort])
    show "sorted_by (zone_cmp split) (view_zones v)"
      using dns_sorted_imp_sorted_by [OF assms(4)]
      by (simp add: sorted_by_def sorted_wrt_map zone_cmp_def)
    show "mset (slices_sort (zone_cmp split) ?zs) = mset (view_zones v)" by (simp only: mset_slices_sort)
  next
    fix x y assume "x \<in> set (slices_sort (zone_cmp split) ?zs)" "y \<in> set (slices_sort (zone_cmp split) ?zs)"
      and xy: "zone_cmp split x y = 0"
    then obtain i j where ij: "i < length (view_zones v)" "j < length (view_zones v)"
        "x = view_zones v ! i" "y = view_zones v ! j"
      by (auto simp: in_set_conv_nth)
    from xy ij have "zone_cmp split (view_zones v ! i) (view_zones v ! j) = 0"
      "zone_cmp split (view_zones v ! j) (view_zones v ! i) = 0"
      using zone_order.cmp_zero_sym by auto
    moreover have "i < j \<Longrightarrow> zone_cmp split (view_zones v ! i) (view_zones v ! j) < 0"
      "j < i \<Longrightarrow> zone_cmp split (view_zones v ! j) (view_zones v ! i) < 0"
      using assms(4) ij(1,2) unfolding dns_sorted_def zone_cmp_def by (auto simp: sorted_wrt_iff_nth_less)
    ultimately have "i = j" by (cases i j rule: linorder_cases) auto
    then show "x = y" using ij by simp
  qed
  then show ?thesis
    using dir load [of ?zs] assms(3)
    by (simp add: load_view_def new_view_io_simple storable_view_def new_view_def)
qed

section \<open>Reading all the views back\<close>

definition view_entry :: "view \<Rightarrow> string \<times> bool" where
  "view_entry v = (view_name v, True)"

lemma is_dir_node_Dir: "is_dir_node nd \<longleftrightarrow> nd = Dir"
  by (cases nd) (simp_all add: is_dir_node_def)

lemma disk_view_entries_filter:
  "disk_view_entries loc filt es =
     map (\<lambda>e. Inr (OnDisk (new_view_io loc (fst e)))) (filter (\<lambda>e. view_matches filt (fst e)) (filter snd es))"
  by (induction es) auto

lemma read_location:
  assumes "holds_views fs loc vs" "sort_views vs = vs" "distinct (map view_name vs)"
  obtains es where "os_read_dir fs loc = Inr es" "filter snd es = map view_entry vs"
proof -
  let ?cmp = "\<lambda>a b :: string \<times> bool. strings_compare (fst a) (fst b)"
  let ?es = "slices_sort ?cmp (children loc fs)"
  have ok: "disk_ok fs" "dir_path fs loc" using assms(1) by (auto simp: holds_views_def)
  have "set ?es = {(n, is_dir_node nd) | n nd. node_at fs (loc @ [n]) = Some nd}"
    using set_children [of fs loc] ok(1) by (simp add: disk_ok_def)
  then have "x \<in> set (filter snd ?es) \<longleftrightarrow> (\<exists>n. x = (n, True) \<and> node_at fs (loc @ [n]) = Some Dir)" for x
    using is_dir_node_Dir by (cases x) auto
  moreover have "node_at fs (loc @ [n]) = Some Dir \<longleftrightarrow> n \<in> view_name ` set vs" for n
    using assms(1) view_dir_nodes(1) by (auto simp: holds_views_def)
  ultimately have set: "set (filter snd ?es) = set (map view_entry vs)"
    by (auto simp: view_entry_def)
  have dist: "distinct (map fst (children loc fs))"
    using distinct_children [of fs loc] ok(1) by (simp add: disk_ok_def)
  have "mset (map fst ?es) = mset (map fst (children loc fs))" by (simp only: mset_map mset_slices_sort)
  with dist have "distinct (map fst ?es)" using mset_eq_imp_distinct_iff by blast
  then have dists: "distinct (filter snd ?es)" by (simp add: distinct_map)
  have distv: "distinct (map view_entry vs)" using assms(3) by (auto simp: distinct_map view_entry_def inj_on_def)
  have "filter snd ?es = map view_entry vs"
  proof (rule entry_order.sorted_by_unique)
    show "sorted_by ?cmp (filter snd ?es)"
      using entry_order.sorted_slices_sort [of "children loc fs"] unfolding sorted_by_def
      by (simp add: sorted_wrt_filter)
    have "sorted_by (\<lambda>v1 v2. strings_compare (view_name v1) (view_name v2)) vs"
      using view_order.sorted_slices_sort [of vs] assms(2) by (simp add: sort_views_def)
    then show "sorted_by ?cmp (map view_entry vs)"
      by (simp add: sorted_by_def sorted_wrt_map view_entry_def)
    show "mset (filter snd ?es) = mset (map view_entry vs)"
      using set dists distv set_eq_iff_mset_eq_distinct by blast
  next
    fix x y assume "x \<in> set (filter snd ?es)" "y \<in> set (filter snd ?es)" "?cmp x y = 0"
    with set show "x = y" by (auto simp: view_entry_def strings_compare_def split: if_splits)
  qed
  moreover have "os_read_dir fs loc = Inr ?es"
    using ok dir_path_node [OF ok(2)] by (simp add: os_read_dir_def disk_ok_def no_faultsD)
  ultimately show thesis using that by blast
qed

section \<open>The contract of the storages\<close>

text \<open>
  The views that the program saves: sorted by \<open>NewViews\<close>, their zones by \<open>NewView\<close>, and with
  names that can be used as file names.
\<close>

definition inventory_views :: "(string \<Rightarrow> string list) \<Rightarrow> view list \<Rightarrow> bool" where
  "inventory_views split vs \<longleftrightarrow> sort_views vs = vs \<and> storable vs \<and>
     (\<forall>v \<in> set vs. dns_sorted split (map zone_name (view_zones v)))"

text \<open>What a caller sees of one item of the iterator over views.\<close>

type_synonym observation = "storage_error + string \<times> (storage_error + int) \<times> (storage_error + zone) list"

definition observe ::
    "(string \<Rightarrow> string list) \<Rightarrow> content fs \<Rightarrow> zone_filter option \<Rightarrow> storage_error + accessor \<Rightarrow> observation" where
  "observe split fs filt r =
     (case r of
        Inl e \<Rightarrow> Inl e
      | Inr a \<Rightarrow> Inr (accessor_view_name a, accessor_zone_count fs a, accessor_zone_iterator split fs a filt))"

definition view_stream :: "(string \<Rightarrow> string list) \<Rightarrow> view list \<Rightarrow> zone_filter option \<Rightarrow> observation list" where
  "view_stream split vs filt =
     map (\<lambda>v. Inr (view_name v, Inr (view_zone_count v), map Inr (get_zone_iterator split v filt)))
       (filter (\<lambda>v. view_matches filt (view_name v)) vs)"

definition view_lookup :: "view list \<Rightarrow> string \<Rightarrow> string \<Rightarrow> zone option" where
  "view_lookup vs vname zname =
     (case get_view vs vname of None \<Rightarrow> None | Some v \<Rightarrow> find (\<lambda>z. zone_name z = zname) (view_zones v))"

text \<open>
  The interface \<open>zoneInventoryStorage\<close>: \<open>ready\<close> says when the views can be saved.  After
  they are saved, the iterator and the lookup answer from these views alone.
\<close>

locale zone_store =
  fixes split :: "string \<Rightarrow> string list"
    and ready :: "'s \<Rightarrow> view list \<Rightarrow> bool"
    and save :: "time \<Rightarrow> 's \<Rightarrow> view list \<Rightarrow> (storage_error option \<times> 's) run"
    and stream :: "'s \<Rightarrow> zone_filter option \<Rightarrow> observation list"
    and lookup :: "'s \<Rightarrow> string \<Rightarrow> string \<Rightarrow> storage_error + zone option"
  assumes save_returns: "ready s vs \<Longrightarrow> inventory_views split vs \<Longrightarrow> \<exists>s'. save now s vs = Done (None, s')"
    and save_stream: "ready s vs \<Longrightarrow> inventory_views split vs \<Longrightarrow> save now s vs = Done (None, s') \<Longrightarrow>
      stream s' filt = view_stream split vs filt"
    and save_lookup: "ready s vs \<Longrightarrow> inventory_views split vs \<Longrightarrow> save now s vs = Done (None, s') \<Longrightarrow>
      vname \<in> view_name ` set vs \<Longrightarrow> simple_name zname \<Longrightarrow>
      \<forall>v \<in> set vs. canonical_for split (map zone_name (view_zones v)) zname \<Longrightarrow> lookup s' vname zname = Inr (view_lookup vs vname zname)"
begin

text \<open>What a consumer of all the zones receives after a save: every zone of every view, once.\<close>

lemma saved_zones_delivered:
  assumes "ready s vs" "inventory_views split vs" "save now s vs = Done (None, s')"
  shows "concat (map (case_sum (\<lambda>e. [Inl e]) (\<lambda>(n, c, zs). map (map_sum id (Pair n)) zs)) (stream s' None)) =
    map Inr (concat (map (\<lambda>v. map (Pair (view_name v)) (view_zones v)) vs))"
proof -
  have "stream s' None = map (\<lambda>v. Inr (view_name v, Inr (view_zone_count v), map Inr (view_zones v))) vs"
    by (simp add: save_stream [OF assms] view_stream_def view_matches_def get_zone_iterator_def
        apply_zone_lower_bound_filter_def iterate_zones_None)
  then show ?thesis by (simp add: map_concat comp_def)
qed

lemma saved_zone_found:
  assumes "ready s vs" "inventory_views split vs" "save now s vs = Done (None, s')"
    and "v \<in> set vs" "z \<in> set (view_zones v)"
    and "\<forall>v \<in> set vs. canonical_for split (map zone_name (view_zones v)) (zone_name z)"
  shows "lookup s' (view_name v) (zone_name z) = Inr (Some z)"
proof -
  have st: "storable vs" using assms(2) by (simp add: inventory_views_def)
  then have "get_view vs (view_name v) = Some v"
    unfolding get_view_def storable_def using assms(4)
    by (induction vs) (auto intro: rev_image_eqI)
  moreover have "find (\<lambda>z'. zone_name z' = zone_name z) (view_zones v) = Some z"
    using find_zone_file [of "view_zones v" z "[]"] st assms(4,5)
    by (simp add: storable_def storable_view_def eq_commute)
  ultimately have "view_lookup vs (view_name v) (zone_name z) = Some z"
    by (simp add: view_lookup_def)
  moreover have "simple_name (zone_name z)"
    using st assms(4,5) by (auto simp: storable_def storable_view_def)
  ultimately show ?thesis
    using save_lookup [OF assms(1-3) imageI [OF assms(4)] _ assms(6)] by simp
qed

text \<open>A second save replaces everything the first one stored.\<close>

lemma save_replaces:
  assumes "ready s vs" "inventory_views split vs" "save t1 s vs = Done (None, s1)"
    and "ready s1 ws" "inventory_views split ws" "save t2 s1 ws = Done (None, s2)"
    and "ready s ws" "save t3 s ws = Done (None, s3)"
  shows "stream s2 filt = stream s3 filt"
  using save_stream [OF assms(4-6)] save_stream [OF assms(7,5,8)] by simp

end

section \<open>The three storages keep the contract\<close>

definition store_save ::
    "time \<Rightarrow> content fs \<times> storage \<Rightarrow> view list \<Rightarrow> (storage_error option \<times> content fs \<times> storage) run" where
  "store_save now s vs = storage_save_views now (fst s) (snd s) (Some vs)"

definition store_stream ::
    "(string \<Rightarrow> string list) \<Rightarrow> content fs \<times> storage \<Rightarrow> zone_filter option \<Rightarrow> observation list" where
  "store_stream split s filt = map (observe split (fst s) filt) (get_views_iterator (fst s) (snd s) filt)"

definition store_lookup ::
    "(string \<Rightarrow> string list) \<Rightarrow> content fs \<times> storage \<Rightarrow> string \<Rightarrow> string \<Rightarrow> storage_error + zone option" where
  "store_lookup split s v z = storage_get_zone_in_view split (fst s) (snd s) v z"

text \<open>
  A disk can take the views when it works, its directory exists, and every directory in it
  belongs to one of the views: \<open>saveViews\<close> does not remove the directories of others.
\<close>

definition disk_ready :: "content fs \<Rightarrow> path \<Rightarrow> view list \<Rightarrow> bool" where
  "disk_ready fs loc vs \<longleftrightarrow> disk_ok fs \<and> dir_path fs loc \<and>
     (\<forall>n. node_at fs (loc @ [n]) = Some Dir \<longrightarrow> n \<in> view_name ` set vs)"

fun memory_ready :: "content fs \<times> storage \<Rightarrow> view list \<Rightarrow> bool" where
  "memory_ready (fs, Memory old) vs = True"
| "memory_ready _ vs = False"

fun disk_storage_ready :: "content fs \<times> storage \<Rightarrow> view list \<Rightarrow> bool" where
  "disk_storage_ready (fs, Disk loc) vs = disk_ready fs loc vs"
| "disk_storage_ready _ vs = False"

fun memory_disk_ready :: "content fs \<times> storage \<Rightarrow> view list \<Rightarrow> bool" where
  "memory_disk_ready (fs, MemoryDisk loc old) vs = disk_ready fs loc vs"
| "memory_disk_ready _ vs = False"

lemma remove_meta_ok:
  assumes "disk_ok fs" "dir_path fs loc"
  obtains fs' where "remove_meta fs loc = (None, fs')" "disk_ok fs'" "dir_path fs' loc"
    "\<And>q. \<not> prefix (loc @ [zone_inventory_meta_file_name]) q \<Longrightarrow> node_at fs' q = node_at fs q"
    "node_at fs' (loc @ [zone_inventory_meta_file_name]) = Some Dir \<Longrightarrow>
       node_at fs (loc @ [zone_inventory_meta_file_name]) = Some Dir"
proof -
  let ?p = "loc @ [zone_inventory_meta_file_name]"
  have "remove_meta fs loc = (None, fs) \<or> remove_meta fs loc = (None, del_tree ?p fs)"
    using assms(1)
    by (simp add: remove_meta_def os_remove_def disk_ok_def no_faultsD split: option.split node.split)
  then show thesis
  proof
    assume r: "remove_meta fs loc = (None, del_tree ?p fs)"
    have "dir_path (del_tree ?p fs) loc"
      using dir_path_below [of loc zone_inventory_meta_file_name "del_tree ?p fs" fs] assms(2) by simp
    then show thesis using that [OF r] assms(1) by (simp add: disk_ok_def)
  qed (use that assms in blast)
qed

lemma views_tree_other:
  "(\<And>v. v \<in> set vs \<Longrightarrow> \<not> prefix (loc @ [view_name v]) q) \<Longrightarrow> views_tree loc vs before q = before q"
proof -
  assume "\<And>v. v \<in> set vs \<Longrightarrow> \<not> prefix (loc @ [view_name v]) q"
  then have "find (\<lambda>v. prefix (loc @ [view_name v]) q) vs = None" by (auto simp: find_None_iff)
  then show ?thesis by (simp add: views_tree_def)
qed

lemma views_tree_child: "n \<notin> view_name ` set vs \<Longrightarrow> views_tree loc vs before (loc @ [n]) = before (loc @ [n])"
  by (rule views_tree_other) auto

lemma views_tree_view:
  assumes "distinct (map view_name vs)" "v \<in> set vs" "prefix (loc @ [view_name v]) q"
  shows "views_tree loc vs before q = view_tree loc v q"
proof -
  have "find (\<lambda>w. prefix (loc @ [view_name w]) q) vs = Some v"
    using assms by (induction vs) (auto simp: prefix_def intro: rev_image_eqI)
  then show ?thesis by (simp add: views_tree_def)
qed

lemma views_tree_dir_path:
  assumes "dir_path fs loc" "\<And>q. node_at fs' q = views_tree loc vs (node_at fs) q"
  shows "dir_path fs' loc"
  unfolding dir_path_def
proof (intro allI impI)
  fix k assume "k \<le> length loc"
  have "views_tree loc vs (node_at fs) (take k loc) = node_at fs (take k loc)"
    by (rule views_tree_other) (auto dest!: prefix_length_le)
  then show "node_at fs' (take k loc) = Some Dir"
    using assms \<open>k \<le> length loc\<close> by (simp add: dir_path_def)
qed

lemma save_meta_ok:
  assumes "disk_ok fs" "dir_path fs loc" "node_at fs (loc @ [zone_inventory_meta_file_name]) \<noteq> Some Dir"
  obtains fs' where "save_meta fs loc now = (None, fs')" "disk_ok fs'" "dir_path fs' loc"
    "\<And>q. node_at fs' q = (if q = loc @ [zone_inventory_meta_file_name]
       then Some (File (json_of_meta now)) else node_at fs q)"
proof
  let ?m = "loc @ [zone_inventory_meta_file_name]"
  let ?fs = "put_node ?m (File (json_of_meta now)) (put_node ?m (File blank) fs)"
  show "save_meta fs loc now = (None, ?fs)"
    using write_file_ok [OF assms(1) dir_path_node [OF assms(2)] assms(3)] by (simp add: save_meta_def Let_def)
  show "disk_ok ?fs" using assms(1) by (simp add: disk_ok_def)
  have "node_at ?fs q = node_at fs q" if "\<not> prefix ?m q" for q using that by auto
  then show "dir_path ?fs loc"
    using dir_path_below [of loc zone_inventory_meta_file_name ?fs fs] assms(2) by simp
qed simp

lemma disk_save_ok:
  assumes "disk_ready fs loc vs" "storable vs"
  obtains fs' where "disk_save_views now fs loc (Some vs) = Done (None, fs')" "holds_views fs' loc vs"
    "node_at fs' (loc @ [zone_inventory_meta_file_name]) = Some (File (json_of_meta now))"
proof -
  let ?m = "loc @ [zone_inventory_meta_file_name]"
  have ok: "disk_ok fs" "dir_path fs loc"
    and only: "\<And>n. node_at fs (loc @ [n]) = Some Dir \<Longrightarrow> n \<in> view_name ` set vs"
    using assms(1) by (auto simp: disk_ready_def)
  have nometa: "zone_inventory_meta_file_name \<notin> view_name ` set vs" and dist: "distinct (map view_name vs)"
    using assms(2) by (auto simp: storable_def storable_view_def)
  from remove_meta_ok [OF ok] obtain fs1 where fs1: "remove_meta fs loc = (None, fs1)" "disk_ok fs1" "dir_path fs1 loc"
    "\<And>q. \<not> prefix ?m q \<Longrightarrow> node_at fs1 q = node_at fs q"
    "node_at fs1 ?m = Some Dir \<Longrightarrow> node_at fs ?m = Some Dir" by blast
  from recreate_views_ok [OF fs1(2,3) assms(2)] obtain fs2 where
    fs2: "recreate_views fs1 loc vs = (None, fs2)" "disk_ok fs2"
    "\<And>q. node_at fs2 q = views_tree loc vs (node_at fs1) q" by blast
  have "node_at fs2 ?m \<noteq> Some Dir"
    using fs1(5) only nometa fs2(3) views_tree_child [OF nometa, of loc "node_at fs1"] by auto
  from save_meta_ok [OF fs2(2) views_tree_dir_path [OF fs1(3) fs2(3)] this] obtain fs3 where
    fs3: "save_meta fs2 loc now = (None, fs3)" "disk_ok fs3" "dir_path fs3 loc"
    "\<And>q. node_at fs3 q = (if q = ?m then Some (File (json_of_meta now)) else node_at fs2 q)" by blast
  have "holds_view fs3 loc v" if v: "v \<in> set vs" for v
    unfolding holds_view_def
  proof (intro allI impI)
    fix q assume q: "prefix (loc @ [view_name v]) q"
    have "q \<noteq> ?m" using q v nometa by (auto intro: rev_image_eqI)
    then show "node_at fs3 q = view_tree loc v q"
      using views_tree_view [OF dist v q] by (simp add: fs2(3) fs3(4))
  qed
  moreover have "n \<in> view_name ` set vs" if n: "node_at fs3 (loc @ [n]) = Some Dir" for n
  proof (rule ccontr)
    assume new: "n \<notin> view_name ` set vs"
    have ne: "n \<noteq> zone_inventory_meta_file_name" using n unfolding fs3(4) by auto
    with n have "node_at fs1 (loc @ [n]) = Some Dir"
      using views_tree_child [OF new, of loc "node_at fs1"] unfolding fs3(4) by (simp add: fs2(3))
    then show False using fs1(4) [of "loc @ [n]"] ne only new by simp
  qed
  ultimately have "holds_views fs3 loc vs" using fs3(2,3) by (simp add: holds_views_def)
  moreover have "disk_save_views now fs loc (Some vs) = Done (None, fs3)"
    using fs1(1) fs2(1) fs3(1) by (simp add: disk_save_views_def)
  ultimately show thesis using that fs3(4) by simp
qed

text \<open>The lookup in memory and the reference, and the two iterators, for views on a disk.\<close>

lemma get_zone_find:
  assumes "dns_sorted split (map zone_name zs)" "canonical_for split (map zone_name zs) name"
  shows "get_zone split zs name = find (\<lambda>z. zone_name z = name) zs"
proof (rule option.expand [OF _ ])
  note iff = get_zone_iff [OF assms]
  have f: "find (\<lambda>z. zone_name z = name) zs = Some z \<Longrightarrow> z \<in> set zs \<and> zone_name z = name" for z
    by (auto simp: find_Some_iff)
  show "(get_zone split zs name = None) = (find (\<lambda>z. zone_name z = name) zs = None)"
    using iff by (metis (mono_tags, lifting) f find_None_iff not_Some_eq)
  show "the (get_zone split zs name) = the (find (\<lambda>z. zone_name z = name) zs)"
    if "get_zone split zs name \<noteq> None" "find (\<lambda>z. zone_name z = name) zs \<noteq> None"
    using that iff f by (metis option.exhaust_sel)
qed

lemma get_view_Some:
  assumes "get_view vs name = Some v"
  shows "v \<in> set vs" and "view_name v = name"
  using assms by (auto simp: get_view_def find_Some_iff)

lemma memory_lookup_eq:
  assumes "inventory_views split vs"
    and "\<forall>v \<in> set vs. canonical_for split (map zone_name (view_zones v)) zname"
  shows "memory_get_zone_in_view split (Some vs) vname zname = Inr (view_lookup vs vname zname)"
  using assms get_zone_find get_view_Some
  by (auto simp: memory_get_zone_in_view_def view_lookup_def inventory_views_def split: option.split)

lemma memory_stream_eq:
  "map (observe split fs filt) (memory_views_iterator (Some vs) filt) = view_stream split vs filt"
  by (simp add: memory_views_iterator_def observe_def view_stream_def)

lemma disk_stream_eq:
  assumes "holds_views fs loc vs" "inventory_views split vs"
  shows "map (observe split fs filt) (disk_views_iterator fs loc filt) = view_stream split vs filt"
proof -
  have vs: "sort_views vs = vs" "distinct (map view_name vs)" "\<And>v. v \<in> set vs \<Longrightarrow> storable_view v"
    "\<And>v. v \<in> set vs \<Longrightarrow> dns_sorted split (map zone_name (view_zones v))"
    using assms(2) by (auto simp: inventory_views_def storable_def)
  from read_location [OF assms(1) vs(1,2)] obtain es where
    es: "os_read_dir fs loc = Inr es" "filter snd es = map view_entry vs" by blast
  have "observe split fs filt (Inr (OnDisk (new_view_io loc (view_name v)))) =
      Inr (view_name v, Inr (view_zone_count v), map Inr (get_zone_iterator split v filt))" if "v \<in> set vs" for v
  proof -
    have "disk_ok fs" "holds_view fs loc v" using assms(1) that by (auto simp: holds_views_def)
    from view_io_iterator_eq [OF this vs(3,4)] view_io_count_eq [OF this vs(3)] that
    show ?thesis by (simp add: observe_def) (simp add: new_view_io_def)
  qed
  then show ?thesis
    by (simp add: disk_views_iterator_def es(1) disk_view_entries_filter es(2) filter_map comp_def
        view_entry_def view_stream_def)
qed

lemma disk_lookup_eq:
  assumes "holds_views fs loc vs" "inventory_views split vs" "vname \<in> view_name ` set vs" "simple_name zname"
  shows "disk_get_zone_in_view fs loc vname zname = Inr (view_lookup vs vname zname)"
proof -
  from assms(3) obtain v where "get_view vs vname = Some v"
    unfolding get_view_def by (metis (mono_tags, lifting) find_None_iff image_iff not_Some_eq)
  moreover from get_view_Some [OF this] assms have
    "load_zone fs (new_view_io loc vname) zname = Inr (find (\<lambda>z. zone_name z = zname) (view_zones v))"
    using load_zone_eq [of fs loc v zname]
    by (auto simp: holds_views_def inventory_views_def storable_def)
  ultimately show ?thesis by (simp add: disk_get_zone_in_view_def view_lookup_def)
qed

interpretation memory_store: zone_store split memory_ready store_save "store_stream split" "store_lookup split"
  for split
proof
  fix s vs now
  assume "memory_ready s vs"
  then obtain fs old where s: "s = (fs, Memory old)" by (metis memory_ready.elims(2) surj_pair)
  show "\<exists>s'. store_save now s vs = Done (None, s')" by (simp add: s store_save_def)
  fix s' filt assume "store_save now s vs = Done (None, s')"
  then have s': "s' = (fs, Memory (Some vs))" by (simp add: s store_save_def)
  show "store_stream split s' filt = view_stream split vs filt"
    by (simp add: s' store_stream_def memory_stream_eq)
  fix vname zname assume "inventory_views split vs"
    "\<forall>v \<in> set vs. canonical_for split (map zone_name (view_zones v)) zname"
  then show "store_lookup split s' vname zname = Inr (view_lookup vs vname zname)"
    by (simp add: s' store_lookup_def memory_lookup_eq)
qed

interpretation disk_store: zone_store split disk_storage_ready store_save "store_stream split" "store_lookup split"
  for split
proof
  fix s vs now
  assume ready: "disk_storage_ready s vs" and vs: "inventory_views split vs"
  from ready obtain fs loc where s: "s = (fs, Disk loc)" "disk_ready fs loc vs"
    by (metis disk_storage_ready.elims(2))
  from disk_save_ok [OF s(2)] vs obtain fs' where
    fs': "disk_save_views now fs loc (Some vs) = Done (None, fs')" "holds_views fs' loc vs"
    by (metis inventory_views_def)
  show "\<exists>s'. store_save now s vs = Done (None, s')" by (simp add: s store_save_def fs')
  fix s' filt assume "store_save now s vs = Done (None, s')"
  then have s': "s' = (fs', Disk loc)" by (simp add: s store_save_def fs')
  show "store_stream split s' filt = view_stream split vs filt"
    by (simp add: s' store_stream_def disk_stream_eq [OF fs'(2) vs])
  fix vname zname assume "vname \<in> view_name ` set vs" "simple_name zname"
  then show "store_lookup split s' vname zname = Inr (view_lookup vs vname zname)"
    by (simp add: s' store_lookup_def disk_lookup_eq [OF fs'(2) vs])
qed

interpretation memory_disk_store: zone_store split memory_disk_ready store_save "store_stream split" "store_lookup split"
  for split
proof
  fix s vs now
  assume ready: "memory_disk_ready s vs" and vs: "inventory_views split vs"
  from ready obtain fs loc old where s: "s = (fs, MemoryDisk loc old)" "disk_ready fs loc vs"
    by (metis memory_disk_ready.elims(2))
  from disk_save_ok [OF s(2)] vs obtain fs' where
    fs': "disk_save_views now fs loc (Some vs) = Done (None, fs')"
    by (metis inventory_views_def)
  show "\<exists>s'. store_save now s vs = Done (None, s')" by (simp add: s store_save_def fs')
  fix s' filt assume "store_save now s vs = Done (None, s')"
  then have s': "s' = (fs', MemoryDisk loc (Some vs))" by (simp add: s store_save_def fs')
  show "store_stream split s' filt = view_stream split vs filt"
    by (simp add: s' store_stream_def memory_stream_eq)
  fix vname zname assume "\<forall>v \<in> set vs. canonical_for split (map zone_name (view_zones v)) zname"
  then show "store_lookup split s' vname zname = Inr (view_lookup vs vname zname)"
    by (simp add: s' store_lookup_def memory_lookup_eq [OF vs])
qed

section \<open>Loading\<close>

lemma load_views_from_filter:
  "load_views_from split fs loc es =
     load_views_from split fs loc (filter snd es)"
  by (induction es) (auto split: sum.splits)

lemma disk_load_eq:
  assumes "disk_ok fs" "node_at fs (loc @ [zone_inventory_meta_file_name]) = Some (File (json_of_meta t))"
  shows "disk_load_views fs loc = Done (Inr t)"
  using assms
  by (simp add: disk_load_views_def read_meta_def os_read_file_def disk_ok_def no_faultsD json_of_meta_def)

lemma memory_disk_load_eq:
  assumes "holds_views fs loc vs" "inventory_views split vs"
    and "node_at fs (loc @ [zone_inventory_meta_file_name]) = Some (File (json_of_meta t))"
  shows "memory_disk_load_views split fs loc = Done (Inr (t, vs))"
proof -
  have vs: "sort_views vs = vs" "distinct (map view_name vs)" "\<And>v. v \<in> set vs \<Longrightarrow> storable_view v"
    "\<And>v. v \<in> set vs \<Longrightarrow> dns_sorted split (map zone_name (view_zones v))"
    using assms(2) by (auto simp: inventory_views_def storable_def)
  have ok: "disk_ok fs" "\<And>v. v \<in> set vs \<Longrightarrow> holds_view fs loc v"
    using assms(1) by (auto simp: holds_views_def)
  note meta = disk_load_eq [OF ok(1) assms(3)]
  from read_location [OF assms(1) vs(1,2)] obtain es where
    es: "os_read_dir fs loc = Inr es" "filter snd es = map view_entry vs" by blast
  have "load_views_from split fs loc (map view_entry ws) = Inr ws" if "set ws \<subseteq> set vs" for ws
    using that load_view_eq [OF ok(1) ok(2) vs(3) vs(4)]
    by (induction ws) (auto simp: view_entry_def)
  then have "load_views_from split fs loc es = Inr vs"
    using load_views_from_filter [of split fs loc es] es(2) by simp
  then show ?thesis using meta es(1) vs(1) by (simp add: memory_disk_load_views_def new_views_def)
qed

section \<open>A zone whose name is not a file name\<close>

lemma path_join_slash:
  assumes "simple_name a" "simple_name b"
  shows "path_join p (a @ ''/'' @ b) = p @ [a, b]"
proof -
  have "strings_split (CHR ''/'') (strings_join ''/'' [a, b]) = [a, b]"
    using assms by (intro strings_split_join) (auto simp: simple_name_def)
  with assms show ?thesis by (simp add: path_join_def path_step_def simple_name_def)
qed

text \<open>The view is left empty, and only \<open>recreateView\<close> knows about the failure.\<close>

lemma recreate_view_slash:
  assumes "disk_ok fs" "dir_path fs loc" "simple_name (view_name v)"
    and "view_zones v = z # zs" "zone_name z = a @ ''/'' @ b" "simple_name a" "simple_name b"
  shows "\<exists>e fs'. recreate_view fs (new_view_io loc (view_name v)) v = (Some e, fs') \<and>
    recreate_view fs (new_view_io loc (view_name v)) (v\<lparr>view_zones := []\<rparr>) = (None, fs')"
proof -
  let ?p = "loc @ [view_name v]"
  let ?vio = "\<lparr>vio_view_name = view_name v, vio_location = ?p\<rparr>"
  let ?fs1 = "del_tree ?p fs"
  let ?fs2 = "put_node ?p Dir ?fs1"
  have dir1: "dir_path ?fs1 loc"
    using dir_path_below [of loc "view_name v" ?fs1 fs] assms(2) by simp
  have none: "node_at ?fs1 ?p = None" by simp
  have ok: "fs_fault ?fs1 op q = None" "fs_fault ?fs2 op q = None" "fs_fault fs op q = None" for op q
    using assms(1) by (simp_all add: disk_ok_def no_faultsD)
  have rm: "remove_view fs ?vio = (None, ?fs1)" by (simp add: remove_view_def os_remove_all_def ok)
  have st: "os_stat ?fs1 ?p = Inl ErrNotExist"
    unfolding os_stat_def ok none using missing_error_dir [OF dir1 none] by simp
  have mk: "os_mkdir ?fs1 ?p = Inr ?fs2"
    unfolding os_mkdir_def ok none using dir_path_node [OF dir1] by simp
  have "node_at ?fs2 (?p @ [a, b]) = None" "node_at ?fs2 (?p @ [a]) = None" by simp_all
  then have "\<exists>e. os_open_trunc blank ?fs2 (?p @ [a, b]) = Inl e"
    by (simp add: os_open_trunc_def ok butlast_append)
  then obtain e where "create_zone ?fs2 ?vio z = (Some e, ?fs2)"
    using path_join_slash [OF assms(6,7), of ?p] assms(5) by (auto simp: create_zone_def Let_def)
  then have "create_zones ?fs2 ?vio (view_zones v) = (Some e, ?fs2)" by (simp add: assms(4))
  then show ?thesis
    using rm st mk assms(3) by (simp add: recreate_view_def create_view_def new_view_io_simple)
qed

section \<open>Properties\<close>

text \<open>
  C4: The disk storage refines the memory storage.  Once the same views are saved in both, the
  iterators over views and zones give the same names, counts, zones and errors for every
  filter, and the lookups of a zone give the same answer.
\<close>

theorem disk_storage_refines_memory:
  assumes "disk_ready fs loc vs" "inventory_views split vs"
  shows "\<exists>fs'. storage_save_views now fs (Disk loc) (Some vs) = Done (None, fs', Disk loc) \<and>
    storage_save_views now fs (Memory old) (Some vs) = Done (None, fs, Memory (Some vs)) \<and>
    (\<forall>filt. map (observe split fs' filt) (get_views_iterator fs' (Disk loc) filt) =
            map (observe split fs filt) (get_views_iterator fs (Memory (Some vs)) filt)) \<and>
    (\<forall>v \<in> set vs. \<forall>z \<in> set (view_zones v). (\<forall>w \<in> set vs. canonical_for split (map zone_name (view_zones w)) (zone_name z)) \<longrightarrow>
       storage_get_zone_in_view split fs' (Disk loc) (view_name v) (zone_name z) = Inr (Some z) \<and>
       storage_get_zone_in_view split fs (Memory (Some vs)) (view_name v) (zone_name z) = Inr (Some z))"
proof -
  have d: "disk_storage_ready (fs, Disk loc) vs" and m: "memory_ready (fs, Memory old) vs"
    using assms(1) by simp_all
  have ms: "store_save now (fs, Memory old) vs = Done (None, fs, Memory (Some vs))"
    by (simp add: store_save_def)
  from disk_store.save_returns [OF d assms(2), of now] obtain fs' where
    ds: "store_save now (fs, Disk loc) vs = Done (None, fs', Disk loc)"
    by (auto simp: store_save_def split: prod.splits)
  show ?thesis
    using ds ms disk_store.save_stream [OF d assms(2) ds] memory_store.save_stream [OF m assms(2) ms]
      disk_store.saved_zone_found [OF d assms(2) ds] memory_store.saved_zone_found [OF m assms(2) ms]
    by (intro exI [of _ fs']) (simp add: store_save_def store_stream_def store_lookup_def)
qed

text \<open>
  What is saved is loaded: an agent that restarts over the directory another one saved in
  has the same views in memory, and the time of that save.
\<close>

theorem save_load_roundtrip:
  assumes "disk_ready fs loc vs" "inventory_views split vs"
  shows "\<exists>fs'. storage_save_views now fs (MemoryDisk loc old) (Some vs) = Done (None, fs', MemoryDisk loc (Some vs)) \<and>
    storage_load_views split fs' (MemoryDisk loc None) = Done (Inr now, MemoryDisk loc (Some vs)) \<and>
    storage_load_views split fs' (Disk loc) = Done (Inr now, Disk loc)"
proof -
  have "storable vs" using assms(2) by (simp add: inventory_views_def)
  from disk_save_ok [OF assms(1) this] obtain fs' where
    s: "disk_save_views now fs loc (Some vs) = Done (None, fs')" "holds_views fs' loc vs"
    "node_at fs' (loc @ [zone_inventory_meta_file_name]) = Some (File (json_of_meta now))" by metis
  have load: "memory_disk_load_views split fs' loc = Done (Inr (now, vs))"
    by (rule memory_disk_load_eq [OF s(2) assms(2) s(3)])
  have "disk_ok fs'" using s(2) by (simp add: holds_views_def)
  from s(1) load disk_load_eq [OF this s(3)] show ?thesis by simp
qed

text \<open>
  \<open>saveViews\<close> on disk loses errors.  A view whose first zone has a slash in its name
  (RFC 2317) cannot be written: \<open>recreateView\<close> fails, no zone of the view is on disk
  afterwards, and \<open>saveViews\<close> still reports success.
\<close>

theorem disk_save_loses_errors:
  assumes "disk_ready fs loc [v]" "simple_name (view_name v)" "view_name v \<noteq> zone_inventory_meta_file_name"
    and "view_zones v = z # zs" "zone_name z = a @ ''/'' @ b" "simple_name a" "simple_name b"
  shows "(\<exists>e. fst (recreate_view fs (new_view_io loc (view_name v)) v) = Some e) \<and>
    (\<exists>fs'. storage_save_views now fs (Disk loc) (Some [v]) = Done (None, fs', Disk loc) \<and>
       map (observe split fs' None) (get_views_iterator fs' (Disk loc) None) = [Inr (view_name v, Inr 0, [])])"
proof
  let ?v = "v\<lparr>view_zones := []\<rparr>"
  have ok: "disk_ok fs" "dir_path fs loc" using assms(1) by (auto simp: disk_ready_def)
  from recreate_view_slash [OF ok assms(2,4-7)]
  show "\<exists>e. fst (recreate_view fs (new_view_io loc (view_name v)) v) = Some e" by auto
  have vs: "inventory_views split [?v]"
    using assms(2,3) by (simp add: inventory_views_def storable_def storable_view_def sort_views_def
        slices_sort_def dns_sorted_def)
  have ready: "disk_ready fs loc [?v]" using assms(1) by (simp add: disk_ready_def)
  have same: "disk_save_views now fs loc (Some [v]) = disk_save_views now fs loc (Some [?v])"
  proof -
    from remove_meta_ok [OF ok] obtain fs1 where
      fs1: "remove_meta fs loc = (None, fs1)" "disk_ok fs1" "dir_path fs1 loc" by metis
    from recreate_view_slash [OF fs1(2,3) assms(2,4-7)] fs1(1) show ?thesis
      by (auto simp: disk_save_views_def)
  qed
  have "storable [?v]" using vs by (simp add: inventory_views_def)
  from disk_save_ok [OF ready this] obtain fs' where
    s: "disk_save_views now fs loc (Some [?v]) = Done (None, fs')" "holds_views fs' loc [?v]" by metis
  have "map (observe split fs' None) (disk_views_iterator fs' loc None) = [Inr (view_name v, Inr 0, [])]"
    unfolding disk_stream_eq [OF s(2) vs]
    by (simp add: view_stream_def view_matches_def view_zone_count_def get_zone_iterator_def
        apply_zone_lower_bound_filter_def)
  with s(1) same show "\<exists>fs'. storage_save_views now fs (Disk loc) (Some [v]) = Done (None, fs', Disk loc) \<and>
       map (observe split fs' None) (get_views_iterator fs' (Disk loc) None) = [Inr (view_name v, Inr 0, [])]"
    by simp
qed

definition wit_fs :: "content fs" where
  "wit_fs = \<lparr>fs_nodes = [([''var''], Dir), ([''var'', ''_default''], Dir), ([''var'', ''_default'', ''old''], File blank)],
     fs_fault = (\<lambda>_ _. None)\<rparr>"

lemma wit_disk_ready: "disk_ready wit_fs [''var''] [v\<lparr>view_name := ''_default''\<rparr>]"
  by (auto simp: disk_ready_def disk_ok_def fs_ok_def no_faults_def wit_fs_def dir_path_def node_at_def
      le_Suc_eq split: if_splits)

lemma wit_inventory_views: "inventory_views wit_split [wit_view]"
  unfolding inventory_views_def storable_def storable_view_def by code_simp

lemma wit_view_ready: "disk_ready wit_fs [''var''] [wit_view]"
  using wit_disk_ready [of wit_view] by (simp add: wit_view_def)

theorem disk_storage_refines_memory_witness:
  "\<exists>fs'. storage_save_views 5 wit_fs (Disk [''var'']) (Some [wit_view]) = Done (None, fs', Disk [''var'']) \<and>
     map (observe wit_split fs' (Some wit_filter)) (get_views_iterator fs' (Disk [''var'']) (Some wit_filter)) =
       [Inr (''_default'', Inr 4, [Inr (wit_zone ''a.com'' 7), Inr (wit_zone ''b.com'' 9)])]"
proof -
  have "map (observe wit_split wit_fs (Some wit_filter)) (get_views_iterator wit_fs (Memory (Some [wit_view])) (Some wit_filter)) =
      [Inr (''_default'', Inr 4, [Inr (wit_zone ''a.com'' 7), Inr (wit_zone ''b.com'' 9)])]"
    by code_simp
  with disk_storage_refines_memory [OF wit_view_ready wit_inventory_views, of 5 None] show ?thesis by metis
qed

theorem save_load_roundtrip_witness:
  "\<exists>fs'. storage_save_views 5 wit_fs (MemoryDisk [''var''] None) (Some [wit_view]) =
       Done (None, fs', MemoryDisk [''var''] (Some [wit_view])) \<and>
     storage_load_views wit_split fs' (MemoryDisk [''var''] None) = Done (Inr 5, MemoryDisk [''var''] (Some [wit_view]))"
  using save_load_roundtrip [OF wit_view_ready wit_inventory_views, of 5 None] by blast

definition wit_slash_view :: view where
  "wit_slash_view = \<lparr>view_name = ''_default'', view_zones = [wit_zone ''0/25.2.0.192.in-addr.arpa'' 1]\<rparr>"

theorem disk_save_loses_errors_witness:
  "\<exists>fs'. storage_save_views 5 wit_fs (Disk [''var'']) (Some [wit_slash_view]) = Done (None, fs', Disk [''var'']) \<and>
     map (observe wit_split fs' None) (get_views_iterator fs' (Disk [''var'']) None) = [Inr (''_default'', Inr 0, [])]"
proof -
  have "disk_ready wit_fs [''var''] [wit_slash_view]"
    using wit_disk_ready [of wit_slash_view] by (simp add: wit_slash_view_def)
  from disk_save_loses_errors [OF this, of "wit_zone ''0/25.2.0.192.in-addr.arpa'' 1" "[]" "''0''" "''25.2.0.192.in-addr.arpa''" 5 wit_split]
  show ?thesis
    by (simp add: wit_slash_view_def simple_name_def zone_inventory_meta_file_name_def wit_zone_def)
qed

end
