(* ===== verification/Zone_Inventory.thy ===== *)
theory Zone_Inventory
  imports Storage_Refinement
begin

text \<open>
  The zone inventory of the agent: the state machine of \<open>agent/zoneinventory.go\<close> with its
  background tasks.  A call and each step of a goroutine between two points where another
  goroutine can observe the inventory is one step of the relation \<open>inventory_step\<close>.
\<close>

datatype state_name =
    Initial | Loading | Loaded | LoadingErred | Populating | Populated | PopulatingErred
  | ReceivingZones | ReceivedZones

text \<open>A state keeps the error it was entered with, and the busy error keeps two states.\<close>

datatype inventory_state =
    InvState (st_name: state_name) (st_created_at: time) (st_err: "inventory_error option")
and inventory_error =
    BusyError inventory_state inventory_state
  | NotInitedError
  | StorageError storage_error
  | FetchError string
  | HttpError int string

definition new_zone_inventory_state ::
    "time \<Rightarrow> state_name \<Rightarrow> time \<Rightarrow> inventory_error option \<Rightarrow> inventory_state" where
  "new_zone_inventory_state now name created_at err =
     InvState name (if created_at \<noteq> zero_time then created_at else now) err"

definition is_initial :: "inventory_state \<Rightarrow> bool" where
  "is_initial st \<longleftrightarrow> st_name st = Initial"

definition is_long_lasting :: "inventory_state \<Rightarrow> bool" where
  "is_long_lasting st =
     (case st_name st of Loading \<Rightarrow> True | Populating \<Rightarrow> True | ReceivingZones \<Rightarrow> True | _ \<Rightarrow> False)"

definition is_ready :: "inventory_state \<Rightarrow> bool" where
  "is_ready st =
     (case st_name st of Loaded \<Rightarrow> True | Populated \<Rightarrow> True | ReceivedZones \<Rightarrow> True | _ \<Rightarrow> False)"

definition is_erred :: "inventory_state \<Rightarrow> bool" where
  "is_erred st = (case st_name st of LoadingErred \<Rightarrow> True | PopulatingErred \<Rightarrow> True | _ \<Rightarrow> False)"

record inventory =
  inv_storage :: storage
  inv_state :: state_name
  inv_visited :: "state_name \<Rightarrow> inventory_state option"

definition new_zone_inventory :: "time \<Rightarrow> storage \<Rightarrow> inventory" where
  "new_zone_inventory now st =
     (let s = new_zone_inventory_state now Initial zero_time None in
      \<lparr>inv_storage = st, inv_state = st_name s, inv_visited = [st_name s \<mapsto> s]\<rparr>)"

definition get_visited_state :: "inventory \<Rightarrow> state_name \<Rightarrow> inventory_state option" where
  "get_visited_state zi name = inv_visited zi name"

text \<open>The current state is a map entry; a missing one would be a nil pointer.\<close>

definition get_current_state :: "inventory \<Rightarrow> inventory_state run" where
  "get_current_state zi =
     (case inv_visited zi (inv_state zi) of None \<Rightarrow> Panic | Some s \<Rightarrow> Done s)"

definition transition :: "inventory \<Rightarrow> inventory_state \<Rightarrow> (inventory_error option \<times> inventory) run" where
  "transition zi new =
     bind_run (get_current_state zi) (\<lambda>cur.
       if is_long_lasting cur \<and> is_long_lasting new then Done (Some (BusyError cur new), zi)
       else Done (None, zi\<lparr>inv_state := st_name new, inv_visited := (inv_visited zi)(st_name new \<mapsto> new)\<rparr>))"

section \<open>The calls\<close>

text \<open>
  The part of a call that runs in the caller.  \<open>populate\<close> and \<open>load\<close> then start a
  goroutine; \<open>receiveZones\<close> counts the zones first.
\<close>

definition populate_call :: "time \<Rightarrow> inventory \<Rightarrow> (inventory_error option \<times> inventory) run" where
  "populate_call now zi = transition zi (new_zone_inventory_state now Populating zero_time None)"

definition load_call :: "time \<Rightarrow> inventory \<Rightarrow> (inventory_error option \<times> inventory) run" where
  "load_call now zi =
     (case inv_storage zi of
        Memory _ \<Rightarrow> Done (Some (StorageError NoDiskStorage), zi)
      | _ \<Rightarrow> transition zi (new_zone_inventory_state now Loading zero_time None))"

fun total_zone_count :: "content fs \<Rightarrow> (storage_error + accessor) list \<Rightarrow> int \<Rightarrow> storage_error + int" where
  "total_zone_count fs [] n = Inr n"
| "total_zone_count fs (Inl e # vs) n = Inl e"
| "total_zone_count fs (Inr v # vs) n =
     (case accessor_zone_count fs v of Inl e \<Rightarrow> Inl e | Inr c \<Rightarrow> total_zone_count fs vs (n + c))"

text \<open>The call returns the error, or the total that the goroutine attaches to every zone.\<close>

definition receive_zones_call ::
    "time \<Rightarrow> content fs \<Rightarrow> zone_filter option \<Rightarrow> inventory \<Rightarrow> ((inventory_error + int) \<times> inventory) run" where
  "receive_zones_call now fs filt zi =
     bind_run (get_current_state zi) (\<lambda>cur.
       if is_initial cur \<or> is_erred cur then Done (Inl NotInitedError, zi)
       else bind_run (transition zi (new_zone_inventory_state now ReceivingZones zero_time None)) (\<lambda>(err, zi').
         case err of
           Some e \<Rightarrow> Done (Inl e, zi')
         | None \<Rightarrow>
             (case total_zone_count fs (get_views_iterator fs (inv_storage zi') filt) 0 of
                Inl e \<Rightarrow> Done (Inl (StorageError e), zi')
              | Inr tot \<Rightarrow> Done (Inr tot, zi'))))"

definition get_zone_in_view_call ::
    "(string \<Rightarrow> string list) \<Rightarrow> content fs \<Rightarrow> inventory \<Rightarrow> string \<Rightarrow> string \<Rightarrow> (inventory_error + zone option) run" where
  "get_zone_in_view_call split fs zi vname zname =
     bind_run (get_current_state zi) (\<lambda>cur.
       if is_initial cur \<or> is_erred cur then Done (Inl NotInitedError)
       else (case storage_get_zone_in_view split fs (inv_storage zi) vname zname of
               Inl e \<Rightarrow> Done (Inl (StorageError e)) | Inr z \<Rightarrow> Done (Inr z)))"

section \<open>The goroutines\<close>

text \<open>What the client of the DNS server returns: the response, the views and the error.\<close>

record http_response =
  hr_is_error :: bool
  hr_status_code :: int
  hr_text :: string

type_synonym fetch_result = "http_response option \<times> view list option \<times> string option"

text \<open>The goroutine of \<open>populate\<close> up to the transition: the error, the disk and the storage.\<close>

definition populate_fetch ::
    "time \<Rightarrow> content fs \<Rightarrow> storage \<Rightarrow> fetch_result \<Rightarrow> (inventory_error option \<times> content fs \<times> storage) run" where
  "populate_fetch now fs st r =
     (case r of (response, views, err) \<Rightarrow>
        case err of
          Some e \<Rightarrow> Done (Some (FetchError e), fs, st)
        | None \<Rightarrow>
            (case response of
               Some h \<Rightarrow>
                 if hr_is_error h then Done (Some (HttpError (hr_status_code h) (hr_text h)), fs, st)
                 else bind_run (storage_save_views now fs st views) (\<lambda>(e, fs', st').
                   Done (map_option StorageError e, fs', st'))
             | None \<Rightarrow>
                 bind_run (storage_save_views now fs st views) (\<lambda>(e, fs', st').
                   Done (map_option StorageError e, fs', st'))))"

text \<open>
  The rest of it.  \<open>err\<close> is assigned again: what is sent to the subscriber is the result of
  the transition.  On success the views are counted for the log, which panics for nil.
\<close>

definition populate_finish ::
    "time \<Rightarrow> inventory \<Rightarrow> inventory_error option \<Rightarrow> view list option \<Rightarrow> (inventory_error option \<times> inventory) run" where
  "populate_finish now zi err views =
     (case err of
        None \<Rightarrow>
          (case views of
             None \<Rightarrow> Panic
           | Some _ \<Rightarrow> transition zi (new_zone_inventory_state now Populated zero_time None))
      | Some e \<Rightarrow> transition zi (new_zone_inventory_state now PopulatingErred zero_time (Some e)))"

definition load_finish ::
    "time \<Rightarrow> inventory \<Rightarrow> storage_error + time \<Rightarrow> (inventory_error option \<times> inventory) run" where
  "load_finish now zi r =
     (case r of
        Inl e \<Rightarrow>
          bind_run (transition zi (new_zone_inventory_state now LoadingErred zero_time (Some (StorageError e))))
            (\<lambda>(_, zi'). Done (Some (StorageError e), zi'))
      | Inr populated_at \<Rightarrow>
          bind_run (transition zi (new_zone_inventory_state now Loaded populated_at None))
            (\<lambda>(_, zi'). Done (None, zi')))"

text \<open>
  What the goroutine of \<open>receiveZones\<close> sends: the error of a view, or a zone or error of the
  iterator over zones, before which it looks whether the context is done.
\<close>

datatype receive_item =
    ViewFailed storage_error
  | ZoneItem "storage_error + extended_zone"

fun receive_items ::
    "(string \<Rightarrow> string list) \<Rightarrow> content fs \<Rightarrow> zone_filter option \<Rightarrow> int \<Rightarrow> (storage_error + accessor) list \<Rightarrow> receive_item list" where
  "receive_items split fs filt tot [] = []"
| "receive_items split fs filt tot (Inl e # vs) = ViewFailed e # receive_items split fs filt tot vs"
| "receive_items split fs filt tot (Inr v # vs) =
     map (\<lambda>r. ZoneItem (map_sum id (\<lambda>z.
            \<lparr>ez_zone = z, ez_view_name = accessor_view_name v, ez_total_zone_count = tot\<rparr>) r))
       (accessor_zone_iterator split fs v filt) @
     receive_items split fs filt tot vs"

definition item_result :: "receive_item \<Rightarrow> storage_error + extended_zone" where
  "item_result i = (case i of ViewFailed e \<Rightarrow> Inl e | ZoneItem r \<Rightarrow> r)"

definition receive_finish :: "time \<Rightarrow> inventory \<Rightarrow> inventory run" where
  "receive_finish now zi =
     bind_run (transition zi (new_zone_inventory_state now ReceivedZones zero_time None)) (\<lambda>(_, zi'). Done zi')"

section \<open>The system\<close>

datatype task =
    Fetching
  | Fetched "inventory_error option" "view list option"
  | Reading
  | Readed "storage_error + time"
  | Counted "zone_filter option" int
  | Sending "receive_item list"

record system =
  sys_fs :: "content fs"
  sys_inv :: inventory
  sys_tasks :: "task list"

text \<open>
  The events: calls with their answers, the visible effects of the goroutines, and a panic of
  one of them, which ends the process.
\<close>

datatype event =
    CallPopulate "inventory_error option"
  | CallLoad "inventory_error option"
  | CallReceive "zone_filter option" "inventory_error option"
  | FetchViews fetch_result
  | NotifyPopulated "inventory_error option"
  | ReadStorage
  | NotifyLoaded "inventory_error option"
  | StartSending
  | Send "storage_error + extended_zone"
  | ContextDone
  | CloseChannel
  | Crash

inductive inventory_step :: "(string \<Rightarrow> string list) \<Rightarrow> system \<Rightarrow> event \<Rightarrow> system option \<Rightarrow> bool"
  for split where
  call_populate: "populate_call now (sys_inv s) = Done (err, zi') \<Longrightarrow>
    inventory_step split s (CallPopulate err)
      (Some (s\<lparr>sys_inv := zi', sys_tasks := (if err = None then sys_tasks s @ [Fetching] else sys_tasks s)\<rparr>))"
| call_load: "load_call now (sys_inv s) = Done (err, zi') \<Longrightarrow>
    inventory_step split s (CallLoad err)
      (Some (s\<lparr>sys_inv := zi', sys_tasks := (if err = None then sys_tasks s @ [Reading] else sys_tasks s)\<rparr>))"
| call_receive_ok: "receive_zones_call now (sys_fs s) filt (sys_inv s) = Done (Inr tot, zi') \<Longrightarrow>
    inventory_step split s (CallReceive filt None)
      (Some (s\<lparr>sys_inv := zi', sys_tasks := sys_tasks s @ [Counted filt tot]\<rparr>))"
| call_receive_error: "receive_zones_call now (sys_fs s) filt (sys_inv s) = Done (Inl e, zi') \<Longrightarrow>
    inventory_step split s (CallReceive filt (Some e)) (Some (s\<lparr>sys_inv := zi'\<rparr>))"
| fetch: "sys_tasks s = ts @ Fetching # us \<Longrightarrow>
    populate_fetch now (sys_fs s) (inv_storage (sys_inv s)) r = Done (err, fs', st') \<Longrightarrow>
    inventory_step split s (FetchViews r)
      (Some (s\<lparr>sys_fs := fs', sys_inv := (sys_inv s)\<lparr>inv_storage := st'\<rparr>,
               sys_tasks := ts @ Fetched err (fst (snd r)) # us\<rparr>))"
| fetch_crash: "sys_tasks s = ts @ Fetching # us \<Longrightarrow>
    populate_fetch now (sys_fs s) (inv_storage (sys_inv s)) r = Panic \<Longrightarrow> inventory_step split s Crash None"
| fetched: "sys_tasks s = ts @ Fetched err views # us \<Longrightarrow>
    populate_finish now (sys_inv s) err views = Done (notified, zi') \<Longrightarrow>
    inventory_step split s (NotifyPopulated notified) (Some (s\<lparr>sys_inv := zi', sys_tasks := ts @ us\<rparr>))"
| fetched_crash: "sys_tasks s = ts @ Fetched err views # us \<Longrightarrow>
    populate_finish now (sys_inv s) err views = Panic \<Longrightarrow> inventory_step split s Crash None"
| read: "sys_tasks s = ts @ Reading # us \<Longrightarrow>
    storage_load_views split (sys_fs s) (inv_storage (sys_inv s)) = Done (r, st') \<Longrightarrow>
    inventory_step split s ReadStorage
      (Some (s\<lparr>sys_inv := (sys_inv s)\<lparr>inv_storage := st'\<rparr>, sys_tasks := ts @ Readed r # us\<rparr>))"
| read_crash: "sys_tasks s = ts @ Reading # us \<Longrightarrow>
    storage_load_views split (sys_fs s) (inv_storage (sys_inv s)) = Panic \<Longrightarrow> inventory_step split s Crash None"
| readed: "sys_tasks s = ts @ Readed r # us \<Longrightarrow>
    load_finish now (sys_inv s) r = Done (notified, zi') \<Longrightarrow>
    inventory_step split s (NotifyLoaded notified) (Some (s\<lparr>sys_inv := zi', sys_tasks := ts @ us\<rparr>))"
| start_sending: "sys_tasks s = ts @ Counted filt tot # us \<Longrightarrow>
    inventory_step split s StartSending
      (Some (s\<lparr>sys_tasks := ts @ Sending (receive_items split (sys_fs s) filt tot
         (get_views_iterator (sys_fs s) (inv_storage (sys_inv s)) filt)) # us\<rparr>))"
| send: "sys_tasks s = ts @ Sending (i # rest) # us \<Longrightarrow>
    inventory_step split s (Send (item_result i)) (Some (s\<lparr>sys_tasks := ts @ Sending rest # us\<rparr>))"
| context_done: "sys_tasks s = ts @ Sending (ZoneItem r # rest) # us \<Longrightarrow>
    inventory_step split s ContextDone (Some (s\<lparr>sys_tasks := ts @ Sending [] # us\<rparr>))"
| close_channel: "sys_tasks s = ts @ Sending [] # us \<Longrightarrow> receive_finish now (sys_inv s) = Done zi' \<Longrightarrow>
    inventory_step split s CloseChannel (Some (s\<lparr>sys_inv := zi', sys_tasks := ts @ us\<rparr>))"

inductive inventory_reach :: "(string \<Rightarrow> string list) \<Rightarrow> system \<Rightarrow> event list \<Rightarrow> system \<Rightarrow> bool"
  for split where
  reach_refl: "inventory_reach split s [] s"
| reach_step: "inventory_reach split s es s' \<Longrightarrow> inventory_step split s' e (Some s'') \<Longrightarrow>
    inventory_reach split s (es @ [e]) s''"

inductive_cases inventory_stepE: "inventory_step split s e r"

definition new_system :: "time \<Rightarrow> content fs \<Rightarrow> storage \<Rightarrow> system" where
  "new_system now fs st = \<lparr>sys_fs = fs, sys_inv = new_zone_inventory now st, sys_tasks = []\<rparr>"

section \<open>The invariant\<close>

text \<open>The state in which a task runs.\<close>

fun task_state :: "task \<Rightarrow> state_name" where
  "task_state Fetching = Populating"
| "task_state (Fetched err views) = Populating"
| "task_state Reading = Loading"
| "task_state (Readed r) = Loading"
| "task_state (Counted filt n) = ReceivingZones"
| "task_state (Sending is) = ReceivingZones"

definition long_lasting_name :: "state_name \<Rightarrow> bool" where
  "long_lasting_name n \<longleftrightarrow> n \<in> {Loading, Populating, ReceivingZones}"

definition visited_ok :: "inventory \<Rightarrow> bool" where
  "visited_ok zi \<longleftrightarrow> inv_visited zi (inv_state zi) \<noteq> None \<and>
     (\<forall>n st. inv_visited zi n = Some st \<longrightarrow> st_name st = n)"

definition system_ok :: "system \<Rightarrow> bool" where
  "system_ok s \<longleftrightarrow> visited_ok (sys_inv s) \<and>
     (sys_tasks s = [] \<or> (\<exists>t. sys_tasks s = [t] \<and> inv_state (sys_inv s) = task_state t))"

lemma st_name_new [simp]: "st_name (new_zone_inventory_state now n c e) = n"
  by (simp add: new_zone_inventory_state_def)

lemma long_lasting_iff: "is_long_lasting st \<longleftrightarrow> long_lasting_name (st_name st)"
  by (cases "st_name st") (simp_all add: is_long_lasting_def long_lasting_name_def)

lemma long_lasting_task [simp]: "long_lasting_name (task_state t)"
  by (cases t) (simp_all add: long_lasting_name_def)

lemma long_lasting_simps [simp]:
  "long_lasting_name Loading" "long_lasting_name Populating" "long_lasting_name ReceivingZones"
  "\<not> long_lasting_name Initial" "\<not> long_lasting_name Loaded" "\<not> long_lasting_name LoadingErred"
  "\<not> long_lasting_name Populated" "\<not> long_lasting_name PopulatingErred" "\<not> long_lasting_name ReceivedZones"
  by (simp_all add: long_lasting_name_def)

lemma current_state:
  assumes "visited_ok zi"
  obtains cur where "get_current_state zi = Done cur" "st_name cur = inv_state zi"
  using assms by (auto simp: visited_ok_def get_current_state_def)

text \<open>Every transition succeeds or is refused with the busy error; none panics.\<close>

lemma transition_cases:
  assumes "visited_ok zi"
  shows "if long_lasting_name (inv_state zi) \<and> is_long_lasting new
    then \<exists>cur. get_current_state zi = Done cur \<and> transition zi new = Done (Some (BusyError cur new), zi)
    else transition zi new =
      Done (None, zi\<lparr>inv_state := st_name new, inv_visited := (inv_visited zi)(st_name new \<mapsto> new)\<rparr>)"
proof -
  from current_state [OF assms] obtain cur where
    "get_current_state zi = Done cur" "st_name cur = inv_state zi" .
  then show ?thesis by (simp add: transition_def long_lasting_iff)
qed

lemma transition_ok [stork_inv]:
  assumes "visited_ok zi" "transition zi new = Done (err, zi')"
  shows "visited_ok zi'" and "inv_storage zi' = inv_storage zi"
    and "err = None \<longleftrightarrow> \<not> (long_lasting_name (inv_state zi) \<and> is_long_lasting new)"
    and "err = None \<Longrightarrow> inv_state zi' = st_name new" and "err \<noteq> None \<Longrightarrow> zi' = zi"
  using transition_cases [OF assms(1), of new] assms
  by (auto simp: visited_ok_def split: if_splits)

lemma transition_total: "visited_ok zi \<Longrightarrow> \<exists>r. transition zi new = Done r"
  using transition_cases [of zi new] by (auto split: if_splits)

lemma visited_ok_storage [simp]: "visited_ok (zi\<lparr>inv_storage := st\<rparr>) = visited_ok zi"
  by (simp add: visited_ok_def)

lemma receive_call_ok:
  assumes "visited_ok zi" "receive_zones_call now fs filt zi = Done (r, zi')"
  shows "visited_ok zi'" and "inv_storage zi' = inv_storage zi"
    and "\<not> long_lasting_name (inv_state zi) \<Longrightarrow> zi' = zi \<or> inv_state zi' = ReceivingZones"
    and "long_lasting_name (inv_state zi) \<Longrightarrow> zi' = zi \<and> (\<exists>e. r = Inl e)"
    and "r = Inr n \<Longrightarrow> inv_state zi' = ReceivingZones \<and>
      total_zone_count fs (get_views_iterator fs (inv_storage zi) filt) 0 = Inr n"
    and "zi' \<noteq> zi \<Longrightarrow> r = (case total_zone_count fs (get_views_iterator fs (inv_storage zi) filt) 0 of
      Inl e \<Rightarrow> Inl (StorageError e) | Inr n \<Rightarrow> Inr n)"
proof -
  from current_state [OF assms(1)] obtain cur where cur: "get_current_state zi = Done cur" "st_name cur = inv_state zi" .
  let ?new = "new_zone_inventory_state now ReceivingZones zero_time None"
  consider (refused) "zi' = zi" "r = Inl NotInitedError"
    | (busy) e where "transition zi ?new = Done (Some e, zi')" "r = Inl e"
    | (begun) "transition zi ?new = Done (None, zi')"
        "r = (case total_zone_count fs (get_views_iterator fs (inv_storage zi') filt) 0 of
                Inl e \<Rightarrow> Inl (StorageError e) | Inr n \<Rightarrow> Inr n)"
  proof -
    obtain err z2 where t: "transition zi ?new = Done (err, z2)"
      using transition_total [OF assms(1)] by (metis surj_pair)
    show thesis
    proof (cases "is_initial cur \<or> is_erred cur")
      case True
      with refused assms(2) cur show thesis by (auto simp: receive_zones_call_def)
    next
      case False
      then have eq: "receive_zones_call now fs filt zi = (case err of Some e \<Rightarrow> Done (Inl e, z2)
          | None \<Rightarrow> (case total_zone_count fs (get_views_iterator fs (inv_storage z2) filt) 0 of
                Inl e \<Rightarrow> Done (Inl (StorageError e), z2) | Inr n \<Rightarrow> Done (Inr n, z2)))"
        by (simp add: receive_zones_call_def cur(1) t)
      show thesis
      proof (cases err)
        case None
        with eq assms(2) begun t show thesis by (auto split: sum.splits)
      qed (use eq assms(2) busy t in simp)
    qed
  qed
  note cases = this
  have new: "is_long_lasting ?new" by (simp add: long_lasting_iff)
  show "visited_ok zi'" "inv_storage zi' = inv_storage zi"
    using assms(1) transition_ok [OF assms(1)] by (cases rule: cases; blast)+
  show "\<not> long_lasting_name (inv_state zi) \<Longrightarrow> zi' = zi \<or> inv_state zi' = ReceivingZones"
    using transition_ok [OF assms(1)] by (cases rule: cases) (blast, blast, simp)
  show "long_lasting_name (inv_state zi) \<Longrightarrow> zi' = zi \<and> (\<exists>e. r = Inl e)"
    using transition_ok [OF assms(1)] new by (cases rule: cases) (blast, blast, blast)
  show "r = Inr n \<Longrightarrow> inv_state zi' = ReceivingZones \<and>
      total_zone_count fs (get_views_iterator fs (inv_storage zi) filt) 0 = Inr n"
    using transition_ok [OF assms(1)] by (cases rule: cases) (auto split: sum.splits)
  show "zi' \<noteq> zi \<Longrightarrow> r = (case total_zone_count fs (get_views_iterator fs (inv_storage zi) filt) 0 of
      Inl e \<Rightarrow> Inl (StorageError e) | Inr n \<Rightarrow> Inr n)"
    using transition_ok(2,5) [OF assms(1)] by (cases rule: cases) (blast, blast, simp)
qed

lemma only_task:
  assumes "system_ok s" "sys_tasks s = ts @ t # us"
  shows "ts = []" and "us = []" and "inv_state (sys_inv s) = task_state t"
  using assms by (auto simp: system_ok_def append_eq_Cons_conv)

lemma busy_no_tasks: "system_ok s \<Longrightarrow> \<not> long_lasting_name (inv_state (sys_inv s)) \<Longrightarrow> sys_tasks s = []"
  using long_lasting_task by (auto simp: system_ok_def)

lemma begin_ok:
  assumes "system_ok s" "transition (sys_inv s) new = Done (err, zi')" "is_long_lasting new" "task_state t = st_name new"
  shows "system_ok (s\<lparr>sys_inv := zi', sys_tasks := (if err = None then sys_tasks s @ [t] else sys_tasks s)\<rparr>)"
proof -
  have v: "visited_ok (sys_inv s)" using assms(1) by (simp add: system_ok_def)
  show ?thesis
  proof (cases err)
    case None
    then have "sys_tasks s = []"
      using transition_ok(3) [OF v assms(2)] assms(3) busy_no_tasks [OF assms(1)] by simp
    with None assms(4) transition_ok(1,4) [OF v assms(2)] show ?thesis by (simp add: system_ok_def)
  next
    case (Some e)
    with assms(1) transition_ok(5) [OF v assms(2)] show ?thesis by simp
  qed
qed

lemma finish_ok:
  assumes "visited_ok zi" "transition zi new = Done (err, zi')" "\<not> is_long_lasting new"
  shows "visited_ok zi' \<and> err = None \<and> inv_state zi' = st_name new \<and> inv_storage zi' = inv_storage zi"
  using transition_ok [OF assms(1,2)] assms(3) by blast

lemma populate_finish_ok:
  assumes "visited_ok zi" "populate_finish now zi err views = Done (notified, zi')"
  shows "visited_ok zi' \<and> notified = None \<and> inv_storage zi' = inv_storage zi \<and>
    inv_state zi' = (if err = None then Populated else PopulatingErred) \<and>
    (\<forall>e. err = Some e \<longrightarrow> (\<exists>st. get_visited_state zi' PopulatingErred = Some st \<and> st_err st = Some e))"
proof (cases err)
  case None
  then have "transition zi (new_zone_inventory_state now Populated zero_time None) = Done (notified, zi')"
    using assms(2) by (auto simp: populate_finish_def split: option.splits)
  from finish_ok [OF assms(1) this] None show ?thesis by (simp add: long_lasting_iff)
next
  case (Some e)
  then have t: "transition zi (new_zone_inventory_state now PopulatingErred zero_time (Some e)) = Done (notified, zi')"
    using assms(2) by (simp add: populate_finish_def)
  with transition_cases [OF assms(1), of "new_zone_inventory_state now PopulatingErred zero_time (Some e)"]
  have "inv_visited zi' PopulatingErred = Some (new_zone_inventory_state now PopulatingErred zero_time (Some e))"
    by (auto simp: long_lasting_iff)
  with finish_ok [OF assms(1) t] Some show ?thesis
    by (simp add: long_lasting_iff get_visited_state_def) (simp add: new_zone_inventory_state_def)
qed

lemma load_finish_ok:
  assumes "visited_ok zi" "load_finish now zi r = Done (notified, zi')"
  shows "visited_ok zi' \<and> inv_storage zi' = inv_storage zi \<and>
    inv_state zi' = (case r of Inl _ \<Rightarrow> LoadingErred | Inr _ \<Rightarrow> Loaded)"
proof (cases r)
  case (Inl e)
  then obtain err where "transition zi (new_zone_inventory_state now LoadingErred zero_time (Some (StorageError e))) = Done (err, zi')"
    using assms(2) by (auto simp: load_finish_def)
  from finish_ok [OF assms(1) this] Inl show ?thesis by (simp add: long_lasting_iff)
next
  case (Inr t)
  then obtain err where "transition zi (new_zone_inventory_state now Loaded t None) = Done (err, zi')"
    using assms(2) by (auto simp: load_finish_def)
  from finish_ok [OF assms(1) this] Inr show ?thesis by (simp add: long_lasting_iff)
qed

lemma receive_finish_ok:
  assumes "visited_ok zi" "receive_finish now zi = Done zi'"
  shows "visited_ok zi' \<and> inv_storage zi' = inv_storage zi \<and> inv_state zi' = ReceivedZones"
proof -
  from assms(2) obtain err where
    "transition zi (new_zone_inventory_state now ReceivedZones zero_time None) = Done (err, zi')"
    by (auto simp: receive_finish_def)
  from finish_ok [OF assms(1) this] show ?thesis by (simp add: long_lasting_iff)
qed

lemma step_ok:
  assumes "inventory_step split s e (Some s')" "system_ok s"
  shows "system_ok s'"
  using assms
proof (cases rule: inventory_step.cases)
  case (call_populate now err zi')
  then show ?thesis using begin_ok [OF assms(2)] by (simp add: populate_call_def long_lasting_iff)
next
  case (call_load now err zi')
  have "system_ok (s\<lparr>sys_inv := sys_inv s, sys_tasks := sys_tasks s\<rparr>)" using assms(2) by simp
  then show ?thesis using begin_ok [OF assms(2)] call_load
    by (cases "inv_storage (sys_inv s)") (auto simp: load_call_def long_lasting_iff)
next
  case (call_receive_ok now filt n zi')
  have v: "visited_ok (sys_inv s)" using assms(2) by (simp add: system_ok_def)
  note r = receive_call_ok [OF v call_receive_ok(3)]
  have "sys_tasks s = []" using r(4) busy_no_tasks [OF assms(2)] by blast
  with call_receive_ok r(1,5) show ?thesis by (simp add: system_ok_def)
next
  case (call_receive_error now filt err zi')
  have v: "visited_ok (sys_inv s)" using assms(2) by (simp add: system_ok_def)
  note r = receive_call_ok [OF v call_receive_error(3)]
  show ?thesis
  proof (cases "long_lasting_name (inv_state (sys_inv s))")
    case False
    then have "sys_tasks s = []" using busy_no_tasks [OF assms(2)] by blast
    with call_receive_error r(1) show ?thesis by (simp add: system_ok_def)
  qed (use call_receive_error r(4) assms(2) in simp)
next
  case (fetch ts us now r err fs' st')
  then show ?thesis using only_task [OF assms(2) fetch(3)] assms(2) by (simp add: system_ok_def)
next
  case (fetched ts err views us now notified zi')
  then show ?thesis using only_task [OF assms(2) fetched(3)] populate_finish_ok assms(2) by (auto simp: system_ok_def)
next
  case (read ts us r st')
  then show ?thesis using only_task [OF assms(2) read(3)] assms(2) by (simp add: system_ok_def)
next
  case (readed ts r us now notified zi')
  then show ?thesis using only_task [OF assms(2) readed(3)] load_finish_ok assms(2) by (auto simp: system_ok_def)
next
  case (start_sending ts filt n us)
  then show ?thesis using only_task [OF assms(2) start_sending(3)] assms(2) by (simp add: system_ok_def)
next
  case (send ts i rest us)
  then show ?thesis using only_task [OF assms(2) send(3)] assms(2) by (simp add: system_ok_def)
next
  case (context_done ts r rest us)
  then show ?thesis using only_task [OF assms(2) context_done(3)] assms(2) by (simp add: system_ok_def)
next
  case (close_channel ts us now zi')
  then show ?thesis using only_task [OF assms(2) close_channel(3)] receive_finish_ok assms(2) by (auto simp: system_ok_def)
qed

lemma reach_ok: "inventory_reach split s es s' \<Longrightarrow> system_ok s \<Longrightarrow> system_ok s'"
  by (induction rule: inventory_reach.induct) (auto intro: step_ok)

lemma new_system_ok: "system_ok (new_system now fs st)"
  by (simp add: system_ok_def new_system_def new_zone_inventory_def visited_ok_def Let_def)

section \<open>What is sent\<close>

definition sent :: "event list \<Rightarrow> (storage_error + extended_zone) list" where
  "sent es = concat (map (\<lambda>e. case e of Send r \<Rightarrow> [r] | _ \<Rightarrow> []) es)"

lemma sent_simps [simp]: "sent [] = []" "sent (es @ fs) = sent es @ sent fs" "sent (map Send rs) = rs"
  "sent [CallPopulate c] = []" "sent [CallLoad c] = []" "sent [CallReceive f c] = []" "sent [FetchViews v] = []"
  "sent [NotifyPopulated c] = []" "sent [ReadStorage] = []" "sent [NotifyLoaded c] = []" "sent [StartSending] = []"
  "sent [Send r] = [r]" "sent [ContextDone] = []" "sent [CloseChannel] = []"
  by (simp_all add: sent_def map_concat comp_def)

text \<open>
  While a receiver is served, only its task moves: calls are refused, and neither the disk nor
  the storage changes.
\<close>

lemma serving_step:
  assumes "inventory_step split s e (Some s')" "system_ok s" "sys_tasks s = [t]"
    "task_state t = ReceivingZones" "e \<noteq> CloseChannel"
  shows "sys_fs s' = sys_fs s \<and> inv_storage (sys_inv s') = inv_storage (sys_inv s) \<and>
    (sys_tasks s' = [t] \<and> sent [e] = [] \<and> e \<noteq> ContextDone \<or>
     (\<exists>filt n. t = Counted filt n \<and> e = StartSending \<and> sys_tasks s' = [Sending (receive_items split (sys_fs s) filt n
         (get_views_iterator (sys_fs s) (inv_storage (sys_inv s)) filt))]) \<or>
     (\<exists>i rest. t = Sending (i # rest) \<and> e = Send (item_result i) \<and> sys_tasks s' = [Sending rest]) \<or>
     (e = ContextDone \<and> sys_tasks s' = [Sending []]))"
proof -
  have v: "visited_ok (sys_inv s)" using assms(2) by (simp add: system_ok_def)
  have busy: "long_lasting_name (inv_state (sys_inv s))" using assms(2,3) by (auto simp: system_ok_def)
  have refused: "err \<noteq> None \<and> zi' = sys_inv s" if "transition (sys_inv s) new = Done (err, zi')" "is_long_lasting new" for err zi' new
    using transition_ok [OF v that(1)] that(2) busy by blast
  have append_iff: "[t] = ts @ x # us \<longleftrightarrow> ts = [] \<and> us = [] \<and> t = x" for ts us x
    by (auto simp: append_eq_Cons_conv Cons_eq_append_conv)
  from assms(1) show ?thesis
  proof (cases rule: inventory_step.cases)
    case (call_populate now err zi')
    then have "transition (sys_inv s) (new_zone_inventory_state now Populating zero_time None) = Done (err, zi')"
      by (simp add: populate_call_def)
    from refused [OF this] call_populate(1,2) assms(3) show ?thesis by (auto simp: long_lasting_iff)
  next
    case (call_load now err zi')
    have "err \<noteq> None \<and> zi' = sys_inv s"
      using call_load(3) refused [of "new_zone_inventory_state now Loading zero_time None" err zi']
      by (cases "inv_storage (sys_inv s)") (auto simp: load_call_def long_lasting_iff)
    with call_load(1,2) assms(3) show ?thesis by auto
  next
    case (call_receive_ok now filt n zi')
    then show ?thesis using receive_call_ok(4) [OF v call_receive_ok(3) busy] by simp
  next
    case (call_receive_error now filt err zi')
    then show ?thesis using receive_call_ok(4) [OF v call_receive_error(3) busy] assms(3) by simp
  qed (use assms(3-5) append_iff in auto)
qed

definition pending :: "(string \<Rightarrow> string list) \<Rightarrow> content fs \<Rightarrow> storage \<Rightarrow> task \<Rightarrow> (storage_error + extended_zone) list" where
  "pending split fs st t =
     (case t of
        Counted filt n \<Rightarrow> map item_result (receive_items split fs filt n (get_views_iterator fs st filt))
      | Sending rest \<Rightarrow> map item_result rest
      | _ \<Rightarrow> [])"

lemma serving_reach:
  assumes "inventory_reach split s es s'" "system_ok s" "sys_tasks s = [t]" "task_state t = ReceivingZones"
    "CloseChannel \<notin> set es" "ContextDone \<notin> set es"
  shows "sys_fs s' = sys_fs s \<and> inv_storage (sys_inv s') = inv_storage (sys_inv s) \<and>
    (\<exists>t'. sys_tasks s' = [t'] \<and> task_state t' = ReceivingZones \<and>
       sent es @ pending split (sys_fs s) (inv_storage (sys_inv s)) t' = pending split (sys_fs s) (inv_storage (sys_inv s)) t)"
  using assms
proof (induction rule: inventory_reach.induct)
  case (reach_step s es s' e s'')
  then obtain t' where ih: "sys_fs s' = sys_fs s" "inv_storage (sys_inv s') = inv_storage (sys_inv s)"
    "sys_tasks s' = [t']" "task_state t' = ReceivingZones"
    "sent es @ pending split (sys_fs s) (inv_storage (sys_inv s)) t' = pending split (sys_fs s) (inv_storage (sys_inv s)) t"
    by auto
  have "system_ok s'" using reach_ok reach_step by blast
  from serving_step [OF reach_step(2) this ih(3,4)] reach_step.prems(4,5)
  have st: "sys_fs s'' = sys_fs s' \<and> inv_storage (sys_inv s'') = inv_storage (sys_inv s') \<and>
    (sys_tasks s'' = [t'] \<and> sent [e] = [] \<or>
     (\<exists>filt n. t' = Counted filt n \<and> e = StartSending \<and> sys_tasks s'' = [Sending (receive_items split (sys_fs s') filt n
         (get_views_iterator (sys_fs s') (inv_storage (sys_inv s')) filt))]) \<or>
     (\<exists>i rest. t' = Sending (i # rest) \<and> e = Send (item_result i) \<and> sys_tasks s'' = [Sending rest]))"
    by auto
  then show ?case
    using ih by (elim conjE disjE exE) (auto simp: pending_def)
qed simp

text \<open>The items that are sent and the total depend only on what a caller observes of the storage.\<close>

lemma receive_items_observed:
  "map item_result (receive_items split fs filt n vs) =
     concat (map (case_sum (\<lambda>e. [Inl e]) (\<lambda>(name, c, zs). map (map_sum id (\<lambda>z.
       \<lparr>ez_zone = z, ez_view_name = name, ez_total_zone_count = n\<rparr>)) zs)) (map (observe split fs filt) vs))"
  by (induction vs rule: receive_items.induct [of _ split fs filt n])
    (auto simp: item_result_def observe_def comp_def)

lemma total_zone_count_observed:
  assumes "map (observe split fs filt) vs = map (\<lambda>v. Inr (view_name v, Inr (view_zone_count v), f v)) ws"
  shows "total_zone_count fs vs n = Inr (n + views_zone_count ws)"
  using assms
proof (induction vs arbitrary: n ws)
  case (Cons a vs)
  then obtain w ws' where ws: "ws = w # ws'" by (cases ws) auto
  with Cons.prems obtain v where "a = Inr v" "accessor_zone_count fs v = Inr (view_zone_count w)"
    by (cases a) (auto simp: observe_def)
  with Cons.IH [of ws' "n + view_zone_count w"] Cons.prems ws show ?case by simp
qed simp

text \<open>What a receiver is owed of given views.\<close>

definition owed ::
    "(string \<Rightarrow> string list) \<Rightarrow> view list \<Rightarrow> zone_filter option \<Rightarrow> (storage_error + extended_zone) list" where
  "owed split vs filt =
     (let ws = filter (\<lambda>v. view_matches filt (view_name v)) vs in
      concat (map (\<lambda>v. map (\<lambda>z. Inr \<lparr>ez_zone = z, ez_view_name = view_name v,
          ez_total_zone_count = views_zone_count ws\<rparr>) (get_zone_iterator split v filt)) ws))"

lemma owed_of_stream:
  assumes "map (observe split fs filt) (get_views_iterator fs st filt) = view_stream split vs filt"
  shows "\<exists>n. total_zone_count fs (get_views_iterator fs st filt) 0 = Inr n \<and>
    map item_result (receive_items split fs filt n (get_views_iterator fs st filt)) = owed split vs filt"
  using total_zone_count_observed [OF assms [unfolded view_stream_def], of 0]
  by (simp add: receive_items_observed assms) (simp add: view_stream_def owed_def Let_def comp_def)

section \<open>Properties\<close>

text \<open>
  C5: At most one background task runs.  Whatever calls are made and however they interleave
  with the goroutines, there is never a second task, the state of the inventory is the one of
  the running task, and no transition dereferences a missing state.
\<close>

theorem inventory_exclusion:
  assumes "inventory_reach split (new_system now fs st) es s"
  shows "length (sys_tasks s) \<le> 1 \<and> (\<forall>t \<in> set (sys_tasks s). inv_state (sys_inv s) = task_state t) \<and>
    get_current_state (sys_inv s) \<noteq> Panic"
proof -
  have ok: "system_ok s" using reach_ok [OF assms new_system_ok] .
  then obtain cur where "get_current_state (sys_inv s) = Done cur"
    using current_state by (auto simp: system_ok_def)
  with ok show ?thesis by (auto simp: system_ok_def)
qed

text \<open>
  C0: A stream is complete and undisturbed.  From the moment \<open>receiveZones\<close> has returned the
  channel until the channel is closed, whatever calls other clients make, what is sent is what
  the storage held at the call, in order, unless the context is cancelled.
\<close>

theorem receive_stream_complete:
  assumes "inventory_reach split (new_system now fs st) es0 s" "inventory_step split s (CallReceive filt None) (Some s1)"
    and "inventory_reach split s1 es s2" "CloseChannel \<notin> set es" "ContextDone \<notin> set es"
    and "inventory_step split s2 CloseChannel (Some s3)"
  shows "\<exists>n. total_zone_count (sys_fs s1) (get_views_iterator (sys_fs s1) (inv_storage (sys_inv s1)) filt) 0 = Inr n \<and>
    sent es = map item_result (receive_items split (sys_fs s1) filt n
      (get_views_iterator (sys_fs s1) (inv_storage (sys_inv s1)) filt))"
proof -
  have ok: "system_ok s" using reach_ok [OF assms(1) new_system_ok] .
  then have v: "visited_ok (sys_inv s)" by (simp add: system_ok_def)
  have ok1: "system_ok s1" using step_ok [OF assms(2) ok] .
  from assms(2) obtain now' n zi' where
    c: "receive_zones_call now' (sys_fs s) filt (sys_inv s) = Done (Inr n, zi')"
    "s1 = s\<lparr>sys_inv := zi', sys_tasks := sys_tasks s @ [Counted filt n]\<rparr>"
    by (cases rule: inventory_stepE) auto
  note r = receive_call_ok [OF v c(1)]
  have "sys_tasks s = []" using r(4) busy_no_tasks [OF ok] by blast
  with c(2) have t1: "sys_tasks s1 = [Counted filt n]" by simp
  from serving_reach [OF assms(3) ok1 t1 _ assms(4,5)] obtain t' where
    t': "sys_tasks s2 = [t']" "sent es @ pending split (sys_fs s1) (inv_storage (sys_inv s1)) t' =
      pending split (sys_fs s1) (inv_storage (sys_inv s1)) (Counted filt n)" by auto
  from assms(6) obtain ts us where "sys_tasks s2 = ts @ Sending [] # us"
    by (cases rule: inventory_stepE) auto
  with t'(1) have "t' = Sending []" by (auto simp: append_eq_Cons_conv)
  with t'(2) have "sent es = map item_result (receive_items split (sys_fs s1) filt n
      (get_views_iterator (sys_fs s1) (inv_storage (sys_inv s1)) filt))" by (simp add: pending_def)
  moreover have "total_zone_count (sys_fs s1) (get_views_iterator (sys_fs s1) (inv_storage (sys_inv s1)) filt) 0 = Inr n"
    using r(2,5) c(2) by simp
  ultimately show ?thesis by blast
qed

text \<open>A long-lasting state without a task is never left.\<close>

lemma blocked_step:
  assumes "inventory_step split s a (Some s')" "system_ok s" "inv_state (sys_inv s) = ReceivingZones" "sys_tasks s = []"
  shows "s' = s \<and> (\<exists>f cur new. a \<in> {CallPopulate (Some (BusyError cur new)), CallLoad (Some (BusyError cur new)),
      CallLoad (Some (StorageError NoDiskStorage)), CallReceive f (Some (BusyError cur new))})"
proof -
  have v: "visited_ok (sys_inv s)" using assms(2) by (simp add: system_ok_def)
  from current_state [OF v] obtain cur where cur: "get_current_state (sys_inv s) = Done cur" "st_name cur = ReceivingZones"
    using assms(3) by metis
  have refused: "transition (sys_inv s) (new_zone_inventory_state now n c e') = Done (Some (BusyError cur (new_zone_inventory_state now n c e')), sys_inv s)"
    if "long_lasting_name n" for now n c e'
    using transition_cases [OF v, of "new_zone_inventory_state now n c e'"] that assms(3) cur(1)
    by (simp add: long_lasting_iff)
  have rec: "receive_zones_call now fs filt (sys_inv s) =
      Done (Inl (BusyError cur (new_zone_inventory_state now ReceivingZones zero_time None)), sys_inv s)" for now fs filt
    using refused [of ReceivingZones] cur by (simp add: receive_zones_call_def is_initial_def is_erred_def)
  from assms(1) show ?thesis
  proof (cases rule: inventory_step.cases)
    case (call_populate now err zi')
    then show ?thesis using refused [of Populating] by (auto simp: populate_call_def)
  next
    case (call_load now err zi')
    then show ?thesis using refused [of Loading]
      by (cases "inv_storage (sys_inv s)") (auto simp: load_call_def)
  next
    case (call_receive_error now filt err zi')
    then show ?thesis using rec by auto
  qed (use assms(4) rec in auto)
qed

section \<open>A whole session\<close>

definition storage_ready :: "content fs \<Rightarrow> storage \<Rightarrow> view list \<Rightarrow> bool" where
  "storage_ready fs st vs \<longleftrightarrow>
     memory_ready (fs, st) vs \<or> disk_storage_ready (fs, st) vs \<or> memory_disk_ready (fs, st) vs"

lemma storage_save_stream:
  assumes "storage_ready fs st vs" "inventory_views split vs"
  shows "\<exists>fs' st'. storage_save_views now fs st (Some vs) = Done (None, fs', st') \<and>
    (\<forall>filt. map (observe split fs' filt) (get_views_iterator fs' st' filt) = view_stream split vs filt)"
proof -
  note returns = memory_store.save_returns disk_store.save_returns memory_disk_store.save_returns
  note streams = memory_store.save_stream disk_store.save_stream memory_disk_store.save_stream
  have "\<exists>s'. store_save now (fs, st) vs = Done (None, s') \<and> (\<forall>filt. store_stream split s' filt = view_stream split vs filt)"
    using assms returns streams unfolding storage_ready_def by metis
  then show ?thesis by (simp add: store_save_def store_stream_def)
qed

lemma sends:
  "inventory_reach split s es s' \<Longrightarrow> sys_tasks s' = [Sending is] \<Longrightarrow>
    inventory_reach split s (es @ map (\<lambda>i. Send (item_result i)) is) (s'\<lparr>sys_tasks := [Sending []]\<rparr>)"
proof (induction "is" arbitrary: es s')
  case (Cons i rest)
  have "inventory_step split s' (Send (item_result i)) (Some (s'\<lparr>sys_tasks := [] @ Sending rest # []\<rparr>))"
    by (rule inventory_step.send) (simp add: Cons.prems)
  from Cons.IH [OF reach_step [OF Cons.prems(1) this]] show ?case by simp
next
  case Nil
  then show ?case by (metis append_Nil2 list.simps(8) system.surjective system.update_convs(3))
qed

lemma transition_free:
  assumes "visited_ok zi" "\<not> long_lasting_name (inv_state zi) \<or> \<not> is_long_lasting new"
  shows "\<exists>zi'. transition zi new = Done (None, zi') \<and> visited_ok zi' \<and> inv_state zi' = st_name new \<and>
    inv_storage zi' = inv_storage zi"
proof -
  from assms transition_cases [OF assms(1), of new] have
    "transition zi new = Done (None, zi\<lparr>inv_state := st_name new, inv_visited := (inv_visited zi)(st_name new \<mapsto> new)\<rparr>)"
    by auto
  moreover from transition_ok(1) [OF assms(1) this]
  have "visited_ok (zi\<lparr>inv_state := st_name new, inv_visited := (inv_visited zi)(st_name new \<mapsto> new)\<rparr>)" .
  ultimately show ?thesis by simp
qed

lemma receive_call_begins:
  assumes "visited_ok zi" "inv_state zi \<in> {Loaded, Populated, ReceivedZones}"
    "total_zone_count fs (get_views_iterator fs (inv_storage zi) filt) 0 = Inr n"
  obtains zi' where "receive_zones_call now fs filt zi = Done (Inr n, zi')" "visited_ok zi'"
    "inv_state zi' = ReceivingZones" "inv_storage zi' = inv_storage zi"
proof -
  from current_state [OF assms(1)] obtain cur where cur: "get_current_state zi = Done cur" "st_name cur = inv_state zi" .
  have "\<not> long_lasting_name (inv_state zi)" using assms(2) by auto
  then obtain zi' where "transition zi (new_zone_inventory_state now ReceivingZones zero_time None) = Done (None, zi')"
    "visited_ok zi'" "inv_state zi' = ReceivingZones" "inv_storage zi' = inv_storage zi"
    using transition_free [OF assms(1)] by (metis st_name_new)
  moreover have "\<not> is_initial cur" "\<not> is_erred cur"
    using cur assms(2) by (auto simp: is_initial_def is_erred_def)
  ultimately show thesis using that cur assms(3) by (simp add: receive_zones_call_def)
qed

lemma populated_session:
  assumes "system_ok s" "\<not> long_lasting_name (inv_state (sys_inv s))"
    and "storage_ready (sys_fs s) (inv_storage (sys_inv s)) vs" "inventory_views split vs"
  obtains s3 where
    "inventory_reach split s [CallPopulate None, FetchViews (None, Some vs, None), NotifyPopulated None] s3"
    "system_ok s3" "sys_tasks s3 = []" "inv_state (sys_inv s3) = Populated"
    "\<And>filt. map (observe split (sys_fs s3) filt) (get_views_iterator (sys_fs s3) (inv_storage (sys_inv s3)) filt) =
       view_stream split vs filt"
proof -
  have v: "visited_ok (sys_inv s)" using assms(1) by (simp add: system_ok_def)
  have t0: "sys_tasks s = []" using busy_no_tasks [OF assms(1,2)] .
  let ?st = "inv_storage (sys_inv s)"
  let ?new = "\<lambda>n. new_zone_inventory_state 0 n zero_time None"
  obtain z1 where z1: "transition (sys_inv s) (?new Populating) = Done (None, z1)" "visited_ok z1"
    "inv_state z1 = Populating"  "inv_storage z1 = ?st"
    using transition_free [OF v disjI1 [OF assms(2)], of "?new Populating"] by auto
  obtain fs' st' where saved: "storage_save_views 0 (sys_fs s) ?st (Some vs) = Done (None, fs', st')"
    "\<And>filt. map (observe split fs' filt) (get_views_iterator fs' st' filt) = view_stream split vs filt"
    using storage_save_stream [OF assms(3,4), of 0] by blast
  have "visited_ok (z1\<lparr>inv_storage := st'\<rparr>)" using z1(2) by simp
  moreover have "\<not> is_long_lasting (?new Populated)" by (simp add: long_lasting_iff)
  ultimately obtain z3 where z3: "transition (z1\<lparr>inv_storage := st'\<rparr>) (?new Populated) = Done (None, z3)"
    "visited_ok z3" "inv_state z3 = Populated" "inv_storage z3 = st'"
    using transition_free [of "z1\<lparr>inv_storage := st'\<rparr>" "?new Populated"] by auto
  let ?s1 = "s\<lparr>sys_inv := z1, sys_tasks := [Fetching]\<rparr>"
  let ?s2 = "?s1\<lparr>sys_fs := fs', sys_inv := z1\<lparr>inv_storage := st'\<rparr>, sys_tasks := [Fetched None (Some vs)]\<rparr>"
  let ?s3 = "?s2\<lparr>sys_inv := z3, sys_tasks := []\<rparr>"
  have "inventory_step split s (CallPopulate None) (Some ?s1)"
    using call_populate [of 0 s None z1 split] z1(1) t0 by (simp add: populate_call_def)
  from reach_step [OF reach_refl this] have r1: "inventory_reach split s [CallPopulate None] ?s1" by simp
  have "inventory_step split ?s1 (FetchViews (None, Some vs, None)) (Some ?s2)"
    using fetch [of ?s1 "[]" "[]" 0 "(None, Some vs, None)" None fs' st' split] saved(1) z1(4)
    by (simp add: populate_fetch_def)
  from reach_step [OF r1 this] have r2: "inventory_reach split s [CallPopulate None, FetchViews (None, Some vs, None)] ?s2" by simp
  have "inventory_step split ?s2 (NotifyPopulated None) (Some ?s3)"
    using fetched [of ?s2 "[]" None "Some vs" "[]" 0 None z3 split] z3(1) by (simp add: populate_finish_def)
  from reach_step [OF r2 this] have r3: "inventory_reach split s
      [CallPopulate None, FetchViews (None, Some vs, None), NotifyPopulated None] ?s3" by simp
  show thesis
    by (rule that [OF r3]) (use reach_ok [OF r3 assms(1)] z3 saved(2) in simp_all)
qed

lemma receive_session:
  assumes "system_ok s3" "sys_tasks s3 = []" "inv_state (sys_inv s3) = Populated"
    and "map (observe split (sys_fs s3) filt) (get_views_iterator (sys_fs s3) (inv_storage (sys_inv s3)) filt) =
       view_stream split vs filt"
  obtains s4 s6 s7 where "inventory_step split s3 (CallReceive filt None) (Some s4)"
    "inventory_reach split s4 (StartSending # map Send (owed split vs filt)) s6"
    "inventory_step split s6 CloseChannel (Some s7)" "inv_state (sys_inv s7) = ReceivedZones" "sys_tasks s7 = []"
proof -
  let ?it = "get_views_iterator (sys_fs s3) (inv_storage (sys_inv s3)) filt"
  from owed_of_stream [OF assms(4)] obtain n where n: "total_zone_count (sys_fs s3) ?it 0 = Inr n"
    "map item_result (receive_items split (sys_fs s3) filt n ?it) = owed split vs filt" by blast
  have v3: "visited_ok (sys_inv s3)" using assms(1) by (simp add: system_ok_def)
  obtain z4 where z4: "receive_zones_call 0 (sys_fs s3) filt (sys_inv s3) = Done (Inr n, z4)" "visited_ok z4"
    "inv_state z4 = ReceivingZones" "inv_storage z4 = inv_storage (sys_inv s3)"
    using receive_call_begins [OF v3 _ n(1), of 0] assms(3) by auto
  let ?items = "receive_items split (sys_fs s3) filt n ?it"
  let ?s4 = "s3\<lparr>sys_inv := z4, sys_tasks := [Counted filt n]\<rparr>"
  let ?s5 = "?s4\<lparr>sys_tasks := [Sending ?items]\<rparr>"
  let ?s6 = "?s4\<lparr>sys_tasks := [Sending []]\<rparr>"
  have st4: "inventory_step split s3 (CallReceive filt None) (Some ?s4)"
    using call_receive_ok [of 0 s3 filt n z4 split] z4(1) assms(2) by simp
  have "inventory_step split ?s4 StartSending (Some ?s5)"
    using start_sending [of ?s4 "[]" filt n "[]" split] z4(4) by simp
  from reach_step [OF reach_refl this] have "inventory_reach split ?s4 [StartSending] ?s5" by simp
  from sends [OF this, of ?items] have
    r6: "inventory_reach split ?s4 (StartSending # map Send (owed split vs filt)) ?s6"
    using n(2) [symmetric] by (simp add: comp_def)
  have fin: "\<not> is_long_lasting (new_zone_inventory_state 0 ReceivedZones zero_time None)"
    by (simp add: long_lasting_iff)
  obtain z7 where z7: "receive_finish 0 z4 = Done z7" "inv_state z7 = ReceivedZones"
    using transition_free [OF z4(2) disjI2 [OF fin]] by (simp add: receive_finish_def) (metis st_name_new)
  then have "inventory_step split ?s6 CloseChannel (Some (?s6\<lparr>sys_inv := z7, sys_tasks := []\<rparr>))"
    using close_channel [of ?s6 "[]" "[]" 0 z7 split] by simp
  from that [OF st4 r6 this] z7(2) show thesis by simp
qed

lemma reach_append:
  assumes "inventory_reach split s es s'" "inventory_reach split s' es' s''"
  shows "inventory_reach split s (es @ es') s''"
  using assms(2,1)
  by (induction rule: inventory_reach.induct)
    (simp, metis append_assoc inventory_reach.reach_step)

text \<open>
  What is populated is received, with every kind of storage.  From any quiet inventory the
  session \<open>populate\<close>, \<open>receiveZones\<close> runs without an error; it sends exactly the zones that
  the filter keeps of the matching views, view after view and in DNS order, each with the
  number of zones in the matching views; and it ends in the state \<open>RECEIVED_ZONES\<close>.
\<close>

theorem populated_zones_received:
  assumes "inventory_reach split (new_system now fs st) es0 s" "\<not> long_lasting_name (inv_state (sys_inv s))"
    and "storage_ready (sys_fs s) (inv_storage (sys_inv s)) vs" "inventory_views split vs"
  shows "\<exists>s'. inventory_reach split s ([CallPopulate None, FetchViews (None, Some vs, None), NotifyPopulated None,
      CallReceive filt None, StartSending] @ map Send (owed split vs filt) @ [CloseChannel]) s' \<and>
    inv_state (sys_inv s') = ReceivedZones \<and> sys_tasks s' = []"
proof -
  have "system_ok s" using reach_ok [OF assms(1) new_system_ok] .
  from populated_session [OF this assms(2-4)] obtain s3 where
    r3: "inventory_reach split s [CallPopulate None, FetchViews (None, Some vs, None), NotifyPopulated None] s3"
    and s3: "system_ok s3" "sys_tasks s3 = []" "inv_state (sys_inv s3) = Populated"
    "map (observe split (sys_fs s3) filt) (get_views_iterator (sys_fs s3) (inv_storage (sys_inv s3)) filt) =
       view_stream split vs filt" by metis
  from receive_session [OF s3] obtain s4 s6 s7 where
    s4: "inventory_step split s3 (CallReceive filt None) (Some s4)"
    "inventory_reach split s4 (StartSending # map Send (owed split vs filt)) s6"
    "inventory_step split s6 CloseChannel (Some s7)" "inv_state (sys_inv s7) = ReceivedZones" "sys_tasks s7 = []" .
  from reach_step [OF reach_append [OF reach_step [OF r3 s4(1)] s4(2)] s4(3)] s4(4,5) show ?thesis
    by force
qed

text \<open>
  A failed count blocks the inventory for good.  When \<open>receiveZones\<close> cannot count the zones
  of a view (an I/O error) it returns the error but stays in \<open>RECEIVING_ZONES\<close>: in every later
  state no goroutine runs, nothing has changed, and every call of \<open>populate\<close> or
  \<open>receiveZones\<close>, and of \<open>load\<close> on a disk, is refused as busy.
\<close>

theorem receive_error_blocks_inventory:
  assumes "inventory_reach split (new_system now fs st) es0 s" "inv_state (sys_inv s) \<in> {Loaded, Populated, ReceivedZones}"
    and "total_zone_count (sys_fs s) (get_views_iterator (sys_fs s) (inv_storage (sys_inv s)) filt) 0 = Inl e"
    and "inventory_step split s (CallReceive filt (Some err)) (Some s1)" "inventory_reach split s1 es s2"
  shows "err = StorageError e \<and> s2 = s1 \<and> inv_state (sys_inv s2) = ReceivingZones \<and> sys_tasks s2 = [] \<and>
    (\<forall>a \<in> set es. \<exists>f cur new. a \<in> {CallPopulate (Some (BusyError cur new)), CallLoad (Some (BusyError cur new)),
        CallLoad (Some (StorageError NoDiskStorage)), CallReceive f (Some (BusyError cur new))})"
proof -
  have ok: "system_ok s" using reach_ok [OF assms(1) new_system_ok] .
  then have v: "visited_ok (sys_inv s)" by (simp add: system_ok_def)
  have free: "\<not> long_lasting_name (inv_state (sys_inv s))" using assms(2) by auto
  have t0: "sys_tasks s = []" using busy_no_tasks [OF ok free] .
  from current_state [OF v] obtain cur where cur: "get_current_state (sys_inv s) = Done cur" "st_name cur = inv_state (sys_inv s)" .
  from assms(4) obtain now' zi' where c: "receive_zones_call now' (sys_fs s) filt (sys_inv s) = Done (Inl err, zi')"
    "s1 = s\<lparr>sys_inv := zi'\<rparr>"
    by (cases rule: inventory_stepE) auto
  obtain z1 where z1: "transition (sys_inv s) (new_zone_inventory_state now' ReceivingZones zero_time None) = Done (None, z1)"
    "inv_state z1 = ReceivingZones" "inv_storage z1 = inv_storage (sys_inv s)"
    using transition_free [OF v disjI1 [OF free], of "new_zone_inventory_state now' ReceivingZones zero_time None"] by auto
  have "\<not> is_initial cur" "\<not> is_erred cur"
    using cur assms(2) by (auto simp: is_initial_def is_erred_def)
  with c cur z1 assms(3) have s1: "err = StorageError e" "sys_inv s1 = z1" "sys_tasks s1 = []" "inv_state (sys_inv s1) = ReceivingZones"
    using t0 by (auto simp: receive_zones_call_def)
  have ok1: "system_ok s1" using step_ok [OF assms(4) ok] .
  show ?thesis using assms(5) s1 ok1
  proof (induction rule: inventory_reach.induct)
    case (reach_step s1 es s' a s'')
    have s': "s' = s1" and es: "\<forall>a \<in> set es. \<exists>f cur new. a \<in> {CallPopulate (Some (BusyError cur new)),
        CallLoad (Some (BusyError cur new)), CallLoad (Some (StorageError NoDiskStorage)), CallReceive f (Some (BusyError cur new))}"
      using reach_step by blast+
    from blocked_step [OF reach_step(2) [unfolded s'] reach_step.prems(5,4,3)] es s' reach_step.prems
    show ?case by auto
  qed simp
qed

text \<open>
  The subscriber of \<open>populate\<close> is not told of a failure.  When fetching or saving failed,
  the inventory keeps the error in its state \<open>POPULATING_ERRED\<close>, but the notification carries
  the result of the transition, which is nil.
\<close>

theorem populate_error_not_notified:
  assumes "inventory_reach split (new_system now fs st) es s" "sys_tasks s = [Fetched (Some e) views]"
    and "inventory_step split s (NotifyPopulated notified) (Some s')"
  shows "notified = None \<and> inv_state (sys_inv s') = PopulatingErred \<and>
    (\<exists>x. get_visited_state (sys_inv s') PopulatingErred = Some x \<and> st_err x = Some e)"
proof -
  have "system_ok s" using reach_ok [OF assms(1) new_system_ok] .
  then have v: "visited_ok (sys_inv s)" by (simp add: system_ok_def)
  from assms(3,2) obtain now' zi' where
    "populate_finish now' (sys_inv s) (Some e) views = Done (notified, zi')" "sys_inv s' = zi'"
    by (cases rule: inventory_stepE) (auto simp: append_eq_Cons_conv)
  from populate_finish_ok [OF v this(1)] this(2) show ?thesis by auto
qed

section \<open>Liveness\<close>

fun is_call :: "event \<Rightarrow> bool" where
  "is_call (CallPopulate c) = True"
| "is_call (CallLoad c) = True"
| "is_call (CallReceive f c) = True"
| "is_call _ = False"

definition settles :: "(string \<Rightarrow> string list) \<Rightarrow> system \<Rightarrow> bool" where
  "settles split s \<longleftrightarrow> (\<exists>es s'. inventory_reach split s es s' \<and> (\<forall>e \<in> set es. \<not> is_call e) \<and>
     (\<not> long_lasting_name (inv_state (sys_inv s')) \<or> inventory_step split s' Crash None))"

lemma reach_Cons:
  assumes "inventory_step split s e (Some s1)" "inventory_reach split s1 es s2"
  shows "inventory_reach split s (e # es) s2"
  using assms(2,1)
proof (induction rule: inventory_reach.induct)
  case (reach_refl s1)
  then show ?case using inventory_reach.reach_step [OF inventory_reach.reach_refl, of split s e s1] by simp
next
  case (reach_step s1 es s' e' s'')
  then show ?case using inventory_reach.reach_step by (metis append_Cons)
qed

lemma settles_step: "inventory_step split s e (Some s1) \<Longrightarrow> \<not> is_call e \<Longrightarrow> settles split s1 \<Longrightarrow> settles split s"
proof -
  assume st: "inventory_step split s e (Some s1)" "\<not> is_call e" and "settles split s1"
  then obtain es s' where es: "inventory_reach split s1 es s'" "\<forall>e \<in> set es. \<not> is_call e"
     "\<not> long_lasting_name (inv_state (sys_inv s')) \<or> inventory_step split s' Crash None"
    unfolding settles_def by blast
  have "inventory_reach split s (e # es) s'" by (rule reach_Cons [OF st(1) es(1)])
  moreover have "\<forall>e' \<in> set (e # es). \<not> is_call e'" using st(2) es(2) by simp
  ultimately show ?thesis unfolding settles_def using es(3) by blast
qed

lemma settles_now: "\<not> long_lasting_name (inv_state (sys_inv s)) \<or> inventory_step split s Crash None \<Longrightarrow> settles split s"
  unfolding settles_def by (intro exI [of _ "[]"] exI [of _ s] conjI reach_refl) simp_all

lemma settles_last: "inventory_step split s e (Some s1) \<Longrightarrow> \<not> is_call e \<Longrightarrow>
    \<not> long_lasting_name (inv_state (sys_inv s1)) \<Longrightarrow> settles split s"
  using settles_step settles_now by blast

lemma finish_total:
  assumes "visited_ok zi"
  shows "populate_finish now zi err views = Panic \<or> (\<exists>n zi'. populate_finish now zi err views = Done (n, zi') \<and> \<not> long_lasting_name (inv_state zi'))"
    and "\<exists>n zi'. load_finish now zi r = Done (n, zi') \<and> \<not> long_lasting_name (inv_state zi')"
    and "\<exists>zi'. receive_finish now zi = Done zi' \<and> \<not> long_lasting_name (inv_state zi')"
proof -
  show "populate_finish now zi err views = Panic \<or> (\<exists>n zi'. populate_finish now zi err views = Done (n, zi') \<and> \<not> long_lasting_name (inv_state zi'))"
    using populate_finish_ok [OF assms, of now err views] long_lasting_simps
    by (cases "populate_finish now zi err views") (auto split: if_splits)
  have "\<exists>x. load_finish now zi r = Done x"
    using transition_total [OF assms] by (cases r) (auto simp: load_finish_def split: prod.splits; metis surj_pair)+
  then show "\<exists>n zi'. load_finish now zi r = Done (n, zi') \<and> \<not> long_lasting_name (inv_state zi')"
    using load_finish_ok [OF assms, of now r] by (cases r) auto
  have "\<exists>x. receive_finish now zi = Done x"
    using transition_total [OF assms] by (auto simp: receive_finish_def) (metis surj_pair)
  then show "\<exists>zi'. receive_finish now zi = Done zi' \<and> \<not> long_lasting_name (inv_state zi')"
    using receive_finish_ok [OF assms, of now] by auto
qed

lemma task_settles:
  assumes "system_ok s" "sys_tasks s = [t]"
  shows "settles split s"
proof -
  have v: "visited_ok (sys_inv s)" using assms(1) by (simp add: system_ok_def)
  have fetched: "settles split s" if "visited_ok (sys_inv s)" "sys_tasks s = [Fetched err views]" for s err views
    using finish_total(1) [OF that(1), of 0 err views]
  proof (elim disjE exE conjE)
    assume "populate_finish 0 (sys_inv s) err views = Panic"
    then show ?thesis using inventory_step.fetched_crash [of s "[]" err views "[]" 0 split] that(2) by (simp add: settles_now)
  next
    fix n zi' assume f: "populate_finish 0 (sys_inv s) err views = Done (n, zi')" "\<not> long_lasting_name (inv_state zi')"
    show ?thesis
      by (rule settles_last [OF inventory_step.fetched [of s "[]" err views "[]" 0, OF _ f(1)]]) (use that f in simp_all)
  qed
  have readed: "settles split s" if "visited_ok (sys_inv s)" "sys_tasks s = [Readed r]" for s r
  proof -
    from finish_total(2) [OF that(1), of 0 r] obtain n zi' where
      f: "load_finish 0 (sys_inv s) r = Done (n, zi')" "\<not> long_lasting_name (inv_state zi')" by blast
    show ?thesis
      by (rule settles_last [OF inventory_step.readed [of s "[]" r "[]" 0, OF _ f(1)]]) (use that f in simp_all)
  qed
  have sending: "settles split s" if "visited_ok (sys_inv s)" "sys_tasks s = [Sending is]" for s "is"
    using that
  proof (induction "is" arbitrary: s)
    case Nil
    from finish_total(3) [OF Nil(1), of 0] obtain zi' where
      f: "receive_finish 0 (sys_inv s) = Done zi'" "\<not> long_lasting_name (inv_state zi')" by blast
    show ?case
      by (rule settles_last [OF inventory_step.close_channel [of s "[]" "[]" 0, OF _ f(1)]]) (use Nil f in simp_all)
  next
    case (Cons i rest)
    show ?case
      by (rule settles_step [OF inventory_step.send [of s "[]" i rest "[]"]]) (use Cons in simp_all)
  qed
  show ?thesis
  proof (cases t)
    case Fetching
    let ?r = "(None, None, Some []) :: fetch_result"
    have "inventory_step split s (FetchViews ?r) (Some (s\<lparr>sys_fs := sys_fs s,
        sys_inv := (sys_inv s)\<lparr>inv_storage := inv_storage (sys_inv s)\<rparr>,
        sys_tasks := [] @ Fetched (Some (FetchError [])) (fst (snd ?r)) # []\<rparr>))"
      by (rule fetch) (use Fetching assms(2) in \<open>simp_all add: populate_fetch_def\<close>)
    then show ?thesis by (rule settles_step) (use fetched v in simp_all)
  next
    case Reading
    show ?thesis
    proof (cases "storage_load_views split (sys_fs s) (inv_storage (sys_inv s))")
      case Panic
      then show ?thesis using read_crash [of s "[]" "[]" split] Reading assms(2) by (simp add: settles_now)
    next
      case (Done x)
      then show ?thesis
        using settles_step [OF inventory_step.read [of s "[]" "[]" split "fst x" "snd x"]] Reading assms(2) readed v by simp
    qed
  next
    case (Counted filt n)
    then show ?thesis
      using settles_step [OF start_sending [of s "[]" filt n "[]" split]] assms(2) sending v by simp
  qed (use assms(2) v fetched readed sending in auto)
qed

text \<open>Counting in memory never fails.\<close>

definition in_memory :: "storage \<Rightarrow> bool" where
  "in_memory st = (case st of Disk _ \<Rightarrow> False | _ \<Rightarrow> True)"

lemma total_in_memory: "in_memory st \<Longrightarrow> \<exists>n. total_zone_count fs (get_views_iterator fs st filt) m = Inr n"
proof -
  have "\<exists>n. total_zone_count fs (map (\<lambda>v. Inr (InMemory v)) vs) m = Inr n" for vs
    by (induction vs arbitrary: m) auto
  then show "in_memory st \<Longrightarrow> ?thesis"
    by (cases st) (auto simp: in_memory_def memory_views_iterator_def split: option.split)
qed

definition busy_has_task :: "system \<Rightarrow> bool" where
  "busy_has_task s \<longleftrightarrow> in_memory (inv_storage (sys_inv s)) \<and>
     (long_lasting_name (inv_state (sys_inv s)) \<longrightarrow> sys_tasks s \<noteq> [])"

lemma in_memory_save:
  assumes "storage_save_views now fs st views = Done (e, fs', st')" "in_memory st"
  shows "in_memory st'"
proof (cases st)
  case (MemoryDisk loc old)
  with assms show ?thesis by (auto simp: in_memory_def split: option.splits prod.splits)
qed (use assms in \<open>auto simp: in_memory_def\<close>)

lemma in_memory_load: "storage_load_views split fs st = Done (r, st') \<Longrightarrow> in_memory st \<Longrightarrow> in_memory st'"
proof (cases st)
  case (MemoryDisk loc old)
  assume "storage_load_views split fs st = Done (r, st')"
  with MemoryDisk show ?thesis
    by (cases "memory_disk_load_views split fs loc"; cases "the_done (memory_disk_load_views split fs loc)")
      (auto simp: in_memory_def)
qed (auto simp: in_memory_def)

lemma in_memory_fetch:
  assumes "populate_fetch now fs st r = Done (e, fs', st')" "in_memory st"
  shows "in_memory st'"
proof -
  obtain h views err where r: "r = (h, views, err)" by (cases r)
  have save: "in_memory st'" if "bind_run (storage_save_views now fs st views)
      (\<lambda>(e, fs', st'). Done (map_option StorageError e, fs', st')) = Done (e, fs', st')"
    using that assms(2) in_memory_save by (auto split: prod.splits)
  show ?thesis
    using assms r save by (cases err; cases h) (auto simp: populate_fetch_def split: if_splits)
qed

lemma step_busy_has_task:
  assumes "inventory_step split s e (Some s')" "system_ok s" "busy_has_task s"
  shows "busy_has_task s'"
proof -
  have v: "visited_ok (sys_inv s)" and mem: "in_memory (inv_storage (sys_inv s))"
    and busy: "long_lasting_name (inv_state (sys_inv s)) \<Longrightarrow> sys_tasks s \<noteq> []"
    using assms(2,3) by (auto simp: system_ok_def busy_has_task_def)
  have call: "busy_has_task (s\<lparr>sys_inv := zi', sys_tasks := (if err = None then sys_tasks s @ [t] else sys_tasks s)\<rparr>)"
    if "transition (sys_inv s) new = Done (err, zi')" for new err zi' t
    using transition_ok(2,5) [OF v that] mem busy by (auto simp: busy_has_task_def)
  from assms(1) show ?thesis
  proof (cases rule: inventory_step.cases)
    case (call_populate now err zi')
    then show ?thesis using call by (simp add: populate_call_def)
  next
    case (call_load now err zi')
    have "busy_has_task (s\<lparr>sys_inv := sys_inv s, sys_tasks := sys_tasks s\<rparr>)" using assms(3) by simp
    with call_load call show ?thesis by (cases "inv_storage (sys_inv s)") (auto simp: load_call_def)
  next
    case (call_receive_ok now filt n zi')
    then show ?thesis using receive_call_ok(2) [OF v call_receive_ok(3)] mem by (simp add: busy_has_task_def)
  next
    case (call_receive_error now filt err zi')
    from total_in_memory [OF mem] obtain n where
      n: "total_zone_count (sys_fs s) (get_views_iterator (sys_fs s) (inv_storage (sys_inv s)) filt) 0 = Inr n" by blast
    have "zi' = sys_inv s"
      using receive_call_ok(6) [OF v call_receive_error(3)] n by auto
    with call_receive_error assms(3) show ?thesis by simp
  next
    case (fetch ts us now r err fs' st')
    then show ?thesis using in_memory_fetch [OF fetch(4) mem] by (simp add: busy_has_task_def)
  next
    case (fetched ts err views us now notified zi')
    then show ?thesis using populate_finish_ok [OF v fetched(4)] mem by (simp add: busy_has_task_def)
  next
    case (read ts us r st')
    then show ?thesis using in_memory_load [OF read(4) mem] by (simp add: busy_has_task_def)
  next
    case (readed ts r us now notified zi')
    then show ?thesis using load_finish_ok [OF v readed(4)] mem by (simp add: busy_has_task_def split: sum.splits)
  next
    case (close_channel ts us now zi')
    then show ?thesis using receive_finish_ok [OF v close_channel(4)] mem by (simp add: busy_has_task_def)
  qed (use mem in \<open>simp_all add: busy_has_task_def\<close>)
qed

lemma reach_busy_has_task:
  "inventory_reach split s es s' \<Longrightarrow> system_ok s \<Longrightarrow> busy_has_task s \<Longrightarrow> system_ok s' \<and> busy_has_task s'"
  by (induction rule: inventory_reach.induct) (auto intro: step_ok step_busy_has_task)

text \<open>
  An inventory that reads from memory is never stuck.  In every reachable state in which
  it is busy a goroutine is running, and that goroutine, with no call needed, can go on until
  the inventory is no longer busy, unless it panics.
\<close>

theorem memory_inventory_settles:
  assumes "in_memory st" "inventory_reach split (new_system now fs st) es s"
    and "long_lasting_name (inv_state (sys_inv s))"
  shows "(\<exists>t. sys_tasks s = [t] \<and> inv_state (sys_inv s) = task_state t) \<and>
    (\<exists>es' s'. inventory_reach split s es' s' \<and> (\<forall>e \<in> set es'. \<not> is_call e) \<and>
      (\<not> long_lasting_name (inv_state (sys_inv s')) \<or> inventory_step split s' Crash None))"
proof -
  have "busy_has_task (new_system now fs st)"
    using assms(1) by (simp add: busy_has_task_def new_system_def new_zone_inventory_def Let_def)
  from reach_busy_has_task [OF assms(2) new_system_ok this] assms(3)
  obtain t where ok: "system_ok s" and t: "sys_tasks s = [t]" "inv_state (sys_inv s) = task_state t"
    by (auto simp: system_ok_def busy_has_task_def)
  from task_settles [OF ok t(1)] t show ?thesis unfolding settles_def by blast
qed

section \<open>Witnesses\<close>

lemma wit_quiet: "\<not> long_lasting_name (inv_state (sys_inv (new_system now fs st)))"
  by (simp add: new_system_def new_zone_inventory_def Let_def)

lemma wit_storage_ready: "storage_ready wit_fs (Disk [''var'']) [wit_view]"
  using wit_view_ready by (simp add: storage_ready_def)

lemma wit_session:
  obtains s3 s4 s6 s7 where
    "inventory_reach wit_split (new_system 1 wit_fs (Disk [''var'']))
      [CallPopulate None, FetchViews (None, Some [wit_view], None), NotifyPopulated None] s3"
    "inventory_step wit_split s3 (CallReceive (Some wit_filter) None) (Some s4)"
    "inventory_reach wit_split s4 (StartSending # map Send (owed wit_split [wit_view] (Some wit_filter))) s6"
    "inventory_step wit_split s6 CloseChannel (Some s7)"
proof -
  have ready: "storage_ready (sys_fs (new_system 1 wit_fs (Disk [''var''])))
      (inv_storage (sys_inv (new_system 1 wit_fs (Disk [''var''])))) [wit_view]"
    using wit_storage_ready by (simp add: new_system_def new_zone_inventory_def Let_def)
  from populated_session [OF new_system_ok wit_quiet ready wit_inventory_views] obtain s3 where
    r3: "inventory_reach wit_split (new_system 1 wit_fs (Disk [''var'']))
      [CallPopulate None, FetchViews (None, Some [wit_view], None), NotifyPopulated None] s3"
    and s3: "system_ok s3" "sys_tasks s3 = []" "inv_state (sys_inv s3) = Populated"
    "map (observe wit_split (sys_fs s3) (Some wit_filter))
        (get_views_iterator (sys_fs s3) (inv_storage (sys_inv s3)) (Some wit_filter)) =
       view_stream wit_split [wit_view] (Some wit_filter)" by metis
  from receive_session [OF s3] that [OF r3] show thesis by metis
qed

text \<open>A populate that has begun, and one whose fetch failed.\<close>

lemma wit_begun:
  obtains s1 where "inventory_reach split (new_system 1 fs st) [CallPopulate None] s1" "sys_tasks s1 = [Fetching]"
    "inv_state (sys_inv s1) = Populating"
proof -
  let ?s = "new_system 1 fs st"
  obtain zi where z: "populate_call 2 (sys_inv ?s) = Done (None, zi)" "inv_state zi = Populating"
    using transition_free [of "sys_inv ?s" "new_zone_inventory_state 2 Populating zero_time None"]
      wit_quiet [of 1 fs st] new_system_ok [of 1 fs st] by (auto simp: system_ok_def populate_call_def)
  have "inventory_step split ?s (CallPopulate None) (Some (?s\<lparr>sys_inv := zi, sys_tasks := sys_tasks ?s @ [Fetching]\<rparr>))"
    using call_populate [OF z(1), of split] by simp
  from reach_step [OF reach_refl this]
  have "inventory_reach split ?s [CallPopulate None] (?s\<lparr>sys_inv := zi, sys_tasks := sys_tasks ?s @ [Fetching]\<rparr>)" by simp
  then show thesis by (rule that) (simp_all add: z(2) new_system_def)
qed

theorem inventory_exclusion_witness:
  "\<exists>s. inventory_reach wit_split (new_system 1 wit_fs (Memory None)) [CallPopulate None] s \<and>
    sys_tasks s = [Fetching] \<and> inv_state (sys_inv s) = task_state Fetching"
proof -
  obtain s where s: "inventory_reach wit_split (new_system 1 wit_fs (Memory None)) [CallPopulate None] s"
    "sys_tasks s = [Fetching]" by (rule wit_begun)
  from inventory_exclusion [OF s(1)] s show ?thesis by auto
qed

lemma set_map_Send: "CloseChannel \<notin> set (StartSending # map Send rs)" "ContextDone \<notin> set (StartSending # map Send rs)"
  by auto

theorem receive_stream_complete_witness:
  "\<exists>(s1 :: system) es n. sent es = map item_result (receive_items wit_split (sys_fs s1) (Some wit_filter) n
      (get_views_iterator (sys_fs s1) (inv_storage (sys_inv s1)) (Some wit_filter))) \<and>
    sent es = owed wit_split [wit_view] (Some wit_filter)"
proof -
  obtain s3 s4 s6 s7 where w: "inventory_reach wit_split (new_system 1 wit_fs (Disk [''var'']))
      [CallPopulate None, FetchViews (None, Some [wit_view], None), NotifyPopulated None] s3"
    "inventory_step wit_split s3 (CallReceive (Some wit_filter) None) (Some s4)"
    "inventory_reach wit_split s4 (StartSending # map Send (owed wit_split [wit_view] (Some wit_filter))) s6"
    "inventory_step wit_split s6 CloseChannel (Some s7)" by (rule wit_session)
  have "sent (StartSending # map Send (owed wit_split [wit_view] (Some wit_filter))) = owed wit_split [wit_view] (Some wit_filter)"
    using sent_simps(2) [of "[StartSending]" "map Send (owed wit_split [wit_view] (Some wit_filter))"] by simp
  moreover from receive_stream_complete [OF w(1,2,3) set_map_Send w(4)] obtain n where
    "sent (StartSending # map Send (owed wit_split [wit_view] (Some wit_filter))) = map item_result
      (receive_items wit_split (sys_fs s4) (Some wit_filter) n
        (get_views_iterator (sys_fs s4) (inv_storage (sys_inv s4)) (Some wit_filter)))" by blast
  ultimately show ?thesis by (intro exI conjI)
qed

theorem populated_zones_received_witness:
  "\<exists>s'. inventory_reach wit_split (new_system 1 wit_fs (Disk [''var''])) ([CallPopulate None,
      FetchViews (None, Some [wit_view], None), NotifyPopulated None, CallReceive (Some wit_filter) None, StartSending] @
      map Send (owed wit_split [wit_view] (Some wit_filter)) @ [CloseChannel]) s' \<and> inv_state (sys_inv s') = ReceivedZones"
proof -
  have "storage_ready (sys_fs (new_system 1 wit_fs (Disk [''var''])))
      (inv_storage (sys_inv (new_system 1 wit_fs (Disk [''var''])))) [wit_view]"
    using wit_storage_ready by (simp add: new_system_def new_zone_inventory_def Let_def)
  from populated_zones_received [OF reach_refl wit_quiet this wit_inventory_views] show ?thesis by blast
qed

theorem memory_inventory_settles_witness:
  "\<exists>s. inventory_reach wit_split (new_system 1 wit_fs (Memory None)) [CallPopulate None] s \<and>
    inv_state (sys_inv s) = Populating \<and> settles wit_split s"
proof -
  obtain s where s: "inventory_reach wit_split (new_system 1 wit_fs (Memory None)) [CallPopulate None] s"
    "inv_state (sys_inv s) = Populating" by (rule wit_begun)
  moreover have "in_memory (Memory None)" by (simp add: in_memory_def)
  from memory_inventory_settles [OF this s(1)] s(2) have "settles wit_split s"
    unfolding settles_def by simp
  ultimately show ?thesis by blast
qed

theorem populate_error_not_notified_witness:
  "\<exists>s s'. sys_tasks s = [Fetched (Some (FetchError ''refused'')) None] \<and>
    inventory_step wit_split s (NotifyPopulated None) (Some s') \<and> inv_state (sys_inv s') = PopulatingErred"
proof -
  let ?r = "(None, None, Some ''refused'') :: fetch_result"
  obtain s1 where s1: "inventory_reach wit_split (new_system 1 wit_fs (Memory None)) [CallPopulate None] s1"
    "sys_tasks s1 = [Fetching]" by (rule wit_begun)
  let ?s2 = "s1\<lparr>sys_fs := sys_fs s1, sys_inv := (sys_inv s1)\<lparr>inv_storage := inv_storage (sys_inv s1)\<rparr>,
      sys_tasks := [] @ Fetched (Some (FetchError ''refused'')) (fst (snd ?r)) # []\<rparr>"
  have "inventory_step wit_split s1 (FetchViews ?r) (Some ?s2)"
    by (rule fetch) (use s1(2) in \<open>simp_all add: populate_fetch_def\<close>)
  note r2 = reach_step [OF s1(1) this]
  have t2: "sys_tasks ?s2 = [Fetched (Some (FetchError ''refused'')) None]" by simp
  have v: "visited_ok (sys_inv ?s2)" using reach_ok [OF r2 new_system_ok] by (simp add: system_ok_def)
  have "\<not> is_long_lasting (new_zone_inventory_state 3 PopulatingErred zero_time (Some (FetchError ''refused'')))"
    by (simp add: long_lasting_iff)
  from transition_free [OF v disjI2 [OF this]] obtain zi where
    "populate_finish 3 (sys_inv ?s2) (Some (FetchError ''refused'')) None = Done (None, zi)"
    by (auto simp: populate_finish_def)
  from inventory_step.fetched [of ?s2 "[]" _ None "[]" 3 None zi wit_split, OF _ this]
  have st: "inventory_step wit_split ?s2 (NotifyPopulated None) (Some (?s2\<lparr>sys_inv := zi, sys_tasks := []\<rparr>))" by simp
  from populate_error_not_notified [OF r2 t2 st] t2 st show ?thesis by blast
qed

text \<open>A disk that was loaded, and whose directory can no longer be listed.\<close>

definition wit_bad_fs :: "content fs" where
  "wit_bad_fs = \<lparr>fs_nodes = [([''var''], Dir), ([''var'', ''zone-inventory.json''], File (json_of_meta 7))],
     fs_fault = (\<lambda>op p. if op = OpReadDir then Some (ErrOther ''EIO'') else None)\<rparr>"

lemma wit_bad_load: "storage_load_views wit_split wit_bad_fs (Disk [''var'']) = Done (Inr 7, Disk [''var''])"
  by code_simp

lemma wit_bad_count:
  "total_zone_count wit_bad_fs (get_views_iterator wit_bad_fs (Disk [''var'']) None) 0 = Inl (OsErr (ErrOther ''EIO''))"
  by code_simp

theorem receive_error_blocks_inventory_witness:
  "\<exists>s1. inventory_reach wit_split (new_system 1 wit_bad_fs (Disk [''var'']))
      [CallLoad None, ReadStorage, NotifyLoaded None, CallReceive None (Some (StorageError (OsErr (ErrOther ''EIO''))))] s1 \<and>
    inv_state (sys_inv s1) = ReceivingZones \<and> sys_tasks s1 = []"
proof -
  let ?s = "new_system 1 wit_bad_fs (Disk [''var''])"
  let ?new = "\<lambda>n t. new_zone_inventory_state 2 n t None"
  have v: "visited_ok (sys_inv ?s)" using new_system_ok [of 1 wit_bad_fs "Disk [''var'']"] by (simp add: system_ok_def)
  have s: "inv_storage (sys_inv ?s) = Disk [''var'']" "sys_tasks ?s = []" "sys_fs ?s = wit_bad_fs"
    by (simp_all add: new_system_def new_zone_inventory_def Let_def)
  obtain z1 where z1: "transition (sys_inv ?s) (?new Loading zero_time) = Done (None, z1)" "visited_ok z1"
    "inv_storage z1 = Disk [''var'']"
    using transition_free [OF v disjI1 [OF wit_quiet], of "?new Loading zero_time"] s by auto
  let ?s1 = "?s\<lparr>sys_inv := z1, sys_tasks := [Reading]\<rparr>"
  let ?s2 = "?s1\<lparr>sys_inv := z1\<lparr>inv_storage := Disk [''var'']\<rparr>, sys_tasks := [Readed (Inr 7)]\<rparr>"
  have "inventory_step wit_split ?s (CallLoad None) (Some ?s1)"
    using call_load [of 2 ?s None z1 wit_split] z1(1) s by (simp add: load_call_def)
  from reach_step [OF reach_refl this] have r1: "inventory_reach wit_split ?s [CallLoad None] ?s1" by simp
  have "inventory_step wit_split ?s1 ReadStorage (Some ?s2)"
    using inventory_step.read [of ?s1 "[]" "[]" wit_split "Inr 7" "Disk [''var'']"] wit_bad_load z1(3) s by simp
  from reach_step [OF r1 this] have r2: "inventory_reach wit_split ?s [CallLoad None, ReadStorage] ?s2" by simp
  have v2: "visited_ok (z1\<lparr>inv_storage := Disk [''var'']\<rparr>)" using z1(2) by simp
  have "\<not> is_long_lasting (?new Loaded 7)" by (simp add: long_lasting_iff)
  from transition_free [OF v2 disjI2 [OF this]] obtain z3 where
    z3: "transition (z1\<lparr>inv_storage := Disk [''var'']\<rparr>) (?new Loaded 7) = Done (None, z3)" "visited_ok z3"
      "inv_state z3 = Loaded" "inv_storage z3 = Disk [''var'']" by auto
  let ?s3 = "?s2\<lparr>sys_inv := z3, sys_tasks := []\<rparr>"
  have "inventory_step wit_split ?s2 (NotifyLoaded None) (Some ?s3)"
    using inventory_step.readed [of ?s2 "[]" "Inr 7" "[]" 2 None z3 wit_split] z3(1) by (simp add: load_finish_def)
  from reach_step [OF r2 this] have r3: "inventory_reach wit_split ?s [CallLoad None, ReadStorage, NotifyLoaded None] ?s3" by simp
  have cnt: "total_zone_count (sys_fs ?s3) (get_views_iterator (sys_fs ?s3) (inv_storage (sys_inv ?s3)) None) 0 =
      Inl (OsErr (ErrOther ''EIO''))"
    using wit_bad_count z3(4) s by simp
  from current_state [OF z3(2)] obtain cur where cur: "get_current_state z3 = Done cur" "st_name cur = Loaded"
    using z3(3) by metis
  from transition_free [OF z3(2), of "?new ReceivingZones zero_time"] z3(3,4) obtain z4 where
    z4: "transition z3 (?new ReceivingZones zero_time) = Done (None, z4)" "inv_storage z4 = Disk [''var'']" by auto
  have "receive_zones_call 2 (sys_fs ?s3) None (sys_inv ?s3) = Done (Inl (StorageError (OsErr (ErrOther ''EIO''))), z4)"
    using cur z4 wit_bad_count s by (simp add: receive_zones_call_def is_initial_def is_erred_def)
  from call_receive_error [OF this, of wit_split]
  have st: "inventory_step wit_split ?s3 (CallReceive None (Some (StorageError (OsErr (ErrOther ''EIO''))))) (Some (?s3\<lparr>sys_inv := z4\<rparr>))" .
  have "inv_state (sys_inv ?s3) \<in> {Loaded, Populated, ReceivedZones}" using z3(3) by simp
  from receive_error_blocks_inventory [OF r3 this cnt st reach_refl] reach_step [OF r3 st] show ?thesis by auto
qed

end
