(* ===== verification/Zone_Stream.thy ===== *)
theory Zone_Stream
  imports Zone_Inventory
begin

text \<open>
  How zones travel from an agent to the server: \<open>ReceiveZones\<close> of \<open>agent/agent.go\<close>, which
  serves the stream, and \<open>ReceiveZones\<close> of \<open>server/agentcomm/grpcli.go\<close>, which reads it.
  An instant is a number of nanoseconds since Go's zero time, and \<open>time.Unix\<close> counts seconds
  from 1970.  The gRPC transport is a parameter: what a client call and its \<open>Recv\<close> return.
\<close>

definition unix_offset :: int where
  "unix_offset = 62135596800"

definition time_unix :: "int \<Rightarrow> time" where
  "time_unix sec = (sec + unix_offset) * 1000000000"

definition unix_of_time :: "time \<Rightarrow> int" where
  "unix_of_time t = t div 1000000000 - unix_offset"

section \<open>The agent\<close>

record receive_zones_req =
  rq_control_address :: string
  rq_control_port :: int
  rq_view_name :: string
  rq_lower_bound :: string
  rq_limit :: int
  rq_loaded_after :: int

record api_zone =
  az_name :: string
  az_class :: string
  az_serial :: int
  az_type :: string
  az_loaded :: int
  az_view :: string
  az_total_zone_count :: int

datatype grpc_code = InvalidArgument | FailedPrecondition | Unavailable | Internal | Aborted

text \<open>A status of gRPC: its code and the reasons of its \<open>ErrorInfo\<close> details.\<close>

record grpc_status =
  gs_code :: grpc_code
  gs_reasons :: "string list"

text \<open>What \<open>GetApp\<close> finds: a DNS server with its inventory, which may be nil, or something else.\<close>

datatype agent_app = Bind9App "inventory option" | NsdApp "inventory option" | UnsupportedApp

definition filter_of_request :: "receive_zones_req \<Rightarrow> zone_filter option" where
  "filter_of_request req =
     (if rq_view_name req \<noteq> [] \<or> rq_limit req > 0 \<or> rq_loaded_after req > 0 \<or> rq_lower_bound req \<noteq> []
      then
        let f0 = new_zone_filter;
            f1 = (if rq_view_name req \<noteq> [] then set_view (rq_view_name req) f0 else f0);
            f2 = (if rq_lower_bound req \<noteq> [] \<and> rq_limit req > 0
                  then set_lower_bound (rq_lower_bound req) (rq_limit req) f1 else f1);
            f3 = (if rq_loaded_after req > 0 then set_loaded_after (time_unix (rq_loaded_after req)) f2 else f2)
        in Some f3
      else None)"

definition status_of_error :: "inventory_error \<Rightarrow> grpc_status" where
  "status_of_error err =
     (case err of
        NotInitedError \<Rightarrow> \<lparr>gs_code = FailedPrecondition, gs_reasons = [''ZONE_INVENTORY_NOT_INITED'']\<rparr>
      | BusyError _ _ \<Rightarrow> \<lparr>gs_code = Unavailable, gs_reasons = [''ZONE_INVENTORY_BUSY_ERROR'']\<rparr>
      | _ \<Rightarrow> \<lparr>gs_code = Internal, gs_reasons = []\<rparr>)"

definition api_zone_of :: "extended_zone \<Rightarrow> api_zone" where
  "api_zone_of ez =
     \<lparr>az_name = zone_name (ez_zone ez), az_class = zone_class (ez_zone ez), az_serial = zone_serial (ez_zone ez),
      az_type = zone_type (ez_zone ez), az_loaded = unix_of_time (zone_loaded (ez_zone ez)),
      az_view = ez_view_name ez, az_total_zone_count = ez_total_zone_count ez\<rparr>"

text \<open>
  The loop over the channel: \<open>send_fails\<close> tells which \<open>Send\<close> of the stream fails.  The
  results are: the messages sent, the status the call ends with (\<open>None\<close> is OK), and the
  results that are left in the channel when it stops reading.
\<close>

fun send_loop ::
    "(api_zone \<Rightarrow> bool) \<Rightarrow> (storage_error + extended_zone) list \<Rightarrow>
     api_zone list \<times> grpc_status option \<times> (storage_error + extended_zone) list" where
  "send_loop send_fails [] = ([], None, [])"
| "send_loop send_fails (Inl e # rs) = send_loop send_fails rs"
| "send_loop send_fails (Inr z # rs) =
     (let m = api_zone_of z in
      if send_fails m then ([], Some \<lparr>gs_code = Aborted, gs_reasons = []\<rparr>, rs)
      else (case send_loop send_fails rs of (ms, st, left) \<Rightarrow> (m # ms, st, left)))"

text \<open>
  \<open>ReceiveZones\<close>: \<open>served\<close> is what the inventory's \<open>receiveZones\<close> returns for a filter, the
  error or the results that arrive on the channel.
\<close>

definition agent_receive_zones ::
    "agent_app \<Rightarrow> (inventory \<Rightarrow> zone_filter option \<Rightarrow> inventory_error + (storage_error + extended_zone) list) \<Rightarrow>
     (api_zone \<Rightarrow> bool) \<Rightarrow> receive_zones_req \<Rightarrow>
     api_zone list \<times> grpc_status option \<times> (storage_error + extended_zone) list" where
  "agent_receive_zones app served send_fails req =
     (case (case app of Bind9App i \<Rightarrow> Inr i | NsdApp i \<Rightarrow> Inr i
            | UnsupportedApp \<Rightarrow> Inl \<lparr>gs_code = InvalidArgument, gs_reasons = []\<rparr>) of
        Inl st \<Rightarrow> ([], Some st, [])
      | Inr None \<Rightarrow> ([], Some \<lparr>gs_code = FailedPrecondition, gs_reasons = []\<rparr>, [])
      | Inr (Some zi) \<Rightarrow>
          (case served zi (filter_of_request req) of
             Inl err \<Rightarrow> ([], Some (status_of_error err), [])
           | Inr results \<Rightarrow> send_loop send_fails results))"

section \<open>The server\<close>

datatype receive_error =
    NoAccessPoint
  | NotConnected
  | AgentNotInited string
  | AgentBusy string
  | GrpcError grpc_status

text \<open>The request that is built from a filter: the view and the limit.\<close>

definition request_of_filter :: "string \<Rightarrow> int \<Rightarrow> zone_filter option \<Rightarrow> receive_zones_req" where
  "request_of_filter addr port filt =
     \<lparr>rq_control_address = addr, rq_control_port = port,
      rq_view_name = (case filt of None \<Rightarrow> [] | Some f \<Rightarrow> (case zf_view f of None \<Rightarrow> [] | Some v \<Rightarrow> v)),
      rq_lower_bound = [],
      rq_limit = (case filt of None \<Rightarrow> 0 | Some f \<Rightarrow> (case zf_limit f of None \<Rightarrow> 0 | Some n \<Rightarrow> n)),
      rq_loaded_after = 0\<rparr>"

text \<open>The error of the call is classified by the first \<open>ErrorInfo\<close> of its status.\<close>

definition classify_call_error :: "string \<Rightarrow> grpc_status \<Rightarrow> receive_error" where
  "classify_call_error agent st =
     (case gs_reasons st of
        [] \<Rightarrow> GrpcError st
      | reason # _ \<Rightarrow>
          if reason = ''ZONE_INVENTORY_NOT_INITED'' then AgentNotInited agent
          else if reason = ''ZONE_INVENTORY_BUSY'' then AgentBusy agent
          else GrpcError st)"

definition extended_zone_of_api :: "api_zone \<Rightarrow> extended_zone" where
  "extended_zone_of_api m =
     \<lparr>ez_zone = \<lparr>zone_name = az_name m, zone_class = az_class m, zone_serial = az_serial m,
        zone_type = az_type m, zone_loaded = time_unix (az_loaded m)\<rparr>,
      ez_view_name = az_view m, ez_total_zone_count = az_total_zone_count m\<rparr>"

text \<open>
  A stream of the client: the messages that \<open>Recv\<close> returns and the error after them, where
  \<open>None\<close> is the end of the stream.
\<close>

type_synonym client_stream = "api_zone list \<times> grpc_status option"

definition read_stream :: "client_stream \<Rightarrow> (receive_error + extended_zone) list" where
  "read_stream s =
     map (\<lambda>m. Inr (extended_zone_of_api m)) (fst s) @
     (case snd s of None \<Rightarrow> [] | Some st \<Rightarrow> [Inl (GrpcError st)])"

text \<open>
  \<open>ReceiveZones\<close> of the server, read to its end.  \<open>call\<close> is what \<open>createClient().ReceiveZones\<close>
  returns the first and the second time, \<open>reconnect\<close> what \<open>connect\<close> returns in between.
\<close>

definition server_receive_zones ::
    "(string \<times> int) option \<Rightarrow> string option \<Rightarrow>
     (nat \<Rightarrow> receive_zones_req \<Rightarrow> grpc_status + client_stream) \<Rightarrow> grpc_status option \<Rightarrow>
     zone_filter option \<Rightarrow> (receive_error + extended_zone) list" where
  "server_receive_zones access agent call reconnect filt =
     (case access of
        None \<Rightarrow> [Inl NoAccessPoint]
      | Some (addr, port) \<Rightarrow>
          (case agent of
             None \<Rightarrow> [Inl NotConnected]
           | Some agent_address \<Rightarrow>
               (let req = request_of_filter addr port filt;
                    attempt = (case call 0 req of
                       Inr s \<Rightarrow> Inr s
                     | Inl _ \<Rightarrow> (case reconnect of Some st \<Rightarrow> Inl st | None \<Rightarrow> call 1 req))
                in (case attempt of
                      Inl st \<Rightarrow> [Inl (classify_call_error agent_address st)]
                    | Inr s \<Rightarrow> read_stream s))))"

section \<open>Facts\<close>

definition seconds_only :: "extended_zone \<Rightarrow> extended_zone" where
  "seconds_only ez =
     ez\<lparr>ez_zone := (ez_zone ez)\<lparr>zone_loaded := zone_loaded (ez_zone ez) div 1000000000 * 1000000000\<rparr>\<rparr>"

lemma api_round_trip: "extended_zone_of_api (api_zone_of ez) = seconds_only ez"
  by (simp add: extended_zone_of_api_def api_zone_of_def seconds_only_def time_unix_def unix_of_time_def)

definition oks :: "('e + 'a) list \<Rightarrow> 'a list" where
  "oks rs = concat (map (case_sum (\<lambda>_. []) (\<lambda>x. [x])) rs)"

lemma oks_simps [simp]: "oks [] = []" "oks (Inl e # rs) = oks rs" "oks (Inr x # rs) = x # oks rs"
  "oks (map Inr xs) = xs" "oks (rs @ ss) = oks rs @ oks ss"
  by (simp_all add: oks_def comp_def)

lemma send_loop_ok:
  assumes "\<And>z. z \<in> set (oks rs) \<Longrightarrow> \<not> send_fails (api_zone_of z)"
  shows "send_loop send_fails rs = (map api_zone_of (oks rs), None, [])"
  using assms by (induction send_fails rs rule: send_loop.induct) (auto simp: Let_def)

lemma send_loop_fails:
  assumes "rs = ps @ Inr z # qs" "send_fails (api_zone_of z)" "\<And>y. y \<in> set (oks ps) \<Longrightarrow> \<not> send_fails (api_zone_of y)"
  shows "send_loop send_fails rs = (map api_zone_of (oks ps), Some \<lparr>gs_code = Aborted, gs_reasons = []\<rparr>, qs)"
  using assms(3) unfolding assms(1)
proof (induction ps)
  case (Cons p ps)
  then show ?case by (cases p) (auto simp: Let_def)
qed (simp add: Let_def assms(2))

section \<open>Properties\<close>

text \<open>
  C7: Zones reach the server unchanged.  Over a transport that delivers the messages, the
  server's iterator yields the zones the inventory sent for the request's filter, in order and
  with their view and total; load times are cut to seconds, and zones the agent could not read
  are left out.
\<close>

theorem zones_reach_server:
  assumes "app = Bind9App (Some zi) \<or> app = NsdApp (Some zi)"
    and "served zi (filter_of_request (request_of_filter addr port filt)) = Inr results"
    and "\<And>z. z \<in> set (oks results) \<Longrightarrow> \<not> send_fails (api_zone_of z)"
    and "agent_receive_zones app served send_fails (request_of_filter addr port filt) = (ms, st, left)"
    and "call 0 (request_of_filter addr port filt) = Inr (ms, st)"
  shows "server_receive_zones (Some (addr, port)) (Some agent) call reconnect filt =
    map (\<lambda>z. Inr (seconds_only z)) (oks results) \<and> left = []"
proof -
  have "(ms, st, left) = (map api_zone_of (oks results), None, [])"
    using assms(1,2,4) send_loop_ok [of results send_fails, OF assms(3)] by (auto simp: agent_receive_zones_def)
  then show ?thesis
    by (simp add: server_receive_zones_def assms(5) read_stream_def Let_def api_round_trip comp_def)
qed

text \<open>
  The server does not recognise that an agent's inventory is busy.  The agent reports it
  with the reason \<open>ZONE_INVENTORY_BUSY_ERROR\<close>, the server looks for \<open>ZONE_INVENTORY_BUSY\<close>: the
  status is passed on as an unclassified error, while the one for an inventory that is not
  initialised is recognised.
\<close>

theorem busy_reason_not_recognised:
  "classify_call_error agent (status_of_error (BusyError cur new)) = GrpcError (status_of_error (BusyError cur new)) \<and>
   classify_call_error agent (status_of_error NotInitedError) = AgentNotInited agent"
  by (simp add: classify_call_error_def status_of_error_def)

text \<open>
  A limit without a lower bound is ignored.  The server never sends a lower bound, so a
  filter with a limit, whatever it is, makes the agent send the same zones as no limit.
\<close>

theorem server_limit_ignored:
  assumes "zf_view f = None"
  shows "map (\<lambda>v. get_zone_iterator split v (filter_of_request (request_of_filter addr port (Some f)))) vs =
    map (\<lambda>v. get_zone_iterator split v None) vs"
proof -
  have no: "filter_of_request (request_of_filter addr port (Some f)) \<in> {None, Some new_zone_filter}"
    using assms by (simp add: filter_of_request_def request_of_filter_def)
  have "get_zone_iterator split v (Some new_zone_filter) = get_zone_iterator split v None" for v
    unfolding get_zone_iterator_def apply_zone_lower_bound_filter_def
    by (simp add: iterate_zones_None iterate_zones_Some_0 new_zone_filter_def loaded_after_def)
  with no show ?thesis by auto
qed

text \<open>
  A receiver that goes away blocks the agent's inventory.  When a \<open>Send\<close> fails,
  \<open>ReceiveZones\<close> returns with the results after it unread; its context is never cancelled, so
  the goroutine that feeds the channel keeps them: with an unread result the channel is not
  closed, and the inventory stays in \<open>RECEIVING_ZONES\<close> whatever is called.
\<close>

theorem lost_receiver_blocks_inventory:
  assumes "inventory_reach split (new_system now fs st) es0 s" "sys_tasks s = [Sending rest]"
    and "map item_result rest = ps @ Inr z # qs" "qs \<noteq> []"
    and "send_fails (api_zone_of z)" "\<And>y. y \<in> set (oks ps) \<Longrightarrow> \<not> send_fails (api_zone_of y)"
    and "inventory_reach split s es s'" "ContextDone \<notin> set es" "CloseChannel \<notin> set es"
    and "length (sent es) = length (ps @ [Inr z])"
  shows "snd (snd (send_loop send_fails (map item_result rest))) = qs \<and>
    inv_state (sys_inv s') = ReceivingZones \<and> \<not> (\<exists>s''. inventory_step split s' CloseChannel (Some s''))"
proof -
  have ok: "system_ok s" using reach_ok [OF assms(1) new_system_ok] .
  from serving_reach [OF assms(7) ok assms(2) _ assms(9,8)] obtain t' where
    t': "sys_tasks s' = [t']" "task_state t' = ReceivingZones"
      "sent es @ pending split (sys_fs s) (inv_storage (sys_inv s)) t' = map item_result rest"
    by (auto simp: pending_def)
  have "system_ok s'" using reach_ok [OF assms(7) ok] .
  then have st: "inv_state (sys_inv s') = ReceivingZones" using t' by (auto simp: system_ok_def)
  have "pending split (sys_fs s) (inv_storage (sys_inv s)) t' = qs"
  proof -
    have "sent es @ pending split (sys_fs s) (inv_storage (sys_inv s)) t' = (ps @ [Inr z]) @ qs"
      using t'(3) assms(3) by simp
    then show ?thesis using assms(10) append_eq_append_conv by blast
  qed
  with assms(4) have "t' \<noteq> Sending []" by (auto simp: pending_def)
  then have "\<not> (\<exists>s''. inventory_step split s' CloseChannel (Some s''))"
    using t'(1) by (auto elim!: inventory_stepE simp: append_eq_Cons_conv)
  with st send_loop_fails [of "map item_result rest" ps z qs send_fails, OF assms(3,5,6)] show ?thesis by simp
qed

section \<open>Witnesses\<close>

definition wit_request :: receive_zones_req where
  "wit_request = request_of_filter ''::1'' 953 None"

theorem zones_reach_server_witness:
  "server_receive_zones (Some (''::1'', 953)) (Some ''agent'')
     (\<lambda>_ _. Inr ([api_zone_of \<lparr>ez_zone = wit_zone ''a.com'' 1500000000, ez_view_name = ''v'', ez_total_zone_count = 1\<rparr>], None))
     None None =
   [Inr \<lparr>ez_zone = wit_zone ''a.com'' 1000000000, ez_view_name = ''v'', ez_total_zone_count = 1\<rparr>]"
proof -
  let ?z = "\<lparr>ez_zone = wit_zone ''a.com'' 1500000000, ez_view_name = ''v'', ez_total_zone_count = 1\<rparr>"
  let ?served = "\<lambda>_ _. Inr [Inl BadJson, Inr ?z]"
  let ?zi = "new_zone_inventory 1 (Memory None)"
  have "agent_receive_zones (Bind9App (Some ?zi)) ?served (\<lambda>_. False) (request_of_filter ''::1'' 953 None) =
      ([api_zone_of ?z], None, [])"
    by (simp add: agent_receive_zones_def Let_def)
  from zones_reach_server [OF disjI1 [OF refl], of ?served ?zi "''::1''" 953 None "[Inl BadJson, Inr ?z]" "\<lambda>_. False",
      OF _ _ this, of "\<lambda>_ _. Inr ([api_zone_of ?z], None)" "''agent''" None]
  show ?thesis by (simp add: seconds_only_def wit_zone_def)
qed

theorem server_limit_ignored_witness:
  "map (\<lambda>v. get_zone_iterator wit_split v (filter_of_request (request_of_filter ''::1'' 953
       (Some (set_offset_limit 0 1 new_zone_filter))))) [wit_view] =
   [view_zones wit_view]"
proof -
  have "zf_view (set_offset_limit 0 1 new_zone_filter) = None" by code_simp
  from server_limit_ignored [OF this, of wit_split "''::1''" 953 "[wit_view]"] show ?thesis
    by (simp add: get_zone_iterator_def apply_zone_lower_bound_filter_def iterate_zones_None)
qed

lemma reach_split:
  "inventory_reach split s (es @ fs) s' \<Longrightarrow> \<exists>t. inventory_reach split s es t \<and> inventory_reach split t fs s'"
proof (induction fs arbitrary: s' rule: rev_induct)
  case (snoc e fs)
  then obtain t where t: "inventory_reach split s (es @ fs) t" "inventory_step split t e (Some s')"
    by (metis append_assoc append_is_Nil_conv inventory_reach.cases not_Cons_self2 snoc_eq_iff_butlast)
  from snoc.IH [OF t(1)] reach_step t(2) show ?case by metis
qed (use reach_refl in auto)

inductive_cases reach_NilE: "inventory_reach split s [] s'"

lemma reach_single:
  assumes "inventory_reach split s [e] s'"
  shows "inventory_step split s e (Some s')"
  using assms
proof (cases rule: inventory_reach.cases)
  case (reach_step es t a)
  then have "es = []" "a = e" by auto
  then show ?thesis using reach_step(2,3) by (auto elim: reach_NilE)
qed

theorem lost_receiver_blocks_inventory_witness:
  "\<exists>s. inv_state (sys_inv s) = ReceivingZones \<and> \<not> (\<exists>s'. inventory_step wit_split s CloseChannel (Some s'))"
proof -
  let ?a = "\<lparr>ez_zone = wit_zone ''a.com'' 7, ez_view_name = ''_default'', ez_total_zone_count = 4\<rparr>"
  let ?b = "\<lparr>ez_zone = wit_zone ''b.com'' 9, ez_view_name = ''_default'', ez_total_zone_count = 4\<rparr>"
  let ?fails = "\<lambda>m. az_name m = ''a.com''"
  have owed: "owed wit_split [wit_view] (Some wit_filter) = [Inr ?a, Inr ?b]" by code_simp
  obtain s3 s4 s6 s7 where w: "inventory_reach wit_split (new_system 1 wit_fs (Disk [''var'']))
      [CallPopulate None, FetchViews (None, Some [wit_view], None), NotifyPopulated None] s3"
    "inventory_step wit_split s3 (CallReceive (Some wit_filter) None) (Some s4)"
    "inventory_reach wit_split s4 (StartSending # map Send (owed wit_split [wit_view] (Some wit_filter))) s6"
    "inventory_step wit_split s6 CloseChannel (Some s7)" by (rule wit_session)
  from w(3) owed have "inventory_reach wit_split s4 ([StartSending] @ [Send (Inr ?a)] @ [Send (Inr ?b)]) s6" by simp
  from reach_split [OF this] obtain s5 where s5: "inventory_reach wit_split s4 [StartSending] s5"
    "inventory_reach wit_split s5 ([Send (Inr ?a)] @ [Send (Inr ?b)]) s6" by blast
  from reach_split [OF s5(2)] obtain s' where s': "inventory_reach wit_split s5 [Send (Inr ?a)] s'" by blast
  note r4 = reach_step [OF w(1,2)]
  note r5 = reach_append [OF r4 s5(1)]
  have ok5: "system_ok s5" using reach_ok [OF r5 new_system_ok] .
  have "inventory_step wit_split s4 StartSending (Some s5)"
    using s5(1) by (rule reach_single)
  then obtain ts items us where "sys_tasks s5 = ts @ Sending items # us"
    by (auto elim!: inventory_stepE)
  with only_task [OF ok5 this] have t5: "sys_tasks s5 = [Sending items]" by simp
  have "sent ([Send (Inr ?a)] @ [Send (Inr ?b)]) = map item_result items"
  proof -
    have no: "CloseChannel \<notin> set ([Send (Inr ?a)] @ [Send (Inr ?b)])" "ContextDone \<notin> set ([Send (Inr ?a)] @ [Send (Inr ?b)])"
      by auto
    from serving_reach [OF s5(2) ok5 t5 _ no] obtain t' where
      t': "sys_tasks s6 = [t']" "sent ([Send (Inr ?a)] @ [Send (Inr ?b)]) @
        pending wit_split (sys_fs s5) (inv_storage (sys_inv s5)) t' = map item_result items" by (auto simp: pending_def)
    from w(4) obtain ts us where "sys_tasks s6 = ts @ Sending [] # us" by (cases rule: inventory_stepE) auto
    with t'(1) have "t' = Sending []" by (auto simp: append_eq_Cons_conv)
    with t'(2) show ?thesis by (simp add: pending_def)
  qed
  then have items: "map item_result items = [] @ Inr ?a # [Inr ?b]" by (simp add: sent_def)
  have "inv_state (sys_inv s') = ReceivingZones \<and> \<not> (\<exists>s''. inventory_step wit_split s' CloseChannel (Some s''))"
    by (rule lost_receiver_blocks_inventory [OF r5 t5 items, of ?fails, OF _ _ _ s'(1), THEN conjunct2])
      (simp_all add: api_zone_of_def wit_zone_def)
  then show ?thesis by blast
qed

end
