(* ===== verification/Dns_Manager.thy ===== *)
theory Dns_Manager
  imports Zone_Stream
begin

text \<open>
  The server's DNS manager: \<open>server/dnsop/manager.go\<close> with the batches of
  \<open>database/model/batch.go\<close> and the state details of \<open>zoneinventorystate.go\<close>.  The database
  is a parameter: \<open>ins\<close> inserts a list of items (\<open>AddZones\<close>) and \<open>add_state\<close> a state of an
  inventory, both returning an error or none and the new database.  What \<open>ReceiveZones\<close> of the
  server yields for an app is given as a list.
\<close>

section \<open>Batches\<close>

record 'a batch =
  bt_items :: "'a list"
  bt_limit :: int

type_synonym ('d, 'a) insertion = "'d \<Rightarrow> 'a list \<Rightarrow> string option \<times> 'd"

definition new_batch :: "int \<Rightarrow> 'a batch" where
  "new_batch limit = \<lparr>bt_items = [], bt_limit = limit\<rparr>"

definition batch_add :: "('d, 'a) insertion \<Rightarrow> 'd \<Rightarrow> 'a batch \<Rightarrow> 'a \<Rightarrow> string option \<times> 'd \<times> 'a batch" where
  "batch_add ins d b item =
     (let b1 = b\<lparr>bt_items := bt_items b @ [item]\<rparr> in
      if int (length (bt_items b1)) \<ge> bt_limit b1 \<and> length (bt_items b1) > 0
      then (case ins d (bt_items b1) of
              (Some e, d') \<Rightarrow> (Some e, d', b1)
            | (None, d') \<Rightarrow> (None, d', b1\<lparr>bt_items := []\<rparr>))
      else (None, d, b1))"

definition batch_flush :: "('d, 'a) insertion \<Rightarrow> 'd \<Rightarrow> 'a batch \<Rightarrow> string option \<times> 'd \<times> 'a batch" where
  "batch_flush ins d b =
     (if length (bt_items b) > 0
      then (case ins d (bt_items b) of
              (Some e, d') \<Rightarrow> (Some e, d', b)
            | (None, d') \<Rightarrow> (None, d', b\<lparr>bt_items := []\<rparr>))
      else (None, d, b))"

definition batch_flush_and_add ::
    "('d, 'a) insertion \<Rightarrow> 'd \<Rightarrow> 'a batch \<Rightarrow> 'a \<Rightarrow> string option \<times> 'd \<times> 'a batch" where
  "batch_flush_and_add ins d b item =
     (case batch_flush ins d b of
        (Some e, d', b') \<Rightarrow> (Some e, d', b')
      | (None, d', b') \<Rightarrow> batch_add ins d' b' item)"

section \<open>State details\<close>

datatype zone_inventory_status = StatusBusy | StatusErred | StatusOK | StatusUninitialized

record state_details =
  sd_status :: zone_inventory_status
  sd_error :: "string option"
  sd_zone_count :: "int option"

definition new_state_details :: state_details where
  "new_state_details = \<lparr>sd_status = StatusOK, sd_error = None, sd_zone_count = None\<rparr>"

definition set_status :: "zone_inventory_status \<Rightarrow> string option \<Rightarrow> state_details \<Rightarrow> state_details" where
  "set_status st err s = s\<lparr>sd_status := st, sd_error := err\<rparr>"

definition set_total_zones :: "int \<Rightarrow> state_details \<Rightarrow> state_details" where
  "set_total_zones n s = s\<lparr>sd_zone_count := Some n\<rparr>"

section \<open>Fetching the zones of one app\<close>

text \<open>A zone of the database with its one local zone.\<close>

record db_zone =
  dz_name :: string
  dz_daemon_id :: int
  dz_view :: string
  dz_class :: string
  dz_serial :: int
  dz_type :: string
  dz_loaded_at :: time

definition db_zone_of :: "int \<Rightarrow> extended_zone \<Rightarrow> db_zone" where
  "db_zone_of daemon ez =
     \<lparr>dz_name = zone_name (ez_zone ez), dz_daemon_id = daemon, dz_view = ez_view_name ez,
      dz_class = zone_class (ez_zone ez), dz_serial = zone_serial (ez_zone ez),
      dz_type = zone_type (ez_zone ez), dz_loaded_at = zone_loaded (ez_zone ez)\<rparr>"

definition status_of_receive_error :: "receive_error \<Rightarrow> zone_inventory_status" where
  "status_of_receive_error e =
     (case e of AgentBusy _ \<Rightarrow> StatusBusy | AgentNotInited _ \<Rightarrow> StatusUninitialized | _ \<Rightarrow> StatusErred)"

text \<open>
  The loop over what the agent sends.  \<open>view\<close> is the view of the zone before; \<open>msg\<close> is
  the error's msg.
\<close>

fun fetch_loop ::
    "('d, db_zone) insertion \<Rightarrow> (receive_error \<Rightarrow> string) \<Rightarrow> int \<Rightarrow> string \<Rightarrow> 'd \<Rightarrow> db_zone batch \<Rightarrow> state_details \<Rightarrow>
     (receive_error + extended_zone) list \<Rightarrow> 'd \<times> db_zone batch \<times> state_details" where
  "fetch_loop ins msg daemon view d b st [] = (d, b, st)"
| "fetch_loop ins msg daemon view d b st (Inl err # rs) =
     (d, b, set_status (status_of_receive_error err) (Some (msg err)) st)"
| "fetch_loop ins msg daemon view d b st (Inr z # rs) =
     (let item = db_zone_of daemon z;
          st1 = set_total_zones (ez_total_zone_count z) st
      in case (if view \<noteq> ez_view_name z then batch_flush_and_add ins d b item else batch_add ins d b item) of
           (Some e, d', b') \<Rightarrow> (d', b', set_status StatusErred (Some e) st1)
         | (None, d', b') \<Rightarrow> fetch_loop ins msg daemon (ez_view_name z) d' b' st1 rs)"

text \<open>An app: the IDs of its daemons and what is received from its agent.\<close>

record dns_app =
  da_daemons :: "int list"
  da_received :: "(receive_error + extended_zone) list"

text \<open>One round of a worker; \<open>app.Daemons[0]\<close> of an app without daemons panics.\<close>

definition fetch_app ::
    "('d, db_zone) insertion \<Rightarrow> ('d \<Rightarrow> int \<Rightarrow> state_details \<Rightarrow> string option \<times> 'd) \<Rightarrow> (receive_error \<Rightarrow> string) \<Rightarrow>
     int \<Rightarrow> 'd \<Rightarrow> state_details \<Rightarrow> dns_app \<Rightarrow> ('d \<times> state_details \<times> int) run" where
  "fetch_app ins add_state msg batch_size d st app =
     (case da_daemons app of
        [] \<Rightarrow> Panic
      | daemon # _ \<Rightarrow>
          (case fetch_loop ins msg daemon [] d (new_batch batch_size) st (da_received app) of
             (d1, b1, st1) \<Rightarrow>
               (let (d2, st2) =
                      (if sd_error st1 = None
                       then (case batch_flush ins d1 b1 of
                               (Some e, d', _) \<Rightarrow> (d', set_status StatusErred (Some e) st1)
                             | (None, d', _) \<Rightarrow> (d', st1))
                       else (d1, st1))
                in case add_state d2 daemon st2 of
                     (Some e, d3) \<Rightarrow> Done (d3, set_status StatusErred (Some e) st2, daemon)
                   | (None, d3) \<Rightarrow> Done (d3, st2, daemon))))"

text \<open>
  A worker takes apps from the channel until it is closed.  All its apps share one state
  object, created before the loop; the map of results refers to that object, so what it
  holds in the end is the result of each.
\<close>

fun worker_loop ::
    "('d, db_zone) insertion \<Rightarrow> ('d \<Rightarrow> int \<Rightarrow> state_details \<Rightarrow> string option \<times> 'd) \<Rightarrow> (receive_error \<Rightarrow> string) \<Rightarrow>
     int \<Rightarrow> 'd \<Rightarrow> state_details \<Rightarrow> dns_app list \<Rightarrow> ('d \<times> state_details \<times> int list) run" where
  "worker_loop ins add_state msg batch_size d st [] = Done (d, st, [])"
| "worker_loop ins add_state msg batch_size d st (app # apps) =
     bind_run (fetch_app ins add_state msg batch_size d st app) (\<lambda>(d', st', daemon).
       bind_run (worker_loop ins add_state msg batch_size d' st' apps) (\<lambda>(d'', st'', daemons).
         Done (d'', st'', daemon # daemons)))"

definition run_worker ::
    "('d, db_zone) insertion \<Rightarrow> ('d \<Rightarrow> int \<Rightarrow> state_details \<Rightarrow> string option \<times> 'd) \<Rightarrow> (receive_error \<Rightarrow> string) \<Rightarrow>
     int \<Rightarrow> 'd \<Rightarrow> dns_app list \<Rightarrow> ('d \<times> (int \<times> state_details) list) run" where
  "run_worker ins add_state msg batch_size d apps =
     bind_run (worker_loop ins add_state msg batch_size d new_state_details apps) (\<lambda>(d', st, daemons).
       Done (d', map (\<lambda>daemon. (daemon, st)) daemons))"

section \<open>The state of fetching\<close>

record fetching_state =
  fs_fetching :: bool
  fs_completed_apps_count :: int
  fs_apps_count :: int

definition start_fetching :: "fetching_state \<Rightarrow> bool \<times> fetching_state" where
  "start_fetching s =
     (if fs_fetching s then (False, s)
      else (True, s\<lparr>fs_fetching := True, fs_apps_count := 0, fs_completed_apps_count := 0\<rparr>))"

definition stop_fetching :: "fetching_state \<Rightarrow> fetching_state" where
  "stop_fetching s = s\<lparr>fs_fetching := False\<rparr>"

definition get_fetch_zones_progress :: "fetching_state \<Rightarrow> bool \<times> int \<times> int" where
  "get_fetch_zones_progress s = (fs_fetching s, fs_apps_count s, fs_completed_apps_count s)"

definition set_apps_count :: "int \<Rightarrow> fetching_state \<Rightarrow> fetching_state" where
  "set_apps_count n s = s\<lparr>fs_apps_count := n\<rparr>"

definition increase_completed_apps_count :: "fetching_state \<Rightarrow> fetching_state" where
  "increase_completed_apps_count s = s\<lparr>fs_completed_apps_count := fs_completed_apps_count s + 1\<rparr>"

text \<open>
  The runs of \<open>FetchZones\<close> that are under way, with the apps each still has to fetch, and the
  steps they make on the shared state: a call (refused or not), reading the apps from the
  database, completing one app, and the end.
\<close>

datatype fetch_run = ReadingApps | Fetching_Apps nat

inductive fetch_step :: "fetching_state \<times> fetch_run list \<Rightarrow> fetching_state \<times> fetch_run list \<Rightarrow> bool" where
  fetch_started: "start_fetching s = (True, s') \<Longrightarrow> fetch_step (s, rs) (s', rs @ [ReadingApps])"
| fetch_refused: "start_fetching s = (False, s') \<Longrightarrow> fetch_step (s, rs) (s', rs)"
| apps_error: "fetch_step (s, rs @ ReadingApps # qs) (stop_fetching s, rs @ qs)"
| apps_read: "fetch_step (s, rs @ ReadingApps # qs) (set_apps_count (int n) s, rs @ Fetching_Apps n # qs)"
| app_completed: "fetch_step (s, rs @ Fetching_Apps (Suc n) # qs)
    (increase_completed_apps_count s, rs @ Fetching_Apps n # qs)"
| fetch_finished: "fetch_step (s, rs @ Fetching_Apps 0 # qs) (stop_fetching s, rs @ qs)"

inductive fetch_reach :: "fetching_state \<times> fetch_run list \<Rightarrow> bool" where
  fetch_init: "fetch_reach (\<lparr>fs_fetching = False, fs_completed_apps_count = 0, fs_apps_count = 0\<rparr>, [])"
| fetch_next: "fetch_reach x \<Longrightarrow> fetch_step x y \<Longrightarrow> fetch_reach y"

inductive_cases fetch_stepE: "fetch_step (s, rs) y"

section \<open>What is inserted\<close>

text \<open>The database after some successful insertions.\<close>

definition insert_all :: "('d, 'a) insertion \<Rightarrow> 'a list list \<Rightarrow> 'd \<Rightarrow> 'd" where
  "insert_all ins bs d = fold (\<lambda>b d. snd (ins d b)) bs d"

lemma insert_all_simps [simp]: "insert_all ins [] d = d"
  "insert_all ins (b # bs) d = insert_all ins bs (snd (ins d b))"
  by (simp_all add: insert_all_def)

definition never_fails :: "('d, 'a) insertion \<Rightarrow> bool" where
  "never_fails ins \<longleftrightarrow> (\<forall>d xs. fst (ins d xs) = None)"

lemma never_failsD: "never_fails ins \<Longrightarrow> ins d xs = (None, snd (ins d xs))"
  by (metis never_fails_def prod.collapse)

text \<open>A batch insertion of the manager: not empty, within the limit, of one view.\<close>

definition good_batch :: "int \<Rightarrow> db_zone list \<Rightarrow> bool" where
  "good_batch limit b \<longleftrightarrow> b \<noteq> [] \<and> int (length b) \<le> max 1 limit \<and> (\<forall>x \<in> set b. dz_view x = dz_view (hd b))"

text \<open>What a batch may hold between two zones: less than the limit, of the last view.\<close>

definition batch_inv :: "string \<Rightarrow> db_zone batch \<Rightarrow> bool" where
  "batch_inv view b \<longleftrightarrow> (\<forall>x \<in> set (bt_items b). dz_view x = view) \<and>
     (bt_items b \<noteq> [] \<longrightarrow> int (length (bt_items b)) < bt_limit b)"

lemma batch_add_ok:
  assumes "never_fails ins" "batch_inv view b" "dz_view x = view"
  shows "\<exists>b' bs. batch_add ins d b x = (None, insert_all ins bs d, b') \<and> batch_inv view b' \<and> bt_limit b' = bt_limit b \<and>
    (\<forall>c \<in> set bs. good_batch (bt_limit b) c) \<and> bt_items b @ [x] = concat bs @ bt_items b'"
proof (cases "int (length (bt_items b @ [x])) \<ge> bt_limit b")
  case True
  let ?items = "bt_items b @ [x]"
  have "dz_view y = dz_view (hd ?items)" if "y \<in> set ?items" for y
    using assms(2,3) that by (cases "bt_items b") (auto simp: batch_inv_def)
  moreover have "int (length ?items) \<le> max 1 (bt_limit b)"
    using assms(2) by (cases "bt_items b = []") (auto simp: batch_inv_def)
  ultimately have "good_batch (bt_limit b) ?items" by (simp add: good_batch_def)
  moreover obtain d' where "ins d ?items = (None, d')" using never_failsD [OF assms(1)] by blast
  ultimately show ?thesis
    using True by (intro exI [of _ "b\<lparr>bt_items := []\<rparr>"] exI [of _ "[?items]"])
      (simp add: batch_add_def Let_def batch_inv_def)
next
  case False
  with assms(2,3) show ?thesis
    by (intro exI [of _ "b\<lparr>bt_items := bt_items b @ [x]\<rparr>"] exI [of _ "[]"])
      (auto simp: batch_add_def Let_def batch_inv_def)
qed

lemma batch_flush_ok:
  assumes "never_fails ins" "batch_inv view b"
  shows "\<exists>b' bs. batch_flush ins d b = (None, insert_all ins bs d, b') \<and> bt_items b' = [] \<and> bt_limit b' = bt_limit b \<and>
    (\<forall>c \<in> set bs. good_batch (bt_limit b) c) \<and> bt_items b = concat bs"
proof (cases "bt_items b = []")
  case True
  then show ?thesis by (intro exI [of _ b] exI [of _ "[]"]) (simp add: batch_flush_def)
next
  case False
  have "dz_view (hd (bt_items b)) = view" using assms(2) False by (simp add: batch_inv_def)
  with assms(2) False have "good_batch (bt_limit b) (bt_items b)" by (auto simp: good_batch_def batch_inv_def)
  moreover obtain d' where "ins d (bt_items b) = (None, d')" using never_failsD [OF assms(1)] by blast
  ultimately show ?thesis
    using False by (intro exI [of _ "b\<lparr>bt_items := []\<rparr>"] exI [of _ "[bt_items b]"])
      (simp add: batch_flush_def)
qed

lemma insert_all_append: "insert_all ins (bs @ cs) d = insert_all ins cs (insert_all ins bs d)"
  by (simp add: insert_all_def)

lemma batch_flush_and_add_ok:
  assumes "never_fails ins" "batch_inv view b"
  shows "\<exists>b' bs. batch_flush_and_add ins d b x = (None, insert_all ins bs d, b') \<and> batch_inv (dz_view x) b' \<and>
    bt_limit b' = bt_limit b \<and> (\<forall>c \<in> set bs. good_batch (bt_limit b) c) \<and> bt_items b @ [x] = concat bs @ bt_items b'"
proof -
  from batch_flush_ok [OF assms, of d] obtain b1 bs where
    f: "batch_flush ins d b = (None, insert_all ins bs d, b1)" "bt_items b1 = []" "bt_limit b1 = bt_limit b"
      "\<forall>c \<in> set bs. good_batch (bt_limit b) c" "bt_items b = concat bs" by blast
  have "batch_inv (dz_view x) b1" using f(2) by (simp add: batch_inv_def)
  from batch_add_ok [OF assms(1) this refl, of "insert_all ins bs d"] obtain b2 cs where
    a: "batch_add ins (insert_all ins bs d) b1 x = (None, insert_all ins cs (insert_all ins bs d), b2)"
      "batch_inv (dz_view x) b2" "bt_limit b2 = bt_limit b1" "\<forall>c \<in> set cs. good_batch (bt_limit b1) c"
      "bt_items b1 @ [x] = concat cs @ bt_items b2" by blast
  show ?thesis
    using f a by (intro exI [of _ b2] exI [of _ "bs @ cs"])
      (auto simp: batch_flush_and_add_def insert_all_append)
qed

lemma fetch_loop_ok:
  assumes "never_fails ins" "batch_inv view b"
  shows "\<exists>b' bs st' view'. fetch_loop ins msg daemon view d b st (map Inr zs) = (insert_all ins bs d, b', st') \<and>
    batch_inv view' b' \<and> bt_limit b' = bt_limit b \<and> sd_error st' = sd_error st \<and> sd_status st' = sd_status st \<and>
    (\<forall>c \<in> set bs. good_batch (bt_limit b) c) \<and>
    bt_items b @ map (db_zone_of daemon) zs = concat bs @ bt_items b' \<and>
    sd_zone_count st' = (if zs = [] then sd_zone_count st else Some (ez_total_zone_count (last zs)))"
  using assms(2)
proof (induction zs arbitrary: view d b st)
  case Nil
  then show ?case by (intro exI [of _ b] exI [of _ "[]"] exI [of _ st] exI [of _ view]) simp
next
  case (Cons z zs)
  let ?x = "db_zone_of daemon z"
  let ?st = "set_total_zones (ez_total_zone_count z) st"
  have vx: "dz_view ?x = ez_view_name z" by (simp add: db_zone_of_def)
  have "\<exists>b' bs. (if view \<noteq> ez_view_name z then batch_flush_and_add ins d b ?x else batch_add ins d b ?x) =
      (None, insert_all ins bs d, b') \<and> batch_inv (ez_view_name z) b' \<and> bt_limit b' = bt_limit b \<and>
      (\<forall>c \<in> set bs. good_batch (bt_limit b) c) \<and> bt_items b @ [?x] = concat bs @ bt_items b'"
    using batch_flush_and_add_ok [OF assms(1) Cons.prems, of d ?x] batch_add_ok [OF assms(1) Cons.prems, of ?x d]
    unfolding vx by (cases "view = ez_view_name z") auto
  then obtain b1 bs where a: "(if view \<noteq> ez_view_name z then batch_flush_and_add ins d b ?x else batch_add ins d b ?x) =
      (None, insert_all ins bs d, b1)" "batch_inv (ez_view_name z) b1" "bt_limit b1 = bt_limit b"
      "\<forall>c \<in> set bs. good_batch (bt_limit b) c" "bt_items b @ [?x] = concat bs @ bt_items b1" by blast
  from Cons.IH [OF a(2), of "insert_all ins bs d" ?st] obtain b2 cs st2 view2 where
    r: "fetch_loop ins msg daemon (ez_view_name z) (insert_all ins bs d) b1 ?st (map Inr zs) =
        (insert_all ins cs (insert_all ins bs d), b2, st2)" "batch_inv view2 b2" "bt_limit b2 = bt_limit b1"
      "sd_error st2 = sd_error ?st" "sd_status st2 = sd_status ?st" "\<forall>c \<in> set cs. good_batch (bt_limit b1) c"
      "bt_items b1 @ map (db_zone_of daemon) zs = concat cs @ bt_items b2"
      "sd_zone_count st2 = (if zs = [] then sd_zone_count ?st else Some (ez_total_zone_count (last zs)))"
    by blast
  have "bt_items b @ map (db_zone_of daemon) (z # zs) = concat (bs @ cs) @ bt_items b2"
    using a(5) r(7) by (metis (no_types, lifting) append.assoc append_Cons append_Nil concat_append list.simps(9))
  then show ?case
    using a(1,3,4) r(1-6,8)
    by (intro exI [of _ b2] exI [of _ "bs @ cs"] exI [of _ st2] exI [of _ view2])
      (auto simp: insert_all_append set_total_zones_def)
qed

section \<open>Properties\<close>


text \<open>
  C9: A failing app spoils the others of its worker.  The state object is shared by the apps
  that one worker fetches: after an app whose stream broke, a following app whose zones all
  arrive, but fit into one batch, has none of them stored, and it is recorded with the error
  of the other app.
\<close>

theorem worker_error_spreads:
  assumes "da_daemons bad = n1 # ns1" "da_received bad = [Inl err]"
    and "da_daemons good = n2 # ns2" "da_received good = map Inr zs"
    and "\<forall>z \<in> set zs. ez_view_name z = view" "int (length zs) < batch_size"
    and "\<And>d n st. fst (add_state d n st) = None"
  shows "\<exists>st d1. run_worker ins add_state msg batch_size d [bad, good] =
      Done (snd (add_state d1 n2 st), [(n1, st), (n2, st)]) \<and>
    d1 = snd (add_state d n1 (set_status (status_of_receive_error err) (Some (msg err)) new_state_details)) \<and>
    sd_status st = status_of_receive_error err \<and> sd_error st = Some (msg err)"
proof -
  let ?st1 = "set_status (status_of_receive_error err) (Some (msg err)) new_state_details"
  have add: "add_state d' n s = (None, snd (add_state d' n s))" for d' n s
    using assms(7) by (metis prod.collapse)
  have loop: "\<exists>b' st'. fetch_loop ins msg daemon v d' b st (map Inr zs) = (d', b', st') \<and>
      sd_error st' = sd_error st \<and> sd_status st' = sd_status st"
    if "\<forall>z \<in> set zs. ez_view_name z = view" "int (length (bt_items b) + length zs) < bt_limit b"
      "v = view \<or> bt_items b = []" for zs v d' b st daemon
    using that
  proof (induction zs arbitrary: v b st)
    case (Cons z zs)
    let ?b = "b\<lparr>bt_items := bt_items b @ [db_zone_of daemon z]\<rparr>"
    have "(if v \<noteq> ez_view_name z then batch_flush_and_add ins d' b (db_zone_of daemon z)
        else batch_add ins d' b (db_zone_of daemon z)) = (None, d', ?b)"
      using Cons.prems by (auto simp: batch_flush_and_add_def batch_flush_def batch_add_def Let_def)
    moreover from Cons.IH [of ?b view "set_total_zones (ez_total_zone_count z) st"] Cons.prems
    obtain b' st' where "fetch_loop ins msg daemon view d' ?b (set_total_zones (ez_total_zone_count z) st) (map Inr zs) =
        (d', b', st')" "sd_error st' = sd_error st" "sd_status st' = sd_status st"
      by (auto simp: set_total_zones_def)
    ultimately show ?case using Cons.prems(1) by simp
  qed auto
  have bad: "fetch_app ins add_state msg batch_size d new_state_details bad = Done (snd (add_state d n1 ?st1), ?st1, n1)"
  proof -
    obtain d1 where "add_state d n1 ?st1 = (None, d1)" using add by metis
    with assms(1,2) show ?thesis by (simp add: fetch_app_def set_status_def)
  qed
  let ?d1 = "snd (add_state d n1 ?st1)"
  have "int (length (bt_items (new_batch batch_size :: db_zone batch)) + length zs) < bt_limit (new_batch batch_size :: db_zone batch)"
    using assms(6) by (simp add: new_batch_def)
  from loop [OF assms(5) this, of "[]" n2 ?d1 ?st1] obtain b' st where
    l: "fetch_loop ins msg n2 [] ?d1 (new_batch batch_size) ?st1 (map Inr zs) = (?d1, b', st)"
      "sd_error st = Some (msg err)" "sd_status st = status_of_receive_error err"
    by (auto simp: new_batch_def set_status_def)
  then have "fetch_app ins add_state msg batch_size ?d1 ?st1 good = Done (snd (add_state ?d1 n2 st), st, n2)"
  proof -
    obtain d2 where "add_state ?d1 n2 st = (None, d2)" using add by metis
    with l assms(3,4) show ?thesis by (simp add: fetch_app_def)
  qed
  with bad l(2,3) show ?thesis by (simp add: run_worker_def)
qed

lemma fetch_reach_inv:
  assumes "fetch_reach (s, rs)"
  shows "length rs \<le> 1 \<and> (fs_fetching s \<longleftrightarrow> rs \<noteq> []) \<and> (rs = [ReadingApps] \<longrightarrow> fs_completed_apps_count s = 0) \<and>
    (\<forall>n. rs = [Fetching_Apps n] \<longrightarrow> fs_apps_count s = fs_completed_apps_count s + int n)"
  using assms
proof (induction "(s, rs)" arbitrary: s rs rule: fetch_reach.induct)
  case (fetch_next x)
  obtain s0 rs0 where x: "x = (s0, rs0)" by (cases x)
  from fetch_next(2) [OF x] have inv: "rs0 = [] \<and> \<not> fs_fetching s0 \<or>
      (fs_fetching s0 \<and> rs0 = [ReadingApps] \<and> fs_completed_apps_count s0 = 0) \<or>
      (\<exists>n. fs_fetching s0 \<and> rs0 = [Fetching_Apps n] \<and> fs_apps_count s0 = fs_completed_apps_count s0 + int n)"
    by (cases rs0; cases "hd rs0") auto
  from fetch_next(3) [unfolded x] inv show ?case
    by (elim fetch_stepE disjE conjE exE)
      (auto simp: start_fetching_def stop_fetching_def set_apps_count_def increase_completed_apps_count_def
        append_eq_Cons_conv)
qed simp

text \<open>
  At most one fetch runs, and its progress is exact: the flag says whether a fetch is under
  way, and while one fetches from the apps, the apps that are completed and those that are
  left make up the number of apps that is reported.
\<close>

theorem fetch_progress_exact:
  assumes "fetch_reach (s, rs)"
  shows "length rs \<le> 1 \<and> (fs_fetching s \<longleftrightarrow> rs \<noteq> []) \<and>
    (\<forall>n. rs = [Fetching_Apps n] \<longrightarrow>
       get_fetch_zones_progress s = (True, fs_apps_count s, fs_apps_count s - int n))"
  using fetch_reach_inv [OF assms] by (auto simp: get_fetch_zones_progress_def)

section \<open>Witnesses\<close>

text \<open>A database that logs the insertions and the states.\<close>

definition wit_ins :: "(db_zone list list \<times> (int \<times> state_details) list, db_zone) insertion" where
  "wit_ins d xs = (None, (fst d @ [xs], snd d))"

definition wit_add_state :: "db_zone list list \<times> (int \<times> state_details) list \<Rightarrow> int \<Rightarrow> state_details \<Rightarrow>
    string option \<times> (db_zone list list \<times> (int \<times> state_details) list)" where
  "wit_add_state d n st = (None, (fst d, snd d @ [(n, st)]))"

definition wit_ez :: "string \<Rightarrow> string \<Rightarrow> extended_zone" where
  "wit_ez n v = \<lparr>ez_zone = wit_zone n 1, ez_view_name = v, ez_total_zone_count = 3\<rparr>"

lemma wit_never_fails: "never_fails wit_ins"
  by (simp add: never_fails_def wit_ins_def)

lemma wit_add_state_None: "fst (wit_add_state d n st) = None"
  by (simp add: wit_add_state_def)


theorem worker_error_spreads_witness:
  "\<exists>st d. run_worker wit_ins wit_add_state (\<lambda>_. ''busy'') 10 ([], [])
      [\<lparr>da_daemons = [1], da_received = [Inl (AgentBusy ''a'')]\<rparr>,
       \<lparr>da_daemons = [2], da_received = map Inr [wit_ez ''a'' ''v'']\<rparr>] = Done (d, [(1, st), (2, st)]) \<and>
    fst d = [] \<and> sd_status st = StatusBusy"
proof -
  let ?bad = "\<lparr>da_daemons = [1], da_received = [Inl (AgentBusy ''a'')]\<rparr>"
  let ?good = "\<lparr>da_daemons = [2], da_received = map Inr [wit_ez ''a'' ''v'']\<rparr>"
  have "da_daemons ?bad = 1 # []" "da_received ?bad = [Inl (AgentBusy ''a'')]" "da_daemons ?good = 2 # []"
    "da_received ?good = map Inr [wit_ez ''a'' ''v'']" "\<forall>z \<in> set [wit_ez ''a'' ''v'']. ez_view_name z = ''v''"
    "int (length [wit_ez ''a'' ''v'']) < 10" by (simp_all add: wit_ez_def)
  from worker_error_spreads [of ?bad 1 "[]" "AgentBusy ''a''" ?good 2 "[]" _ "''v''" 10 wit_add_state wit_ins "\<lambda>_. ''busy''" "([], [])",
      OF this wit_add_state_None]
  show ?thesis by (auto simp: wit_add_state_def status_of_receive_error_def)
qed

theorem fetch_progress_exact_witness:
  "\<exists>s. fetch_reach (s, [Fetching_Apps 2]) \<and> get_fetch_zones_progress s = (True, fs_apps_count s, fs_apps_count s - 2)"
proof -
  let ?s0 = "\<lparr>fs_fetching = False, fs_completed_apps_count = 0, fs_apps_count = 0\<rparr>"
  let ?s1 = "snd (start_fetching ?s0)"
  have "fetch_step (?s0, []) (?s1, [] @ [ReadingApps])"
    by (rule fetch_started) (simp add: start_fetching_def)
  from fetch_next [OF fetch_init this] have "fetch_reach (?s1, [] @ ReadingApps # [])" by simp
  from fetch_next [OF this apps_read [of ?s1 "[]" "[]" 3]]
  have "fetch_reach (set_apps_count 3 ?s1, [] @ Fetching_Apps (Suc 2) # [])" by (simp add: eval_nat_numeral)
  from fetch_next [OF this app_completed]
  have r: "fetch_reach (increase_completed_apps_count (set_apps_count 3 ?s1), [Fetching_Apps 2])" by simp
  from fetch_progress_exact [OF r] r show ?thesis by auto
qed

end
