(* ===== verification/Checker_Controller.thy ===== *)
theory Checker_Controller
  imports Go_Strings
begin

text \<open>
  The states of the configuration checkers (\<open>server/configreview/checkercontroller.go\<close>) and
  the review reports (\<open>report.go\<close>).  The interface \<open>checkerController\<close> of the code is the
  locale \<open>checker_preferences\<close>; its implementation is interpreted in it.
\<close>

datatype checker_state = Inherit | Disabled | Enabled

record checker_controller =
  cc_global_states :: "string \<rightharpoonup> bool"
  cc_daemon_states :: "int \<rightharpoonup> (string \<rightharpoonup> bool)"

definition new_checker_controller :: checker_controller where
  "new_checker_controller = \<lparr>cc_global_states = Map.empty, cc_daemon_states = Map.empty\<rparr>"

definition get_global_state :: "checker_controller \<Rightarrow> string \<Rightarrow> checker_state" where
  "get_global_state c name =
     (case cc_global_states c name of
        None \<Rightarrow> Enabled
      | Some enabled \<Rightarrow> if enabled then Enabled else Disabled)"

text \<open>\<open>None\<close> is the error: the global state cannot be inherited.\<close>

definition set_global_state :: "checker_controller \<Rightarrow> string \<Rightarrow> checker_state \<Rightarrow> checker_controller option" where
  "set_global_state c name state =
     (if state = Inherit then None
      else Some (c\<lparr>cc_global_states := (cc_global_states c)(name \<mapsto> (state = Enabled))\<rparr>))"

definition set_state_for_daemon :: "checker_controller \<Rightarrow> int \<Rightarrow> string \<Rightarrow> checker_state \<Rightarrow> checker_controller" where
  "set_state_for_daemon c daemon name state =
     (let states = (case cc_daemon_states c daemon of None \<Rightarrow> Map.empty | Some m \<Rightarrow> m);
          states' = (if state = Inherit then states(name := None) else states(name \<mapsto> (state = Enabled)))
      in c\<lparr>cc_daemon_states := (cc_daemon_states c)(daemon \<mapsto> states')\<rparr>)"

definition is_checker_enabled_for_daemon :: "checker_controller \<Rightarrow> int \<Rightarrow> string \<Rightarrow> bool" where
  "is_checker_enabled_for_daemon c daemon name =
     (case (case cc_daemon_states c daemon of None \<Rightarrow> None | Some m \<Rightarrow> m name) of
        Some enabled \<Rightarrow> enabled
      | None \<Rightarrow> (case cc_global_states c name of Some enabled \<Rightarrow> enabled | None \<Rightarrow> True))"

definition get_state_for_daemon :: "checker_controller \<Rightarrow> int \<Rightarrow> string \<Rightarrow> checker_state" where
  "get_state_for_daemon c daemon name =
     (case (case cc_daemon_states c daemon of None \<Rightarrow> None | Some m \<Rightarrow> m name) of
        Some enabled \<Rightarrow> if enabled then Enabled else Disabled
      | None \<Rightarrow> Inherit)"

section \<open>The interface\<close>

text \<open>
  What a client may rely on: setters change one entry, the others keep theirs, and whether a
  checker is enabled follows from the state for the daemon and the global one.
\<close>

locale checker_preferences =
  fixes global :: "'c \<Rightarrow> string \<Rightarrow> checker_state"
    and for_daemon :: "'c \<Rightarrow> int \<Rightarrow> string \<Rightarrow> checker_state"
    and enabled :: "'c \<Rightarrow> int \<Rightarrow> string \<Rightarrow> bool"
    and set_global :: "'c \<Rightarrow> string \<Rightarrow> checker_state \<Rightarrow> 'c option"
    and set_daemon :: "'c \<Rightarrow> int \<Rightarrow> string \<Rightarrow> checker_state \<Rightarrow> 'c"
  assumes global_decided: "global c n \<noteq> Inherit"
    and enabled_iff: "enabled c d n \<longleftrightarrow>
      (if for_daemon c d n = Inherit then global c n else for_daemon c d n) = Enabled"
    and set_global_None: "set_global c n st = None \<longleftrightarrow> st = Inherit"
    and set_global_global: "set_global c n st = Some c' \<Longrightarrow> global c' m = (if m = n then st else global c m)"
    and set_global_daemon: "set_global c n st = Some c' \<Longrightarrow> for_daemon c' d m = for_daemon c d m"
    and set_daemon_global: "global (set_daemon c d n st) m = global c m"
    and set_daemon_daemon: "for_daemon (set_daemon c d n st) e m = (if e = d \<and> m = n then st else for_daemon c e m)"
begin

text \<open>The abstract contents: the two functions that the setters update at a point.\<close>

definition abs_global :: "'c \<Rightarrow> string \<Rightarrow> bool" where
  "abs_global c = (\<lambda>n. global c n = Enabled)"

definition abs_daemon :: "'c \<Rightarrow> int \<times> string \<Rightarrow> checker_state" where
  "abs_daemon c = (\<lambda>(d, n). for_daemon c d n)"

lemma set_global_abs:
  assumes "set_global c n st = Some c'"
  shows "abs_global c' = (abs_global c)(n := (st = Enabled))" and "abs_daemon c' = abs_daemon c"
  using set_global_global [OF assms] set_global_daemon [OF assms]
  by (auto simp: abs_global_def abs_daemon_def fun_eq_iff)

lemma set_daemon_abs:
  "abs_global (set_daemon c d n st) = abs_global c"
  "abs_daemon (set_daemon c d n st) = (abs_daemon c)((d, n) := st)"
  by (auto simp: abs_global_def abs_daemon_def fun_eq_iff set_daemon_global set_daemon_daemon)

lemma enabled_abs:
  "enabled c d n \<longleftrightarrow> (case abs_daemon c (d, n) of Inherit \<Rightarrow> abs_global c n | Enabled \<Rightarrow> True | Disabled \<Rightarrow> False)"
  by (cases "for_daemon c d n") (simp_all add: enabled_iff abs_daemon_def abs_global_def)

text \<open>The setters for different entries commute, as far as a client can see.\<close>

lemma set_daemon_commute:
  assumes "(d, n) \<noteq> (e, m)"
  shows "enabled (set_daemon (set_daemon c d n s) e m t) x y = enabled (set_daemon (set_daemon c e m t) d n s) x y"
proof -
  have "abs_daemon (set_daemon (set_daemon c d n s) e m t) = abs_daemon (set_daemon (set_daemon c e m t) d n s)"
    unfolding set_daemon_abs by (rule fun_upd_twist [OF assms])
  moreover have "abs_global (set_daemon (set_daemon c d n s) e m t) = abs_global (set_daemon (set_daemon c e m t) d n s)"
    by (simp add: set_daemon_abs)
  ultimately show ?thesis by (simp only: enabled_abs)
qed

lemma inherit_undoes: "enabled (set_daemon (set_daemon c d n st) d n Inherit) d n \<longleftrightarrow> abs_global c n"
  by (simp add: enabled_abs set_daemon_abs)

end

interpretation controller: checker_preferences get_global_state get_state_for_daemon
  is_checker_enabled_for_daemon set_global_state set_state_for_daemon
proof
  fix c :: checker_controller and c' n m d e st
  show "get_global_state c n \<noteq> Inherit"
    by (simp add: get_global_state_def split: option.split)
  show "is_checker_enabled_for_daemon c d n \<longleftrightarrow>
      (if get_state_for_daemon c d n = Inherit then get_global_state c n else get_state_for_daemon c d n) = Enabled"
    by (simp add: is_checker_enabled_for_daemon_def get_state_for_daemon_def get_global_state_def split: option.split)
  show "set_global_state c n st = None \<longleftrightarrow> st = Inherit"
    by (simp add: set_global_state_def)
  show "get_global_state c' m = (if m = n then st else get_global_state c m)" "get_state_for_daemon c' d m = get_state_for_daemon c d m"
    if "set_global_state c n st = Some c'"
    using that by (cases st; auto simp: set_global_state_def get_global_state_def get_state_for_daemon_def split: if_splits)+
  show "get_global_state (set_state_for_daemon c d n st) m = get_global_state c m"
    by (simp add: get_global_state_def set_state_for_daemon_def Let_def)
  show "get_state_for_daemon (set_state_for_daemon c d n st) e m = (if e = d \<and> m = n then st else get_state_for_daemon c e m)"
    by (cases st; cases "cc_daemon_states c d")
      (simp_all add: get_state_for_daemon_def set_state_for_daemon_def Let_def)
qed

text \<open>Sequences of updates, on the controller and on the tables; a refused update changes nothing.\<close>

datatype preference_update = SetGlobal string checker_state | SetForDaemon int string checker_state

fun update_controller :: "preference_update \<Rightarrow> checker_controller \<Rightarrow> checker_controller" where
  "update_controller (SetGlobal n st) c = (case set_global_state c n st of None \<Rightarrow> c | Some c' \<Rightarrow> c')"
| "update_controller (SetForDaemon d n st) c = set_state_for_daemon c d n st"

type_synonym preference_tables = "(string \<Rightarrow> bool) \<times> (int \<times> string \<Rightarrow> checker_state)"

fun update_tables :: "preference_update \<Rightarrow> preference_tables \<Rightarrow> preference_tables" where
  "update_tables (SetGlobal n st) (g, t) = (if st = Inherit then g else g(n := (st = Enabled)), t)"
| "update_tables (SetForDaemon d n st) (g, t) = (g, t((d, n) := st))"

definition tables_enabled :: "preference_tables \<Rightarrow> int \<Rightarrow> string \<Rightarrow> bool" where
  "tables_enabled gt d n =
     (case snd gt (d, n) of Inherit \<Rightarrow> fst gt n | Enabled \<Rightarrow> True | Disabled \<Rightarrow> False)"

definition controller_tables :: "checker_controller \<Rightarrow> preference_tables" where
  "controller_tables c = (controller.abs_global c, controller.abs_daemon c)"

lemma update_refines: "controller_tables (update_controller u c) = update_tables u (controller_tables c)"
proof (cases u)
  case (SetGlobal n st)
  then show ?thesis
    using controller.set_global_abs [of c n st] controller.set_global_None [of c n st]
    by (cases "set_global_state c n st") (auto simp: controller_tables_def)
qed (simp add: controller_tables_def controller.set_daemon_abs)

lemma updates_refine: "controller_tables (fold update_controller us c) = fold update_tables us (controller_tables c)"
  by (induction us arbitrary: c) (simp_all add: update_refines)

section \<open>Reports\<close>

record report =
  rp_content :: "string option"
  rp_daemon_id :: int
  rp_ref_daemon_ids :: "int list"

definition is_issue_found :: "report \<Rightarrow> bool" where
  "is_issue_found r = (rp_content r \<noteq> None)"

definition new_report :: "int \<Rightarrow> string \<Rightarrow> report" where
  "new_report subject content = \<lparr>rp_content = Some (trim_space content), rp_daemon_id = subject, rp_ref_daemon_ids = []\<rparr>"

datatype report_error = BlankReport | ZeroDaemonId | ZeroRefDaemonId | DuplicateRefDaemon int

definition new_empty_report :: "int \<Rightarrow> report_error + report" where
  "new_empty_report subject =
     (if subject = 0 then Inl ZeroDaemonId
      else Inr \<lparr>rp_content = None, rp_daemon_id = subject, rp_ref_daemon_ids = []\<rparr>)"

definition referencing_daemon :: "report \<Rightarrow> int \<Rightarrow> report" where
  "referencing_daemon r daemon = r\<lparr>rp_ref_daemon_ids := rp_ref_daemon_ids r @ [daemon]\<rparr>"

fun check_refs :: "int list \<Rightarrow> int list \<Rightarrow> report_error option" where
  "check_refs present [] = None"
| "check_refs present (x # xs) =
     (if x = 0 then Some ZeroRefDaemonId
      else if x \<in> set present then Some (DuplicateRefDaemon x)
      else check_refs (x # present) xs)"

definition create_report :: "report \<Rightarrow> report_error + report" where
  "create_report r =
     (if (case rp_content r of None \<Rightarrow> True | Some s \<Rightarrow> length s = 0) then Inl BlankReport
      else if rp_daemon_id r = 0 then Inl ZeroDaemonId
      else (case check_refs [] (rp_ref_daemon_ids r) of Some e \<Rightarrow> Inl e | None \<Rightarrow> Inr r))"

lemma check_refs_None: "check_refs present xs = None \<longleftrightarrow> 0 \<notin> set xs \<and> distinct xs \<and> set xs \<inter> set present = {}"
  by (induction present xs rule: check_refs.induct) auto

lemma refs_fold: "rp_ref_daemon_ids (foldl referencing_daemon r ids) = rp_ref_daemon_ids r @ ids"
  "rp_content (foldl referencing_daemon r ids) = rp_content r"
  "rp_daemon_id (foldl referencing_daemon r ids) = rp_daemon_id r"
  by (induction ids arbitrary: r) (simp_all add: referencing_daemon_def)

section \<open>Properties\<close>

text \<open>
  C0: The states of the checkers behave as two tables, one global and one per daemon.  Each
  setter updates one entry, an update to \<open>Inherit\<close> removes the daemon's entry, the global
  table refuses \<open>Inherit\<close>, and a checker runs for a daemon when the daemon's entry says so
  or, without an entry, when the global one does; by default it does.
\<close>

theorem checker_states_refine_tables:
  "is_checker_enabled_for_daemon (fold update_controller us new_checker_controller) d n =
     tables_enabled (fold update_tables us (\<lambda>_. True, \<lambda>_. Inherit)) d n"
proof -
  have "controller_tables new_checker_controller = (\<lambda>_. True, \<lambda>_. Inherit)"
    by (simp add: controller_tables_def controller.abs_global_def controller.abs_daemon_def new_checker_controller_def
        get_global_state_def get_state_for_daemon_def fun_eq_iff)
  with updates_refine [of us new_checker_controller]
  have "controller_tables (fold update_controller us new_checker_controller) = fold update_tables us (\<lambda>_. True, \<lambda>_. Inherit)"
    by simp
  then show ?thesis
    by (simp add: controller.enabled_abs tables_enabled_def controller_tables_def flip: prod.inject)
      (metis fst_conv snd_conv)
qed

text \<open>
  A report is created exactly when it is well formed: its text is not blank, its daemon
  has an ID, and the daemons it refers to have IDs and are all different; it is then returned
  as it was put together.
\<close>

theorem report_created_iff:
  "create_report (foldl referencing_daemon (new_report subject content) ids) = Inr r \<longleftrightarrow>
     trim_space content \<noteq> [] \<and> subject \<noteq> 0 \<and> 0 \<notin> set ids \<and> distinct ids \<and>
     r = \<lparr>rp_content = Some (trim_space content), rp_daemon_id = subject, rp_ref_daemon_ids = ids\<rparr>"
proof -
  let ?r = "foldl referencing_daemon (new_report subject content) ids"
  have r: "?r = \<lparr>rp_content = Some (trim_space content), rp_daemon_id = subject, rp_ref_daemon_ids = ids\<rparr>"
    using refs_fold [of "new_report subject content" ids] by (simp add: new_report_def)
  show ?thesis
    unfolding r using check_refs_None [of "[]" ids]
    by (cases "check_refs [] ids") (auto simp: create_report_def)
qed

end
