(* ===== verification/Review_Dispatcher.thy ===== *)
theory Review_Dispatcher
  imports Checker_Controller
begin

text \<open>
  The configuration review dispatcher: \<open>server/configreview/dispatcher.go\<close>.  The registered
  checkers and their groups, the reviews under way, and the insertion of the reports into the
  database, which is kept as the rows of the tables that the insertion touches.  What the
  database refuses for other reasons is the argument \<open>fault\<close>.
\<close>

section \<open>Triggers, selectors and groups\<close>

datatype trigger = InternalRun | ManualRun | ConfigModified | DBHostsModified | StorkAgentConfigModified

definition is_internal_run :: "trigger list \<Rightarrow> bool" where
  "is_internal_run ts = (length ts = 1 \<and> ts ! 0 = InternalRun)"

definition get_default_triggers :: "trigger list" where
  "get_default_triggers = [ManualRun, ConfigModified]"

definition extend_default_triggers :: "trigger list \<Rightarrow> trigger list" where
  "extend_default_triggers ts = get_default_triggers @ ts"

datatype selector =
    EachDaemon | KeaDaemon | KeaCADaemon | KeaDHCPDaemon | KeaDHCPv4Daemon | KeaDHCPv6Daemon
  | KeaD2Daemon | Bind9Daemon

definition selector_string :: "selector \<Rightarrow> string" where
  "selector_string s =
     (case s of
        EachDaemon \<Rightarrow> ''each-daemon'' | KeaDaemon \<Rightarrow> ''kea-daemon'' | KeaCADaemon \<Rightarrow> ''kea-ca-daemon''
      | KeaDHCPDaemon \<Rightarrow> ''kea-dhcp-daemon'' | KeaDHCPv4Daemon \<Rightarrow> ''kea-dhcp-v4-daemon''
      | KeaDHCPv6Daemon \<Rightarrow> ''kea-dhcp-v6-daemon'' | KeaD2Daemon \<Rightarrow> ''kea-d2-daemon''
      | Bind9Daemon \<Rightarrow> ''bind9-daemon'')"

definition get_dispatch_group_selectors :: "string \<Rightarrow> selector list" where
  "get_dispatch_group_selectors name =
     (if name = ''dhcp4'' then [EachDaemon, KeaDaemon, KeaDHCPDaemon, KeaDHCPv4Daemon]
      else if name = ''dhcp6'' then [EachDaemon, KeaDaemon, KeaDHCPDaemon, KeaDHCPv6Daemon]
      else if name = ''ca'' then [EachDaemon, KeaDaemon, KeaCADaemon]
      else if name = ''d2'' then [EachDaemon, KeaDaemon, KeaD2Daemon]
      else if name = ''named'' then [EachDaemon, Bind9Daemon]
      else [])"

text \<open>A daemon under review; the hash of the configuration is missing when it is not a Kea daemon.\<close>

record daemon =
  dm_id :: int
  dm_name :: string
  dm_config_hash :: "string option"

record tagged_report =
  tr_checker_name :: string
  tr_report :: "report option"

record review_context =
  rc_subject_daemon :: daemon
  rc_ref_daemons :: "daemon list"
  rc_reports :: "tagged_report list"
  rc_has_callback :: bool
  rc_triggers :: "trigger list"

definition new_review_context :: "daemon \<Rightarrow> trigger list \<Rightarrow> bool \<Rightarrow> review_context" where
  "new_review_context daemon ts callback =
     \<lparr>rc_subject_daemon = daemon, rc_ref_daemons = [], rc_reports = [], rc_has_callback = callback, rc_triggers = ts\<rparr>"

definition get_reports_count :: "review_context \<Rightarrow> int" where
  "get_reports_count ctx = int (length (rc_reports ctx))"

text \<open>\<open>getIssuesCount\<close> reads the content of each report; a missing report is a nil pointer.\<close>

fun count_issues :: "tagged_report list \<Rightarrow> int \<Rightarrow> int run" where
  "count_issues [] n = Done n"
| "count_issues (t # ts) n =
     (case tr_report t of
        None \<Rightarrow> Panic
      | Some r \<Rightarrow> count_issues ts (if rp_content r \<noteq> None then n + 1 else n))"

definition get_issues_count :: "review_context \<Rightarrow> int run" where
  "get_issues_count ctx = count_issues (rc_reports ctx) 0"

text \<open>A checker's function gives a report or nil, an error or nil, and may change the context.\<close>

record checker =
  ck_name :: string
  ck_triggers :: "trigger list"
  ck_fn :: "review_context \<Rightarrow> report option \<times> string option \<times> review_context"

record dispatch_group =
  dg_checkers :: "checker list"
  dg_trigger_ref_counts :: "trigger \<rightharpoonup> int"

definition new_dispatch_group :: dispatch_group where
  "new_dispatch_group = \<lparr>dg_checkers = [], dg_trigger_ref_counts = Map.empty\<rparr>"

fun count_triggers :: "trigger list \<Rightarrow> (trigger \<rightharpoonup> int) \<Rightarrow> (trigger \<rightharpoonup> int)" where
  "count_triggers [] m = m"
| "count_triggers (t # ts) m =
     count_triggers ts (m(t \<mapsto> (case m t of None \<Rightarrow> 0 | Some n \<Rightarrow> n) + 1))"

definition append_checker :: "dispatch_group \<Rightarrow> checker \<Rightarrow> dispatch_group" where
  "append_checker g c =
     g\<lparr>dg_checkers := dg_checkers g @ [c],
       dg_trigger_ref_counts := count_triggers (ck_triggers c) (dg_trigger_ref_counts g)\<rparr>"

definition has_checkers_for_trigger :: "dispatch_group \<Rightarrow> trigger \<Rightarrow> bool" where
  "has_checkers_for_trigger g t = (case dg_trigger_ref_counts g t of Some n \<Rightarrow> n > 0 | None \<Rightarrow> False)"

section \<open>The dispatcher\<close>

record dispatcher =
  dp_groups :: "selector \<rightharpoonup> dispatch_group"
  dp_state :: "int \<rightharpoonup> bool"
  dp_controller :: checker_controller

definition new_dispatcher :: dispatcher where
  "new_dispatcher = \<lparr>dp_groups = Map.empty, dp_state = Map.empty, dp_controller = new_checker_controller\<rparr>"

definition register_checker ::
    "dispatcher \<Rightarrow> selector \<Rightarrow> string \<Rightarrow> trigger list \<Rightarrow>
     (review_context \<Rightarrow> report option \<times> string option \<times> review_context) \<Rightarrow> dispatcher" where
  "register_checker d sel name ts fn =
     (let group = (case dp_groups d sel of None \<Rightarrow> new_dispatch_group | Some g \<Rightarrow> g)
      in d\<lparr>dp_groups := (dp_groups d)(sel \<mapsto>
            append_checker group \<lparr>ck_name = name, ck_triggers = ts, ck_fn = fn\<rparr>)\<rparr>)"

fun uncount_triggers :: "trigger list \<Rightarrow> (trigger \<rightharpoonup> int) \<Rightarrow> (trigger \<rightharpoonup> int)" where
  "uncount_triggers [] m = m"
| "uncount_triggers (t # ts) m =
     uncount_triggers ts (case m t of None \<Rightarrow> m | Some n \<Rightarrow> m(t \<mapsto> n - 1))"

text \<open>The checkers without the first one of the name, and that one's triggers.\<close>

fun remove_checker :: "string \<Rightarrow> checker list \<Rightarrow> (trigger list \<times> checker list) option" where
  "remove_checker name [] = None"
| "remove_checker name (c # cs) =
     (if ck_name c = name then Some (ck_triggers c, cs)
      else map_option (\<lambda>(ts, cs'). (ts, c # cs')) (remove_checker name cs))"

definition unregister_checker :: "dispatcher \<Rightarrow> selector \<Rightarrow> string \<Rightarrow> bool \<times> dispatcher" where
  "unregister_checker d sel name =
     (case dp_groups d sel of
        None \<Rightarrow> (False, d)
      | Some g \<Rightarrow>
          (case remove_checker name (dg_checkers g) of
             None \<Rightarrow> (False, d)
           | Some (ts, cs) \<Rightarrow>
               (True, d\<lparr>dp_groups :=
                  (if cs = [] then (dp_groups d)(sel := None)
                   else (dp_groups d)(sel \<mapsto>
                     \<lparr>dg_checkers = cs, dg_trigger_ref_counts = uncount_triggers ts (dg_trigger_ref_counts g)\<rparr>))\<rparr>)))"

definition is_checker_available_for_daemon :: "dispatcher \<Rightarrow> string \<Rightarrow> daemon \<Rightarrow> bool" where
  "is_checker_available_for_daemon d name daemon =
     (\<exists>sel \<in> set (get_dispatch_group_selectors (dm_name daemon)).
        (case dp_groups d sel of None \<Rightarrow> False | Some g \<Rightarrow> name \<in> ck_name ` set (dg_checkers g)))"

datatype dispatcher_error =
    NoSelectors string
  | CheckerNotRegistered string
  | GlobalInherit

definition set_checker_state ::
    "dispatcher \<Rightarrow> daemon option \<Rightarrow> string \<Rightarrow> checker_state \<Rightarrow> dispatcher_error + dispatcher" where
  "set_checker_state d target name state =
     (case target of
        Some daemon \<Rightarrow>
          if \<not> is_checker_available_for_daemon d name daemon then Inl (CheckerNotRegistered name)
          else Inr (d\<lparr>dp_controller := set_state_for_daemon (dp_controller d) (dm_id daemon) name state\<rparr>)
      | None \<Rightarrow>
          (case set_global_state (dp_controller d) name state of
             None \<Rightarrow> Inl GlobalInherit
           | Some c \<Rightarrow> Inr (d\<lparr>dp_controller := c\<rparr>)))"

section \<open>Reviews\<close>

text \<open>
  The loop over the checkers of a group.  When the checker finds nothing an empty report is
  made; that fails for a daemon without an ID, and a nil report is kept.
\<close>

fun run_checkers :: "checker_controller \<Rightarrow> checker list \<Rightarrow> review_context \<Rightarrow> review_context" where
  "run_checkers cc [] ctx = ctx"
| "run_checkers cc (c # cs) ctx =
     (if \<not> is_checker_enabled_for_daemon cc (dm_id (rc_subject_daemon ctx)) (ck_name c)
      then run_checkers cc cs ctx
      else (case ck_fn c ctx of
              (rep, err, ctx') \<Rightarrow>
                (let r = (case rep of
                            Some r \<Rightarrow> Some r
                          | None \<Rightarrow> (case new_empty_report (dm_id (rc_subject_daemon ctx')) of
                                      Inl _ \<Rightarrow> None | Inr r \<Rightarrow> Some r))
                 in run_checkers cc cs
                      (ctx'\<lparr>rc_reports := rc_reports ctx' @ [\<lparr>tr_checker_name = ck_name c, tr_report = r\<rparr>]\<rparr>))))"

fun run_groups :: "dispatcher \<Rightarrow> selector list \<Rightarrow> review_context \<Rightarrow> review_context" where
  "run_groups d [] ctx = ctx"
| "run_groups d (sel # sels) ctx =
     (case dp_groups d sel of
        None \<Rightarrow> run_groups d sels ctx
      | Some g \<Rightarrow> run_groups d sels (run_checkers (dp_controller d) (dg_checkers g) ctx))"

definition run_for_daemon :: "dispatcher \<Rightarrow> daemon \<Rightarrow> trigger list \<Rightarrow> selector list \<Rightarrow> bool \<Rightarrow> review_context" where
  "run_for_daemon d daemon ts sels callback =
     run_groups d (if is_internal_run ts then get_dispatch_group_selectors (dm_name daemon) else sels)
       (new_review_context daemon ts callback)"

definition has_enabled_checkers_for_trigger :: "dispatcher \<Rightarrow> daemon \<Rightarrow> trigger \<Rightarrow> dispatch_group \<Rightarrow> bool" where
  "has_enabled_checkers_for_trigger d daemon t g =
     (has_checkers_for_trigger g t \<and>
      (\<exists>c \<in> set (dg_checkers g). is_checker_enabled_for_daemon (dp_controller d) (dm_id daemon) (ck_name c)))"

definition should_run :: "dispatcher \<Rightarrow> daemon \<Rightarrow> trigger list \<Rightarrow> bool" where
  "should_run d daemon ts =
     (is_internal_run ts \<or>
      (\<exists>sel \<in> set (get_dispatch_group_selectors (dm_name daemon)).
         (case dp_groups d sel of
            None \<Rightarrow> False
          | Some g \<Rightarrow> \<exists>t \<in> set ts. has_enabled_checkers_for_trigger d daemon t g)))"

definition review_in_progress :: "dispatcher \<Rightarrow> int \<Rightarrow> bool" where
  "review_in_progress d n = (dp_state d n = Some True)"

text \<open>\<open>beginReview\<close>: whether the review is scheduled, with the selectors its goroutine gets.\<close>

record pending_review =
  pr_daemon :: daemon
  pr_triggers :: "trigger list"
  pr_selectors :: "selector list"
  pr_callback :: bool

definition begin_review_unchecked ::
    "dispatcher \<Rightarrow> daemon \<Rightarrow> trigger list \<Rightarrow> bool \<Rightarrow> dispatcher \<times> pending_review option" where
  "begin_review_unchecked d daemon ts callback =
     (if \<not> should_run d daemon ts then (d, None)
      else if review_in_progress d (dm_id daemon) then (d, None)
      else (d\<lparr>dp_state := (dp_state d)(dm_id daemon \<mapsto> True)\<rparr>,
            Some \<lparr>pr_daemon = daemon, pr_triggers = ts,
              pr_selectors = (if is_internal_run ts then [] else get_dispatch_group_selectors (dm_name daemon)),
              pr_callback = callback\<rparr>))"

definition begin_review ::
    "dispatcher \<Rightarrow> daemon \<Rightarrow> trigger list \<Rightarrow> bool \<Rightarrow> dispatcher \<times> pending_review option" where
  "begin_review d daemon ts callback =
     (if length ts = 0 \<or> is_internal_run ts then (d, None)
      else begin_review_unchecked d daemon ts callback)"

section \<open>Storing the reports\<close>

record config_report =
  cr_checker_name :: string
  cr_content :: "string option"
  cr_daemon_id :: int
  cr_ref_daemons :: "int list"

text \<open>
  The rows that matter: the daemons with the hashes of their configurations, the reports, and
  for each daemon the hash and the signature of its last review.
\<close>

record review_db =
  rdb_daemons :: "(int \<times> string option) list"
  rdb_reports :: "config_report list"
  rdb_reviews :: "int \<rightharpoonup> string \<times> string"

datatype db_op = OpBegin | OpSelect | OpDelete int | OpAddReport string | OpAddReview | OpCommit

datatype populate_error = DbError string | MissingDaemons | ConfigChanged int | EmptyContent

text \<open>\<open>SELECT ... WHERE id IN (...)\<close>: the rows of the table, each once; for Kea daemons only those with a configuration.\<close>

definition get_daemons_for_update :: "review_db \<Rightarrow> bool \<Rightarrow> daemon list \<Rightarrow> (int \<times> string option) list" where
  "get_daemons_for_update db kea ds =
     filter (\<lambda>(n, h). n \<in> dm_id ` set ds \<and> (kea \<longrightarrow> h \<noteq> None)) (rdb_daemons db)"

fun changed_daemon :: "(int \<times> string option) list \<Rightarrow> daemon list \<Rightarrow> int option" where
  "changed_daemon [] ds = None"
| "changed_daemon ((n, h) # rows) ds =
     (case find (\<lambda>d. dm_id d = n \<and> dm_config_hash d \<noteq> None \<and> h \<noteq> None \<and> dm_config_hash d \<noteq> h) ds of
        Some d \<Rightarrow> Some (dm_id d)
      | None \<Rightarrow> changed_daemon rows ds)"

definition delete_config_reports :: "(db_op \<Rightarrow> string option) \<Rightarrow> review_db \<Rightarrow> int \<Rightarrow> populate_error + review_db" where
  "delete_config_reports fault db n =
     (case fault (OpDelete n) of
        Some e \<Rightarrow> Inl (DbError e)
      | None \<Rightarrow> Inr (db\<lparr>rdb_reports := filter (\<lambda>r. cr_daemon_id r \<noteq> n) (rdb_reports db)\<rparr>))"

text \<open>The loop over the subject and the daemons it refers to; the subject only once.\<close>

fun delete_loop ::
    "(db_op \<Rightarrow> string option) \<Rightarrow> int \<Rightarrow> bool \<Rightarrow> daemon list \<Rightarrow> review_db \<Rightarrow> populate_error + review_db" where
  "delete_loop fault subject first [] db = Inr db"
| "delete_loop fault subject first (d # ds) db =
     (if first \<or> dm_id d \<noteq> subject
      then (case delete_config_reports fault db (dm_id d) of
              Inl e \<Rightarrow> Inl e | Inr db' \<Rightarrow> delete_loop fault subject False ds db')
      else delete_loop fault subject False ds db)"

text \<open>The daemons that a report refers to are rows of a table, where a second one is ignored.\<close>

definition stored_report :: "config_report \<Rightarrow> config_report" where
  "stored_report r = r\<lparr>cr_ref_daemons := rev (remdups (rev (cr_ref_daemons r)))\<rparr>"

definition add_config_report :: "(db_op \<Rightarrow> string option) \<Rightarrow> review_db \<Rightarrow> config_report \<Rightarrow> populate_error + review_db" where
  "add_config_report fault db r =
     (if cr_content r = Some [] then Inl EmptyContent
      else (case fault (OpAddReport (cr_checker_name r)) of
              Some e \<Rightarrow> Inl (DbError e)
            | None \<Rightarrow> Inr (db\<lparr>rdb_reports := rdb_reports db @ [stored_report r]\<rparr>)))"

definition config_report_of :: "string \<Rightarrow> report \<Rightarrow> config_report" where
  "config_report_of name r =
     \<lparr>cr_checker_name = name, cr_content = rp_content r, cr_daemon_id = rp_daemon_id r,
      cr_ref_daemons = rp_ref_daemon_ids r\<rparr>"

text \<open>A nil report panics.\<close>

fun add_reports :: "(db_op \<Rightarrow> string option) \<Rightarrow> tagged_report list \<Rightarrow> review_db \<Rightarrow> (populate_error + review_db) run" where
  "add_reports fault [] db = Done (Inr db)"
| "add_reports fault (t # ts) db =
     (case tr_report t of
        None \<Rightarrow> Panic
      | Some r \<Rightarrow>
          (case add_config_report fault db (config_report_of (tr_checker_name t) r) of
             Inl e \<Rightarrow> Done (Inl e)
           | Inr db' \<Rightarrow> add_reports fault ts db'))"

text \<open>The transaction of \<open>populateReports\<close>; its caller keeps the old database when it fails.\<close>

definition populate_transaction ::
    "(db_op \<Rightarrow> string option) \<Rightarrow> string \<Rightarrow> review_db \<Rightarrow> review_context \<Rightarrow> (populate_error + review_db) run" where
  "populate_transaction fault signature db ctx =
     (let subject = rc_subject_daemon ctx;
          daemons = subject # rc_ref_daemons ctx in
      case fault OpBegin of
        Some e \<Rightarrow> Done (Inl (DbError e))
      | None \<Rightarrow>
      (case fault OpSelect of
        Some e \<Rightarrow> Done (Inl (DbError e))
      | None \<Rightarrow>
        (let rows = get_daemons_for_update db (dm_config_hash subject \<noteq> None) daemons in
         if length rows \<noteq> length daemons then Done (Inl MissingDaemons)
         else (case changed_daemon rows daemons of
           Some n \<Rightarrow> Done (Inl (ConfigChanged n))
         | None \<Rightarrow>
           (case (if is_internal_run (rc_triggers ctx) then Inr db
                  else delete_loop fault (dm_id subject) True daemons db) of
              Inl e \<Rightarrow> Done (Inl e)
            | Inr db1 \<Rightarrow>
                bind_run (add_reports fault (rc_reports ctx) db1) (\<lambda>r.
                  case r of
                    Inl e \<Rightarrow> Done (Inl e)
                  | Inr db2 \<Rightarrow>
                      (case (case dm_config_hash subject of
                               None \<Rightarrow> Inr db2
                             | Some h \<Rightarrow>
                                 (case fault OpAddReview of
                                    Some e \<Rightarrow> Inl (DbError e)
                                  | None \<Rightarrow> Inr (db2\<lparr>rdb_reviews := (rdb_reviews db2)(dm_id subject \<mapsto> (h, signature))\<rparr>))) of
                         Inl e \<Rightarrow> Done (Inl e)
                       | Inr db3 \<Rightarrow>
                           (case fault OpCommit of Some e \<Rightarrow> Done (Inl (DbError e)) | None \<Rightarrow> Done (Inr db3)))))))))"

text \<open>Internal reviews of the daemons that were referred to.\<close>

fun begin_internal_reviews ::
    "int \<Rightarrow> bool \<Rightarrow> daemon list \<Rightarrow> dispatcher \<Rightarrow> dispatcher \<times> pending_review list" where
  "begin_internal_reviews subject callback [] d = (d, [])"
| "begin_internal_reviews subject callback (r # rs) d =
     (if dm_id r \<noteq> subject
      then (case begin_review_unchecked d r [InternalRun] callback of
              (d', pr) \<Rightarrow>
                (case begin_internal_reviews subject callback rs d' of
                   (d'', prs) \<Rightarrow> (d'', (case pr of None \<Rightarrow> prs | Some p \<Rightarrow> p # prs))))
      else begin_internal_reviews subject callback rs d)"

definition populate_reports ::
    "(db_op \<Rightarrow> string option) \<Rightarrow> string \<Rightarrow> dispatcher \<Rightarrow> review_db \<Rightarrow> review_context \<Rightarrow>
     (populate_error option \<times> review_db \<times> dispatcher \<times> pending_review list) run" where
  "populate_reports fault signature d db ctx =
     bind_run (populate_transaction fault signature db ctx) (\<lambda>r.
       let subject = dm_id (rc_subject_daemon ctx);
           finish = (\<lambda>d. d\<lparr>dp_state := (dp_state d)(subject \<mapsto> False)\<rparr>) in
       case r of
         Inl e \<Rightarrow> Done (Some e, db, finish d, [])
       | Inr db' \<Rightarrow>
           (case (if is_internal_run (rc_triggers ctx) then (d, [])
                  else begin_internal_reviews subject (rc_has_callback ctx) (rc_ref_daemons ctx) d) of
              (d', prs) \<Rightarrow> Done (None, db', finish d', prs)))"

section \<open>The reviews under way\<close>

record review_system =
  rs_dispatcher :: dispatcher
  rs_db :: review_db
  rs_running :: "pending_review list"
  rs_done :: "review_context list"

text \<open>
  The steps: a call of \<open>BeginReview\<close>, a checker's state that is changed, a goroutine that has
  run the checkers and waits on the channel, and the worker that receives a finished review
  and calls back.  A worker that is shutting down passes nil instead of the error.
\<close>

inductive review_step ::
    "string \<Rightarrow> bool \<Rightarrow> review_system \<Rightarrow> (int \<times> populate_error option) option \<Rightarrow> review_system \<Rightarrow> bool"
  for signature shutting_down where
  begin_call: "begin_review (rs_dispatcher s) daemon ts callback = (d, pr) \<Longrightarrow>
    review_step signature shutting_down s None (s\<lparr>rs_dispatcher := d,
      rs_running := rs_running s @ (case pr of None \<Rightarrow> [] | Some p \<Rightarrow> [p])\<rparr>)"
| state_call: "set_checker_state (rs_dispatcher s) target name state = Inr d \<Longrightarrow>
    review_step signature shutting_down s None (s\<lparr>rs_dispatcher := d\<rparr>)"
| checkers_run: "rs_running s = ps @ p # qs \<Longrightarrow>
    review_step signature shutting_down s None (s\<lparr>rs_running := ps @ qs, rs_done := rs_done s @
      [run_for_daemon (rs_dispatcher s) (pr_daemon p) (pr_triggers p) (pr_selectors p) (pr_callback p)]\<rparr>)"
| review_received: "rs_done s = cs @ ctx # es \<Longrightarrow>
    populate_reports fault signature (rs_dispatcher s) (rs_db s) ctx = Done (err, db', d', prs) \<Longrightarrow>
    review_step signature shutting_down s
      (if rc_has_callback ctx then Some (dm_id (rc_subject_daemon ctx), if shutting_down then None else err) else None)
      (s\<lparr>rs_dispatcher := d', rs_db := db', rs_running := rs_running s @ prs, rs_done := cs @ es\<rparr>)"

inductive review_reach :: "string \<Rightarrow> review_system \<Rightarrow> review_system \<Rightarrow> bool" for signature where
  review_refl: "review_reach signature s s"
| review_next: "review_reach signature s s' \<Longrightarrow> review_step signature shutting_down s' e s'' \<Longrightarrow>
    review_reach signature s s''"

section \<open>The groups and their counts\<close>

text \<open>A group's counts are those of the triggers of its checkers.\<close>

definition uses_of :: "checker list \<Rightarrow> trigger \<Rightarrow> int" where
  "uses_of cs t = sum_list (map (\<lambda>c. int (count_list (ck_triggers c) t)) cs)"

definition count_at :: "(trigger \<rightharpoonup> int) \<Rightarrow> trigger \<Rightarrow> int" where
  "count_at m t = (case m t of None \<Rightarrow> 0 | Some n \<Rightarrow> n)"

definition group_ok :: "dispatch_group \<Rightarrow> bool" where
  "group_ok g \<longleftrightarrow> (\<forall>t. count_at (dg_trigger_ref_counts g) t = uses_of (dg_checkers g) t)"

definition groups_ok :: "dispatcher \<Rightarrow> bool" where
  "groups_ok d \<longleftrightarrow> (\<forall>sel g. dp_groups d sel = Some g \<longrightarrow> group_ok g \<and> dg_checkers g \<noteq> [])"

lemma count_at_upd [simp]: "count_at (m(u \<mapsto> n)) t = (if t = u then n else count_at m t)"
  by (simp add: count_at_def)

lemma count_at_fold: "(case m t of None \<Rightarrow> 0 | Some n \<Rightarrow> n) = count_at m t"
  by (simp add: count_at_def)

lemma count_triggers_at: "count_at (count_triggers ts m) t = count_at m t + int (count_list ts t)"
  by (induction ts arbitrary: m) (auto simp: count_at_fold)

lemma uses_of_append [simp]: "uses_of (cs @ ds) t = uses_of cs t + uses_of ds t"
  by (simp add: uses_of_def)

lemma append_checker_ok: "group_ok g \<Longrightarrow> group_ok (append_checker g c)"
  by (auto simp: group_ok_def append_checker_def count_triggers_at) (simp add: uses_of_def)

text \<open>Every trigger that is decremented has a count.\<close>

lemma uncount_triggers_at:
  assumes "\<And>u. u \<in> set ts \<Longrightarrow> m u \<noteq> None"
  shows "count_at (uncount_triggers ts m) t = count_at m t - int (count_list ts t)"
  using assms
proof (induction ts arbitrary: m)
  case (Cons u ts)
  then obtain n where n: "m u = Some n" by fastforce
  then have c: "count_at m u = n" by (simp add: count_at_def)
  have "count_at (uncount_triggers ts (m(u \<mapsto> n - 1))) t =
      count_at (m(u \<mapsto> n - 1)) t - int (count_list ts t)"
    by (rule Cons.IH) (use Cons.prems in auto)
  with n c show ?case by auto
qed simp

lemma remove_checker_split:
  assumes "remove_checker name cs = Some (ts, cs')"
  shows "\<exists>ds c es. cs = ds @ c # es \<and> cs' = ds @ es \<and> ck_name c = name \<and> ck_triggers c = ts \<and> name \<notin> ck_name ` set ds"
  using assms
proof (induction cs arbitrary: cs')
  case (Cons c cs)
  show ?case
  proof (cases "ck_name c = name")
    case True
    with Cons.prems show ?thesis by (intro exI [of _ "[]"] exI [of _ c] exI [of _ cs]) simp
  next
    case False
    with Cons.prems obtain ds' where r: "remove_checker name cs = Some (ts, ds')" "cs' = c # ds'" by auto
    from Cons.IH [OF r(1)] obtain ds d es where
      "cs = ds @ d # es \<and> ds' = ds @ es \<and> ck_name d = name \<and> ck_triggers d = ts \<and> name \<notin> ck_name ` set ds"
      by blast
    with False r(2) show ?thesis by (intro exI [of _ "c # ds"] exI [of _ d] exI [of _ es]) simp
  qed
qed simp

lemma remove_checker_None: "remove_checker name cs = None \<longleftrightarrow> name \<notin> ck_name ` set cs"
  by (induction cs) auto

section \<open>Registration\<close>

text \<open>The registrations made so far, as the list of checkers that a selector has.\<close>

datatype registration =
    Register selector string "trigger list" "review_context \<Rightarrow> report option \<times> string option \<times> review_context"
  | Unregister selector string

fun register_in_dispatcher :: "registration \<Rightarrow> dispatcher \<Rightarrow> dispatcher" where
  "register_in_dispatcher (Register sel name ts fn) d = register_checker d sel name ts fn"
| "register_in_dispatcher (Unregister sel name) d = snd (unregister_checker d sel name)"

fun register_in_lists :: "registration \<Rightarrow> (selector \<Rightarrow> checker list) \<Rightarrow> selector \<Rightarrow> checker list" where
  "register_in_lists (Register sel name ts fn) r =
     r(sel := r sel @ [\<lparr>ck_name = name, ck_triggers = ts, ck_fn = fn\<rparr>])"
| "register_in_lists (Unregister sel name) r =
     (case remove_checker name (r sel) of None \<Rightarrow> r | Some (ts, cs) \<Rightarrow> r(sel := cs))"

definition checkers_of :: "dispatcher \<Rightarrow> selector \<Rightarrow> checker list" where
  "checkers_of d sel = (case dp_groups d sel of None \<Rightarrow> [] | Some g \<Rightarrow> dg_checkers g)"

definition trigger_used :: "dispatcher \<Rightarrow> selector \<Rightarrow> trigger \<Rightarrow> bool" where
  "trigger_used d sel t = (case dp_groups d sel of None \<Rightarrow> False | Some g \<Rightarrow> has_checkers_for_trigger g t)"

lemma uses_of_nonneg: "0 \<le> uses_of cs t"
  unfolding uses_of_def by (rule sum_list_nonneg) auto

lemma uses_of_pos: "0 < uses_of cs t \<longleftrightarrow> (\<exists>c \<in> set cs. t \<in> set (ck_triggers c))"
proof (induction cs)
  case (Cons c cs)
  have "uses_of (c # cs) t = int (count_list (ck_triggers c) t) + uses_of cs t"
    by (simp add: uses_of_def)
  moreover have "0 < int (count_list (ck_triggers c) t) \<longleftrightarrow> t \<in> set (ck_triggers c)"
    using count_list_0_iff [of "ck_triggers c" t] by auto
  ultimately show ?case using Cons uses_of_nonneg [of cs t] by auto
qed (simp add: uses_of_def)

lemma has_checkers_count: "has_checkers_for_trigger g t \<longleftrightarrow> 0 < count_at (dg_trigger_ref_counts g) t"
  by (simp add: has_checkers_for_trigger_def count_at_def split: option.split)

lemma new_group_ok: "group_ok new_dispatch_group"
  by (simp add: group_ok_def new_dispatch_group_def count_at_def uses_of_def)

lemma append_checker_checkers [simp]: "dg_checkers (append_checker g c) = dg_checkers g @ [c]"
  by (simp add: append_checker_def)

lemma register_ok: "groups_ok d \<Longrightarrow> groups_ok (register_checker d sel name ts fn)"
  by (auto simp: groups_ok_def register_checker_def Let_def new_group_ok append_checker_ok split: option.split)

lemma unregister_group_ok:
  assumes "group_ok g" and "remove_checker name (dg_checkers g) = Some (ts, cs)"
  shows "group_ok \<lparr>dg_checkers = cs, dg_trigger_ref_counts = uncount_triggers ts (dg_trigger_ref_counts g)\<rparr>"
proof -
  obtain ds c es where s: "dg_checkers g = ds @ c # es" "cs = ds @ es" "ck_triggers c = ts"
    using remove_checker_split [OF assms(2)] by blast
  have u: "uses_of (dg_checkers g) t = uses_of cs t + int (count_list ts t)" for t
    using s by (simp add: uses_of_def)
  have "dg_trigger_ref_counts g t \<noteq> None" if "t \<in> set ts" for t
  proof
    assume "dg_trigger_ref_counts g t = None"
    then have "uses_of (dg_checkers g) t = 0"
      using assms(1) by (metis count_at_def group_ok_def option.simps(4))
    moreover have "0 < uses_of (dg_checkers g) t"
      unfolding uses_of_pos using s that by auto
    ultimately show False by simp
  qed
  then show ?thesis
    using assms(1) u by (simp add: group_ok_def uncount_triggers_at)
qed

lemma unregister_ok: "groups_ok d \<Longrightarrow> groups_ok (snd (unregister_checker d sel name))"
  by (auto simp: groups_ok_def unregister_checker_def unregister_group_ok split: option.split)

lemma checkers_of_register:
  "checkers_of (register_checker d sel name ts fn) =
     (checkers_of d)(sel := checkers_of d sel @ [\<lparr>ck_name = name, ck_triggers = ts, ck_fn = fn\<rparr>])"
  by (auto simp: checkers_of_def register_checker_def append_checker_def new_dispatch_group_def Let_def fun_eq_iff
      split: option.split)

lemma checkers_of_unregister:
  "checkers_of (snd (unregister_checker d sel name)) =
     (case remove_checker name (checkers_of d sel) of None \<Rightarrow> checkers_of d | Some (ts, cs) \<Rightarrow> (checkers_of d)(sel := cs))"
  by (auto simp: checkers_of_def unregister_checker_def fun_eq_iff split: option.split)

lemma registrations_ok:
  "groups_ok d \<Longrightarrow> groups_ok (fold register_in_dispatcher rs d) \<and>
     checkers_of (fold register_in_dispatcher rs d) = fold register_in_lists rs (checkers_of d)"
proof (induction rs arbitrary: d)
  case (Cons r rs)
  have "groups_ok (register_in_dispatcher r d)"
    using Cons.prems by (cases r) (simp_all add: register_ok unregister_ok)
  moreover have "checkers_of (register_in_dispatcher r d) = register_in_lists r (checkers_of d)"
    by (cases r) (simp_all only: register_in_dispatcher.simps register_in_lists.simps
        checkers_of_register checkers_of_unregister)
  ultimately show ?case using Cons.IH [of "register_in_dispatcher r d"] by simp
qed simp

lemma trigger_used_iff:
  assumes "groups_ok d"
  shows "trigger_used d sel t \<longleftrightarrow> (\<exists>c \<in> set (checkers_of d sel). t \<in> set (ck_triggers c))"
proof (cases "dp_groups d sel")
  case (Some g)
  with assms have "group_ok g" by (simp add: groups_ok_def)
  with Some show ?thesis
    by (simp add: trigger_used_def checkers_of_def has_checkers_count group_ok_def uses_of_pos)
qed (simp add: trigger_used_def checkers_of_def)

text \<open>
  Registering and unregistering checkers in any order leaves, under each selector, the
  checkers that the same updates of plain lists leave, and the dispatcher takes a trigger to be
  in use there exactly when one of the checkers left reacts to it: the reference counts, which
  are adjusted by one update at a time, never drift.
\<close>
theorem registration_counts_exact:
  "let d = fold register_in_dispatcher rs new_dispatcher in
     checkers_of d = fold register_in_lists rs (\<lambda>sel. []) \<and>
     (\<forall>sel t. trigger_used d sel t \<longleftrightarrow> (\<exists>c \<in> set (checkers_of d sel). t \<in> set (ck_triggers c)))"
proof -
  have ok: "groups_ok new_dispatcher" and c: "checkers_of new_dispatcher = (\<lambda>sel. [])"
    by (auto simp: groups_ok_def new_dispatcher_def checkers_of_def)
  note r = registrations_ok [OF ok, of rs, unfolded c]
  show ?thesis unfolding Let_def using r trigger_used_iff by blast
qed

section \<open>One review of a daemon at a time\<close>

text \<open>The reviews of a daemon that are under way: running, or waiting for the worker.\<close>

definition in_flight :: "pending_review list \<Rightarrow> review_context list \<Rightarrow> int \<Rightarrow> nat" where
  "in_flight ps cs n =
     count_list (map (\<lambda>p. dm_id (pr_daemon p)) ps) n +
     count_list (map (\<lambda>c. dm_id (rc_subject_daemon c)) cs) n"

lemma in_flight_append:
  "in_flight (ps @ qs) cs n = in_flight ps cs n + in_flight qs [] n"
  "in_flight ps (cs @ ds) n = in_flight ps cs n + in_flight [] ds n"
  by (simp_all add: in_flight_def)

lemma in_flight_Nil [simp]: "in_flight [] [] n = 0"
  by (simp add: in_flight_def)

lemma in_flight_one:
  "in_flight [p] [] n = (if dm_id (pr_daemon p) = n then 1 else 0)"
  "in_flight [] [c] n = (if dm_id (rc_subject_daemon c) = n then 1 else 0)"
  by (simp_all add: in_flight_def)

text \<open>The flag of a daemon is set exactly while one review of it is under way.\<close>

definition flags_exact :: "dispatcher \<Rightarrow> pending_review list \<Rightarrow> review_context list \<Rightarrow> bool" where
  "flags_exact d ps cs \<longleftrightarrow> (\<forall>n. in_flight ps cs n = (if review_in_progress d n then 1 else 0))"

text \<open>The checkers do not replace the daemon under review.\<close>

definition subjects_kept :: "dispatcher \<Rightarrow> bool" where
  "subjects_kept d \<longleftrightarrow> (\<forall>sel g c ctx rep err ctx'.
     dp_groups d sel = Some g \<longrightarrow> c \<in> set (dg_checkers g) \<longrightarrow> ck_fn c ctx = (rep, err, ctx') \<longrightarrow>
     rc_subject_daemon ctx' = rc_subject_daemon ctx)"

lemma run_checkers_subject:
  assumes "\<And>c ctx. c \<in> set cs \<Longrightarrow> rc_subject_daemon (snd (snd (ck_fn c ctx))) = rc_subject_daemon ctx"
  shows "rc_subject_daemon (run_checkers cc cs ctx) = rc_subject_daemon ctx"
  using assms
proof (induction cs arbitrary: ctx)
  case (Cons c cs)
  obtain rep err ctx' where f: "ck_fn c ctx = (rep, err, ctx')" by (cases "ck_fn c ctx")
  then have "rc_subject_daemon ctx' = rc_subject_daemon ctx" using Cons.prems [of c ctx] by simp
  with f Cons.IH Cons.prems show ?case by (simp add: Let_def)
qed simp

lemma run_groups_subject:
  assumes "subjects_kept d"
  shows "rc_subject_daemon (run_groups d sels ctx) = rc_subject_daemon ctx"
proof (induction sels arbitrary: ctx)
  case (Cons sel sels)
  have "rc_subject_daemon (run_checkers (dp_controller d) (dg_checkers g) ctx) = rc_subject_daemon ctx"
    if "dp_groups d sel = Some g" for g
    by (rule run_checkers_subject) (use assms that in \<open>metis subjects_kept_def prod.collapse\<close>)
  with Cons.IH show ?case by (simp split: option.split)
qed simp

lemma run_for_daemon_subject: "subjects_kept d \<Longrightarrow> rc_subject_daemon (run_for_daemon d daemon ts sels cb) = daemon"
  by (simp add: run_for_daemon_def run_groups_subject new_review_context_def)

lemma begin_unchecked_flags:
  assumes "flags_exact d ps cs" and "begin_review_unchecked d daemon ts cb = (d', pr)"
  shows "flags_exact d' (ps @ (case pr of None \<Rightarrow> [] | Some p \<Rightarrow> [p])) cs"
    and "dp_groups d' = dp_groups d" and "dm_id daemon \<noteq> n \<Longrightarrow> review_in_progress d' n = review_in_progress d n"
  using assms
  by (auto simp: begin_review_unchecked_def flags_exact_def review_in_progress_def in_flight_append in_flight_one
      split: if_splits)

lemma internal_reviews_flags:
  assumes "flags_exact d ps cs" and "begin_internal_reviews n cb rs d = (d', prs)"
  shows "flags_exact d' (ps @ prs) cs \<and> dp_groups d' = dp_groups d \<and> review_in_progress d' n = review_in_progress d n"
  using assms
proof (induction rs arbitrary: d d' ps prs)
  case (Cons r rs)
  show ?case
  proof (cases "dm_id r = n")
    case True
    with Cons.prems(2) have "begin_internal_reviews n cb rs d = (d', prs)" by simp
    from Cons.IH [OF Cons.prems(1) this] show ?thesis .
  next
    case False
    obtain d1 pr where b: "begin_review_unchecked d r [InternalRun] cb = (d1, pr)" by fastforce
    obtain d2 prs2 where i: "begin_internal_reviews n cb rs d1 = (d2, prs2)" by fastforce
    have "begin_internal_reviews n cb (r # rs) d = (d2, case pr of None \<Rightarrow> prs2 | Some p \<Rightarrow> p # prs2)"
      using False by (simp only: begin_internal_reviews.simps not_False_eq_True if_True b i prod.case)
    with Cons.prems(2) have e: "d' = d2" "prs = (case pr of None \<Rightarrow> [] | Some p \<Rightarrow> [p]) @ prs2"
      by (simp_all split: option.split)
    note f = begin_unchecked_flags [OF Cons.prems(1) b]
    have "flags_exact d2 ((ps @ (case pr of None \<Rightarrow> [] | Some p \<Rightarrow> [p])) @ prs2) cs \<and> dp_groups d2 = dp_groups d1 \<and>
        review_in_progress d2 n = review_in_progress d1 n"
      by (rule Cons.IH [OF f(1) i])
    with f(2) f(3) [OF False] show ?thesis by (simp only: e append_assoc)
  qed
qed simp

text \<open>A review that is not under way any more: its flag is cleared.\<close>

lemma clear_flag:
  assumes "flags_exact d ps (cs @ ctx # es)"
  shows "flags_exact (d\<lparr>dp_state := (dp_state d)(dm_id (rc_subject_daemon ctx) \<mapsto> False)\<rparr>) ps (cs @ es)"
proof -
  have a: "in_flight ps (cs @ ctx # es) n = in_flight ps (cs @ es) n + (if dm_id (rc_subject_daemon ctx) = n then 1 else 0)" for n
    by (simp add: in_flight_def)
  show ?thesis
    unfolding flags_exact_def
  proof
    fix n
    have "in_flight ps (cs @ ctx # es) n = (if review_in_progress d n then 1 else 0)"
      using assms by (simp add: flags_exact_def)
    then show "in_flight ps (cs @ es) n =
        (if review_in_progress (d\<lparr>dp_state := (dp_state d)(dm_id (rc_subject_daemon ctx) \<mapsto> False)\<rparr>) n then 1 else 0)"
      using a [of n] by (auto simp: review_in_progress_def split: if_splits)
  qed
qed

lemma populate_flags:
  assumes "flags_exact d ps (cs @ ctx # es)" and "populate_reports fault sig d db ctx = Done (err, db', d', prs)"
  shows "flags_exact d' (ps @ prs) (cs @ es) \<and> dp_groups d' = dp_groups d"
proof -
  define n where "n = dm_id (rc_subject_daemon ctx)"
  obtain r where t: "populate_transaction fault sig db ctx = Done r"
    using assms(2) by (auto simp: populate_reports_def)
  show ?thesis
  proof (cases r)
    case (Inl e)
    with assms(2) t have "d' = d\<lparr>dp_state := (dp_state d)(n \<mapsto> False)\<rparr>" "prs = []"
      by (simp_all add: populate_reports_def n_def Let_def)
    with clear_flag [OF assms(1)] show ?thesis by (simp add: n_def)
  next
    case (Inr db1)
    define ir where "ir = (if is_internal_run (rc_triggers ctx) then (d, []) else
      begin_internal_reviews n (rc_has_callback ctx) (rc_ref_daemons ctx) d)"
    obtain d1 prs1 where i: "ir = (d1, prs1)" by (cases ir)
    with assms(2) t Inr have e: "d' = d1\<lparr>dp_state := (dp_state d1)(n \<mapsto> False)\<rparr>" "prs = prs1"
      by (simp_all add: populate_reports_def n_def [symmetric] Let_def ir_def [symmetric])
    have "flags_exact d1 (ps @ prs) (cs @ ctx # es) \<and> dp_groups d1 = dp_groups d"
      using internal_reviews_flags [OF assms(1), of n] i assms(1) e(2) by (auto simp: ir_def split: if_splits)
    with clear_flag e(1) show ?thesis by (simp add: n_def)
  qed
qed

lemma review_step_flags:
  assumes "review_step sig sd s e s'"
    and "flags_exact (rs_dispatcher s) (rs_running s) (rs_done s)" and "subjects_kept (rs_dispatcher s)"
  shows "flags_exact (rs_dispatcher s') (rs_running s') (rs_done s') \<and> subjects_kept (rs_dispatcher s')"
  using assms
proof cases
  case (begin_call daemon ts cb d pr)
  note b = begin_call(3) [unfolded begin_review_def]
  show ?thesis
  proof (cases "length ts = 0 \<or> is_internal_run ts")
    case True
    then have "d = rs_dispatcher s" "pr = None" using b by auto
    with begin_call assms(2,3) show ?thesis by simp
  next
    case False
    with b have "begin_review_unchecked (rs_dispatcher s) daemon ts cb = (d, pr)" by simp
    from begin_unchecked_flags(1,2) [OF assms(2) this] begin_call assms(3) show ?thesis
      by (simp add: subjects_kept_def)
  qed
next
  case (state_call target name st d)
  then have "dp_state d = dp_state (rs_dispatcher s)" "dp_groups d = dp_groups (rs_dispatcher s)"
    by (auto simp: set_checker_state_def split: option.splits if_splits)
  with state_call assms(2,3) show ?thesis
    by (simp add: flags_exact_def review_in_progress_def subjects_kept_def)
next
  case (checkers_run ps p qs)
  have "rc_subject_daemon (run_for_daemon (rs_dispatcher s) (pr_daemon p) ts sels cb) = pr_daemon p" for ts sels cb
    by (rule run_for_daemon_subject [OF assms(3)])
  then have "in_flight (rs_running s') (rs_done s') n = in_flight (rs_running s) (rs_done s) n" for n
    using checkers_run by (simp add: in_flight_def)
  with checkers_run assms(2,3) show ?thesis by (simp add: flags_exact_def)
next
  case (review_received cs ctx es fault err db' d' prs)
  then show ?thesis
    using populate_flags [of "rs_dispatcher s" "rs_running s" cs ctx es fault sig "rs_db s" err db' d' prs] assms(2,3)
    by (simp add: subjects_kept_def)
qed

text \<open>
  C11: Whatever the order in which reviews are requested, checkers run, internal reviews are
  scheduled, insertions succeed or fail, and states of checkers change, the dispatcher
  reports a review of a daemon as in progress exactly while one is under way (running, or
  waiting to be stored), and there is never a second one of the same daemon.
\<close>
theorem review_exclusion:
  assumes "review_reach sig s0 s" and "rs_running s0 = []" and "rs_done s0 = []"
    and "dp_state (rs_dispatcher s0) = Map.empty" and "subjects_kept (rs_dispatcher s0)"
  shows "in_flight (rs_running s) (rs_done s) n = (if review_in_progress (rs_dispatcher s) n then 1 else 0)"
proof -
  have "flags_exact (rs_dispatcher s) (rs_running s) (rs_done s) \<and> subjects_kept (rs_dispatcher s)"
    using assms
  proof (induction rule: review_reach.induct)
    case (review_refl s)
    then show ?case by (simp add: flags_exact_def review_in_progress_def)
  next
    case (review_next s0 s' sd e s'')
    then show ?case using review_step_flags by blast
  qed
  then show ?thesis by (simp add: flags_exact_def)
qed

lemma review_exclusion_witness:
  "\<exists>(s :: review_system). rs_running s = [] \<and> length (rs_done s) = 1 \<and>
     in_flight (rs_running s) (rs_done s) 7 = (if review_in_progress (rs_dispatcher s) 7 then 1 else 0)"
proof -
  define d where "d = (\<lparr>dm_id = 7, dm_name = ''dhcp4'', dm_config_hash = None\<rparr> :: daemon)"
  define dp where "dp = register_checker new_dispatcher KeaDaemon ''c'' [ManualRun] (\<lambda>ctx. (None, None, ctx))"
  define s0 where "s0 = (\<lparr>rs_dispatcher = dp, rs_db = \<lparr>rdb_daemons = [], rdb_reports = [], rdb_reviews = Map.empty\<rparr>,
     rs_running = [], rs_done = []\<rparr> :: review_system)"
  obtain d1 pr where b: "begin_review dp d [ManualRun] False = (d1, pr)" by fastforce
  have "snd (begin_review dp d [ManualRun] False) \<noteq> None \<and> dm_id (the (map_option pr_daemon (snd (begin_review dp d [ManualRun] False)))) = 7"
    unfolding d_def dp_def by code_simp
  then obtain p where p: "pr = Some p" "dm_id (pr_daemon p) = 7" using b by auto
  define s1 where "s1 = s0\<lparr>rs_dispatcher := d1, rs_running := [p]\<rparr>"
  have r1: "review_reach sig s0 s1" for sig
  proof (rule review_next [OF review_refl])
    show "review_step sig False s0 None s1"
      using begin_call [of s0 d "[ManualRun]" False d1 pr sig False] b p by (simp add: s0_def s1_def)
  qed
  define s2 where "s2 = s1\<lparr>rs_running := [], rs_done := [run_for_daemon d1 (pr_daemon p) (pr_triggers p) (pr_selectors p) (pr_callback p)]\<rparr>"
  have r2: "review_reach sig s0 s2" for sig
  proof (rule review_next [OF r1])
    show "review_step sig False s1 None s2"
      using checkers_run [of s1 "[]" p "[]" sig False] by (simp add: s1_def s2_def s0_def)
  qed
  have k: "subjects_kept (rs_dispatcher s0)"
    by (auto simp: subjects_kept_def s0_def dp_def register_checker_def new_dispatcher_def new_dispatch_group_def
        append_checker_def split: if_splits)
  have "in_flight (rs_running s2) (rs_done s2) 7 = (if review_in_progress (rs_dispatcher s2) 7 then 1 else 0)"
    by (rule review_exclusion [OF r2 _ _ _ k]) (simp_all add: s0_def dp_def register_checker_def new_dispatcher_def)
  then show ?thesis
    by (intro exI [of _ s2]) (simp add: s2_def)
qed

section \<open>What an insertion leaves\<close>

lemma delete_loop_reports:
  assumes "delete_loop fault n first ds db = Inr db'"
  shows "db' = db\<lparr>rdb_reports := filter (\<lambda>r. cr_daemon_id r \<notin> dm_id ` set (case ds of [] \<Rightarrow> [] |
     d # es \<Rightarrow> (if first then [d] else []) @ filter (\<lambda>d. dm_id d \<noteq> n) ds)) (rdb_reports db)\<rparr>"
  using assms
proof (induction ds arbitrary: first db)
  case (Cons d ds)
  have rest: "(case ds of [] \<Rightarrow> [] | e # es \<Rightarrow> (if False then [e] else []) @ filter (\<lambda>d. dm_id d \<noteq> n) ds) =
      filter (\<lambda>d. dm_id d \<noteq> n) ds"
    by (cases ds) simp_all
  show ?case
  proof (cases "first \<or> dm_id d \<noteq> n")
    case True
    with Cons.prems obtain db1 where f: "delete_config_reports fault db (dm_id d) = Inr db1"
      and l: "delete_loop fault n False ds db1 = Inr db'"
      by (auto split: sum.splits)
    then have d1: "db1 = db\<lparr>rdb_reports := filter (\<lambda>r. cr_daemon_id r \<noteq> dm_id d) (rdb_reports db)\<rparr>"
      by (auto simp: delete_config_reports_def split: option.splits)
    show ?thesis
    proof -
      have "filter (\<lambda>r. cr_daemon_id r \<notin> dm_id ` set (filter (\<lambda>d. dm_id d \<noteq> n) ds)) (rdb_reports db1) =
          filter (\<lambda>r. cr_daemon_id r \<notin> dm_id ` set ((if first then [d] else []) @ filter (\<lambda>d. dm_id d \<noteq> n) (d # ds))) (rdb_reports db)"
        using True by (auto simp: d1 intro!: filter_cong)
      then show ?thesis using Cons.IH [OF l] by (simp only: rest list.case) (simp add: d1)
    qed
  next
    case False
    with Cons.prems have "delete_loop fault n False ds db = Inr db'" by simp
    from Cons.IH [OF this] False show ?thesis unfolding rest by simp
  qed
qed simp

lemma add_config_report_Inr:
  "add_config_report fault db r = Inr db' \<Longrightarrow> cr_content r \<noteq> Some [] \<and> db' = db\<lparr>rdb_reports := rdb_reports db @ [stored_report r]\<rparr>"
  by (auto simp: add_config_report_def split: if_splits option.splits)

definition inserted_reports :: "tagged_report list \<Rightarrow> config_report list" where
  "inserted_reports ts = map (\<lambda>t. stored_report (config_report_of (tr_checker_name t) (the (tr_report t)))) ts"

lemma add_reports_Inr:
  "add_reports fault ts db = Done (Inr db') \<Longrightarrow>
     (\<forall>t \<in> set ts. tr_report t \<noteq> None) \<and> db' = db\<lparr>rdb_reports := rdb_reports db @ inserted_reports ts\<rparr>"
proof (induction ts arbitrary: db)
  case (Cons t ts)
  then obtain r where r: "tr_report t = Some r" by (auto split: option.splits)
  with Cons.prems obtain db1 where a: "add_config_report fault db (config_report_of (tr_checker_name t) r) = Inr db1"
    and l: "add_reports fault ts db1 = Done (Inr db')"
    by (auto split: sum.splits)
  from add_config_report_Inr [OF a] Cons.IH [OF l] r show ?case by (simp add: inserted_reports_def)
qed (simp add: inserted_reports_def)

lemma populate_transaction_Inr:
  assumes "populate_transaction fault sig db ctx = Done (Inr db')"
  shows "\<exists>db1. (if is_internal_run (rc_triggers ctx) then db1 = db
      else delete_loop fault (dm_id (rc_subject_daemon ctx)) True (rc_subject_daemon ctx # rc_ref_daemons ctx) db = Inr db1) \<and>
    add_reports fault (rc_reports ctx) db1 = Done (Inr (db'\<lparr>rdb_reviews := rdb_reviews db1\<rparr>)) \<and>
    length (get_daemons_for_update db (dm_config_hash (rc_subject_daemon ctx) \<noteq> None) (rc_subject_daemon ctx # rc_ref_daemons ctx)) =
      Suc (length (rc_ref_daemons ctx)) \<and>
    rdb_reviews db' = (case dm_config_hash (rc_subject_daemon ctx) of None \<Rightarrow> rdb_reviews db1
      | Some h \<Rightarrow> (rdb_reviews db1)(dm_id (rc_subject_daemon ctx) \<mapsto> (h, sig)))"
proof -
  let ?int = "is_internal_run (rc_triggers ctx)" and ?s = "rc_subject_daemon ctx"
  define ds where "ds = ?s # rc_ref_daemons ctx"
  define dl where "dl = (if ?int then Inr db else delete_loop fault (dm_id ?s) True ds db)"
  note u = assms [unfolded populate_transaction_def Let_def, folded ds_def, folded dl_def]
  have f: "fault OpBegin = None" "fault OpSelect = None" using u by (auto split: option.splits)
  note u = u [unfolded f option.case]
  define rows where "rows = get_daemons_for_update db (dm_config_hash ?s \<noteq> None) ds"
  note u = u [folded rows_def]
  have n: "length rows = length ds" using u by (auto split: if_splits)
  have c: "changed_daemon rows ds = None" using u n by (auto split: option.splits)
  note u = u [unfolded n c option.case, simplified]
  obtain db1 where d: "dl = Inr db1" using u by (cases dl) simp_all
  note u = u [unfolded d sum.case bind_run_Done_iff]
  then obtain y where y: "add_reports fault (rc_reports ctx) db1 = Done y" by blast
  note u = u [unfolded y]
  obtain db2 where "y = Inr db2" using u by (cases y) simp_all
  with y have a: "add_reports fault (rc_reports ctx) db1 = Done (Inr db2)" by simp
  note u = u [unfolded \<open>y = Inr db2\<close>, simplified]
  have db2: "db2 = db'\<lparr>rdb_reviews := rdb_reviews db1\<rparr>" and
    rv: "rdb_reviews db' = (case dm_config_hash ?s of None \<Rightarrow> rdb_reviews db1
      | Some h \<Rightarrow> (rdb_reviews db1)(dm_id ?s \<mapsto> (h, sig)))"
    using u add_reports_Inr [OF a] by (auto split: option.splits)
  show ?thesis
  proof (intro exI [of _ db1] conjI)
    show "if ?int then db1 = db else delete_loop fault (dm_id ?s) True (?s # rc_ref_daemons ctx) db = Inr db1"
      using d by (auto simp: dl_def ds_def)
  qed (use a db2 rv n in \<open>simp_all add: rows_def ds_def\<close>)
qed

lemma populate_reports_cases:
  assumes "populate_reports fault sig d db ctx = Done (err, db', d', prs)"
  shows "(\<exists>e. err = Some e \<and> populate_transaction fault sig db ctx = Done (Inl e) \<and> db' = db \<and> prs = []) \<or>
    (err = None \<and> populate_transaction fault sig db ctx = Done (Inr db'))"
    and "\<not> review_in_progress d' (dm_id (rc_subject_daemon ctx))"
proof -
  obtain r where t: "populate_transaction fault sig db ctx = Done r"
    using assms by (auto simp: populate_reports_def)
  then show "(\<exists>e. err = Some e \<and> populate_transaction fault sig db ctx = Done (Inl e) \<and> db' = db \<and> prs = []) \<or>
    (err = None \<and> populate_transaction fault sig db ctx = Done (Inr db'))"
    and "\<not> review_in_progress d' (dm_id (rc_subject_daemon ctx))"
    using assms by (cases r; auto simp: populate_reports_def Let_def review_in_progress_def split: prod.splits)+
qed

text \<open>
  C12: An insertion of reports is all or nothing.  When it fails, for whatever reason, the
  database is as before and no internal review is scheduled.  When it succeeds after an
  external review, the reports of the daemon under review and of all daemons referred to are
  replaced by those of the review, and no others change; after an internal one they are only
  added; for a Kea daemon the hash of the reviewed configuration is stored with the
  signature.  In every case the daemon is no longer under review.
\<close>
theorem populate_reports_atomic:
  assumes "populate_reports fault sig d db ctx = Done (err, db', d', prs)"
  shows "\<not> review_in_progress d' (dm_id (rc_subject_daemon ctx)) \<and>
    (case err of
       Some e \<Rightarrow> db' = db \<and> prs = []
     | None \<Rightarrow>
         rdb_reports db' =
           (if is_internal_run (rc_triggers ctx) then rdb_reports db
            else filter (\<lambda>r. cr_daemon_id r \<notin> dm_id ` set (rc_subject_daemon ctx # rc_ref_daemons ctx)) (rdb_reports db))
           @ inserted_reports (rc_reports ctx) \<and>
         rdb_reviews db' =
           (case dm_config_hash (rc_subject_daemon ctx) of
              None \<Rightarrow> rdb_reviews db
            | Some h \<Rightarrow> (rdb_reviews db)(dm_id (rc_subject_daemon ctx) \<mapsto> (h, sig))) \<and>
         rdb_daemons db' = rdb_daemons db)"
proof (cases err)
  case None
  then have t: "populate_transaction fault sig db ctx = Done (Inr db')"
    using populate_reports_cases(1) [OF assms] by simp
  let ?s = "rc_subject_daemon ctx"
  from populate_transaction_Inr [OF t] obtain db1 where
    d: "if is_internal_run (rc_triggers ctx) then db1 = db
        else delete_loop fault (dm_id ?s) True (?s # rc_ref_daemons ctx) db = Inr db1"
    and a: "add_reports fault (rc_reports ctx) db1 = Done (Inr (db'\<lparr>rdb_reviews := rdb_reviews db1\<rparr>))"
    and rv: "rdb_reviews db' = (case dm_config_hash ?s of None \<Rightarrow> rdb_reviews db1
      | Some h \<Rightarrow> (rdb_reviews db1)(dm_id ?s \<mapsto> (h, sig)))" by blast
  have ids: "dm_id ` set ([?s] @ filter (\<lambda>d. dm_id d \<noteq> dm_id ?s) (?s # rc_ref_daemons ctx)) =
      dm_id ` set (?s # rc_ref_daemons ctx)" by auto
  note dl = delete_loop_reports [of fault "dm_id ?s" True "?s # rc_ref_daemons ctx" db db1, unfolded list.case if_True ids]
  have d1: "db1 = db\<lparr>rdb_reports := (if is_internal_run (rc_triggers ctx) then rdb_reports db
      else filter (\<lambda>r. cr_daemon_id r \<notin> dm_id ` set (?s # rc_ref_daemons ctx)) (rdb_reports db))\<rparr>"
  proof (cases "is_internal_run (rc_triggers ctx)")
    case False
    with d have "delete_loop fault (dm_id ?s) True (?s # rc_ref_daemons ctx) db = Inr db1" by (simp only: if_False)
    from dl [OF this] False show ?thesis by (simp only: if_False)
  qed (use d in simp)
  have "db'\<lparr>rdb_reviews := rdb_reviews db1\<rparr> = db1\<lparr>rdb_reports := rdb_reports db1 @ inserted_reports (rc_reports ctx)\<rparr>"
    using add_reports_Inr [OF a] by blast
  then have "rdb_reports db' = rdb_reports db1 @ inserted_reports (rc_reports ctx) \<and> rdb_daemons db' = rdb_daemons db1"
    by (metis review_db.ext_inject review_db.surjective review_db.update_convs(2,3))
  moreover have r1: "rdb_reviews db1 = rdb_reviews db" by (simp add: d1)
  ultimately show ?thesis
    using None rv [unfolded r1] populate_reports_cases(2) [OF assms] by (simp add: d1)
qed (use populate_reports_cases [OF assms] in auto)

lemma populate_reports_atomic_witness:
  "\<exists>(db' :: review_db) (d' :: dispatcher). map cr_checker_name (rdb_reports db') = [''other'', ''new''] \<and> \<not> review_in_progress d' 1 \<and>
     rdb_reviews db' 1 = Some (''h'', ''s'')"
proof -
  define s where "s = (\<lparr>dm_id = 1, dm_name = ''dhcp4'', dm_config_hash = Some ''h''\<rparr> :: daemon)"
  define ctx where "ctx = \<lparr>rc_subject_daemon = s, rc_ref_daemons = [],
    rc_reports = [\<lparr>tr_checker_name = ''new'', tr_report = Some \<lparr>rp_content = None, rp_daemon_id = 1, rp_ref_daemon_ids = []\<rparr>\<rparr>],
    rc_has_callback = False, rc_triggers = [ManualRun]\<rparr>"
  define db where "db = \<lparr>rdb_daemons = [(1, Some ''h''), (2, None)],
    rdb_reports = [\<lparr>cr_checker_name = ''old'', cr_content = None, cr_daemon_id = 1, cr_ref_daemons = []\<rparr>,
      \<lparr>cr_checker_name = ''other'', cr_content = None, cr_daemon_id = 2, cr_ref_daemons = []\<rparr>], rdb_reviews = Map.empty\<rparr>"
  obtain err db' d' prs where p: "populate_reports (\<lambda>_. None) ''s'' new_dispatcher db ctx = Done (err, db', d', prs)"
    and e: "err = None"
    by (simp add: populate_reports_def populate_transaction_def db_def ctx_def s_def Let_def is_internal_run_def
        get_daemons_for_update_def delete_config_reports_def add_config_report_def config_report_of_def)
  from populate_reports_atomic [OF p] e show ?thesis
    by (intro exI [of _ db'] exI [of _ d'])
      (auto simp: ctx_def s_def db_def is_internal_run_def inserted_reports_def config_report_of_def stored_report_def)
qed

section \<open>The metadata and the preferences of the checkers\<close>

record checker_metadata =
  md_name :: string
  md_triggers :: "trigger list"
  md_selectors :: "selector list"
  md_globally_enabled :: bool
  md_state :: checker_state

definition new_checker_metadata ::
    "string \<Rightarrow> trigger list \<Rightarrow> selector list \<Rightarrow> bool \<Rightarrow> checker_state \<Rightarrow> checker_metadata" where
  "new_checker_metadata name ts sels enabled state =
     \<lparr>md_name = name, md_triggers = ts, md_selectors = sels, md_globally_enabled = enabled, md_state = state\<rparr>"

text \<open>
  The maps from a name to the checker seen last under that name and to its selectors.  The
  order in which the map of groups is visited is arbitrary: it is the argument \<open>order\<close>.
\<close>

fun collect_checker ::
    "selector \<Rightarrow> checker \<Rightarrow> (string \<times> checker \<times> selector list) list \<Rightarrow> (string \<times> checker \<times> selector list) list" where
  "collect_checker sel c [] = [(ck_name c, c, [sel])]"
| "collect_checker sel c ((n, c', sels) # es) =
     (if n = ck_name c then (n, c, sels @ [sel]) # es else (n, c', sels) # collect_checker sel c es)"

fun collect_groups ::
    "dispatcher \<Rightarrow> (selector \<Rightarrow> bool) \<Rightarrow> selector list \<Rightarrow> (string \<times> checker \<times> selector list) list \<Rightarrow>
     (string \<times> checker \<times> selector list) list" where
  "collect_groups d available [] es = es"
| "collect_groups d available (sel # sels) es =
     collect_groups d available sels
       (case dp_groups d sel of
          None \<Rightarrow> es
        | Some g \<Rightarrow> if available sel then fold (collect_checker sel) (dg_checkers g) es else es)"

definition metadata_of :: "checker_controller \<Rightarrow> daemon option \<Rightarrow> string \<times> checker \<times> selector list \<Rightarrow> checker_metadata" where
  "metadata_of cc target e =
     (case e of (n, c, sels) \<Rightarrow>
        (let global = get_global_state cc (ck_name c)
         in new_checker_metadata (ck_name c) (ck_triggers c) sels (global = Enabled)
              (case target of None \<Rightarrow> global | Some daemon \<Rightarrow> get_state_for_daemon cc (dm_id daemon) (ck_name c))))"

definition get_checkers_metadata ::
    "dispatcher \<Rightarrow> selector list \<Rightarrow> daemon option \<Rightarrow> dispatcher_error + checker_metadata list" where
  "get_checkers_metadata d order target =
     (let selectors = (case target of None \<Rightarrow> [] | Some daemon \<Rightarrow> get_dispatch_group_selectors (dm_name daemon)) in
      if target \<noteq> None \<and> selectors = [] then Inl (NoSelectors (dm_name (the target)))
      else Inr (slices_sort (\<lambda>a b. strings_compare (md_name a) (md_name b))
             (map (metadata_of (dp_controller d) target)
               (collect_groups d (\<lambda>sel. target = None \<or> sel \<in> set selectors) order []))))"

record checker_preference =
  cp_daemon_id :: "int option"
  cp_checker_name :: string
  cp_enabled :: bool

definition is_global :: "checker_preference \<Rightarrow> bool" where
  "is_global p = (cp_daemon_id p = None)"

definition get_daemon_id :: "checker_preference \<Rightarrow> int" where
  "get_daemon_id p = (case cp_daemon_id p of None \<Rightarrow> 0 | Some n \<Rightarrow> n)"

datatype load_error = LookupFailed string | UnknownDaemon int

text \<open>
  Loading the preferences.  \<open>lookup\<close> is the search for a daemon in the database; the daemons
  found are cached.  A preference that cannot be set is skipped.
\<close>

fun load_preferences ::
    "(int \<Rightarrow> string + daemon option) \<Rightarrow> (int \<rightharpoonup> daemon) \<Rightarrow> checker_preference list \<Rightarrow> dispatcher \<Rightarrow>
     load_error option \<times> dispatcher" where
  "load_preferences lookup cache [] d = (None, d)"
| "load_preferences lookup cache (p # ps) d =
     (let state = (if cp_enabled p then Enabled else Disabled);
          try_set = (\<lambda>target. case set_checker_state d target (cp_checker_name p) state of Inl _ \<Rightarrow> d | Inr d' \<Rightarrow> d')
      in if is_global p then load_preferences lookup cache ps (try_set None)
         else (case cache (get_daemon_id p) of
                 Some daemon \<Rightarrow> load_preferences lookup cache ps (try_set (Some daemon))
               | None \<Rightarrow>
                   (case lookup (get_daemon_id p) of
                      Inl e \<Rightarrow> (Some (LookupFailed e), d)
                    | Inr None \<Rightarrow> (Some (UnknownDaemon (get_daemon_id p)), d)
                    | Inr (Some daemon) \<Rightarrow>
                        load_preferences lookup (cache(get_daemon_id p \<mapsto> daemon)) ps (try_set (Some daemon)))))"

definition load_and_validate_checker_preferences ::
    "(string + checker_preference list) \<Rightarrow> (int \<Rightarrow> string + daemon option) \<Rightarrow> dispatcher \<Rightarrow> load_error option \<times> dispatcher" where
  "load_and_validate_checker_preferences preferences lookup d =
     (case preferences of
        Inl e \<Rightarrow> (Some (LookupFailed e), d)
      | Inr ps \<Rightarrow> load_preferences lookup Map.empty ps d)"

lemma collect_checker_names: "fst ` set (collect_checker sel c es) = insert (ck_name c) (fst ` set es)"
  by (induction sel c es rule: collect_checker.induct) auto

lemma collect_checker_distinct: "distinct (map fst es) \<Longrightarrow> distinct (map fst (collect_checker sel c es))"
proof (induction sel c es rule: collect_checker.induct)
  case (2 sel c n c' sels es)
  have "fst ` set (collect_checker sel c es) = insert (ck_name c) (fst ` set es)" by (rule collect_checker_names)
  with 2 show ?case by auto
qed simp

text \<open>The entries: distinct names, each that of its checker.\<close>

definition entries_ok :: "(string \<times> checker \<times> selector list) list \<Rightarrow> bool" where
  "entries_ok es \<longleftrightarrow> distinct (map fst es) \<and> (\<forall>(n, c, sels) \<in> set es. ck_name c = n)"

lemma collect_checker_ok: "entries_ok es \<Longrightarrow> entries_ok (collect_checker sel c es)"
proof -
  have "(\<forall>(n, c, sels) \<in> set es. ck_name c = n) \<Longrightarrow> (\<forall>(n, c, sels) \<in> set (collect_checker sel c es). ck_name c = n)"
    by (induction sel c es rule: collect_checker.induct) auto
  then show "entries_ok es \<Longrightarrow> entries_ok (collect_checker sel c es)"
    using collect_checker_distinct by (auto simp: entries_ok_def)
qed

lemma collect_fold:
  "fst ` set (fold (collect_checker sel) cs es) = ck_name ` set cs \<union> fst ` set es"
  "entries_ok es \<Longrightarrow> entries_ok (fold (collect_checker sel) cs es)"
  by (induction cs arbitrary: es) (auto simp: collect_checker_names collect_checker_ok)

lemma collect_groups_ok:
  "entries_ok es \<Longrightarrow> entries_ok (collect_groups d available sels es)"
  by (induction d available sels es rule: collect_groups.induct) (simp_all add: collect_fold split: option.split)

lemma collect_groups_names:
  "fst ` set (collect_groups d available sels es) =
     fst ` set es \<union> {n. \<exists>sel \<in> set sels. available sel \<and> n \<in> ck_name ` set (checkers_of d sel)}"
proof (induction d available sels es rule: collect_groups.induct)
  case (2 d available sel sels es)
  then show ?case
    by (cases "dp_groups d sel") (auto simp: collect_fold checkers_of_def)
qed simp

lemma is_available_iff:
  "is_checker_available_for_daemon d n daemon \<longleftrightarrow>
     (\<exists>sel \<in> set (get_dispatch_group_selectors (dm_name daemon)). n \<in> ck_name ` set (checkers_of d sel))"
proof -
  have "(case dp_groups d sel of None \<Rightarrow> False | Some g \<Rightarrow> n \<in> ck_name ` set (dg_checkers g)) =
      (n \<in> ck_name ` set (checkers_of d sel))" for sel
    by (simp add: checkers_of_def split: option.split)
  then show ?thesis by (simp only: is_checker_available_for_daemon_def)
qed

interpretation metadata_by_name: comparison "\<lambda>a b. strings_compare (md_name a) (md_name b)"
  by (rule string_order.comparison_by)

lemma metadata_of_name: "ck_name c = n \<Longrightarrow> md_name (metadata_of cc target (n, c, sels)) = n"
  by (simp add: metadata_of_def new_checker_metadata_def Let_def)

lemma metadata_names:
  assumes "get_checkers_metadata d order target = Inr ms"
  shows "mset (map md_name ms) = mset (map fst (collect_groups d
      (\<lambda>sel. target = None \<or> sel \<in> set (get_dispatch_group_selectors (dm_name (the target)))) order []))"
    and "sorted_by (\<lambda>a b. strings_compare (md_name a) (md_name b)) ms"
    and "target = Some daemon \<Longrightarrow> m \<in> set ms \<Longrightarrow>
      is_checker_enabled_for_daemon (dp_controller d) (dm_id daemon) (md_name m) =
        (case md_state m of Inherit \<Rightarrow> md_globally_enabled m | Enabled \<Rightarrow> True | Disabled \<Rightarrow> False)"
proof -
  let ?av = "\<lambda>sel. target = None \<or> sel \<in> set (get_dispatch_group_selectors (dm_name (the target)))"
  define es where "es = collect_groups d ?av order []"
  have ms: "ms = slices_sort (\<lambda>a b. strings_compare (md_name a) (md_name b)) (map (metadata_of (dp_controller d) target) es)"
    using assms by (cases target) (auto simp: get_checkers_metadata_def es_def Let_def split: if_splits)
  have ok: "entries_ok es"
    unfolding es_def by (rule collect_groups_ok) (simp add: entries_ok_def)
  have n: "map md_name (map (metadata_of (dp_controller d) target) es) = map fst es"
    using ok by (auto simp: entries_ok_def metadata_of_name)
  have "mset (map md_name ms) = image_mset md_name (mset (map (metadata_of (dp_controller d) target) es))"
    by (simp only: ms mset_map mset_slices_sort)
  also have "\<dots> = mset (map fst es)"
    by (simp only: n flip: mset_map)
  finally show "mset (map md_name ms) = mset (map fst es)" .

  show "sorted_by (\<lambda>a b. strings_compare (md_name a) (md_name b)) ms"
    unfolding ms by (rule metadata_by_name.sorted_slices_sort)
  assume "target = Some daemon" and "m \<in> set ms"
  then obtain e where "m = metadata_of (dp_controller d) (Some daemon) e" by (auto simp: ms)
  then show "is_checker_enabled_for_daemon (dp_controller d) (dm_id daemon) (md_name m) =
        (case md_state m of Inherit \<Rightarrow> md_globally_enabled m | Enabled \<Rightarrow> True | Disabled \<Rightarrow> False)"
    using controller.global_decided
    by (cases e) (simp add: metadata_of_def new_checker_metadata_def Let_def controller.enabled_iff split: checker_state.split)
qed

text \<open>
  The metadata list every available checker once, sorted by name, whatever the order in
  which the map of the groups is visited: for a daemon the checkers that may be set for it,
  and otherwise all that are registered.  The states shown explain whether the checker
  runs: the state for the daemon if there is one, and the global one if it is inherited.
\<close>
theorem checkers_metadata_complete:
  assumes "get_checkers_metadata d order target = Inr ms" and "dom (dp_groups d) \<subseteq> set order"
  shows "sorted_wrt (\<lambda>a b. strings_compare (md_name a) (md_name b) < 0) ms \<and>
    md_name ` set ms =
      (case target of
         None \<Rightarrow> {n. \<exists>sel. n \<in> ck_name ` set (checkers_of d sel)}
       | Some daemon \<Rightarrow> {n. is_checker_available_for_daemon d n daemon}) \<and>
    (\<forall>daemon m. target = Some daemon \<longrightarrow> m \<in> set ms \<longrightarrow>
      is_checker_enabled_for_daemon (dp_controller d) (dm_id daemon) (md_name m) =
        (case md_state m of Inherit \<Rightarrow> md_globally_enabled m | Enabled \<Rightarrow> True | Disabled \<Rightarrow> False))"
proof (intro conjI allI impI)
  let ?av = "\<lambda>sel. target = None \<or> sel \<in> set (get_dispatch_group_selectors (dm_name (the target)))"
  define es where "es = collect_groups d ?av order []"
  note names = metadata_names(1) [OF assms(1), folded es_def]
  have "entries_ok es" unfolding es_def by (rule collect_groups_ok) (simp add: entries_ok_def)
  then have dist: "distinct (map md_name ms)"
    by (simp add: mset_eq_imp_distinct_iff [OF names] entries_ok_def)
  have "sorted_wrt (\<lambda>a b. strings_compare (md_name a) (md_name b) \<le> 0) ms"
    using metadata_names(2) [OF assms(1)] by (simp add: sorted_by_def)
  then show "sorted_wrt (\<lambda>a b. strings_compare (md_name a) (md_name b) < 0) ms"
    using dist
  proof (induction ms)
    case (Cons m ms)
    have "strings_compare (md_name m) (md_name m') < 0" if "m' \<in> set ms" for m'
    proof -
      from that Cons.prems have "strings_compare (md_name m) (md_name m') \<le> 0" and "md_name m \<noteq> md_name m'" by auto
      then show ?thesis by (simp add: strings_compare_def split: if_splits)
    qed
    with Cons show ?case by simp
  qed simp
  have grouped: "sel \<in> set order" if "c \<in> set (checkers_of d sel)" for c sel
    using assms(2) that by (cases "dp_groups d sel") (auto simp: checkers_of_def)
  have "md_name ` set ms = fst ` set es"
    using arg_cong [OF names, of set_mset] by simp
  also have "\<dots> = {n. \<exists>sel. ?av sel \<and> n \<in> ck_name ` set (checkers_of d sel)}"
    unfolding es_def collect_groups_names using grouped by auto
  also have "\<dots> = (case target of
         None \<Rightarrow> {n. \<exists>sel. n \<in> ck_name ` set (checkers_of d sel)}
       | Some daemon \<Rightarrow> {n. is_checker_available_for_daemon d n daemon})"
    by (auto simp: is_available_iff split: option.split)
  finally show "md_name ` set ms = (case target of
         None \<Rightarrow> {n. \<exists>sel. n \<in> ck_name ` set (checkers_of d sel)}
       | Some daemon \<Rightarrow> {n. is_checker_available_for_daemon d n daemon})" .
qed (rule metadata_names(3) [OF assms(1)])

lemma checkers_metadata_complete_witness:
  "\<exists>ms. map md_name ms = [''a'', ''b''] \<and> md_name ` set (ms :: checker_metadata list) \<noteq> {}"
proof -
  define d where "d = register_checker (register_checker new_dispatcher KeaDHCPDaemon ''b'' [ManualRun] (\<lambda>ctx. (None, None, ctx)))
      KeaDaemon ''a'' [ConfigModified] (\<lambda>ctx. (None, None, ctx))"
  define t where "t = (\<lparr>dm_id = 1, dm_name = ''dhcp4'', dm_config_hash = None\<rparr> :: daemon)"
  have "(case get_checkers_metadata d [KeaDHCPDaemon, KeaDaemon] (Some t) of Inl e \<Rightarrow> [] | Inr ms \<Rightarrow> map md_name ms) = [''a'', ''b'']"
    unfolding d_def t_def by code_simp
  then obtain ms where ms: "get_checkers_metadata d [KeaDHCPDaemon, KeaDaemon] (Some t) = Inr ms" "map md_name ms = [''a'', ''b'']"
    by (cases "get_checkers_metadata d [KeaDHCPDaemon, KeaDaemon] (Some t)") auto
  have "dom (dp_groups d) \<subseteq> set [KeaDHCPDaemon, KeaDaemon]"
    by (auto simp: d_def register_checker_def new_dispatcher_def Let_def)
  from checkers_metadata_complete [OF ms(1) this] ms(2) show ?thesis
    by (intro exI [of _ ms]) auto
qed

end
