(* ===== verification/Go_Net.thy ===== *)
theory Go_Net
  imports Go_Strings "HOL-Library.Word" "HOL-Library.Code_Target_Nat"
begin

text \<open>
  The part of the Go package \<open>net\<close> (and of \<open>net/netip\<close> below it) that the modelled code calls:
  textual IP addresses and networks, masks, comparisons.  A \<open>net.IP\<close> is a slice of bytes; the
  functions here produce 4 or 16 of them, and an IPv4 address in 16 bytes is IPv4-mapped.
\<close>

unbundle bit_operations_syntax

section \<open>Parsing addresses\<close>

datatype addr = Addr4 (addr_bytes: "8 word list") | Addr6 (addr_bytes: "8 word list")

definition v4_in_v6_prefix :: "8 word list" where
  "v4_in_v6_prefix = replicate 10 0 @ [0xFF, 0xFF]"

text \<open>\<open>netip.parseIPv4Fields\<close>: the loop over the bytes, with the previous one.\<close>

fun v4_loop :: "char option \<Rightarrow> string \<Rightarrow> nat \<Rightarrow> nat \<Rightarrow> 8 word list \<Rightarrow> 8 word list option" where
  "v4_loop prev [] val dig_len fields =
     (if length fields < 3 then None else Some (fields @ [word_of_nat val]))"
| "v4_loop prev (c # s) val dig_len fields =
     (if is_digit c then
        (if dig_len = 1 \<and> val = 0 then None
         else if val * 10 + digit_val c > 255 then None
         else v4_loop (Some c) s (val * 10 + digit_val c) (dig_len + 1) fields)
      else if c = CHR ''.'' then
        (if prev = None \<or> s = [] \<or> prev = Some CHR ''.'' then None
         else if length fields = 3 then None
         else v4_loop (Some c) s 0 0 (fields @ [word_of_nat val]))
      else None)"

definition parse_ipv4_fields :: "string \<Rightarrow> 8 word list option" where
  "parse_ipv4_fields s = v4_loop None s 0 0 []"

definition hex_digit :: "char \<Rightarrow> nat option" where
  "hex_digit c =
     (let n = of_char c :: nat in
      if 48 \<le> n \<and> n \<le> 57 then Some (n - 48)
      else if 97 \<le> n \<and> n \<le> 102 then Some (n - 97 + 10)
      else if 65 \<le> n \<and> n \<le> 70 then Some (n - 65 + 10)
      else None)"

text \<open>One group of hexadecimal digits: how many, the value, and what follows.\<close>

fun hex_field :: "nat \<Rightarrow> nat \<Rightarrow> string \<Rightarrow> (nat \<times> nat \<times> string) option" where
  "hex_field off acc [] = Some (off, acc, [])"
| "hex_field off acc (c # s) =
     (case hex_digit c of
        None \<Rightarrow> Some (off, acc, c # s)
      | Some v \<Rightarrow>
          if off > 3 then None
          else if acc * 16 + v > 65535 then None
          else hex_field (off + 1) (acc * 16 + v) s)"

text \<open>
  The loop of \<open>netip.parseIPv6\<close>: the bytes so far and where the ellipsis was; what is left of
  the text when the loop ends.
\<close>

function v6_loop :: "string \<Rightarrow> 8 word list \<Rightarrow> nat option \<Rightarrow> (string \<times> 8 word list \<times> nat option) option" where
  "v6_loop s ip ell =
     (if 16 \<le> length ip then Some (s, ip, ell)
      else (case hex_field 0 0 s of
              None \<Rightarrow> None
            | Some (off, acc, s1) \<Rightarrow>
                if off = 0 then None
                else if s1 \<noteq> [] \<and> hd s1 = CHR ''.'' then
                  (if ell = None \<and> length ip \<noteq> 12 then None
                   else if length ip + 4 > 16 then None
                   else (case parse_ipv4_fields s of
                           None \<Rightarrow> None | Some fields \<Rightarrow> Some ([], ip @ fields, ell)))
                else (let ip' = ip @ [word_of_nat (acc div 256), word_of_nat acc] in
                  case s1 of
                    [] \<Rightarrow> Some ([], ip', ell)
                  | c # s2 \<Rightarrow>
                      if c \<noteq> CHR '':'' then None
                      else if s2 = [] then None
                      else if hd s2 = CHR '':'' then
                        (if ell \<noteq> None then None
                         else if tl s2 = [] then Some ([], ip', Some (length ip'))
                         else v6_loop (tl s2) ip' (Some (length ip')))
                      else v6_loop s2 ip' ell)))"
  by pat_completeness auto
termination by (relation "measure (\<lambda>(s, ip, ell). 16 - length ip)") (auto simp: Let_def)

declare v6_loop.simps [simp del]

text \<open>The end: the whole text is used, and an ellipsis stands for at least one group.\<close>

definition v6_finish :: "string \<times> 8 word list \<times> nat option \<Rightarrow> 8 word list option" where
  "v6_finish r =
     (case r of (s, ip, ell) \<Rightarrow>
        if s \<noteq> [] then None
        else if length ip < 16 then
          (case ell of
             None \<Rightarrow> None
           | Some e \<Rightarrow> Some (take e ip @ replicate (16 - length ip) 0 @ drop e ip))
        else if ell \<noteq> None then None
        else Some ip)"

definition parse_ipv6 :: "string \<Rightarrow> 8 word list option" where
  "parse_ipv6 s =
     (if take 2 s = ''::'' then
        (if drop 2 s = [] then Some (replicate 16 0)
         else Option.bind (v6_loop (drop 2 s) [] (Some 0)) v6_finish)
      else Option.bind (v6_loop s [] None) v6_finish)"

text \<open>
  \<open>netip.ParseAddr\<close> as far as the callers accept it: an address with a zone is refused by
  them, and an empty zone is refused here.
\<close>

fun first_special :: "string \<Rightarrow> char option" where
  "first_special [] = None"
| "first_special (c # s) = (if c \<in> {CHR ''.'', CHR '':'', CHR ''%''} then Some c else first_special s)"

definition parse_addr :: "string \<Rightarrow> addr option" where
  "parse_addr s =
     (case first_special s of
        None \<Rightarrow> None
      | Some c \<Rightarrow>
          if c = CHR ''.'' then map_option Addr4 (parse_ipv4_fields s)
          else if c = CHR ''%'' \<or> CHR ''%'' \<in> set s then None
          else map_option Addr6 (parse_ipv6 s))"

fun as16 :: "addr \<Rightarrow> 8 word list" where
  "as16 (Addr4 b) = v4_in_v6_prefix @ b"
| "as16 (Addr6 b) = b"

fun bit_len :: "addr \<Rightarrow> nat" where
  "bit_len (Addr4 b) = 32"
| "bit_len (Addr6 b) = 128"

definition net_parse_ip :: "string \<Rightarrow> 8 word list option" where
  "net_parse_ip s = map_option as16 (parse_addr s)"

section \<open>Masks and networks\<close>

definition to4 :: "8 word list \<Rightarrow> 8 word list option" where
  "to4 ip =
     (if length ip = 4 then Some ip
      else if length ip = 16 \<and> take 12 ip = v4_in_v6_prefix then Some (drop 12 ip)
      else None)"

definition to16 :: "8 word list \<Rightarrow> 8 word list option" where
  "to16 ip = (if length ip = 4 then Some (v4_in_v6_prefix @ ip) else if length ip = 16 then Some ip else None)"

fun mask_bytes :: "nat \<Rightarrow> nat \<Rightarrow> 8 word list" where
  "mask_bytes 0 n = []"
| "mask_bytes (Suc l) n =
     (if n \<ge> 8 then 0xFF # mask_bytes l (n - 8) else NOT (drop_bit n 0xFF) # mask_bytes l 0)"

definition cidr_mask :: "nat \<Rightarrow> nat \<Rightarrow> 8 word list" where
  "cidr_mask ones bits = mask_bytes (bits div 8) ones"

text \<open>\<open>simpleMaskLength\<close>: the leading ones of a byte, and whether the rest is zero.\<close>

fun leading_ones :: "nat \<Rightarrow> 8 word \<Rightarrow> nat \<times> 8 word" where
  "leading_ones 0 v = (0, v)"
| "leading_ones (Suc k) v =
     (if v AND 0x80 \<noteq> 0 then (case leading_ones k (push_bit 1 v) of (n, w) \<Rightarrow> (Suc n, w)) else (0, v))"

fun simple_mask_length :: "8 word list \<Rightarrow> nat option" where
  "simple_mask_length [] = Some 0"
| "simple_mask_length (v # vs) =
     (if v = 0xFF then map_option ((+) 8) (simple_mask_length vs)
      else (case leading_ones 8 v of
              (n, w) \<Rightarrow> if w \<noteq> 0 \<or> (\<exists>x \<in> set vs. x \<noteq> 0) then None else Some n))"

definition mask_size :: "8 word list \<Rightarrow> nat \<times> nat" where
  "mask_size m = (case simple_mask_length m of None \<Rightarrow> (0, 0) | Some n \<Rightarrow> (n, 8 * length m))"

definition ip_mask :: "8 word list \<Rightarrow> 8 word list \<Rightarrow> 8 word list option" where
  "ip_mask ip m =
     (let m' = (if length m = 16 \<and> length ip = 4 \<and> take 12 m = replicate 12 0xFF then drop 12 m else m);
          ip' = (if length m' = 4 \<and> length ip = 16 \<and> take 12 ip = v4_in_v6_prefix then drop 12 ip else ip)
      in if length ip' \<noteq> length m' then None else Some (map2 (AND) ip' m'))"

definition ip_equal :: "8 word list \<Rightarrow> 8 word list \<Rightarrow> bool" where
  "ip_equal a b =
     (if length a = length b then a = b
      else if length a = 4 \<and> length b = 16 then take 12 b = v4_in_v6_prefix \<and> drop 12 b = a
      else if length a = 16 \<and> length b = 4 then take 12 a = v4_in_v6_prefix \<and> drop 12 a = b
      else False)"

text \<open>\<open>bytes.Compare\<close> is lexicographic.\<close>

definition bytes_compare :: "8 word list \<Rightarrow> 8 word list \<Rightarrow> int" where
  "bytes_compare a b = (if a = b then 0 else if a < b then -1 else 1)"

record ipnet =
  net_ip :: "8 word list"
  net_mask :: "8 word list"

text \<open>\<open>dtoi\<close>: a decimal number below \<open>0xFFFFFF\<close>, and what follows.\<close>

fun dtoi_loop :: "nat \<Rightarrow> string \<Rightarrow> (nat \<times> string) option" where
  "dtoi_loop n [] = Some (n, [])"
| "dtoi_loop n (c # s) =
     (if is_digit c
      then (if n * 10 + digit_val c \<ge> 0xFFFFFF then None else dtoi_loop (n * 10 + digit_val c) s)
      else Some (n, c # s))"

definition net_parse_cidr :: "string \<Rightarrow> (8 word list \<times> ipnet) option" where
  "net_parse_cidr s =
     (case strings_cut CHR ''/'' s of
        None \<Rightarrow> None
      | Some (a, m) \<Rightarrow>
          (case parse_addr a of
             None \<Rightarrow> None
           | Some ad \<Rightarrow>
               if m = [] \<or> \<not> is_digit (hd m) then None
               else (case dtoi_loop 0 m of
                       None \<Rightarrow> None
                     | Some (n, rest) \<Rightarrow>
                         if rest \<noteq> [] \<or> n > bit_len ad then None
                         else (let mask = cidr_mask n (bit_len ad) in
                           map_option (\<lambda>ip. (as16 ad, \<lparr>net_ip = ip, net_mask = mask\<rparr>)) (ip_mask (as16 ad) mask)))))"

section \<open>Writing addresses\<close>

definition hex_char :: "nat \<Rightarrow> char" where
  "hex_char d = char_of (if d < 10 then 48 + d else 87 + d)"

fun hex_str :: "nat \<Rightarrow> string" where
  "hex_str n = (if n < 16 then [hex_char n] else hex_str (n div 16) @ [hex_char (n mod 16)])"

declare hex_str.simps [simp del]

fun groups16 :: "8 word list \<Rightarrow> nat list" where
  "groups16 (a # b # bs) = (unat a * 256 + unat b) # groups16 bs"
| "groups16 _ = []"

text \<open>The first of the longest runs of at least two zero groups.\<close>

fun zero_run :: "nat list \<Rightarrow> nat list \<Rightarrow> (nat \<times> nat) option \<Rightarrow> (nat \<times> nat) option" where
  "zero_run gs [] best = best"
| "zero_run gs (i # is) best =
     (let l = length (takeWhile (\<lambda>g. g = 0) (drop i gs)) in
      zero_run gs is
        (if l \<ge> 2 \<and> l > (case best of None \<Rightarrow> 0 | Some (a, b) \<Rightarrow> b - a) then Some (i, i + l) else best))"

definition v6_string :: "8 word list \<Rightarrow> string" where
  "v6_string ip =
     (let gs = groups16 ip in
      case zero_run gs [0..<8] None of
        None \<Rightarrow> strings_join '':'' (map hex_str gs)
      | Some (a, b) \<Rightarrow> strings_join '':'' (map hex_str (take a gs)) @ ''::'' @ strings_join '':'' (map hex_str (drop b gs)))"

definition v4_string :: "8 word list \<Rightarrow> string" where
  "v4_string ip = strings_join ''.'' (map (\<lambda>b. nat_str (unat b)) ip)"

definition hex_bytes :: "8 word list \<Rightarrow> string" where
  "hex_bytes bs = concat (map (\<lambda>b. [hex_char (unat b div 16), hex_char (unat b mod 16)]) bs)"

definition ip_string :: "8 word list \<Rightarrow> string" where
  "ip_string ip =
     (if ip = [] then ''<nil>''
      else if length ip \<noteq> 4 \<and> length ip \<noteq> 16 then CHR ''?'' # hex_bytes ip
      else (case to4 ip of Some b \<Rightarrow> v4_string b | None \<Rightarrow> v6_string ip))"

definition network_number_and_mask :: "ipnet \<Rightarrow> (8 word list \<times> 8 word list) option" where
  "network_number_and_mask n =
     (let ip = (case to4 (net_ip n) of Some b \<Rightarrow> b | None \<Rightarrow> net_ip n) in
      if length ip \<noteq> 4 \<and> length ip \<noteq> 16 then None
      else if length (net_mask n) = 4 then (if length ip \<noteq> 4 then None else Some (ip, net_mask n))
      else if length (net_mask n) = 16 then Some (ip, if length ip = 4 then drop 12 (net_mask n) else net_mask n)
      else None)"

definition ipnet_string :: "ipnet \<Rightarrow> string" where
  "ipnet_string n =
     (case network_number_and_mask n of
        None \<Rightarrow> ''<nil>''
      | Some (ip, m) \<Rightarrow>
          ip_string ip @ ''/'' @ (case simple_mask_length m of None \<Rightarrow> hex_bytes m | Some l \<Rightarrow> nat_str l))"

section \<open>Lengths\<close>

lemma length_v4_in_v6_prefix [simp]: "length v4_in_v6_prefix = 12"
  by (simp add: v4_in_v6_prefix_def)

lemma v4_loop_length: "v4_loop prev s val d fs = Some bs \<Longrightarrow> length fs \<le> 3 \<Longrightarrow> length bs = 4"
  by (induction prev s val d fs rule: v4_loop.induct) (auto split: if_splits)

lemma parse_ipv4_fields_length: "parse_ipv4_fields s = Some bs \<Longrightarrow> length bs = 4"
  using v4_loop_length [of None s 0 0 "[]"] by (simp add: parse_ipv4_fields_def)

text \<open>What the loop keeps: at most 16 bytes, an even number before the end, and an ellipsis within them.\<close>

lemma v6_loop_length:
  assumes "v6_loop s ip ell = Some (s', ip', ell')" and "length ip \<le> 16" and "even (length ip)"
    and "\<And>e. ell = Some e \<Longrightarrow> e \<le> length ip"
  shows "length ip' \<le> 16 \<and> (\<forall>e. ell' = Some e \<longrightarrow> e \<le> length ip')"
  using assms
proof (induction s ip ell arbitrary: s' ip' ell' rule: v6_loop.induct)
  case (1 s ip ell)
  show ?case
  proof (cases "16 \<le> length ip")
    case True
    with 1 show ?thesis by (simp add: v6_loop.simps [of s ip ell])
  next
    case False
    then have l: "length ip + 2 \<le> 16" using 1(5) by presburger
    obtain off acc s1 where f: "hex_field 0 0 s = Some (off, acc, s1)" "off \<noteq> 0"
      using "1.prems"(1) False by (auto simp: v6_loop.simps [of s ip ell] split: option.splits if_splits)
    let ?ip = "ip @ [word_of_nat (acc div 256), word_of_nat acc]"
    note eq = v6_loop.simps [of s ip ell, unfolded f option.case prod.case if_not_P [OF False] if_not_P [OF f(2)] Let_def]
    show ?thesis
    proof (cases "s1 \<noteq> [] \<and> hd s1 = CHR ''.''")
      case True
      then show ?thesis
        using "1.prems" unfolding eq by (auto dest: parse_ipv4_fields_length split: if_splits option.splits)
    next
      case v6: False
      show ?thesis
      proof (cases s1)
        case Nil
        then show ?thesis using "1.prems" l unfolding eq by fastforce
      next
        case (Cons c s2)
        note IH = "1.IH" [OF False f(1) refl refl f(2) v6 refl Cons]
        show ?thesis
        proof (cases "c = CHR '':'' \<and> s2 \<noteq> []")
          case c: True
          show ?thesis
          proof (cases "hd s2 = CHR '':''")
            case True
            then show ?thesis
              using "1.prems" l c v6 Cons IH(1) unfolding eq by (auto split: if_splits)
          next
            case False
            then have "v6_loop s2 ?ip ell = Some (s', ip', ell')"
              using "1.prems"(1) c v6 Cons unfolding eq by simp
            from IH(2) [OF _ _ False this] c "1.prems" l show ?thesis by fastforce
          qed
        next
          case False
          then show ?thesis using "1.prems"(1) v6 Cons unfolding eq by (auto split: if_splits)
        qed
      qed
    qed
  qed
qed

lemma v6_finish_length:
  assumes "v6_finish (s, ip, ell) = Some b" and "length ip \<le> 16" and "\<And>e. ell = Some e \<Longrightarrow> e \<le> length ip"
  shows "length b = 16"
  using assms by (auto simp: v6_finish_def split: if_splits option.splits)

lemma parse_ipv6_length: "parse_ipv6 s = Some b \<Longrightarrow> length b = 16"
  by (auto simp: parse_ipv6_def bind_eq_Some_conv split: if_splits
      dest!: v6_loop_length v6_finish_length)

lemma parse_addr_length: "parse_addr s = Some ad \<Longrightarrow> 8 * length (addr_bytes ad) = bit_len ad"
  by (auto simp: parse_addr_def parse_ipv4_fields_length parse_ipv6_length split: option.splits if_splits)

lemma as16_length: "parse_addr s = Some ad \<Longrightarrow> length (as16 ad) = 16"
  using parse_addr_length [of s ad] by (cases ad) simp_all

lemma net_parse_ip_length: "net_parse_ip s = Some ip \<Longrightarrow> length ip = 16"
  by (auto simp: net_parse_ip_def as16_length)

section \<open>Addresses read back\<close>

lemma is_digit_dot [simp]: "\<not> is_digit CHR ''.''" "\<not> is_digit CHR ''/''"
  by (simp_all add: is_digit_def)

lemma nat_str_byte:
  assumes "n < 256"
  shows "(n < 10 \<and> nat_str n = [digit_char n]) \<or>
    (10 \<le> n \<and> n < 100 \<and> nat_str n = [digit_char (n div 10), digit_char (n mod 10)]) \<or>
    (100 \<le> n \<and> nat_str n = [digit_char (n div 100), digit_char (n div 10 mod 10), digit_char (n mod 10)])"
proof -
  have d: "n div 10 div 10 = n div 100" by (simp add: div_mult2_eq [symmetric])
  consider "n < 10" | "10 \<le> n" "n < 100" | "100 \<le> n" by linarith
  then show ?thesis
  proof cases
    case 3
    then have "\<not> n < 10" "\<not> n div 10 < 10" "n div 100 < 10" using assms by auto
    with 3 d show ?thesis
      by (simp add: nat_str.simps [of n] nat_str.simps [of "n div 10"] nat_str.simps [of "n div 100"])
  qed (auto simp: nat_str.simps [of n] nat_str.simps [of "n div 10"])
qed

lemma v4_loop_digit:
  "d < 10 \<Longrightarrow> dl \<noteq> 1 \<or> v \<noteq> 0 \<Longrightarrow> v * 10 + d \<le> 255 \<Longrightarrow>
     v4_loop prev (digit_char d # s) v dl fs = v4_loop (Some (digit_char d)) s (v * 10 + d) (dl + 1) fs"
  by auto

lemma v4_loop_number:
  assumes "n < 256"
  shows "\<exists>c d. is_digit c \<and> v4_loop prev (nat_str n @ s) 0 0 fs = v4_loop (Some c) s n d fs"
proof -
  consider "n < 10" "nat_str n = [digit_char n]"
    | "10 \<le> n" "n < 100" "nat_str n = [digit_char (n div 10), digit_char (n mod 10)]"
    | "100 \<le> n" "nat_str n = [digit_char (n div 100), digit_char (n div 10 mod 10), digit_char (n mod 10)]"
    using nat_str_byte [OF assms] by blast
  then show ?thesis
  proof cases
    case 1
    then show ?thesis
      by (intro exI [of _ "digit_char n"] exI [of _ 1]) (use assms in simp)
  next
    case 2
    define a b where "a = n div 10" and "b = n mod 10"
    have v: "1 \<le> a" "a < 10" "b < 10" "a * 10 + b = n" using 2(1,2) by (auto simp: a_def b_def)
    have "v4_loop prev (digit_char a # digit_char b # s) 0 0 fs = v4_loop (Some (digit_char b)) s (a * 10 + b) (Suc (Suc 0)) fs"
      using v(1-3) by simp
    moreover have "nat_str n = [digit_char a, digit_char b]" by (simp only: 2(3) a_def b_def)
    ultimately have "v4_loop prev (nat_str n @ s) 0 0 fs = v4_loop (Some (digit_char b)) s n (Suc (Suc 0)) fs"
      by (simp only: append_Cons append_Nil v(4))
    with v(3) is_digit_digit_char show ?thesis by blast
  next
    case 3
    define a b c where "a = n div 100" and "b = n div 10 mod 10" and "c = n mod 10"
    have v: "1 \<le> a" "a < 10" "b < 10" "c < 10" "(a * 10 + b) * 10 + c = n"
    proof -
      have "n div 100 = n div 10 div 10" by (simp add: div_mult2_eq [symmetric])
      then have ab: "a * 10 + b = n div 10" by (simp add: a_def b_def)
      show "1 \<le> a" "a < 10" "b < 10" "c < 10" using 3(1) assms by (auto simp: a_def b_def c_def)
      show "(a * 10 + b) * 10 + c = n" by (simp add: ab c_def)
    qed
    have l: "a * 10 + b \<le> 255" "(a * 10 + b) * 10 + c \<le> 255" using v assms by linarith+
    have "v4_loop prev (digit_char a # digit_char b # digit_char c # s) 0 0 fs =
        v4_loop (Some (digit_char c)) s ((a * 10 + b) * 10 + c) (0 + 1 + 1 + 1) fs"
    proof -
      have "v4_loop prev (digit_char a # digit_char b # digit_char c # s) 0 0 fs =
          v4_loop (Some (digit_char a)) (digit_char b # digit_char c # s) (0 * 10 + a) (0 + 1) fs"
        by (rule v4_loop_digit) (use v in auto)
      also have "\<dots> = v4_loop (Some (digit_char b)) (digit_char c # s) ((0 * 10 + a) * 10 + b) (0 + 1 + 1) fs"
        by (rule v4_loop_digit) (use v in auto)
      also have "\<dots> = v4_loop (Some (digit_char c)) s (((0 * 10 + a) * 10 + b) * 10 + c) (0 + 1 + 1 + 1) fs"
        by (rule v4_loop_digit) (use v l in auto)
      finally show ?thesis by (simp only: mult_zero_left add_0)
    qed
    moreover have "nat_str n = [digit_char a, digit_char b, digit_char c]" by (simp only: 3(2) a_def b_def c_def)
    ultimately have "v4_loop prev (nat_str n @ s) 0 0 fs = v4_loop (Some (digit_char c)) s n (0 + 1 + 1 + 1) fs"
      by (simp only: append_Cons append_Nil v(5))
    with v(4) is_digit_digit_char show ?thesis by blast
  qed
qed

lemma v4_loop_dot:
  assumes "n < 256" and "length fs < 3" and "s \<noteq> []"
  shows "\<exists>c. v4_loop prev (nat_str n @ CHR ''.'' # s) 0 0 fs = v4_loop (Some c) s 0 0 (fs @ [word_of_nat n])"
proof -
  obtain c d where c: "is_digit c" and l: "v4_loop prev (nat_str n @ CHR ''.'' # s) 0 0 fs = v4_loop (Some c) (CHR ''.'' # s) n d fs"
    using v4_loop_number [OF assms(1)] by blast
  from c have "c \<noteq> CHR ''.''" by auto
  with l assms(2,3) show ?thesis by (intro exI [of _ "CHR ''.''"]) simp
qed

lemma unat_byte [simp]: "unat (b :: 8 word) < 256"
  using unsigned_less [of b] by simp

lemma v4_string_parse:
  assumes "length b = 4"
  shows "parse_ipv4_fields (v4_string b) = Some b"
proof -
  obtain w x y z where b: "b = [w, x, y, z]"
    using assms by (auto simp: numeral_eq_Suc length_Suc_conv)
  let ?n = "\<lambda>v :: 8 word. nat_str (unat v)"
  have s: "v4_string b = ?n w @ CHR ''.'' # ?n x @ CHR ''.'' # ?n y @ CHR ''.'' # ?n z"
    by (simp add: v4_string_def b)
  obtain c1 where 1: "v4_loop None (v4_string b) 0 0 [] =
      v4_loop (Some c1) (?n x @ CHR ''.'' # ?n y @ CHR ''.'' # ?n z) 0 0 [w]"
    using v4_loop_dot [of "unat w" "[]" "?n x @ CHR ''.'' # ?n y @ CHR ''.'' # ?n z" None] s by auto
  obtain c2 where 2: "v4_loop (Some c1) (?n x @ CHR ''.'' # ?n y @ CHR ''.'' # ?n z) 0 0 [w] =
      v4_loop (Some c2) (?n y @ CHR ''.'' # ?n z) 0 0 [w, x]"
    using v4_loop_dot [of "unat x" "[w]" "?n y @ CHR ''.'' # ?n z" "Some c1"] by auto
  obtain c3 where 3: "v4_loop (Some c2) (?n y @ CHR ''.'' # ?n z) 0 0 [w, x] = v4_loop (Some c3) (?n z) 0 0 [w, x, y]"
    using v4_loop_dot [of "unat y" "[w, x]" "?n z" "Some c2"] by auto
  obtain c4 d where 4: "v4_loop (Some c3) (?n z) 0 0 [w, x, y] = v4_loop (Some c4) [] (unat z) d [w, x, y]"
    using v4_loop_number [of "unat z" "Some c3" "[]"] by auto
  show ?thesis unfolding parse_ipv4_fields_def 1 2 3 4 by (simp add: b)
qed

lemma first_special_v4: "c \<in> set s \<Longrightarrow> c = CHR ''.'' \<Longrightarrow> (\<forall>x \<in> set s. is_digit x \<or> x = CHR ''.'') \<Longrightarrow> first_special s = Some CHR ''.''"
  by (induction s) (auto simp: is_digit_def)

lemma set_strings_join: "set (strings_join sep ps) \<subseteq> (\<Union>p \<in> set ps. set p) \<union> set sep"
  by (induction sep ps rule: strings_join.induct) auto

lemma v4_string_chars: "\<forall>x \<in> set (v4_string b). is_digit x \<or> x = CHR ''.''"
  using set_strings_join [of "''.''" "map (\<lambda>b. nat_str (unat b)) b"] nat_str_digits
  by (fastforce simp: v4_string_def)

lemma v4_string_addr:
  assumes "length b = 4"
  shows "parse_addr (v4_string b) = Some (Addr4 b)"
proof -
  have "CHR ''.'' \<in> set (v4_string b)"
    using assms by (auto simp: v4_string_def numeral_eq_Suc length_Suc_conv)
  then have "first_special (v4_string b) = Some CHR ''.''"
    using first_special_v4 v4_string_chars by blast
  with assms show ?thesis by (simp add: parse_addr_def v4_string_parse)
qed

text \<open>Groups of hexadecimal digits.\<close>

lemma hex_digit_char [simp]: "d < 16 \<Longrightarrow> hex_digit (hex_char d) = Some d"
  by (auto simp: hex_digit_def hex_char_def Let_def)

lemma hex_digit_special [simp]: "hex_digit CHR '':'' = None" "hex_digit CHR ''.'' = None" "hex_digit CHR ''%'' = None"
  by (simp_all add: hex_digit_def)

lemma hex_field_stop: "s = [] \<or> hex_digit (hd s) = None \<Longrightarrow> hex_field off acc s = Some (off, acc, s)"
  by (cases s) auto

lemma hex_str_length: "n < 16 ^ Suc k \<Longrightarrow> length (hex_str n) \<le> Suc k"
proof (induction k arbitrary: n)
  case (Suc k)
  then have "n div 16 < 16 ^ Suc k" by (simp add: less_mult_imp_div_less mult.commute)
  from Suc.IH [OF this] show ?case by (simp add: hex_str.simps [of n])
next
  case 0
  then show ?case by (simp add: hex_str.simps [of n])
qed

lemma hex_str_digits: "\<exists>ds. hex_str n = map hex_char ds \<and> ds \<noteq> [] \<and> (\<forall>d \<in> set ds. d < 16) \<and> foldl (\<lambda>a d. a * 16 + d) 0 ds = n"
proof (induction n rule: hex_str.induct)
  case (1 n)
  show ?case
  proof (cases "n < 16")
    case True
    then show ?thesis by (intro exI [of _ "[n]"]) (simp add: hex_str.simps [of n])
  next
    case False
    from "1.IH" [OF False] obtain ds where "hex_str (n div 16) = map hex_char ds" "\<forall>d \<in> set ds. d < 16"
      "foldl (\<lambda>a d. a * 16 + d) 0 ds = n div 16" by blast
    with False show ?thesis
      by (intro exI [of _ "ds @ [n mod 16]"]) (simp add: hex_str.simps [of n] ball_Un)
  qed
qed

lemma hex_field_digits:
  assumes "\<forall>d \<in> set ds. d < 16" and "off + length ds \<le> 4" and "acc < 16 ^ off" and "s = [] \<or> hex_digit (hd s) = None"
  shows "hex_field off acc (map hex_char ds @ s) = Some (off + length ds, foldl (\<lambda>a d. a * 16 + d) acc ds, s)"
  using assms
proof (induction ds arbitrary: off acc)
  case (Cons d ds)
  have "acc * 16 + d < 16 ^ Suc off" using Cons.prems(1,3) by simp
  moreover have "(16 :: nat) ^ Suc off \<le> 16 ^ 4" using Cons.prems(2) by (intro power_increasing) auto
  ultimately have "acc * 16 + d < 16 ^ Suc off" "\<not> acc * 16 + d > 65535" "\<not> off > 3"
    using Cons.prems(2) by auto
  with Cons.IH [of "off + 1" "acc * 16 + d"] Cons.prems show ?case by simp
qed (simp add: hex_field_stop)

lemma hex_field_number:
  assumes "n < 65536" and "s = [] \<or> hex_digit (hd s) = None"
  shows "\<exists>k. k \<noteq> 0 \<and> hex_field 0 0 (hex_str n @ s) = Some (k, n, s)"
proof -
  obtain ds where ds: "hex_str n = map hex_char ds" "ds \<noteq> []" "\<forall>d \<in> set ds. d < 16" "foldl (\<lambda>a d. a * 16 + d) 0 ds = n"
    using hex_str_digits by blast
  have "length ds \<le> 4" using hex_str_length [of n 3] assms(1) ds(1) by simp
  with hex_field_digits [of ds 0 0 s] ds assms(2) show ?thesis
    by (intro exI [of _ "length ds"]) simp
qed

definition group_bytes :: "nat \<Rightarrow> 8 word list" where
  "group_bytes g = [word_of_nat (g div 256), word_of_nat g]"

lemma hex_str_hd: "\<exists>d s. d < 16 \<and> hex_str n = hex_char d # s"
proof -
  obtain ds where "hex_str n = map hex_char ds" "ds \<noteq> []" "\<forall>d \<in> set ds. d < 16" using hex_str_digits by blast
  then show ?thesis by (cases ds) auto
qed

lemma hex_char_not [simp]: "d < 16 \<Longrightarrow> hex_char d \<noteq> CHR '':''" "d < 16 \<Longrightarrow> hex_char d \<noteq> CHR ''%''"
  "d < 16 \<Longrightarrow> hex_char d \<noteq> CHR ''.''"
  using hex_digit_char [of d] hex_digit_special by (auto simp del: hex_digit_char)

text \<open>One group in front of a colon, of the end and of an ellipsis.\<close>

lemma v6_loop_colon:
  assumes "g < 65536" and "length ip < 16" and "s \<noteq> []" and "hd s \<noteq> CHR '':''"
  shows "v6_loop (hex_str g @ CHR '':'' # s) ip ell = v6_loop s (ip @ group_bytes g) ell"
proof -
  obtain k where "k \<noteq> 0" "hex_field 0 0 (hex_str g @ CHR '':'' # s) = Some (k, g, CHR '':'' # s)"
    using hex_field_number [of g "CHR '':'' # s"] assms(1) by auto
  then show ?thesis
    using assms(2-4) by (simp add: v6_loop.simps [of "hex_str g @ CHR '':'' # s" ip ell] group_bytes_def Let_def)
qed

lemma v6_loop_end:
  assumes "g < 65536" and "length ip < 16"
  shows "v6_loop (hex_str g) ip ell = Some ([], ip @ group_bytes g, ell)"
proof -
  obtain k where "k \<noteq> 0" "hex_field 0 0 (hex_str g) = Some (k, g, [])"
    using hex_field_number [of g "[]"] assms(1) by auto
  then show ?thesis
    using assms(2) by (simp add: v6_loop.simps [of "hex_str g" ip ell] group_bytes_def Let_def)
qed

lemma v6_loop_ellipsis:
  assumes "g < 65536" and "length ip < 16"
  shows "v6_loop (hex_str g @ CHR '':'' # CHR '':'' # s) ip None =
    (if s = [] then Some ([], ip @ group_bytes g, Some (length ip + 2)) else v6_loop s (ip @ group_bytes g) (Some (length ip + 2)))"
proof -
  obtain k where "k \<noteq> 0" "hex_field 0 0 (hex_str g @ CHR '':'' # CHR '':'' # s) = Some (k, g, CHR '':'' # CHR '':'' # s)"
    using hex_field_number [of g "CHR '':'' # CHR '':'' # s"] assms(1) by auto
  then show ?thesis
    using assms(2) by (simp add: v6_loop.simps [of "hex_str g @ CHR '':'' # CHR '':'' # s" ip None] group_bytes_def Let_def)
qed

definition groups_text :: "nat list \<Rightarrow> string" where
  "groups_text gs = strings_join '':'' (map hex_str gs)"

lemma groups_text_Cons: "gs \<noteq> [] \<Longrightarrow> groups_text (g # gs) = hex_str g @ CHR '':'' # groups_text gs"
  by (cases gs) (simp_all add: groups_text_def)

lemma groups_text_one: "groups_text [g] = hex_str g"
  by (simp add: groups_text_def)

lemma groups_text_hd: "gs \<noteq> [] \<Longrightarrow> groups_text gs \<noteq> [] \<and> hd (groups_text gs @ s) \<noteq> CHR '':''"
proof (cases gs)
  case (Cons g gs')
  then obtain d t where "d < 16" "hex_str g = hex_char d # t" using hex_str_hd by blast
  with Cons show ?thesis by (cases gs') (auto simp: groups_text_one groups_text_Cons)
qed simp

lemma group_bytes_length [simp]: "length (group_bytes g) = 2"
  by (simp add: group_bytes_def)

lemma v6_loop_groups:
  assumes "gs \<noteq> []" and "\<forall>g \<in> set gs. g < 65536" and "length ip + 2 * length gs \<le> 16"
  shows "v6_loop (groups_text gs) ip ell = Some ([], ip @ concat (map group_bytes gs), ell)"
    and "v6_loop (groups_text gs @ ''::'' @ s) ip None =
      (let ip' = ip @ concat (map group_bytes gs) in
       if s = [] then Some ([], ip', Some (length ip')) else v6_loop s ip' (Some (length ip')))"
  using assms
proof (induction gs arbitrary: ip)
  case (Cons g gs)
  {
    case 1
    show ?case
    proof (cases "gs = []")
      case True
      with 1 show ?thesis by (simp add: groups_text_one v6_loop_end)
    next
      case False
      with 1 Cons.IH(1) [of "ip @ group_bytes g"] groups_text_hd [OF False, of "[]"] show ?thesis
        by (simp add: groups_text_Cons v6_loop_colon)
    qed
  next
    case 2
    show ?case
    proof (cases "gs = []")
      case True
      with 2 show ?thesis by (simp add: groups_text_one v6_loop_ellipsis Let_def)
    next
      case False
      have "v6_loop (hex_str g @ CHR '':'' # groups_text gs @ ''::'' @ s) ip None =
          v6_loop (groups_text gs @ ''::'' @ s) (ip @ group_bytes g) None"
        using 2 groups_text_hd [OF False, of "''::'' @ s"] groups_text_hd [OF False, of "[]"]
        by (intro v6_loop_colon) auto
      with 2 Cons.IH(2) [of "ip @ group_bytes g"] False show ?thesis
        by (simp add: groups_text_Cons)
    qed
  }
qed simp_all

lemma groups16_bytes: "even (length ip) \<Longrightarrow> concat (map group_bytes (groups16 ip)) = ip"
proof (induction ip rule: groups16.induct)
  case (1 a b bs)
  have "group_bytes (unat a * 256 + unat b) = [a, b]"
  proof -
    have "(of_nat 256 :: 8 word) = 0" by code_simp
    then have "(of_nat (unat a * 256) :: 8 word) = 0" by (simp only: of_nat_mult mult_zero_right)
    then have "(word_of_nat (unat a * 256 + unat b) :: 8 word) = b" by (simp only: of_nat_add add_0) simp
    moreover have "(unat a * 256 + unat b) div 256 = unat a" by simp
    ultimately show ?thesis by (simp add: group_bytes_def)
  qed
  with 1 show ?case by simp
qed auto

lemma groups16_length: "even (length ip) \<Longrightarrow> 2 * length (groups16 ip) = length ip"
  by (induction ip rule: groups16.induct) auto

lemma groups16_bound: "g \<in> set (groups16 ip) \<Longrightarrow> g < 65536"
proof (induction ip rule: groups16.induct)
  case (1 a b bs)
  have "unat a * 256 + unat b < 65536" using unat_byte [of a] unat_byte [of b] by linarith
  with 1 show ?case by auto
qed auto

text \<open>The run that is left out consists of zero groups.\<close>

definition run_ok :: "nat list \<Rightarrow> (nat \<times> nat) option \<Rightarrow> bool" where
  "run_ok gs r = (case r of None \<Rightarrow> True
     | Some (a, b) \<Rightarrow> a + 2 \<le> b \<and> b \<le> length gs \<and> take (b - a) (drop a gs) = replicate (b - a) 0)"

lemma takeWhile_zero: "takeWhile (\<lambda>g. g = (0 :: nat)) xs = replicate (length (takeWhile (\<lambda>g. g = 0) xs)) 0"
  by (induction xs) auto

lemma zero_run_ok: "run_ok gs best \<Longrightarrow> run_ok gs (zero_run gs is best)"
proof (induction gs "is" best rule: zero_run.induct)
  case (2 gs i "is" best)
  let ?t = "takeWhile (\<lambda>g. g = 0) (drop i gs)"
  have "take (length ?t) (drop i gs) = ?t" by (simp add: takeWhile_eq_take [symmetric])
  then have t: "take (length ?t) (drop i gs) = replicate (length ?t) 0" by (metis takeWhile_zero)
  have "length ?t \<le> length gs - i" using length_takeWhile_le [of "\<lambda>g. g = 0" "drop i gs"] by simp
  then have "length ?t \<ge> 2 \<Longrightarrow> run_ok gs (Some (i, i + length ?t))" using t by (auto simp: run_ok_def)
  with 2 show ?case by (simp add: Let_def)
qed simp

lemma group_bytes_zero [simp]: "group_bytes 0 = [0, 0]"
  by (simp add: group_bytes_def)

lemma zero_bytes: "concat (map group_bytes (replicate n 0)) = replicate (2 * n) 0"
  by (induction n) simp_all

lemma v6_string_parse:
  assumes "length ip = 16"
  shows "parse_ipv6 (v6_string ip) = Some ip"
proof -
  let ?gs = "groups16 ip"
  let ?b = "\<lambda>gs. concat (map group_bytes gs)"
  have l: "length ?gs = 8" using groups16_length [of ip] assms by simp
  have g: "\<forall>g \<in> set gs. g < 65536" if "set gs \<subseteq> set ?gs" for gs using that groups16_bound by blast
  have b: "?b ?gs = ip" using groups16_bytes [of ip] assms by simp
  have bl: "length (?b gs) = 2 * length gs" for gs by (induction gs) simp_all
  show ?thesis
  proof (cases "zero_run ?gs [0..<8] None")
    case None
    then have s: "v6_string ip = groups_text ?gs" by (simp add: v6_string_def groups_text_def)
    have "?gs \<noteq> []" using l by auto
    then have "take 2 (groups_text ?gs) \<noteq> ''::''" using groups_text_hd [of ?gs "[]"] by (cases "groups_text ?gs") auto
    then show ?thesis
      using v6_loop_groups(1) [of ?gs "[]" None] \<open>?gs \<noteq> []\<close> g [OF subset_refl] l b assms
      by (simp add: s parse_ipv6_def v6_finish_def)
  next
    case (Some r)
    obtain m n where r: "r = (m, n)" by (cases r)
    have ok: "m + 2 \<le> n" "n \<le> 8" "take (n - m) (drop m ?gs) = replicate (n - m) 0"
      using zero_run_ok [of ?gs None "[0..<8]"] Some r l by (auto simp: run_ok_def)
    have s: "v6_string ip = groups_text (take m ?gs) @ ''::'' @ groups_text (drop n ?gs)"
      using Some r by (simp add: v6_string_def groups_text_def Let_def)
    have split: "?gs = take m ?gs @ replicate (n - m) 0 @ drop n ?gs"
      using ok(1,3) by (metis append_take_drop_id drop_drop le_add_diff_inverse2 le_add1 le_trans)
    have fin: "v6_finish ([], ?b (take m ?gs) @ ?b (drop n ?gs), Some (2 * m)) = Some ip"
    proof -
      have "2 * m = length (?b (take m ?gs))" using ok l by (simp add: bl)
      moreover have "16 - length (?b (take m ?gs) @ ?b (drop n ?gs)) = 2 * (n - m)" using ok l by (simp add: bl)
      moreover have "length (?b (take m ?gs) @ ?b (drop n ?gs)) < 16" using ok l by (simp add: bl)
      moreover have "?b (take m ?gs) @ replicate (2 * (n - m)) 0 @ ?b (drop n ?gs) = ip"
        using arg_cong [OF split, of ?b] b by (simp only: map_append concat_append zero_bytes)
      ultimately show ?thesis by (simp only: v6_finish_def prod.case option.case) simp
    qed
    have post: "set (drop n ?gs) \<subseteq> set ?gs" and pre: "set (take m ?gs) \<subseteq> set ?gs"
      by (auto dest: in_set_dropD in_set_takeD)
    have dl: "length (drop n ?gs) = 8 - n" and tl: "length (take m ?gs) = m" using l ok by auto
    show ?thesis
    proof (cases "m = 0")
      case True
      show ?thesis
      proof (cases "drop n ?gs = []")
        case True
        with \<open>m = 0\<close> s fin show ?thesis
          by (simp add: parse_ipv6_def groups_text_def v6_finish_def)
      next
        case False
        have "v6_loop (groups_text (drop n ?gs)) [] (Some 0) = Some ([], ?b (drop n ?gs), Some 0)"
          using v6_loop_groups(1) [OF False g [OF post], of "[]"] dl ok by simp
        moreover have "groups_text (drop n ?gs) \<noteq> []" using groups_text_hd [OF False] by blast
        ultimately show ?thesis using fin \<open>m = 0\<close> by (simp add: s parse_ipv6_def groups_text_def [of "[]"])
      qed
    next
      case False
      then have ne: "take m ?gs \<noteq> []" using l by auto
      have hd: "take 2 (v6_string ip) \<noteq> ''::''"
        using groups_text_hd [OF ne, of "[]"] unfolding s by (cases "groups_text (take m ?gs)") auto
      have "v6_loop (v6_string ip) [] None = Some ([], ?b (take m ?gs) @ ?b (drop n ?gs), Some (2 * m))"
      proof (cases "drop n ?gs = []")
        case True
        then show ?thesis
          using v6_loop_groups(2) [OF ne g [OF pre], of "[]" "[]"] tl ok bl [of "take m ?gs"]
          by (simp add: s groups_text_def [of "[]"] Let_def)
      next
        case False
        then have "groups_text (drop n ?gs) \<noteq> []" using groups_text_hd [OF False] by blast
        moreover have "v6_loop (groups_text (drop n ?gs)) (?b (take m ?gs)) (Some (2 * m)) =
            Some ([], ?b (take m ?gs) @ ?b (drop n ?gs), Some (2 * m))"
          using v6_loop_groups(1) [OF False g [OF post], of "?b (take m ?gs)"] dl tl ok bl [of "take m ?gs"] by simp
        ultimately show ?thesis
          using v6_loop_groups(2) [OF ne g [OF pre], of "[]" "groups_text (drop n ?gs)"] tl ok bl [of "take m ?gs"]
          by (simp add: s Let_def)
      qed
      with hd fin show ?thesis by (simp add: parse_ipv6_def)
    qed
  qed
qed

lemma hex_str_chars: "x \<in> set (hex_str n) \<Longrightarrow> x \<notin> {CHR ''.'', CHR '':'', CHR ''%'', CHR ''/''}"
proof -
  assume x: "x \<in> set (hex_str n)"
  obtain ds where "hex_str n = map hex_char ds" "\<forall>d \<in> set ds. d < 16" using hex_str_digits by blast
  with x obtain d where d: "x = hex_char d" "d < 16" by auto
  have "hex_digit CHR ''/'' = None" by (simp add: hex_digit_def)
  with d show ?thesis using hex_digit_char [of d] by (auto simp del: hex_digit_char)
qed

lemma groups_text_chars: "set (groups_text gs) \<subseteq> (\<Union>g \<in> set gs. set (hex_str g)) \<union> {CHR '':''}"
  using set_strings_join [of "'':''" "map hex_str gs"] by (auto simp: groups_text_def)

lemma groups_text_no: "x \<in> set (groups_text gs) \<Longrightarrow> x \<notin> {CHR ''.'', CHR ''%'', CHR ''/''}"
  using groups_text_chars [of gs] hex_str_chars by blast

lemma v6_string_text:
  "\<exists>as bs. v6_string ip = groups_text as \<or> v6_string ip = groups_text as @ ''::'' @ groups_text bs"
  by (cases "zero_run (groups16 ip) [0..<8] None") (auto simp: v6_string_def Let_def groups_text_def)

lemma v6_string_chars:
  assumes "x \<in> set (v6_string ip)"
  shows "x \<notin> {CHR ''.'', CHR ''%'', CHR ''/''}"
proof -
  obtain as bs where "v6_string ip = groups_text as \<or> v6_string ip = groups_text as @ ''::'' @ groups_text bs"
    using v6_string_text by blast
  with assms have "x \<in> set (groups_text as) \<or> x = CHR '':'' \<or> x \<in> set (groups_text bs)" by auto
  then show ?thesis using groups_text_no [of x as] groups_text_no [of x bs] by auto
qed

lemma v6_string_colon: "length ip = 16 \<Longrightarrow> CHR '':'' \<in> set (v6_string ip)"
proof -
  assume "length ip = 16"
  then have "length (groups16 ip) = 8" using groups16_length [of ip] by simp
  then obtain a b gs where "groups16 ip = a # b # gs" by (auto simp: numeral_eq_Suc length_Suc_conv)
  then show ?thesis by (auto simp: v6_string_def Let_def split: option.split)
qed

lemma first_special_v6:
  "CHR '':'' \<in> set s \<Longrightarrow> (\<And>x. x \<in> set s \<Longrightarrow> x \<notin> {CHR ''.'', CHR ''%'', CHR ''/''}) \<Longrightarrow> first_special s = Some CHR '':''"
  by (induction s) auto

lemma v6_string_addr:
  assumes "length ip = 16"
  shows "parse_addr (v6_string ip) = Some (Addr6 ip)"
proof -
  have "first_special (v6_string ip) = Some CHR '':''"
    using first_special_v6 v6_string_colon [OF assms] v6_string_chars by blast
  moreover have "CHR ''%'' \<notin> set (v6_string ip)" using v6_string_chars by blast
  ultimately show ?thesis by (simp add: parse_addr_def v6_string_parse [OF assms])
qed

lemma to4_length: "to4 ip = Some b \<Longrightarrow> length b = 4"
  by (auto simp: to4_def split: if_splits)

lemma ip_string_text:
  assumes "length ip = 4 \<or> length ip = 16"
  shows "ip_string ip = (case to4 ip of Some b \<Rightarrow> v4_string b | None \<Rightarrow> v6_string ip)"
proof -
  have "ip \<noteq> []" "\<not> (length ip \<noteq> 4 \<and> length ip \<noteq> 16)" using assms by auto
  then show ?thesis by (simp only: ip_string_def if_False)
qed

text \<open>The text of an address is read as the address.\<close>

lemma ip_string_addr:
  assumes "length ip = 4 \<or> length ip = 16"
  shows "parse_addr (ip_string ip) = Some (case to4 ip of Some b \<Rightarrow> Addr4 b | None \<Rightarrow> Addr6 ip)"
proof -
  have "to4 ip = None \<Longrightarrow> length ip = 16" using assms by (auto simp: to4_def)
  then show ?thesis
    using v4_string_addr [OF to4_length] v6_string_addr by (cases "to4 ip") (simp_all add: ip_string_text [OF assms])
qed

lemma to4_as16: "to4 ip = Some b \<Longrightarrow> length ip = 16 \<Longrightarrow> v4_in_v6_prefix @ b = ip"
proof -
  assume a: "to4 ip = Some b" and l: "length ip = 16"
  then have "take 12 ip = v4_in_v6_prefix" "b = drop 12 ip" by (simp_all add: to4_def split: if_splits)
  then show ?thesis using append_take_drop_id [of 12 ip] by (simp only:)
qed

lemma ip_string_roundtrip:
  assumes "length ip = 4 \<or> length ip = 16"
  shows "net_parse_ip (ip_string ip) = to16 ip"
proof (cases "length ip = 4")
  case True
  then show ?thesis by (simp add: net_parse_ip_def ip_string_addr [OF assms] to16_def to4_def)
next
  case False
  with assms have l: "length ip = 16" by simp
  with False to4_as16 [OF _ l] show ?thesis
    by (cases "to4 ip") (simp_all add: net_parse_ip_def ip_string_addr [OF assms] to16_def)
qed

lemma ip_string_no_slash: "length ip = 4 \<or> length ip = 16 \<Longrightarrow> CHR ''/'' \<notin> set (ip_string ip)"
proof
  assume l: "length ip = 4 \<or> length ip = 16" and s: "CHR ''/'' \<in> set (ip_string ip)"
  have "\<not> is_digit CHR ''/''" by (simp add: is_digit_def)
  then have "CHR ''/'' \<notin> set (v4_string b)" for b using v4_string_chars [of b] by auto
  moreover have "CHR ''/'' \<notin> set (v6_string ip)" using v6_string_chars by blast
  ultimately show False using s by (cases "to4 ip") (simp_all add: ip_string_text [OF l])
qed

section \<open>Masks\<close>

lemma mask_bytes_length [simp]: "length (mask_bytes l n) = l"
  by (induction l n rule: mask_bytes.induct) simp_all

lemma mask_bytes_zero: "mask_bytes l 0 = replicate l 0"
proof (induction l)
  case (Suc l)
  have "NOT (drop_bit 0 (0xFF :: 8 word)) = 0" by code_simp
  with Suc show ?case by simp
qed simp

lemma byte_mask:
  assumes "n < 8"
  shows "NOT (drop_bit n (0xFF :: 8 word)) \<noteq> 0xFF \<and> leading_ones 8 (NOT (drop_bit n 0xFF)) = (n, 0)"
proof -
  have "n \<in> set [0..<8]" using assms by simp
  moreover have "\<forall>n \<in> set [0..<8]. NOT (drop_bit n (0xFF :: 8 word)) \<noteq> 0xFF \<and> leading_ones 8 (NOT (drop_bit n 0xFF)) = (n, 0)"
    by code_simp
  ultimately show ?thesis by blast
qed

lemma simple_mask_length_mask: "n \<le> 8 * l \<Longrightarrow> simple_mask_length (mask_bytes l n) = Some n"
proof (induction l n rule: mask_bytes.induct)
  case (2 l n)
  then show ?case
    using byte_mask [of n] by (auto simp: mask_bytes_zero)
qed simp

lemma mask_size_cidr: "n \<le> bits \<Longrightarrow> 8 dvd bits \<Longrightarrow> 0 < bits \<Longrightarrow> mask_size (cidr_mask n bits) = (n, bits)"
  by (simp add: mask_size_def cidr_mask_def simple_mask_length_mask)

section \<open>No address contains another character\<close>

definition foreign_char :: "char \<Rightarrow> bool" where
  "foreign_char x = (hex_digit x = None \<and> x \<noteq> CHR '':'' \<and> x \<noteq> CHR ''.'')"

lemma foreign_char_not: "foreign_char x \<Longrightarrow> \<not> is_digit x \<and> hex_digit x = None \<and> x \<noteq> CHR '':'' \<and> x \<noteq> CHR ''.''"
  by (auto simp: foreign_char_def hex_digit_def is_digit_def Let_def split: if_splits)

lemma foreign_slash: "foreign_char CHR ''/''"
  by code_simp

lemma v4_loop_foreign: "foreign_char x \<Longrightarrow> v4_loop prev s val d fs = Some bs \<Longrightarrow> x \<notin> set s"
proof (induction s arbitrary: prev val d fs)
  case (Cons c s)
  then have "is_digit c \<or> c = CHR ''.''" by (auto split: if_splits)
  then have "c \<noteq> x" using foreign_char_not [OF Cons.prems(1)] by auto
  moreover have "x \<notin> set s"
    using Cons.prems Cons.IH by (auto split: if_splits)
  ultimately show ?case by simp
qed simp

lemma hex_field_foreign: "foreign_char x \<Longrightarrow> hex_field off acc s = Some (o1, a, s1) \<Longrightarrow> x \<in> set s \<Longrightarrow> x \<in> set s1"
proof (induction s arbitrary: off acc)
  case (Cons c s)
  have "hex_digit x = None" using foreign_char_not [OF Cons.prems(1)] by simp
  with Cons show ?case by (auto split: option.splits if_splits)
qed simp

lemma v6_loop_foreign:
  assumes fc: "foreign_char x"
  shows "v6_loop s ip ell = Some (r, ip', ell') \<Longrightarrow> x \<in> set s \<Longrightarrow> x \<in> set r"
proof (induction s ip ell arbitrary: r ip' ell' rule: v6_loop.induct)
  case (1 s ip ell)
  show ?case
  proof (cases "16 \<le> length ip")
    case True
    with 1 show ?thesis by (simp add: v6_loop.simps [of s ip ell])
  next
    case False
    obtain off acc s1 where f: "hex_field 0 0 s = Some (off, acc, s1)" "off \<noteq> 0"
      using "1.prems"(1) False by (auto simp: v6_loop.simps [of s ip ell] split: option.splits if_splits)
    have s1: "x \<in> set s1" using hex_field_foreign [OF fc f(1) "1.prems"(2)] .
    let ?ip = "ip @ [word_of_nat (acc div 256), word_of_nat acc]"
    note eq = v6_loop.simps [of s ip ell, unfolded f option.case prod.case if_not_P [OF False] if_not_P [OF f(2)] Let_def]
    show ?thesis
    proof (cases "s1 \<noteq> [] \<and> hd s1 = CHR ''.''")
      case True
      then have "parse_ipv4_fields s \<noteq> None"
        using "1.prems"(1) unfolding eq by (auto split: if_splits option.splits)
      then show ?thesis using v4_loop_foreign [OF fc] "1.prems"(2) by (auto simp: parse_ipv4_fields_def)
    next
      case v6: False
      obtain c s2 where Cons: "s1 = c # s2" using s1 by (cases s1) auto
      note IH = "1.IH" [OF False f(1) refl refl f(2) v6 refl Cons]
      have c: "c = CHR '':''" "s2 \<noteq> []"
        using "1.prems"(1) v6 Cons unfolding eq by (auto split: if_splits)
      then have s2: "x \<in> set s2" using s1 Cons foreign_char_not [OF fc] by auto
      show ?thesis
      proof (cases "hd s2 = CHR '':''")
        case True
        have t: "x \<in> set (tl s2)" using s2 True c(2) foreign_char_not [OF fc] by (cases s2) auto
        then have "tl s2 \<noteq> []" by auto
        then have ell: "ell = None" and l: "v6_loop (tl s2) ?ip (Some (length ?ip)) = Some (r, ip', ell')"
          using "1.prems"(1) True c v6 Cons unfolding eq by (auto split: if_splits)
        from IH(1) [OF _ c(2) True _ \<open>tl s2 \<noteq> []\<close> l t] c(1) ell show ?thesis by simp
      next
        case colon: False
        then have "v6_loop s2 ?ip ell = Some (r, ip', ell')"
          using "1.prems"(1) c v6 Cons unfolding eq by simp
        from IH(2) [OF _ c(2) colon this s2] c(1) show ?thesis by simp
      qed
    qed
  qed
qed

lemma parse_addr_foreign:
  assumes fc: "foreign_char x"
  shows "parse_addr s = Some ad \<Longrightarrow> x \<notin> set s"
proof
  assume p: "parse_addr s = Some ad" and s: "x \<in> set s"
  have no6: "Option.bind (v6_loop t i e) v6_finish = None" if "x \<in> set t" for t i e
  proof (cases "v6_loop t i e")
    case (Some y)
    obtain r i' e' where "y = (r, i', e')" by (cases y)
    with v6_loop_foreign [OF fc, of t i e r i' e'] that Some have "r \<noteq> []" by auto
    with Some \<open>y = _\<close> show ?thesis by (simp add: v6_finish_def)
  qed simp
  have "parse_ipv6 s = None"
  proof -
    have "x \<in> set (drop 2 s)" if "take 2 s = ''::''"
    proof -
      have "set s = set (take 2 s) \<union> set (drop 2 s)" by (metis append_take_drop_id set_append)
      with s that foreign_char_not [OF fc] show ?thesis by auto
    qed
    then show ?thesis using no6 s by (auto simp: parse_ipv6_def)
  qed
  moreover have "parse_ipv4_fields s = None"
    using v4_loop_foreign [OF fc] s by (cases "parse_ipv4_fields s") (auto simp: parse_ipv4_fields_def)
  ultimately show False using p by (auto simp: parse_addr_def split: option.splits if_splits)
qed

lemma parse_addr_no_slash: "parse_addr s = Some ad \<Longrightarrow> CHR ''/'' \<notin> set s"
  by (rule parse_addr_foreign [OF foreign_slash])

section \<open>The text of a network is read back\<close>

lemma dtoi_loop_digits:
  "\<forall>c \<in> set s. is_digit c \<Longrightarrow> foldl (\<lambda>a c. 10 * a + digit_val c) n s < 0xFFFFFF \<Longrightarrow>
   dtoi_loop n s = Some (foldl (\<lambda>a c. 10 * a + digit_val c) n s, [])"
proof (induction s arbitrary: n)
  case (Cons c s)
  have mono: "m \<le> foldl (\<lambda>a c. 10 * a + digit_val c) m t" for m t
  proof (induction t arbitrary: m)
    case (Cons d t)
    show ?case using Cons [of "10 * m + digit_val d"] by simp
  qed simp
  from Cons.prems mono [of "10 * n + digit_val c" s] have "10 * n + digit_val c < 0xFFFFFF" by simp
  with Cons.prems Cons.IH [of "10 * n + digit_val c"] show ?case by (simp add: mult.commute)
qed simp

lemma dtoi_loop_nat_str: "k < 0xFFFFFF \<Longrightarrow> dtoi_loop 0 (nat_str k) = Some (k, [])"
  using dtoi_loop_digits [of "nat_str k" 0] nat_str_digits nat_str_value by simp

lemma nat_str_hd_digit: "is_digit (hd (nat_str k))"
  using nat_str_digits [of "hd (nat_str k)" k] by simp

lemma net_parse_cidr_text:
  assumes "parse_addr a = Some ad" and "k \<le> bit_len ad"
  shows "net_parse_cidr (a @ ''/'' @ nat_str k) =
    map_option (\<lambda>ip. (as16 ad, \<lparr>net_ip = ip, net_mask = cidr_mask k (bit_len ad)\<rparr>)) (ip_mask (as16 ad) (cidr_mask k (bit_len ad)))"
proof -
  have "strings_cut CHR ''/'' (a @ CHR ''/'' # nat_str k) = Some (a, nat_str k)"
    by (rule strings_cut_app) (rule parse_addr_no_slash [OF assms(1)])
  moreover have "bit_len ad \<le> 128" by (cases ad) simp_all
  then have "dtoi_loop 0 (nat_str k) = Some (k, [])" using assms(2) by (intro dtoi_loop_nat_str) simp
  ultimately show ?thesis
    using assms nat_str_hd_digit by (simp add: net_parse_cidr_def Let_def)
qed

lemma net_parse_ip_slash: "CHR ''/'' \<in> set s \<Longrightarrow> net_parse_ip s = None"
  using parse_addr_no_slash by (cases "parse_addr s") (auto simp: net_parse_ip_def)

end
