(* ===== verification/Cidr.thy ===== *)
theory Cidr
  imports Go_Net
begin

text \<open>
  IP addresses, prefixes and ranges: \<open>util/cidr.go\<close>.  The bounds of a network are computed by
  the package go-cidr, which is the argument \<open>address_range\<close> of the definitions that use it.
  A nil \<open>net.IP\<close> is the empty list of bytes.
\<close>

datatype ip_type = IPv4 | IPv6

record parsed_ip =
  pip_network_address :: string
  pip_protocol :: ip_type
  pip_network_prefix :: string
  pip_prefix_length :: int
  pip_prefix :: bool
  pip_cidr :: bool
  pip_ip :: "8 word list"
  pip_ip_net :: "ipnet option"

definition make_cidr :: "string \<Rightarrow> string + string" where
  "make_cidr address =
     (if CHR ''/'' \<in> set address then Inr address
      else (case net_parse_ip address of
              None \<Rightarrow> Inl address
            | Some ip \<Rightarrow> Inr (address @ (if to4 ip \<noteq> None then ''/32'' else ''/128''))))"

definition parse_ip :: "string \<Rightarrow> parsed_ip option" where
  "parse_ip address =
     (case (case net_parse_ip address of
              Some ip \<Rightarrow> Some (ip, None)
            | None \<Rightarrow> map_option (\<lambda>(ip, n). (ip, Some n)) (net_parse_cidr address)) of
        None \<Rightarrow> None
      | Some (ip, net) \<Rightarrow>
          (let size = (case net of None \<Rightarrow> (0, 0) | Some n \<Rightarrow> mask_size (net_mask n));
               is_prefix = (net \<noteq> None \<and> fst size \<noteq> snd size);
               len = (if is_prefix then int (fst size) else 0)
           in Some
             \<lparr>pip_network_address = (case net of Some n \<Rightarrow> if is_prefix then ipnet_string n else ip_string ip | None \<Rightarrow> ip_string ip),
              pip_protocol = (if to4 ip \<noteq> None then IPv4 else IPv6),
              pip_network_prefix = (case net of Some n \<Rightarrow> if is_prefix then ip_string (net_ip n) else ip_string ip | None \<Rightarrow> ip_string ip),
              pip_prefix_length = (if len = 0 then if to4 ip \<noteq> None then 32 else 128 else len),
              pip_prefix = is_prefix,
              pip_cidr = (net \<noteq> None),
              pip_ip = ip,
              pip_ip_net = net\<rparr>))"

datatype range_error = BadAddress string | MixedFamilies string | BadPrefix string | BadRange string

definition parse_ip_range ::
    "(ipnet \<Rightarrow> 8 word list \<times> 8 word list) \<Rightarrow> string \<Rightarrow> range_error + 8 word list \<times> 8 word list" where
  "parse_ip_range address_range r =
     (let s = map trim_space (strings_split CHR ''-'' r) in
      case s of
        [a, b] \<Rightarrow>
          (case net_parse_ip a of
             None \<Rightarrow> Inl (BadAddress a)
           | Some x \<Rightarrow>
               (case net_parse_ip b of
                  None \<Rightarrow> Inl (BadAddress b)
                | Some y \<Rightarrow>
                    if (to4 x \<noteq> None) \<noteq> (to4 y \<noteq> None) then Inl (MixedFamilies r) else Inr (x, y)))
      | [a] \<Rightarrow>
          (case net_parse_cidr a of None \<Rightarrow> Inl (BadPrefix a) | Some (ip, n) \<Rightarrow> Inr (address_range n))
      | _ \<Rightarrow> Inl (BadRange r))"

definition is_in_range :: "parsed_ip \<Rightarrow> 8 word list \<Rightarrow> 8 word list \<Rightarrow> bool" where
  "is_in_range p lb ub =
     (\<not> pip_prefix p \<and>
      (let ip16 = (case to16 (pip_ip p) of None \<Rightarrow> [] | Some ip \<Rightarrow> ip)
       in bytes_compare ip16 lb \<ge> 0 \<and> bytes_compare ip16 ub \<le> 0))"

definition format_cidr_notation :: "string \<Rightarrow> int \<Rightarrow> string" where
  "format_cidr_notation ip m = ip @ ''/'' @ int_str m"

definition is_in_prefix_range :: "parsed_ip \<Rightarrow> string \<Rightarrow> int \<Rightarrow> int \<Rightarrow> bool" where
  "is_in_prefix_range p pfx prefix_len delegated_len =
     (if pip_prefix p \<and> prefix_len \<le> pip_prefix_length p \<and> delegated_len = pip_prefix_length p
      then (case net_parse_cidr (format_cidr_notation pfx prefix_len) of
              None \<Rightarrow> False
            | Some (ip, n) \<Rightarrow>
                ip_equal (case ip_mask (pip_ip p) (net_mask n) of None \<Rightarrow> [] | Some m \<Rightarrow> m) (net_ip n))
      else False)"

text \<open>\<open>big.Int.SetBytes\<close>: the bytes as a big-endian number.\<close>

definition bytes_nat :: "8 word list \<Rightarrow> nat" where
  "bytes_nat bs = foldl (\<lambda>a b. a * 256 + unat b) 0 bs"

definition calculate_range_size :: "8 word list \<Rightarrow> 8 word list \<Rightarrow> int" where
  "calculate_range_size lb ub = int (bytes_nat ub) - int (bytes_nat lb) + 1"

definition calculate_delegated_prefix_range_size :: "int \<Rightarrow> int \<Rightarrow> int" where
  "calculate_delegated_prefix_range_size prefix_length delegated_length =
     (if delegated_length < prefix_length then 0 else 2 ^ nat (delegated_length - prefix_length))"

text \<open>\<open>fmt.Sprintf("%08b", \<dots>)\<close> of a byte.\<close>

definition byte_bits :: "8 word \<Rightarrow> string" where
  "byte_bits b = map (\<lambda>i. if bit b i then CHR ''1'' else CHR ''0'') [7, 6, 5, 4, 3, 2, 1, 0]"

definition binary :: "8 word list \<Rightarrow> string" where
  "binary ip = concat (map byte_bits ip)"

definition get_network_prefix_as_binary :: "parsed_ip \<Rightarrow> string" where
  "get_network_prefix_as_binary p =
     (case net_parse_ip (pip_network_prefix p) of
        None \<Rightarrow> []
      | Some ip \<Rightarrow>
          (let ip16 = (case to16 ip of None \<Rightarrow> [] | Some i \<Rightarrow> i);
               len = pip_prefix_length p
           in if len \<le> 0 then []
              else (let len = (if pip_protocol p = IPv4 then len + 12 * 8 else len) in
                    if int (length (binary ip16)) < len then [] else take (nat len) (binary ip16))))"

definition get_network_prefix_with_length :: "parsed_ip \<Rightarrow> string" where
  "get_network_prefix_with_length p = format_cidr_notation (pip_network_prefix p) (pip_prefix_length p)"

section \<open>Bytes, bits and numbers\<close>

lemma byte_bits_length [simp]: "length (byte_bits b) = 8"
  by (simp add: byte_bits_def)

lemma binary_length [simp]: "length (binary ip) = 8 * length ip"
  by (induction ip) (simp_all add: binary_def)

lemma binary_simps [simp]: "binary [] = []" "binary (b # bs) = byte_bits b @ binary bs" "binary (as @ bs) = binary as @ binary bs"
  by (simp_all add: binary_def)

lemma byte_bits_inject: "byte_bits a = byte_bits b \<Longrightarrow> a = b"
proof (rule bit_word_eqI)
  fix n assume eq: "byte_bits a = byte_bits b" and "n < LENGTH(8)"
  then have n: "n \<in> set [7, 6, 5, 4, 3, 2, 1, 0]" by auto
  have "(if bit a n then CHR ''1'' else CHR ''0'') = (if bit b n then CHR ''1'' else CHR ''0'')"
    using eq n unfolding byte_bits_def map_eq_conv by blast
  then show "bit a n = bit b n" by (cases "bit a n"; cases "bit b n") simp_all
qed

lemma binary_inject: "length as = length bs \<Longrightarrow> binary as = binary bs \<Longrightarrow> as = bs"
  by (induction as bs rule: list_induct2) (auto dest: byte_bits_inject)

lemma bit_byte_mask: "i < 8 \<Longrightarrow> bit (b AND NOT (drop_bit n (0xFF :: 8 word))) i \<longleftrightarrow> bit b i \<and> 8 \<le> n + i"
proof -
  have ff: "(0xFF :: 8 word) = mask 8" by code_simp
  assume "i < 8"
  then show ?thesis unfolding ff by (auto simp: bit_and_iff bit_not_iff bit_drop_bit_eq bit_mask_iff)
qed

lemma byte_mask_bits:
  assumes "n < 8"
  shows "byte_bits (b AND NOT (drop_bit n 0xFF)) = take n (byte_bits b) @ replicate (8 - n) CHR ''0''"
proof -
  define m where "m = NOT (drop_bit n (0xFF :: 8 word))"
  have bits: "bit (b AND m) i \<longleftrightarrow> bit b i \<and> 8 \<le> n + i" if "i < 8" for i
    unfolding m_def by (rule bit_byte_mask [OF that])
  have all: "byte_bits (b AND m) = map (\<lambda>i. if bit b i \<and> 8 \<le> n + i then CHR ''1'' else CHR ''0'') [7, 6, 5, 4, 3, 2, 1, 0]"
    unfolding byte_bits_def by (rule map_cong [OF refl]) (use bits in auto)
  consider "n = 0" | "n = 1" | "n = 2" | "n = 3" | "n = 4" | "n = 5" | "n = 6" | "n = 7"
    using assms by linarith
  then show ?thesis
    unfolding m_def [symmetric] all by cases (simp_all add: byte_bits_def eval_nat_numeral)
qed

text \<open>Masking keeps the leading bits and clears the others.\<close>

lemma mask_bits:
  assumes "length ip = l" and "n \<le> 8 * l"
  shows "binary (map2 (AND) ip (mask_bytes l n)) = take n (binary ip) @ replicate (8 * l - n) CHR ''0''"
  using assms
proof (induction l n arbitrary: ip rule: mask_bytes.induct)
  case (2 l n)
  then obtain b bs where ip: "ip = b # bs" "length bs = l" by (auto simp: length_Suc_conv)
  have ff: "b AND 0xFF = b" by (rule bit_word_eqI) (simp add: bit_simps, auto simp: eval_nat_numeral less_Suc_eq)
  show ?case
  proof (cases "8 \<le> n")
    case True
    with "2.IH"(1) [OF True ip(2)] "2.prems"(2) ip ff show ?thesis by simp
  next
    case False
    then have "byte_bits (b AND NOT (drop_bit n 0xFF)) = take n (byte_bits b) @ replicate (8 - n) CHR ''0''"
      by (intro byte_mask_bits) simp
    moreover have "replicate (8 - n) CHR ''0'' @ replicate (8 * l) CHR ''0'' = replicate (8 + 8 * l - n) CHR ''0''"
      using False by (simp flip: replicate_add)
    ultimately show ?thesis
      using "2.IH"(2) [OF False ip(2)] False ip by simp
  qed
qed simp

section \<open>Ranges as numbers\<close>

lemma bytes_nat_fold: "foldl (\<lambda>a b. a * 256 + unat (b :: 8 word)) c bs = c * 256 ^ length bs + foldl (\<lambda>a b. a * 256 + unat b) 0 bs"
proof (induction bs arbitrary: c)
  case (Cons b bs)
  from Cons [of "c * 256 + unat b"] Cons [of "0 * 256 + unat b"] show ?case by (simp add: algebra_simps)
qed simp

lemma bytes_nat_Cons: "bytes_nat (b # bs) = unat b * 256 ^ length bs + bytes_nat bs"
  using bytes_nat_fold [of "unat b" bs] by (simp add: bytes_nat_def)

lemma bytes_nat_bound: "bytes_nat bs < 256 ^ length bs"
proof (induction bs)
  case (Cons b bs)
  have "unat b + 1 \<le> 256" using unat_byte [of b] by linarith
  then have "(unat b + 1) * 256 ^ length bs \<le> 256 * 256 ^ length bs" by (rule mult_right_mono) simp
  then have "unat b * 256 ^ length bs + 256 ^ length bs \<le> 256 ^ length (b # bs)" by (simp only: distrib_right mult_1 length_Cons power_Suc)
  with Cons show ?case unfolding bytes_nat_Cons by linarith
qed (simp add: bytes_nat_def)

lemma bytes_less_iff: "length as = length bs \<Longrightarrow> as < bs \<longleftrightarrow> bytes_nat as < bytes_nat bs"
proof (induction as bs rule: list_induct2)
  case (Cons a as b bs)
  let ?m = "(256 :: nat) ^ length bs"
  have bound: "bytes_nat as < ?m" "bytes_nat bs < ?m"
    using bytes_nat_bound [of as] bytes_nat_bound [of bs] Cons.hyps by simp_all
  consider "unat a < unat b" | "unat a = unat b" | "unat b < unat a" by linarith
  then show ?case
  proof cases
    case 1
    then have "(unat a + 1) * ?m \<le> unat b * ?m" by (intro mult_right_mono) auto
    with bound(1) have "bytes_nat (a # as) < bytes_nat (b # bs)"
      using Cons.hyps by (simp add: bytes_nat_Cons)
    with 1 show ?thesis by (simp add: word_less_nat_alt)
  next
    case 2
    then have "a = b" by (simp add: unsigned_word_eqI)
    then show ?thesis using Cons by (simp add: bytes_nat_Cons)
  next
    case 3
    then have "(unat b + 1) * ?m \<le> unat a * ?m" by (intro mult_right_mono) auto
    with bound(2) have "bytes_nat (b # bs) < bytes_nat (a # as)"
      using Cons.hyps by (simp add: bytes_nat_Cons)
    with 3 show ?thesis by (auto simp: word_less_nat_alt)
  qed
qed (simp add: bytes_nat_def)

lemma bytes_nat_inject: "length as = length bs \<Longrightarrow> bytes_nat as = bytes_nat bs \<Longrightarrow> as = bs"
  using bytes_less_iff [of as bs] bytes_less_iff [of bs as] by (metis less_irrefl linorder_neq_iff)

lemma bytes_compare_nat:
  assumes "length as = length bs"
  shows "bytes_compare as bs \<ge> 0 \<longleftrightarrow> bytes_nat bs \<le> bytes_nat as"
    and "bytes_compare as bs \<le> 0 \<longleftrightarrow> bytes_nat as \<le> bytes_nat bs"
  using assms bytes_less_iff [OF assms] bytes_nat_inject [OF assms]
  by (auto simp: bytes_compare_def not_less split: if_splits)

lemma bytes_nat_bij: "bij_betw bytes_nat {ip :: 8 word list. length ip = n} {..<256 ^ n}"
proof -
  let ?A = "{ip :: 8 word list. length ip = n}"
  have fin: "finite ?A" using finite_lists_length_eq [of "UNIV :: 8 word set" n] by simp
  have "card ?A = 256 ^ n"
    using card_lists_length_eq [of "UNIV :: 8 word set" n] by (simp add: card_word)
  moreover have inj: "inj_on bytes_nat ?A" by (rule inj_onI) (auto intro: bytes_nat_inject)
  moreover have sub: "bytes_nat ` ?A \<subseteq> {..<256 ^ n}" using bytes_nat_bound by fastforce
  ultimately have "bytes_nat ` ?A = {..<256 ^ n}"
    by (intro card_subset_eq) (simp_all add: card_image)
  with inj show ?thesis by (simp add: bij_betw_def)
qed

lemma card_between:
  assumes "u < 256 ^ n"
  shows "card {ip :: 8 word list. length ip = n \<and> l \<le> bytes_nat ip \<and> bytes_nat ip \<le> u} = card {l..u}"
proof -
  have "bytes_nat ` {ip. length ip = n \<and> l \<le> bytes_nat ip \<and> bytes_nat ip \<le> u} = {l..u}"
    (is "?f ` ?S = _")
  proof
    show "{l..u} \<subseteq> ?f ` ?S"
    proof
      fix x assume x: "x \<in> {l..u}"
      then have "x \<in> bytes_nat ` {ip. length ip = n}"
        using bytes_nat_bij [of n] assms by (auto simp: bij_betw_def)
      with x show "x \<in> ?f ` ?S" by auto
    qed
  qed auto
  moreover have "inj_on bytes_nat ?S" by (rule inj_onI) (auto intro: bytes_nat_inject)
  ultimately show ?thesis using card_image [of bytes_nat ?S] by simp
qed

section \<open>Parsed addresses and networks\<close>

lemma parse_ip_length: "parse_ip s = Some p \<Longrightarrow> length (pip_ip p) = 16"
proof -
  have "net_parse_cidr s = Some (ip, n) \<Longrightarrow> length ip = 16" for ip n
    by (auto simp: net_parse_cidr_def Let_def as16_length split: option.splits if_splits)
  then show "parse_ip s = Some p \<Longrightarrow> length (pip_ip p) = 16"
    by (auto simp: parse_ip_def Let_def net_parse_ip_length split: option.splits)
qed

lemma to16_16 [simp]: "length ip = 16 \<Longrightarrow> to16 ip = Some ip"
  by (simp add: to16_def)

lemma parse_ip_plain:
  assumes "length ip = 16"
  shows "\<exists>p. parse_ip (ip_string ip) = Some p \<and> pip_ip p = ip \<and> \<not> pip_prefix p"
  using ip_string_roundtrip [of ip] assms by (simp add: parse_ip_def Let_def)

lemma is_in_range_iff:
  assumes "parse_ip s = Some p" and "length lb = 16" and "length ub = 16"
  shows "is_in_range p lb ub \<longleftrightarrow>
    \<not> pip_prefix p \<and> bytes_nat lb \<le> bytes_nat (pip_ip p) \<and> bytes_nat (pip_ip p) \<le> bytes_nat ub"
  using assms parse_ip_length [OF assms(1)] by (simp add: is_in_range_def Let_def bytes_compare_nat)

lemma parse_ip_range_pair:
  assumes "parse_ip_range ar r = Inr (lb, ub)" and "CHR ''-'' \<in> set r"
  shows "length lb = 16 \<and> length ub = 16"
proof -
  have "strings_split CHR ''-'' r \<noteq> [x]" for x
  proof
    assume "strings_split CHR ''-'' r = [x]"
    then have "r = x" "CHR ''-'' \<notin> set x"
      using strings_join_split [of "CHR ''-''" r] strings_split_pieces [of x "CHR ''-''" r] by auto
    with assms(2) show False by simp
  qed
  then obtain x y zs where "map trim_space (strings_split CHR ''-'' r) = x # y # zs"
    using strings_split_nonempty [of "CHR ''-''" r] by (metis list.map_disc_iff map_eq_Cons_conv neq_Nil_conv)
  with assms(1) show ?thesis
    by (auto simp: parse_ip_range_def Let_def net_parse_ip_length split: list.splits option.splits if_splits)
qed

lemma range_size_card:
  assumes "parse_ip_range address_range r = Inr (lb, ub)" and "CHR ''-'' \<in> set r"
  shows "max 0 (calculate_range_size lb ub) =
    int (card {pip_ip p | s p. parse_ip s = Some p \<and> is_in_range p lb ub})"
proof -
  have l: "length lb = 16" "length ub = 16" using parse_ip_range_pair [OF assms] by auto
  have "{pip_ip p | s p. parse_ip s = Some p \<and> is_in_range p lb ub} =
      {ip :: 8 word list. length ip = 16 \<and> bytes_nat lb \<le> bytes_nat ip \<and> bytes_nat ip \<le> bytes_nat ub}" (is "?A = ?B")
  proof
    show "?A \<subseteq> ?B" using is_in_range_iff l parse_ip_length by blast
    show "?B \<subseteq> ?A"
    proof
      fix ip assume ip: "ip \<in> ?B"
      then obtain p where p: "parse_ip (ip_string ip) = Some p" "pip_ip p = ip" "\<not> pip_prefix p"
        using parse_ip_plain by blast
      with ip is_in_range_iff [OF p(1) l] show "ip \<in> ?A" by blast
    qed
  qed
  then have "card ?A = card {bytes_nat lb..bytes_nat ub}"
    using card_between [of "bytes_nat ub" 16] bytes_nat_bound [of ub] l by simp
  then show ?thesis by (simp add: calculate_range_size_def max_def of_nat_diff)
qed


lemma v4_in_v6_prefix_eq: "v4_in_v6_prefix = [0, 0, 0, 0, 0, 0, 0, 0, 0, 0, 0xFF, 0xFF]"
  by code_simp


lemma net_parse_cidr_cases:
  assumes "net_parse_cidr s = Some (ip, n)"
  shows "\<exists>ad k. ip = as16 ad \<and> 8 * length (addr_bytes ad) = bit_len ad \<and> k \<le> bit_len ad \<and>
    net_mask n = cidr_mask k (bit_len ad) \<and> ip_mask ip (net_mask n) = Some (net_ip n)"
proof -
  obtain a m where c: "strings_cut CHR ''/'' s = Some (a, m)" using assms by (auto simp: net_parse_cidr_def split: option.splits)
  obtain ad where ad: "parse_addr a = Some ad" using assms c by (auto simp: net_parse_cidr_def split: option.splits)
  note u = assms [unfolded net_parse_cidr_def c option.case prod.case ad]
  obtain k where k: "dtoi_loop 0 m = Some (k, [])" "k \<le> bit_len ad"
    using u by (auto split: option.splits if_splits)
  have "map_option (\<lambda>i. (as16 ad, \<lparr>net_ip = i, net_mask = cidr_mask k (bit_len ad)\<rparr>)) (ip_mask (as16 ad) (cidr_mask k (bit_len ad))) = Some (ip, n)"
    using u k by (simp add: Let_def split: if_splits)
  then show ?thesis
    using parse_addr_length [OF ad] k(2) by (intro exI [of _ ad] exI [of _ k]) auto
qed

text \<open>How many leading bits of the 16 bytes a network fixes.\<close>

definition fixed_bits :: "ipnet \<Rightarrow> nat" where
  "fixed_bits n = (case mask_size (net_mask n) of (ones, bits) \<Rightarrow> ones + (128 - bits))"

definition network_addresses :: "ipnet \<Rightarrow> 8 word list set" where
  "network_addresses n = {ip. length ip = 16 \<and> ip_mask ip (net_mask n) = Some (net_ip n)}"

lemma same_masked:
  assumes "length a = l" "length b = l" "k \<le> 8 * l"
  shows "map2 (AND) a (mask_bytes l k) = map2 (AND) b (mask_bytes l k) \<longleftrightarrow> take k (binary a) = take k (binary b)"
proof -
  have "map2 (AND) a (mask_bytes l k) = map2 (AND) b (mask_bytes l k) \<longleftrightarrow>
      binary (map2 (AND) a (mask_bytes l k)) = binary (map2 (AND) b (mask_bytes l k))"
    using binary_inject [of "map2 (AND) a (mask_bytes l k)" "map2 (AND) b (mask_bytes l k)"] assms by auto
  then show ?thesis using assms by (simp add: mask_bits)
qed

lemma v4_mapped_bits:
  assumes "length x = 16" and "length a = 4"
  shows "take (96 + k) (binary x) = take (96 + k) (binary (v4_in_v6_prefix @ a)) \<longleftrightarrow>
    take 12 x = v4_in_v6_prefix \<and> take k (binary (drop 12 x)) = take k (binary a)"
proof -
  have split: "binary x = binary (take 12 x) @ binary (drop 12 x)"
    by (metis append_take_drop_id binary_simps(3))
  have l: "length (binary (take 12 x)) = 96" "length (binary v4_in_v6_prefix) = 96" using assms by simp_all
  have "take (96 + k) (binary x) = binary (take 12 x) @ take k (binary (drop 12 x))"
    using l by (simp add: split)
  moreover have "take (96 + k) (binary (v4_in_v6_prefix @ a)) = binary v4_in_v6_prefix @ take k (binary a)"
    using l by simp
  ultimately show ?thesis
    using l binary_inject [of "take 12 x" v4_in_v6_prefix] assms by auto
qed

lemma cidr_masks:
  assumes "length b = 4" "k \<le> 32"
  shows "ip_mask x (cidr_mask k 32) =
    (if length x = 4 then Some (map2 (AND) x (mask_bytes 4 k))
     else if length x = 16 \<and> take 12 x = v4_in_v6_prefix then Some (map2 (AND) (drop 12 x) (mask_bytes 4 k)) else None)"
  by (simp add: ip_mask_def cidr_mask_def Let_def)

lemma ip_mask_v6: "length x = 16 \<Longrightarrow> ip_mask x (cidr_mask k 128) = Some (map2 (AND) x (mask_bytes 16 k))"
  by (simp add: ip_mask_def cidr_mask_def Let_def)

text \<open>The networks that \<open>net.ParseCIDR\<close> gives: of an IPv4 address, or of an IPv6 one.\<close>

lemma cidr_networks:
  assumes "net_parse_cidr s = Some (ip, n)"
  shows "(\<exists>b k. length b = 4 \<and> k \<le> 32 \<and> ip = v4_in_v6_prefix @ b \<and> net_mask n = cidr_mask k 32 \<and>
      net_ip n = map2 (AND) b (mask_bytes 4 k) \<and> mask_size (net_mask n) = (k, 32)) \<or>
    (\<exists>k. length ip = 16 \<and> k \<le> 128 \<and> net_mask n = cidr_mask k 128 \<and> net_ip n = map2 (AND) ip (mask_bytes 16 k) \<and>
      mask_size (net_mask n) = (k, 128))"
proof -
  obtain ad k where ad: "ip = as16 ad" "8 * length (addr_bytes ad) = bit_len ad" "k \<le> bit_len ad"
    "net_mask n = cidr_mask k (bit_len ad)" "ip_mask ip (net_mask n) = Some (net_ip n)"
    using net_parse_cidr_cases [OF assms] by blast
  show ?thesis
  proof (cases ad)
    case (Addr4 b)
    with ad have b: "length b = 4" "k \<le> 32" "ip = v4_in_v6_prefix @ b" by simp_all
    then have "net_ip n = map2 (AND) b (mask_bytes 4 k)"
      using ad(4,5) Addr4 by (simp add: cidr_masks [OF b(1,2)])
    with b ad(4) Addr4 show ?thesis by (auto simp: mask_size_cidr)
  next
    case (Addr6 b)
    with ad have "length ip = 16" "k \<le> 128" by simp_all
    with ad(4,5) Addr6 show ?thesis by (auto simp: mask_size_cidr ip_mask_v6)
  qed
qed

lemma network_addresses_cidr:
  assumes "net_parse_cidr s = Some (ip, n)"
  shows "network_addresses n = {x. length x = 16 \<and> take (fixed_bits n) (binary x) = take (fixed_bits n) (binary ip)}"
    and "length ip = 16" and "fixed_bits n \<le> 128"
proof -
  have "network_addresses n = {x. length x = 16 \<and> take (fixed_bits n) (binary x) = take (fixed_bits n) (binary ip)} \<and>
    length ip = 16 \<and> fixed_bits n \<le> 128"
    using cidr_networks [OF assms]
  proof (elim disjE exE conjE)
    fix b k assume b: "length b = 4" "k \<le> 32" "ip = v4_in_v6_prefix @ b" "net_mask n = cidr_mask k 32"
      "net_ip n = map2 (AND) b (mask_bytes 4 k)" "mask_size (net_mask n) = (k, 32)"
    have f: "fixed_bits n = 96 + k" using b by (simp add: fixed_bits_def)
    have "x \<in> network_addresses n \<longleftrightarrow> length x = 16 \<and> take (96 + k) (binary x) = take (96 + k) (binary ip)" for x
      using v4_mapped_bits [of x b k] same_masked [of "drop 12 x" 4 b k] b(1,2)
      by (auto simp: network_addresses_def b(3-5) cidr_masks [OF b(1,2)])
    then show ?thesis using f b by auto
  next
    fix k assume b: "length ip = 16" "k \<le> 128" "net_mask n = cidr_mask k 128" "net_ip n = map2 (AND) ip (mask_bytes 16 k)"
      "mask_size (net_mask n) = (k, 128)"
    have f: "fixed_bits n = k" using b by (simp add: fixed_bits_def)
    have "x \<in> network_addresses n \<longleftrightarrow> length x = 16 \<and> take k (binary x) = take k (binary ip)" for x
      using same_masked [of x 16 ip k] b(1,2) by (auto simp: network_addresses_def b(3,4) ip_mask_v6)
    then show ?thesis using f b by auto
  qed
  then show "network_addresses n = {x. length x = 16 \<and> take (fixed_bits n) (binary x) = take (fixed_bits n) (binary ip)}"
    and "length ip = 16" and "fixed_bits n \<le> 128" by blast+
qed

text \<open>A prefix for which the length is not lost, and whose text is not that of an IPv4-mapped address.\<close>

definition plain_prefix :: "parsed_ip \<Rightarrow> bool" where
  "plain_prefix p =
     (case pip_ip_net p of
        None \<Rightarrow> False
      | Some n \<Rightarrow> pip_prefix p \<and> fst (mask_size (net_mask n)) \<noteq> 0 \<and> (pip_protocol p = IPv4 \<longrightarrow> length (net_mask n) = 4))"

definition addresses_of :: "parsed_ip \<Rightarrow> 8 word list set" where
  "addresses_of p = (case pip_ip_net p of None \<Rightarrow> {pip_ip p} | Some n \<Rightarrow> network_addresses n)"

lemma plain_prefix_binary:
  assumes "parse_ip s = Some p" and "plain_prefix p"
  shows "\<exists>k \<le> 128. get_network_prefix_as_binary p = take k (binary (pip_ip p)) \<and>
    addresses_of p = {x. length x = 16 \<and> take k (binary x) = take k (binary (pip_ip p))}"
proof -
  obtain n where n: "pip_ip_net p = Some n" "pip_prefix p" "fst (mask_size (net_mask n)) \<noteq> 0"
    and v4: "pip_protocol p = IPv4 \<Longrightarrow> length (net_mask n) = 4"
    using assms(2) by (auto simp: plain_prefix_def split: option.splits)
  have c: "net_parse_cidr s = Some (pip_ip p, n)"
    using assms(1) n(1) by (auto simp: parse_ip_def Let_def split: option.splits)
  have p: "pip_network_prefix p = ip_string (net_ip n)" "pip_prefix_length p = int (fst (mask_size (net_mask n)))"
    "pip_protocol p = (if to4 (pip_ip p) \<noteq> None then IPv4 else IPv6)"
    using assms(1) n by (auto simp: parse_ip_def Let_def split: option.splits)
  note addr = network_addresses_cidr [OF c]
  have "get_network_prefix_as_binary p = take (fixed_bits n) (binary (pip_ip p))"
    using cidr_networks [OF c]
  proof (elim disjE exE conjE)
    fix b k assume b: "length b = 4" "k \<le> 32" "pip_ip p = v4_in_v6_prefix @ b" "net_mask n = cidr_mask k 32"
      "net_ip n = map2 (AND) b (mask_bytes 4 k)" "mask_size (net_mask n) = (k, 32)"
    let ?m = "map2 (AND) b (mask_bytes 4 k)"
    have l: "length ?m = 4" using b by simp
    then have "net_parse_ip (pip_network_prefix p) = Some (v4_in_v6_prefix @ ?m)"
      using ip_string_roundtrip [of ?m] by (simp add: p(1) b(5) to16_def)
    moreover have "pip_protocol p = IPv4" using p(3) b by (simp add: to4_def)
    moreover have "pip_prefix_length p = int k" "k \<noteq> 0" using p(2) b n(3) by simp_all
    moreover have "binary ?m = take k (binary b) @ replicate (32 - k) CHR ''0''"
      using mask_bits [of b 4 k] b by simp
    ultimately show ?thesis
      using b l by (simp add: get_network_prefix_as_binary_def Let_def fixed_bits_def nat_add_distrib)
  next
    fix k assume b: "length (pip_ip p) = 16" "k \<le> 128" "net_mask n = cidr_mask k 128"
      "net_ip n = map2 (AND) (pip_ip p) (mask_bytes 16 k)" "mask_size (net_mask n) = (k, 128)"
    let ?m = "map2 (AND) (pip_ip p) (mask_bytes 16 k)"
    have l: "length ?m = 16" using b by simp
    then have "net_parse_ip (pip_network_prefix p) = Some ?m"
      using ip_string_roundtrip [of ?m] by (simp add: p(1) b(4))
    moreover have "pip_protocol p = IPv6"
      using p(3) v4 b(3) by (cases "pip_protocol p") (simp_all add: cidr_mask_def)
    moreover have "pip_prefix_length p = int k" "k \<noteq> 0" using p(2) b n(3) by simp_all
    moreover have "binary ?m = take k (binary (pip_ip p)) @ replicate (128 - k) CHR ''0''"
      using mask_bits [of "pip_ip p" 16 k] b by simp
    ultimately show ?thesis
      using b l by (simp add: get_network_prefix_as_binary_def Let_def fixed_bits_def)
  qed
  with addr n(1) show ?thesis by (auto simp: addresses_of_def)
qed

lemma binary_surj:
  assumes "length s = 8 * n" and "set s \<subseteq> {CHR ''0'', CHR ''1''}"
  shows "\<exists>ip. length ip = n \<and> binary ip = s"
proof -
  let ?A = "{ip :: 8 word list. length ip = n}"
  let ?B = "{s. set s \<subseteq> {CHR ''0'', CHR ''1''} \<and> length s = 8 * n}"
  have "binary ` ?A \<subseteq> ?B"
  proof -
    have "set (byte_bits b) \<subseteq> {CHR ''0'', CHR ''1''}" for b by (auto simp: byte_bits_def)
    then have "set (binary ip) \<subseteq> {CHR ''0'', CHR ''1''}" for ip by (induction ip) auto
    then show ?thesis by auto
  qed
  moreover have "finite ?B" by (rule finite_lists_length_eq) simp
  moreover have "card (binary ` ?A) = card ?B"
  proof -
    have "inj_on binary ?A" by (rule inj_onI) (auto intro: binary_inject)
    then have "card (binary ` ?A) = (2 ^ 8) ^ n"
      using card_lists_length_eq [of "UNIV :: 8 word set" n] by (simp add: card_image card_word)
    also have "\<dots> = card {CHR ''0'', CHR ''1''} ^ (8 * n)"
    proof -
      have "card {CHR ''0'', CHR ''1''} = 2" by simp
      then show ?thesis by (simp only: power_mult)
    qed
    also have "\<dots> = card ?B"
      using card_lists_length_eq [of "{CHR ''0'', CHR ''1''}" "8 * n"] by simp
    finally show ?thesis .
  qed
  ultimately have "binary ` ?A = ?B" by (intro card_subset_eq) auto
  moreover have "s \<in> ?B" using assms by simp
  ultimately have "s \<in> binary ` ?A" by simp
  then show ?thesis by auto
qed

lemma binary_chars: "set (binary ip) \<subseteq> {CHR ''0'', CHR ''1''}"
  by (induction ip) (auto simp: byte_bits_def)

text \<open>Fixing fewer bits gives strictly more addresses.\<close>

lemma more_fixed_bits:
  assumes "length ip = 16" and "b < a" and "a \<le> 128"
  shows "\<exists>x. length x = 16 \<and> take b (binary x) = take b (binary ip) \<and> take a (binary x) \<noteq> take a (binary ip)"
proof -
  let ?s = "binary ip" and ?i = "a - 1"
  define t where "t = ?s[?i := (if ?s ! ?i = CHR ''0'' then CHR ''1'' else CHR ''0'')]"
  have i: "?i < length ?s" "b \<le> ?i" "?i < a" using assms by simp_all
  have "set t \<subseteq> {CHR ''0'', CHR ''1''}"
    using set_update_subset_insert [of ?s ?i "if ?s ! ?i = CHR ''0'' then CHR ''1'' else CHR ''0''"] binary_chars [of ip]
    unfolding t_def by (auto split: if_splits)
  moreover have "length t = 8 * 16" using assms by (simp add: t_def)
  ultimately obtain x where x: "length x = 16" "binary x = t" using binary_surj by blast
  have "take b t = take b ?s" using i by (simp add: t_def)
  moreover have "take a t ! ?i \<noteq> take a ?s ! ?i" using i by (simp add: t_def)
  ultimately show ?thesis using x by (intro exI [of _ x]) auto
qed

text \<open>
  On the prefixes that the code reads correctly, the textual comparison that the checker
  of overlapping subnets makes decides about the networks: the binary form of one prefix
  begins with that of another exactly when its addresses are among those of the other, and
  if neither begins with the other the two networks have no address in common.
\<close>
theorem nested_networks:
  assumes "parse_ip s = Some p" and "plain_prefix p" and "parse_ip t = Some q" and "plain_prefix q"
  shows "(prefix (get_network_prefix_as_binary p) (get_network_prefix_as_binary q) \<longleftrightarrow> addresses_of q \<subseteq> addresses_of p) \<and>
    (\<not> prefix (get_network_prefix_as_binary p) (get_network_prefix_as_binary q) \<and>
     \<not> prefix (get_network_prefix_as_binary q) (get_network_prefix_as_binary p) \<longleftrightarrow> addresses_of p \<inter> addresses_of q = {})"
proof -
  obtain a where a: "a \<le> 128" "get_network_prefix_as_binary p = take a (binary (pip_ip p))"
    "addresses_of p = {x. length x = 16 \<and> take a (binary x) = take a (binary (pip_ip p))}"
    using plain_prefix_binary [OF assms(1,2)] by blast
  obtain b where b: "b \<le> 128" "get_network_prefix_as_binary q = take b (binary (pip_ip q))"
    "addresses_of q = {x. length x = 16 \<and> take b (binary x) = take b (binary (pip_ip q))}"
    using plain_prefix_binary [OF assms(3,4)] by blast
  have lp: "length (pip_ip p) = 16" and lq: "length (pip_ip q) = 16"
    using parse_ip_length assms by blast+
  have pre: "prefix (take m (binary x)) (take n (binary y)) \<longleftrightarrow> m \<le> n \<and> take m (binary y) = take m (binary x)"
    if "length x = 16" "length y = 16" "m \<le> 128" "n \<le> 128" for x y m n
  proof
    assume pr: "prefix (take m (binary x)) (take n (binary y))"
    then have "m \<le> n" using prefix_length_le [OF pr] that by simp
    moreover obtain zs where zs: "take n (binary y) = take m (binary x) @ zs" using pr by (auto simp: prefix_def)
    have "take m (take n (binary y)) = take m (binary x)" unfolding zs using that by simp
    ultimately show "m \<le> n \<and> take m (binary y) = take m (binary x)" by (simp add: min_def)
  next
    assume "m \<le> n \<and> take m (binary y) = take m (binary x)"
    then show "prefix (take m (binary x)) (take n (binary y))"
      using take_is_prefix [of m "take n (binary y)"] by (simp add: min_def)
  qed
  have sub: "addresses_of q \<subseteq> addresses_of p \<longleftrightarrow> a \<le> b \<and> take a (binary (pip_ip q)) = take a (binary (pip_ip p))"
  proof
    assume s: "addresses_of q \<subseteq> addresses_of p"
    have "pip_ip q \<in> addresses_of q" using lq b(3) by simp
    with s have q: "take a (binary (pip_ip q)) = take a (binary (pip_ip p))" using a(3) by auto
    have "\<not> b < a"
    proof
      assume "b < a"
      then obtain x where x: "length x = 16" "take b (binary x) = take b (binary (pip_ip q))"
        "take a (binary x) \<noteq> take a (binary (pip_ip q))"
        using more_fixed_bits [OF lq] a(1) by blast
      then have "x \<in> addresses_of p" using s b(3) by auto
      with x(3) q a(3) show False by simp
    qed
    with q show "a \<le> b \<and> take a (binary (pip_ip q)) = take a (binary (pip_ip p))" by simp
  next
    assume h: "a \<le> b \<and> take a (binary (pip_ip q)) = take a (binary (pip_ip p))"
    show "addresses_of q \<subseteq> addresses_of p"
    proof
      fix x assume "x \<in> addresses_of q"
      then have x: "length x = 16" "take b (binary x) = take b (binary (pip_ip q))" using b(3) by auto
      have "take a (binary x) = take a (take b (binary x))" using h by (simp add: min_def)
      also have "\<dots> = take a (binary (pip_ip p))" using h x(2) by (simp add: min_def)
      finally show "x \<in> addresses_of p" using x a(3) by simp
    qed
  qed
  have common: "addresses_of p \<inter> addresses_of q \<noteq> {}"
    if "m \<le> n" "take m (binary y) = take m (binary x)" "length y = 16" "(x, m, y, n) = (pip_ip p, a, pip_ip q, b) \<or> (x, m, y, n) = (pip_ip q, b, pip_ip p, a)"
    for x y m n
    using that a(3) b(3) by auto
  have disj: "a \<le> b \<and> take a (binary (pip_ip q)) = take a (binary (pip_ip p)) \<or>
      b \<le> a \<and> take b (binary (pip_ip p)) = take b (binary (pip_ip q))"
    if x: "x \<in> addresses_of p" "x \<in> addresses_of q" for x
  proof -
    have e: "take a (binary x) = take a (binary (pip_ip p))" "take b (binary x) = take b (binary (pip_ip q))"
      using x a(3) b(3) by auto
    have "take (min a b) (binary (pip_ip p)) = take (min a b) (binary x)"
      using arg_cong [OF e(1), of "take (min a b)"] by (simp add: min_def split: if_splits)
    moreover have "take (min a b) (binary (pip_ip q)) = take (min a b) (binary x)"
      using arg_cong [OF e(2), of "take (min a b)"] by (simp add: min_def split: if_splits)
    ultimately show ?thesis by (auto simp: min_def split: if_splits)
  qed
  show ?thesis
    unfolding a(2) b(2) pre [OF lp lq a(1) b(1)] pre [OF lq lp b(1) a(1)] sub
    using common [of a b "pip_ip q" "pip_ip p"] common [of b a "pip_ip p" "pip_ip q"] disj lp lq by blast
qed

lemma nested_networks_witness:
  "\<exists>p q. parse_ip ''10.0.0.0/8'' = Some p \<and> parse_ip ''10.1.2.0/24'' = Some q \<and> addresses_of q \<subseteq> addresses_of p"
proof -
  have c: "case (parse_ip ''10.0.0.0/8'', parse_ip ''10.1.2.0/24'') of
      (Some p, Some q) \<Rightarrow> plain_prefix p \<and> plain_prefix q \<and>
        prefix (get_network_prefix_as_binary p) (get_network_prefix_as_binary q)
    | _ \<Rightarrow> False" by code_simp
  then obtain p q where pq: "parse_ip ''10.0.0.0/8'' = Some p" "parse_ip ''10.1.2.0/24'' = Some q"
    by (cases "parse_ip ''10.0.0.0/8''"; cases "parse_ip ''10.1.2.0/24''") simp_all
  with c have "plain_prefix p" "plain_prefix q" "prefix (get_network_prefix_as_binary p) (get_network_prefix_as_binary q)"
    by simp_all
  with nested_networks [OF pq(1) _ pq(2)] pq show ?thesis by blast
qed

text \<open>
  The length of a prefix of length zero is lost: it is replaced by the length of a host
  address, so the default networks are taken for the single addresses \<open>0.0.0.0\<close> and \<open>::\<close>
  and do not contain any other network in the comparison.
\<close>
theorem zero_length_prefix_lost:
  "(\<exists>p q. parse_ip ''0.0.0.0/0'' = Some p \<and> parse_ip ''10.0.0.0/8'' = Some q \<and>
      addresses_of q \<subseteq> addresses_of p \<and> pip_prefix_length p = 32 \<and>
      \<not> prefix (get_network_prefix_as_binary p) (get_network_prefix_as_binary q)) \<and>
   (\<exists>p. parse_ip ''::/0'' = Some p \<and> pip_prefix_length p = 128 \<and> addresses_of p = {x. length x = 16})"
proof
  have c: "case (parse_ip ''0.0.0.0/0'', parse_ip ''10.0.0.0/8'') of
      (Some p, Some q) \<Rightarrow> pip_prefix_length p = 32 \<and>
        \<not> prefix (get_network_prefix_as_binary p) (get_network_prefix_as_binary q)
    | _ \<Rightarrow> False" by code_simp
  obtain p q where pq: "parse_ip ''0.0.0.0/0'' = Some p" "parse_ip ''10.0.0.0/8'' = Some q"
    using c by (cases "parse_ip ''0.0.0.0/0''"; cases "parse_ip ''10.0.0.0/8''") simp_all
  obtain i n where n: "net_parse_cidr ''0.0.0.0/0'' = Some (i, n)" "pip_ip_net p = Some n" "fixed_bits n = 96" "i = v4_in_v6_prefix @ [0, 0, 0, 0]"
  proof -
    have "case (net_parse_cidr ''0.0.0.0/0'', parse_ip ''0.0.0.0/0'') of
        (Some (i, n), Some p) \<Rightarrow> pip_ip_net p = Some n \<and> fixed_bits n = 96 \<and> i = v4_in_v6_prefix @ [0, 0, 0, 0]
      | _ \<Rightarrow> False" by code_simp
    with pq(1) that show ?thesis by (cases "net_parse_cidr ''0.0.0.0/0''") auto
  qed
  obtain j m where m: "net_parse_cidr ''10.0.0.0/8'' = Some (j, m)" "pip_ip_net q = Some m" "fixed_bits m = 104" "j = v4_in_v6_prefix @ [10, 0, 0, 0]"
  proof -
    have "case (net_parse_cidr ''10.0.0.0/8'', parse_ip ''10.0.0.0/8'') of
        (Some (j, m), Some q) \<Rightarrow> pip_ip_net q = Some m \<and> fixed_bits m = 104 \<and> j = v4_in_v6_prefix @ [10, 0, 0, 0]
      | _ \<Rightarrow> False" by code_simp
    with pq(2) that show ?thesis by (cases "net_parse_cidr ''10.0.0.0/8''") auto
  qed
  have "addresses_of q \<subseteq> addresses_of p"
  proof
    fix x assume "x \<in> addresses_of q"
    then have x: "length x = 16" "take 104 (binary x) = take 104 (binary j)"
      using network_addresses_cidr(1) [OF m(1)] m(2,3) by (auto simp: addresses_of_def)
    have "take 96 (binary x) = take 96 (take 104 (binary x))" by simp
    also have "\<dots> = take 96 (binary j)" by (simp only: x(2)) simp
    also have "\<dots> = take 96 (binary i)" by (simp add: m(4) n(4))
    finally show "x \<in> addresses_of p"
      using network_addresses_cidr(1) [OF n(1)] n(2,3) x(1) by (auto simp: addresses_of_def)
  qed
  with pq c show "\<exists>p q. parse_ip ''0.0.0.0/0'' = Some p \<and> parse_ip ''10.0.0.0/8'' = Some q \<and>
      addresses_of q \<subseteq> addresses_of p \<and> pip_prefix_length p = 32 \<and>
      \<not> prefix (get_network_prefix_as_binary p) (get_network_prefix_as_binary q)"
    by (intro exI [of _ p] exI [of _ q]) simp
next
  have c: "case (net_parse_cidr ''::/0'', parse_ip ''::/0'') of
      (Some (i, n), Some p) \<Rightarrow> pip_ip_net p = Some n \<and> fixed_bits n = 0 \<and> pip_prefix_length p = 128
    | _ \<Rightarrow> False" by code_simp
  obtain i n where n: "net_parse_cidr ''::/0'' = Some (i, n)" using c by (cases "net_parse_cidr ''::/0''") auto
  obtain p where p: "parse_ip ''::/0'' = Some p" using c n by (cases "parse_ip ''::/0''") auto
  from c n p network_addresses_cidr(1) [OF n]
  show "\<exists>p. parse_ip ''::/0'' = Some p \<and> pip_prefix_length p = 128 \<and> addresses_of p = {x. length x = 16}"
    by (intro exI [of _ p]) (auto simp: addresses_of_def)
qed

text \<open>
  A range of IPv4 addresses written as a network is never found to contain an IPv4 address:
  the bounds that go-cidr returns for it (the first being the network's address) have 4
  bytes, and the membership test compares them with 16.  (The pools of a Kea configuration
  avoid this: they are rewritten when they are read.)
\<close>

lemma v4_prefix_pool_misses:
  assumes "parse_ip_range address_range r = Inr (lb, ub)" and "net_parse_cidr (trim_space r) = Some (ip, n)"
    and "CHR ''-'' \<notin> set r" and "\<And>m. fst (address_range m) = net_ip m"
    and "to4 ip \<noteq> None" and "length (net_mask n) = 4" and "hd (net_ip n) \<noteq> 0"
    and "parse_ip s = Some p" and "pip_protocol p = IPv4"
  shows "\<not> is_in_range p lb ub"
proof
  assume r: "is_in_range p lb ub"
  have "address_range n = (lb, ub)"
    using assms(1,2,3) by (simp add: parse_ip_range_def)
  then have lb: "lb = net_ip n" using assms(4) [of n] by simp
  have l: "length lb = 4"
    using cidr_networks [OF assms(2)] assms(6) unfolding lb by (auto simp: cidr_mask_def)
  have "to4 (pip_ip p) \<noteq> None"
    using assms(8,9) by (auto simp: parse_ip_def Let_def split: option.splits if_splits)
  then have "take 12 (pip_ip p) = v4_in_v6_prefix"
    using parse_ip_length [OF assms(8)] by (auto simp: to4_def split: if_splits)
  then have "pip_ip p = v4_in_v6_prefix @ drop 12 (pip_ip p)" by (metis append_take_drop_id)
  then obtain xs where x: "pip_ip p = 0 # xs" by (auto simp: v4_in_v6_prefix_eq)
  obtain b bs where b: "lb = b # bs" using l by (cases lb) auto
  then have b0: "b \<noteq> 0" using assms(7) lb by (metis list.sel(1))
  have "pip_ip p < lb" using b0 by (simp add: x b word_gt_0)
  then have "bytes_compare (pip_ip p) lb = -1" by (simp add: bytes_compare_def)
  then show False
    using r parse_ip_length [OF assms(8)] by (simp add: is_in_range_def Let_def)
qed

lemma v4_prefix_pool_misses_witness:
  "\<exists>p. parse_ip ''192.0.2.10'' = Some p \<and> \<not> is_in_range p [192, 0, 2, 0] [192, 0, 2, 255]"
proof -
  define ar :: "ipnet \<Rightarrow> 8 word list \<times> 8 word list" where "ar = (\<lambda>n. (net_ip n, map2 (OR) (net_ip n) (map (NOT) (net_mask n))))"
  have t: "trim_space ''192.0.2.0/24'' = ''192.0.2.0/24''" by (simp add: trim_space_eval)
  have c: "net_parse_cidr ''192.0.2.0/24'' = Some (v4_in_v6_prefix @ [192, 0, 2, 0], \<lparr>net_ip = [192, 0, 2, 0], net_mask = [255, 255, 255, 0]\<rparr>)"
    by code_simp
  have "ar \<lparr>net_ip = [192, 0, 2, 0], net_mask = [255, 255, 255, 0]\<rparr> = ([192, 0, 2, 0], [192, 0, 2, 255])"
    unfolding ar_def by code_simp
  then have r: "parse_ip_range ar ''192.0.2.0/24'' = Inr ([192, 0, 2, 0], [192, 0, 2, 255])"
    by (simp add: parse_ip_range_def t c)
  have "map_option pip_protocol (parse_ip ''192.0.2.10'') = Some IPv4" by code_simp
  then obtain p where p: "parse_ip ''192.0.2.10'' = Some p" "pip_protocol p = IPv4" by auto
  have "\<not> is_in_range p [192, 0, 2, 0] [192, 0, 2, 255]"
    by (rule v4_prefix_pool_misses [OF r, unfolded t, OF c _ _ _ _ _ p]) (simp_all add: ar_def to4_def)
  with p show ?thesis by blast
qed

section \<open>Reading back the text of a prefix\<close>

lemma parse_ip_prefix_cases:
  assumes "parse_ip s = Some p" and "pip_prefix p"
  obtains n where "net_parse_cidr s = Some (pip_ip p, n)" "pip_ip_net p = Some n"
    "fst (mask_size (net_mask n)) \<noteq> snd (mask_size (net_mask n))"
    "pip_network_prefix p = ip_string (net_ip n)" "pip_network_address p = ipnet_string n"
    "pip_prefix_length p = (if fst (mask_size (net_mask n)) = 0 then if to4 (pip_ip p) \<noteq> None then 32 else 128
       else int (fst (mask_size (net_mask n))))"
proof -
  have "net_parse_ip s = None"
    using assms by (cases "net_parse_ip s") (auto simp: parse_ip_def Let_def)
  then obtain ip n where c: "net_parse_cidr s = Some (ip, n)"
    using assms(1) by (cases "net_parse_cidr s") (auto simp: parse_ip_def)
  have "net_parse_cidr s = Some (pip_ip p, n) \<and> pip_ip_net p = Some n \<and>
    fst (mask_size (net_mask n)) \<noteq> snd (mask_size (net_mask n)) \<and>
    pip_network_prefix p = ip_string (net_ip n) \<and> pip_network_address p = ipnet_string n \<and>
    pip_prefix_length p = (if fst (mask_size (net_mask n)) = 0 then if to4 (pip_ip p) \<noteq> None then 32 else 128
       else int (fst (mask_size (net_mask n))))"
    using assms c \<open>net_parse_ip s = None\<close> by (auto simp: parse_ip_def Let_def)
  with that show thesis by blast
qed

lemma and_twice: "map2 (AND) (map2 (AND) xs ms) ms = map2 (AND) (xs :: 8 word list) ms"
proof (induction xs arbitrary: ms)
  case (Cons x xs)
  then show ?case by (cases ms) (simp_all add: and.assoc)
qed simp

lemma parse_ip_of_network:
  assumes "net_parse_cidr t = Some (ip, n)" and "CHR ''/'' \<in> set t"
    and "fst (mask_size (net_mask n)) \<noteq> snd (mask_size (net_mask n))" and "fst (mask_size (net_mask n)) \<noteq> 0"
  shows "\<exists>p. parse_ip t = Some p \<and> pip_prefix p \<and> pip_network_prefix p = ip_string (net_ip n) \<and>
    pip_prefix_length p = int (fst (mask_size (net_mask n))) \<and> pip_ip p = ip \<and> pip_ip_net p = Some n"
  using assms net_parse_ip_slash [OF assms(2)] by (simp add: parse_ip_def Let_def)

lemma v6_prefix_text:
  assumes "length x = 16" and "to4 x = None" and "0 < k" and "k < 128" and "map2 (AND) x (mask_bytes 16 k) = x"
  shows "\<exists>p. parse_ip (format_cidr_notation (ip_string x) (int k)) = Some p \<and> pip_prefix p \<and>
    pip_network_prefix p = ip_string x \<and> pip_prefix_length p = int k"
proof -
  let ?n = "\<lparr>net_ip = x, net_mask = cidr_mask k 128\<rparr>"
  have a: "parse_addr (ip_string x) = Some (Addr6 x)" using ip_string_addr [of x] assms(1,2) by simp
  have t: "format_cidr_notation (ip_string x) (int k) = ip_string x @ ''/'' @ nat_str k"
    by (simp add: format_cidr_notation_def int_str_def)
  have "net_parse_cidr (ip_string x @ ''/'' @ nat_str k) = Some (x, ?n)"
    using net_parse_cidr_text [OF a, of k] assms(4,5) by (simp add: ip_mask_v6 [OF assms(1)])
  moreover have "mask_size (net_mask ?n) = (k, 128)" using assms(4) by (simp add: mask_size_cidr)
  ultimately show ?thesis
    using parse_ip_of_network [of "ip_string x @ ''/'' @ nat_str k" x ?n] assms(3,4) unfolding t by auto
qed

lemma prefix_text_read_back:
  assumes "parse_ip s = Some p" and "pip_prefix p" and "parse_ip (pip_network_prefix p) = Some q"
    and "pip_protocol q = IPv6" and "pip_prefix_length p \<noteq> 128"
  shows "\<exists>p'. parse_ip (format_cidr_notation (pip_network_prefix p) (pip_prefix_length p)) = Some p' \<and> pip_prefix p' \<and>
    pip_network_prefix p' = pip_network_prefix p \<and> pip_prefix_length p' = pip_prefix_length p"
proof -
  obtain n where n: "net_parse_cidr s = Some (pip_ip p, n)"
    "fst (mask_size (net_mask n)) \<noteq> snd (mask_size (net_mask n))"
    "pip_network_prefix p = ip_string (net_ip n)"
    "pip_prefix_length p = (if fst (mask_size (net_mask n)) = 0 then if to4 (pip_ip p) \<noteq> None then 32 else 128
       else int (fst (mask_size (net_mask n))))"
    using parse_ip_prefix_cases [OF assms(1,2)] by metis
  have q: "to4 (net_ip n) = None" if len: "length (net_ip n) = 4 \<or> length (net_ip n) = 16"
  proof -
    have "net_parse_ip (ip_string (net_ip n)) = to16 (net_ip n)" using ip_string_roundtrip len by blast
    moreover obtain y where y: "to16 (net_ip n) = Some y"
      using len by (auto simp: to16_def)
    ultimately have "to4 y = None"
      using assms(3,4) unfolding n(3) by (auto simp: parse_ip_def Let_def split: if_splits)
    then show ?thesis using y len by (auto simp: to16_def to4_def split: if_splits)
  qed
  show ?thesis using cidr_networks [OF n(1)]
  proof (elim disjE exE conjE)
    fix b k assume "length b = 4" "net_ip n = map2 (AND) b (mask_bytes 4 k)"
    then have "length (net_ip n) = 4" by simp
    then show ?thesis using q by (simp add: to4_def)
  next
    fix k assume k: "length (pip_ip p) = 16" "k \<le> 128" "net_mask n = cidr_mask k 128"
      "net_ip n = map2 (AND) (pip_ip p) (mask_bytes 16 k)" "mask_size (net_mask n) = (k, 128)"
    have l: "length (net_ip n) = 16" using k by simp
    show ?thesis
    proof (cases "k = 0")
      case True
      then have m: "net_ip n = map2 (AND) (pip_ip p) (replicate 16 0)" using k(4) by (simp add: mask_bytes_zero)
      have "to4 (pip_ip p) \<noteq> None" using n(4) assms(5) k(5) True by (auto split: if_splits)
      then have len: "pip_prefix_length p = 32" using n(4) k(5) True by simp
      have x: "net_ip n = replicate 16 0"
        by (rule nth_equalityI) (simp_all add: m k(1))
      have "\<exists>p'. parse_ip (format_cidr_notation (ip_string (net_ip n)) (int 32)) = Some p' \<and> pip_prefix p' \<and>
          pip_network_prefix p' = ip_string (net_ip n) \<and> pip_prefix_length p' = int 32"
      proof (rule v6_prefix_text [OF l q])
        show "length (net_ip n) = 4 \<or> length (net_ip n) = 16" using l by simp
        show "map2 (AND) (net_ip n) (mask_bytes 16 32) = net_ip n"
          by (rule nth_equalityI) (simp_all add: x)
      qed simp_all
      then show ?thesis using len by (simp add: n(3))
    next
      case False
      have len: "pip_prefix_length p = int k" using n(4) k(5) False by simp
      have "k \<noteq> 128" using n(2) k(5) by simp
      have "\<exists>p'. parse_ip (format_cidr_notation (ip_string (net_ip n)) (int k)) = Some p' \<and> pip_prefix p' \<and>
          pip_network_prefix p' = ip_string (net_ip n) \<and> pip_prefix_length p' = int k"
      proof (rule v6_prefix_text [OF l q])
        show "map2 (AND) (net_ip n) (mask_bytes 16 k) = net_ip n" unfolding k(4) by (rule and_twice)
      qed (use l k(2) False \<open>k \<noteq> 128\<close> in auto)
      then show ?thesis using len by (simp add: n(3))
    qed
  qed
qed

end
