(* ===== verification/Ordered_Map.thy ===== *)
theory Ordered_Map
  imports Stork_Prelude
begin

text \<open>
  The map that keeps the order in which its keys were inserted: \<open>util/orderedmap.go\<close>.  A
  client sees it as a list of entries with distinct keys: the locale \<open>insertion_ordered\<close> says
  how the operations act on that list, and the code's map is interpreted in it.
\<close>

section \<open>The map\<close>

record ('k, 'v) ordered_map =
  om_keys :: "'k list"
  om_data :: "'k \<rightharpoonup> 'v"

definition new_ordered_map :: "('k, 'v) ordered_map" where
  "new_ordered_map = \<lparr>om_keys = [], om_data = Map.empty\<rparr>"

definition om_set :: "('k, 'v) ordered_map \<Rightarrow> 'k \<Rightarrow> 'v \<Rightarrow> ('k, 'v) ordered_map" where
  "om_set m key value =
     \<lparr>om_keys = (if om_data m key = None then om_keys m @ [key] else om_keys m),
      om_data = (om_data m)(key \<mapsto> value)\<rparr>"

text \<open>A missing value for a key is an index out of range.\<close>

fun set_entries :: "('k, 'v) ordered_map \<Rightarrow> 'k list \<Rightarrow> 'v list \<Rightarrow> ('k, 'v) ordered_map run" where
  "set_entries m [] vs = Done m"
| "set_entries m (k # ks) [] = Panic"
| "set_entries m (k # ks) (v # vs) = set_entries (om_set m k v) ks vs"

definition new_ordered_map_from_entries :: "'k list \<Rightarrow> 'v list \<Rightarrow> ('k, 'v) ordered_map run" where
  "new_ordered_map_from_entries ks vs = set_entries new_ordered_map ks vs"

definition om_get :: "('k, 'v) ordered_map \<Rightarrow> 'k \<Rightarrow> 'v option" where
  "om_get m key = om_data m key"

text \<open>The value of a key that is listed but not in the map would be the zero value; it is \<open>None\<close> here.\<close>

definition om_get_at :: "('k, 'v) ordered_map \<Rightarrow> int \<Rightarrow> ('k \<times> 'v option) run" where
  "om_get_at m i =
     (if 0 \<le> i \<and> i < int (length (om_keys m))
      then Done (om_keys m ! nat i, om_data m (om_keys m ! nat i)) else Panic)"

definition om_delete :: "('k, 'v) ordered_map \<Rightarrow> 'k \<Rightarrow> ('k, 'v) ordered_map" where
  "om_delete m key =
     (if om_data m key = None then m
      else \<lparr>om_keys = remove1 key (om_keys m), om_data = (om_data m)(key := None)\<rparr>)"

definition om_clear :: "('k, 'v) ordered_map \<Rightarrow> ('k, 'v) ordered_map" where
  "om_clear m = \<lparr>om_keys = [], om_data = Map.empty\<rparr>"

definition om_get_keys :: "('k, 'v) ordered_map \<Rightarrow> 'k list" where
  "om_get_keys m = om_keys m"

definition om_get_values :: "('k, 'v) ordered_map \<Rightarrow> 'v option list" where
  "om_get_values m = map (om_data m) (om_keys m)"

definition om_get_entries :: "('k, 'v) ordered_map \<Rightarrow> ('k \<times> 'v option) list" where
  "om_get_entries m = map (\<lambda>k. (k, om_data m k)) (om_keys m)"

definition om_get_size :: "('k, 'v) ordered_map \<Rightarrow> int" where
  "om_get_size m = int (length (om_keys m))"

text \<open>\<open>ForEach\<close>: the callback changes a state and says whether to go on.\<close>

fun for_each_from :: "('k \<rightharpoonup> 'v) \<Rightarrow> ('k \<Rightarrow> 'v option \<Rightarrow> 's \<Rightarrow> bool \<times> 's) \<Rightarrow> 'k list \<Rightarrow> 's \<Rightarrow> 's" where
  "for_each_from d f [] s = s"
| "for_each_from d f (k # ks) s = (case f k (d k) s of (continue, s') \<Rightarrow> if continue then for_each_from d f ks s' else s')"

definition om_for_each :: "('k, 'v) ordered_map \<Rightarrow> ('k \<Rightarrow> 'v option \<Rightarrow> 's \<Rightarrow> bool \<times> 's) \<Rightarrow> 's \<Rightarrow> 's" where
  "om_for_each m f s = for_each_from (om_data m) f (om_keys m) s"

section \<open>Lists of entries\<close>

fun entry_set :: "('k \<times> 'v) list \<Rightarrow> 'k \<Rightarrow> 'v \<Rightarrow> ('k \<times> 'v) list" where
  "entry_set [] k v = [(k, v)]"
| "entry_set (e # es) k v = (if fst e = k then (k, v) # es else e # entry_set es k v)"

definition entry_delete :: "('k \<times> 'v) list \<Rightarrow> 'k \<Rightarrow> ('k \<times> 'v) list" where
  "entry_delete es k = filter (\<lambda>e. fst e \<noteq> k) es"

lemma entry_set_keys: "fst ` set (entry_set es k v) = insert k (fst ` set es)"
  by (induction es k v rule: entry_set.induct) auto

lemma entry_set_distinct: "distinct (map fst es) \<Longrightarrow> distinct (map fst (entry_set es k v))"
proof (induction es k v rule: entry_set.induct)
  case (2 e es k v)
  have "fst e \<noteq> k \<Longrightarrow> fst e \<notin> fst ` set es \<Longrightarrow> fst e \<notin> fst ` set (entry_set es k v)"
    by (simp add: entry_set_keys)
  with 2 show ?case by auto
qed simp

lemma entry_set_map: "map_of (entry_set es k v) = (map_of es)(k \<mapsto> v)"
  by (induction es k v rule: entry_set.induct) (auto simp: fun_eq_iff)

lemma entry_delete_map: "map_of (entry_delete es k) = (map_of es)(k := None)"
  by (induction es) (auto simp: entry_delete_def fun_eq_iff)

text \<open>The keys of an entry list after an update: a new key goes to the end.\<close>

lemma entry_set_order: "map fst (entry_set es k v) = (if k \<in> fst ` set es then map fst es else map fst es @ [k])"
  by (induction es k v rule: entry_set.induct) auto

locale insertion_ordered =
  fixes entries :: "'m \<Rightarrow> ('k \<times> 'v) list"
    and valid :: "'m \<Rightarrow> bool"
    and empty_map :: 'm
    and set_key :: "'m \<Rightarrow> 'k \<Rightarrow> 'v \<Rightarrow> 'm"
    and get_key :: "'m \<Rightarrow> 'k \<Rightarrow> 'v option"
    and delete_key :: "'m \<Rightarrow> 'k \<Rightarrow> 'm"
  assumes empty_valid: "valid empty_map" and empty_entries: "entries empty_map = []"
    and distinct_keys: "valid m \<Longrightarrow> distinct (map fst (entries m))"
    and set_valid: "valid m \<Longrightarrow> valid (set_key m k v)"
    and set_entries: "valid m \<Longrightarrow> entries (set_key m k v) = entry_set (entries m) k v"
    and get_entries: "valid m \<Longrightarrow> get_key m k = map_of (entries m) k"
    and delete_valid: "valid m \<Longrightarrow> valid (delete_key m k)"
    and delete_entries: "valid m \<Longrightarrow> entries (delete_key m k) = entry_delete (entries m) k"
begin

lemma get_after_set: "valid m \<Longrightarrow> get_key (set_key m k v) k' = (if k' = k then Some v else get_key m k')"
  by (simp add: get_entries set_valid set_entries entry_set_map)

lemma get_after_delete: "valid m \<Longrightarrow> get_key (delete_key m k) k' = (if k' = k then None else get_key m k')"
  by (simp add: get_entries delete_valid delete_entries entry_delete_map)

text \<open>An update keeps the place of a key, and a deleted key goes to the end when it comes back.\<close>

lemma update_keeps_order:
  "valid m \<Longrightarrow> get_key m k \<noteq> None \<Longrightarrow> map fst (entries (set_key m k v)) = map fst (entries m)"
proof -
  assume v: "valid m" and "get_key m k \<noteq> None"
  then have "k \<in> fst ` set (entries m)"
    by (metis get_entries map_of_eq_None_iff)
  with v show ?thesis by (simp add: set_entries entry_set_order)
qed

lemma readded_key_last:
  "valid m \<Longrightarrow> entries (set_key (delete_key m k) k v) = entry_delete (entries m) k @ [(k, v)]"
proof -
  assume v: "valid m"
  have new: "k \<notin> fst ` set es \<Longrightarrow> entry_set es k v = es @ [(k, v)]" for es :: "('k \<times> 'v) list"
    by (induction es) auto
  have "k \<notin> fst ` set (entry_delete (entries m) k)" by (auto simp: entry_delete_def)
  with v new show ?thesis by (simp add: set_entries delete_valid delete_entries)
qed

end

section \<open>The code's map is insertion ordered\<close>

definition om_valid :: "('k, 'v) ordered_map \<Rightarrow> bool" where
  "om_valid m \<longleftrightarrow> distinct (om_keys m) \<and> set (om_keys m) = dom (om_data m)"

definition om_entries :: "('k, 'v) ordered_map \<Rightarrow> ('k \<times> 'v) list" where
  "om_entries m = map (\<lambda>k. (k, the (om_data m k))) (om_keys m)"

lemma om_entries_keys: "map fst (om_entries m) = om_keys m"
  by (simp add: om_entries_def o_def)

lemma om_entries_set:
  assumes "om_valid m"
  shows "om_entries (om_set m k v) = entry_set (om_entries m) k v"
proof -
  have old: "entry_set (map (\<lambda>k. (k, d k)) ks) k v = map (\<lambda>x. (x, (d(k := v)) x)) ks"
    if "k \<in> set ks" "distinct ks" for ks and d :: "'a \<Rightarrow> 'b"
    using that by (induction ks) auto
  have new: "entry_set (map (\<lambda>k. (k, d k)) ks) k v = map (\<lambda>x. (x, (d(k := v)) x)) (ks @ [k])"
    if "k \<notin> set ks" for ks and d :: "'a \<Rightarrow> 'b"
    using that by (induction ks) auto
  have u: "(\<lambda>x. (x, the (((om_data m)(k \<mapsto> v)) x))) = (\<lambda>x. (x, ((\<lambda>k. the (om_data m k))(k := v)) x))"
    by (auto simp: fun_eq_iff)
  show ?thesis
  proof (cases "om_data m k = None")
    case True
    with assms have "k \<notin> set (om_keys m)" by (auto simp: om_valid_def)
    with True new [of "om_keys m" "\<lambda>k. the (om_data m k)"] u show ?thesis
      by (simp add: om_entries_def om_set_def)
  next
    case False
    with assms have "k \<in> set (om_keys m)" "distinct (om_keys m)" by (auto simp: om_valid_def)
    with False old [of "om_keys m" "\<lambda>k. the (om_data m k)"] u show ?thesis
      by (simp add: om_entries_def om_set_def)
  qed
qed

lemma om_entries_filter: "entry_delete (om_entries m) k = map (\<lambda>x. (x, the (om_data m x))) (filter (\<lambda>x. x \<noteq> k) (om_keys m))"
  by (simp add: entry_delete_def om_entries_def filter_map o_def)

lemma om_entries_delete:
  assumes "om_valid m"
  shows "om_entries (om_delete m k) = entry_delete (om_entries m) k"
proof (cases "om_data m k = None")
  case True
  with assms have "k \<notin> set (om_keys m)" by (auto simp: om_valid_def)
  then have "filter (\<lambda>x. x \<noteq> k) (om_keys m) = om_keys m" by (auto simp: filter_id_conv)
  with True show ?thesis by (simp add: om_entries_filter om_delete_def) (simp add: om_entries_def)
next
  case False
  have "remove1 k (om_keys m) = filter (\<lambda>x. x \<noteq> k) (om_keys m)"
    using assms by (auto simp: om_valid_def distinct_remove1_removeAll removeAll_filter_not_eq intro: filter_cong)
  with False show ?thesis
    by (simp add: om_entries_filter om_delete_def) (auto simp: om_entries_def)
qed

lemma om_get_map:
  assumes "om_valid m"
  shows "om_get m k = map_of (om_entries m) k"
proof -
  have "map_of (om_entries m) = (Some \<circ> (\<lambda>k. the (om_data m k))) |` set (om_keys m)"
    unfolding om_entries_def by (rule map_of_map_restrict)
  with assms show ?thesis
    by (cases "om_data m k") (auto simp: om_get_def om_valid_def restrict_map_def)
qed

interpretation code_map: insertion_ordered om_entries om_valid new_ordered_map om_set om_get om_delete
proof
  show "om_valid new_ordered_map" "om_entries new_ordered_map = []"
    by (simp_all add: om_valid_def new_ordered_map_def om_entries_def)
  fix m :: "('k, 'v) ordered_map" and k v assume v: "om_valid m"
  then show "distinct (map fst (om_entries m))" by (simp add: om_entries_keys om_valid_def)
  show "om_valid (om_set m k v)" using v by (auto simp: om_valid_def om_set_def)
  show "om_valid (om_delete m k)" using v by (auto simp: om_valid_def om_delete_def)
  show "om_entries (om_set m k v) = entry_set (om_entries m) k v" by (rule om_entries_set [OF v])
  show "om_get m k = map_of (om_entries m) k" by (rule om_get_map [OF v])
  show "om_entries (om_delete m k) = entry_delete (om_entries m) k" by (rule om_entries_delete [OF v])
qed

text \<open>Any sequence of updates, on the map and on the list of entries.\<close>

datatype ('k, 'v) map_update = MapSet 'k 'v | MapDelete 'k | MapClear

fun update_map :: "('k, 'v) map_update \<Rightarrow> ('k, 'v) ordered_map \<Rightarrow> ('k, 'v) ordered_map" where
  "update_map (MapSet k v) m = om_set m k v"
| "update_map (MapDelete k) m = om_delete m k"
| "update_map MapClear m = om_clear m"

fun update_entries :: "('k, 'v) map_update \<Rightarrow> ('k \<times> 'v) list \<Rightarrow> ('k \<times> 'v) list" where
  "update_entries (MapSet k v) es = entry_set es k v"
| "update_entries (MapDelete k) es = entry_delete es k"
| "update_entries MapClear es = []"

lemma update_map_entries:
  assumes "om_valid m"
  shows "om_valid (update_map u m) \<and> om_entries (update_map u m) = update_entries u (om_entries m)"
proof (cases u)
  case MapClear
  then show ?thesis by (simp add: om_clear_def om_valid_def om_entries_def)
qed (simp_all add: assms code_map.set_valid code_map.set_entries code_map.delete_valid code_map.delete_entries)

lemma update_maps_entries:
  "om_valid m \<Longrightarrow> om_valid (fold update_map us m) \<and> om_entries (fold update_map us m) = fold update_entries us (om_entries m)"
  by (induction us arbitrary: m) (simp_all add: update_map_entries)

lemma for_each_entries:
  assumes "om_valid m"
  shows "om_get_entries m = map (\<lambda>(k, v). (k, Some v)) (om_entries m)"
    and "om_for_each m f s = for_each_from (map_of (om_entries m)) f (map fst (om_entries m)) s"
proof -
  have d: "om_data m = map_of (om_entries m)"
    using om_get_map [OF assms] by (auto simp: om_get_def fun_eq_iff)
  show "om_for_each m f s = for_each_from (map_of (om_entries m)) f (map fst (om_entries m)) s"
    by (simp add: om_for_each_def om_entries_keys flip: d)
  show "om_get_entries m = map (\<lambda>(k, v). (k, Some v)) (om_entries m)"
    using assms by (auto simp: om_get_entries_def om_entries_def om_valid_def)
qed

text \<open>
  C14: After any sequence of insertions, updates, deletions and clearings the ordered map is
  the list of entries that the same operations make of a plain list, where a new key goes to
  the end and an update keeps the place: keys, values, entries, size and lookups are those
  of the list, and no key occurs twice.
\<close>
theorem ordered_map_refines_entries:
  "let m = fold update_map us new_ordered_map; es = fold update_entries us [] in
     om_get_keys m = map fst es \<and> om_get_values m = map (\<lambda>e. Some (snd e)) es \<and>
     om_get_entries m = map (\<lambda>(k, v). (k, Some v)) es \<and> om_get_size m = int (length es) \<and>
     om_get m = map_of es \<and> distinct (map fst es)"
proof -
  define m where "m = fold update_map us new_ordered_map"
  have v: "om_valid m" and e: "om_entries m = fold update_entries us []"
    using update_maps_entries [OF code_map.empty_valid, of us] by (simp_all add: m_def code_map.empty_entries)
  have "om_get_values m = map snd (om_get_entries m)"
    by (simp add: om_get_values_def om_get_entries_def o_def)
  then have vals: "om_get_values m = map (\<lambda>e. Some (snd e)) (om_entries m)"
    by (simp add: for_each_entries(1) [OF v] o_def split_def)
  have size: "om_get_size m = int (length (om_entries m))"
    by (simp add: om_get_size_def om_entries_def)
  show ?thesis
    unfolding Let_def m_def [symmetric] e [symmetric]
    using vals size for_each_entries(1) [OF v] om_entries_keys [of m] om_get_map [OF v] code_map.distinct_keys [OF v]
    by (auto simp: om_get_keys_def fun_eq_iff)
qed

end
