(* ===== verification/Big_Counter.thy ===== *)
theory Big_Counter
  imports Stork_Prelude "HOL-Library.Word"
begin

text \<open>
  The counter of large numbers of addresses: \<open>util/bigcounter.go\<close>.  It is a 64-bit number
  as long as the count fits, and a number without bound from then on.  The quotients, which
  are floating-point numbers, are not modelled.
\<close>

section \<open>The counter\<close>

type_synonym uint64 = "64 word"

record big_counter =
  bc_base :: uint64
  bc_extended :: "int option"

definition max_uint64 :: int where "max_uint64 = 2 ^ 64 - 1"
definition max_int64 :: int where "max_int64 = 2 ^ 63 - 1"

text \<open>\<open>IsUint64\<close> of a \<open>big.Int\<close>.\<close>

definition is_uint64 :: "int \<Rightarrow> bool" where
  "is_uint64 v = (0 \<le> v \<and> v \<le> max_uint64)"

definition new_big_counter :: "uint64 \<Rightarrow> big_counter" where
  "new_big_counter v = \<lparr>bc_base = v, bc_extended = None\<rparr>"

text \<open>\<open>val\<close> is a signed 64-bit number.\<close>

definition new_big_counter_from_int64 :: "int \<Rightarrow> big_counter option" where
  "new_big_counter_from_int64 v = (if v < 0 then None else Some (new_big_counter (word_of_int v)))"

definition new_big_counter_from_big_int :: "int \<Rightarrow> big_counter option" where
  "new_big_counter_from_big_int v =
     (if is_uint64 v then Some (new_big_counter (word_of_int v))
      else if v < 0 then None
      else Some \<lparr>bc_base = word_of_int max_uint64, bc_extended = Some v\<rparr>)"

definition can_add_to_base :: "big_counter \<Rightarrow> uint64 \<Rightarrow> bool" where
  "can_add_to_base n v = (bc_base n \<le> word_of_int max_uint64 - v)"

definition is_extended :: "big_counter \<Rightarrow> bool" where
  "is_extended n = (bc_extended n \<noteq> None)"

definition can_add :: "big_counter \<Rightarrow> big_counter \<Rightarrow> bool" where
  "can_add n m = (if is_extended n then True else if is_extended m then False else can_add_to_base n (bc_base m))"

definition init_extended :: "big_counter \<Rightarrow> big_counter" where
  "init_extended n = \<lparr>bc_base = word_of_int max_uint64, bc_extended = Some (uint (bc_base n))\<rparr>"

definition to_big_int :: "big_counter \<Rightarrow> int" where
  "to_big_int n = (case bc_extended n of Some v \<Rightarrow> v | None \<Rightarrow> uint (bc_base n))"

definition counter_add :: "big_counter \<Rightarrow> big_counter \<Rightarrow> big_counter" where
  "counter_add n m =
     (let n' = (if \<not> can_add n m then init_extended n else n) in
      case bc_extended n' of
        Some v \<Rightarrow> n'\<lparr>bc_extended := Some (v + to_big_int m)\<rparr>
      | None \<Rightarrow> n'\<lparr>bc_base := bc_base n' + bc_base m\<rparr>)"

definition add_uint64 :: "big_counter \<Rightarrow> uint64 \<Rightarrow> big_counter" where
  "add_uint64 n v =
     (let n' = (if \<not> is_extended n \<and> \<not> can_add_to_base n v then init_extended n else n) in
      case bc_extended n' of
        Some w \<Rightarrow> n'\<lparr>bc_extended := Some (w + uint v)\<rparr>
      | None \<Rightarrow> n'\<lparr>bc_base := bc_base n' + v\<rparr>)"

definition add_big_int :: "big_counter \<Rightarrow> int \<Rightarrow> big_counter \<times> bool" where
  "add_big_int n v =
     (if is_uint64 v then (add_uint64 n (word_of_int v), True)
      else if v < 0 then (n, False)
      else (let n' = (if \<not> is_extended n then init_extended n else n)
            in (n'\<lparr>bc_extended := map_option (\<lambda>w. w + v) (bc_extended n')\<rparr>, True)))"

definition to_int64 :: "big_counter \<Rightarrow> int" where
  "to_int64 n = (if bc_base n \<ge> word_of_int max_int64 then max_int64 else uint (bc_base n))"

definition to_uint64 :: "big_counter \<Rightarrow> uint64 \<times> bool" where
  "to_uint64 n =
     (case bc_extended n of
        Some v \<Rightarrow>
          if is_uint64 v then (word_of_int v, True)
          else if v < 0 then (0, False)
          else (word_of_int max_uint64, False)
      | None \<Rightarrow> (bc_base n, True))"

datatype native_number = NativeBig int | NativeUint uint64

definition convert_to_native_type :: "big_counter \<Rightarrow> native_number" where
  "convert_to_native_type n = (case bc_extended n of Some v \<Rightarrow> NativeBig v | None \<Rightarrow> NativeUint (bc_base n))"

section \<open>What it counts\<close>

text \<open>The counter is extended only when the count no longer fits, and then the base is full.\<close>

definition counter_ok :: "big_counter \<Rightarrow> bool" where
  "counter_ok n \<longleftrightarrow>
     (case bc_extended n of None \<Rightarrow> True | Some v \<Rightarrow> max_uint64 < v \<and> bc_base n = word_of_int max_uint64)"

lemma uint_max [simp]: "uint (word_of_int max_uint64 :: uint64) = max_uint64"
  by (simp add: max_uint64_def uint_word_of_int)

lemma uint_bounds: "0 \<le> uint (v :: uint64)" "uint v \<le> max_uint64"
  using uint_bounded [of v] by (simp_all add: max_uint64_def)

lemma less_plus_uint: "a < v \<Longrightarrow> a < v + uint (w :: uint64)" "a < v \<Longrightarrow> a < uint (w :: uint64) + v"
  using uint_bounds(1) [of w] by linarith+

lemma max_uint64_pos: "0 \<le> max_uint64"
  by (simp add: max_uint64_def)

lemma uint_word_of_int64: "is_uint64 v \<Longrightarrow> uint (word_of_int v :: uint64) = v"
  by (simp add: is_uint64_def max_uint64_def uint_word_of_int)

text \<open>The test for overflow is exact.\<close>

lemma can_add_to_base_iff: "can_add_to_base n v \<longleftrightarrow> uint (bc_base n) + uint v \<le> max_uint64"
proof -
  have "uint (word_of_int max_uint64 - v) = max_uint64 - uint v"
    using uint_bounds [of v] by (simp add: uint_sub_if')
  then show ?thesis by (auto simp: can_add_to_base_def word_le_def)
qed

lemma uint_add_base: "uint (a :: uint64) + uint b \<le> max_uint64 \<Longrightarrow> uint (a + b) = uint a + uint b"
  using uint_bounds(1) [of a] uint_bounds(1) [of b] by (simp add: uint_word_ariths(1) max_uint64_def)

lemma init_extended_value: "\<not> is_extended n \<Longrightarrow> to_big_int (init_extended n) = to_big_int n"
  by (simp add: init_extended_def to_big_int_def is_extended_def)

lemma counter_add_value:
  assumes "counter_ok n" and "counter_ok m"
  shows "to_big_int (counter_add n m) = to_big_int n + to_big_int m \<and> counter_ok (counter_add n m)"
proof (cases "bc_extended n")
  case (Some v)
  with assms show ?thesis
    using max_uint64_pos
    by (auto simp: less_plus_uint counter_add_def can_add_def is_extended_def to_big_int_def counter_ok_def split: option.splits)
next
  case None
  show ?thesis
  proof (cases "can_add n m")
    case True
    then have "bc_extended m = None" "uint (bc_base n) + uint (bc_base m) \<le> max_uint64"
      using None by (auto simp: can_add_def is_extended_def can_add_to_base_iff split: if_splits)
    with None True show ?thesis
      by (simp add: counter_add_def Let_def to_big_int_def counter_ok_def uint_add_base)
  next
    case False
    have "max_uint64 < uint (bc_base n) + to_big_int m"
      using False None assms(2) uint_bounds [of "bc_base n"]
      by (auto simp: less_plus_uint can_add_def is_extended_def can_add_to_base_iff to_big_int_def counter_ok_def split: option.splits)
    with None False show ?thesis
      by (simp add: counter_add_def Let_def init_extended_def counter_ok_def) (simp add: to_big_int_def)
  qed
qed

lemma add_uint64_value:
  assumes "counter_ok n"
  shows "to_big_int (add_uint64 n v) = to_big_int n + uint v \<and> counter_ok (add_uint64 n v)"
proof -
  have "add_uint64 n v = counter_add n (new_big_counter v)"
    by (auto simp: add_uint64_def counter_add_def can_add_def new_big_counter_def is_extended_def Let_def to_big_int_def
        split: option.split)
  moreover have "counter_ok (new_big_counter v)" "to_big_int (new_big_counter v) = uint v"
    by (simp_all add: counter_ok_def new_big_counter_def to_big_int_def)
  ultimately show ?thesis using counter_add_value [OF assms] by simp
qed

lemma add_big_int_value:
  assumes "counter_ok n"
  shows "(case add_big_int n v of (n', ok) \<Rightarrow>
    counter_ok n' \<and> ok = (0 \<le> v) \<and> to_big_int n' = to_big_int n + (if 0 \<le> v then v else 0))"
proof (cases "is_uint64 v")
  case True
  then show ?thesis
    using add_uint64_value [OF assms, of "word_of_int v"] uint_word_of_int64 [OF True]
    by (simp add: add_big_int_def is_uint64_def)
next
  case False
  have b: "0 \<le> uint (bc_base n)" by (rule uint_bounds)
  with False assms max_uint64_pos show ?thesis
    by (auto simp: less_plus_uint add_big_int_def Let_def counter_ok_def init_extended_def is_extended_def to_big_int_def is_uint64_def
        split: option.splits)
qed

datatype counter_update = AddCounter big_counter | AddUint uint64 | AddBig int

fun counter_step :: "counter_update \<Rightarrow> big_counter \<Rightarrow> big_counter" where
  "counter_step (AddCounter m) n = counter_add n m"
| "counter_step (AddUint v) n = add_uint64 n v"
| "counter_step (AddBig v) n = fst (add_big_int n v)"

fun step_amount :: "counter_update \<Rightarrow> int" where
  "step_amount (AddCounter m) = to_big_int m"
| "step_amount (AddUint v) = uint v"
| "step_amount (AddBig v) = max 0 v"

fun step_ok :: "counter_update \<Rightarrow> bool" where
  "step_ok (AddCounter m) = counter_ok m"
| "step_ok _ = True"

lemma counter_step_value:
  assumes "counter_ok n" and "step_ok s"
  shows "counter_ok (counter_step s n) \<and> to_big_int (counter_step s n) = to_big_int n + step_amount s"
proof (cases s)
  case (AddBig v)
  then show ?thesis using add_big_int_value [OF assms(1), of v] by (auto simp: max_def split: prod.splits if_splits)
qed (use assms counter_add_value add_uint64_value in simp_all)

lemma counter_steps_value:
  "counter_ok n \<Longrightarrow> list_all step_ok ss \<Longrightarrow>
     counter_ok (fold counter_step ss n) \<and> to_big_int (fold counter_step ss n) = to_big_int n + sum_list (map step_amount ss)"
proof (induction ss arbitrary: n)
  case (Cons s ss)
  then show ?case using counter_step_value [of n s] Cons.IH [of "counter_step s n"] by auto
qed simp

lemma counter_reads:
  assumes "counter_ok n"
  shows "to_uint64 n = (if to_big_int n \<le> max_uint64 then (word_of_int (to_big_int n), True) else (word_of_int max_uint64, False))"
    and "to_int64 n = min (to_big_int n) max_int64"
proof -
  have b: "0 \<le> uint (bc_base n)" "uint (bc_base n) \<le> max_uint64" by (rule uint_bounds)+
  show "to_uint64 n = (if to_big_int n \<le> max_uint64 then (word_of_int (to_big_int n), True) else (word_of_int max_uint64, False))"
    using assms b max_uint64_pos by (auto simp: to_uint64_def to_big_int_def counter_ok_def is_uint64_def split: option.splits)
  have m: "uint (word_of_int max_int64 :: uint64) = max_int64" by (simp add: max_int64_def uint_word_of_int)
  show "to_int64 n = min (to_big_int n) max_int64"
    using assms b m
    by (auto simp: to_int64_def to_big_int_def counter_ok_def word_le_def max_uint64_def max_int64_def split: option.splits)
qed

text \<open>
  C15: Starting at a 64-bit value, any sequence of additions (of counters, of 64-bit numbers
  and of big numbers, negative ones being refused) leaves the counter at the exact sum, never
  wrapped around, and it is read back exactly where it fits: as a 64-bit number when it is
  one, and otherwise as the largest one with the flag cleared; the signed reading saturates.
\<close>
theorem counter_counts_exactly:
  assumes "list_all step_ok ss"
  shows "let n = fold counter_step ss (new_big_counter v); total = uint v + sum_list (map step_amount ss) in
    to_big_int n = total \<and>
    to_uint64 n = (if total \<le> max_uint64 then (word_of_int total, True) else (word_of_int max_uint64, False)) \<and>
    to_int64 n = min total max_int64 \<and>
    convert_to_native_type n = (if total \<le> max_uint64 then NativeUint (word_of_int total) else NativeBig total)"
proof -
  have "counter_ok (new_big_counter v)" and "to_big_int (new_big_counter v) = uint v"
    by (simp_all add: counter_ok_def new_big_counter_def to_big_int_def)
  then have n: "counter_ok (fold counter_step ss (new_big_counter v))"
    and t: "to_big_int (fold counter_step ss (new_big_counter v)) = uint v + sum_list (map step_amount ss)"
    using counter_steps_value [OF _ assms] by simp_all
  have "convert_to_native_type n = (if to_big_int n \<le> max_uint64 then NativeUint (word_of_int (to_big_int n)) else NativeBig (to_big_int n))"
    if "counter_ok n" for n
    using that uint_bounds [of "bc_base n"]
    by (auto simp: convert_to_native_type_def to_big_int_def counter_ok_def split: option.splits)
  with n t counter_reads [OF n] show ?thesis by (simp add: Let_def)
qed

lemma counter_counts_exactly_witness:
  "to_big_int (fold counter_step [AddUint 18446744073709551615, AddBig (-3), AddBig (2 ^ 70)] (new_big_counter 5)) = 5 + max_uint64 + 2 ^ 70"
proof -
  have "list_all step_ok [AddUint 18446744073709551615, AddBig (-3), AddBig (2 ^ 70)]" by simp
  from counter_counts_exactly [OF this, of 5] show ?thesis by (simp add: Let_def max_uint64_def)
qed

end
