(* ===== verification/Semver.thy ===== *)
theory Semver
  imports Go_Strings
begin

text \<open>
  Semantic versions: \<open>util/semver.go\<close>.  The type is given the order that \<open>LessThan\<close> decides.
  \<open>fmt.Sscanf\<close> with the format \<open>%d.%d.%d\<close> is part of the Go library and is modelled as far
  as it is used.
\<close>

datatype semver = SemVer (major: int) (minor: int) (patch: int)

definition new_semantic_version :: "int \<Rightarrow> int \<Rightarrow> int \<Rightarrow> semver" where
  "new_semantic_version a b c = SemVer a b c"

definition semver_string :: "semver \<Rightarrow> string" where
  "semver_string v = int_str (major v) @ ''.'' @ int_str (minor v) @ ''.'' @ int_str (patch v)"

definition less_than :: "semver \<Rightarrow> semver \<Rightarrow> bool" where
  "less_than v w =
     (if major v = major w then
        if minor v = minor w then patch v < patch w else minor v < minor w
      else major v < major w)"

definition greater_than :: "semver \<Rightarrow> semver \<Rightarrow> bool" where
  "greater_than v w =
     (if major v = major w then
        if minor v = minor w then patch v > patch w else minor v > minor w
      else major v > major w)"

definition semver_equal :: "semver \<Rightarrow> semver \<Rightarrow> bool" where
  "semver_equal v w = (major v = major w \<and> minor v = minor w \<and> patch v = patch w)"

definition less_than_or_equal :: "semver \<Rightarrow> semver \<Rightarrow> bool" where
  "less_than_or_equal v w = (less_than v w \<or> semver_equal v w)"

definition greater_than_or_equal :: "semver \<Rightarrow> semver \<Rightarrow> bool" where
  "greater_than_or_equal v w = (greater_than v w \<or> semver_equal v w)"

definition max_int :: int where "max_int = 2 ^ 63 - 1"

text \<open>
  \<open>%d\<close>: leading blanks, a sign, digits; the number must fit in an \<open>int\<close>.  A newline is not
  skipped.
\<close>

definition is_blank :: "char \<Rightarrow> bool" where
  "is_blank c = (c \<in> {CHR '' '', CHR 0x09, CHR 0x0D, CHR 0x0B, CHR 0x0C})"

definition scan_int :: "string \<Rightarrow> (int \<times> string) option" where
  "scan_int s =
     (let s1 = dropWhile is_blank s;
          neg = (s1 \<noteq> [] \<and> hd s1 = CHR ''-'');
          s2 = (if s1 \<noteq> [] \<and> hd s1 \<in> {CHR ''-'', CHR ''+''} then tl s1 else s1);
          ds = takeWhile is_digit s2;
          n = int (foldl (\<lambda>a c. 10 * a + digit_val c) 0 ds);
          v = (if neg then - n else n)
      in if ds = [] \<or> v > max_int \<or> v < - max_int - 1 then None else Some (v, dropWhile is_digit s2))"

definition scan_dot :: "string \<Rightarrow> string option" where
  "scan_dot s = (case s of c # s' \<Rightarrow> if c = CHR ''.'' then Some s' else None | [] \<Rightarrow> None)"

definition parse_semantic_version :: "string \<Rightarrow> semver option" where
  "parse_semantic_version s =
     Option.bind (scan_int s) (\<lambda>(a, s1).
     Option.bind (scan_dot s1) (\<lambda>s2.
     Option.bind (scan_int s2) (\<lambda>(b, s3).
     Option.bind (scan_dot s3) (\<lambda>s4.
     Option.bind (scan_int s4) (\<lambda>(c, s5). Some (SemVer a b c))))))"

definition parse_semantic_version_or_latest :: "string \<Rightarrow> semver" where
  "parse_semantic_version_or_latest s =
     (case parse_semantic_version s of None \<Rightarrow> new_semantic_version max_int max_int max_int | Some v \<Rightarrow> v)"

text \<open>\<open>SortSemversAsc\<close>: \<open>sort.Sort\<close> of the slice in place, and the strings.\<close>

definition sort_semvers_asc :: "semver list \<Rightarrow> semver list \<times> string list" where
  "sort_semvers_asc vs =
     (let s = slices_sort (\<lambda>v w. if less_than v w then -1 else if less_than w v then 1 else 0) vs
      in (s, map semver_string s))"

section \<open>The order\<close>

instantiation semver :: linorder
begin

definition less_semver :: "semver \<Rightarrow> semver \<Rightarrow> bool" where
  "less_semver v w = less_than v w"

definition less_eq_semver :: "semver \<Rightarrow> semver \<Rightarrow> bool" where
  "less_eq_semver v w = less_than_or_equal v w"

instance
proof
  fix u v w :: semver
  show "(v < w) = (v \<le> w \<and> \<not> w \<le> v)"
    by (cases v; cases w) (auto simp: less_semver_def less_eq_semver_def less_than_or_equal_def less_than_def semver_equal_def)
  show "v \<le> v" by (simp add: less_eq_semver_def less_than_or_equal_def semver_equal_def)
  show "u \<le> v \<Longrightarrow> v \<le> w \<Longrightarrow> u \<le> w"
    by (cases u; cases v; cases w)
      (auto simp: less_eq_semver_def less_than_or_equal_def less_than_def semver_equal_def split: if_splits)
  show "v \<le> w \<Longrightarrow> w \<le> v \<Longrightarrow> v = w"
    by (cases v; cases w)
      (auto simp: less_eq_semver_def less_than_or_equal_def less_than_def semver_equal_def split: if_splits)
  show "v \<le> w \<or> w \<le> v"
    by (cases v; cases w) (auto simp: less_eq_semver_def less_than_or_equal_def less_than_def semver_equal_def)
qed

end

lemmas semver_less = less_semver_def less_eq_semver_def less_than_or_equal_def semver_equal_def

text \<open>The tests of the code are the comparisons of the order.\<close>

lemma semver_comparisons [simp]:
  "less_than v w \<longleftrightarrow> v < w" "greater_than v w \<longleftrightarrow> w < v" "semver_equal v w \<longleftrightarrow> v = w"
  "less_than_or_equal v w \<longleftrightarrow> v \<le> w" "greater_than_or_equal v w \<longleftrightarrow> w \<le> v"
proof -
  show 1: "less_than v w \<longleftrightarrow> v < w" by (simp add: less_semver_def)
  show 2: "greater_than v w \<longleftrightarrow> w < v" by (simp add: less_semver_def greater_than_def less_than_def)
  show 3: "semver_equal v w \<longleftrightarrow> v = w" by (cases v; cases w) (simp add: semver_equal_def)
  show "less_than_or_equal v w \<longleftrightarrow> v \<le> w" by (simp add: less_eq_semver_def)
  show "greater_than_or_equal v w \<longleftrightarrow> w \<le> v"
    using 2 3 by (auto simp: greater_than_or_equal_def)
qed

interpretation semver_order: comparison "\<lambda>v w. if less_than v w then -1 else if less_than w v then 1 else 0"
  by unfold_locales (auto split: if_splits)

section \<open>Reading back\<close>

lemma foldl_digits: "n < 10 ^ 20 \<Longrightarrow> foldl (\<lambda>a c. 10 * a + digit_val c) 0 (nat_str n) = n"
  by (rule nat_str_value)

lemma is_digit_not: "is_digit c \<Longrightarrow> \<not> is_blank c \<and> c \<noteq> CHR ''-'' \<and> c \<noteq> CHR ''+'' \<and> c \<noteq> CHR ''.''"
  by (auto simp: is_blank_def is_digit_def)

lemma scan_int_nat:
  assumes "int n \<le> max_int" and "s = [] \<or> \<not> is_digit (hd s)"
  shows "scan_int (nat_str n @ s) = Some (int n, s)"
proof -
  obtain c cs where c: "nat_str n = c # cs" by (cases "nat_str n") auto
  have d: "\<forall>x \<in> set (nat_str n). is_digit x" using nat_str_digits by blast
  then have nb: "\<not> is_blank c" "c \<noteq> CHR ''-''" "c \<noteq> CHR ''+''" using is_digit_not [of c] c by auto
  have "takeWhile is_digit (nat_str n @ s) = nat_str n" and "dropWhile is_digit (nat_str n @ s) = s"
    using d assms(2) by (cases s; simp add: takeWhile_append2 dropWhile_append2)+
  moreover have "dropWhile is_blank (nat_str n @ s) = nat_str n @ s" using nb(1) by (simp add: c)
  moreover have "hd (nat_str n @ s) = c" by (simp add: c)
  moreover have "- max_int - 1 \<le> int n" by (simp add: max_int_def)
  ultimately show ?thesis
    using assms(1) nb by (simp add: scan_int_def Let_def nat_str_value)
qed

lemma scan_dot_Cons [simp]: "scan_dot (CHR ''.'' # s) = Some s"
  by (simp add: scan_dot_def)

lemma int_str_nat: "0 \<le> i \<Longrightarrow> int_str i = nat_str (nat i)"
  by (simp add: int_str_def)

lemma sort_semvers_sorted:
  "sorted (fst (sort_semvers_asc vs)) \<and> mset (fst (sort_semvers_asc vs)) = mset vs"
proof -
  have "sorted_wrt (\<le>) (fst (sort_semvers_asc vs))"
    using semver_order.sorted_slices_sort [of vs]
    by (simp add: sort_semvers_asc_def Let_def sorted_by_def) (erule sorted_wrt_mono_rel [rotated], simp split: if_splits)
  then show ?thesis by (simp add: sort_semvers_asc_def Let_def)
qed

text \<open>
  The text of a version, whatever follows it that does not begin with a digit (a suffix
  such as \<open>-git\<close>), is read back as that version; comparing two versions that were read
  compares the three numbers lexicographically; and a text that is not a version counts as
  later than, or the same as, any version that can be read.
\<close>
theorem version_read_back:
  assumes "\<And>n. n \<in> {major v, minor v, patch v, major w, minor w, patch w} \<Longrightarrow> 0 \<le> n \<and> n \<le> max_int"
    and "s = [] \<or> \<not> is_digit (hd s)"
  shows "parse_semantic_version (semver_string v @ s) = Some v \<and>
    less_than (parse_semantic_version_or_latest (semver_string v)) (parse_semantic_version_or_latest (semver_string w)) =
      (major v < major w \<or> major v = major w \<and> (minor v < minor w \<or> minor v = minor w \<and> patch v < patch w)) \<and>
    (parse_semantic_version t = None \<longrightarrow> less_than_or_equal v (parse_semantic_version_or_latest t))"
proof -
  have read: "parse_semantic_version (semver_string x @ u) = Some x"
    if x: "0 \<le> major x" "major x \<le> max_int" "0 \<le> minor x" "minor x \<le> max_int" "0 \<le> patch x" "patch x \<le> max_int"
      and u: "u = [] \<or> \<not> is_digit (hd u)" for x u
  proof -
    have dot: "\<not> is_digit CHR ''.''" by (simp add: is_digit_def)
    have num: "scan_int (nat_str (nat i) @ y) = Some (i, y)" if "0 \<le> i" "i \<le> max_int" "y = [] \<or> \<not> is_digit (hd y)" for i y
      using that scan_int_nat [of "nat i" y] by simp
    have "scan_int (nat_str (nat i) @ CHR ''.'' # y) = Some (i, CHR ''.'' # y)" if "0 \<le> i" "i \<le> max_int" for i y
      by (rule num [OF that]) (simp add: dot)
    with num [OF x(5,6) u] x show ?thesis
      by (simp add: semver_string_def parse_semantic_version_def int_str_nat)
  qed
  have b: "0 \<le> major v" "major v \<le> max_int" "0 \<le> minor v" "minor v \<le> max_int" "0 \<le> patch v" "patch v \<le> max_int"
    "0 \<le> major w" "major w \<le> max_int" "0 \<le> minor w" "minor w \<le> max_int" "0 \<le> patch w" "patch w \<le> max_int"
    using assms(1) by auto
  have v: "parse_semantic_version (semver_string v) = Some v" and w: "parse_semantic_version (semver_string w) = Some w"
    using read [of v "[]"] read [of w "[]"] b by simp_all
  have "less_than_or_equal v (SemVer max_int max_int max_int)"
    using b(1-6) by (cases v) (auto simp: semver_less less_than_def simp del: semver_comparisons)
  then have late: "parse_semantic_version t = None \<longrightarrow> less_than_or_equal v (parse_semantic_version_or_latest t)"
    by (simp only: parse_semantic_version_or_latest_def new_semantic_version_def option.case simp_thms)
      (simp add: parse_semantic_version_or_latest_def new_semantic_version_def)
  have "parse_semantic_version_or_latest (semver_string v) = v" "parse_semantic_version_or_latest (semver_string w) = w"
    by (simp_all only: parse_semantic_version_or_latest_def v w option.case)
  then have "less_than (parse_semantic_version_or_latest (semver_string v)) (parse_semantic_version_or_latest (semver_string w)) =
      (major v < major w \<or> major v = major w \<and> (minor v < minor w \<or> minor v = minor w \<and> patch v < patch w))"
    by (simp only: less_than_def) auto
  with read [OF b(1-6) assms(2)] late show ?thesis by blast
qed

lemma version_read_back_witness:
  "parse_semantic_version (semver_string (SemVer 2 3 7) @ ''-git'') = Some (SemVer 2 3 7)"
  by (rule version_read_back [of "SemVer 2 3 7" "SemVer 2 5 3", THEN conjunct1]) (auto simp: max_int_def is_digit_def)

end
