(* ===== verification/Hex_Text.thy ===== *)
theory Hex_Text
  imports Go_Net
begin

text \<open>
  Hexadecimal identifiers and other small conversions of \<open>util/util.go\<close>: bytes to
  text and back, the recognition of identifiers, MAC addresses, whole numbers, nouns.  The
  regular expressions of the code are written out as recognisers.
\<close>

section \<open>Bytes as hexadecimal digits\<close>

text \<open>\<open>%X\<close> writes upper-case digits; \<open>%02X\<close> pads with zeros.\<close>

definition hex_char_upper :: "nat \<Rightarrow> char" where
  "hex_char_upper d = char_of (if d < 10 then 48 + d else 55 + d)"

fun hex_str_upper :: "nat \<Rightarrow> string" where
  "hex_str_upper n = (if n < 16 then [hex_char_upper n] else hex_str_upper (n div 16) @ [hex_char_upper (n mod 16)])"

declare hex_str_upper.simps [simp del]

definition pad_zeros :: "nat \<Rightarrow> string \<Rightarrow> string" where
  "pad_zeros w s = replicate (w - length s) CHR ''0'' @ s"

definition hex_padded :: "nat \<Rightarrow> nat \<Rightarrow> string" where
  "hex_padded w n = pad_zeros w (hex_str_upper n)"

definition bytes_to_hex :: "8 word list \<Rightarrow> string" where
  "bytes_to_hex bs = concat (map (\<lambda>b. hex_padded 2 (unat b)) bs)"

text \<open>
  \<open>hex.DecodeString\<close>: the bytes up to the first character that is no digit, and whether the
  whole text was read.
\<close>

fun hex_decode :: "string \<Rightarrow> 8 word list \<times> bool" where
  "hex_decode [] = ([], True)"
| "hex_decode [c] = ([], False)"
| "hex_decode (a # b # s) =
     (case (hex_digit a, hex_digit b) of
        (Some x, Some y) \<Rightarrow> (case hex_decode s of (bs, ok) \<Rightarrow> (word_of_nat (x * 16 + y) # bs, ok))
      | _ \<Rightarrow> ([], False))"

definition remove_chars :: "char list \<Rightarrow> string \<Rightarrow> string" where
  "remove_chars cs s = filter (\<lambda>c. c \<notin> set cs) s"

definition hex_to_bytes :: "string \<Rightarrow> 8 word list" where
  "hex_to_bytes s = fst (hex_decode (remove_chars [CHR '' '', CHR '':'', CHR ''-''] s))"

section \<open>Identifiers\<close>

definition is_hex_char :: "char \<Rightarrow> bool" where
  "is_hex_char c = (hex_digit c \<noteq> None)"

text \<open>\<open>\s\<close> of a regular expression.\<close>

definition is_re_space :: "char \<Rightarrow> bool" where
  "is_re_space c = (c \<in> {CHR 0x09, CHR 0x0A, CHR 0x0C, CHR 0x0D, CHR '' ''})"

text \<open>
  \<open>^[0-9A-Fa-f]{2}((\s*|:{0,2})[0-9A-Fa-f]{2})*$\<close>: as a digit is neither white space nor a
  colon, the separator of two pairs is all the white space that follows, or all the
  colons.
\<close>

function hex_groups :: "string \<Rightarrow> bool" where
  "hex_groups s =
     (case s of
        a # b # r \<Rightarrow>
          is_hex_char a \<and> is_hex_char b \<and>
          (r = [] \<or>
           (if is_re_space (hd r) then hex_groups (dropWhile is_re_space r)
            else length (takeWhile ((=) CHR '':'') r) \<le> 2 \<and> hex_groups (dropWhile ((=) CHR '':'') r)))
      | _ \<Rightarrow> False)"
  by pat_completeness auto
termination
  by (relation "measure length") (auto intro!: le_imp_less_Suc le_trans [OF length_dropWhile_le])

declare hex_groups.simps [simp del]

definition is_hex_identifier :: "string \<Rightarrow> bool" where
  "is_hex_identifier s = hex_groups (trim_space s)"

definition count_hex_identifier_bytes :: "string \<Rightarrow> nat" where
  "count_hex_identifier_bytes s =
     (if \<not> is_hex_identifier s then 0 else length (remove_chars [CHR '' '', CHR '':''] s) div 2)"

text \<open>\<open>^[0-9A-Fa-f]{2}((:{1})[0-9A-Fa-f]{2})*$\<close>\<close>

fun mac_groups :: "string \<Rightarrow> bool" where
  "mac_groups [a, b] = (is_hex_char a \<and> is_hex_char b)"
| "mac_groups (a # b # c # s) = (is_hex_char a \<and> is_hex_char b \<and> c = CHR '':'' \<and> mac_groups s)"
| "mac_groups _ = False"

text \<open>The loop that writes a colon behind each second character but the last.\<close>

fun group_pairs :: "nat \<Rightarrow> nat \<Rightarrow> string \<Rightarrow> string" where
  "group_pairs n i [] = []"
| "group_pairs n i (c # s) =
     c # (if i > 0 \<and> i mod 2 \<noteq> 0 \<and> i + 1 < n then [CHR '':''] else []) @ group_pairs n (i + 1) s"

definition format_mac_address :: "string \<Rightarrow> string \<times> bool" where
  "format_mac_address s =
     (let ident = trim_space s in
      if mac_groups ident then (ident, True)
      else if \<not> is_hex_identifier ident then ([], False)
      else (let digits = remove_chars [CHR '' '', CHR '':''] ident in (group_pairs (length digits) 0 digits, True)))"

section \<open>Values of any type\<close>

text \<open>
  The dynamic values (\<open>any\<close>) that the code inspects: the integer types with their width, text,
  booleans, nil, and everything else.
\<close>

datatype int_kind = KInt8 | KInt16 | KInt32 | KInt64 | KInt | KUint8 | KUint16 | KUint32 | KUint64 | KUint

datatype any_value = AnyNil | AnyBool bool | AnyString string | AnyInt int_kind int | AnyOther string

definition is_whole_number :: "any_value \<Rightarrow> bool" where
  "is_whole_number v = (case v of AnyInt k i \<Rightarrow> True | _ \<Rightarrow> False)"

fun kind_range :: "int_kind \<Rightarrow> int set" where
  "kind_range KInt8 = {- (2 ^ 7)..<2 ^ 7}"
| "kind_range KInt16 = {- (2 ^ 15)..<2 ^ 15}"
| "kind_range KInt32 = {- (2 ^ 31)..<2 ^ 31}"
| "kind_range KInt64 = {- (2 ^ 63)..<2 ^ 63}"
| "kind_range KInt = {- (2 ^ 63)..<2 ^ 63}"
| "kind_range KUint8 = {0..<2 ^ 8}"
| "kind_range KUint16 = {0..<2 ^ 16}"
| "kind_range KUint32 = {0..<2 ^ 32}"
| "kind_range KUint64 = {0..<2 ^ 64}"
| "kind_range KUint = {0..<2 ^ 64}"

text \<open>\<open>reflect.Value.Convert\<close> to \<open>int64\<close>: a number of 64 bits without sign wraps.\<close>

definition as_int64 :: "any_value \<Rightarrow> int" where
  "as_int64 v = (case v of AnyInt k i \<Rightarrow> sint (word_of_int i :: 64 word) | _ \<Rightarrow> 0)"

definition format_noun :: "int \<Rightarrow> string \<Rightarrow> string \<Rightarrow> string" where
  "format_noun n noun postfix =
     int_str n @ '' '' @ noun @ (if n \<noteq> 1 \<and> n \<noteq> -1 then postfix else [])"

definition nullify_empty_string :: "string option \<Rightarrow> string option" where
  "nullify_empty_string s = (if s \<noteq> None \<and> s \<noteq> Some [] then s else None)"

definition host_with_port_url :: "string \<Rightarrow> int \<Rightarrow> bool \<Rightarrow> string" where
  "host_with_port_url address port secure =
     (if secure then ''https'' else ''http'') @ ''://'' @ address @ '':'' @ int_str port @ ''/''"

section \<open>Reading back what was written\<close>

lemma hex_digit_upper [simp]: "d < 16 \<Longrightarrow> hex_digit (hex_char_upper d) = Some d"
  by (simp add: hex_digit_def hex_char_upper_def Let_def)

lemma hex_char_upper_not: "d < 16 \<Longrightarrow> hex_char_upper d \<notin> {CHR '' '', CHR '':'', CHR ''-'', CHR '','', CHR ''/''}"
proof -
  assume "d < 16"
  then have "hex_digit (hex_char_upper d) \<noteq> None" by simp
  moreover have "\<forall>c \<in> {CHR '' '', CHR '':'', CHR ''-'', CHR '','', CHR ''/''}. hex_digit c = None" by (simp add: hex_digit_def)
  ultimately show ?thesis by metis
qed

lemma hex_str_upper_byte: "n < 256 \<Longrightarrow> hex_padded 2 n = [hex_char_upper (n div 16), hex_char_upper (n mod 16)]"
  by (cases "n < 16") (simp_all add: hex_padded_def pad_zeros_def hex_str_upper.simps [of n] hex_str_upper.simps [of "n div 16"],
    code_simp)

lemma bytes_to_hex_Nil [simp]: "bytes_to_hex [] = []"
  by (simp add: bytes_to_hex_def)

lemma bytes_to_hex_Cons [simp]:
  "bytes_to_hex (b # bs) = hex_char_upper (unat b div 16) # hex_char_upper (unat b mod 16) # bytes_to_hex bs"
  by (simp add: bytes_to_hex_def hex_str_upper_byte)

lemma byte_halves [simp]: "unat (b :: 8 word) div 16 < 16"
  using unat_byte [of b] by (simp add: less_mult_imp_div_less)

lemma bytes_to_hex_length [simp]: "length (bytes_to_hex bs) = 2 * length bs"
  by (induction bs) simp_all

lemma bytes_to_hex_chars: "c \<in> set (bytes_to_hex bs) \<Longrightarrow> \<exists>d < 16. c = hex_char_upper d"
proof (induction bs)
  case (Cons b bs)
  then consider "c = hex_char_upper (unat b div 16)" | "c = hex_char_upper (unat b mod 16)" | "c \<in> set (bytes_to_hex bs)"
    by auto
  then show ?case
  proof cases
    case 1
    with byte_halves [of b] show ?thesis by blast
  next
    case 2
    moreover have "unat b mod 16 < 16" by simp
    ultimately show ?thesis by blast
  qed (rule Cons.IH)
qed simp

lemma hex_decode_bytes: "hex_decode (bytes_to_hex bs) = (bs, True)"
proof (induction bs)
  case (Cons b bs)
  have "word_of_nat (unat b div 16 * 16 + unat b mod 16) = b" by simp
  with Cons show ?case by simp
qed simp

lemma remove_chars_bytes: "set cs \<subseteq> {CHR '' '', CHR '':'', CHR ''-''} \<Longrightarrow> remove_chars cs (bytes_to_hex bs) = bytes_to_hex bs"
  unfolding remove_chars_def by (intro filter_True) (use bytes_to_hex_chars hex_char_upper_not in fastforce)

lemma hex_to_bytes_spaced:
  assumes "remove_chars [CHR '' '', CHR '':'', CHR ''-''] s = bytes_to_hex bs"
  shows "hex_to_bytes s = bs"
  by (simp add: hex_to_bytes_def assms hex_decode_bytes)

lemma hex_roundtrip: "hex_to_bytes (bytes_to_hex bs) = bs"
  by (simp add: hex_to_bytes_spaced remove_chars_bytes)

lemma bytes_to_hex_inject [simp]: "bytes_to_hex a = bytes_to_hex b \<longleftrightarrow> a = b"
  using hex_roundtrip by metis

section \<open>Identifiers and MAC addresses\<close>

lemma is_hex_char_special [simp]: "\<not> is_hex_char CHR '':''" "\<not> is_hex_char CHR '' ''"
  by (simp_all add: is_hex_char_def hex_digit_def)

lemma re_space_not_hex: "is_re_space c \<Longrightarrow> \<not> is_hex_char c"
  by (auto simp: is_re_space_def is_hex_char_def hex_digit_def)

text \<open>What is left of an identifier without blanks and colons is pairs of digits.\<close>

definition plain_separators :: "string \<Rightarrow> bool" where
  "plain_separators s = (\<forall>c \<in> set s. is_re_space c \<longrightarrow> c = CHR '' '')"

lemma remove_dropWhile_space:
  "plain_separators r \<Longrightarrow>
   remove_chars [CHR '' '', CHR '':''] (dropWhile is_re_space r) = remove_chars [CHR '' '', CHR '':''] r"
proof (induction r)
  case (Cons c r)
  have r: "plain_separators r" using Cons.prems by (simp add: plain_separators_def)
  show ?case
  proof (cases "is_re_space c")
    case True
    then have "c = CHR '' ''" using Cons.prems by (simp add: plain_separators_def)
    with Cons.IH [OF r] True show ?thesis by (simp add: remove_chars_def)
  qed simp
qed simp

lemma remove_dropWhile_colon:
  "remove_chars [CHR '' '', CHR '':''] (dropWhile ((=) CHR '':'') r) = remove_chars [CHR '' '', CHR '':''] r"
  by (induction r) (auto simp: remove_chars_def)

fun hex_pairs :: "string \<Rightarrow> bool" where
  "hex_pairs [] = True"
| "hex_pairs [c] = False"
| "hex_pairs (a # b # s) = (is_hex_char a \<and> is_hex_char b \<and> hex_pairs s)"

lemma hex_pairs_even: "hex_pairs s \<Longrightarrow> even (length s)"
  by (induction s rule: hex_pairs.induct) auto

lemma set_dropWhile: "set (dropWhile P xs) \<subseteq> set xs"
  using set_dropWhileD by fast

lemma hex_groups_pairs:
  "hex_groups s \<Longrightarrow> plain_separators s \<Longrightarrow>
     hex_pairs (remove_chars [CHR '' '', CHR '':''] s) \<and> remove_chars [CHR '' '', CHR '':''] s \<noteq> []"
proof (induction s rule: hex_groups.induct)
  case (1 s)
  from "1.prems"(1) obtain a b r where s: "s = a # b # r"
    by (auto simp: hex_groups.simps [of s] split: list.splits)
  from "1.prems"(1) s have ab: "is_hex_char a" "is_hex_char b"
    and r: "r = [] \<or> (if is_re_space (hd r) then hex_groups (dropWhile is_re_space r)
            else length (takeWhile ((=) CHR '':'') r) \<le> 2 \<and> hex_groups (dropWhile ((=) CHR '':'') r))"
    using hex_groups.simps [of "a # b # r"] by (simp_all only: list.case simp_thms)
  from ab have rm: "remove_chars [CHR '' '', CHR '':''] s = a # b # remove_chars [CHR '' '', CHR '':''] r"
    unfolding s remove_chars_def by (auto simp: is_hex_char_special)
  have plain: "plain_separators r" "plain_separators (dropWhile P r)" for P
    using "1.prems"(2) set_dropWhileD [of _ P r] unfolding s by (auto simp: plain_separators_def)
  have "hex_pairs (remove_chars [CHR '' '', CHR '':''] r)"
  proof (cases "r = []")
    case False
    show ?thesis
    proof (cases "is_re_space (hd r)")
      case True
      with r False have g: "hex_groups (dropWhile is_re_space r)" by simp
      from "1.IH"(1) [OF s refl True g plain(2)] show ?thesis
        using remove_dropWhile_space [OF plain(1)] by simp
    next
      case sp: False
      with r False have g: "hex_groups (dropWhile ((=) CHR '':'') r)" by simp
      from "1.IH"(2) [OF s refl sp g plain(2)] show ?thesis
        using remove_dropWhile_colon by simp
    qed
  qed (simp add: remove_chars_def)
  with ab rm show ?case by simp
qed

lemma group_pairs_mac:
  "hex_pairs s \<Longrightarrow> s \<noteq> [] \<Longrightarrow> even i \<Longrightarrow> n = i + length s \<Longrightarrow>
     mac_groups (group_pairs n i s) \<and> remove_chars [CHR '':''] (group_pairs n i s) = s"
proof (induction s arbitrary: i rule: hex_pairs.induct)
  case (3 a b s)
  from "3.prems"(1) have ab: "is_hex_char a" "is_hex_char b" "hex_pairs s" by simp_all
  then have ne: "a \<noteq> CHR '':''" "b \<noteq> CHR '':''" by auto
  show ?case
  proof (cases "s = []")
    case True
    with ab ne "3.prems" show ?thesis by (simp add: remove_chars_def)
  next
    case False
    have "mac_groups (group_pairs n (i + 2) s) \<and> remove_chars [CHR '':''] (group_pairs n (i + 2) s) = s"
      using "3.IH" [OF ab(3) False, of "i + 2"] "3.prems" by simp
    moreover have "group_pairs n i (a # b # s) = a # b # CHR '':'' # group_pairs n (i + 2) s"
      using "3.prems" False by (simp add: mod2_eq_if)
    ultimately show ?thesis using ab ne by (simp only: mac_groups.simps) (simp add: remove_chars_def)
  qed
qed simp_all

lemma mac_groups_identifier: "mac_groups s \<Longrightarrow> hex_groups s"
proof (induction s rule: mac_groups.induct)
  case (2 a b c s)
  then have g: "hex_groups s" by simp
  moreover obtain d t where "s = d # t" "d \<noteq> CHR '':''"
  proof (cases s)
    case (Cons d t)
    with g hex_groups.simps [of s] have "is_hex_char d" by (cases t) simp_all
    then show ?thesis using that Cons is_hex_char_special(1) by metis
  qed (use g hex_groups.simps [of s] in simp)
  moreover have "\<not> is_re_space CHR '':''" by (simp add: is_re_space_def)
  ultimately show ?case using "2.prems" hex_groups.simps [of "a # b # c # s"] by simp
qed (simp_all add: hex_groups.simps)

lemma trim_chars: "set (trim_space s) \<subseteq> set s"
proof -
  have l: "set (trim_left_n n ws t) \<subseteq> set t" for n ws t
  proof (induction n arbitrary: t)
    case (Suc n)
    have "strip_first vs t = Some t' \<Longrightarrow> set t' \<subseteq> set t" for vs t'
      by (induction vs) (auto split: if_splits dest: in_set_dropD)
    with Suc show ?case by (fastforce split: option.splits)
  qed simp
  show ?thesis unfolding trim_space_def Let_def set_rev
    by (rule order_trans [OF l]) (simp add: l)
qed

lemma remove_chars_remove: "set cs \<subseteq> set ds \<Longrightarrow> remove_chars ds (remove_chars cs s) = remove_chars ds s"
  unfolding remove_chars_def by (induction s) auto

text \<open>An identifier of hexadecimal digits whose groups are separated by blanks or colons is
  always written as a MAC address: pairs of digits with a single colon between them, the same
  digits in the same order.\<close>

theorem mac_address_formatted:
  assumes "is_hex_identifier s" and "plain_separators s"
  shows "\<exists>t. format_mac_address s = (t, True) \<and> mac_groups t \<and>
    remove_chars [CHR '' '', CHR '':''] t = remove_chars [CHR '' '', CHR '':''] (trim_space s) \<and>
    2 * count_hex_identifier_bytes (trim_space s) = length (remove_chars [CHR '' '', CHR '':''] t)"
proof -
  let ?i = "trim_space s" and ?rm = "remove_chars [CHR '' '', CHR '':'']"
  have i: "hex_groups ?i" using assms(1) by (simp add: is_hex_identifier_def)
  have p: "plain_separators ?i" using assms(2) trim_chars [of s] by (auto simp: plain_separators_def)
  from hex_groups_pairs [OF i p] have hp: "hex_pairs (?rm ?i)" "?rm ?i \<noteq> []" by simp_all
  have id: "is_hex_identifier ?i" using i by (simp add: is_hex_identifier_def)
  have c: "2 * count_hex_identifier_bytes ?i = length (?rm ?i)"
    using hex_pairs_even [OF hp(1)] id by (simp add: count_hex_identifier_bytes_def)
  show ?thesis
  proof (cases "mac_groups ?i")
    case True
    then have "format_mac_address s = (?i, True)" by (simp add: format_mac_address_def Let_def)
    with True c show ?thesis by auto
  next
    case False
    let ?t = "group_pairs (length (?rm ?i)) 0 (?rm ?i)"
    have f: "format_mac_address s = (?t, True)" using False id by (simp add: format_mac_address_def Let_def)
    have t: "mac_groups ?t" "remove_chars [CHR '':''] ?t = ?rm ?i"
      using group_pairs_mac [OF hp, of 0] by simp_all
    then have "?rm ?t = ?rm (?rm ?i)" using remove_chars_remove [of "[CHR '':'']" "[CHR '' '', CHR '':'']" ?t] by simp
    also have "\<dots> = ?rm ?i" by (rule remove_chars_remove) simp
    finally show ?thesis using f t c by auto
  qed
qed

lemma mac_address_formatted_witness:
  "format_mac_address ''0102 fe:ff'' = (''01:02:fe:ff'', True) \<and>
   (\<exists>t. format_mac_address ''0102 fe:ff'' = (t, True) \<and> mac_groups t \<and>
    remove_chars [CHR '' '', CHR '':''] t = remove_chars [CHR '' '', CHR '':''] (trim_space ''0102 fe:ff'') \<and>
    2 * count_hex_identifier_bytes (trim_space ''0102 fe:ff'') = length (remove_chars [CHR '' '', CHR '':''] t))"
proof
  show "format_mac_address ''0102 fe:ff'' = (''01:02:fe:ff'', True)" by code_simp
  have 1: "is_hex_identifier ''0102 fe:ff''" by code_simp
  have 2: "plain_separators ''0102 fe:ff''" by code_simp
  show "\<exists>t. format_mac_address ''0102 fe:ff'' = (t, True) \<and> mac_groups t \<and>
    remove_chars [CHR '' '', CHR '':''] t = remove_chars [CHR '' '', CHR '':''] (trim_space ''0102 fe:ff'') \<and>
    2 * count_hex_identifier_bytes (trim_space ''0102 fe:ff'') = length (remove_chars [CHR '' '', CHR '':''] t)"
    by (rule mac_address_formatted [OF 1 2])
qed

end

