(* ===== verification/Option_Fields.thy ===== *)
theory Option_Fields
  imports Hex_Text Cidr Dns_Names
begin

text \<open>
  DHCP options: \<open>appcfg/kea/optionfield.go\<close>, \<open>option.go\<close>, \<open>optiondef.go\<close> and
  \<open>stdoptiondef.go\<close>, the data of \<open>datamodel/dhcp\<close>, and the lookup of definitions of
  \<open>server/database/model/optiondef.go\<close>.  An option of the Kea configuration is parsed into typed
  fields, and fields are converted back into the configuration, as comma separated text or as
  hexadecimal digits.  The table of the standard definitions is generated code and a parameter.
\<close>

section \<open>Data\<close>

text \<open>
  The types of option fields and of options: both are strings of the same vocabulary in the
  code.  \<open>OtherType\<close> is any other string.
\<close>

datatype field_type = BinaryField | StringField | BoolField | Uint8Field | Uint16Field | Uint32Field
  | Int8Field | Int16Field | Int32Field | IPv4AddressField | IPv6AddressField | IPv6PrefixField
  | PsidField | FqdnField | EmptyOption | TupleOption | RecordOption | OtherType string

record option_field =
  of_type :: field_type
  of_values :: "any_value list"

record single_option_data =
  sod_always_send :: bool
  sod_code :: "16 word"
  sod_csv_format :: bool
  sod_data :: string
  sod_name :: string
  sod_space :: string

record dhcp_option =
  do_always_send :: bool
  do_code :: "16 word"
  do_encapsulate :: string
  do_fields :: "option_field list"
  do_name :: string
  do_space :: string
  do_universe :: ip_type

record option_definition =
  od_array :: bool
  od_code :: "16 word"
  od_encapsulate :: string
  od_name :: string
  od_record_types :: "field_type list"
  od_space :: string
  od_type :: field_type

datatype option_error = ValueCount nat | ValueKind | EmptyValue | NotHex | NotInRange int
  | BadIp | BadName fqdn_error | UnsupportedType field_type | NotParsed field_type string

section \<open>Definitions of options\<close>

definition get_dhcp_option_definition_field_type :: "option_definition \<Rightarrow> nat \<Rightarrow> field_type option" where
  "get_dhcp_option_definition_field_type def position =
     (case od_type def of
        EmptyOption \<Rightarrow> None
      | RecordOption \<Rightarrow>
          (let rt = od_record_types def in
           if length rt = 0 \<or> (\<not> od_array def \<and> int position > int (length rt) - 1) then None
           else Some (rt ! (position mod length rt)))
      | t \<Rightarrow> if position > 0 \<and> \<not> od_array def then None else Some t)"

record std_lookup =
  v4_defs :: "option_definition list"
  v6_defs :: "option_definition list"

definition find_by_code_space :: "std_lookup \<Rightarrow> 16 word \<Rightarrow> string \<Rightarrow> ip_type \<Rightarrow> option_definition option" where
  "find_by_code_space lk code space universe =
     find (\<lambda>d. od_code d = code \<and> od_space d = space)
       (case universe of IPv4 \<Rightarrow> v4_defs lk | IPv6 \<Rightarrow> v6_defs lk)"

definition lookup_find :: "std_lookup \<Rightarrow> int \<Rightarrow> dhcp_option \<Rightarrow> option_definition option" where
  "lookup_find lk daemon_id o1 = find_by_code_space lk (do_code o1) (do_space o1) (do_universe o1)"

definition definition_exists :: "std_lookup \<Rightarrow> int \<Rightarrow> dhcp_option \<Rightarrow> bool" where
  "definition_exists lk daemon_id o1 =
     (let c = unat (do_code o1) in
      case do_universe o1 of
        IPv4 \<Rightarrow> (do_space o1 = ''dhcp4'' \<and>
            ((c \<ge> 1 \<and> c \<le> 100) \<or> (c \<ge> 108 \<and> c \<le> 161) \<or> (c \<ge> 175 \<and> c \<le> 177) \<or>
             (c \<ge> 208 \<and> c \<le> 213) \<or> (c \<ge> 220 \<and> c \<le> 221))) \<or>
          lookup_find lk daemon_id o1 \<noteq> None
      | IPv6 \<Rightarrow> (do_space o1 = ''dhcp6'' \<and> c \<ge> 1 \<and> c \<le> 143) \<or> lookup_find lk daemon_id o1 \<noteq> None)"

section \<open>From text to fields\<close>

text \<open>The readers of package \<open>strconv\<close>.\<close>

definition strconv_parse_bool :: "string \<Rightarrow> bool option" where
  "strconv_parse_bool s =
     (if s \<in> {''1'', ''t'', ''T'', ''true'', ''TRUE'', ''True''} then Some True
      else if s \<in> {''0'', ''f'', ''F'', ''false'', ''FALSE'', ''False''} then Some False
      else None)"

definition digits_value :: "string \<Rightarrow> nat" where
  "digits_value s = foldl (\<lambda>a c. 10 * a + digit_val c) 0 s"

definition strconv_parse_uint :: "nat \<Rightarrow> string \<Rightarrow> nat option" where
  "strconv_parse_uint bits s =
     (if s = [] \<or> (\<exists>c \<in> set s. \<not> is_digit c) then None
      else if digits_value s \<ge> 2 ^ bits then None
      else Some (digits_value s))"

definition strconv_parse_int :: "nat \<Rightarrow> string \<Rightarrow> int option" where
  "strconv_parse_int bits s =
     (if s = [] then None
      else (let neg = (hd s = CHR ''-'');
                t = (if hd s = CHR ''+'' \<or> hd s = CHR ''-'' then tl s else s)
            in if t = [] \<or> (\<exists>c \<in> set t. \<not> is_digit c) then None
               else if \<not> neg \<and> digits_value t \<ge> 2 ^ (bits - 1) then None
               else if neg \<and> digits_value t > 2 ^ (bits - 1) then None
               else Some (if neg then - int (digits_value t) else int (digits_value t))))"

definition parse_bool_field :: "string \<Rightarrow> option_error + bool" where
  "parse_bool_field s = (case strconv_parse_bool s of None \<Rightarrow> Inl (NotParsed BoolField s) | Some b \<Rightarrow> Inr b)"

definition uint_field :: "field_type \<Rightarrow> nat \<Rightarrow> string \<Rightarrow> option_error + int" where
  "uint_field t bits s = (case strconv_parse_uint bits s of None \<Rightarrow> Inl (NotParsed t s) | Some n \<Rightarrow> Inr (int n))"

definition int_field :: "field_type \<Rightarrow> nat \<Rightarrow> string \<Rightarrow> option_error + int" where
  "int_field t bits s = (case strconv_parse_int bits s of None \<Rightarrow> Inl (NotParsed t s) | Some i \<Rightarrow> Inr i)"

definition parse_uint8_field :: "string \<Rightarrow> option_error + int" where "parse_uint8_field = uint_field Uint8Field 8"
definition parse_uint16_field :: "string \<Rightarrow> option_error + int" where "parse_uint16_field = uint_field Uint16Field 16"
definition parse_uint32_field :: "string \<Rightarrow> option_error + int" where "parse_uint32_field = uint_field Uint32Field 32"
definition parse_int8_field :: "string \<Rightarrow> option_error + int" where "parse_int8_field = int_field Uint8Field 8"
definition parse_int16_field :: "string \<Rightarrow> option_error + int" where "parse_int16_field = int_field Int16Field 16"
definition parse_int32_field :: "string \<Rightarrow> option_error + int" where "parse_int32_field = int_field Uint32Field 32"

definition parse_ip_field :: "string \<Rightarrow> option_error + parsed_ip" where
  "parse_ip_field s = (case parse_ip s of None \<Rightarrow> Inl (NotParsed IPv4AddressField s) | Some p \<Rightarrow> Inr p)"

definition parse_psid_field :: "string \<Rightarrow> option_error + int \<times> int" where
  "parse_psid_field s =
     (case strings_split CHR ''/'' s of
        [a, b] \<Rightarrow>
          (case strconv_parse_uint 16 a of
             None \<Rightarrow> Inl (NotParsed PsidField a)
           | Some psid \<Rightarrow>
               (case strconv_parse_uint 8 b of
                  None \<Rightarrow> Inl (NotParsed PsidField s)
                | Some len \<Rightarrow> Inr (int psid, int len)))
      | _ \<Rightarrow> Inl (NotParsed PsidField s))"

text \<open>\<open>inferDHCPOptionField\<close>: the type is guessed from the value.\<close>

definition infer_dhcp_option_field :: "string \<Rightarrow> option_field" where
  "infer_dhcp_option_field value =
     (case parse_bool_field value of
        Inr b \<Rightarrow> \<lparr>of_type = BoolField, of_values = [AnyBool b]\<rparr>
      | Inl _ \<Rightarrow>
     (case parse_uint32_field value of
        Inr n \<Rightarrow> \<lparr>of_type = Uint32Field, of_values = [AnyInt KUint32 n]\<rparr>
      | Inl _ \<Rightarrow>
     (case parse_int32_field value of
        Inr i \<Rightarrow> \<lparr>of_type = Int32Field, of_values = [AnyInt KInt32 i]\<rparr>
      | Inl _ \<Rightarrow>
     (case parse_ip_field value of
        Inr ip \<Rightarrow>
          (case pip_protocol ip of
             IPv4 \<Rightarrow> \<lparr>of_type = IPv4AddressField, of_values = [AnyString value]\<rparr>
           | IPv6 \<Rightarrow>
               if pip_prefix ip
               then \<lparr>of_type = IPv6PrefixField,
                     of_values = [AnyString (pip_network_prefix ip), AnyInt KInt (pip_prefix_length ip)]\<rparr>
               else \<lparr>of_type = IPv6AddressField, of_values = [AnyString value]\<rparr>)
      | Inl _ \<Rightarrow>
     (case parse_fqdn value of
        Inr f \<Rightarrow>
          if \<not> fqdn_is_partial f then \<lparr>of_type = FqdnField, of_values = [AnyString value]\<rparr>
          else (case parse_psid_field value of
                  Inr (psid, len) \<Rightarrow> \<lparr>of_type = PsidField, of_values = [AnyInt KUint16 psid, AnyInt KUint8 len]\<rparr>
                | Inl _ \<Rightarrow> \<lparr>of_type = StringField, of_values = [AnyString value]\<rparr>)
      | Inl _ \<Rightarrow>
     (case parse_psid_field value of
        Inr (psid, len) \<Rightarrow> \<lparr>of_type = PsidField, of_values = [AnyInt KUint16 psid, AnyInt KUint8 len]\<rparr>
      | Inl _ \<Rightarrow> \<lparr>of_type = StringField, of_values = [AnyString value]\<rparr>))))))"

definition field_of :: "field_type \<Rightarrow> ('a \<Rightarrow> any_value list) \<Rightarrow> option_error + 'a \<Rightarrow> option_error + option_field" where
  "field_of t f r = (case r of Inl e \<Rightarrow> Inl e | Inr x \<Rightarrow> Inr \<lparr>of_type = t, of_values = f x\<rparr>)"

definition parse_dhcp_option_field :: "field_type \<Rightarrow> string \<Rightarrow> option_error + option_field" where
  "parse_dhcp_option_field t value =
     (case t of
        BoolField \<Rightarrow> field_of t (\<lambda>b. [AnyBool b]) (parse_bool_field value)
      | Uint8Field \<Rightarrow> field_of t (\<lambda>i. [AnyInt KUint8 i]) (parse_uint8_field value)
      | Uint16Field \<Rightarrow> field_of t (\<lambda>i. [AnyInt KUint16 i]) (parse_uint16_field value)
      | Uint32Field \<Rightarrow> field_of t (\<lambda>i. [AnyInt KUint32 i]) (parse_uint32_field value)
      | Int8Field \<Rightarrow> field_of t (\<lambda>i. [AnyInt KInt8 i]) (parse_int8_field value)
      | Int16Field \<Rightarrow> field_of t (\<lambda>i. [AnyInt KInt16 i]) (parse_int16_field value)
      | Int32Field \<Rightarrow> field_of t (\<lambda>i. [AnyInt KInt32 i]) (parse_int32_field value)
      | IPv4AddressField \<Rightarrow>
          (case parse_ip_field value of
             Inl e \<Rightarrow> Inl e
           | Inr ip \<Rightarrow>
               if pip_protocol ip \<noteq> IPv4 then Inl (NotParsed t value)
               else Inr \<lparr>of_type = t, of_values = [AnyString value]\<rparr>)
      | IPv6AddressField \<Rightarrow>
          (case parse_ip_field value of
             Inl e \<Rightarrow> Inl e
           | Inr ip \<Rightarrow>
               if pip_protocol ip \<noteq> IPv6 \<or> pip_prefix ip then Inl (NotParsed t value)
               else Inr \<lparr>of_type = t, of_values = [AnyString value]\<rparr>)
      | IPv6PrefixField \<Rightarrow>
          (case parse_ip_field value of
             Inl e \<Rightarrow> Inl e
           | Inr ip \<Rightarrow>
               if \<not> pip_prefix ip then Inl (NotParsed t value)
               else Inr \<lparr>of_type = t, of_values = [AnyString (pip_network_prefix ip), AnyInt KInt (pip_prefix_length ip)]\<rparr>)
      | FqdnField \<Rightarrow>
          (case parse_fqdn value of
             Inl e \<Rightarrow> Inl (BadName e)
           | Inr f \<Rightarrow> Inr \<lparr>of_type = t, of_values = [AnyString value]\<rparr>)
      | PsidField \<Rightarrow> field_of t (\<lambda>(psid, len). [AnyInt KUint16 psid, AnyInt KUint8 len]) (parse_psid_field value)
      | _ \<Rightarrow> Inr \<lparr>of_type = t, of_values = [AnyString value]\<rparr>)"

section \<open>From fields to text\<close>

definition convert_binary_field :: "option_field \<Rightarrow> option_error + string" where
  "convert_binary_field f =
     (case of_values f of
        [v] \<Rightarrow>
          (case v of
             AnyString s \<Rightarrow>
               if length s = 0 then Inl EmptyValue
               else (let s' = remove_chars [CHR '' ''] (remove_chars [CHR '':''] s) in
                     if \<not> snd (hex_decode s') then Inl NotHex else Inr s')
           | _ \<Rightarrow> Inl ValueKind)
      | vs \<Rightarrow> Inl (ValueCount (length vs)))"

definition string_bytes :: "string \<Rightarrow> 8 word list" where
  "string_bytes s = map of_char s"

definition convert_string_field :: "option_field \<Rightarrow> bool \<Rightarrow> option_error + string" where
  "convert_string_field f text_format =
     (case of_values f of
        [v] \<Rightarrow>
          (case v of
             AnyString s \<Rightarrow>
               if length s = 0 then Inl EmptyValue
               else if text_format then Inr s else Inr (bytes_to_hex (string_bytes s))
           | _ \<Rightarrow> Inl ValueKind)
      | vs \<Rightarrow> Inl (ValueCount (length vs)))"

definition convert_bool_field :: "option_field \<Rightarrow> bool \<Rightarrow> option_error + string" where
  "convert_bool_field f text_format =
     (case of_values f of
        [v] \<Rightarrow>
          (case v of
             AnyBool b \<Rightarrow>
               if text_format then Inr (if b then ''true'' else ''false'')
               else if b then Inr ''01'' else Inr ''00''
           | _ \<Rightarrow> Inl ValueKind)
      | vs \<Rightarrow> Inl (ValueCount (length vs)))"

text \<open>\<open>fmt.Sprintf("%d", \<dots>)\<close> of a value that is a whole number.\<close>

definition decimal :: "any_value \<Rightarrow> string" where
  "decimal v = (case v of AnyInt k i \<Rightarrow> int_str i | _ \<Rightarrow> [])"

text \<open>
  The six integer types: their bounds and the number of hexadecimal digits.  A negative number
  is cast to the unsigned type of its width before it is written.
\<close>

definition int_field_layout :: "field_type \<Rightarrow> (int \<times> int \<times> nat) option" where
  "int_field_layout t =
     (case t of
        Uint8Field \<Rightarrow> Some (0, 255, 2)
      | Uint16Field \<Rightarrow> Some (0, 65535, 4)
      | Uint32Field \<Rightarrow> Some (0, 4294967295, 8)
      | Int8Field \<Rightarrow> Some (-128, 127, 2)
      | Int16Field \<Rightarrow> Some (-32768, 32767, 4)
      | Int32Field \<Rightarrow> Some (-2147483648, 2147483647, 8)
      | _ \<Rightarrow> None)"

definition convert_int_field :: "option_field \<Rightarrow> bool \<Rightarrow> option_error + string" where
  "convert_int_field f text_format =
     (case of_values f of
        [v] \<Rightarrow>
          if \<not> is_whole_number v then Inl ValueKind
          else (let i = as_int64 v in
                case int_field_layout (of_type f) of
                  Some (lo, hi, w) \<Rightarrow>
                    if i < lo \<or> i > hi then Inl (NotInRange i)
                    else if \<not> text_format then Inr (hex_padded w (nat (i mod 16 ^ w)))
                    else Inr (decimal v)
                | None \<Rightarrow> Inr (decimal v))
      | vs \<Rightarrow> Inl (ValueCount (length vs)))"

definition convert_ipv4_address_field :: "option_field \<Rightarrow> bool \<Rightarrow> option_error + string" where
  "convert_ipv4_address_field f text_format =
     (case of_values f of
        [v] \<Rightarrow>
          (case v of
             AnyString s \<Rightarrow>
               (case parse_ip s of
                  None \<Rightarrow> Inl BadIp
                | Some p \<Rightarrow>
                    if pip_protocol p \<noteq> IPv4 then Inl BadIp
                    else if text_format then Inr s
                    else Inr (bytes_to_hex (case to4 (pip_ip p) of None \<Rightarrow> [] | Some b \<Rightarrow> b)))
           | _ \<Rightarrow> Inl ValueKind)
      | vs \<Rightarrow> Inl (ValueCount (length vs)))"

definition convert_ipv6_address_field :: "option_field \<Rightarrow> bool \<Rightarrow> option_error + string" where
  "convert_ipv6_address_field f text_format =
     (case of_values f of
        [v] \<Rightarrow>
          (case v of
             AnyString s \<Rightarrow>
               (case parse_ip s of
                  None \<Rightarrow> Inl BadIp
                | Some p \<Rightarrow>
                    if pip_protocol p \<noteq> IPv6 then Inl BadIp
                    else if text_format then Inr s
                    else Inr (bytes_to_hex (pip_ip p)))
           | _ \<Rightarrow> Inl ValueKind)
      | vs \<Rightarrow> Inl (ValueCount (length vs)))"

definition convert_ipv6_prefix_field :: "option_field \<Rightarrow> bool \<Rightarrow> option_error + string" where
  "convert_ipv6_prefix_field f text_format =
     (case of_values f of
        [v, l] \<Rightarrow>
          (case v of
             AnyString s \<Rightarrow>
               if \<not> is_whole_number l then Inl ValueKind
               else (let len = as_int64 l in
                     if len \<le> 0 \<or> len > 128 then Inl (NotInRange len)
                     else (case parse_ip s of
                             None \<Rightarrow> Inl BadIp
                           | Some p \<Rightarrow>
                               if pip_protocol p \<noteq> IPv6 then Inl BadIp
                               else if text_format then Inr (format_cidr_notation s len)
                               else Inr (bytes_to_hex (pip_ip p) @ hex_padded 2 (nat len))))
           | _ \<Rightarrow> Inl ValueKind)
      | vs \<Rightarrow> Inl (ValueCount (length vs)))"

definition convert_psid_field :: "option_field \<Rightarrow> bool \<Rightarrow> option_error + string" where
  "convert_psid_field f text_format =
     (case of_values f of
        [a, b] \<Rightarrow>
          if \<not> is_whole_number a \<or> \<not> is_whole_number b then Inl ValueKind
          else (let psid = as_int64 a; len = as_int64 b in
                if psid \<le> 0 \<or> psid > 65535 then Inl (NotInRange psid)
                else if len \<le> 0 \<or> len > 255 then Inl (NotInRange len)
                else if text_format then Inr (decimal a @ ''/'' @ decimal b)
                else Inr (hex_padded 4 (nat psid) @ hex_padded 2 (nat len)))
      | vs \<Rightarrow> Inl (ValueCount (length vs)))"

definition convert_fqdn_field :: "option_field \<Rightarrow> bool \<Rightarrow> option_error + string" where
  "convert_fqdn_field f text_format =
     (case of_values f of
        [v] \<Rightarrow>
          (case v of
             AnyString s \<Rightarrow>
               (case parse_fqdn s of
                  Inl e \<Rightarrow> Inl (BadName e)
                | Inr n \<Rightarrow> if text_format then Inr s else Inr (bytes_to_hex (string_bytes (fqdn_to_bytes n))))
           | _ \<Rightarrow> Inl ValueKind)
      | vs \<Rightarrow> Inl (ValueCount (length vs)))"

text \<open>The switch of \<open>CreateSingleOptionData\<close> over the type of the field.\<close>

definition convert_field :: "bool \<Rightarrow> option_field \<Rightarrow> option_error + string" where
  "convert_field csv f =
     (case of_type f of
        BinaryField \<Rightarrow> convert_binary_field f
      | StringField \<Rightarrow> convert_string_field f csv
      | BoolField \<Rightarrow> convert_bool_field f csv
      | Uint8Field \<Rightarrow> convert_int_field f csv
      | Uint16Field \<Rightarrow> convert_int_field f csv
      | Uint32Field \<Rightarrow> convert_int_field f csv
      | Int8Field \<Rightarrow> convert_int_field f csv
      | Int16Field \<Rightarrow> convert_int_field f csv
      | Int32Field \<Rightarrow> convert_int_field f csv
      | IPv4AddressField \<Rightarrow> convert_ipv4_address_field f csv
      | IPv6AddressField \<Rightarrow> convert_ipv6_address_field f csv
      | IPv6PrefixField \<Rightarrow> convert_ipv6_prefix_field f csv
      | PsidField \<Rightarrow> convert_psid_field f csv
      | FqdnField \<Rightarrow> convert_fqdn_field f csv
      | t \<Rightarrow> Inl (UnsupportedType t))"

fun convert_fields :: "bool \<Rightarrow> option_field list \<Rightarrow> option_error + string list" where
  "convert_fields csv [] = Inr []"
| "convert_fields csv (f # fs) =
     (case convert_field csv f of
        Inl e \<Rightarrow> Inl e
      | Inr s \<Rightarrow> (case convert_fields csv fs of Inl e \<Rightarrow> Inl e | Inr ss \<Rightarrow> Inr (s # ss)))"

section \<open>Whole options\<close>

definition create_single_option_data ::
    "(int \<Rightarrow> dhcp_option \<Rightarrow> bool) \<Rightarrow> int \<Rightarrow> dhcp_option \<Rightarrow> option_error + single_option_data" where
  "create_single_option_data exists daemon_id o1 =
     (let csv = exists daemon_id o1 in
      case convert_fields csv (do_fields o1) of
        Inl e \<Rightarrow> Inl e
      | Inr converted \<Rightarrow>
          Inr \<lparr>sod_always_send = do_always_send o1, sod_code = do_code o1, sod_csv_format = csv,
               sod_data = (if csv then strings_join '','' converted else strings_join [] converted),
               sod_name = do_name o1, sod_space = do_space o1\<rparr>)"

text \<open>
  The loop over the comma separated values, from position \<open>i\<close>: it stops at the first position
  that the definition has no type for.
\<close>

fun create_fields :: "option_definition option \<Rightarrow> nat \<Rightarrow> string list \<Rightarrow> option_error + option_field list" where
  "create_fields d i [] = Inr []"
| "create_fields d i (raw # vs) =
     (let v = trim_space raw in
      case d of
        Some def \<Rightarrow>
          (case get_dhcp_option_definition_field_type def i of
             None \<Rightarrow> Inr []
           | Some t \<Rightarrow>
               (case parse_dhcp_option_field t v of
                  Inl e \<Rightarrow> Inl e
                | Inr f \<Rightarrow> (case create_fields d (i + 1) vs of Inl e \<Rightarrow> Inl e | Inr fs \<Rightarrow> Inr (f # fs))))
      | None \<Rightarrow>
          (case create_fields d (i + 1) vs of Inl e \<Rightarrow> Inl e | Inr fs \<Rightarrow> Inr (infer_dhcp_option_field v # fs)))"

definition create_dhcp_option ::
    "(int \<Rightarrow> dhcp_option \<Rightarrow> option_definition option) \<Rightarrow> single_option_data \<Rightarrow> ip_type \<Rightarrow> option_error + dhcp_option" where
  "create_dhcp_option find_def sod universe =
     (let o0 = \<lparr>do_always_send = sod_always_send sod, do_code = sod_code sod, do_encapsulate = [], do_fields = [],
                do_name = sod_name sod, do_space = sod_space sod, do_universe = universe\<rparr>;
          data = trim_space (sod_data sod);
          def = find_def 0 o0;
          o1 = o0\<lparr>do_encapsulate :=
            (case def of
               Some d \<Rightarrow> od_encapsulate d
             | None \<Rightarrow>
                 if sod_space sod = ''dhcp4'' \<or> sod_space sod = ''dhcp6''
                 then ''option-'' @ nat_str (unat (sod_code sod))
                 else sod_space sod @ ''.'' @ nat_str (unat (sod_code sod)))\<rparr>
      in if length data = 0 \<or> (case def of None \<Rightarrow> False | Some d \<Rightarrow> od_type d = EmptyOption) then Inr o1
         else if sod_csv_format sod then
           (case create_fields def 0 (strings_split CHR '','' data) of
              Inl e \<Rightarrow> Inl e
            | Inr fs \<Rightarrow> Inr (o1\<lparr>do_fields := fs\<rparr>))
         else Inr (o1\<lparr>do_fields :=
                [\<lparr>of_type = BinaryField, of_values = [AnyString (remove_chars [CHR '':''] (remove_chars [CHR '' ''] data))]\<rparr>]\<rparr>))"

section \<open>Numbers are read back\<close>

lemma digits_value_nat_str [simp]: "digits_value (nat_str n) = n"
  by (simp add: digits_value_def nat_str_value)

lemma parse_uint_nat_str: "n < 2 ^ bits \<Longrightarrow> strconv_parse_uint bits (nat_str n) = Some n"
  using nat_str_digits by (simp add: strconv_parse_uint_def)

lemma parse_uint_bound: "strconv_parse_uint bits s = Some n \<Longrightarrow> n < 2 ^ bits"
  by (auto simp: strconv_parse_uint_def split: if_splits)

lemma sign_not_digit [simp]: "\<not> is_digit CHR ''-''" "\<not> is_digit CHR ''+''" "\<not> is_digit CHR '',''"
  by (simp_all add: is_digit_def)

lemma parse_int_int_str:
  assumes "- (2 ^ (bits - 1)) \<le> i" and "i < 2 ^ (bits - 1)"
  shows "strconv_parse_int bits (int_str i) = Some i"
proof -
  have d: "hd (nat_str n) \<noteq> CHR ''-''" "hd (nat_str n) \<noteq> CHR ''+''" for n
    using nat_str_hd_digit [of n] by auto
  show ?thesis
  proof (cases "i < 0")
    case True
    then have "nat (- i) \<le> 2 ^ (bits - 1)" using assms(1) by (simp add: nat_le_iff)
    with True show ?thesis
      using nat_str_digits by (simp add: strconv_parse_int_def int_str_def not_less)
  next
    case False
    then have "nat i < 2 ^ (bits - 1)" using assms(2) by (simp add: nat_less_iff)
    with False d show ?thesis
      using nat_str_digits by (simp add: strconv_parse_int_def int_str_def Let_def)
  qed
qed

lemma parse_int_bound:
  assumes "strconv_parse_int bits s = Some i"
  shows "- (2 ^ (bits - 1)) \<le> i \<and> i < 2 ^ (bits - 1)"
proof -
  define t where "t = (if hd s = CHR ''+'' \<or> hd s = CHR ''-'' then tl s else s)"
  have "(hd s \<noteq> CHR ''-'' \<and> digits_value t < 2 ^ (bits - 1) \<and> i = int (digits_value t)) \<or>
      (hd s = CHR ''-'' \<and> digits_value t \<le> 2 ^ (bits - 1) \<and> i = - int (digits_value t))"
    using assms by (auto simp: strconv_parse_int_def Let_def t_def split: if_splits)
  moreover have "int (digits_value t) < 2 ^ (bits - 1)" if "digits_value t < 2 ^ (bits - 1)"
    using of_nat_less_iff [of "digits_value t" "2 ^ (bits - 1)", where 'a = int] that by simp
  moreover have "int (digits_value t) \<le> 2 ^ (bits - 1)" if "digits_value t \<le> 2 ^ (bits - 1)"
    using of_nat_le_iff [of "digits_value t" "2 ^ (bits - 1)", where 'a = int] that by simp
  moreover have "(0 :: int) < 2 ^ (bits - 1)" by simp
  ultimately show ?thesis by linarith
qed

lemma as_int64_id: "- (2 ^ 63) \<le> i \<Longrightarrow> i < 2 ^ 63 \<Longrightarrow> as_int64 (AnyInt k i) = i"
  unfolding as_int64_def any_value.case sint_sbintrunc' by (rule trans [OF _ signed_take_bit_int_eq_self [of 63 i]]) simp_all

section \<open>Blanks\<close>

text \<open>Text of visible ASCII characters has nothing to trim.\<close>

definition graphic :: "char \<Rightarrow> bool" where
  "graphic c = (32 < (of_char c :: nat) \<and> (of_char c :: nat) < 127)"

lemma space_codes_not_graphic: "w \<in> set space_codes \<Longrightarrow> c \<in> set w \<Longrightarrow> \<not> graphic c"
proof -
  have "\<forall>w \<in> set space_codes. \<forall>c \<in> set w. \<not> graphic c" by code_simp
  then show "w \<in> set space_codes \<Longrightarrow> c \<in> set w \<Longrightarrow> \<not> graphic c" by blast
qed

lemma space_ends: "w \<in> set space_codes \<Longrightarrow> w \<noteq> [] \<and> \<not> graphic (hd w) \<and> \<not> graphic (last w)"
  using space_codes_not_graphic [of w] space_codes_nonempty(1) hd_in_set [of w] last_in_set [of w] by metis

lemma strip_first_graphic:
  assumes "s = [] \<or> graphic (hd s)" and "\<forall>w \<in> set ws. w \<noteq> [] \<and> \<not> graphic (hd w)"
  shows "strip_first ws s = None"
  unfolding strip_first_None
proof
  fix w assume w: "w \<in> set ws"
  show "take (length w) s \<noteq> w"
  proof
    assume t: "take (length w) s = w"
    with w assms(2) have "s \<noteq> []" "w \<noteq> []" by auto
    then have "hd w = hd s" using t by (metis hd_take length_greater_0_conv)
    with assms w \<open>s \<noteq> []\<close> show False by auto
  qed
qed

text \<open>The ends decide.\<close>

lemma trim_ends:
  assumes "s = [] \<or> (graphic (hd s) \<and> graphic (last s))"
  shows "trim_space s = s"
proof (rule trim_spaceI)
  show "strip_first space_codes s = None"
    using assms space_ends by (intro strip_first_graphic) blast+
  show "strip_first (map rev space_codes) (rev s) = None"
    using assms space_ends by (intro strip_first_graphic) (auto simp: hd_rev)
qed

lemma digit_graphic: "is_digit c \<Longrightarrow> graphic c"
  by (auto simp: is_digit_def graphic_def)

lemma int_str_graphic: "graphic (hd (int_str i))" "graphic (last (int_str i))" "int_str i \<noteq> []"
proof -
  have "graphic CHR ''-''" by code_simp
  moreover have "graphic (hd (nat_str n))" "graphic (last (nat_str n))" for n
    using nat_str_digits [of "hd (nat_str n)" n] nat_str_digits [of "last (nat_str n)" n] by (simp_all add: digit_graphic)
  ultimately show "graphic (hd (int_str i))" "graphic (last (int_str i))" "int_str i \<noteq> []"
    by (simp_all add: int_str_def)
qed

lemma int_str_no_comma: "CHR '','' \<notin> set (int_str i)"
  using nat_str_digits sign_not_digit(3) unfolding int_str_def by (auto dest: nat_str_digits)

text \<open>Trimmed pieces joined by a comma are trimmed.\<close>

lemma strip_first_app_comma:
  assumes "strip_first ws a = None" and "\<forall>w \<in> set ws. CHR '','' \<notin> set w"
  shows "strip_first ws (a @ CHR '','' # b) = None"
  unfolding strip_first_None
proof
  fix w assume w: "w \<in> set ws"
  show "take (length w) (a @ CHR '','' # b) \<noteq> w"
  proof
    assume t: "take (length w) (a @ CHR '','' # b) = w"
    show False
    proof (cases "length w \<le> length a")
      case True
      with t assms(1) w show False by (simp add: strip_first_None)
    next
      case False
      then obtain k where "length w - length a = Suc k" by (metis Suc_diff_Suc not_le)
      then have "CHR '','' \<in> set w" by (subst t [symmetric]) simp
      with assms(2) w show False by blast
    qed
  qed
qed

lemma space_codes_no_comma: "\<forall>w \<in> set space_codes. CHR '','' \<notin> set w" "\<forall>w \<in> set (map rev space_codes). CHR '','' \<notin> set w"
proof -
  have "graphic CHR '',''" by code_simp
  then show "\<forall>w \<in> set space_codes. CHR '','' \<notin> set w" "\<forall>w \<in> set (map rev space_codes). CHR '','' \<notin> set w"
    using space_codes_not_graphic by auto
qed

lemma strings_join_Cons: "ps \<noteq> [] \<Longrightarrow> strings_join sep (p # ps) = p @ sep @ strings_join sep ps"
  by (cases ps) simp_all

lemma trim_join:
  assumes "ss \<noteq> []" and "\<forall>s \<in> set ss. trim_space s = s"
  shows "trim_space (strings_join '','' ss) = strings_join '','' ss"
proof (rule trim_spaceI)
  have none: "\<forall>s \<in> set ss. strip_first space_codes s = None \<and> strip_first (map rev space_codes) (rev s) = None"
    using assms(2) trim_space_none by metis
  from assms(1) none show "strip_first space_codes (strings_join '','' ss) = None"
    using strip_first_app_comma [OF _ space_codes_no_comma(1)] by (cases ss; cases "tl ss") (auto simp: strings_join_Cons)
  from assms(1) none show "strip_first (map rev space_codes) (rev (strings_join '','' ss)) = None"
  proof (induction ss)
    case (Cons s ss)
    show ?case
    proof (cases "ss = []")
      case False
      obtain c where c: "rev (strings_join '','' ss) = c" by simp
      have "strip_first (map rev space_codes) c = None" using Cons False c by simp
      then show ?thesis
        using strip_first_app_comma [OF _ space_codes_no_comma(2)] False c by (simp add: strings_join_Cons)
    qed (use Cons in simp)
  qed simp
qed

section \<open>Texts of addresses\<close>

definition addr_char :: "char \<Rightarrow> bool" where
  "addr_char c = (is_hex_char c \<or> c = CHR '':'' \<or> c = CHR ''.'')"

lemma addr_char_graphic: "addr_char c \<Longrightarrow> graphic c \<and> c \<noteq> CHR '',''"
proof -
  have "graphic CHR '':''" "graphic CHR ''.''" by code_simp+
  then show "addr_char c \<Longrightarrow> graphic c \<and> c \<noteq> CHR '',''"
    by (auto simp: addr_char_def is_hex_char_def hex_digit_def graphic_def Let_def split: if_splits)
qed

lemma ip_string_chars:
  assumes "length ip = 4 \<or> length ip = 16"
  shows "\<forall>c \<in> set (ip_string ip). addr_char c"
proof -
  have d: "addr_char c" if "is_digit c" for c
    using that by (simp add: addr_char_def is_hex_char_def hex_digit_def is_digit_def)
  have h: "addr_char c" if "c \<in> set (hex_str n)" for c n
    using hex_str_digits [of n] that by (auto simp: addr_char_def is_hex_char_def)
  have g: "\<forall>c \<in> set (groups_text gs). addr_char c" for gs
    using groups_text_chars [of gs] h by (auto simp: addr_char_def)
  have "\<forall>c \<in> set (v4_string b). addr_char c" for b
    using v4_string_chars [of b] d by (auto simp: addr_char_def)
  moreover have "\<forall>c \<in> set (v6_string ip). addr_char c"
    using g by (auto simp: v6_string_def groups_text_def addr_char_def Let_def split: option.splits)
  ultimately show ?thesis by (cases "to4 ip") (simp_all add: ip_string_text [OF assms])
qed

lemma ip_string_not_Nil: "length ip = 4 \<or> length ip = 16 \<Longrightarrow> ip_string ip \<noteq> []"
  using ip_string_addr [of ip] by (auto simp: parse_addr_def)

section \<open>Properties\<close>

text \<open>
  C16: The type that is guessed for a value is one the value has: parsing the value with the
  guessed type succeeds and gives the same field.
\<close>

theorem inferred_type_parses:
  "parse_dhcp_option_field (of_type (infer_dhcp_option_field v)) v = Inr (infer_dhcp_option_field v)"
proof -
  consider (bool) b where "parse_bool_field v = Inr b"
    | (uint) e n where "parse_bool_field v = Inl e" "parse_uint32_field v = Inr n"
    | (int) e e' i where "parse_bool_field v = Inl e" "parse_uint32_field v = Inl e'" "parse_int32_field v = Inr i"
    | (ip) e e' e'' p where "parse_bool_field v = Inl e" "parse_uint32_field v = Inl e'" "parse_int32_field v = Inl e''"
        "parse_ip_field v = Inr p"
    | (other) e e' e'' e4 where "parse_bool_field v = Inl e" "parse_uint32_field v = Inl e'" "parse_int32_field v = Inl e''"
        "parse_ip_field v = Inl e4"
    by (metis sum.exhaust)
  then show ?thesis
  proof cases
    case ip
    then show ?thesis
      by (cases "pip_protocol p"; cases "pip_prefix p") (simp_all add: infer_dhcp_option_field_def parse_dhcp_option_field_def)
  next
    case other
    then show ?thesis
      by (cases "parse_fqdn v"; cases "parse_psid_field v")
        (auto simp: infer_dhcp_option_field_def parse_dhcp_option_field_def field_of_def)
  qed (simp_all add: infer_dhcp_option_field_def parse_dhcp_option_field_def field_of_def)
qed

text \<open>A parsed field that can be written is read back from what was written.\<close>

lemma convert_simps:
  "convert_int_field \<lparr>of_type = t, of_values = [AnyInt k i]\<rparr> True =
     (case int_field_layout t of
        Some (lo, hi, w) \<Rightarrow> if as_int64 (AnyInt k i) < lo \<or> as_int64 (AnyInt k i) > hi then Inl (NotInRange (as_int64 (AnyInt k i)))
          else Inr (int_str i)
      | None \<Rightarrow> Inr (int_str i))"
  by (auto simp: convert_int_field_def is_whole_number_def decimal_def Let_def split: option.splits)

lemma int_str_of_nat: "int_str (int n) = nat_str n"
  by (simp add: int_str_def)

definition written_ok :: "string \<Rightarrow> bool" where
  "written_ok s = (s \<noteq> [] \<and> trim_space s = s \<and> CHR '','' \<notin> set s)"

lemma written_int: "written_ok (int_str i)"
  using int_str_graphic [of i] int_str_no_comma by (simp add: written_ok_def trim_ends)

lemma int_field_read_back:
  assumes "convert_int_field \<lparr>of_type = t, of_values = [AnyInt k i]\<rparr> True = Inr s"
  shows "s = int_str i \<and> written_ok s"
proof -
  have "s = int_str i" using assms by (auto simp: convert_simps split: option.splits if_splits)
  then show ?thesis by (simp add: written_int)
qed

lemma uint_field_again: "uint_field t bits v = Inr n \<Longrightarrow> uint_field t bits (int_str n) = Inr n"
  using parse_uint_bound [of bits v] by (auto simp: uint_field_def int_str_of_nat parse_uint_nat_str split: option.splits)

lemma int_field_again: "int_field t bits v = Inr n \<Longrightarrow> int_field t bits (int_str n) = Inr n"
  using parse_int_bound [of bits v] by (auto simp: int_field_def parse_int_int_str split: option.splits)

lemmas int_parsers = parse_uint8_field_def parse_uint16_field_def parse_uint32_field_def
  parse_int8_field_def parse_int16_field_def parse_int32_field_def

lemma parse_ip_Nil [simp]: "parse_ip [] = None"
  by code_simp

lemma prefix_length_pos:
  assumes "parse_ip s = Some p"
  shows "0 < pip_prefix_length p"
  using assms by (auto simp: parse_ip_def Let_def split: option.splits if_splits)

lemma pip_prefix_length_bound:
  assumes "parse_ip s = Some p"
  shows "pip_prefix_length p \<le> 128"
proof -
  have "fst (mask_size (net_mask n)) \<le> 128" if "net_parse_cidr s = Some (ip, n)" for ip n
    using cidr_networks [OF that] by auto
  then show ?thesis
    using assms by (auto simp: parse_ip_def Let_def split: option.splits if_splits)
qed

lemma prefix_field_read_back:
  assumes "parse_dhcp_option_field IPv6PrefixField v = Inr f" and "convert_ipv6_prefix_field f True = Inr s"
    and "AnyInt KInt 128 \<notin> set (of_values f)"
  shows "parse_dhcp_option_field IPv6PrefixField s = Inr f \<and> written_ok s"
proof -
  obtain p where p: "parse_ip v = Some p" "pip_prefix p"
    and f: "f = \<lparr>of_type = IPv6PrefixField, of_values = [AnyString (pip_network_prefix p), AnyInt KInt (pip_prefix_length p)]\<rparr>"
    using assms(1) by (auto simp: parse_dhcp_option_field_def parse_ip_field_def split: option.splits if_splits)
  have l: "as_int64 (AnyInt KInt (pip_prefix_length p)) = pip_prefix_length p"
    using prefix_length_pos [OF p(1)] pip_prefix_length_bound [OF p(1)] by (intro as_int64_id) simp_all
  obtain q where q: "parse_ip (pip_network_prefix p) = Some q" "pip_protocol q = IPv6"
    and s: "s = format_cidr_notation (pip_network_prefix p) (pip_prefix_length p)"
    using assms(2) unfolding f by (auto simp: convert_ipv6_prefix_field_def is_whole_number_def l Let_def split: option.splits if_splits)
  have "pip_prefix_length p \<noteq> 128" using assms(3) f by auto
  from prefix_text_read_back [OF p q this] obtain p' where p': "parse_ip s = Some p'" "pip_prefix p'"
    "pip_network_prefix p' = pip_network_prefix p" "pip_prefix_length p' = pip_prefix_length p"
    unfolding s by blast
  obtain n where n: "net_parse_cidr v = Some (pip_ip p, n)" "pip_network_prefix p = ip_string (net_ip n)"
    using parse_ip_prefix_cases [OF p] by metis
  have len: "length (net_ip n) = 4 \<or> length (net_ip n) = 16"
    using cidr_networks [OF n(1)] by auto
  have c: "\<forall>c \<in> set (pip_network_prefix p). graphic c \<and> c \<noteq> CHR '',''" "pip_network_prefix p \<noteq> []"
    using ip_string_chars [OF len] ip_string_not_Nil [OF len] addr_char_graphic unfolding n(2) by blast+
  then have "hd s = hd (pip_network_prefix p)" "last s = last (int_str (pip_prefix_length p))" "s \<noteq> []"
    using int_str_graphic(3) by (simp_all add: s format_cidr_notation_def)
  then have "trim_space s = s" using c int_str_graphic by (intro trim_ends) simp
  moreover have "CHR '','' \<notin> set s"
    using c(1) int_str_no_comma by (auto simp: s format_cidr_notation_def)
  ultimately show ?thesis
    using p' \<open>s \<noteq> []\<close> by (simp add: f parse_dhcp_option_field_def parse_ip_field_def written_ok_def)
qed

lemma psid_field_read_back:
  assumes "parse_psid_field v = Inr (a, b)" 
  shows "parse_psid_field (int_str a @ ''/'' @ int_str b) = Inr (a, b) \<and> written_ok (int_str a @ ''/'' @ int_str b)"
proof -
  obtain m n x y where "a = int m" "b = int n" "strconv_parse_uint 16 x = Some m" "strconv_parse_uint 8 y = Some n"
    using assms by (auto simp: parse_psid_field_def split: list.splits option.splits)
  then have ab: "a = int m" "b = int n" "m < 2 ^ 16" "n < 2 ^ 8" using parse_uint_bound by blast+
  have ns: "CHR ''/'' \<notin> set (nat_str k)" for k using nat_str_digits by fastforce
  have "strings_split CHR ''/'' (nat_str m @ CHR ''/'' # nat_str n) = [nat_str m, nat_str n]"
    using strings_split_app [OF ns] ns by simp
  then have "parse_psid_field (int_str a @ ''/'' @ int_str b) = Inr (a, b)"
    using ab by (simp add: parse_psid_field_def int_str_of_nat parse_uint_nat_str)
  moreover have "trim_space (int_str a @ ''/'' @ int_str b) = int_str a @ ''/'' @ int_str b"
    using int_str_graphic by (intro trim_ends) simp
  moreover have "CHR '','' \<notin> set (int_str a @ ''/'' @ int_str b)" using int_str_no_comma by simp
  ultimately show ?thesis by (simp add: written_ok_def)
qed

lemma field_read_back:
  assumes "parse_dhcp_option_field t v = Inr f" and "convert_field True f = Inr s"
    and "trim_space v = v" and "CHR '','' \<notin> set v" and "t \<noteq> BinaryField"
    and "t = IPv6PrefixField \<longrightarrow> AnyInt KInt 128 \<notin> set (of_values f)"
  shows "parse_dhcp_option_field t s = Inr f \<and> written_ok s"
proof -
  have keep: "parse_dhcp_option_field t v = Inr f \<and> written_ok v" if "v \<noteq> []"
    using assms(1,3,4) that by (simp add: written_ok_def)
  have int: "parse_dhcp_option_field t s = Inr f \<and> written_ok s"
    if "of_values f = [AnyInt k i]" "of_type f = t" "convert_int_field f True = Inr s"
      and "parse_dhcp_option_field t (int_str i) = Inr f" for k i
  proof -
    have "f = \<lparr>of_type = t, of_values = [AnyInt k i]\<rparr>" using that by (cases f) simp
    then show ?thesis using int_field_read_back [of t k i s] that(3,4) written_int by simp
  qed
  have num: "parse_dhcp_option_field t s = Inr f \<and> written_ok s"
    if hyp: "parse_dhcp_option_field t = (\<lambda>w. field_of t (\<lambda>i. [AnyInt k i]) (g w))" "convert_field True f = convert_int_field f True"
      and again: "\<And>n. g v = Inr n \<Longrightarrow> g (int_str n) = Inr n" for k g
  proof -
    obtain n where n: "g v = Inr n" "f = \<lparr>of_type = t, of_values = [AnyInt k n]\<rparr>"
      using assms(1) hyp(1) by (auto simp: field_of_def split: sum.splits)
    show ?thesis
      by (rule int [of k n]) (use n hyp again assms(2) in \<open>simp_all add: field_of_def\<close>)
  qed
  have t: "of_type f = t"
    using assms(1) by (auto simp: parse_dhcp_option_field_def field_of_def split: field_type.splits sum.splits if_splits)
  show ?thesis
  proof (cases t)
    case BoolField
    then obtain b where f: "f = \<lparr>of_type = t, of_values = [AnyBool b]\<rparr>"
      using assms(1) by (auto simp: parse_dhcp_option_field_def field_of_def split: sum.splits)
    with BoolField assms(2) have s: "s = (if b then ''true'' else ''false'')"
      by (simp add: convert_field_def convert_bool_field_def split: if_splits)
    have "parse_bool_field s = Inr b" unfolding s by (simp add: parse_bool_field_def strconv_parse_bool_def)
    moreover have "written_ok ''true''" "written_ok ''false''" by code_simp+
    ultimately show ?thesis using s by (simp add: BoolField f parse_dhcp_option_field_def field_of_def)
  next
    case Uint8Field
    show ?thesis
      by (rule num [of KUint8 parse_uint8_field]) (simp_all add: fun_eq_iff Uint8Field parse_dhcp_option_field_def
        convert_field_def t int_parsers uint_field_again)
  next
    case Uint16Field
    show ?thesis
      by (rule num [of KUint16 parse_uint16_field]) (simp_all add: fun_eq_iff Uint16Field parse_dhcp_option_field_def
        convert_field_def t int_parsers uint_field_again)
  next
    case Uint32Field
    show ?thesis
      by (rule num [of KUint32 parse_uint32_field]) (simp_all add: fun_eq_iff Uint32Field parse_dhcp_option_field_def
        convert_field_def t int_parsers uint_field_again)
  next
    case Int8Field
    show ?thesis
      by (rule num [of KInt8 parse_int8_field]) (simp_all add: fun_eq_iff Int8Field parse_dhcp_option_field_def
        convert_field_def t int_parsers int_field_again)
  next
    case Int16Field
    show ?thesis
      by (rule num [of KInt16 parse_int16_field]) (simp_all add: fun_eq_iff Int16Field parse_dhcp_option_field_def
        convert_field_def t int_parsers int_field_again)
  next
    case Int32Field
    show ?thesis
      by (rule num [of KInt32 parse_int32_field]) (simp_all add: fun_eq_iff Int32Field parse_dhcp_option_field_def
        convert_field_def t int_parsers int_field_again)
  next
    case IPv4AddressField
    then obtain p where p: "parse_ip v = Some p" "f = \<lparr>of_type = t, of_values = [AnyString v]\<rparr>" "pip_protocol p = IPv4"
      using assms(1) by (auto simp: parse_dhcp_option_field_def parse_ip_field_def split: option.splits if_splits)
    then have "s = v" "v \<noteq> []"
      using assms(2) IPv4AddressField by (auto simp: convert_field_def convert_ipv4_address_field_def)
    with keep show ?thesis by simp
  next
    case IPv6AddressField
    then obtain p where p: "parse_ip v = Some p" "f = \<lparr>of_type = t, of_values = [AnyString v]\<rparr>" "pip_protocol p = IPv6"
      using assms(1) by (auto simp: parse_dhcp_option_field_def parse_ip_field_def split: option.splits if_splits)
    then have "s = v" "v \<noteq> []"
      using assms(2) IPv6AddressField by (auto simp: convert_field_def convert_ipv6_address_field_def)
    with keep show ?thesis by simp
  next
    case IPv6PrefixField
    then show ?thesis
      using prefix_field_read_back [of v f s] assms(1,2,6) t by (simp add: convert_field_def)
  next
    case PsidField
    then obtain a b where ab: "parse_psid_field v = Inr (a, b)" "f = \<lparr>of_type = t, of_values = [AnyInt KUint16 a, AnyInt KUint8 b]\<rparr>"
      using assms(1) by (auto simp: parse_dhcp_option_field_def field_of_def split: sum.splits prod.splits)
    then have "s = int_str a @ ''/'' @ int_str b"
      using assms(2) PsidField
      by (auto simp: convert_field_def convert_psid_field_def is_whole_number_def decimal_def Let_def split: if_splits)
    then show ?thesis
      using psid_field_read_back [OF ab(1)] ab(2) PsidField by (simp add: parse_dhcp_option_field_def field_of_def)
  next
    case FqdnField
    then obtain n where p: "parse_fqdn v = Inr n" "f = \<lparr>of_type = t, of_values = [AnyString v]\<rparr>"
      using assms(1) by (auto simp: parse_dhcp_option_field_def split: sum.splits)
    moreover have "parse_fqdn [] = Inl EmptyFqdn" by code_simp
    ultimately have "s = v" "v \<noteq> []"
      using assms(2) FqdnField by (auto simp: convert_field_def convert_fqdn_field_def)
    with keep show ?thesis by simp
  next
    case StringField
    then have "f = \<lparr>of_type = t, of_values = [AnyString v]\<rparr>" using assms(1) by (simp add: parse_dhcp_option_field_def)
    then have "s = v" "v \<noteq> []"
      using assms(2) StringField by (auto simp: convert_field_def convert_string_field_def split: if_splits)
    with keep show ?thesis by simp
  qed (use assms(2,5) t in \<open>simp_all add: convert_field_def\<close>)
qed

lemma create_fields_read_back:
  assumes "create_fields (Some def) i vs = Inr fs" and "\<forall>v \<in> set vs. CHR '','' \<notin> set v"
    and "BinaryField \<notin> insert (od_type def) (set (od_record_types def))"
    and "\<forall>f \<in> set fs. of_type f = IPv6PrefixField \<longrightarrow> AnyInt KInt 128 \<notin> set (of_values f)"
    and "convert_fields True fs = Inr ss"
  shows "create_fields (Some def) i ss = Inr fs \<and> (\<forall>s \<in> set ss. written_ok s)"
  using assms
proof (induction vs arbitrary: i fs ss)
  case (Cons raw vs)
  let ?v = "trim_space raw"
  show ?case
  proof (cases "get_dhcp_option_definition_field_type def i")
    case None
    with Cons.prems(1,5) show ?thesis by auto
  next
    case (Some t)
    obtain f fs' where f: "parse_dhcp_option_field t ?v = Inr f" "create_fields (Some def) (i + 1) vs = Inr fs'" "fs = f # fs'"
      using Cons.prems(1) Some by (auto split: sum.splits)
    obtain s ss' where s: "convert_field True f = Inr s" "convert_fields True fs' = Inr ss'" "ss = s # ss'"
      using Cons.prems(5) f(3) by (auto split: sum.splits)
    have tf: "of_type f = t"
      using f(1) by (auto simp: parse_dhcp_option_field_def field_of_def split: field_type.splits sum.splits if_splits)
    have "t \<in> insert (od_type def) (set (od_record_types def))"
      using Some by (auto simp: get_dhcp_option_definition_field_type_def Let_def split: field_type.splits if_splits)
    then have tb: "t \<noteq> BinaryField" using Cons.prems(3) by blast
    have comma: "CHR '','' \<notin> set ?v" using Cons.prems(2) trim_chars [of raw] by auto
    have "parse_dhcp_option_field t s = Inr f \<and> written_ok s"
      by (rule field_read_back [OF f(1) s(1) trim_space_idem comma tb]) (use Cons.prems(4) f(3) tf in simp)
    moreover have "create_fields (Some def) (i + 1) ss' = Inr fs' \<and> (\<forall>s \<in> set ss'. written_ok s)"
      by (rule Cons.IH [OF f(2) _ Cons.prems(3) _ s(2)]) (use Cons.prems(2,4) f(3) in auto)
    ultimately show ?thesis
      using Some f(3) s(3) by (simp add: written_ok_def)
  qed
qed simp

text \<open>What is made of an option that is written in comma separated values, when its definition is known.\<close>

lemma create_dhcp_option_known:
  assumes "lookup_find lk 0 o0 = Some def" and "sod_csv_format x"
    and "o0 = \<lparr>do_always_send = sod_always_send x, do_code = sod_code x, do_encapsulate = [], do_fields = [],
      do_name = sod_name x, do_space = sod_space x, do_universe = u\<rparr>"
  shows "create_dhcp_option (lookup_find lk) x u =
    (if length (trim_space (sod_data x)) = 0 \<or> od_type def = EmptyOption then Inr (o0\<lparr>do_encapsulate := od_encapsulate def\<rparr>)
     else (case create_fields (Some def) 0 (strings_split CHR '','' (trim_space (sod_data x))) of
            Inl e \<Rightarrow> Inl e | Inr fs \<Rightarrow> Inr (o0\<lparr>do_encapsulate := od_encapsulate def, do_fields := fs\<rparr>)))"
  using assms(2) unfolding create_dhcp_option_def Let_def assms(1) [unfolded assms(3)] assms(3) option.case by simp

text \<open>Texts of fields are found again in the data they are joined to.\<close>

lemma written_fields_split:
  assumes "\<forall>s \<in> set ss. written_ok s"
  shows "ss \<noteq> [] \<Longrightarrow> trim_space (strings_join '','' ss) \<noteq> [] \<and>
      strings_split CHR '','' (trim_space (strings_join '','' ss)) = ss"
    and "ss = [] \<Longrightarrow> trim_space (strings_join '','' ss) = []"
proof -
  assume ne: "ss \<noteq> []"
  have "trim_space (strings_join '','' ss) = strings_join '','' ss"
    using assms ne by (intro trim_join) (auto simp: written_ok_def)
  moreover have "strings_split CHR '','' (strings_join '','' ss) = ss"
    using assms ne by (intro strings_split_join) (auto simp: written_ok_def)
  moreover have "strings_join '','' ss \<noteq> []"
    using assms ne by (cases ss; cases "tl ss") (auto simp: written_ok_def strings_join_Cons)
  ultimately show "trim_space (strings_join '','' ss) \<noteq> [] \<and> strings_split CHR '','' (trim_space (strings_join '','' ss)) = ss"
    by simp
next
  have "trim_space [] = []" by code_simp
  then show "ss = [] \<Longrightarrow> trim_space (strings_join '','' ss) = []" by simp
qed

text \<open>
  C17: An option of a known definition that was read from the Kea configuration as comma separated
  values and that can be written at all is read back from what is written as the same option:
  same code, space and name, same fields with the same types and values.  Definitions with
  binary fields are written without their separators and an IPv6 prefix of length zero is
  written with length 128; they are left out.
\<close>

theorem option_read_back:
  assumes "create_dhcp_option (lookup_find lk) sod u = Inr o1" and "sod_csv_format sod"
    and "lookup_find lk 0 o1 = Some def" and "BinaryField \<notin> insert (od_type def) (set (od_record_types def))"
    and "\<forall>f \<in> set (do_fields o1). of_type f = IPv6PrefixField \<longrightarrow> AnyInt KInt 128 \<notin> set (of_values f)"
    and "create_single_option_data (definition_exists lk) d o1 = Inr sod'"
  shows "sod_csv_format sod' \<and> create_dhcp_option (lookup_find lk) sod' u = Inr o1"
proof -
  let ?o0 = "\<lambda>x. \<lparr>do_always_send = sod_always_send x, do_code = sod_code x, do_encapsulate = [], do_fields = [],
                do_name = sod_name x, do_space = sod_space x, do_universe = u\<rparr>"
  have id: "do_code o1 = sod_code sod" "do_space o1 = sod_space sod" "do_universe o1 = u"
    "do_always_send o1 = sod_always_send sod" "do_name o1 = sod_name sod"
    using assms(1) by (auto simp: create_dhcp_option_def Let_def split: if_splits sum.splits)
  have def: "lookup_find lk 0 (?o0 sod) = Some def"
    using assms(3) by (simp add: lookup_find_def id)
  have csv: "definition_exists lk d o1"
    using assms(3) by (auto simp: definition_exists_def lookup_find_def Let_def split: ip_type.split)
  then obtain ss where ss: "convert_fields True (do_fields o1) = Inr ss"
    and sod': "sod' = \<lparr>sod_always_send = do_always_send o1, sod_code = do_code o1, sod_csv_format = True,
      sod_data = strings_join '','' ss, sod_name = do_name o1, sod_space = do_space o1\<rparr>"
    using assms(6) by (auto simp: create_single_option_data_def Let_def split: sum.splits)
  have o0: "?o0 sod = ?o0 sod'" by (simp add: sod' id)
  note made = create_dhcp_option_known [OF def assms(2) refl]
  have again: "create_dhcp_option (lookup_find lk) sod' u =
      (if length (trim_space (strings_join '','' ss)) = 0 \<or> od_type def = EmptyOption then Inr ((?o0 sod)\<lparr>do_encapsulate := od_encapsulate def\<rparr>)
       else (case create_fields (Some def) 0 (strings_split CHR '','' (trim_space (strings_join '','' ss))) of
              Inl e \<Rightarrow> Inl e | Inr fs \<Rightarrow> Inr ((?o0 sod)\<lparr>do_encapsulate := od_encapsulate def, do_fields := fs\<rparr>)))"
    using create_dhcp_option_known [OF def _ o0] by (simp add: sod')
  show ?thesis
  proof (cases "length (trim_space (sod_data sod)) = 0 \<or> od_type def = EmptyOption")
    case True
    then have b: "o1 = (?o0 sod)\<lparr>do_encapsulate := od_encapsulate def\<rparr>" using assms(1) made by simp
    with ss have "ss = []" by simp
    then show ?thesis using again written_fields_split(2) [of ss] b by (simp add: sod')
  next
    case False
    then obtain fs where fs: "create_fields (Some def) 0 (strings_split CHR '','' (trim_space (sod_data sod))) = Inr fs"
      "o1 = (?o0 sod)\<lparr>do_encapsulate := od_encapsulate def, do_fields := fs\<rparr>"
      using assms(1) made by (auto split: sum.splits)
    have same: "create_fields (Some def) 0 ss = Inr fs \<and> (\<forall>s \<in> set ss. written_ok s)"
      by (rule create_fields_read_back [OF fs(1) _ assms(4)]) (use strings_split_pieces assms(5) ss fs(2) in auto)
    then show ?thesis
      using again written_fields_split [of ss] fs(2) False by (cases "ss = []") (auto simp: sod')
  qed
qed

definition routers_lookup :: std_lookup where
  "routers_lookup = \<lparr>v4_defs = [\<lparr>od_array = True, od_code = 3, od_encapsulate = [], od_name = ''routers'',
     od_record_types = [], od_space = ''dhcp4'', od_type = IPv4AddressField\<rparr>], v6_defs = []\<rparr>"

lemma option_read_back_witness:
  "\<exists>o1 sod'. create_dhcp_option (lookup_find routers_lookup)
      \<lparr>sod_always_send = True, sod_code = 3, sod_csv_format = True, sod_data = '' 10.0.0.1, 10.0.0.2'', sod_name = ''routers'', sod_space = ''dhcp4''\<rparr> IPv4 = Inr o1 \<and>
    do_fields o1 = [\<lparr>of_type = IPv4AddressField, of_values = [AnyString ''10.0.0.1'']\<rparr>,
      \<lparr>of_type = IPv4AddressField, of_values = [AnyString ''10.0.0.2'']\<rparr>] \<and>
    create_single_option_data (definition_exists routers_lookup) 7 o1 = Inr sod' \<and> sod_data sod' = ''10.0.0.1,10.0.0.2'' \<and>
    create_dhcp_option (lookup_find routers_lookup) sod' IPv4 = Inr o1"
proof -
  let ?sod = "\<lparr>sod_always_send = True, sod_code = 3, sod_csv_format = True, sod_data = '' 10.0.0.1, 10.0.0.2'', sod_name = ''routers'', sod_space = ''dhcp4''\<rparr> :: single_option_data"
  have c: "case create_dhcp_option (lookup_find routers_lookup) ?sod IPv4 of Inl e \<Rightarrow> False
    | Inr o1 \<Rightarrow> do_fields o1 = [\<lparr>of_type = IPv4AddressField, of_values = [AnyString ''10.0.0.1'']\<rparr>,
        \<lparr>of_type = IPv4AddressField, of_values = [AnyString ''10.0.0.2'']\<rparr>] \<and>
        lookup_find routers_lookup 0 o1 = Some (hd (v4_defs routers_lookup)) \<and>
        (case create_single_option_data (definition_exists routers_lookup) 7 o1 of Inl e \<Rightarrow> False
         | Inr s \<Rightarrow> sod_data s = ''10.0.0.1,10.0.0.2'')" by code_simp
  then obtain o1 sod' where o1: "create_dhcp_option (lookup_find routers_lookup) ?sod IPv4 = Inr o1"
    "do_fields o1 = [\<lparr>of_type = IPv4AddressField, of_values = [AnyString ''10.0.0.1'']\<rparr>,
        \<lparr>of_type = IPv4AddressField, of_values = [AnyString ''10.0.0.2'']\<rparr>]"
    "lookup_find routers_lookup 0 o1 = Some (hd (v4_defs routers_lookup))"
    "create_single_option_data (definition_exists routers_lookup) 7 o1 = Inr sod'" "sod_data sod' = ''10.0.0.1,10.0.0.2''"
    by (auto split: sum.splits)
  have "create_dhcp_option (lookup_find routers_lookup) sod' IPv4 = Inr o1"
    by (rule option_read_back [OF o1(1) _ o1(3) _ _ o1(4), THEN conjunct2]) (simp_all add: o1(2) routers_lookup_def)
  with o1 show ?thesis by blast
qed

text \<open>The hexadecimal form of an integer: the bytes of the number, most significant first.\<close>

fun be_bytes :: "nat \<Rightarrow> nat \<Rightarrow> 8 word list" where
  "be_bytes 0 n = []"
| "be_bytes (Suc m) n = be_bytes m (n div 256) @ [word_of_nat n]"

lemma hex_padded_snoc:
  assumes "0 < w"
  shows "hex_padded (Suc w) n = hex_padded w (n div 16) @ [hex_char_upper (n mod 16)]"
proof (cases "n < 16")
  case True
  have z: "hex_char_upper 0 = CHR ''0''" by code_simp
  obtain v where "w = Suc v" using assms by (cases w) auto
  with True z show ?thesis
    by (simp add: hex_padded_def pad_zeros_def hex_str_upper.simps [of n] hex_str_upper.simps [of 0] replicate_append_same)
next
  case False
  then show ?thesis by (simp add: hex_padded_def pad_zeros_def hex_str_upper.simps [of n])
qed

lemma bytes_to_hex_append: "bytes_to_hex (a @ b) = bytes_to_hex a @ bytes_to_hex b"
  by (simp add: bytes_to_hex_def)

lemma hex_padded_bytes: "0 < m \<Longrightarrow> n < 256 ^ m \<Longrightarrow> hex_padded (2 * m) n = bytes_to_hex (be_bytes m n)"
proof (induction m arbitrary: n)
  case (Suc m)
  have b: "unat (word_of_nat n :: 8 word) = n mod 256" by (simp add: unat_of_nat)
  have h: "n mod 256 div 16 = n div 16 mod 16" "n mod 256 mod 16 = n mod 16"
    using mod_mult2_eq [of n 16 16] by (simp_all add: mod_mod_cancel)
  show ?case
  proof (cases "m = 0")
    case True
    with Suc.prems hex_str_upper_byte [of n] show ?thesis by (simp add: b)
  next
    case False
    have "hex_padded (2 * Suc m) n = hex_padded (2 * m) (n div 16 div 16) @ [hex_char_upper (n div 16 mod 16), hex_char_upper (n mod 16)]"
      using False by (simp add: hex_padded_snoc)
    moreover have "n div 16 div 16 = n div 256" by (simp add: div_mult2_eq [symmetric])
    moreover have "n div 256 < 256 ^ m" using Suc.prems(2) by (simp add: less_mult_imp_div_less mult.commute)
    ultimately show ?thesis using Suc.IH [of "n div 256"] False by (simp add: bytes_to_hex_append b h)
  qed
qed simp

lemma be_bytes_value: "bytes_nat (be_bytes m n) = n mod 256 ^ m"
proof (induction m arbitrary: n)
  case (Suc m)
  have "bytes_nat (be_bytes (Suc m) n) = bytes_nat (be_bytes m (n div 256)) * 256 + n mod 256"
    by (simp add: bytes_nat_def unat_of_nat)
  also have "\<dots> = n mod 256 ^ Suc m"
    using Suc mod_mult2_eq [of n 256 "256 ^ m"] by (simp add: mult.commute)
  finally show ?case .
qed (simp add: bytes_nat_def)

lemma be_bytes_length [simp]: "length (be_bytes m n) = m"
  by (induction m arbitrary: n) simp_all

text \<open>
  An integer field is written in the bytes of its type and only if its value fits in them: the
  hexadecimal digits decode to the value modulo 2 to the number of bits, which determines it,
  for the signed types as for the others.
\<close>

theorem int_field_encoding:
  assumes "int_field_layout (of_type f) = Some (lo, hi, w)" and "convert_int_field f False = Inr s"
  shows "\<exists>v bs. of_values f = [v] \<and> is_whole_number v \<and> lo \<le> as_int64 v \<and> as_int64 v \<le> hi \<and>
    hex_decode s = (bs, True) \<and> 2 * length bs = w \<and> int (bytes_nat bs) = as_int64 v mod 16 ^ w \<and>
    (\<forall>i. lo \<le> i \<and> i \<le> hi \<and> int (bytes_nat bs) = i mod 16 ^ w \<longrightarrow> i = as_int64 v)"
proof -
  obtain v where v: "of_values f = [v]" "is_whole_number v" "lo \<le> as_int64 v" "as_int64 v \<le> hi"
    and s: "s = hex_padded w (nat (as_int64 v mod 16 ^ w))"
    using assms by (auto simp: convert_int_field_def Let_def split: list.splits if_splits)
  have w: "w \<in> {2, 4, 8}" and range: "hi - lo < 16 ^ w"
    using assms(1) by (auto simp: int_field_layout_def split: field_type.splits)
  define m where "m = w div 2"
  then have m: "w = 2 * m" "0 < m" using w by auto
  define n where "n = nat (as_int64 v mod 16 ^ w)"
  have e: "(256 :: nat) ^ m = 16 ^ w" "(0 :: int) < 16 ^ w" by (simp_all add: m(1) power_mult)
  have pos: "0 \<le> as_int64 v mod 16 ^ w" "as_int64 v mod 16 ^ w < 16 ^ w" by simp_all
  then have "nat (as_int64 v mod 16 ^ w) < nat (16 ^ w)" by (simp only: nat_mono_iff)
  then have n: "n < 256 ^ m" by (simp add: n_def e nat_power_eq)
  have "s = bytes_to_hex (be_bytes m n)"
    using hex_padded_bytes [OF m(2) n] by (simp add: s m(1) n_def)
  then have d: "hex_decode s = (be_bytes m n, True)" by (simp add: hex_decode_bytes)
  have val: "int (bytes_nat (be_bytes m n)) = as_int64 v mod 16 ^ w"
    using n pos(1) by (simp add: be_bytes_value n_def)
  have uniq: "i = as_int64 v" if "lo \<le> i" "i \<le> hi" "as_int64 v mod 16 ^ w = i mod 16 ^ w" for i
  proof -
    have "16 ^ w dvd as_int64 v - i" using that(3) by (simp add: mod_eq_dvd_iff)
    moreover have "\<bar>as_int64 v - i\<bar> < 16 ^ w" using that(1,2) v(3,4) range by linarith
    ultimately have "as_int64 v - i = 0" using zdvd_imp_le by (metis abs_dvd_iff dvd_abs_iff not_le zero_less_abs_iff)
    then show ?thesis by simp
  qed
  show ?thesis
    by (intro exI [of _ v] exI [of _ "be_bytes m n"] conjI v d val) (use m uniq val in auto)
qed

lemma int_field_encoding_witness:
  "\<exists>v bs. of_values \<lparr>of_type = Int16Field, of_values = [AnyInt KInt16 (-2)]\<rparr> = [v] \<and> is_whole_number v \<and>
    -32768 \<le> as_int64 v \<and> as_int64 v \<le> 32767 \<and> hex_decode ''FFFE'' = (bs, True) \<and> 2 * length bs = 4 \<and>
    int (bytes_nat bs) = as_int64 v mod 16 ^ 4 \<and>
    (\<forall>i. -32768 \<le> i \<and> i \<le> 32767 \<and> int (bytes_nat bs) = i mod 16 ^ 4 \<longrightarrow> i = as_int64 v)"
proof -
  have 1: "int_field_layout (of_type (\<lparr>of_type = Int16Field, of_values = [AnyInt KInt16 (-2)]\<rparr> :: option_field)) = Some (-32768, 32767, 4)"
    by code_simp
  have 2: "convert_int_field \<lparr>of_type = Int16Field, of_values = [AnyInt KInt16 (-2)]\<rparr> False = Inr ''FFFE''" by code_simp
  show ?thesis by (rule int_field_encoding [OF 1 2])
qed

text \<open>
  Three values that are read from the configuration do not survive being written.  The
  number 1 of a standard option whose definition is not in the table is taken for a flag and
  written as \<open>true\<close>.  The IPv6 prefix of length zero is written with the length 128, which is
  then refused.  A PSID of zero is read and cannot be written.
\<close>

theorem values_lost_in_writing:
  assumes "1 \<le> unat c" and "unat c \<le> 100" and "find_by_code_space lk c ''dhcp4'' IPv4 = None"
  shows "(\<exists>o1 s. create_dhcp_option (lookup_find lk)
        \<lparr>sod_always_send = a, sod_code = c, sod_csv_format = True, sod_data = ''1'', sod_name = n, sod_space = ''dhcp4''\<rparr> IPv4 = Inr o1 \<and>
        create_single_option_data (definition_exists lk) d o1 = Inr s \<and> sod_csv_format s \<and> sod_data s = ''true'') \<and>
    (\<exists>f. parse_dhcp_option_field IPv6PrefixField ''::/0'' = Inr f \<and> convert_field True f = Inr ''::/128'' \<and>
        parse_dhcp_option_field IPv6PrefixField ''::/128'' = Inl (NotParsed IPv6PrefixField ''::/128'')) \<and>
    (\<exists>f. parse_dhcp_option_field PsidField ''0/8'' = Inr f \<and> convert_field True f = Inl (NotInRange 0))"
proof (intro conjI)
  let ?sod = "\<lparr>sod_always_send = a, sod_code = c, sod_csv_format = True, sod_data = ''1'', sod_name = n, sod_space = ''dhcp4''\<rparr> :: single_option_data"
  have t: "trim_space ''1'' = ''1''" by code_simp
  have i: "infer_dhcp_option_field ''1'' = \<lparr>of_type = BoolField, of_values = [AnyBool True]\<rparr>" by code_simp
  have s: "strings_split CHR '','' ''1'' = [''1'']" by code_simp
  have f: "lookup_find lk 0 x = None" if "do_code x = c" "do_space x = ''dhcp4''" "do_universe x = IPv4" for x
    using assms(3) that by (simp add: lookup_find_def)
  define o1 where "o1 = \<lparr>do_always_send = a, do_code = c, do_encapsulate = ''option-'' @ nat_str (unat c),
      do_fields = [\<lparr>of_type = BoolField, of_values = [AnyBool True]\<rparr>], do_name = n, do_space = ''dhcp4'', do_universe = IPv4\<rparr>"
  have o1: "create_dhcp_option (lookup_find lk) ?sod IPv4 = Inr o1"
    by (simp add: create_dhcp_option_def f t s i o1_def Let_def)
  have "definition_exists lk d o1"
    using assms(1,2) by (simp add: definition_exists_def o1_def Let_def)
  then have "create_single_option_data (definition_exists lk) d o1 =
      Inr \<lparr>sod_always_send = a, sod_code = c, sod_csv_format = True, sod_data = ''true'', sod_name = n, sod_space = ''dhcp4''\<rparr>"
    by (simp add: create_single_option_data_def o1_def convert_field_def convert_bool_field_def Let_def)
  with o1 show "\<exists>o1 s. create_dhcp_option (lookup_find lk) ?sod IPv4 = Inr o1 \<and>
        create_single_option_data (definition_exists lk) d o1 = Inr s \<and> sod_csv_format s \<and> sod_data s = ''true''"
    by (intro exI [of _ o1]) simp
  have "(case parse_dhcp_option_field IPv6PrefixField ''::/0'' of Inl e \<Rightarrow> False | Inr f \<Rightarrow> convert_field True f = Inr ''::/128'') \<and>
      parse_dhcp_option_field IPv6PrefixField ''::/128'' = Inl (NotParsed IPv6PrefixField ''::/128'')" by code_simp
  then show "\<exists>f. parse_dhcp_option_field IPv6PrefixField ''::/0'' = Inr f \<and> convert_field True f = Inr ''::/128'' \<and>
        parse_dhcp_option_field IPv6PrefixField ''::/128'' = Inl (NotParsed IPv6PrefixField ''::/128'')"
    by (auto split: sum.splits)
  have "case parse_dhcp_option_field PsidField ''0/8'' of Inl e \<Rightarrow> False | Inr f \<Rightarrow> convert_field True f = Inl (NotInRange 0)"
    by code_simp
  then show "\<exists>f. parse_dhcp_option_field PsidField ''0/8'' = Inr f \<and> convert_field True f = Inl (NotInRange 0)"
    by (auto split: sum.splits)
qed

lemma values_lost_in_writing_witness:
  "\<exists>o1 s. create_dhcp_option (lookup_find routers_lookup)
      \<lparr>sod_always_send = False, sod_code = 80, sod_csv_format = True, sod_data = ''1'', sod_name = ''rapid-commit'', sod_space = ''dhcp4''\<rparr> IPv4 = Inr o1 \<and>
      create_single_option_data (definition_exists routers_lookup) 7 o1 = Inr s \<and> sod_csv_format s \<and> sod_data s = ''true''"
proof -
  have "find_by_code_space routers_lookup 80 ''dhcp4'' IPv4 = None" by code_simp
  from values_lost_in_writing [OF _ _ this] show ?thesis by simp
qed

end
