(* ===== verification/Kea_Raw_Config.thy ===== *)
theory Kea_Raw_Config
  imports Go_Strings
begin

text \<open>
  The raw form of a Kea configuration (\<open>appcfg/kea/keaconfig.go\<close>): a JSON document whose
  sensitive values are hidden and into which partial configurations are merged.  A map of the
  code is a list of entries with distinct keys; the code iterates over it in an arbitrary
  order, which the properties show to be irrelevant.
\<close>

section \<open>JSON documents\<close>

datatype json = JNull | JBool bool | JNum string | JStr string | JArr "json list" | JObj "(string \<times> json) list"

type_synonym raw_config = "(string \<times> json) list"

text \<open>Maps as entries: reading, setting and deleting a key.\<close>

definition map_set :: "'k \<Rightarrow> 'v \<Rightarrow> ('k \<times> 'v) list \<Rightarrow> ('k \<times> 'v) list" where
  "map_set k v es = (if k \<in> set (map fst es) then map (\<lambda>(k', v'). (k', if k' = k then v else v')) es else es @ [(k, v)])"

definition map_del :: "'k \<Rightarrow> ('k \<times> 'v) list \<Rightarrow> ('k \<times> 'v) list" where
  "map_del k es = filter (\<lambda>e. fst e \<noteq> k) es"

section \<open>Hiding sensitive data\<close>

text \<open>
  \<open>strings.ToLower\<close> as far as comparisons with ASCII text can see it: the capital letters, and
  the two other characters whose lower case is an ASCII letter (the Kelvin sign and the
  dotted capital I, in UTF-8).
\<close>

definition lower_char :: "char \<Rightarrow> char" where
  "lower_char c =
     (if 65 \<le> (of_char c :: nat) \<and> (of_char c :: nat) \<le> 90 then char_of ((of_char c :: nat) + 32) else c)"

fun strings_to_lower :: "string \<Rightarrow> string" where
  "strings_to_lower (a # b # c # s) =
     (if a = CHR 0xE2 \<and> b = CHR 0x84 \<and> c = CHR 0xAA then CHR ''k'' # strings_to_lower s
      else if a = CHR 0xC4 \<and> b = CHR 0xB0 then CHR ''i'' # strings_to_lower (c # s)
      else lower_char a # strings_to_lower (b # c # s))"
| "strings_to_lower [a, b] = (if a = CHR 0xC4 \<and> b = CHR 0xB0 then ''i'' else [lower_char a, lower_char b])"
| "strings_to_lower [a] = [lower_char a]"
| "strings_to_lower [] = []"

definition is_sensitive_key :: "string \<Rightarrow> bool" where
  "is_sensitive_key k =
     (let n = strings_to_lower k in n = ''password'' \<or> n = ''secret'' \<or> n = ''token'')"

fun hide_sensitive_data :: "raw_config \<Rightarrow> raw_config" and hide_items :: "json list \<Rightarrow> json list" where
  "hide_sensitive_data [] = []"
| "hide_sensitive_data ((k, v) # es) =
     (k, if is_sensitive_key k then JNull
         else (case v of
                 JArr xs \<Rightarrow> JArr (hide_items xs)
               | JObj o1 \<Rightarrow> JObj (hide_sensitive_data o1)
               | _ \<Rightarrow> v)) # hide_sensitive_data es"
| "hide_items [] = []"
| "hide_items (x # xs) = (case x of JObj o1 \<Rightarrow> JObj (hide_sensitive_data o1) | _ \<Rightarrow> x) # hide_items xs"

section \<open>Merging\<close>

text \<open>
  \<open>merge\<close>.  The entries of the source are taken one after another; at each key the merged
  value replaces the old one or, when it is null, removes the key, and then the null members
  of an object at that key are removed.
\<close>

definition drop_nulls :: "raw_config \<Rightarrow> raw_config" where
  "drop_nulls es = filter (\<lambda>(k, v). v \<noteq> JNull) es"

definition clean_entry :: "string \<Rightarrow> raw_config \<Rightarrow> raw_config" where
  "clean_entry k c1 = (case map_of c1 k of Some (JObj c) \<Rightarrow> map_set k (JObj (drop_nulls c)) c1 | _ \<Rightarrow> c1)"

definition put_merged :: "raw_config \<Rightarrow> string \<Rightarrow> json \<Rightarrow> raw_config" where
  "put_merged c1 k v = clean_entry k (if v \<noteq> JNull then map_set k v c1 else map_del k c1)"

fun merge :: "json \<Rightarrow> json \<Rightarrow> json" and merge_into :: "raw_config \<Rightarrow> raw_config \<Rightarrow> raw_config" where
  "merge (JObj c1) v2 = (case v2 of JObj c2 \<Rightarrow> JObj (merge_into c1 c2) | _ \<Rightarrow> JObj c1)"
| "merge v1 v2 = v2"
| "merge_into c1 [] = c1"
| "merge_into c1 ((k, v2) # es) =
     merge_into (put_merged c1 k (case map_of c1 k of Some v1 \<Rightarrow> merge v1 v2 | None \<Rightarrow> v2)) es"

text \<open>
  \<open>Merge\<close> without the serialisation that follows: the hash is deleted from the result.
\<close>

definition merge_raw :: "raw_config \<Rightarrow> raw_config \<Rightarrow> raw_config" where
  "merge_raw dest source = map_del ''hash'' (merge_into dest source)"

section \<open>Maps\<close>

lemma map_of_map_set [simp]: "map_of (map_set k v es) = (map_of es)(k \<mapsto> v)"
proof
  fix x
  show "map_of (map_set k v es) x = ((map_of es)(k \<mapsto> v)) x"
  proof (cases "k \<in> set (map fst es)")
    case True
    have "map_of (map (\<lambda>(k', v'). (k', if k' = k then v else v')) es) x =
        (if x = k then (if k \<in> set (map fst es) then Some v else None) else map_of es x)"
      by (induction es) (auto simp: rev_image_eqI)
    with True show ?thesis by (simp add: map_set_def)
  next
    case False
    then have "map_of es k = None" by (simp add: map_of_eq_None_iff)
    with False show ?thesis by (auto simp: map_set_def map_add_def split: option.splits)
  qed
qed

lemma map_of_map_del [simp]: "map_of (map_del k es) = (map_of es)(k := None)"
proof
  fix x
  show "map_of (map_del k es) x = ((map_of es)(k := None)) x"
  proof (induction es)
    case (Cons e es)
    then show ?case by (cases e; cases "fst e = k"; cases "x = k") (simp_all add: map_del_def)
  qed (simp add: map_del_def)
qed

lemma distinct_map_set: "distinct (map fst es) \<Longrightarrow> distinct (map fst (map_set k v es))"
proof -
  have "map fst (map (\<lambda>(k', v'). (k', if k' = k then v else v')) es) = map fst es" by (simp add: case_prod_beta o_def)
  then have "map fst (map_set k v es) = (if k \<in> set (map fst es) then map fst es else map fst es @ [k])"
    unfolding map_set_def by simp
  then show "distinct (map fst es) \<Longrightarrow> distinct (map fst (map_set k v es))" by simp
qed

lemma distinct_filter_keys: "distinct (map fst es) \<Longrightarrow> distinct (map fst (filter P es))"
  by (rule distinct_map_filter)

lemma drop_nulls_Some: "map_of es k = Some v \<Longrightarrow> v \<noteq> JNull \<Longrightarrow> map_of (drop_nulls es) k = Some v"
proof (induction es)
  case (Cons e es)
  then show ?case by (cases e; cases "fst e = k") (simp_all add: drop_nulls_def)
qed simp

lemma drop_nulls_None:
  assumes "distinct (map fst es)" and "map_of es k = None \<or> map_of es k = Some JNull"
  shows "map_of (drop_nulls es) k = None"
proof (rule ccontr)
  assume "map_of (drop_nulls es) k \<noteq> None"
  then obtain v where "map_of (drop_nulls es) k = Some v" by blast
  then have "(k, v) \<in> set es" "v \<noteq> JNull" by (auto simp: drop_nulls_def dest!: map_of_SomeD)
  with assms map_of_is_SomeI [OF assms(1)] show False by auto
qed

section \<open>What is at a key after a merge\<close>

definition clean :: "json \<Rightarrow> json" where
  "clean v = (case v of JObj c \<Rightarrow> JObj (drop_nulls c) | _ \<Rightarrow> v)"

definition merged :: "json option \<Rightarrow> json \<Rightarrow> json option" where
  "merged v1 v2 =
     (let v = (case v1 of Some v1 \<Rightarrow> merge v1 v2 | None \<Rightarrow> v2) in if v = JNull then None else Some (clean v))"

lemma put_merged_map:
  "map_of (put_merged c1 k v) = (map_of c1)(k := if v = JNull then None else Some (clean v))"
  by (cases v) (auto simp: put_merged_def clean_entry_def clean_def fun_eq_iff)

lemma put_merged_distinct: "distinct (map fst c1) \<Longrightarrow> distinct (map fst (put_merged c1 k v))"
  by (auto simp: put_merged_def clean_entry_def map_del_def distinct_map_set distinct_filter_keys split: option.split json.split)

lemma merge_into_map:
  "distinct (map fst c2) \<Longrightarrow>
   map_of (merge_into c1 c2) k = (case map_of c2 k of None \<Rightarrow> map_of c1 k | Some v2 \<Rightarrow> merged (map_of c1 k) v2)"
proof (induction c2 arbitrary: c1)
  case (Cons e c2)
  obtain k' v2 where e: "e = (k', v2)" by (cases e)
  let ?v = "case map_of c1 k' of Some v1 \<Rightarrow> merge v1 v2 | None \<Rightarrow> v2"
  have IH: "map_of (merge_into (put_merged c1 k' ?v) c2) k =
      (case map_of c2 k of None \<Rightarrow> map_of (put_merged c1 k' ?v) k | Some v2 \<Rightarrow> merged (map_of (put_merged c1 k' ?v) k) v2)"
    using Cons by simp
  show ?case
  proof (cases "k = k'")
    case True
    with Cons.prems e have "map_of c2 k = None" by (auto simp: map_of_eq_None_iff)
    with IH e True show ?thesis by (simp add: put_merged_map merged_def Let_def)
  next
    case False
    with IH e show ?thesis by (simp add: put_merged_map split: option.split)
  qed
qed simp

lemma merge_into_distinct: "distinct (map fst c1) \<Longrightarrow> distinct (map fst (merge_into c1 c2))"
proof (induction c2 arbitrary: c1)
  case (Cons e c2)
  then show ?case by (cases e) (simp add: put_merged_distinct)
qed simp

section \<open>What is at a path\<close>

fun json_at :: "json \<Rightarrow> string list \<Rightarrow> json option" where
  "json_at v [] = Some v"
| "json_at (JObj es) (k # p) = (case map_of es k of None \<Rightarrow> None | Some v \<Rightarrow> json_at v p)"
| "json_at v (k # p) = None"

definition is_object :: "json \<Rightarrow> bool" where
  "is_object v = (case v of JObj es \<Rightarrow> True | _ \<Rightarrow> False)"

text \<open>Documents whose objects have no key twice.\<close>

fun wf_json :: "json \<Rightarrow> bool" where
  "wf_json (JObj es) = (distinct (map fst es) \<and> (\<forall>e \<in> set es. wf_json (snd e)))"
| "wf_json (JArr xs) = (\<forall>x \<in> set xs. wf_json x)"
| "wf_json v = True"

text \<open>The source says nothing about a path when one of its objects on the way lacks the key.\<close>

fun untouched :: "raw_config \<Rightarrow> string list \<Rightarrow> bool" where
  "untouched s [] = False"
| "untouched s (k # p) = (case map_of s k of None \<Rightarrow> True | Some (JObj s') \<Rightarrow> untouched s' p | _ \<Rightarrow> False)"

lemma wf_json_member: "wf_json (JObj es) \<Longrightarrow> map_of es k = Some v \<Longrightarrow> wf_json v"
  by (auto dest: map_of_SomeD)

lemma wf_json_keys: "wf_json (JObj es) \<Longrightarrow> distinct (map fst es)"
  by simp

lemma is_object_iff: "is_object v \<longleftrightarrow> (\<exists>es. v = JObj es)"
  by (cases v) (simp_all add: is_object_def)

lemma clean_other: "\<not> is_object v \<Longrightarrow> clean v = v"
  by (cases v) (simp_all add: clean_def is_object_def)

lemma clean_JNull [simp]: "clean v = JNull \<longleftrightarrow> v = JNull"
  by (cases v) (simp_all add: clean_def)

lemma merge_other: "\<not> is_object v1 \<Longrightarrow> merge v1 v2 = v2"
  by (cases v1) (simp_all add: is_object_def)

lemma json_at_clean_Some:
  "json_at v (k # p) = Some x \<Longrightarrow> x \<noteq> JNull \<Longrightarrow> json_at (clean v) (k # p) = Some x"
proof -
  assume a: "json_at v (k # p) = Some x" "x \<noteq> JNull"
  then obtain es y where v: "v = JObj es" "map_of es k = Some y" "json_at y p = Some x"
    by (cases v) (auto split: option.splits)
  then have "y \<noteq> JNull" using a(2) by (cases p) auto
  with v show ?thesis by (simp add: clean_def drop_nulls_Some)
qed

lemma json_at_clean_None:
  assumes "wf_json v \<or> (\<exists>es. v = JObj es \<and> distinct (map fst es))"
    and "json_at v (k # p) = None \<or> json_at v (k # p) = Some JNull \<and> p = []"
  shows "json_at (clean v) (k # p) = None"
proof (cases "is_object v")
  case True
  then obtain es where v: "v = JObj es" by (auto simp: is_object_iff)
  with assms(1) have d: "distinct (map fst es)" by auto
  show ?thesis
  proof (cases "map_of es k")
    case None
    with drop_nulls_None [OF d, of k] v show ?thesis by (simp add: clean_def)
  next
    case (Some y)
    show ?thesis
    proof (cases "y = JNull")
      case True
      with Some drop_nulls_None [OF d, of k] v show ?thesis by (simp add: clean_def)
    next
      case False
      with assms(2) Some v have "json_at y p = None" by auto
      with Some v False show ?thesis by (simp add: clean_def drop_nulls_Some)
    qed
  qed
next
  case False
  then have "json_at v (k # p) = None" by (cases v) (simp_all add: is_object_def)
  with False show ?thesis by (simp add: clean_other)
qed

lemma merge_into_at:
  assumes "distinct (map fst s)"
  shows "json_at (JObj (merge_into d s)) (k # p) =
    (case map_of s k of None \<Rightarrow> json_at (JObj d) (k # p)
     | Some v2 \<Rightarrow> (case merged (map_of d k) v2 of None \<Rightarrow> None | Some v \<Rightarrow> json_at v p))"
  by (simp add: merge_into_map [OF assms] split: option.split)

lemma merged_object:
  "merged (Some (JObj d')) (JObj s') = Some (clean (JObj (merge_into d' s')))"
  by (simp add: merged_def)

lemma merged_new:
  assumes "\<And>d'. v1 \<noteq> Some (JObj d')" and "v2 \<noteq> JNull"
  shows "merged v1 v2 = Some (clean v2)"
  using assms by (cases v1) (auto simp: merged_def merge_other is_object_iff)

lemma merge_sets_value:
  assumes "wf_json (JObj s)" and "json_at (JObj s) p = Some v" and "v \<noteq> JNull" and "\<not> is_object v" and "p \<noteq> []"
    and "\<And>d'. json_at (JObj d) p \<noteq> Some (JObj d')"
  shows "json_at (JObj (merge_into d s)) p = Some v"
  using assms
proof (induction p arbitrary: d s)
  case (Cons k p)
  obtain v2 where v2: "map_of s k = Some v2" "json_at v2 p = Some v"
    using Cons.prems(2) by (auto split: option.splits)
  note at = merge_into_at [OF wf_json_keys [OF Cons.prems(1)], of d k p, unfolded v2 option.case]
  show ?case
  proof (cases p)
    case Nil
    have "v2 = v" using v2(2) Nil by simp
    moreover have "map_of d k \<noteq> Some (JObj d')" for d' using Cons.prems(6) [of d'] Nil by auto
    then have "merged (map_of d k) v = Some (clean v)" by (rule merged_new) (rule Cons.prems(3))
    ultimately show ?thesis using at Cons.prems(4) Nil by (simp add: clean_other)
  next
    case p: (Cons k' p')
    obtain s' where s': "v2 = JObj s'" using v2(2) p by (cases v2) auto
    show ?thesis
    proof (cases "\<exists>d'. map_of d k = Some (JObj d')")
      case True
      then obtain d' where d': "map_of d k = Some (JObj d')" by blast
      have "json_at (JObj (merge_into d' s')) p = Some v"
        by (rule Cons.IH) (use Cons.prems v2 s' d' p wf_json_member in \<open>auto split: option.splits\<close>)
      then have "json_at (clean (JObj (merge_into d' s'))) p = Some v"
        using json_at_clean_Some Cons.prems(3) unfolding p by blast
      with at d' s' merged_object show ?thesis by simp
    next
      case False
      then have "merged (map_of d k) v2 = Some (clean v2)" using s' by (intro merged_new) auto
      moreover have "json_at (clean v2) p = Some v"
        using json_at_clean_Some v2(2) Cons.prems(3) unfolding p by blast
      ultimately show ?thesis using at by simp
    qed
  qed
qed simp

text \<open>
  A null of the source removes the value, when the parent of its parent is an object of the
  destination and the value is none.
\<close>

lemma merge_removes_value:
  assumes "wf_json (JObj s)" and "wf_json (JObj d)" and "json_at (JObj s) p = Some JNull"
    and "p \<noteq> []" and "\<And>d'. json_at (JObj d) p \<noteq> Some (JObj d')"
    and "\<And>q k k'. p = q @ [k, k'] \<Longrightarrow> \<exists>d'. json_at (JObj d) q = Some (JObj d')"
  shows "json_at (JObj (merge_into d s)) p = None"
  using assms
proof (induction p arbitrary: d s)
  case (Cons k p)
  obtain v2 where v2: "map_of s k = Some v2" "json_at v2 p = Some JNull"
    using Cons.prems(3) by (auto split: option.splits)
  note at = merge_into_at [OF wf_json_keys [OF Cons.prems(1)], of d k p, unfolded v2 option.case]
  show ?case
  proof (cases p)
    case Nil
    with v2(2) have "v2 = JNull" by simp
    moreover have "merge v1 JNull = JNull" if "map_of d k = Some v1" for v1
      using that Cons.prems(5) Nil by (intro merge_other) (auto simp: is_object_iff)
    ultimately have "merged (map_of d k) v2 = None" by (auto simp: merged_def split: option.splits)
    with at show ?thesis by simp
  next
    case p: (Cons k' p')
    obtain s' where s': "v2 = JObj s'" using v2(2) p by (cases v2) auto
    have ws: "wf_json (JObj s')" using wf_json_member [OF Cons.prems(1) v2(1)] s' by simp
    show ?thesis
    proof (cases "\<exists>d'. map_of d k = Some (JObj d')")
      case True
      then obtain d' where d': "map_of d k = Some (JObj d')" by blast
      have wd: "wf_json (JObj d')" using wf_json_member [OF Cons.prems(2) d'] .
      have "json_at (JObj (merge_into d' s')) p = None"
      proof (rule Cons.IH [OF ws wd])
        show "\<exists>d''. json_at (JObj d') q = Some (JObj d'')" if "p = q @ [a, b]" for q a b
          using Cons.prems(6) [of "k # q" a b] that d' by simp
      qed (use Cons.prems v2 s' d' p in auto)
      then have "json_at (clean (JObj (merge_into d' s'))) p = None"
        using json_at_clean_None [of "JObj (merge_into d' s')" k' p'] merge_into_distinct [OF wf_json_keys [OF wd]]
        unfolding p by auto
      with at d' s' merged_object show ?thesis by simp
    next
      case False
      have "p' = []"
      proof (rule ccontr)
        assume "p' \<noteq> []"
        then obtain r b where r: "p' = r @ [b]" by (cases p' rule: rev_cases) auto
        obtain q a where q: "k' # p' = q @ [a, b]"
          using r that [of "[]" k'] that [of "k' # butlast r" "last r"] by (cases r rule: rev_cases) auto
        with Cons.prems(6) [of "k # q" a b] p obtain d' where "json_at (JObj d) (k # q) = Some (JObj d')" by auto
        then obtain y where "map_of d k = Some y" "json_at y q = Some (JObj d')" by (auto split: option.splits)
        with False show False by (cases y; cases q) auto
      qed
      then have "json_at (clean v2) p = None"
        using json_at_clean_None [of v2 k' p'] ws s' v2(2) p by simp
      moreover have "merged (map_of d k) v2 = Some (clean v2)" using False s' by (intro merged_new) auto
      ultimately show ?thesis using at by simp
    qed
  qed
qed simp

lemma merge_keeps_rest:
  assumes "wf_json (JObj s)" and "wf_json (JObj d)" and "untouched s p" and "json_at (JObj d) p \<noteq> Some JNull"
  shows "json_at (JObj (merge_into d s)) p = json_at (JObj d) p"
  using assms
proof (induction p arbitrary: d s)
  case (Cons k p)
  note at = merge_into_at [OF wf_json_keys [OF Cons.prems(1)], of d k p]
  show ?case
  proof (cases "map_of s k")
    case None
    with at show ?thesis by simp
  next
    case (Some v2)
    obtain s' where s': "v2 = JObj s'" "untouched s' p" using Cons.prems(3) Some by (cases v2) auto
    then obtain k' p' where p: "p = k' # p'" by (cases p) auto
    have ws: "wf_json (JObj s')" using wf_json_member [OF Cons.prems(1) Some] s' by simp
    show ?thesis
    proof (cases "\<exists>d'. map_of d k = Some (JObj d')")
      case True
      then obtain d' where d': "map_of d k = Some (JObj d')" by blast
      have wd: "wf_json (JObj d')" using wf_json_member [OF Cons.prems(2) d'] .
      have eq: "json_at (JObj (merge_into d' s')) p = json_at (JObj d') p"
        by (rule Cons.IH [OF ws wd s'(2)]) (use Cons.prems(4) d' in simp)
      have "json_at (clean (JObj (merge_into d' s'))) p = json_at (JObj d') p"
      proof (cases "json_at (JObj d') p")
        case None
        with eq json_at_clean_None [of "JObj (merge_into d' s')" k' p'] merge_into_distinct [OF wf_json_keys [OF wd]]
        show ?thesis unfolding p by auto
      next
        case (Some x)
        then have "x \<noteq> JNull" using Cons.prems(4) d' by simp
        with eq Some json_at_clean_Some show ?thesis unfolding p by metis
      qed
      with at d' s' Some merged_object show ?thesis by simp
    next
      case False
      have "json_at (JObj s') p = None"
        using s'(2) by (induction p arbitrary: s') (auto split: option.splits json.splits)
      then have "json_at (clean v2) p = None"
        using json_at_clean_None [of v2 k' p'] ws s'(1) p by simp
      moreover have "merged (map_of d k) v2 = Some (clean v2)" using False s' by (intro merged_new) auto
      moreover have "json_at (JObj d) (k # p) = None"
      proof (cases "map_of d k")
        case (Some y)
        with False show ?thesis by (cases y) (simp_all add: p)
      qed simp
      ultimately show ?thesis using at Some by simp
    qed
  qed
qed simp

section \<open>Properties\<close>


definition wit_dest :: raw_config where
  "wit_dest = [(''Dhcp4'', JObj [(''allocator'', JStr ''iterative''), (''valid-lifetime'', JNum ''123''), (''dhcp-ddns'', JObj [(''server-port'', JNum ''53'')])])]"

definition wit_source :: raw_config where
  "wit_source = [(''Dhcp4'', JObj [(''valid-lifetime'', JNull), (''allocator'', JStr ''flq'')])]"


text \<open>Paths that also lead into arrays, for what is hidden.\<close>

datatype json_step = Key string | Item nat

fun json_get :: "json \<Rightarrow> json_step list \<Rightarrow> json option" where
  "json_get v [] = Some v"
| "json_get (JObj es) (Key k # p) = (case map_of es k of None \<Rightarrow> None | Some v \<Rightarrow> json_get v p)"
| "json_get (JArr xs) (Item i # p) = (if i < length xs then json_get (xs ! i) p else None)"
| "json_get v (s # p) = None"

fun no_array_in_array :: "json_step list \<Rightarrow> bool" where
  "no_array_in_array (Item i # Item j # p) = False"
| "no_array_in_array (s # p) = no_array_in_array p"
| "no_array_in_array [] = True"

definition is_leaf :: "json \<Rightarrow> bool" where
  "is_leaf v = (case v of JObj es \<Rightarrow> False | JArr xs \<Rightarrow> False | _ \<Rightarrow> True)"

definition hide_item :: "json \<Rightarrow> json" where
  "hide_item x = (case x of JObj o1 \<Rightarrow> JObj (hide_sensitive_data o1) | _ \<Rightarrow> x)"

definition hide_json :: "json \<Rightarrow> json" where
  "hide_json v = (case v of JArr xs \<Rightarrow> JArr (hide_items xs) | JObj o1 \<Rightarrow> JObj (hide_sensitive_data o1) | _ \<Rightarrow> v)"

lemma hide_items_map: "hide_items xs = map hide_item xs"
  by (induction xs) (simp_all add: hide_item_def)

lemma hide_map_of:
  "map_of (hide_sensitive_data es) k = map_option (\<lambda>v. if is_sensitive_key k then JNull else hide_json v) (map_of es k)"
proof (induction es)
  case (Cons e es)
  then show ?case by (cases e; cases "fst e = k") (simp_all add: hide_json_def)
qed simp

lemma no_array_in_array_Key [simp]: "no_array_in_array (Key k # p) = no_array_in_array p"
  by (cases p) simp_all

lemma hidden_null:
  "json_get (JObj (hide_sensitive_data es)) (p @ [Key k]) = Some v \<Longrightarrow> no_array_in_array (p @ [Key k]) \<Longrightarrow>
   is_sensitive_key k \<Longrightarrow> v = JNull"
proof (induction "length p" arbitrary: p es rule: less_induct)
  case less
  show ?case
  proof (cases p)
    case Nil
    with less.prems show ?thesis by (auto simp: hide_map_of split: option.splits)
  next
    case (Cons s p')
    then obtain k' y where s: "s = Key k'" "map_of es k' = Some y" "\<not> is_sensitive_key k'" and g: "json_get (hide_json y) (p' @ [Key k]) = Some v"
    proof (cases s)
      case (Key k')
      then obtain y where y: "map_of es k' = Some y"
        "json_get (if is_sensitive_key k' then JNull else hide_json y) (p' @ [Key k]) = Some v"
        using less.prems(1) Cons by (auto simp: hide_map_of split: option.splits)
      have "json_get JNull (p' @ [Key k]) = None" by (cases p') simp_all
      then have "\<not> is_sensitive_key k'" using y(2) by auto
      with y Key that show ?thesis by auto
    qed (use less.prems(1) Cons in simp)
    have flat: "no_array_in_array (p' @ [Key k])" using less.prems(2) Cons s(1) by simp
    show ?thesis
    proof (cases y)
      case (JObj es')
      with g less.hyps [of p' es'] Cons flat less.prems(3) show ?thesis by (simp add: hide_json_def)
    next
      case (JArr xs)
      with g obtain i p'' where p': "p' = Item i # p''" "i < length xs" "json_get (hide_item (xs ! i)) (p'' @ [Key k]) = Some v"
        by (cases p'; cases "hd p'") (auto simp: hide_json_def hide_items_map split: if_splits)
      show ?thesis
      proof (cases "xs ! i")
        case (JObj es')
        moreover have "no_array_in_array (p'' @ [Key k])"
          using flat p'(1) by (cases p''; cases "hd p''") auto
        ultimately show ?thesis
          using p' less.hyps [of p'' es'] Cons less.prems(3) by (simp add: hide_item_def)
      next
        case (JArr ys)
        with p' flat show ?thesis by (cases p''; cases "hd p''") (auto simp: hide_item_def)
      qed (use p' in \<open>cases p''; cases "hd p''"; simp add: hide_item_def\<close>)+
    qed (use g in \<open>cases p'; cases "hd p'"; simp add: hide_json_def\<close>)+
  qed
qed

text \<open>
  What is not under a sensitive key is kept, and the keys are kept.
\<close>

lemma hidden_kept:
  assumes "\<forall>k. Key k \<in> set p \<longrightarrow> \<not> is_sensitive_key k" and "json_get (JObj es) p = Some v" and "is_leaf v"
  shows "json_get (JObj (hide_sensitive_data es)) p = Some v"
  using assms
proof (induction "length p" arbitrary: p es rule: less_induct)
  case less
  show ?case
  proof (cases p)
    case Nil
    with less.prems(2,3) show ?thesis by (auto simp: is_leaf_def)
  next
    case (Cons s p')
    then obtain k y where s: "s = Key k" "map_of es k = Some y" "json_get y p' = Some v"
      using less.prems(2) by (cases s) (auto split: option.splits)
    have k: "\<not> is_sensitive_key k" "\<forall>k. Key k \<in> set p' \<longrightarrow> \<not> is_sensitive_key k" using less.prems(1) Cons s(1) by auto
    have "json_get (hide_json y) p' = Some v"
    proof (cases y)
      case (JObj es')
      with s(3) less.hyps [of p' es'] Cons k(2) less.prems(3) show ?thesis by (simp add: hide_json_def)
    next
      case (JArr xs)
      show ?thesis
      proof (cases p')
        case Nil
        with s(3) JArr less.prems(3) show ?thesis by (auto simp: is_leaf_def)
      next
        case p': (Cons t p'')
        then obtain i where i: "t = Item i" "i < length xs" "json_get (xs ! i) p'' = Some v"
          using s(3) JArr by (cases t) (auto split: if_splits)
        have "json_get (hide_item (xs ! i)) p'' = Some v"
        proof (cases "xs ! i")
          case (JObj es')
          with i less.hyps [of p'' es'] Cons p' k(2) less.prems(3) show ?thesis by (simp add: hide_item_def)
        qed (use i in \<open>simp_all add: hide_item_def\<close>)
        with JArr p' i show ?thesis by (simp add: hide_json_def hide_items_map)
      qed
    qed (use s(3) in \<open>simp_all add: hide_json_def\<close>)
    with Cons s k(1) show ?thesis by (simp add: hide_map_of)
  qed
qed

text \<open>
  C19: Hiding the sensitive data leaves no value but null under a key that reads password, secret or
  token in any case, however deep in objects and arrays of objects; the values that are under
  no such key are kept.  An array directly inside an array is passed over: what it holds is
  not hidden.
\<close>

theorem sensitive_data_hidden:
  "(\<forall>p k v. json_get (JObj (hide_sensitive_data es)) (p @ [Key k]) = Some v \<and> no_array_in_array (p @ [Key k]) \<and>
      is_sensitive_key k \<longrightarrow> v = JNull) \<and>
   (\<forall>p v. (\<forall>k. Key k \<in> set p \<longrightarrow> \<not> is_sensitive_key k) \<and> json_get (JObj es) p = Some v \<and> is_leaf v \<longrightarrow>
      json_get (JObj (hide_sensitive_data es)) p = Some v) \<and>
   (\<forall>k xs. \<not> is_sensitive_key k \<longrightarrow> hide_sensitive_data [(k, JArr [JArr xs])] = [(k, JArr [JArr xs])])"
  using hidden_null hidden_kept by auto

lemma sensitive_data_hidden_witness:
  "json_get (JObj (hide_sensitive_data [(''hosts-databases'', JArr [JObj [(''Password'', JStr ''pass''), (''host'', JStr ''::1'')]])]))
     [Key ''hosts-databases'', Item 0, Key ''Password''] = Some JNull \<and>
   json_get (JObj (hide_sensitive_data [(''hosts-databases'', JArr [JObj [(''Password'', JStr ''pass''), (''host'', JStr ''::1'')]])]))
     [Key ''hosts-databases'', Item 0, Key ''host''] = Some (JStr ''::1'') \<and>
   hide_sensitive_data [(''nested'', JArr [JArr [JObj [(''password'', JStr ''pass'')]]])] =
     [(''nested'', JArr [JArr [JObj [(''password'', JStr ''pass'')]]])]"
proof -
  let ?es = "[(''hosts-databases'', JArr [JObj [(''Password'', JStr ''pass''), (''host'', JStr ''::1'')]])]"
  have s: "is_sensitive_key ''Password''" "\<not> is_sensitive_key ''nested''" "\<not> is_sensitive_key ''host''"
    "\<not> is_sensitive_key ''hosts-databases''" by code_simp+
  obtain v where v: "json_get (JObj (hide_sensitive_data ?es)) [Key ''hosts-databases'', Item 0, Key ''Password''] = Some v"
    using s by simp
  then have "v = JNull"
    using sensitive_data_hidden [of ?es, THEN conjunct1, rule_format, of "[Key ''hosts-databases'', Item 0]" "''Password''" v] s(1)
    by simp
  moreover have "json_get (JObj (hide_sensitive_data ?es)) [Key ''hosts-databases'', Item 0, Key ''host''] = Some (JStr ''::1'')"
    by (rule sensitive_data_hidden [of ?es, THEN conjunct2, THEN conjunct1, rule_format]) (use s in \<open>auto simp: is_leaf_def\<close>)
  moreover have "hide_sensitive_data [(''nested'', JArr [JArr [JObj [(''password'', JStr ''pass'')]]])] =
     [(''nested'', JArr [JArr [JObj [(''password'', JStr ''pass'')]]])]"
    by (rule sensitive_data_hidden [THEN conjunct2, THEN conjunct2, rule_format]) (rule s(2))
  ultimately show ?thesis using v by simp
qed

end
