(* ===== verification/Kea_Config.thy ===== *)
theory Kea_Config
  imports Option_Fields Kea_Raw_Config Semver
begin

text \<open>
  The typed form of a Kea configuration: \<open>appcfg/kea/subnet.go\<close>, \<open>sharednetwork.go\<close>,
  \<open>addresspool.go\<close>, \<open>prefixpool.go\<close>, \<open>reservation.go\<close>, \<open>hook.go\<close>, \<open>database.go\<close>,
  \<open>controlagent.go\<close>, \<open>dhcp.go\<close> and the accessors of \<open>keaconfig.go\<close>.  The structs are records
  with the same groups of parameters; a pointer is an option, a nil slice the empty list.
  An interface that a struct of the database implements is a record of its results.
  Decoding JSON into the structs is the work of the library and not modelled, what the code
  does after it is.
\<close>

section \<open>Groups of parameters\<close>

text \<open>A 32-bit float is carried as its bits, no operation looks at it.\<close>

type_synonym float32 = "32 word"

record cache_parameters =
  cap_threshold :: "float32 option"
  cap_max_age :: "int option"

record client_class_parameters =
  ccp_client_class :: "string option"
  ccp_require_client_classes :: "string list"

record ddns_parameters =
  ddp_generated_prefix :: "string option"
  ddp_override_client_update :: "bool option"
  ddp_override_no_update :: "bool option"
  ddp_qualifying_suffix :: "string option"
  ddp_replace_client_name :: "string option"
  ddp_send_updates :: "bool option"
  ddp_update_on_renew :: "bool option"
  ddp_use_conflict_resolution :: "bool option"
  ddp_conflict_resolution_mode :: "string option"
  ddp_ttl_percent :: "float32 option"

record four_over_six_parameters =
  fos_interface :: "string option"
  fos_interface_id :: "string option"
  fos_subnet :: "string option"

record hostname_char_parameters =
  hcp_replacement :: "string option"
  hcp_set :: "string option"

record reservation_parameters =
  rvp_early_global_reservations_lookup :: "bool option"
  rvp_host_reservation_identifiers :: "string list"
  rvp_reservation_mode :: "string option"
  rvp_reservations_global :: "bool option"
  rvp_reservations_in_subnet :: "bool option"
  rvp_reservations_out_of_pool :: "bool option"

record timer_parameters =
  tmp_renew_timer :: "int option"
  tmp_rebind_timer :: "int option"
  tmp_t1_percent :: "float32 option"
  tmp_t2_percent :: "float32 option"
  tmp_calculate_tee_times :: "bool option"

record lifetime_parameters =
  ltp_lifetime :: "int option"
  ltp_min_lifetime :: "int option"
  ltp_max_lifetime :: "int option"

text \<open>The zero values of the groups, which a subnet without parameters has.\<close>

definition no_cache :: cache_parameters where
  "no_cache = \<lparr>cap_threshold = None, cap_max_age = None\<rparr>"

definition no_client_class :: client_class_parameters where
  "no_client_class = \<lparr>ccp_client_class = None, ccp_require_client_classes = []\<rparr>"

definition no_ddns :: ddns_parameters where
  "no_ddns = \<lparr>ddp_generated_prefix = None, ddp_override_client_update = None, ddp_override_no_update = None,
     ddp_qualifying_suffix = None, ddp_replace_client_name = None, ddp_send_updates = None, ddp_update_on_renew = None,
     ddp_use_conflict_resolution = None, ddp_conflict_resolution_mode = None, ddp_ttl_percent = None\<rparr>"

definition no_four_over_six :: four_over_six_parameters where
  "no_four_over_six = \<lparr>fos_interface = None, fos_interface_id = None, fos_subnet = None\<rparr>"

definition no_hostname_char :: hostname_char_parameters where
  "no_hostname_char = \<lparr>hcp_replacement = None, hcp_set = None\<rparr>"

definition no_reservation_parameters :: reservation_parameters where
  "no_reservation_parameters = \<lparr>rvp_early_global_reservations_lookup = None, rvp_host_reservation_identifiers = [],
     rvp_reservation_mode = None, rvp_reservations_global = None, rvp_reservations_in_subnet = None,
     rvp_reservations_out_of_pool = None\<rparr>"

definition no_timer :: timer_parameters where
  "no_timer = \<lparr>tmp_renew_timer = None, tmp_rebind_timer = None, tmp_t1_percent = None, tmp_t2_percent = None,
     tmp_calculate_tee_times = None\<rparr>"

definition no_lifetime :: lifetime_parameters where
  "no_lifetime = \<lparr>ltp_lifetime = None, ltp_min_lifetime = None, ltp_max_lifetime = None\<rparr>"

section \<open>Pools, reservations, subnets\<close>

record pool =
  pl_pool :: string
  pl_pool_id :: "int option"
  pl_option_data :: "single_option_data list"
  pl_client_class_parameters :: client_class_parameters

record pd_pool =
  pd_prefix :: string
  pd_prefix_len :: int
  pd_delegated_len :: int
  pd_excluded_prefix :: string
  pd_excluded_prefix_len :: int
  pd_pool_id :: "int option"
  pd_option_data :: "single_option_data list"
  pd_client_class_parameters :: client_class_parameters

record pool_parameters =
  pp_client_class_parameters :: client_class_parameters
  pp_pool_id :: "int option"

record reservation =
  rv_hw_address :: string
  rv_duid :: string
  rv_circuit_id :: string
  rv_client_id :: string
  rv_flex_id :: string
  rv_ip_address :: string
  rv_ip_addresses :: "string list"
  rv_prefixes :: "string list"
  rv_hostname :: string
  rv_client_classes :: "string list"
  rv_next_server :: string
  rv_boot_file_name :: string
  rv_server_hostname :: string
  rv_option_data :: "single_option_data list"

record common_subnet_parameters =
  csp_cache_parameters :: cache_parameters
  csp_client_class_parameters :: client_class_parameters
  csp_ddns_parameters :: ddns_parameters
  csp_hostname_char_parameters :: hostname_char_parameters
  csp_reservation_parameters :: reservation_parameters
  csp_timer_parameters :: timer_parameters
  csp_valid_lifetime_parameters :: lifetime_parameters
  csp_allocator :: "string option"
  csp_interface :: "string option"
  csp_store_extended_info :: "bool option"
  csp_option_data :: "single_option_data list"
  csp_pools :: "pool list"
  csp_relay :: "string list option"
  csp_reservations :: "reservation list"
  csp_user_context :: raw_config

record subnet4 =
  s4_common :: common_subnet_parameters
  s4_four_over_six_parameters :: four_over_six_parameters
  s4_id :: int
  s4_subnet :: string
  s4_authoritative :: "bool option"
  s4_boot_file_name :: "string option"
  s4_match_client_id :: "bool option"
  s4_next_server :: "string option"
  s4_server_hostname :: "string option"

record subnet6 =
  s6_common :: common_subnet_parameters
  s6_id :: int
  s6_subnet :: string
  s6_preferred_lifetime_parameters :: lifetime_parameters
  s6_pd_allocator :: "string option"
  s6_interface_id :: "string option"
  s6_pd_pools :: "pd_pool list"
  s6_rapid_commit :: "bool option"

text \<open>The union of the parameters of both families, which the database keeps.\<close>

record subnet_parameters =
  sp_cache_parameters :: cache_parameters
  sp_client_class_parameters :: client_class_parameters
  sp_ddns_parameters :: ddns_parameters
  sp_four_over_six_parameters :: four_over_six_parameters
  sp_hostname_char_parameters :: hostname_char_parameters
  sp_preferred_lifetime_parameters :: lifetime_parameters
  sp_reservation_parameters :: reservation_parameters
  sp_timer_parameters :: timer_parameters
  sp_valid_lifetime_parameters :: lifetime_parameters
  sp_allocator :: "string option"
  sp_authoritative :: "bool option"
  sp_boot_file_name :: "string option"
  sp_interface :: "string option"
  sp_interface_id :: "string option"
  sp_match_client_id :: "bool option"
  sp_next_server :: "string option"
  sp_pd_allocator :: "string option"
  sp_rapid_commit :: "bool option"
  sp_relay :: "string list option"
  sp_server_hostname :: "string option"
  sp_store_extended_info :: "bool option"


text \<open>The interface \<open>Subnet\<close>, which both structs implement.\<close>

datatype subnet = Subnet4 subnet4 | Subnet6 subnet6

fun subnet_id :: "subnet \<Rightarrow> int" where
  "subnet_id (Subnet4 s) = s4_id s"
| "subnet_id (Subnet6 s) = s6_id s"

fun subnet_prefix :: "subnet \<Rightarrow> string" where
  "subnet_prefix (Subnet4 s) = s4_subnet s"
| "subnet_prefix (Subnet6 s) = s6_subnet s"

text \<open>\<open>GetCanonicalPrefix\<close>; \<open>None\<close> is the error of an invalid prefix.\<close>

definition get_canonical_subnet_prefix :: "string \<Rightarrow> string option" where
  "get_canonical_subnet_prefix s = map_option get_network_prefix_with_length (parse_ip s)"

fun subnet_pools :: "subnet \<Rightarrow> pool list" where
  "subnet_pools (Subnet4 s) = csp_pools (s4_common s)"
| "subnet_pools (Subnet6 s) = csp_pools (s6_common s)"

fun subnet_pd_pools :: "subnet \<Rightarrow> pd_pool list" where
  "subnet_pd_pools (Subnet4 s) = []"
| "subnet_pd_pools (Subnet6 s) = s6_pd_pools s"

fun subnet_reservations :: "subnet \<Rightarrow> reservation list" where
  "subnet_reservations (Subnet4 s) = csp_reservations (s4_common s)"
| "subnet_reservations (Subnet6 s) = csp_reservations (s6_common s)"

fun subnet_options :: "subnet \<Rightarrow> single_option_data list" where
  "subnet_options (Subnet4 s) = csp_option_data (s4_common s)"
| "subnet_options (Subnet6 s) = csp_option_data (s6_common s)"

fun subnet_universe :: "subnet \<Rightarrow> ip_type" where
  "subnet_universe (Subnet4 s) = IPv4"
| "subnet_universe (Subnet6 s) = IPv6"

fun subnet_user_context :: "subnet \<Rightarrow> raw_config" where
  "subnet_user_context (Subnet4 s) = csp_user_context (s4_common s)"
| "subnet_user_context (Subnet6 s) = csp_user_context (s6_common s)"

definition no_subnet_parameters :: subnet_parameters where
  "no_subnet_parameters =
     \<lparr>sp_cache_parameters = no_cache, sp_client_class_parameters = no_client_class, sp_ddns_parameters = no_ddns,
      sp_four_over_six_parameters = no_four_over_six, sp_hostname_char_parameters = no_hostname_char,
      sp_preferred_lifetime_parameters = no_lifetime, sp_reservation_parameters = no_reservation_parameters,
      sp_timer_parameters = no_timer, sp_valid_lifetime_parameters = no_lifetime, sp_allocator = None,
      sp_authoritative = None, sp_boot_file_name = None, sp_interface = None, sp_interface_id = None,
      sp_match_client_id = None, sp_next_server = None, sp_pd_allocator = None, sp_rapid_commit = None,
      sp_relay = None, sp_server_hostname = None, sp_store_extended_info = None\<rparr>"

definition subnet4_parameters :: "subnet4 \<Rightarrow> subnet_parameters" where
  "subnet4_parameters s =
     (let c = s4_common s in
      no_subnet_parameters
        \<lparr>sp_cache_parameters := csp_cache_parameters c,
         sp_client_class_parameters := csp_client_class_parameters c,
         sp_ddns_parameters := csp_ddns_parameters c,
         sp_four_over_six_parameters := s4_four_over_six_parameters s,
         sp_hostname_char_parameters := csp_hostname_char_parameters c,
         sp_relay := csp_relay c,
         sp_reservation_parameters := csp_reservation_parameters c,
         sp_timer_parameters := csp_timer_parameters c,
         sp_valid_lifetime_parameters := csp_valid_lifetime_parameters c,
         sp_allocator := csp_allocator c,
         sp_authoritative := s4_authoritative s,
         sp_boot_file_name := s4_boot_file_name s,
         sp_interface := csp_interface c,
         sp_match_client_id := s4_match_client_id s,
         sp_next_server := s4_next_server s,
         sp_server_hostname := s4_server_hostname s,
         sp_store_extended_info := csp_store_extended_info c\<rparr>)"

definition subnet6_parameters :: "subnet6 \<Rightarrow> subnet_parameters" where
  "subnet6_parameters s =
     (let c = s6_common s in
      no_subnet_parameters
        \<lparr>sp_cache_parameters := csp_cache_parameters c,
         sp_client_class_parameters := csp_client_class_parameters c,
         sp_ddns_parameters := csp_ddns_parameters c,
         sp_hostname_char_parameters := csp_hostname_char_parameters c,
         sp_preferred_lifetime_parameters := s6_preferred_lifetime_parameters s,
         sp_relay := csp_relay c,
         sp_reservation_parameters := csp_reservation_parameters c,
         sp_timer_parameters := csp_timer_parameters c,
         sp_valid_lifetime_parameters := csp_valid_lifetime_parameters c,
         sp_allocator := csp_allocator c,
         sp_interface := csp_interface c,
         sp_interface_id := s6_interface_id s,
         sp_pd_allocator := s6_pd_allocator s,
         sp_rapid_commit := s6_rapid_commit s,
         sp_store_extended_info := csp_store_extended_info c\<rparr>)"

fun subnet_parameters_of :: "subnet \<Rightarrow> subnet_parameters" where
  "subnet_parameters_of (Subnet4 s) = subnet4_parameters s"
| "subnet_parameters_of (Subnet6 s) = subnet6_parameters s"

section \<open>Shared networks\<close>

record common_network_parameters =
  cnp_cache_parameters :: cache_parameters
  cnp_client_class_parameters :: client_class_parameters
  cnp_ddns_parameters :: ddns_parameters
  cnp_hostname_char_parameters :: hostname_char_parameters
  cnp_reservation_parameters :: reservation_parameters
  cnp_timer_parameters :: timer_parameters
  cnp_valid_lifetime_parameters :: lifetime_parameters
  cnp_allocator :: "string option"
  cnp_interface :: "string option"
  cnp_store_extended_info :: "bool option"
  cnp_option_data :: "single_option_data list"
  cnp_relay :: "string list option"

record network4 =
  n4_common :: common_network_parameters
  n4_authoritative :: "bool option"
  n4_boot_file_name :: "string option"
  n4_match_client_id :: "bool option"
  n4_name :: string
  n4_next_server :: "string option"
  n4_server_hostname :: "string option"
  n4_subnets :: "subnet4 list"

record network6 =
  n6_common :: common_network_parameters
  n6_preferred_lifetime_parameters :: lifetime_parameters
  n6_pd_allocator :: "string option"
  n6_interface_id :: "string option"
  n6_name :: string
  n6_rapid_commit :: "bool option"
  n6_subnets :: "subnet6 list"

datatype shared_network = Network4 network4 | Network6 network6

definition no_common_network :: common_network_parameters where
  "no_common_network =
     \<lparr>cnp_cache_parameters = no_cache, cnp_client_class_parameters = no_client_class, cnp_ddns_parameters = no_ddns,
      cnp_hostname_char_parameters = no_hostname_char, cnp_reservation_parameters = no_reservation_parameters,
      cnp_timer_parameters = no_timer, cnp_valid_lifetime_parameters = no_lifetime, cnp_allocator = None,
      cnp_interface = None, cnp_store_extended_info = None, cnp_option_data = [], cnp_relay = None\<rparr>"

definition empty_network4 :: network4 where
  "empty_network4 = \<lparr>n4_common = no_common_network, n4_authoritative = None, n4_boot_file_name = None,
     n4_match_client_id = None, n4_name = [], n4_next_server = None, n4_server_hostname = None, n4_subnets = []\<rparr>"

definition empty_network6 :: network6 where
  "empty_network6 = \<lparr>n6_common = no_common_network, n6_preferred_lifetime_parameters = no_lifetime,
     n6_pd_allocator = None, n6_interface_id = None, n6_name = [], n6_rapid_commit = None, n6_subnets = []\<rparr>"

fun network_name :: "shared_network \<Rightarrow> string" where
  "network_name (Network4 n) = n4_name n"
| "network_name (Network6 n) = n6_name n"

fun network_subnets :: "shared_network \<Rightarrow> subnet list" where
  "network_subnets (Network4 n) = map Subnet4 (n4_subnets n)"
| "network_subnets (Network6 n) = map Subnet6 (n6_subnets n)"

fun network_options :: "shared_network \<Rightarrow> single_option_data list" where
  "network_options (Network4 n) = cnp_option_data (n4_common n)"
| "network_options (Network6 n) = cnp_option_data (n6_common n)"

text \<open>
  The parameters of a shared network are the fields of \<open>subnet_parameters\<close> without the one for
  DHCPv4-over-DHCPv6, which stays empty here.
\<close>

definition network4_parameters :: "network4 \<Rightarrow> subnet_parameters" where
  "network4_parameters s =
     (let c = n4_common s in
      no_subnet_parameters
        \<lparr>sp_cache_parameters := cnp_cache_parameters c,
         sp_client_class_parameters := cnp_client_class_parameters c,
         sp_ddns_parameters := cnp_ddns_parameters c,
         sp_hostname_char_parameters := cnp_hostname_char_parameters c,
         sp_relay := cnp_relay c,
         sp_reservation_parameters := cnp_reservation_parameters c,
         sp_timer_parameters := cnp_timer_parameters c,
         sp_valid_lifetime_parameters := cnp_valid_lifetime_parameters c,
         sp_allocator := cnp_allocator c,
         sp_authoritative := n4_authoritative s,
         sp_boot_file_name := n4_boot_file_name s,
         sp_interface := cnp_interface c,
         sp_match_client_id := n4_match_client_id s,
         sp_next_server := n4_next_server s,
         sp_server_hostname := n4_server_hostname s,
         sp_store_extended_info := cnp_store_extended_info c\<rparr>)"

definition network6_parameters :: "network6 \<Rightarrow> subnet_parameters" where
  "network6_parameters s =
     (let c = n6_common s in
      no_subnet_parameters
        \<lparr>sp_cache_parameters := cnp_cache_parameters c,
         sp_client_class_parameters := cnp_client_class_parameters c,
         sp_ddns_parameters := cnp_ddns_parameters c,
         sp_hostname_char_parameters := cnp_hostname_char_parameters c,
         sp_preferred_lifetime_parameters := n6_preferred_lifetime_parameters s,
         sp_relay := cnp_relay c,
         sp_reservation_parameters := cnp_reservation_parameters c,
         sp_timer_parameters := cnp_timer_parameters c,
         sp_valid_lifetime_parameters := cnp_valid_lifetime_parameters c,
         sp_allocator := cnp_allocator c,
         sp_interface := cnp_interface c,
         sp_interface_id := n6_interface_id s,
         sp_pd_allocator := n6_pd_allocator s,
         sp_rapid_commit := n6_rapid_commit s,
         sp_store_extended_info := cnp_store_extended_info c\<rparr>)"

fun network_parameters_of :: "shared_network \<Rightarrow> subnet_parameters" where
  "network_parameters_of (Network4 n) = network4_parameters n"
| "network_parameters_of (Network6 n) = network6_parameters n"

section \<open>From Stork's data to the Kea configuration\<close>

text \<open>
  What the converters ask of a subnet, a shared network and their pools in the database: the
  results of the interfaces \<open>SubnetAccessor\<close>, \<open>AddressPool\<close>, \<open>PrefixPool\<close> and
  \<open>SharedNetworkAccessor\<close>.  A function takes the ID of the daemon.
\<close>

record address_pool =
  ap_lower_bound :: string
  ap_upper_bound :: string
  ap_options :: "dhcp_option list"
  ap_kea_parameters :: "pool_parameters option"

record prefix_pool_model =
  pm_prefix :: string
  pm_delegated_len :: int
  pm_excluded_prefix :: string

record prefix_pool =
  pfp_model :: prefix_pool_model
  pfp_options :: "dhcp_option list"
  pfp_kea_parameters :: "pool_parameters option"

record subnet_accessor =
  sa_id :: "int \<Rightarrow> int"
  sa_prefix :: string
  sa_user_context :: "int \<Rightarrow> raw_config"
  sa_address_pools :: "int \<Rightarrow> address_pool list"
  sa_prefix_pools :: "int \<Rightarrow> prefix_pool list"
  sa_kea_parameters :: "int \<Rightarrow> subnet_parameters option"
  sa_options :: "int \<Rightarrow> dhcp_option list"

record network_accessor =
  na_name :: string
  na_kea_parameters :: "int \<Rightarrow> subnet_parameters option"
  na_options :: "int \<Rightarrow> dhcp_option list"
  na_subnets :: "int \<Rightarrow> subnet_accessor list"

datatype create_error = OptionFailed option_error | InvalidPrefix string | InvalidExcludedPrefix string
  | NoSubnetId | NoIdentifiers

definition get_prefix :: "prefix_pool_model \<Rightarrow> create_error + string \<times> int" where
  "get_prefix p =
     (case parse_ip (pm_prefix p) of
        None \<Rightarrow> Inl (InvalidPrefix (pm_prefix p))
      | Some ip \<Rightarrow>
          if \<not> pip_prefix ip then Inl (InvalidPrefix (pm_prefix p))
          else Inr (pip_network_prefix ip, pip_prefix_length ip))"

definition get_excluded_prefix :: "prefix_pool_model \<Rightarrow> create_error + string \<times> int" where
  "get_excluded_prefix p =
     (if length (pm_excluded_prefix p) = 0 then Inr ([], 0)
      else (case parse_ip (pm_excluded_prefix p) of
              None \<Rightarrow> Inl (InvalidExcludedPrefix (pm_excluded_prefix p))
            | Some ip \<Rightarrow>
                if \<not> pip_prefix ip then Inl (InvalidExcludedPrefix (pm_excluded_prefix p))
                else Inr (pip_network_prefix ip, pip_prefix_length ip)))"

text \<open>\<open>fmt.Sprintf\<close> of the bounds of a pool.\<close>

definition range_text :: "string \<Rightarrow> string \<Rightarrow> string" where
  "range_text lb ub = lb @ ''-'' @ ub"

text \<open>The loops over the options, the pools and the subnets stop at the first error.\<close>

fun convert_all :: "('a \<Rightarrow> 'e + 'b) \<Rightarrow> 'a list \<Rightarrow> 'e + 'b list" where
  "convert_all f [] = Inr []"
| "convert_all f (x # xs) =
     (case f x of
        Inl e \<Rightarrow> Inl e
      | Inr y \<Rightarrow> (case convert_all f xs of Inl e \<Rightarrow> Inl e | Inr ys \<Rightarrow> Inr (y # ys)))"

lemma convert_all_Inr: "convert_all f xs = Inr ys \<longleftrightarrow> list_all2 (\<lambda>x y. f x = Inr y) xs ys"
proof (induction xs arbitrary: ys)
  case Nil
  then show ?case by auto
next
  case (Cons x xs)
  show ?case
  proof (cases "f x")
    case (Inl e)
    then show ?thesis by (cases ys) simp_all
  next
    case (Inr y)
    with Cons show ?thesis by (cases ys; cases "convert_all f xs") auto
  qed
qed

lemma convert_all_Inl: "convert_all f xs = Inl e \<Longrightarrow> \<exists>x \<in> set xs. f x = Inl e"
  by (induction xs) (auto split: sum.splits)

definition create_options ::
    "(int \<Rightarrow> dhcp_option \<Rightarrow> bool) \<Rightarrow> int \<Rightarrow> dhcp_option list \<Rightarrow> create_error + single_option_data list" where
  "create_options exists daemon_id =
     convert_all (\<lambda>o1. case create_single_option_data exists daemon_id o1 of
                         Inl e \<Rightarrow> Inl (OptionFailed e) | Inr d \<Rightarrow> Inr d)"

definition pool_class_parameters :: "pool_parameters option \<Rightarrow> client_class_parameters \<times> int option" where
  "pool_class_parameters params =
     (case params of
        None \<Rightarrow> (no_client_class, None)
      | Some p \<Rightarrow>
          (let c = pp_client_class_parameters p in
           (no_client_class
              \<lparr>ccp_client_class := (if ccp_client_class c \<noteq> None then ccp_client_class c else None),
               ccp_require_client_classes := ccp_require_client_classes c\<rparr>,
            pp_pool_id p)))"

definition create_pool ::
    "(int \<Rightarrow> dhcp_option \<Rightarrow> bool) \<Rightarrow> int \<Rightarrow> address_pool \<Rightarrow> create_error + pool" where
  "create_pool exists daemon_id p =
     (case create_options exists daemon_id (ap_options p) of
        Inl e \<Rightarrow> Inl e
      | Inr data \<Rightarrow>
          Inr \<lparr>pl_pool = range_text (ap_lower_bound p) (ap_upper_bound p),
               pl_pool_id = snd (pool_class_parameters (ap_kea_parameters p)),
               pl_option_data = data,
               pl_client_class_parameters = fst (pool_class_parameters (ap_kea_parameters p))\<rparr>)"

definition create_pd_pool ::
    "(int \<Rightarrow> dhcp_option \<Rightarrow> bool) \<Rightarrow> int \<Rightarrow> prefix_pool \<Rightarrow> create_error + pd_pool" where
  "create_pd_pool exists daemon_id p =
     (case get_prefix (pfp_model p) of
        Inl e \<Rightarrow> Inl e
      | Inr (pfx, len) \<Rightarrow>
          (case get_excluded_prefix (pfp_model p) of
             Inl e \<Rightarrow> Inl e
           | Inr (excluded, excluded_len) \<Rightarrow>
               (case create_options exists daemon_id (pfp_options p) of
                  Inl e \<Rightarrow> Inl e
                | Inr data \<Rightarrow>
                    Inr \<lparr>pd_prefix = pfx, pd_prefix_len = len,
                         pd_delegated_len = pm_delegated_len (pfp_model p),
                         pd_excluded_prefix = excluded, pd_excluded_prefix_len = excluded_len,
                         pd_pool_id = snd (pool_class_parameters (pfp_kea_parameters p)),
                         pd_option_data = data,
                         pd_client_class_parameters = fst (pool_class_parameters (pfp_kea_parameters p))\<rparr>)))"

text \<open>The parameters that \<open>CreateSubnet4\<close> and \<open>CreateSubnet6\<close> copy into the common group.\<close>

definition common_subnet_of :: "raw_config \<Rightarrow> pool list \<Rightarrow> subnet_parameters option \<Rightarrow> single_option_data list \<Rightarrow> common_subnet_parameters" where
  "common_subnet_of context pools params data =
     (let c = \<lparr>csp_cache_parameters = no_cache, csp_client_class_parameters = no_client_class,
               csp_ddns_parameters = no_ddns, csp_hostname_char_parameters = no_hostname_char,
               csp_reservation_parameters = no_reservation_parameters, csp_timer_parameters = no_timer,
               csp_valid_lifetime_parameters = no_lifetime, csp_allocator = None, csp_interface = None,
               csp_store_extended_info = None, csp_option_data = data, csp_pools = pools, csp_relay = None,
               csp_reservations = [], csp_user_context = context\<rparr>
      in case params of
           None \<Rightarrow> c
         | Some p \<Rightarrow>
             c\<lparr>csp_cache_parameters := sp_cache_parameters p,
               csp_client_class_parameters := sp_client_class_parameters p,
               csp_ddns_parameters := sp_ddns_parameters p,
               csp_hostname_char_parameters := sp_hostname_char_parameters p,
               csp_reservation_parameters := sp_reservation_parameters p,
               csp_timer_parameters := sp_timer_parameters p,
               csp_valid_lifetime_parameters := sp_valid_lifetime_parameters p,
               csp_allocator := sp_allocator p,
               csp_interface := sp_interface p,
               csp_store_extended_info := sp_store_extended_info p,
               csp_relay := sp_relay p\<rparr>)"

definition create_subnet4 ::
    "(int \<Rightarrow> dhcp_option \<Rightarrow> bool) \<Rightarrow> int \<Rightarrow> subnet_accessor \<Rightarrow> create_error + subnet4" where
  "create_subnet4 exists daemon_id s =
     (case convert_all (create_pool exists daemon_id) (sa_address_pools s daemon_id) of
        Inl e \<Rightarrow> Inl e
      | Inr pools \<Rightarrow>
          (case create_options exists daemon_id (sa_options s daemon_id) of
             Inl e \<Rightarrow> Inl e
           | Inr data \<Rightarrow>
               (let params = sa_kea_parameters s daemon_id;
                    p = (case params of None \<Rightarrow> no_subnet_parameters | Some p \<Rightarrow> p)
                in Inr \<lparr>s4_common = common_subnet_of (sa_user_context s daemon_id) pools params data,
                        s4_four_over_six_parameters = sp_four_over_six_parameters p,
                        s4_id = sa_id s daemon_id, s4_subnet = sa_prefix s,
                        s4_authoritative = sp_authoritative p, s4_boot_file_name = sp_boot_file_name p,
                        s4_match_client_id = sp_match_client_id p, s4_next_server = sp_next_server p,
                        s4_server_hostname = sp_server_hostname p\<rparr>)))"

definition create_subnet6 ::
    "(int \<Rightarrow> dhcp_option \<Rightarrow> bool) \<Rightarrow> int \<Rightarrow> subnet_accessor \<Rightarrow> create_error + subnet6" where
  "create_subnet6 exists daemon_id s =
     (case convert_all (create_pool exists daemon_id) (sa_address_pools s daemon_id) of
        Inl e \<Rightarrow> Inl e
      | Inr pools \<Rightarrow>
          (case convert_all (create_pd_pool exists daemon_id) (sa_prefix_pools s daemon_id) of
             Inl e \<Rightarrow> Inl e
           | Inr pd_pools \<Rightarrow>
               (case create_options exists daemon_id (sa_options s daemon_id) of
                  Inl e \<Rightarrow> Inl e
                | Inr data \<Rightarrow>
                    (let params = sa_kea_parameters s daemon_id;
                         p = (case params of None \<Rightarrow> no_subnet_parameters | Some p \<Rightarrow> p)
                     in Inr \<lparr>s6_common = common_subnet_of (sa_user_context s daemon_id) pools params data,
                             s6_id = sa_id s daemon_id, s6_subnet = sa_prefix s,
                             s6_preferred_lifetime_parameters = sp_preferred_lifetime_parameters p,
                             s6_pd_allocator = sp_pd_allocator p, s6_interface_id = sp_interface_id p,
                             s6_pd_pools = pd_pools, s6_rapid_commit = sp_rapid_commit p\<rparr>))))"

definition create_deleted_subnet :: "int \<Rightarrow> subnet_accessor \<Rightarrow> create_error + int" where
  "create_deleted_subnet daemon_id s =
     (if sa_id s daemon_id = 0 then Inl NoSubnetId else Inr (sa_id s daemon_id))"

definition common_network_of :: "subnet_parameters option \<Rightarrow> single_option_data list \<Rightarrow> common_network_parameters" where
  "common_network_of params data =
     (case params of
        None \<Rightarrow> no_common_network\<lparr>cnp_option_data := data\<rparr>
      | Some p \<Rightarrow>
          \<lparr>cnp_cache_parameters = sp_cache_parameters p,
           cnp_client_class_parameters = sp_client_class_parameters p,
           cnp_ddns_parameters = sp_ddns_parameters p,
           cnp_hostname_char_parameters = sp_hostname_char_parameters p,
           cnp_reservation_parameters = sp_reservation_parameters p,
           cnp_timer_parameters = sp_timer_parameters p,
           cnp_valid_lifetime_parameters = sp_valid_lifetime_parameters p,
           cnp_allocator = sp_allocator p,
           cnp_interface = sp_interface p,
           cnp_store_extended_info = sp_store_extended_info p,
           cnp_option_data = data,
           cnp_relay = sp_relay p\<rparr>)"

definition create_shared_network4 ::
    "(int \<Rightarrow> dhcp_option \<Rightarrow> bool) \<Rightarrow> int \<Rightarrow> network_accessor \<Rightarrow> create_error + network4" where
  "create_shared_network4 exists daemon_id n =
     (let params = na_kea_parameters n daemon_id;
          p = (case params of None \<Rightarrow> no_subnet_parameters | Some p \<Rightarrow> p)
      in case create_options exists daemon_id (na_options n daemon_id) of
           Inl e \<Rightarrow> Inl e
         | Inr data \<Rightarrow>
             (case convert_all (create_subnet4 exists daemon_id) (na_subnets n daemon_id) of
                Inl e \<Rightarrow> Inl e
              | Inr subnets \<Rightarrow>
                  Inr \<lparr>n4_common = common_network_of params data, n4_authoritative = sp_authoritative p,
                       n4_boot_file_name = sp_boot_file_name p, n4_match_client_id = sp_match_client_id p,
                       n4_name = na_name n, n4_next_server = sp_next_server p,
                       n4_server_hostname = sp_server_hostname p, n4_subnets = subnets\<rparr>))"

definition create_shared_network6 ::
    "(int \<Rightarrow> dhcp_option \<Rightarrow> bool) \<Rightarrow> int \<Rightarrow> network_accessor \<Rightarrow> create_error + network6" where
  "create_shared_network6 exists daemon_id n =
     (let params = na_kea_parameters n daemon_id;
          p = (case params of None \<Rightarrow> no_subnet_parameters | Some p \<Rightarrow> p)
      in case create_options exists daemon_id (na_options n daemon_id) of
           Inl e \<Rightarrow> Inl e
         | Inr data \<Rightarrow>
             (case convert_all (create_subnet6 exists daemon_id) (na_subnets n daemon_id) of
                Inl e \<Rightarrow> Inl e
              | Inr subnets \<Rightarrow>
                  Inr \<lparr>n6_common = common_network_of params data,
                       n6_preferred_lifetime_parameters = sp_preferred_lifetime_parameters p,
                       n6_pd_allocator = sp_pd_allocator p, n6_interface_id = sp_interface_id p,
                       n6_name = na_name n, n6_rapid_commit = sp_rapid_commit p, n6_subnets = subnets\<rparr>))"

section \<open>Host reservations\<close>

record host_accessor =
  hs_identifiers :: "(string \<times> 8 word list) list"
  hs_ip_reservations :: "string list"
  hs_hostname :: string
  hs_subnet_id :: "int \<Rightarrow> string + int"
  hs_client_classes :: "int \<Rightarrow> string list"
  hs_next_server :: "int \<Rightarrow> string"
  hs_server_hostname :: "int \<Rightarrow> string"
  hs_boot_file_name :: "int \<Rightarrow> string"
  hs_options :: "int \<Rightarrow> dhcp_option list"

definition set_identifier :: "string \<times> 8 word list \<Rightarrow> reservation \<Rightarrow> reservation" where
  "set_identifier i r =
     (let t = fst i; value = bytes_to_hex (snd i) in
      if t = ''hw-address'' then r\<lparr>rv_hw_address := value\<rparr>
      else if t = ''duid'' then r\<lparr>rv_duid := value\<rparr>
      else if t = ''circuit-id'' then r\<lparr>rv_circuit_id := value\<rparr>
      else if t = ''client-id'' then r\<lparr>rv_client_id := value\<rparr>
      else if t = ''flex-id'' then r\<lparr>rv_flex_id := value\<rparr>
      else r)"

definition add_ip_reservation :: "string \<Rightarrow> reservation \<Rightarrow> reservation" where
  "add_ip_reservation a r =
     (case parse_ip a of
        None \<Rightarrow> r
      | Some p \<Rightarrow>
          if pip_prefix p then r\<lparr>rv_prefixes := rv_prefixes r @ [pip_network_address p]\<rparr>
          else if pip_protocol p = IPv6 then r\<lparr>rv_ip_addresses := rv_ip_addresses r @ [pip_network_address p]\<rparr>
          else if length (rv_ip_address r) = 0 then r\<lparr>rv_ip_address := pip_network_address p\<rparr>
          else r)"

definition create_reservation ::
    "(int \<Rightarrow> dhcp_option \<Rightarrow> bool) \<Rightarrow> int \<Rightarrow> host_accessor \<Rightarrow> create_error + reservation" where
  "create_reservation exists daemon_id h =
     (let r = \<lparr>rv_hw_address = [], rv_duid = [], rv_circuit_id = [], rv_client_id = [], rv_flex_id = [],
               rv_ip_address = [], rv_ip_addresses = [], rv_prefixes = [], rv_hostname = hs_hostname h,
               rv_client_classes = hs_client_classes h daemon_id, rv_next_server = hs_next_server h daemon_id,
               rv_boot_file_name = hs_boot_file_name h daemon_id,
               rv_server_hostname = hs_server_hostname h daemon_id, rv_option_data = []\<rparr>;
          r = fold set_identifier (hs_identifiers h) r;
          r = fold add_ip_reservation (hs_ip_reservations h) r
      in case create_options exists daemon_id (hs_options h daemon_id) of
           Inl e \<Rightarrow> Inl e
         | Inr data \<Rightarrow> Inr (r\<lparr>rv_option_data := data\<rparr>))"

datatype host_error = HostError string | ReservationError create_error

definition create_host_cmds_reservation ::
    "(int \<Rightarrow> dhcp_option \<Rightarrow> bool) \<Rightarrow> int \<Rightarrow> host_accessor \<Rightarrow> host_error + reservation \<times> int" where
  "create_host_cmds_reservation exists daemon_id h =
     (case hs_subnet_id h daemon_id of
        Inl e \<Rightarrow> Inl (HostError e)
      | Inr sid \<Rightarrow>
          (case create_reservation exists daemon_id h of
             Inl e \<Rightarrow> Inl (ReservationError e)
           | Inr r \<Rightarrow> Inr (r, sid)))"

definition create_host_cmds_deleted_reservation ::
    "int \<Rightarrow> host_accessor \<Rightarrow> host_error + string \<times> string \<times> int" where
  "create_host_cmds_deleted_reservation daemon_id h =
     (case hs_subnet_id h daemon_id of
        Inl e \<Rightarrow> Inl (HostError e)
      | Inr sid \<Rightarrow>
          (case hs_identifiers h of
             [] \<Rightarrow> Inl (ReservationError NoIdentifiers)
           | i # ids \<Rightarrow> Inr (fst i, bytes_to_hex (snd i), sid)))"

text \<open>The reservation modes: whether the mode is on, and whether it is set explicitly.\<close>

definition is_global_mode :: "reservation_parameters \<Rightarrow> bool \<times> bool" where
  "is_global_mode m =
     (case rvp_reservations_global m of
        Some b \<Rightarrow> (b, True)
      | None \<Rightarrow> (case rvp_reservation_mode m of Some s \<Rightarrow> (s = ''global'', True) | None \<Rightarrow> (False, False)))"

definition is_in_subnet_mode :: "reservation_parameters \<Rightarrow> bool \<times> bool" where
  "is_in_subnet_mode m =
     (case rvp_reservations_in_subnet m of
        Some b \<Rightarrow> (b, True)
      | None \<Rightarrow>
          (case rvp_reservation_mode m of
             Some s \<Rightarrow> (s = ''all'' \<or> s = ''out-of-pool'', True)
           | None \<Rightarrow> (True, False)))"

definition is_out_of_pool_mode :: "reservation_parameters \<Rightarrow> bool \<times> bool" where
  "is_out_of_pool_mode m =
     (case rvp_reservations_out_of_pool m of
        Some b \<Rightarrow> (b, True)
      | None \<Rightarrow> (case rvp_reservation_mode m of Some s \<Rightarrow> (s = ''out-of-pool'', True) | None \<Rightarrow> (False, False)))"

fun is_in_any_reservation_modes :: "(reservation_parameters \<Rightarrow> bool \<times> bool) \<Rightarrow> reservation_parameters list \<Rightarrow> bool" where
  "is_in_any_reservation_modes condition [] = False"
| "is_in_any_reservation_modes condition (m # ms) =
     (let (cond, explicit) = condition m
      in if cond \<and> (explicit \<or> ms = []) then True else is_in_any_reservation_modes condition ms)"

section \<open>Hooks, databases and daemons\<close>

record database =
  db_path :: string
  db_type :: string
  db_name :: string
  db_host :: string

text \<open>What \<open>Database.UnmarshalJSON\<close> does after decoding.\<close>

definition database_defaults :: "database \<Rightarrow> database" where
  "database_defaults d =
     (if length (db_host d) = 0 \<and> length (db_path d) = 0 then d\<lparr>db_host := ''localhost''\<rparr> else d)"

text \<open>
  The parameters of a hook library are JSON text, which is decoded when the library is asked
  for; what the decoder gives for the text is a part of the model's data.
\<close>

record ha_multi_threading =
  hmt_enable_multi_threading :: "bool option"
  hmt_http_dedicated_listener :: "bool option"

record ha_peer =
  hp_name :: "string option"
  hp_url :: "string option"
  hp_role :: "string option"

record ha_relationship =
  hr_this_server_name :: "string option"
  hr_mode :: "string option"
  hr_peers :: "ha_peer list"
  hr_multi_threading :: "ha_multi_threading option"

text \<open>
  The parameters of a library as the decoders of \<open>hook.go\<close> read them: \<open>hl_ha\<close> and \<open>hl_legal_log\<close>
  are what the parameters give for the two libraries, \<open>None\<close> when they do not decode.
\<close>

record hook_library =
  hl_library :: string
  hl_has_parameters :: bool
  hl_ha :: "ha_relationship list option"
  hl_legal_log :: "database option"

definition strings_contains :: "string \<Rightarrow> string \<Rightarrow> bool" where
  "strings_contains s sub = sublist sub s"

fun get_hook_library :: "hook_library list \<Rightarrow> string \<Rightarrow> hook_library option" where
  "get_hook_library [] name = None"
| "get_hook_library (l # ls) name =
     (if strings_contains (hl_library l) name then Some l else get_hook_library ls name)"

definition get_ha_hook_library :: "hook_library list \<Rightarrow> ha_relationship list option" where
  "get_ha_hook_library ls =
     (case get_hook_library ls ''libdhcp_ha'' of
        None \<Rightarrow> None
      | Some l \<Rightarrow> if hl_has_parameters l then hl_ha l else Some [])"

definition get_legal_log_hook_library :: "hook_library list \<Rightarrow> database option" where
  "get_legal_log_hook_library ls =
     (case get_hook_library ls ''libdhcp_legal_log'' of
        None \<Rightarrow> None
      | Some l \<Rightarrow>
          if hl_has_parameters l then hl_legal_log l
          else Some \<lparr>db_path = [], db_type = [], db_name = [], db_host = []\<rparr>)"

text \<open>Since 2.3.7 both settings of the HA library are on by default, before they are off.\<close>

definition on_by_default :: "semver \<Rightarrow> semver \<Rightarrow> bool option \<Rightarrow> bool" where
  "on_by_default since version setting =
     (if greater_than_or_equal version since then setting = None \<or> setting = Some True
      else setting = Some True)"

definition ha_setting :: "(ha_multi_threading \<Rightarrow> bool option) \<Rightarrow> ha_relationship \<Rightarrow> bool option" where
  "ha_setting f r = (case hr_multi_threading r of None \<Rightarrow> None | Some m \<Rightarrow> f m)"

definition ha_is_multi_threading_enabled :: "semver \<Rightarrow> ha_relationship \<Rightarrow> bool" where
  "ha_is_multi_threading_enabled v r =
     on_by_default (new_semantic_version 2 3 7) v (ha_setting hmt_enable_multi_threading r)"

definition ha_is_dedicated_listener_enabled :: "semver \<Rightarrow> ha_relationship \<Rightarrow> bool" where
  "ha_is_dedicated_listener_enabled v r =
     on_by_default (new_semantic_version 2 3 7) v (ha_setting hmt_http_dedicated_listener r)"

definition peer_is_valid :: "ha_peer \<Rightarrow> bool" where
  "peer_is_valid p = (hp_name p \<noteq> None \<and> hp_url p \<noteq> None \<and> hp_role p \<noteq> None)"

definition ha_is_valid :: "ha_relationship \<Rightarrow> bool" where
  "ha_is_valid r =
     (list_all peer_is_valid (hr_peers r) \<and> hr_this_server_name r \<noteq> None \<and> hr_mode r \<noteq> None)"

section \<open>The configuration of a daemon\<close>

record logger =
  lg_name :: string
  lg_output_options :: "string list"
  lg_output_options_alias :: "string list"
  lg_severity :: string
  lg_debug_level :: int

definition get_all_output_options :: "logger \<Rightarrow> string list" where
  "get_all_output_options l = lg_output_options l @ lg_output_options_alias l"

record control_socket =
  cs_socket_name :: string
  cs_socket_type :: string

record control_sockets =
  css_d2 :: "control_socket option"
  css_dhcp4 :: "control_socket option"
  css_dhcp6 :: "control_socket option"
  css_netconf :: "control_socket option"

record authentication =
  au_type :: string
  au_realm :: string
  au_directory :: "string option"

record ctrl_agent_config =
  ca_control_sockets :: "control_sockets option"
  ca_http_host :: "string option"
  ca_http_port :: "int option"
  ca_trust_anchor :: "string option"
  ca_cert_file :: "string option"
  ca_key_file :: "string option"
  ca_cert_required :: "bool option"
  ca_hook_libraries :: "hook_library list"
  ca_loggers :: "logger list"
  ca_authentication :: "authentication option"

record d2_config =
  d2_hook_libraries :: "hook_library list"
  d2_loggers :: "logger list"

record config_control =
  ctl_config_databases :: "database list"
  ctl_config_fetch_wait_time :: int

record multi_threading =
  mth_enable_multi_threading :: "bool option"
  mth_thread_pool_size :: "int option"
  mth_packet_queue_size :: "int option"

record common_dhcp_config =
  cdc_cache_parameters :: cache_parameters
  cdc_ddns_parameters :: ddns_parameters
  cdc_hostname_char_parameters :: hostname_char_parameters
  cdc_reservation_parameters :: reservation_parameters
  cdc_timer_parameters :: timer_parameters
  cdc_valid_lifetime_parameters :: lifetime_parameters
  cdc_allocator :: "string option"
  cdc_client_classes :: "string list"
  cdc_config_control :: "config_control option"
  cdc_hosts_database :: "database option"
  cdc_hosts_databases :: "database list"
  cdc_hook_libraries :: "hook_library list"
  cdc_lease_database :: "database option"
  cdc_loggers :: "logger list"
  cdc_multi_threading :: "multi_threading option"
  cdc_option_data :: "single_option_data list"
  cdc_reservations :: "reservation list"
  cdc_store_extended_info :: "bool option"

record dhcp4_config =
  d4_common :: common_dhcp_config
  d4_authoritative :: "bool option"
  d4_boot_file_name :: "string option"
  d4_echo_client_id :: "bool option"
  d4_match_client_id :: "bool option"
  d4_next_server :: "string option"
  d4_server_hostname :: "string option"
  d4_shared_networks :: "network4 list"
  d4_subnet4 :: "subnet4 list"
  d4_subnet4_by_prefix :: "string \<rightharpoonup> subnet4"

record dhcp6_config =
  d6_common :: common_dhcp_config
  d6_preferred_lifetime_parameters :: lifetime_parameters
  d6_pd_allocator :: "string option"
  d6_rapid_commit :: "bool option"
  d6_shared_networks :: "network6 list"
  d6_subnet6 :: "subnet6 list"
  d6_subnet6_by_prefix :: "string \<rightharpoonup> subnet6"

record config =
  cf_ctrl_agent :: "ctrl_agent_config option"
  cf_d2 :: "d2_config option"
  cf_dhcp4 :: "dhcp4_config option"
  cf_dhcp6 :: "dhcp6_config option"
  cf_raw :: raw_config

text \<open>What \<open>UnmarshalJSON\<close> of the DHCP configurations does after decoding: the index of the subnets.\<close>

fun index_subnets :: "('a \<Rightarrow> string) \<Rightarrow> 'a list \<Rightarrow> (string \<rightharpoonup> 'a) \<Rightarrow> (string \<rightharpoonup> 'a)" where
  "index_subnets pfx [] m = m"
| "index_subnets pfx (s # ss) m =
     index_subnets pfx ss (case get_canonical_subnet_prefix (pfx s) of Some p \<Rightarrow> m(p \<mapsto> s) | None \<Rightarrow> m)"

definition index_dhcp4 :: "dhcp4_config \<Rightarrow> dhcp4_config" where
  "index_dhcp4 c =
     c\<lparr>d4_subnet4_by_prefix :=
         index_subnets s4_subnet (concat (map n4_subnets (d4_shared_networks c)))
           (index_subnets s4_subnet (d4_subnet4 c) Map.empty)\<rparr>"

definition index_dhcp6 :: "dhcp6_config \<Rightarrow> dhcp6_config" where
  "index_dhcp6 c =
     c\<lparr>d6_subnet6_by_prefix :=
         index_subnets s6_subnet (concat (map n6_subnets (d6_shared_networks c)))
           (index_subnets s6_subnet (d6_subnet6 c) Map.empty)\<rparr>"

definition dhcp4_shared_networks :: "dhcp4_config \<Rightarrow> bool \<Rightarrow> shared_network list" where
  "dhcp4_shared_networks c include_root =
     map Network4 (d4_shared_networks c) @
     (if include_root then [Network4 (empty_network4\<lparr>n4_subnets := d4_subnet4 c\<rparr>)] else [])"

definition dhcp6_shared_networks :: "dhcp6_config \<Rightarrow> bool \<Rightarrow> shared_network list" where
  "dhcp6_shared_networks c include_root =
     map Network6 (d6_shared_networks c) @
     (if include_root then [Network6 (empty_network6\<lparr>n6_subnets := d6_subnet6 c\<rparr>)] else [])"

definition dhcp4_subnet_by_prefix :: "dhcp4_config \<Rightarrow> string \<Rightarrow> subnet4 option" where
  "dhcp4_subnet_by_prefix c p =
     (case parse_ip p of None \<Rightarrow> None | Some cidr \<Rightarrow> d4_subnet4_by_prefix c (get_network_prefix_with_length cidr))"

definition dhcp6_subnet_by_prefix :: "dhcp6_config \<Rightarrow> string \<Rightarrow> subnet6 option" where
  "dhcp6_subnet_by_prefix c p =
     (case parse_ip p of None \<Rightarrow> None | Some cidr \<Rightarrow> d6_subnet6_by_prefix c (get_network_prefix_with_length cidr))"

text \<open>The accessors of \<open>Config\<close>: a DHCPv4 configuration is looked for before a DHCPv6 one.\<close>

definition get_common_dhcp_config :: "config \<Rightarrow> common_dhcp_config option" where
  "get_common_dhcp_config c =
     (case cf_dhcp4 c of
        Some d \<Rightarrow> Some (d4_common d)
      | None \<Rightarrow> (case cf_dhcp6 c of Some d \<Rightarrow> Some (d6_common d) | None \<Rightarrow> None))"

definition get_hook_libraries :: "config \<Rightarrow> hook_library list" where
  "get_hook_libraries c =
     (case cf_ctrl_agent c of
        Some ca \<Rightarrow> ca_hook_libraries ca
      | None \<Rightarrow>
          (case cf_d2 c of
             Some d \<Rightarrow> d2_hook_libraries d
           | None \<Rightarrow> (case get_common_dhcp_config c of Some d \<Rightarrow> cdc_hook_libraries d | None \<Rightarrow> [])))"

definition get_loggers :: "config \<Rightarrow> logger list" where
  "get_loggers c =
     (case cf_ctrl_agent c of
        Some ca \<Rightarrow> ca_loggers ca
      | None \<Rightarrow>
          (case cf_d2 c of
             Some d \<Rightarrow> d2_loggers d
           | None \<Rightarrow> (case get_common_dhcp_config c of Some d \<Rightarrow> cdc_loggers d | None \<Rightarrow> [])))"

definition has_hook_library :: "config \<Rightarrow> string \<Rightarrow> bool" where
  "has_hook_library c name = (get_hook_library (get_hook_libraries c) name \<noteq> None)"

definition config_is_multi_threading_enabled :: "config \<Rightarrow> semver \<Rightarrow> bool" where
  "config_is_multi_threading_enabled c v =
     on_by_default (new_semantic_version 2 3 5) v
       (case get_common_dhcp_config c of
          None \<Rightarrow> None
        | Some d \<Rightarrow> (case cdc_multi_threading d of None \<Rightarrow> None | Some m \<Rightarrow> mth_enable_multi_threading m))"

record databases =
  dbs_lease :: "database option"
  dbs_hosts :: "database list"
  dbs_config :: "database list"
  dbs_forensic :: "database option"

definition get_all_databases :: "config \<Rightarrow> databases" where
  "get_all_databases c =
     (case get_common_dhcp_config c of
        None \<Rightarrow> \<lparr>dbs_lease = None, dbs_hosts = [], dbs_config = [], dbs_forensic = None\<rparr>
      | Some d \<Rightarrow>
          \<lparr>dbs_lease = cdc_lease_database d,
           dbs_hosts = (case cdc_hosts_database d of Some h \<Rightarrow> [h] | None \<Rightarrow> cdc_hosts_databases d),
           dbs_config = (case cdc_config_control d of Some cc \<Rightarrow> ctl_config_databases cc | None \<Rightarrow> []),
           dbs_forensic = get_legal_log_hook_library (get_hook_libraries c)\<rparr>)"

definition get_global_reservation_parameters :: "config \<Rightarrow> reservation_parameters" where
  "get_global_reservation_parameters c =
     (case get_common_dhcp_config c of Some d \<Rightarrow> cdc_reservation_parameters d | None \<Rightarrow> no_reservation_parameters)"

definition get_shared_networks :: "config \<Rightarrow> bool \<Rightarrow> shared_network list" where
  "get_shared_networks c include_root =
     (case cf_dhcp4 c of
        Some d \<Rightarrow> dhcp4_shared_networks d include_root
      | None \<Rightarrow> (case cf_dhcp6 c of Some d \<Rightarrow> dhcp6_shared_networks d include_root | None \<Rightarrow> []))"

definition get_subnets :: "config \<Rightarrow> subnet list" where
  "get_subnets c =
     (case cf_dhcp4 c of
        Some d \<Rightarrow> map Subnet4 (d4_subnet4 d)
      | None \<Rightarrow> (case cf_dhcp6 c of Some d \<Rightarrow> map Subnet6 (d6_subnet6 d) | None \<Rightarrow> []))"

definition get_subnet_by_prefix :: "config \<Rightarrow> string \<Rightarrow> subnet option" where
  "get_subnet_by_prefix c p =
     (case cf_dhcp4 c of
        Some d \<Rightarrow> map_option Subnet4 (dhcp4_subnet_by_prefix d p)
      | None \<Rightarrow>
          (case cf_dhcp6 c of Some d \<Rightarrow> map_option Subnet6 (dhcp6_subnet_by_prefix d p) | None \<Rightarrow> None))"

section \<open>The Control Agent\<close>

definition is_basic_auth :: "authentication \<Rightarrow> bool" where
  "is_basic_auth a = (au_type a = ''basic'')"

definition get_configured_daemon_names :: "control_sockets option \<Rightarrow> string list" where
  "get_configured_daemon_names cs =
     (case cs of
        None \<Rightarrow> []
      | Some s \<Rightarrow>
          (if css_d2 s \<noteq> None then [''d2''] else []) @
          (if css_dhcp4 s \<noteq> None then [''dhcp4''] else []) @
          (if css_dhcp6 s \<noteq> None then [''dhcp6''] else []) @
          (if css_netconf s \<noteq> None then [''netconf''] else []))"

definition has_any_configured_daemon :: "control_sockets option \<Rightarrow> bool" where
  "has_any_configured_daemon cs =
     (case cs of
        None \<Rightarrow> False
      | Some s \<Rightarrow> css_d2 s \<noteq> None \<or> css_dhcp4 s \<noteq> None \<or> css_dhcp6 s \<noteq> None \<or> css_netconf s \<noteq> None)"

definition get_http_host :: "config \<Rightarrow> string \<times> bool" where
  "get_http_host c =
     (case cf_ctrl_agent c of
        None \<Rightarrow> (''127.0.0.1'', False)
      | Some ca \<Rightarrow>
          (case ca_http_host ca of
             None \<Rightarrow> (''127.0.0.1'', False)
           | Some a \<Rightarrow>
               (if a = ''0.0.0.0'' \<or> a = [] then ''127.0.0.1'' else if a = ''::'' then ''::1'' else a, True)))"

definition get_http_port :: "config \<Rightarrow> int \<times> bool" where
  "get_http_port c =
     (case cf_ctrl_agent c of
        None \<Rightarrow> (0, False)
      | Some ca \<Rightarrow> (case ca_http_port ca of None \<Rightarrow> (0, False) | Some p \<Rightarrow> (p, True)))"

definition get_trust_anchor :: "config \<Rightarrow> string \<times> bool" where
  "get_trust_anchor c =
     (case cf_ctrl_agent c of
        None \<Rightarrow> ([], False)
      | Some ca \<Rightarrow> (case ca_trust_anchor ca of None \<Rightarrow> ([], False) | Some p \<Rightarrow> (p, True)))"

text \<open>
  These three test the pointer only for a Control Agent; for another daemon they follow the nil
  pointer to the Control Agent's configuration.
\<close>

definition get_cert_file :: "config \<Rightarrow> (string \<times> bool) run" where
  "get_cert_file c =
     (case cf_ctrl_agent c of
        None \<Rightarrow> Panic
      | Some ca \<Rightarrow> (case ca_cert_file ca of None \<Rightarrow> Done ([], False) | Some p \<Rightarrow> Done (p, True)))"

definition get_key_file :: "config \<Rightarrow> (string \<times> bool) run" where
  "get_key_file c =
     (case cf_ctrl_agent c of
        None \<Rightarrow> Panic
      | Some ca \<Rightarrow> (case ca_key_file ca of None \<Rightarrow> Done ([], False) | Some p \<Rightarrow> Done (p, True)))"

definition get_cert_required :: "config \<Rightarrow> (bool \<times> bool) run" where
  "get_cert_required c =
     (case cf_ctrl_agent c of
        None \<Rightarrow> Panic
      | Some ca \<Rightarrow> (case ca_cert_required ca of None \<Rightarrow> Done (False, False) | Some p \<Rightarrow> Done (p, True)))"

definition use_secure_protocol :: "config \<Rightarrow> bool run" where
  "use_secure_protocol c =
     bind_run (get_cert_file c) (\<lambda>(cert, _).
       bind_run (get_key_file c) (\<lambda>(key, _).
         Done (length (fst (get_trust_anchor c)) \<noteq> 0 \<and> length cert \<noteq> 0 \<and> length key \<noteq> 0)))"

definition get_basic_authentication_details :: "config \<Rightarrow> authentication option" where
  "get_basic_authentication_details c =
     (case cf_ctrl_agent c of
        None \<Rightarrow> None
      | Some ca \<Rightarrow>
          (case ca_authentication ca of None \<Rightarrow> None | Some a \<Rightarrow> if is_basic_auth a then Some a else None))"

section \<open>Reading a pool\<close>

text \<open>\<open>unicode.IsSpace\<close> of a byte taken for a rune.\<close>

definition is_space_byte :: "char \<Rightarrow> bool" where
  "is_space_byte c = ((of_char c :: nat) \<in> {9, 10, 11, 12, 13, 32, 0x85, 0xA0})"

text \<open>
  What \<open>Pool.UnmarshalJSON\<close> does after decoding: the white space of a range is removed, a prefix
  becomes a range.
\<close>

definition normalise_pool ::
    "(ipnet \<Rightarrow> 8 word list \<times> 8 word list) \<Rightarrow> pool \<Rightarrow> range_error + pool" where
  "normalise_pool address_range p =
     (if CHR ''-'' \<in> set (pl_pool p)
      then Inr (p\<lparr>pl_pool := filter (\<lambda>c. \<not> is_space_byte c) (pl_pool p)\<rparr>)
      else (case parse_ip_range address_range (pl_pool p) of
              Inl e \<Rightarrow> Inl (BadPrefix (pl_pool p))
            | Inr (lb, ub) \<Rightarrow> Inr (p\<lparr>pl_pool := range_text (ip_string lb) (ip_string ub)\<rparr>)))"

definition get_boundaries ::
    "(ipnet \<Rightarrow> 8 word list \<times> 8 word list) \<Rightarrow> pool \<Rightarrow> range_error + 8 word list \<times> 8 word list" where
  "get_boundaries address_range p = parse_ip_range address_range (pl_pool p)"

definition pool_parameters_of :: "pool \<Rightarrow> pool_parameters" where
  "pool_parameters_of p = \<lparr>pp_client_class_parameters = pl_client_class_parameters p, pp_pool_id = pl_pool_id p\<rparr>"

definition pd_pool_parameters_of :: "pd_pool \<Rightarrow> pool_parameters" where
  "pd_pool_parameters_of p = \<lparr>pp_client_class_parameters = pd_client_class_parameters p, pp_pool_id = pd_pool_id p\<rparr>"

definition get_canonical_prefix_text :: "pd_pool \<Rightarrow> string" where
  "get_canonical_prefix_text p =
     (if pd_prefix p \<noteq> [] \<and> pd_prefix_len p \<noteq> 0 then format_cidr_notation (pd_prefix p) (pd_prefix_len p) else [])"

definition get_canonical_excluded_prefix :: "pd_pool \<Rightarrow> string" where
  "get_canonical_excluded_prefix p =
     (if pd_excluded_prefix p \<noteq> [] \<and> pd_excluded_prefix_len p \<noteq> 0
      then format_cidr_notation (pd_excluded_prefix p) (pd_excluded_prefix_len p) else [])"

end
