(* ===== verification/Kea_Config_Correct.thy ===== *)
theory Kea_Config_Correct
  imports Kea_Config
begin

text \<open>
  What the typed Kea configuration promises: pools keep their bounds when they are read,
  subnets are found by any spelling of their prefix, parameters and pools survive the way from
  Stork's data to the configuration, and how the reservation modes are inherited.
\<close>

section \<open>Reading pools\<close>

lemma strings_split_filter:
  "P c \<Longrightarrow> strings_split c (filter P s) = map (filter P) (strings_split c s)"
proof (induction s)
  case (Cons x s)
  then show ?case
    by (cases "strings_split c s") (auto split: list.splits)
qed simp

definition ascii :: "string \<Rightarrow> bool" where
  "ascii s = (\<forall>c \<in> set s. (of_char c :: nat) < 128)"

lemma ascii_append [simp]: "ascii (a @ b) \<longleftrightarrow> ascii a \<and> ascii b"
  by (auto simp: ascii_def)

lemma ascii_rev [simp]: "ascii (rev s) = ascii s"
  by (simp add: ascii_def)

lemma ascii_space_codes:
  "\<forall>w \<in> set space_codes. ascii w \<longrightarrow> filter (\<lambda>c. \<not> is_space_byte c) w = []"
  unfolding space_codes_eq by (simp add: ascii_def is_space_byte_def)

lemma strip_first_filter:
  assumes "\<forall>w \<in> set ws. ascii w \<longrightarrow> filter (\<lambda>c. \<not> is_space_byte c) w = []" and "ascii s"
  shows "strip_first ws s = Some t \<Longrightarrow> ascii t \<and> filter (\<lambda>c. \<not> is_space_byte c) t = filter (\<lambda>c. \<not> is_space_byte c) s"
  using assms(1)
proof (induction ws)
  case (Cons w ws)
  show ?case
  proof (cases "take (length w) s = w")
    case True
    then have s: "s = w @ t" using Cons.prems(1) by (metis append_take_drop_id option.inject strip_first.simps(2))
    then have "ascii w" "ascii t" using assms(2) by simp_all
    with Cons.prems(2) s show ?thesis by simp
  qed (use Cons in auto)
qed simp

lemma trim_left_n_filter:
  assumes "\<forall>w \<in> set ws. ascii w \<longrightarrow> filter (\<lambda>c. \<not> is_space_byte c) w = []"
  shows "ascii s \<Longrightarrow> ascii (trim_left_n n ws s) \<and>
    filter (\<lambda>c. \<not> is_space_byte c) (trim_left_n n ws s) = filter (\<lambda>c. \<not> is_space_byte c) s"
proof (induction n arbitrary: s)
  case (Suc n)
  then show ?case using strip_first_filter [OF assms, of s] by (auto split: option.split)
qed simp

lemma filter_trim_space:
  assumes "ascii s"
  shows "filter (\<lambda>c. \<not> is_space_byte c) (trim_space s) = filter (\<lambda>c. \<not> is_space_byte c) s"
proof -
  let ?l = "trim_left_n (length s) space_codes s"
  have l: "ascii ?l \<and> filter (\<lambda>c. \<not> is_space_byte c) ?l = filter (\<lambda>c. \<not> is_space_byte c) s"
    by (rule trim_left_n_filter [OF ascii_space_codes assms])
  have codes: "\<forall>w \<in> set (map rev space_codes). ascii w \<longrightarrow> filter (\<lambda>c. \<not> is_space_byte c) w = []"
    using ascii_space_codes by (auto simp flip: rev_filter)
  have "filter (\<lambda>c. \<not> is_space_byte c) (trim_left_n (length ?l) (map rev space_codes) (rev ?l)) =
      filter (\<lambda>c. \<not> is_space_byte c) (rev ?l)"
    using trim_left_n_filter [OF codes, of "rev ?l"] l by simp
  then show ?thesis using l by (simp add: trim_space_def Let_def flip: rev_filter)
qed

lemma space_byte_foreign: "is_space_byte c \<Longrightarrow> foreign_char c"
  by (auto simp: is_space_byte_def foreign_char_def hex_digit_def Let_def split: if_splits)

lemma address_no_space: "net_parse_ip s = Some ip \<Longrightarrow> filter (\<lambda>c. \<not> is_space_byte c) s = s"
  using parse_addr_foreign [OF space_byte_foreign] by (auto simp: net_parse_ip_def filter_id_conv)

lemma squeezed_address:
  assumes "ascii s" and "net_parse_ip (trim_space s) = Some ip"
  shows "filter (\<lambda>c. \<not> is_space_byte c) s = trim_space s"
  using filter_trim_space [OF assms(1)] address_no_space [OF assms(2)] by simp

lemma ascii_pieces: "ascii s \<Longrightarrow> p \<in> set (strings_split c s) \<Longrightarrow> ascii p"
proof -
  have "set p \<subseteq> set s" if "p \<in> set (strings_split c s)" for p
    using that by (induction s arbitrary: p) (fastforce split: if_splits list.splits)+
  then show "ascii s \<Longrightarrow> p \<in> set (strings_split c s) \<Longrightarrow> ascii p" by (auto simp: ascii_def)
qed

lemma range_pieces:
  assumes "CHR ''-'' \<in> set r"
  shows "strings_split CHR ''-'' r \<noteq> [x]"
proof
  assume "strings_split CHR ''-'' r = [x]"
  then have "r = x" "CHR ''-'' \<notin> set x"
    using strings_join_split [of "CHR ''-''" r] strings_split_pieces [of x "CHR ''-''" r] by auto
  with assms show False by simp
qed

lemma parse_ip_range_two:
  assumes "parse_ip_range ar r = Inr (lb, ub)" and "CHR ''-'' \<in> set r"
  shows "\<exists>a b. strings_split CHR ''-'' r = [a, b] \<and> net_parse_ip (trim_space a) = Some lb \<and>
    net_parse_ip (trim_space b) = Some ub \<and> (to4 lb \<noteq> None) = (to4 ub \<noteq> None)"
proof -
  have "\<exists>a b. strings_split CHR ''-'' r = [a, b]"
    using assms range_pieces [OF assms(2)]
    by (cases "strings_split CHR ''-'' r" rule: remdups_adj.cases)
      (auto simp: parse_ip_range_def Let_def split: list.splits)
  with assms(1) show ?thesis
    by (auto simp: parse_ip_range_def Let_def split: option.splits if_splits)
qed

lemma parse_range_text:
  assumes "a = trim_space a" "b = trim_space b" "CHR ''-'' \<notin> set a" "CHR ''-'' \<notin> set b"
    and "net_parse_ip a = Some x" "net_parse_ip b = Some y" "(to4 x \<noteq> None) = (to4 y \<noteq> None)"
  shows "parse_ip_range ar (a @ CHR ''-'' # b) = Inr (x, y)"
proof -
  have "map trim_space (strings_split CHR ''-'' (a @ CHR ''-'' # b)) = [a, b]"
    using assms(1-4) by (simp add: strings_split_app)
  then show ?thesis using assms(5-7) by (auto simp: parse_ip_range_def)
qed

lemma ip_string_plain:
  assumes "length ip = 4 \<or> length ip = 16"
  shows "CHR ''-'' \<notin> set (ip_string ip)" "filter (\<lambda>c. \<not> is_space_byte c) (ip_string ip) = ip_string ip"
    "trim_space (ip_string ip) = ip_string ip" "net_parse_ip (ip_string ip) = to16 ip"
proof -
  have "\<not> addr_char CHR ''-''" by code_simp
  then show "CHR ''-'' \<notin> set (ip_string ip)" using ip_string_chars [OF assms] by auto
  show "net_parse_ip (ip_string ip) = to16 ip" by (rule ip_string_roundtrip [OF assms])
  moreover have "to16 ip \<noteq> None" using assms by (auto simp: to16_def)
  ultimately show f: "filter (\<lambda>c. \<not> is_space_byte c) (ip_string ip) = ip_string ip"
    using address_no_space [of "ip_string ip" "the (to16 ip)"] by simp
  show "trim_space (ip_string ip) = ip_string ip"
    by (rule trim_ends) (use ip_string_chars [OF assms] addr_char_graphic ip_string_not_Nil [OF assms] in auto)
qed

lemma to4_to16: "length ip = 4 \<or> length ip = 16 \<Longrightarrow> to4 (the (to16 ip)) = to4 ip"
  by (auto simp: to16_def to4_def v4_in_v6_prefix_def)

text \<open>
  Reading a pool keeps its bounds: whatever address range the text of the pool stands for,
  the text that is stored stands for the same one, is written as a range without white space,
  and is not changed by reading it again.  For a prefix the range is the one that the address
  library computes, with bounds of the same family.
\<close>

theorem pool_bounds_kept:
  assumes "get_boundaries address_range p = Inr (lb, ub)" and "ascii (pl_pool p)"
    and "CHR ''-'' \<notin> set (pl_pool p) \<Longrightarrow> {length lb, length ub} \<subseteq> {4, 16} \<and> (to4 lb \<noteq> None) = (to4 ub \<noteq> None)"
  shows "\<exists>q. normalise_pool address_range p = Inr q \<and> normalise_pool address_range q = Inr q \<and>
    CHR ''-'' \<in> set (pl_pool q) \<and> \<not> (\<exists>c \<in> set (pl_pool q). is_space_byte c) \<and>
    get_boundaries address_range q = Inr (the (to16 lb), the (to16 ub))"
proof (cases "CHR ''-'' \<in> set (pl_pool p)")
  case True
  let ?P = "\<lambda>c. \<not> is_space_byte c"
  obtain a b where ab: "strings_split CHR ''-'' (pl_pool p) = [a, b]" "net_parse_ip (trim_space a) = Some lb"
    "net_parse_ip (trim_space b) = Some ub" "(to4 lb \<noteq> None) = (to4 ub \<noteq> None)"
    using parse_ip_range_two [OF assms(1) [unfolded get_boundaries_def] True] by blast
  have asc: "ascii a" "ascii b" using ascii_pieces [OF assms(2), of _ "CHR ''-''"] ab(1) by simp_all
  note sq = squeezed_address [OF asc(1) ab(2)] squeezed_address [OF asc(2) ab(3)]
  have dash: "?P CHR ''-''" by (simp add: is_space_byte_def)
  define q where "q = p\<lparr>pl_pool := filter ?P (pl_pool p)\<rparr>"
  have "filter ?P (pl_pool p) = strings_join ''-'' (strings_split CHR ''-'' (filter ?P (pl_pool p)))"
    by (simp add: strings_join_split)
  then have q: "pl_pool q = trim_space a @ CHR ''-'' # trim_space b"
    by (simp add: strings_split_filter [of ?P, OF dash] ab sq q_def)
  have no: "CHR ''-'' \<notin> set (trim_space a)" "CHR ''-'' \<notin> set (trim_space b)"
    using trim_chars strings_split_pieces [of _ "CHR ''-''" "pl_pool p"] ab(1) by fastforce+
  have "parse_ip_range address_range (pl_pool q) = Inr (lb, ub)"
    unfolding q by (rule parse_range_text) (use no ab(2-4) in simp_all)
  moreover have "to16 lb = Some lb" "to16 ub = Some ub"
    using ab net_parse_ip_length by (simp_all add: to16_def)
  moreover have "normalise_pool address_range p = Inr q" using True by (simp add: normalise_pool_def q_def)
  moreover have "filter ?P (pl_pool q) = pl_pool q" by (simp add: q_def)
  then have n: "normalise_pool address_range q = Inr q" using q by (simp add: normalise_pool_def)
  have "\<not> (\<exists>c \<in> set (pl_pool q). is_space_byte c)" by (simp add: q_def)
  moreover have "CHR ''-'' \<in> set (pl_pool q)" using q by simp
  ultimately show ?thesis using n unfolding get_boundaries_def by (intro exI [of _ q]) (simp del: bex_simps)
next
  case False
  from assms(3) [OF False] have l: "length lb = 4 \<or> length lb = 16" "length ub = 4 \<or> length ub = 16"
    and fam: "(to4 lb \<noteq> None) = (to4 ub \<noteq> None)" by auto
  note lbs = ip_string_plain [OF l(1)] and ubs = ip_string_plain [OF l(2)]
  define q where "q = p\<lparr>pl_pool := ip_string lb @ CHR ''-'' # ip_string ub\<rparr>"
  have t: "to16 lb = Some (the (to16 lb))" "to16 ub = Some (the (to16 ub))" using l by (auto simp: to16_def)
  have f: "(to4 (the (to16 lb)) \<noteq> None) = (to4 (the (to16 ub)) \<noteq> None)"
    using to4_to16 [OF l(1)] to4_to16 [OF l(2)] fam by simp
  have "parse_ip_range address_range (pl_pool q) = Inr (the (to16 lb), the (to16 ub))"
    unfolding q_def by (simp, rule parse_range_text) (use lbs ubs t f in simp_all)
  moreover have "normalise_pool address_range p = Inr q"
    using assms(1) False by (simp add: normalise_pool_def q_def get_boundaries_def range_text_def)
  moreover have "filter (\<lambda>c. \<not> is_space_byte c) (pl_pool q) = pl_pool q"
    using lbs(2) ubs(2) by (simp add: q_def is_space_byte_def)
  moreover from this have "normalise_pool address_range q = Inr q" by (simp add: normalise_pool_def q_def)
  moreover have "\<not> (\<exists>c \<in> set (pl_pool q). is_space_byte c)" using calculation(3) unfolding filter_id_conv by blast
  moreover have "CHR ''-'' \<in> set (pl_pool q)" by (simp add: q_def)
  ultimately show ?thesis unfolding get_boundaries_def by (intro exI [of _ q]) (simp del: bex_simps)
qed

text \<open>A pool given as a prefix, with the range of its network.\<close>

definition network_range :: "ipnet \<Rightarrow> 8 word list \<times> 8 word list" where
  "network_range n = (net_ip n, map2 (OR) (net_ip n) (map (NOT) (net_mask n)))"

definition plain_pool :: "string \<Rightarrow> pool" where
  "plain_pool s = \<lparr>pl_pool = s, pl_pool_id = None, pl_option_data = [], pl_client_class_parameters = no_client_class\<rparr>"

lemma pool_bounds_kept_witness:
  "\<exists>q. normalise_pool network_range (plain_pool ''192.0.2.0/24'') = Inr q \<and>
     get_boundaries network_range q = Inr (v4_in_v6_prefix @ [192, 0, 2, 0], v4_in_v6_prefix @ [192, 0, 2, 255])"
proof -
  have t: "trim_space ''192.0.2.0/24'' = ''192.0.2.0/24''" by (simp add: trim_space_eval)
  have c: "net_parse_cidr ''192.0.2.0/24'' = Some (v4_in_v6_prefix @ [192, 0, 2, 0], \<lparr>net_ip = [192, 0, 2, 0], net_mask = [255, 255, 255, 0]\<rparr>)"
    by code_simp
  have "network_range \<lparr>net_ip = [192, 0, 2, 0], net_mask = [255, 255, 255, 0]\<rparr> = ([192, 0, 2, 0], [192, 0, 2, 255])"
    unfolding network_range_def by code_simp
  then have g: "get_boundaries network_range (plain_pool ''192.0.2.0/24'') = Inr ([192, 0, 2, 0], [192, 0, 2, 255])"
    by (simp add: get_boundaries_def plain_pool_def parse_ip_range_def t c)
  have "ascii (pl_pool (plain_pool ''192.0.2.0/24''))" by code_simp
  from pool_bounds_kept [OF g this] show ?thesis by (auto simp: to4_def to16_def)
qed

section \<open>Finding subnets\<close>

lemma index_subnets_find:
  "index_subnets pfx ss m k =
     (case find (\<lambda>s. get_canonical_subnet_prefix (pfx s) = Some k) (rev ss) of Some s \<Rightarrow> Some s | None \<Rightarrow> m k)"
proof (induction ss arbitrary: m)
  case (Cons s ss)
  have app: "find P (xs @ [x]) = (case find P xs of Some y \<Rightarrow> Some y | None \<Rightarrow> if P x then Some x else None)" for P xs and x :: 'a
    by (induction xs) auto
  show ?case
    by (cases "get_canonical_subnet_prefix (pfx s)") (auto simp: Cons app split: option.split)
qed simp

lemma find_map_inj: "(\<And>x. Q (f x) = P x) \<Longrightarrow> find Q (map f xs) = map_option f (find P xs)"
  by (induction xs) auto

text \<open>All subnets of a configuration, the ones of the shared networks last.\<close>

definition all_subnets :: "config \<Rightarrow> subnet list" where
  "all_subnets c = get_subnets c @ concat (map network_subnets (get_shared_networks c False))"

definition indexed :: "config \<Rightarrow> bool" where
  "indexed c = ((\<forall>d. cf_dhcp4 c = Some d \<longrightarrow> index_dhcp4 d = d) \<and> (\<forall>d. cf_dhcp6 c = Some d \<longrightarrow> index_dhcp6 d = d))"

lemma index_dhcp4_idem: "index_dhcp4 (index_dhcp4 d) = index_dhcp4 d"
  by (simp add: index_dhcp4_def)

lemma index_two: "index_subnets pfx ys (index_subnets pfx xs m) = index_subnets pfx (xs @ ys) m"
  by (induction xs arbitrary: m) simp_all

lemma dhcp4_by_prefix:
  assumes "index_dhcp4 d = d"
  shows "d4_subnet4_by_prefix d k =
    find (\<lambda>s. get_canonical_subnet_prefix (s4_subnet s) = Some k) (rev (d4_subnet4 d @ concat (map n4_subnets (d4_shared_networks d))))"
proof -
  have "d4_subnet4_by_prefix d = d4_subnet4_by_prefix (index_dhcp4 d)" using assms by simp
  also have "\<dots> = index_subnets s4_subnet (d4_subnet4 d @ concat (map n4_subnets (d4_shared_networks d))) Map.empty"
    by (simp add: index_dhcp4_def index_two)
  finally show ?thesis by (simp add: index_subnets_find split: option.split)
qed

lemma dhcp6_by_prefix:
  assumes "index_dhcp6 d = d"
  shows "d6_subnet6_by_prefix d k =
    find (\<lambda>s. get_canonical_subnet_prefix (s6_subnet s) = Some k) (rev (d6_subnet6 d @ concat (map n6_subnets (d6_shared_networks d))))"
proof -
  have "d6_subnet6_by_prefix d = d6_subnet6_by_prefix (index_dhcp6 d)" using assms by simp
  also have "\<dots> = index_subnets s6_subnet (d6_subnet6 d @ concat (map n6_subnets (d6_shared_networks d))) Map.empty"
    by (simp add: index_dhcp6_def index_two)
  finally show ?thesis by (simp add: index_subnets_find split: option.split)
qed

lemma all_subnets_4: "cf_dhcp4 c = Some d \<Longrightarrow>
    all_subnets c = map Subnet4 (d4_subnet4 d @ concat (map n4_subnets (d4_shared_networks d)))"
  by (simp add: all_subnets_def get_subnets_def get_shared_networks_def dhcp4_shared_networks_def map_concat o_def)

lemma all_subnets_6: "cf_dhcp4 c = None \<Longrightarrow> cf_dhcp6 c = Some d \<Longrightarrow>
    all_subnets c = map Subnet6 (d6_subnet6 d @ concat (map n6_subnets (d6_shared_networks d)))"
  by (simp add: all_subnets_def get_subnets_def get_shared_networks_def dhcp6_shared_networks_def map_concat o_def)

text \<open>
  A subnet is found by any text that denotes the prefix of its network, whether it stands at
  the top or in a shared network, and nothing else is found; of several subnets with the same
  network the last one is taken, those of the shared networks after the others.
\<close>

theorem subnet_found_by_prefix:
  assumes "indexed c"
  shows "get_subnet_by_prefix c p =
    (case parse_ip p of
       None \<Rightarrow> None
     | Some cidr \<Rightarrow>
         find (\<lambda>s. get_canonical_subnet_prefix (subnet_prefix s) = Some (get_network_prefix_with_length cidr))
           (rev (all_subnets c)))"
proof (cases "cf_dhcp4 c")
  case (Some d)
  with assms have d: "index_dhcp4 d = d" by (simp add: indexed_def)
  show ?thesis
    by (simp add: get_subnet_by_prefix_def Some dhcp4_subnet_by_prefix_def dhcp4_by_prefix [OF d] all_subnets_4 [OF Some]
        rev_map find_map_inj [where f = Subnet4 and P = "\<lambda>s. get_canonical_subnet_prefix (s4_subnet s) = Some k" for k]
        flip: map_append split: option.split)
next
  case v6: None
  show ?thesis
  proof (cases "cf_dhcp6 c")
    case (Some d)
    with assms have d: "index_dhcp6 d = d" by (simp add: indexed_def)
    show ?thesis
      by (simp add: get_subnet_by_prefix_def v6 Some dhcp6_subnet_by_prefix_def dhcp6_by_prefix [OF d] all_subnets_6 [OF v6 Some]
          rev_map find_map_inj [where f = Subnet6 and P = "\<lambda>s. get_canonical_subnet_prefix (s6_subnet s) = Some k" for k]
          flip: map_append split: option.split)
  next
    case None
    with v6 show ?thesis
      by (simp add: get_subnet_by_prefix_def all_subnets_def get_subnets_def get_shared_networks_def split: option.split)
  qed
qed

text \<open>Small configurations, for the examples.\<close>

definition plain_common :: "pool list \<Rightarrow> reservation list \<Rightarrow> reservation_parameters \<Rightarrow> common_subnet_parameters" where
  "plain_common pools reservations modes =
     (common_subnet_of [] pools None [])\<lparr>csp_reservations := reservations, csp_reservation_parameters := modes\<rparr>"

definition plain_subnet4 :: "int \<Rightarrow> string \<Rightarrow> pool list \<Rightarrow> reservation list \<Rightarrow> reservation_parameters \<Rightarrow> subnet4" where
  "plain_subnet4 i pfx pools reservations modes =
     \<lparr>s4_common = plain_common pools reservations modes, s4_four_over_six_parameters = no_four_over_six, s4_id = i,
      s4_subnet = pfx, s4_authoritative = None, s4_boot_file_name = None, s4_match_client_id = None,
      s4_next_server = None, s4_server_hostname = None\<rparr>"

definition plain_dhcp_common :: "hook_library list \<Rightarrow> common_dhcp_config" where
  "plain_dhcp_common hooks =
     \<lparr>cdc_cache_parameters = no_cache, cdc_ddns_parameters = no_ddns, cdc_hostname_char_parameters = no_hostname_char,
      cdc_reservation_parameters = no_reservation_parameters, cdc_timer_parameters = no_timer,
      cdc_valid_lifetime_parameters = no_lifetime, cdc_allocator = None, cdc_client_classes = [],
      cdc_config_control = None, cdc_hosts_database = None, cdc_hosts_databases = [], cdc_hook_libraries = hooks,
      cdc_lease_database = None, cdc_loggers = [], cdc_multi_threading = None, cdc_option_data = [],
      cdc_reservations = [], cdc_store_extended_info = None\<rparr>"

definition plain_dhcp4 :: "hook_library list \<Rightarrow> network4 list \<Rightarrow> subnet4 list \<Rightarrow> config" where
  "plain_dhcp4 hooks networks subnets =
     \<lparr>cf_ctrl_agent = None, cf_d2 = None,
      cf_dhcp4 = Some (index_dhcp4
        \<lparr>d4_common = plain_dhcp_common hooks, d4_authoritative = None, d4_boot_file_name = None,
         d4_echo_client_id = None, d4_match_client_id = None, d4_next_server = None, d4_server_hostname = None,
         d4_shared_networks = networks, d4_subnet4 = subnets, d4_subnet4_by_prefix = Map.empty\<rparr>),
      cf_dhcp6 = None, cf_raw = []\<rparr>"

lemma plain_dhcp4_indexed: "indexed (plain_dhcp4 hooks networks subnets)"
  by (simp add: indexed_def plain_dhcp4_def index_dhcp4_idem)

definition shadowing :: config where
  "shadowing = plain_dhcp4 [] [empty_network4\<lparr>n4_name := ''net'', n4_subnets := [plain_subnet4 2 ''192.0.2.77/24'' [] [] no_reservation_parameters]\<rparr>]
     [plain_subnet4 1 ''192.0.2.0/24'' [] [] no_reservation_parameters]"

lemma subnet_found_by_prefix_witness:
  "map_option subnet_id (get_subnet_by_prefix shadowing ''192.0.2.5/24'') = Some 2"
proof -
  have "map_option subnet_id (case parse_ip ''192.0.2.5/24'' of None \<Rightarrow> None
      | Some cidr \<Rightarrow> find (\<lambda>s. get_canonical_subnet_prefix (subnet_prefix s) = Some (get_network_prefix_with_length cidr))
         (rev (all_subnets shadowing))) = Some 2"
    by code_simp
  moreover have "indexed shadowing" unfolding shadowing_def by (rule plain_dhcp4_indexed)
  ultimately show ?thesis by (simp only: subnet_found_by_prefix)
qed

section \<open>From Stork's data to the configuration and back\<close>

text \<open>The parameters that a family knows: the others are lost.\<close>

definition v4_part :: "subnet_parameters \<Rightarrow> subnet_parameters" where
  "v4_part p = p\<lparr>sp_preferred_lifetime_parameters := no_lifetime, sp_interface_id := None, sp_pd_allocator := None,
     sp_rapid_commit := None\<rparr>"

definition v6_part :: "subnet_parameters \<Rightarrow> subnet_parameters" where
  "v6_part p = p\<lparr>sp_four_over_six_parameters := no_four_over_six, sp_authoritative := None, sp_boot_file_name := None,
     sp_match_client_id := None, sp_next_server := None, sp_server_hostname := None\<rparr>"

lemma common_subnet_of_simps [simp]:
  "csp_pools (common_subnet_of cx pools params data) = pools"
  "csp_option_data (common_subnet_of cx pools params data) = data"
  "csp_user_context (common_subnet_of cx pools params data) = cx"
  "csp_reservations (common_subnet_of cx pools params data) = []"
  by (simp_all add: common_subnet_of_def Let_def split: option.split)

lemma create_subnet4_Inr:
  assumes "create_subnet4 exists d s = Inr t"
  obtains pools data where "convert_all (create_pool exists d) (sa_address_pools s d) = Inr pools"
    "create_options exists d (sa_options s d) = Inr data"
    "s4_common t = common_subnet_of (sa_user_context s d) pools (sa_kea_parameters s d) data"
    "s4_id t = sa_id s d" "s4_subnet t = sa_prefix s"
    "subnet4_parameters t = v4_part (case sa_kea_parameters s d of None \<Rightarrow> no_subnet_parameters | Some p \<Rightarrow> p)"
proof -
  from assms obtain pools data where pd: "convert_all (create_pool exists d) (sa_address_pools s d) = Inr pools"
    "create_options exists d (sa_options s d) = Inr data"
    by (auto simp: create_subnet4_def split: sum.splits)
  with assms show ?thesis
    by (intro that [of pools data])
      (auto simp: create_subnet4_def Let_def subnet4_parameters_def v4_part_def common_subnet_of_def no_subnet_parameters_def
        split: option.splits)
qed

lemma create_subnet6_Inr:
  assumes "create_subnet6 exists d s = Inr t"
  obtains pools pd_pools data where "convert_all (create_pool exists d) (sa_address_pools s d) = Inr pools"
    "convert_all (create_pd_pool exists d) (sa_prefix_pools s d) = Inr pd_pools"
    "create_options exists d (sa_options s d) = Inr data" "s6_pd_pools t = pd_pools"
    "s6_common t = common_subnet_of (sa_user_context s d) pools (sa_kea_parameters s d) data"
    "s6_id t = sa_id s d" "s6_subnet t = sa_prefix s"
    "subnet6_parameters t = v6_part (case sa_kea_parameters s d of None \<Rightarrow> no_subnet_parameters | Some p \<Rightarrow> p)"
proof -
  from assms obtain pools pd_pools data where pd: "convert_all (create_pool exists d) (sa_address_pools s d) = Inr pools"
    "convert_all (create_pd_pool exists d) (sa_prefix_pools s d) = Inr pd_pools"
    "create_options exists d (sa_options s d) = Inr data"
    by (auto simp: create_subnet6_def split: sum.splits)
  with assms show ?thesis
    by (intro that [of pools pd_pools data])
      (auto simp: create_subnet6_def Let_def subnet6_parameters_def v6_part_def common_subnet_of_def no_subnet_parameters_def
        split: option.splits)
qed

lemma address_text:
  assumes "net_parse_ip a = Some ip"
  shows "trim_space a = a" and "CHR ''-'' \<notin> set a"
proof -
  obtain ad where ad: "parse_addr a = Some ad" using assms by (auto simp: net_parse_ip_def)
  have "addr_char c" if "c \<in> set a" for c
  proof -
    have "\<not> foreign_char c" using parse_addr_foreign [OF _ ad] that by metis
    then show ?thesis by (cases "hex_digit c") (simp_all add: addr_char_def foreign_char_def is_hex_char_def)
  qed
  then show "trim_space a = a"
    using addr_char_graphic by (intro trim_ends) (metis hd_in_set last_in_set)
  have "foreign_char CHR ''-''" by code_simp
  then show "CHR ''-'' \<notin> set a" using parse_addr_foreign [OF _ ad] by blast
qed

definition no_pool_parameters :: pool_parameters where
  "no_pool_parameters = \<lparr>pp_client_class_parameters = no_client_class, pp_pool_id = None\<rparr>"

definition pool_kept :: "(int \<Rightarrow> dhcp_option \<Rightarrow> bool) \<Rightarrow> int \<Rightarrow> address_pool \<Rightarrow> pool \<Rightarrow> bool" where
  "pool_kept exists d p q =
     (pool_parameters_of q = (case ap_kea_parameters p of None \<Rightarrow> no_pool_parameters | Some k \<Rightarrow> k) \<and>
      create_options exists d (ap_options p) = Inr (pl_option_data q) \<and>
      (\<forall>lb ub address_range. net_parse_ip (ap_lower_bound p) = Some lb \<and> net_parse_ip (ap_upper_bound p) = Some ub \<and>
         (to4 lb \<noteq> None) = (to4 ub \<noteq> None) \<longrightarrow> get_boundaries address_range q = Inr (lb, ub)))"

lemma pool_class_parameters_kept:
  "pool_class_parameters k = (pp_client_class_parameters (case k of None \<Rightarrow> no_pool_parameters | Some k \<Rightarrow> k),
     pp_pool_id (case k of None \<Rightarrow> no_pool_parameters | Some k \<Rightarrow> k))"
  by (auto simp: pool_class_parameters_def Let_def no_pool_parameters_def no_client_class_def split: option.split)

lemma create_pool_kept: "create_pool exists d p = Inr q \<Longrightarrow> pool_kept exists d p q"
proof -
  assume c: "create_pool exists d p = Inr q"
  then have q: "create_options exists d (ap_options p) = Inr (pl_option_data q)"
    "pl_pool q = ap_lower_bound p @ CHR ''-'' # ap_upper_bound p"
    "pool_parameters_of q = (case ap_kea_parameters p of None \<Rightarrow> no_pool_parameters | Some k \<Rightarrow> k)"
    by (auto simp: create_pool_def range_text_def pool_parameters_of_def pool_class_parameters_kept split: sum.splits)
  have "get_boundaries ar q = Inr (lb, ub)"
    if "net_parse_ip (ap_lower_bound p) = Some lb" "net_parse_ip (ap_upper_bound p) = Some ub"
      "(to4 lb \<noteq> None) = (to4 ub \<noteq> None)" for lb ub ar
    unfolding get_boundaries_def q(2)
    by (rule parse_range_text) (use that address_text [OF that(1)] address_text [OF that(2)] in simp_all)
  with q show ?thesis by (simp add: pool_kept_def)
qed

definition pd_pool_kept :: "(int \<Rightarrow> dhcp_option \<Rightarrow> bool) \<Rightarrow> int \<Rightarrow> prefix_pool \<Rightarrow> pd_pool \<Rightarrow> bool" where
  "pd_pool_kept exists d p q =
     (pd_pool_parameters_of q = (case pfp_kea_parameters p of None \<Rightarrow> no_pool_parameters | Some k \<Rightarrow> k) \<and>
      create_options exists d (pfp_options p) = Inr (pd_option_data q) \<and>
      pd_delegated_len q = pm_delegated_len (pfp_model p) \<and>
      Some (get_canonical_prefix_text q) = get_canonical_subnet_prefix (pm_prefix (pfp_model p)) \<and>
      (if pm_excluded_prefix (pfp_model p) = [] then get_canonical_excluded_prefix q = []
       else Some (get_canonical_excluded_prefix q) = get_canonical_subnet_prefix (pm_excluded_prefix (pfp_model p))))"

lemma prefix_not_empty:
  assumes "parse_ip s = Some ip" and "pip_prefix ip"
  shows "pip_network_prefix ip \<noteq> [] \<and> pip_prefix_length ip \<noteq> 0"
proof -
  obtain n where n: "net_parse_cidr s = Some (pip_ip ip, n)" "pip_network_prefix ip = ip_string (net_ip n)"
    "pip_prefix_length ip = (if fst (mask_size (net_mask n)) = 0 then if to4 (pip_ip ip) \<noteq> None then 32 else 128
       else int (fst (mask_size (net_mask n))))"
    using parse_ip_prefix_cases [OF assms] by metis
  have "length (net_ip n) = 4 \<or> length (net_ip n) = 16" using cidr_networks [OF n(1)] by auto
  with n show ?thesis using ip_string_not_Nil [of "net_ip n"] by auto
qed

lemma create_pd_pool_kept:
  assumes "create_pd_pool exists d p = Inr q"
  shows "pd_pool_kept exists d p q"
proof -
  let ?m = "pfp_model p"
  obtain ip where ip: "parse_ip (pm_prefix ?m) = Some ip" "pip_prefix ip"
    "get_prefix ?m = Inr (pip_network_prefix ip, pip_prefix_length ip)"
    using assms by (auto simp: create_pd_pool_def get_prefix_def split: sum.splits option.splits if_splits)
  obtain ex len where ex: "get_excluded_prefix ?m = Inr (ex, len)"
    using assms by (auto simp: create_pd_pool_def split: sum.splits)
  have q: "create_options exists d (pfp_options p) = Inr (pd_option_data q)" "pd_delegated_len q = pm_delegated_len ?m"
    "pd_pool_parameters_of q = (case pfp_kea_parameters p of None \<Rightarrow> no_pool_parameters | Some k \<Rightarrow> k)"
    "pd_prefix q = pip_network_prefix ip" "pd_prefix_len q = pip_prefix_length ip"
    "pd_excluded_prefix q = ex" "pd_excluded_prefix_len q = len"
    using assms ip ex
    by (auto simp: create_pd_pool_def pd_pool_parameters_of_def pool_class_parameters_kept split: sum.splits)
  have "Some (get_canonical_prefix_text q) = get_canonical_subnet_prefix (pm_prefix ?m)"
    using prefix_not_empty [OF ip(1,2)] ip(1) q
    by (simp add: get_canonical_prefix_text_def get_canonical_subnet_prefix_def get_network_prefix_with_length_def)
  moreover have "if pm_excluded_prefix ?m = [] then get_canonical_excluded_prefix q = []
       else Some (get_canonical_excluded_prefix q) = get_canonical_subnet_prefix (pm_excluded_prefix ?m)"
  proof (cases "pm_excluded_prefix ?m = []")
    case True
    with ex q show ?thesis by (simp add: get_excluded_prefix_def get_canonical_excluded_prefix_def)
  next
    case False
    with ex obtain e where e: "parse_ip (pm_excluded_prefix ?m) = Some e" "pip_prefix e"
      "ex = pip_network_prefix e" "len = pip_prefix_length e"
      by (auto simp: get_excluded_prefix_def split: option.splits if_splits)
    with False q prefix_not_empty [OF e(1,2)] show ?thesis
      by (simp add: get_canonical_excluded_prefix_def get_canonical_subnet_prefix_def get_network_prefix_with_length_def)
  qed
  ultimately show ?thesis using q by (simp add: pd_pool_kept_def)
qed

lemma pools_kept: "convert_all (create_pool exists d) ps = Inr qs \<Longrightarrow> list_all2 (pool_kept exists d) ps qs"
  unfolding convert_all_Inr by (erule list.rel_mono_strong) (rule create_pool_kept)

lemma pd_pools_kept: "convert_all (create_pd_pool exists d) ps = Inr qs \<Longrightarrow> list_all2 (pd_pool_kept exists d) ps qs"
  unfolding convert_all_Inr by (erule list.rel_mono_strong) (rule create_pd_pool_kept)

lemma create_subnet4_kept:
  assumes "create_subnet4 exists d s = Inr t"
  shows "subnet_parameters_of (Subnet4 t) = v4_part (case sa_kea_parameters s d of None \<Rightarrow> no_subnet_parameters | Some p \<Rightarrow> p) \<and>
    list_all2 (pool_kept exists d) (sa_address_pools s d) (subnet_pools (Subnet4 t)) \<and>
    create_options exists d (sa_options s d) = Inr (subnet_options (Subnet4 t)) \<and>
    subnet_id (Subnet4 t) = sa_id s d \<and> subnet_prefix (Subnet4 t) = sa_prefix s \<and>
    subnet_user_context (Subnet4 t) = sa_user_context s d"
proof -
  obtain pools data where t: "convert_all (create_pool exists d) (sa_address_pools s d) = Inr pools"
    "create_options exists d (sa_options s d) = Inr data"
    "s4_common t = common_subnet_of (sa_user_context s d) pools (sa_kea_parameters s d) data"
    "s4_id t = sa_id s d" "s4_subnet t = sa_prefix s"
    "subnet4_parameters t = v4_part (case sa_kea_parameters s d of None \<Rightarrow> no_subnet_parameters | Some p \<Rightarrow> p)"
    using create_subnet4_Inr [OF assms] .
  show ?thesis using pools_kept [OF t(1)] by (simp add: t)
qed

lemma create_subnet6_kept:
  assumes "create_subnet6 exists d s = Inr u"
  shows "subnet_parameters_of (Subnet6 u) = v6_part (case sa_kea_parameters s d of None \<Rightarrow> no_subnet_parameters | Some p \<Rightarrow> p) \<and>
    list_all2 (pool_kept exists d) (sa_address_pools s d) (subnet_pools (Subnet6 u)) \<and>
    list_all2 (pd_pool_kept exists d) (sa_prefix_pools s d) (subnet_pd_pools (Subnet6 u)) \<and>
    create_options exists d (sa_options s d) = Inr (subnet_options (Subnet6 u)) \<and>
    subnet_id (Subnet6 u) = sa_id s d \<and> subnet_prefix (Subnet6 u) = sa_prefix s \<and>
    subnet_user_context (Subnet6 u) = sa_user_context s d"
proof -
  obtain pools pd_pools data where t: "convert_all (create_pool exists d) (sa_address_pools s d) = Inr pools"
    "convert_all (create_pd_pool exists d) (sa_prefix_pools s d) = Inr pd_pools"
    "create_options exists d (sa_options s d) = Inr data" "s6_pd_pools u = pd_pools"
    "s6_common u = common_subnet_of (sa_user_context s d) pools (sa_kea_parameters s d) data"
    "s6_id u = sa_id s d" "s6_subnet u = sa_prefix s"
    "subnet6_parameters u = v6_part (case sa_kea_parameters s d of None \<Rightarrow> no_subnet_parameters | Some p \<Rightarrow> p)"
    using create_subnet6_Inr [OF assms] .
  show ?thesis using pools_kept [OF t(1)] pd_pools_kept [OF t(2)] by (simp add: t)
qed

text \<open>
  C21: The data of a subnet survive its conversion into the Kea configuration: the parameters of
  its family are read back as they were and those of the other family are dropped, every
  address pool has its bounds, options and parameters, every prefix pool the canonical form of
  its prefix and its excluded prefix, and the ID, the prefix, the options and the user
  context are those of the daemon.
\<close>

theorem subnet_survives_conversion:
  "(create_subnet4 exists d s = Inr t \<longrightarrow>
      subnet_parameters_of (Subnet4 t) = v4_part (case sa_kea_parameters s d of None \<Rightarrow> no_subnet_parameters | Some p \<Rightarrow> p) \<and>
      list_all2 (pool_kept exists d) (sa_address_pools s d) (subnet_pools (Subnet4 t)) \<and>
      create_options exists d (sa_options s d) = Inr (subnet_options (Subnet4 t)) \<and>
      subnet_id (Subnet4 t) = sa_id s d \<and> subnet_prefix (Subnet4 t) = sa_prefix s \<and>
      subnet_user_context (Subnet4 t) = sa_user_context s d) \<and>
   (create_subnet6 exists d s = Inr u \<longrightarrow>
      subnet_parameters_of (Subnet6 u) = v6_part (case sa_kea_parameters s d of None \<Rightarrow> no_subnet_parameters | Some p \<Rightarrow> p) \<and>
      list_all2 (pool_kept exists d) (sa_address_pools s d) (subnet_pools (Subnet6 u)) \<and>
      list_all2 (pd_pool_kept exists d) (sa_prefix_pools s d) (subnet_pd_pools (Subnet6 u)) \<and>
      create_options exists d (sa_options s d) = Inr (subnet_options (Subnet6 u)) \<and>
      subnet_id (Subnet6 u) = sa_id s d \<and> subnet_prefix (Subnet6 u) = sa_prefix s \<and>
      subnet_user_context (Subnet6 u) = sa_user_context s d)"
  using create_subnet4_kept [of exists d s t] create_subnet6_kept [of exists d s u] by blast

definition wit_accessor :: subnet_accessor where
  "wit_accessor = \<lparr>sa_id = (\<lambda>d. 10 + d), sa_prefix = ''192.0.2.0/24'', sa_user_context = (\<lambda>_. []),
     sa_address_pools = (\<lambda>_. [\<lparr>ap_lower_bound = ''192.0.2.10'', ap_upper_bound = ''192.0.2.20'', ap_options = [], ap_kea_parameters = None\<rparr>]),
     sa_prefix_pools = (\<lambda>_. []),
     sa_kea_parameters = (\<lambda>_. Some (no_subnet_parameters\<lparr>sp_allocator := Some ''flq'', sp_pd_allocator := Some ''random''\<rparr>)),
     sa_options = (\<lambda>_. [])\<rparr>"

lemma subnet_survives_conversion_witness:
  "\<exists>t q. create_subnet4 (\<lambda>_ _. True) 1 wit_accessor = Inr t \<and> subnet_id (Subnet4 t) = 11 \<and>
     subnet_parameters_of (Subnet4 t) = no_subnet_parameters\<lparr>sp_allocator := Some ''flq''\<rparr> \<and>
     subnet_pools (Subnet4 t) = [q] \<and> get_boundaries network_range q = Inr (v4_in_v6_prefix @ [192, 0, 2, 10], v4_in_v6_prefix @ [192, 0, 2, 20])"
proof -
  have "\<exists>t. create_subnet4 (\<lambda>_ _. True) 1 wit_accessor = Inr t"
    by (simp add: create_subnet4_def wit_accessor_def create_pool_def create_options_def)
  then obtain t where t: "create_subnet4 (\<lambda>_ _. True) 1 wit_accessor = Inr t" by blast
  note s = subnet_survives_conversion [of "\<lambda>_ _. True" 1 wit_accessor t, THEN conjunct1, rule_format, OF t]
  obtain q where q: "subnet_pools (Subnet4 t) = [q]"
    "pool_kept (\<lambda>_ _. True) 1 \<lparr>ap_lower_bound = ''192.0.2.10'', ap_upper_bound = ''192.0.2.20'', ap_options = [], ap_kea_parameters = None\<rparr> q"
    using s by (auto simp: wit_accessor_def list_all2_Cons1)
  have p: "net_parse_ip ''192.0.2.10'' = Some (v4_in_v6_prefix @ [192, 0, 2, 10])"
    "net_parse_ip ''192.0.2.20'' = Some (v4_in_v6_prefix @ [192, 0, 2, 20])" by code_simp+
  then have "get_boundaries network_range q = Inr (v4_in_v6_prefix @ [192, 0, 2, 10], v4_in_v6_prefix @ [192, 0, 2, 20])"
    using q(2) by (simp add: pool_kept_def to4_def v4_in_v6_prefix_def)
  with t q s show ?thesis
    by (intro exI [of _ t] exI [of _ q]) (simp add: wit_accessor_def v4_part_def no_subnet_parameters_def)
qed

text \<open>A shared network keeps its parameters too, and its subnets are those of the conversion above.\<close>

lemma network_survives_conversion:
  "create_shared_network4 exists d n = Inr t \<Longrightarrow>
     network_parameters_of (Network4 t) =
       (v4_part (case na_kea_parameters n d of None \<Rightarrow> no_subnet_parameters | Some p \<Rightarrow> p))
         \<lparr>sp_four_over_six_parameters := no_four_over_six\<rparr> \<and>
     network_name (Network4 t) = na_name n \<and>
     list_all2 (\<lambda>s u. create_subnet4 exists d s = Inr u) (na_subnets n d) (n4_subnets t)"
  "create_shared_network6 exists d n = Inr u \<Longrightarrow>
     network_parameters_of (Network6 u) = v6_part (case na_kea_parameters n d of None \<Rightarrow> no_subnet_parameters | Some p \<Rightarrow> p) \<and>
     network_name (Network6 u) = na_name n \<and>
     list_all2 (\<lambda>s u. create_subnet6 exists d s = Inr u) (na_subnets n d) (n6_subnets u)"
  by (auto simp: create_shared_network4_def create_shared_network6_def Let_def network4_parameters_def network6_parameters_def
      common_network_of_def no_common_network_def v4_part_def v6_part_def no_subnet_parameters_def convert_all_Inr
      split: sum.splits option.splits)

section \<open>Reservation modes\<close>

lemma in_any_mode_iff:
  "is_in_any_reservation_modes f ms \<longleftrightarrow> (True, True) \<in> f ` set ms \<or> ms \<noteq> [] \<and> fst (f (last ms))"
proof (induction ms)
  case (Cons m ms)
  show ?case by (cases "f m") (auto simp: Cons Let_def image_iff)
qed simp

text \<open>
  What the settings say when a lower level overrides a higher one: the first explicit setting
  decides, and without one the default at the last level.
\<close>

definition inherited_mode :: "(reservation_parameters \<Rightarrow> bool \<times> bool) \<Rightarrow> reservation_parameters list \<Rightarrow> bool" where
  "inherited_mode f ms = (case find (\<lambda>m. snd (f m)) ms of Some m \<Rightarrow> fst (f m) | None \<Rightarrow> fst (f (last ms)))"

text \<open>
  A reservation mode that is in effect under inheritance is always found, and what is found
  is in effect unless a level turns the mode off that a higher level has on: then the explicit
  \<open>false\<close> of the lower level is passed over.  With one explicit level or none the answer is
  exact.
\<close>

theorem reservation_mode_found:
  assumes "ms \<noteq> []"
  shows "(inherited_mode f ms \<longrightarrow> is_in_any_reservation_modes f ms) \<and>
    (is_in_any_reservation_modes f ms \<and> \<not> inherited_mode f ms \<longrightarrow>
       (\<exists>low high. low \<in> set ms \<and> high \<in> set ms \<and> f low = (False, True) \<and> fst (f high))) \<and>
    (is_in_any_reservation_modes is_out_of_pool_mode
       [no_reservation_parameters\<lparr>rvp_reservations_out_of_pool := Some False\<rparr>, no_reservation_parameters\<lparr>rvp_reservations_out_of_pool := Some True\<rparr>] \<and>
     \<not> inherited_mode is_out_of_pool_mode
       [no_reservation_parameters\<lparr>rvp_reservations_out_of_pool := Some False\<rparr>, no_reservation_parameters\<lparr>rvp_reservations_out_of_pool := Some True\<rparr>])"
proof (intro conjI impI)
  show found: "is_in_any_reservation_modes f ms" if i: "inherited_mode f ms"
  proof (cases "find (\<lambda>m. snd (f m)) ms")
    case None
    with i assms show ?thesis by (simp add: inherited_mode_def in_any_mode_iff)
  next
    case (Some m)
    with i have "f m = (True, True)" "m \<in> set ms"
      by (auto simp: inherited_mode_def find_Some_iff prod_eq_iff)
    then show ?thesis by (auto simp: in_any_mode_iff image_iff intro!: disjI1 bexI [of _ m])
  qed
  assume a: "is_in_any_reservation_modes f ms \<and> \<not> inherited_mode f ms"
  show "\<exists>low high. low \<in> set ms \<and> high \<in> set ms \<and> f low = (False, True) \<and> fst (f high)"
  proof (cases "find (\<lambda>m. snd (f m)) ms")
    case None
    then have "snd (f m) = False" if "m \<in> set ms" for m using that by (simp add: find_None_iff)
    with a None show ?thesis by (auto simp: in_any_mode_iff inherited_mode_def image_iff) (metis snd_conv)
  next
    case (Some m)
    with a have "f m = (False, True)" "m \<in> set ms"
      by (auto simp: inherited_mode_def find_Some_iff prod_eq_iff)
    moreover obtain h where "h \<in> set ms" "fst (f h)"
      using a last_in_set [OF assms] by (auto simp: in_any_mode_iff image_iff) (metis fst_conv)
    ultimately show ?thesis by blast
  qed
qed (code_simp, code_simp)

lemma reservation_mode_found_witness:
  "is_in_any_reservation_modes is_global_mode
     [no_reservation_parameters, no_reservation_parameters\<lparr>rvp_reservation_mode := Some ''global''\<rparr>]"
proof -
  have "inherited_mode is_global_mode
     [no_reservation_parameters, no_reservation_parameters\<lparr>rvp_reservation_mode := Some ''global''\<rparr>]" by code_simp
  then show ?thesis
    using reservation_mode_found [of "[no_reservation_parameters, no_reservation_parameters\<lparr>rvp_reservation_mode := Some ''global''\<rparr>]" is_global_mode]
    by simp
qed

section \<open>Reservations of hosts\<close>

definition parsed_addresses :: "host_accessor \<Rightarrow> parsed_ip list" where
  "parsed_addresses h = List.map_filter parse_ip (hs_ip_reservations h)"

lemma set_identifier_other:
  "rv_ip_address (fold set_identifier is r) = rv_ip_address r"
  "rv_ip_addresses (fold set_identifier is r) = rv_ip_addresses r"
  "rv_prefixes (fold set_identifier is r) = rv_prefixes r"
  "rv_hostname (fold set_identifier is r) = rv_hostname r"
  by (induction "is" arbitrary: r) (simp_all add: set_identifier_def Let_def)

lemma add_ip_reservations:
  defines "ips \<equiv> List.map_filter parse_ip"
  shows "rv_prefixes (fold add_ip_reservation as r) = rv_prefixes r @ map pip_network_address (filter pip_prefix (ips as))"
    and "rv_ip_addresses (fold add_ip_reservation as r) =
      rv_ip_addresses r @ map pip_network_address (filter (\<lambda>p. \<not> pip_prefix p \<and> pip_protocol p = IPv6) (ips as))"
  by (induction as arbitrary: r)
    (auto simp: ips_def map_filter_simps add_ip_reservation_def split: option.split)

lemma address_not_empty: "parse_ip a = Some p \<Longrightarrow> pip_network_address p \<noteq> []"
proof -
  assume p: "parse_ip a = Some p"
  have "length (pip_ip p) = 16" by (rule parse_ip_length [OF p])
  moreover have "ipnet_string n \<noteq> []" for n
    by (auto simp: ipnet_string_def split: option.splits prod.splits)
  ultimately show ?thesis
    using p ip_string_not_Nil [of "pip_ip p"] by (auto simp: parse_ip_def Let_def split: option.splits if_splits)
qed

lemma add_ip_reservation_set:
  "rv_ip_address r \<noteq> [] \<Longrightarrow> rv_ip_address (fold add_ip_reservation as r) = rv_ip_address r"
proof (induction as arbitrary: r)
  case (Cons a as)
  have "rv_ip_address (add_ip_reservation a r) = rv_ip_address r"
    using Cons.prems by (auto simp: add_ip_reservation_def split: option.split)
  with Cons show ?case by simp
qed simp

lemma add_ip_reservation_first:
  "rv_ip_address r = [] \<Longrightarrow> rv_ip_address (fold add_ip_reservation as r) =
     (case filter (\<lambda>p. \<not> pip_prefix p \<and> pip_protocol p = IPv4) (List.map_filter parse_ip as) of
        [] \<Rightarrow> [] | p # ps \<Rightarrow> pip_network_address p)"
proof (induction as arbitrary: r)
  case (Cons a as)
  show ?case
  proof (cases "parse_ip a")
    case None
    with Cons show ?thesis by (simp add: add_ip_reservation_def map_filter_simps)
  next
    case (Some p)
    show ?thesis
    proof (cases "\<not> pip_prefix p \<and> pip_protocol p = IPv4")
      case True
      have a: "add_ip_reservation a r = r\<lparr>rv_ip_address := pip_network_address p\<rparr>"
        using Some True Cons.prems by (simp add: add_ip_reservation_def)
      with address_not_empty [OF Some] add_ip_reservation_set [of "add_ip_reservation a r" as]
      show ?thesis using Some True by (simp add: map_filter_simps)
    next
      case False
      then have "pip_prefix p \<or> pip_protocol p = IPv6" by (metis ip_type.exhaust)
      then have "rv_ip_address (add_ip_reservation a r) = []"
        using Cons.prems Some by (auto simp: add_ip_reservation_def)
      with Cons.IH False Some show ?thesis by (auto simp: map_filter_simps)
    qed
  qed
qed (simp add: map_filter_simps)

text \<open>
  The reservation that is sent to Kea for a host has the prefixes and the IPv6 addresses of
  the host in their order, as the addresses of the parsed texts, and of the IPv4 addresses
  the first one; texts that are no addresses are left out.
\<close>

theorem reservation_has_addresses:
  assumes "create_reservation exists d h = Inr r"
  shows "rv_prefixes r = map pip_network_address (filter pip_prefix (parsed_addresses h)) \<and>
    rv_ip_addresses r = map pip_network_address (filter (\<lambda>p. \<not> pip_prefix p \<and> pip_protocol p = IPv6) (parsed_addresses h)) \<and>
    rv_ip_address r =
      (case filter (\<lambda>p. \<not> pip_prefix p \<and> pip_protocol p = IPv4) (parsed_addresses h) of
         [] \<Rightarrow> [] | p # ps \<Rightarrow> pip_network_address p) \<and>
    create_options exists d (hs_options h d) = Inr (rv_option_data r)"
proof -
  define r0 where "r0 = \<lparr>rv_hw_address = [], rv_duid = [], rv_circuit_id = [], rv_client_id = [], rv_flex_id = [],
               rv_ip_address = [], rv_ip_addresses = [], rv_prefixes = [], rv_hostname = hs_hostname h,
               rv_client_classes = hs_client_classes h d, rv_next_server = hs_next_server h d,
               rv_boot_file_name = hs_boot_file_name h d,
               rv_server_hostname = hs_server_hostname h d, rv_option_data = []\<rparr>"
  define r1 where "r1 = fold set_identifier (hs_identifiers h) r0"
  have r1: "rv_ip_address r1 = []" "rv_ip_addresses r1 = []" "rv_prefixes r1 = []"
    by (simp_all add: r1_def set_identifier_other r0_def)
  obtain data where "create_options exists d (hs_options h d) = Inr data"
    "r = (fold add_ip_reservation (hs_ip_reservations h) r1)\<lparr>rv_option_data := data\<rparr>"
    using assms by (auto simp: create_reservation_def r1_def r0_def Let_def split: sum.splits)
  then show ?thesis
    using add_ip_reservation_first [OF r1(1)] by (simp add: add_ip_reservations r1 parsed_addresses_def)
qed

definition wit_host :: host_accessor where
  "wit_host = \<lparr>hs_identifiers = [(''duid'', [1, 2, 3])], hs_ip_reservations = [''192.0.2.7'', ''2001:db8::/64'', ''2001:db8::5'', ''192.0.2.8''],
     hs_hostname = ''host'', hs_subnet_id = (\<lambda>_. Inr 1), hs_client_classes = (\<lambda>_. []), hs_next_server = (\<lambda>_. []),
     hs_server_hostname = (\<lambda>_. []), hs_boot_file_name = (\<lambda>_. []), hs_options = (\<lambda>_. [])\<rparr>"

lemma reservation_has_addresses_witness:
  "\<exists>r. create_reservation (\<lambda>_ _. True) 1 wit_host = Inr r \<and> rv_ip_address r = ''192.0.2.7'' \<and>
     rv_prefixes r = [''2001:db8::/64''] \<and> rv_ip_addresses r = [''2001:db8::5'']"
proof -
  have "\<exists>r. create_reservation (\<lambda>_ _. True) 1 wit_host = Inr r"
    by (simp add: create_reservation_def create_options_def wit_host_def Let_def)
  then obtain r where r: "create_reservation (\<lambda>_ _. True) 1 wit_host = Inr r" by blast
  have "map (\<lambda>p. (pip_network_address p, pip_prefix p, pip_protocol p)) (parsed_addresses wit_host) =
      [(''192.0.2.7'', False, IPv4), (''2001:db8::/64'', True, IPv6), (''2001:db8::5'', False, IPv6), (''192.0.2.8'', False, IPv4)]"
    by code_simp
  with reservation_has_addresses [OF r] r show ?thesis by (auto simp: map_eq_Cons_conv)
qed

end
