(* ===== verification/Kea_Checkers.thy ===== *)
theory Kea_Checkers
  imports Kea_Config_Correct Checker_Controller Big_Counter
begin

text \<open>
  The checkers of Kea configurations: \<open>server/configreview/keachecker.go\<close>.  A checker looks at
  the configuration of a daemon and gives a report, nil or an error.  What it reads from the
  database, the hosts of the daemon and the machines with an access point, is part of its
  context; the address library and the sorting function of Go are arguments.  A nil pointer that
  is followed is a panic.
\<close>

section \<open>The context of a check\<close>

record db_host =
  dh_local_subnets :: "(int \<times> int) list option"
  dh_local_reservations :: "string list list"

record access_point =
  axp_port :: int

record peer_app =
  pa_access_points :: "access_point list"
  pa_daemons :: "(int \<times> string) list"

record check_context =
  cx_daemon_id :: int
  cx_daemon_name :: string
  cx_version :: string
  cx_config :: config
  cx_hosts :: "string + db_host list"
  cx_machine :: "string \<Rightarrow> int \<Rightarrow> string + peer_app list option"

datatype check_error = UnsupportedDaemon string | DatabaseFailed string | BadReport report_error
  | BadBoundaries range_error string

type_synonym check_result = "(check_error + report option) run"

text \<open>\<open>NewReport(\<dots>).referencingDaemon(\<dots>)\<dots>.create()\<close>.\<close>

definition issue :: "check_context \<Rightarrow> string \<Rightarrow> int list \<Rightarrow> check_result" where
  "issue cx content refs =
     (case create_report (foldl referencing_daemon (new_report (cx_daemon_id cx) content) refs) of
        Inl e \<Rightarrow> Done (Inl (BadReport e))
      | Inr r \<Rightarrow> Done (Inr (Some r)))"

definition no_issue :: check_result where
  "no_issue = Done (Inr None)"

definition is_dhcp_daemon :: "check_context \<Rightarrow> bool" where
  "is_dhcp_daemon cx = (cx_daemon_name cx = ''dhcp4'' \<or> cx_daemon_name cx = ''dhcp6'')"

definition unsupported :: "check_context \<Rightarrow> check_result" where
  "unsupported cx = Done (Inl (UnsupportedDaemon (cx_daemon_name cx)))"

definition get_ip_reservations :: "db_host \<Rightarrow> string list" where
  "get_ip_reservations h = remdups (concat (dh_local_reservations h))"

section \<open>Hooks and databases\<close>

definition stat_cmds_presence :: "check_context \<Rightarrow> check_result" where
  "stat_cmds_presence cx =
     (if \<not> has_hook_library (cx_config cx) ''libdhcp_stat_cmds''
      then issue cx
        (''The Kea Statistics Commands library '' @
         ''(libdhcp_stat_cmds) provides commands for retrieving accurate '' @
         ''DHCP lease statistics for Kea DHCP servers. Stork sends these '' @
         ''commands to fetch lease statistics displayed in the dashboard, '' @
         ''subnet, and shared-network views. Stork found that {daemon} is '' @
         ''not using this hook library. Some statistics will not be '' @
         ''available until the library is loaded.'') [cx_daemon_id cx]
      else no_issue)"

definition lease_cmds_presence :: "check_context \<Rightarrow> check_result" where
  "lease_cmds_presence cx =
     (if \<not> has_hook_library (cx_config cx) ''libdhcp_lease_cmds''
      then issue cx
        (''The Kea Lease Commands library '' @
         ''(libdhcp_lease_cmds) provides commands for retrieving '' @
         ''DHCP leases from Kea DHCP servers. Stork sends these '' @
         ''commands to search for leases matching the criteria specified in the '' @
         ''lease search box and to check if the host reservations are used. '' @
         ''Stork found that {daemon} is not using this hook library. These '' @
         ''features will not be available until the library is loaded.'') [cx_daemon_id cx]
      else no_issue)"

definition host_cmds_presence :: "check_context \<Rightarrow> check_result" where
  "host_cmds_presence cx =
     (if \<not> has_hook_library (cx_config cx) ''libdhcp_host_cmds'' \<and> length (dbs_hosts (get_all_databases (cx_config cx))) > 0
      then issue cx
        (''Kea can be configured to store host '' @
         ''reservations in a database. Stork can access these '' @
         ''reservations using the commands implemented in the Host '' @
         ''Commands hook library and make them available in the Host '' @
         ''Reservations view. It appears that the libdhcp_host_cmds '' @
         ''hook library is not loaded on {daemon}. Host reservations '' @
         ''from the database will not be visible in Stork until this '' @
         ''library is enabled.'') [cx_daemon_id cx]
      else no_issue)"

definition subnet_cmds_and_config_backend_mutual_exclusion :: "check_context \<Rightarrow> check_result" where
  "subnet_cmds_and_config_backend_mutual_exclusion cx =
     (if \<not> is_dhcp_daemon cx then unsupported cx
      else if \<not> has_hook_library (cx_config cx) ''libdhcp_subnet_cmds'' then no_issue
      else if length (dbs_config (get_all_databases (cx_config cx))) = 0 then no_issue
      else issue cx
        (''It is recommended that the 'subnet_cmds' hook library not be used '' @
         ''to manage subnets when the configuration backend is used as a '' @
         ''source of information about the subnets. The 'subnet_cmds' hook '' @
         ''library modifies the local subnets configuration in the server's '' @
         ''memory, not in the database. Use the 'cb_cmds' hook library to '' @
         ''manage the subnets information in the database instead.'') [cx_daemon_id cx])"

section \<open>What can be removed\<close>

fun count_small_networks :: "shared_network list \<Rightarrow> int \<Rightarrow> int \<Rightarrow> int \<times> int" where
  "count_small_networks [] empties singles = (empties, singles)"
| "count_small_networks (n # ns) empties singles =
     (case network_subnets n of
        [] \<Rightarrow> count_small_networks ns (empties + 1) singles
      | [s] \<Rightarrow> count_small_networks ns empties (singles + 1)
      | _ \<Rightarrow> count_small_networks ns empties singles)"

definition small_networks_details :: "int \<Rightarrow> int \<Rightarrow> string" where
  "small_networks_details empties singles =
     (let d = (if empties > 0 then format_noun empties ''empty shared network'' ''s'' else []) in
      if singles > 0
      then (if length d > 0 then d @ '' and '' else d) @ format_noun singles ''shared network'' ''s'' @
           '' with only a single subnet''
      else d)"

definition shared_network_dispensable :: "check_context \<Rightarrow> check_result" where
  "shared_network_dispensable cx =
     (let (empties, singles) = count_small_networks (get_shared_networks (cx_config cx) False) 0 0 in
      if empties > 0 \<or> singles > 0
      then issue cx
        (''Kea {daemon} configuration includes '' @ small_networks_details empties singles @
         ''. Shared networks create '' @
         ''overhead for a Kea server configuration and DHCP message '' @
         ''processing, affecting their performance. It is recommended '' @
         ''to remove any shared networks having none or a single '' @
         ''subnet and specify these subnets at the global '' @
         ''configuration level.'') [cx_daemon_id cx]
      else no_issue)"

text \<open>
  The hosts of the daemon by the ID of their subnet at this daemon; a host of several local
  subnets is listed at each.  Without the hook library the database is not asked.
\<close>

type_synonym hosts_by_subnet = "(int \<times> db_host list) list"

definition hosts_at :: "hosts_by_subnet \<Rightarrow> int \<Rightarrow> db_host list" where
  "hosts_at m s = (case map_of m s of None \<Rightarrow> [] | Some hs \<Rightarrow> hs)"

fun index_host :: "int \<Rightarrow> db_host \<Rightarrow> (int \<times> int) list \<Rightarrow> hosts_by_subnet \<Rightarrow> hosts_by_subnet" where
  "index_host daemon_id h [] m = m"
| "index_host daemon_id h ((d, s) # ls) m =
     index_host daemon_id h ls (if d = daemon_id \<and> s \<noteq> 0 then map_set s (hosts_at m s @ [h]) m else m)"

fun index_hosts :: "int \<Rightarrow> db_host list \<Rightarrow> hosts_by_subnet \<Rightarrow> hosts_by_subnet" where
  "index_hosts daemon_id [] m = m"
| "index_hosts daemon_id (h # hs) m =
     index_hosts daemon_id hs
       (case dh_local_subnets h of None \<Rightarrow> m | Some ls \<Rightarrow> index_host daemon_id h ls m)"

definition get_daemon_hosts_and_index_by_subnet :: "check_context \<Rightarrow> string + bool \<times> hosts_by_subnet" where
  "get_daemon_hosts_and_index_by_subnet cx =
     (if has_hook_library (cx_config cx) ''libdhcp_host_cmds''
      then (case cx_hosts cx of
              Inl e \<Rightarrow> Inl e
            | Inr hosts \<Rightarrow> Inr (True, index_hosts (cx_daemon_id cx) hosts []))
      else Inr (False, []))"

definition create_subnet_dispensable_report :: "check_context \<Rightarrow> int \<Rightarrow> check_result" where
  "create_subnet_dispensable_report cx n =
     (if n = 0 then no_issue
      else issue cx
        (''Kea {daemon} configuration includes '' @ format_noun n ''subnet'' ''s'' @
         '' without pools and host '' @
         ''reservations. The DHCP server will not assign any addresses to '' @
         ''the devices within this subnet. It is recommended to add some '' @
         ''pools or host reservations to this subnet or remove the subnet '' @
         ''from the configuration.'') [cx_daemon_id cx])"

definition subnet_is_dispensable :: "bool \<Rightarrow> bool \<Rightarrow> hosts_by_subnet \<Rightarrow> subnet \<Rightarrow> bool" where
  "subnet_is_dispensable pd host_cmds db_hosts s =
     (subnet_pools s = [] \<and> (pd \<longrightarrow> subnet_pd_pools s = []) \<and> subnet_reservations s = [] \<and>
      (\<not> host_cmds \<or> hosts_at db_hosts (subnet_id s) = []))"

definition count_dispensable :: "bool \<Rightarrow> bool \<Rightarrow> hosts_by_subnet \<Rightarrow> shared_network list \<Rightarrow> int" where
  "count_dispensable pd host_cmds db_hosts ns =
     int (length (filter (subnet_is_dispensable pd host_cmds db_hosts) (concat (map network_subnets ns))))"

definition check_subnet4_dispensable :: "check_context \<Rightarrow> check_result" where
  "check_subnet4_dispensable cx =
     (case get_daemon_hosts_and_index_by_subnet cx of
        Inl e \<Rightarrow> Done (Inl (DatabaseFailed e))
      | Inr (host_cmds, db_hosts) \<Rightarrow>
          create_subnet_dispensable_report cx
            (count_dispensable False host_cmds db_hosts (get_shared_networks (cx_config cx) True)))"

definition check_subnet6_dispensable :: "check_context \<Rightarrow> check_result" where
  "check_subnet6_dispensable cx =
     (case get_daemon_hosts_and_index_by_subnet cx of
        Inl e \<Rightarrow> Done (Inl (DatabaseFailed e))
      | Inr (host_cmds, db_hosts) \<Rightarrow>
          create_subnet_dispensable_report cx
            (count_dispensable True host_cmds db_hosts (get_shared_networks (cx_config cx) True)))"

definition subnet_dispensable :: "check_context \<Rightarrow> check_result" where
  "subnet_dispensable cx =
     (if \<not> is_dhcp_daemon cx then unsupported cx
      else if cx_daemon_name cx = ''dhcp4'' then check_subnet4_dispensable cx
      else check_subnet6_dispensable cx)"

section \<open>Reservations outside of the pools\<close>

text \<open>Pools whose text is no range are passed over.\<close>

definition in_pool :: "(ipnet \<Rightarrow> 8 word list \<times> 8 word list) \<Rightarrow> parsed_ip \<Rightarrow> pool \<Rightarrow> bool" where
  "in_pool address_range p q =
     (case parse_ip_range address_range (pl_pool q) of Inl e \<Rightarrow> False | Inr (lb, ub) \<Rightarrow> is_in_range p lb ub)"

definition in_pd_pool :: "parsed_ip \<Rightarrow> pd_pool \<Rightarrow> bool" where
  "in_pd_pool p q = is_in_prefix_range p (pd_prefix q) (pd_prefix_len q) (pd_delegated_len q)"

definition is_any_address_in_pools ::
    "(ipnet \<Rightarrow> 8 word list \<times> 8 word list) \<Rightarrow> string list \<Rightarrow> pool list \<Rightarrow> bool" where
  "is_any_address_in_pools address_range addresses pools =
     list_ex (\<lambda>a. case parse_ip a of None \<Rightarrow> False | Some p \<Rightarrow> list_ex (in_pool address_range p) pools) addresses"

definition is_any_ip_reservation_in_pools ::
    "(ipnet \<Rightarrow> 8 word list \<times> 8 word list) \<Rightarrow> string list \<Rightarrow> pool list \<Rightarrow> bool" where
  "is_any_ip_reservation_in_pools address_range addresses pools =
     list_ex (\<lambda>a. case parse_ip a of None \<Rightarrow> False
                | Some p \<Rightarrow> \<not> pip_prefix p \<and> list_ex (in_pool address_range p) pools) addresses"

definition is_any_ip_reservation_in_pd_pools :: "string list \<Rightarrow> pd_pool list \<Rightarrow> bool" where
  "is_any_ip_reservation_in_pd_pools addresses pools =
     list_ex (\<lambda>a. case parse_ip a of None \<Rightarrow> False | Some p \<Rightarrow> pip_prefix p \<and> list_ex (in_pd_pool p) pools) addresses"

definition is_any_prefix_in_pools :: "string list \<Rightarrow> pd_pool list \<Rightarrow> bool" where
  "is_any_prefix_in_pools pds pools =
     list_ex (\<lambda>a. case parse_ip a of None \<Rightarrow> False | Some p \<Rightarrow> list_ex (in_pd_pool p) pools) pds"

text \<open>
  The loops over the reservations of a subnet: whether a reservation of addresses exists, and
  whether one is in a pool, which ends the loop.  \<open>has\<close> and \<open>hit\<close> are the two tests.
\<close>

fun scan_reservations :: "('r \<Rightarrow> bool) \<Rightarrow> ('r \<Rightarrow> bool) \<Rightarrow> 'r list \<Rightarrow> bool \<Rightarrow> bool \<times> bool" where
  "scan_reservations has hit [] exists = (exists, False)"
| "scan_reservations has hit (r # rs) exists =
     (if has r then (if hit r then (True, True) else scan_reservations has hit rs True)
      else scan_reservations has hit rs exists)"

text \<open>A host of the database counts as a reservation even when it has no address.\<close>

fun scan_hosts :: "(string list \<Rightarrow> bool) \<Rightarrow> db_host list \<Rightarrow> bool \<Rightarrow> bool \<times> bool" where
  "scan_hosts hit [] exists = (exists, False)"
| "scan_hosts hit (h # hs) exists =
     (let ips = get_ip_reservations h in
      if length ips > 0 \<and> hit ips then (True, True) else scan_hosts hit hs True)"

definition out_of_pool_enabled :: "config \<Rightarrow> shared_network \<Rightarrow> subnet \<Rightarrow> bool" where
  "out_of_pool_enabled c n s =
     is_in_any_reservation_modes is_out_of_pool_mode
       [sp_reservation_parameters (subnet_parameters_of s), sp_reservation_parameters (network_parameters_of n),
        get_global_reservation_parameters c]"

definition subnet_out_of_pool ::
    "(reservation \<Rightarrow> bool) \<Rightarrow> (subnet \<Rightarrow> reservation \<Rightarrow> bool) \<Rightarrow> (subnet \<Rightarrow> string list \<Rightarrow> bool) \<Rightarrow>
     config \<Rightarrow> hosts_by_subnet \<Rightarrow> shared_network \<Rightarrow> subnet \<Rightarrow> bool" where
  "subnet_out_of_pool has hit db_hit c db_hosts n s =
     (if out_of_pool_enabled c n s then False
      else if subnet_reservations s = [] \<and> db_hosts = [] then False
      else (let (exists, in_pools) = scan_reservations has (hit s) (subnet_reservations s) False;
                (exists, in_pools) =
                  (if \<not> in_pools then scan_hosts (db_hit s) (hosts_at db_hosts (subnet_id s)) exists else (exists, in_pools))
            in exists \<and> \<not> in_pools))"

definition has_address4 :: "reservation \<Rightarrow> bool" where
  "has_address4 r = (length (rv_ip_address r) > 0)"

definition has_address6 :: "reservation \<Rightarrow> bool" where
  "has_address6 r = (length (rv_ip_addresses r) > 0 \<or> length (rv_prefixes r) > 0)"

definition hit4 :: "(ipnet \<Rightarrow> 8 word list \<times> 8 word list) \<Rightarrow> subnet \<Rightarrow> reservation \<Rightarrow> bool" where
  "hit4 address_range s r = is_any_address_in_pools address_range [rv_ip_address r] (subnet_pools s)"

definition hit6 :: "(ipnet \<Rightarrow> 8 word list \<times> 8 word list) \<Rightarrow> subnet \<Rightarrow> reservation \<Rightarrow> bool" where
  "hit6 address_range s r =
     (is_any_address_in_pools address_range (rv_ip_addresses r) (subnet_pools s) \<or>
      is_any_prefix_in_pools (rv_prefixes r) (subnet_pd_pools s))"

definition db_hit4 :: "(ipnet \<Rightarrow> 8 word list \<times> 8 word list) \<Rightarrow> subnet \<Rightarrow> string list \<Rightarrow> bool" where
  "db_hit4 address_range s ips = is_any_ip_reservation_in_pools address_range ips (subnet_pools s)"

definition db_hit6 :: "(ipnet \<Rightarrow> 8 word list \<times> 8 word list) \<Rightarrow> subnet \<Rightarrow> string list \<Rightarrow> bool" where
  "db_hit6 address_range s ips =
     (is_any_ip_reservation_in_pools address_range ips (subnet_pools s) \<or>
      is_any_ip_reservation_in_pd_pools ips (subnet_pd_pools s))"

definition count_out_of_pool ::
    "(reservation \<Rightarrow> bool) \<Rightarrow> (subnet \<Rightarrow> reservation \<Rightarrow> bool) \<Rightarrow> (subnet \<Rightarrow> string list \<Rightarrow> bool) \<Rightarrow>
     config \<Rightarrow> hosts_by_subnet \<Rightarrow> shared_network list \<Rightarrow> int" where
  "count_out_of_pool has hit db_hit c db_hosts ns =
     int (length (concat (map (\<lambda>n. filter (subnet_out_of_pool has hit db_hit c db_hosts n) (network_subnets n)) ns)))"

definition check_dhcpv4_reservations_out_of_pool ::
    "(ipnet \<Rightarrow> 8 word list \<times> 8 word list) \<Rightarrow> check_context \<Rightarrow> check_result" where
  "check_dhcpv4_reservations_out_of_pool address_range cx =
     (case get_daemon_hosts_and_index_by_subnet cx of
        Inl e \<Rightarrow> Done (Inl (DatabaseFailed e))
      | Inr (_, db_hosts) \<Rightarrow>
          (let n = count_out_of_pool has_address4 (hit4 address_range) (db_hit4 address_range) (cx_config cx) db_hosts
                     (get_shared_networks (cx_config cx) True)
           in if n > 0
              then issue cx
                (''Kea {daemon} configuration includes '' @ format_noun n ''subnet'' ''s'' @ '' for which it is '' @
                 ''recommended to use out-of-pool host-reservation mode. '' @
                 ''Reservations specified for these subnets are outside the '' @
                 ''dynamic address pools. Using out-of-pool reservation mode '' @
                 ''prevents Kea from checking host-reservation existence when '' @
                 ''allocating in-pool addresses, thus improving performance.'') [cx_daemon_id cx]
              else no_issue))"

definition check_dhcpv6_reservations_out_of_pool ::
    "(ipnet \<Rightarrow> 8 word list \<times> 8 word list) \<Rightarrow> check_context \<Rightarrow> check_result" where
  "check_dhcpv6_reservations_out_of_pool address_range cx =
     (case get_daemon_hosts_and_index_by_subnet cx of
        Inl e \<Rightarrow> Done (Inl (DatabaseFailed e))
      | Inr (_, db_hosts) \<Rightarrow>
          (let n = count_out_of_pool has_address6 (hit6 address_range) (db_hit6 address_range) (cx_config cx) db_hosts
                     (get_shared_networks (cx_config cx) True)
           in if n > 0
              then issue cx
                (''Kea {daemon} configuration includes '' @ format_noun n ''subnet'' ''s'' @ '' for which it is '' @
                 ''recommended to use out-of-pool host-reservation mode. '' @
                 ''Reservations specified for these subnets appear outside the '' @
                 ''dynamic-address and/or prefix-delegation pools. Using '' @
                 ''out-of-pool reservation mode prevents Kea from checking '' @
                 ''host-reservation existence when allocating in-pool '' @
                 ''addresses and delegated prefixes, thus improving performance.'') [cx_daemon_id cx]
              else no_issue))"

definition reservations_out_of_pool ::
    "(ipnet \<Rightarrow> 8 word list \<times> 8 word list) \<Rightarrow> check_context \<Rightarrow> check_result" where
  "reservations_out_of_pool address_range cx =
     (if \<not> is_dhcp_daemon cx then unsupported cx
      else if cx_daemon_name cx = ''dhcp4'' then check_dhcpv4_reservations_out_of_pool address_range cx
      else check_dhcpv6_reservations_out_of_pool address_range cx)"

section \<open>Overlapping subnets and canonical prefixes\<close>

fun binary_prefixes :: "subnet list \<Rightarrow> (subnet \<times> string) list" where
  "binary_prefixes [] = []"
| "binary_prefixes (s # ss) =
     (case parse_ip (subnet_prefix s) of
        None \<Rightarrow> binary_prefixes ss
      | Some cidr \<Rightarrow>
          if \<not> pip_prefix cidr then binary_prefixes ss
          else (s, get_network_prefix_as_binary cidr) # binary_prefixes ss)"

text \<open>The order that is given to \<open>sort.Slice\<close>; it also holds between entries that are equal in it.\<close>

definition prefix_before :: "subnet \<times> string \<Rightarrow> subnet \<times> string \<Rightarrow> bool" where
  "prefix_before a b =
     (if length (snd a) \<noteq> length (snd b) then length (snd a) < length (snd b)
      else if snd a \<noteq> snd b then snd a < snd b
      else subnet_id (fst a) \<le> subnet_id (fst b))"

text \<open>
  The two loops.  For each outer entry the inner ones after it are compared; the search ends
  when \<open>limit\<close> pairs are found.
\<close>

fun inner_loop :: "int \<Rightarrow> subnet \<times> string \<Rightarrow> (subnet \<times> string) list \<Rightarrow> (subnet \<times> subnet) list \<Rightarrow> (subnet \<times> subnet) list \<times> bool" where
  "inner_loop limit outer [] overlaps = (overlaps, False)"
| "inner_loop limit outer (i # rest) overlaps =
     (if prefix (snd outer) (snd i)
      then (let overlaps = overlaps @ [(fst outer, fst i)] in
            if int (length overlaps) = limit then (overlaps, True) else inner_loop limit outer rest overlaps)
      else inner_loop limit outer rest overlaps)"

fun outer_loop :: "int \<Rightarrow> (subnet \<times> string) list \<Rightarrow> (subnet \<times> subnet) list \<Rightarrow> (subnet \<times> subnet) list" where
  "outer_loop limit [] overlaps = overlaps"
| "outer_loop limit (o1 # os) overlaps =
     (case inner_loop limit o1 os overlaps of
        (overlaps, done1) \<Rightarrow> if done1 then overlaps else outer_loop limit os overlaps)"

definition find_overlaps ::
    "((subnet \<times> string) list \<Rightarrow> (subnet \<times> string) list) \<Rightarrow> subnet list \<Rightarrow> int \<Rightarrow> (subnet \<times> subnet) list" where
  "find_overlaps sort_slice subnets limit = outer_loop limit (sort_slice (binary_prefixes subnets)) []"

definition id_text :: "subnet \<Rightarrow> string" where
  "id_text s = (if subnet_id s \<noteq> 0 then ''['' @ int_str (subnet_id s) @ ''] '' else [])"

fun overlap_messages :: "int \<Rightarrow> (subnet \<times> subnet) list \<Rightarrow> string list" where
  "overlap_messages i [] = []"
| "overlap_messages i ((p, c) # os) =
     (int_str i @ ''. '' @ id_text p @ subnet_prefix p @ '' is overlapped by '' @ id_text c @ subnet_prefix c)
       # overlap_messages (i + 1) os"

text \<open>The subnets at the top and those of the shared networks.\<close>

definition daemon_subnets :: "check_context \<Rightarrow> subnet list" where
  "daemon_subnets cx =
     get_subnets (cx_config cx) @ concat (map network_subnets (get_shared_networks (cx_config cx) False))"

definition subnets_overlapping ::
    "((subnet \<times> string) list \<Rightarrow> (subnet \<times> string) list) \<Rightarrow> check_context \<Rightarrow> check_result" where
  "subnets_overlapping sort_slice cx =
     (if \<not> is_dhcp_daemon cx then unsupported cx
      else (let overlaps = find_overlaps sort_slice (daemon_subnets cx) 10 in
            if length overlaps = 0 then no_issue
            else issue cx
              (''Kea {daemon} configuration '' @ ''includes'' @ (if length overlaps = 10 then '' at least'' else []) @ '' '' @
               format_noun (int (length overlaps)) ''overlapping subnet pair'' ''s'' @
               ''. It means that the DHCP clients in different subnets '' @
               ''may be assigned the same IP addresses.'' @ [CHR 0x0A] @
               strings_join ''; '' (overlap_messages 1 overlaps)) [cx_daemon_id cx]))"

text \<open>
  \<open>getCanonicalPrefix\<close>.  The expected address is the parsed network prefix; its bytes are
  indexed by the position of each byte of the candidate.
\<close>

fun same_bytes :: "8 word list \<Rightarrow> 8 word list \<Rightarrow> bool run" where
  "same_bytes [] ex = Done True"
| "same_bytes (b # bs) [] = Panic"
| "same_bytes (b # bs) (e # es) = (if b \<noteq> e then Done False else same_bytes bs es)"

definition get_canonical_prefix :: "string \<Rightarrow> (string \<times> bool) run" where
  "get_canonical_prefix p =
     (case parse_ip p of
        None \<Rightarrow> Done ([], False)
      | Some candidate \<Rightarrow>
          (case parse_ip (pip_network_prefix candidate) of
             None \<Rightarrow> Panic
           | Some expected \<Rightarrow>
               bind_run (same_bytes (pip_ip candidate) (pip_ip expected))
                 (\<lambda>same. Done (get_network_prefix_with_length candidate, same))))"

fun canonical_issues :: "subnet list \<Rightarrow> string list \<Rightarrow> string list run" where
  "canonical_issues [] issues = Done issues"
| "canonical_issues (s # ss) issues =
     bind_run (get_canonical_prefix (subnet_prefix s)) (\<lambda>(pfx, ok).
       if ok then canonical_issues ss issues
       else (let text1 = int_str (int (length issues) + 1) @ ''. '' @ id_text s @ subnet_prefix s @ '' is invalid prefix'' @
                         (if pfx \<noteq> [] then '', expected: '' @ pfx else []);
                 issues = issues @ [text1]
             in if length issues = 10 then Done issues else canonical_issues ss issues))"

definition canonical_prefixes :: "check_context \<Rightarrow> check_result" where
  "canonical_prefixes cx =
     (if \<not> is_dhcp_daemon cx then unsupported cx
      else bind_run (canonical_issues (daemon_subnets cx) []) (\<lambda>issues.
        if length issues = 0 then no_issue
        else issue cx
          (''Kea {daemon} configuration '' @ ''contains'' @ (if length issues = 10 then '' at least'' else []) @ '' '' @
           format_noun (int (length issues)) ''non-canonical prefix'' ''es'' @
           ''. Kea accepts non-canonical prefix forms, which may '' @
           ''lead to duplicates if two subnets have the same prefix specified in '' @
           ''different forms. Use canonical forms to ensure that Kea properly '' @
           ''identifies and validates subnet prefixes to avoid duplication or '' @
           ''overlap.'' @ [CHR 0x0A] @ strings_join ''; '' issues) [cx_daemon_id cx]))"

section \<open>High availability\<close>

definition kea_version :: "check_context \<Rightarrow> semver" where
  "kea_version cx = parse_semantic_version_or_latest (cx_version cx)"

definition high_availability_multi_threading_mode :: "check_context \<Rightarrow> check_result" where
  "high_availability_multi_threading_mode cx =
     (if \<not> config_is_multi_threading_enabled (cx_config cx) (kea_version cx) then no_issue
      else (case get_ha_hook_library (get_hook_libraries (cx_config cx)) of
              None \<Rightarrow> no_issue
            | Some rels \<Rightarrow>
                if \<not> list_ex (\<lambda>r. \<not> ha_is_multi_threading_enabled (kea_version cx) r) rels then no_issue
                else issue cx
                  (''The Kea {daemon} daemon is configured to work '' @
                   ''in multi-threading mode, but the High Availability hooks use '' @
                   ''single-thread mode. You can set the 'multi-threading' parameter '' @
                   ''to true in the HA hook configuration to enable the '' @
                   ''multi-threading mode and improve the performance of the '' @
                   ''communication between HA servers.'') [cx_daemon_id cx]))"

text \<open>The Control Agents of the applications that have an access point at the port.\<close>

definition peer_ca_daemons :: "check_context \<Rightarrow> int \<Rightarrow> peer_app list \<Rightarrow> int list" where
  "peer_ca_daemons cx port apps =
     concat (map (\<lambda>app.
       concat (map (\<lambda>ap.
         if axp_port ap \<noteq> port then []
         else map fst (filter (\<lambda>(i, name). i \<noteq> cx_daemon_id cx \<and> name = ''ca'') (pa_daemons app)))
         (pa_access_points app)))
       apps)"

text \<open>
  The loop over the peers; \<open>None\<close> when no peer collides.  \<open>url_parse\<close> is \<open>url.Parse\<close> with the
  host name and the port of the result.
\<close>

fun check_peers ::
    "(string \<Rightarrow> (string \<times> string) option) \<Rightarrow> check_context \<Rightarrow> ha_peer list \<Rightarrow> check_result option" where
  "check_peers url_parse cx [] = None"
| "check_peers url_parse cx (p # ps) =
     (case (hp_name p, hp_url p, hp_role p) of
        (Some name, Some url, Some role) \<Rightarrow>
          (case url_parse url of
             None \<Rightarrow> check_peers url_parse cx ps
           | Some (host, port) \<Rightarrow>
               (case strconv_parse_int 64 port of
                  None \<Rightarrow> check_peers url_parse cx ps
                | Some peer_port \<Rightarrow>
                    (case cx_machine cx host peer_port of
                       Inl e \<Rightarrow> Some (Done (Inl (DatabaseFailed e)))
                     | Inr None \<Rightarrow> check_peers url_parse cx ps
                     | Inr (Some apps) \<Rightarrow>
                         Some (issue cx
                           (''The {daemon} has enabled High '' @
                            ''Availability hook configured to use dedicated HTTP '' @
                            ''listeners but the connections to the HA ''  @ [CHR 0x27] @ name @ [CHR 0x27] @
                            '' peer with the '' @ [CHR 0x27] @ url @ [CHR 0x27] @ '' '' @
                            ''URL are performed over the Kea Control Agent omitting the '' @
                            ''dedicated HTTP listener of this peer. It may cause the '' @
                            ''bottlenecks that nullify any performance gains offered by HA+MT'' @
                            ''You need to set the peer's HTTP '' @ [CHR 0x27] @ int_str peer_port @ [CHR 0x27] @
                            '' port to the dedicated '' @
                            ''listener's port.'')
                           (cx_daemon_id cx # peer_ca_daemons cx peer_port apps)))))
      | _ \<Rightarrow> check_peers url_parse cx ps)"

definition high_availability_dedicated_ports ::
    "(string \<Rightarrow> (string \<times> string) option) \<Rightarrow> check_context \<Rightarrow> check_result" where
  "high_availability_dedicated_ports url_parse cx =
     (if \<not> config_is_multi_threading_enabled (cx_config cx) (kea_version cx) then no_issue
      else (case get_ha_hook_library (get_hook_libraries (cx_config cx)) of
              None \<Rightarrow> no_issue
            | Some rels \<Rightarrow>
                if list_ex (\<lambda>r. ha_is_multi_threading_enabled (kea_version cx) r \<and>
                                \<not> ha_is_dedicated_listener_enabled (kea_version cx) r) rels
                then issue cx
                  (''The Kea {daemon} daemon is not configured to '' @
                   ''use dedicated HTTP listeners to handle communication between HA '' @
                   ''peers. They will communicate Kea Control Agent. It may cause '' @
                   ''the bottlenecks that nullify any performance gains offered by '' @
                   ''HA+MT. To avoid it, enable the dedicated HTTP listeners in the '' @
                   ''multi-threading configuration of the High-Availability hook. '' @
                   ''Remember that the dedicated listeners must be configured to use '' @
                   ''the HTTP port different from the one used by the Kea Control '' @
                   ''Agent.'') [cx_daemon_id cx]
                else (case check_peers url_parse cx (concat (map hr_peers rels)) of
                        Some r \<Rightarrow> r
                      | None \<Rightarrow> no_issue)))"

section \<open>The Control Agent\<close>

definition credentials_over_https :: "check_context \<Rightarrow> check_result" where
  "credentials_over_https cx =
     (if cx_daemon_name cx \<noteq> ''ca'' then unsupported cx
      else (case cf_ctrl_agent (cx_config cx) of
              None \<Rightarrow> Panic
            | Some ca \<Rightarrow>
                if (case ca_authentication ca of None \<Rightarrow> True | Some a \<Rightarrow> \<not> is_basic_auth a) then no_issue
                else bind_run (use_secure_protocol (cx_config cx)) (\<lambda>secure.
                  if secure then no_issue
                  else issue cx
                    (''The Kea Control Agent requires the Basic Auth '' @
                     ''credentials but it accepts connections over unsecure protocol - TLS '' @
                     ''is disabled. The communication between the Stork Agent and Kea Control '' @
                     ''Agent is vulnerable to man-in-the-middle attacks and the credentials '' @
                     ''may be stolen. '' @
                     ''Configure the 'trust-anchor', 'cert-file', and 'key-file' '' @
                     ''properties in the Kea Control Agent {daemon} configuration to use '' @
                     ''the secure protocol.'') [cx_daemon_id cx])))"

definition control_sockets_ca :: "check_context \<Rightarrow> check_result" where
  "control_sockets_ca cx =
     (if cx_daemon_name cx \<noteq> ''ca'' then unsupported cx
      else (case cf_ctrl_agent (cx_config cx) of
              None \<Rightarrow> Panic
            | Some ca \<Rightarrow>
                (case ca_control_sockets ca of
                   None \<Rightarrow> issue cx
                     (''The control sockets are not specified in the '' @
                      ''Kea Control Agent {daemon} configuration. It causes the Kea '' @
                      ''Control Agent to not connect to the Kea daemons, so Stork cannot '' @
                      ''monitor them. You need to provide the proper socket paths in the '' @
                      [CHR 0x22] @ ''control-sockets'' @ [CHR 0x22] @ '' top-level entry.'') [cx_daemon_id cx]
                 | Some s \<Rightarrow>
                     if \<not> has_any_configured_daemon (Some s)
                     then issue cx
                       (''The control sockets entry in the Kea Control '' @
                        ''Agent {daemon} configuration is empty. It causes the Kea '' @
                        ''Control Agent to not connect to the Kea daemons, so Stork cannot '' @
                        ''monitor them. You need to provide the proper socket paths in the '' @
                        [CHR 0x22] @ ''control-sockets'' @ [CHR 0x22] @ '' top-level entry.'') [cx_daemon_id cx]
                     else if css_dhcp4 s = None \<and> css_dhcp6 s = None
                     then issue cx
                       (''The control sockets entry in the Kea Control '' @
                        ''Agent {daemon} configuration doesn't contain path to any DHCP '' @
                        ''daemon, so Stork cannot detect them. You need to provide the '' @
                        ''proper socket paths in the '' @ [CHR 0x22] @ ''dhcp4'' @ [CHR 0x22] @ '' and/or '' @
                        [CHR 0x22] @ ''dhcp6'' @ [CHR 0x22] @ '' properties '' @
                        ''of the '' @ [CHR 0x22] @ ''control-sockets'' @ [CHR 0x22] @ '' top-level entry.'') [cx_daemon_id cx]
                     else no_issue)))"

section \<open>Exhausted pools\<close>

text \<open>
  The parsed reservations of a subnet, \<open>None\<close> for a text that does not parse.  An address of a
  host in the database is asked for its kind at once, one of the configuration only when a
  pool is compared.
\<close>

definition configured_addresses :: "reservation list \<Rightarrow> parsed_ip option list" where
  "configured_addresses rs =
     concat (map (\<lambda>r. (if rv_ip_address r \<noteq> [] then [parse_ip (rv_ip_address r)] else []) @
                       map parse_ip (rv_ip_addresses r)) rs)"

definition configured_prefixes :: "reservation list \<Rightarrow> parsed_ip option list" where
  "configured_prefixes rs = concat (map (\<lambda>r. map parse_ip (rv_prefixes r)) rs)"

fun host_addresses :: "bool \<Rightarrow> string list \<Rightarrow> parsed_ip option list run" where
  "host_addresses want_prefix [] = Done []"
| "host_addresses want_prefix (a # as) =
     (case parse_ip a of
        None \<Rightarrow> Panic
      | Some p \<Rightarrow>
          bind_run (host_addresses want_prefix as)
            (\<lambda>ps. Done (if pip_prefix p = want_prefix then Some p # ps else ps)))"

definition reserved_addresses :: "hosts_by_subnet \<Rightarrow> subnet \<Rightarrow> parsed_ip option list run" where
  "reserved_addresses db_hosts s =
     bind_run (host_addresses False (concat (map get_ip_reservations (hosts_at db_hosts (subnet_id s)))))
       (\<lambda>ps. Done (configured_addresses (subnet_reservations s) @ ps))"

definition reserved_prefixes :: "hosts_by_subnet \<Rightarrow> subnet \<Rightarrow> parsed_ip option list run" where
  "reserved_prefixes db_hosts s =
     bind_run (host_addresses True (concat (map get_ip_reservations (hosts_at db_hosts (subnet_id s)))))
       (\<lambda>ps. Done (configured_prefixes (subnet_reservations s) @ ps))"

fun count_reserved :: "(parsed_ip \<Rightarrow> bool) \<Rightarrow> parsed_ip option list \<Rightarrow> big_counter \<Rightarrow> big_counter run" where
  "count_reserved inside [] n = Done n"
| "count_reserved inside (a # as) n =
     (case a of
        None \<Rightarrow> Panic
      | Some p \<Rightarrow> count_reserved inside as (if inside p then add_uint64 n 1 else n))"

text \<open>Whether a pool is exhausted; a pool whose text is no range is not.\<close>

definition pool_exhausted ::
    "(ipnet \<Rightarrow> 8 word list \<times> 8 word list) \<Rightarrow> parsed_ip option list \<Rightarrow> pool \<Rightarrow> bool run" where
  "pool_exhausted address_range reserved q =
     (case parse_ip_range address_range (pl_pool q) of
        Inl e \<Rightarrow> Done False
      | Inr (lb, ub) \<Rightarrow>
          bind_run (count_reserved (\<lambda>p. is_in_range p lb ub) reserved (new_big_counter 0))
            (\<lambda>n. Done (\<not> calculate_range_size lb ub > to_big_int n)))"

definition pd_pool_exhausted :: "parsed_ip option list \<Rightarrow> pd_pool \<Rightarrow> bool run" where
  "pd_pool_exhausted reserved q =
     bind_run (count_reserved (\<lambda>p. in_pd_pool p q) reserved (new_big_counter 0))
       (\<lambda>n. Done (\<not> calculate_delegated_prefix_range_size (pd_prefix_len q) (pd_delegated_len q) > to_big_int n))"

text \<open>The loop over the pools of a subnet; it ends when ten issues are collected.\<close>

fun exhausted_pools :: "('p \<Rightarrow> bool run) \<Rightarrow> ('p \<Rightarrow> string) \<Rightarrow> subnet \<Rightarrow> 'p list \<Rightarrow> (subnet \<times> string) list \<Rightarrow> (subnet \<times> string) list run" where
  "exhausted_pools exhausted label s [] issues = Done issues"
| "exhausted_pools exhausted label s (q # qs) issues =
     bind_run (exhausted q) (\<lambda>e.
       if \<not> e then exhausted_pools exhausted label s qs issues
       else (let issues = issues @ [(s, label q)] in
             if length issues = 10 then Done issues else exhausted_pools exhausted label s qs issues))"

fun exhausted_subnets ::
    "(subnet \<Rightarrow> (subnet \<times> string) list \<Rightarrow> (subnet \<times> string) list run) \<Rightarrow> subnet list \<Rightarrow> (subnet \<times> string) list \<Rightarrow>
     (subnet \<times> string) list run" where
  "exhausted_subnets f [] issues = Done issues"
| "exhausted_subnets f (s # ss) issues =
     bind_run (f s issues) (\<lambda>issues. if length issues = 10 then Done issues else exhausted_subnets f ss issues)"

definition subnet_pool_issues ::
    "(ipnet \<Rightarrow> 8 word list \<times> 8 word list) \<Rightarrow> hosts_by_subnet \<Rightarrow> subnet \<Rightarrow> (subnet \<times> string) list \<Rightarrow> (subnet \<times> string) list run" where
  "subnet_pool_issues address_range db_hosts s issues =
     bind_run (reserved_addresses db_hosts s) (\<lambda>reserved.
       exhausted_pools (pool_exhausted address_range reserved) pl_pool s (subnet_pools s) issues)"

definition pd_pool_label :: "pd_pool \<Rightarrow> string" where
  "pd_pool_label q =
     format_cidr_notation (pd_prefix q) (pd_prefix_len q) @ '' del. '' @ int_str (pd_delegated_len q)"

definition subnet_pd_pool_issues :: "hosts_by_subnet \<Rightarrow> subnet \<Rightarrow> (subnet \<times> string) list \<Rightarrow> (subnet \<times> string) list run" where
  "subnet_pd_pool_issues db_hosts s issues =
     bind_run (reserved_prefixes db_hosts s) (\<lambda>reserved.
       exhausted_pools (pd_pool_exhausted reserved) pd_pool_label s (subnet_pd_pools s) issues)"

fun pool_messages :: "int \<Rightarrow> (subnet \<times> string) list \<Rightarrow> string list" where
  "pool_messages i [] = []"
| "pool_messages i ((s, q) # is) =
     (int_str i @ ''. Pool '' @ [CHR 0x27] @ q @ [CHR 0x27] @ '' of the '' @ [CHR 0x27] @ id_text s @ subnet_prefix s @
      [CHR 0x27] @ '' subnet.'') # pool_messages (i + 1) is"

definition count_message :: "nat \<Rightarrow> string" where
  "count_message n =
     (if n < 10 then ''Found '' @ format_noun (int n) ''affected pool'' ''s'' else ''First 10 affected pools'')"

definition address_pools_exhausted_by_reservations ::
    "(ipnet \<Rightarrow> 8 word list \<times> 8 word list) \<Rightarrow> check_context \<Rightarrow> check_result" where
  "address_pools_exhausted_by_reservations address_range cx =
     (if \<not> is_dhcp_daemon cx then unsupported cx
      else (case get_daemon_hosts_and_index_by_subnet cx of
              Inl e \<Rightarrow> Done (Inl (DatabaseFailed e))
            | Inr (_, db_hosts) \<Rightarrow>
                bind_run (exhausted_subnets (subnet_pool_issues address_range db_hosts) (get_subnets (cx_config cx)) [])
                  (\<lambda>issues.
                     if length issues = 0 then no_issue
                     else issue cx
                       (''Kea {daemon} configuration contains '' @
                        ''address pools with the number of in-pool IP reservations equal '' @
                        ''to their size. The devices lacking the reservations will not get '' @
                        ''addresses from these pools. '' @ count_message (length issues) @ '':'' @ [CHR 0x0A] @
                        strings_join [CHR 0x0A] (pool_messages 1 issues)) [cx_daemon_id cx])))"

definition delegated_prefix_pools_exhausted_by_reservations :: "check_context \<Rightarrow> check_result" where
  "delegated_prefix_pools_exhausted_by_reservations cx =
     (if \<not> is_dhcp_daemon cx then unsupported cx
      else (case get_daemon_hosts_and_index_by_subnet cx of
              Inl e \<Rightarrow> Done (Inl (DatabaseFailed e))
            | Inr (_, db_hosts) \<Rightarrow>
                bind_run (exhausted_subnets (subnet_pd_pool_issues db_hosts) (get_subnets (cx_config cx)) [])
                  (\<lambda>issues.
                     if length issues = 0 then no_issue
                     else issue cx
                       (''Kea {daemon} configuration contains '' @
                        ''delegated prefix pools with the number of in-pool PD reservations equal '' @
                        ''to their size. The devices lacking the reservations will not get '' @
                        ''prefix from these pools. '' @ count_message (length issues) @ '':'' @ [CHR 0x0A] @
                        strings_join [CHR 0x0A] (pool_messages 1 issues)) [cx_daemon_id cx])))"

section \<open>Statistics that overflow\<close>

definition is_int64 :: "int \<Rightarrow> bool" where
  "is_int64 v = (- (2 ^ 63) \<le> v \<and> v < 2 ^ 63)"

text \<open>
  The sums over the pools of a subnet and the subnets of a network.  \<open>Inl (Inl e)\<close> is an error,
  \<open>Inl (Inr reason)\<close> an overflow, \<open>Inr\<close> the sum.
\<close>

fun add_pool_sizes ::
    "('p \<Rightarrow> range_error + int) \<Rightarrow> string \<Rightarrow> subnet \<Rightarrow> 'p list \<Rightarrow> int \<Rightarrow> (check_error + string) + int" where
  "add_pool_sizes measure1 what s [] sum1 = Inr sum1"
| "add_pool_sizes measure1 what s (q # qs) sum1 =
     (case measure1 q of
        Inl e \<Rightarrow> Inl (Inl (BadBoundaries e (subnet_prefix s)))
      | Inr n \<Rightarrow>
          (let sum1 = sum1 + n in
           if \<not> is_int64 sum1
           then Inl (Inr (''the '' @ [CHR 0x27] @ subnet_prefix s @ [CHR 0x27] @ '' subnet has more than 2^63-1 '' @ what))
           else add_pool_sizes measure1 what s qs sum1))"

fun add_subnet_sizes ::
    "(subnet \<Rightarrow> (check_error + string) + int) \<Rightarrow> string \<Rightarrow> string \<Rightarrow> subnet list \<Rightarrow> int \<Rightarrow> (check_error + string) + int" where
  "add_subnet_sizes measure1 what name [] sum1 = Inr sum1"
| "add_subnet_sizes measure1 what name (s # ss) sum1 =
     (case measure1 s of
        Inl r \<Rightarrow> Inl r
      | Inr n \<Rightarrow>
          (let sum1 = sum1 + n in
           if name \<noteq> [] \<and> \<not> is_int64 sum1
           then Inl (Inr (''the '' @ [CHR 0x27] @ name @ [CHR 0x27] @ '' shared network has more than 2^63-1 '' @ what))
           else add_subnet_sizes measure1 what name ss sum1))"

fun find_exceeding ::
    "(subnet \<Rightarrow> (check_error + string) + int) \<Rightarrow> string \<Rightarrow> shared_network list \<Rightarrow> check_error + string option" where
  "find_exceeding measure1 what [] = Inr None"
| "find_exceeding measure1 what (n # ns) =
     (case add_subnet_sizes measure1 what (network_name n) (network_subnets n) 0 of
        Inl (Inl e) \<Rightarrow> Inl e
      | Inl (Inr reason) \<Rightarrow> Inr (Some reason)
      | Inr sum1 \<Rightarrow> find_exceeding measure1 what ns)"

definition address_pool_size :: "(ipnet \<Rightarrow> 8 word list \<times> 8 word list) \<Rightarrow> pool \<Rightarrow> range_error + int" where
  "address_pool_size address_range q =
     (case get_boundaries address_range q of Inl e \<Rightarrow> Inl e | Inr (lb, ub) \<Rightarrow> Inr (calculate_range_size lb ub))"

definition pd_pool_size :: "pd_pool \<Rightarrow> range_error + int" where
  "pd_pool_size q = Inr (calculate_delegated_prefix_range_size (pd_prefix_len q) (pd_delegated_len q))"

definition find_shared_network_exceeding_address_limit ::
    "(ipnet \<Rightarrow> 8 word list \<times> 8 word list) \<Rightarrow> shared_network list \<Rightarrow> check_error + string option" where
  "find_shared_network_exceeding_address_limit address_range =
     find_exceeding (\<lambda>s. add_pool_sizes (address_pool_size address_range) ''addresses'' s (subnet_pools s) 0) ''addresses''"

definition find_shared_network_exceeding_delegated_prefix_limit :: "shared_network list \<Rightarrow> check_error + string option" where
  "find_shared_network_exceeding_delegated_prefix_limit =
     find_exceeding (\<lambda>s. add_pool_sizes pd_pool_size ''delegated prefixes'' s (subnet_pd_pools s) 0) ''delegated prefixes''"

definition gathering_statistics_unavailable_due_to_number_overflow ::
    "(ipnet \<Rightarrow> 8 word list \<times> 8 word list) \<Rightarrow> check_context \<Rightarrow> check_result" where
  "gathering_statistics_unavailable_due_to_number_overflow address_range cx =
     (if \<not> is_dhcp_daemon cx then unsupported cx
      else if \<not> has_hook_library (cx_config cx) ''libdhcp_stat_cmds'' then no_issue
      else if greater_than_or_equal (kea_version cx) (new_semantic_version 2 5 3) then no_issue
      else (let ns = get_shared_networks (cx_config cx) True in
        case find_shared_network_exceeding_address_limit address_range ns of
          Inl e \<Rightarrow> Done (Inl e)
        | Inr found \<Rightarrow>
            (case (if found = None \<and> cx_daemon_name cx = ''dhcp6''
                   then find_shared_network_exceeding_delegated_prefix_limit ns else Inr found) of
               Inl e \<Rightarrow> Done (Inl e)
             | Inr None \<Rightarrow> no_issue
             | Inr (Some reason) \<Rightarrow>
                 if less_than (kea_version cx) (new_semantic_version 2 3 0)
                 then issue cx
                   (''The Kea {daemon} daemon has configured some very large '' @
                    ''pools. The installed Kea version doesn't handle the '' @
                    ''statistics for so large pools properly. The '' @
                    ''statistics presented by Stork and Prometheus/Grafana may '' @
                    ''be inaccurate. Details: '' @ reason @ ''.'') [cx_daemon_id cx]
                 else issue cx
                   (''The Kea {daemon} daemon has configured some very large '' @
                    ''pools. The installed Kea version doesn't handle the '' @
                    ''statistics for so large pools properly. Stork '' @
                    ''is unable to fetch them. Details: '' @ reason @ ''.'') [cx_daemon_id cx])))"

end
