(* ===== verification/Kea_Checkers_Correct.thy ===== *)
theory Kea_Checkers_Correct
  imports Kea_Checkers "HOL-Library.Product_Lexorder"
begin

text \<open>
  What the checkers of Kea configurations find: overlapping subnets, prefixes with host bits,
  exhausted pools, sizes that overflow the statistics, reservations outside of the pools and
  subnets without use.
\<close>

section \<open>Reports\<close>

lemma strip_first_keeps:
  assumes "\<forall>w \<in> set ws. filter P w = []"
  shows "strip_first ws s = Some t \<Longrightarrow> filter P t = filter P s"
  using assms
proof (induction ws)
  case (Cons w ws)
  show ?case
  proof (cases "take (length w) s = w")
    case True
    then have "s = w @ t" using Cons.prems(1) by (metis append_take_drop_id option.inject strip_first.simps(2))
    with Cons.prems(2) show ?thesis by simp
  qed (use Cons in auto)
qed simp

lemma trim_left_n_keeps:
  assumes "\<forall>w \<in> set ws. filter P w = []"
  shows "filter P (trim_left_n n ws s) = filter P s"
proof (induction n arbitrary: s)
  case (Suc n)
  then show ?case using strip_first_keeps [OF assms, of s] by (auto split: option.split)
qed simp

lemma filter_graphic_trim: "filter graphic (trim_space s) = filter graphic s"
proof -
  have g: "\<forall>w \<in> set space_codes. filter graphic w = []"
    using space_codes_not_graphic by (auto simp: filter_empty_conv)
  then have r: "\<forall>w \<in> set (map rev space_codes). filter graphic w = []" by (auto simp flip: rev_filter)
  show ?thesis
    by (simp add: trim_space_def Let_def trim_left_n_keeps [OF g] trim_left_n_keeps [OF r] flip: rev_filter)
qed

lemma trim_space_not_empty: "s \<noteq> [] \<Longrightarrow> graphic (hd s) \<Longrightarrow> trim_space s \<noteq> []"
  using filter_graphic_trim [of s] by (cases s) auto

lemma graphic_letters [simp]: "graphic CHR ''K''" "graphic CHR ''T''" "graphic CHR ''I''"
  by code_simp+

definition reported :: "check_result \<Rightarrow> bool" where
  "reported r = (\<exists>p. r = Done (Inr (Some p)))"

lemma issue_created:
  assumes "cx_daemon_id cx \<noteq> 0" and "content \<noteq> []" and "graphic (hd content)"
  shows "issue cx content [cx_daemon_id cx] =
    Done (Inr (Some \<lparr>rp_content = Some (trim_space content), rp_daemon_id = cx_daemon_id cx, rp_ref_daemon_ids = [cx_daemon_id cx]\<rparr>))"
  using assms trim_space_not_empty [OF assms(2,3)]
  by (simp add: issue_def new_report_def referencing_daemon_def create_report_def)



lemma reported_issue [simp]:
  "cx_daemon_id cx \<noteq> 0 \<Longrightarrow> content \<noteq> [] \<Longrightarrow> graphic (hd content) \<Longrightarrow> reported (issue cx content [cx_daemon_id cx])"
  by (simp add: reported_def issue_created)



lemma not_reported [simp]: "\<not> reported no_issue" "\<not> reported (unsupported cx)" "\<not> reported Panic"
  by (simp_all add: reported_def no_issue_def unsupported_def)

section \<open>Pairs of entries\<close>

fun pair_count :: "('a \<Rightarrow> 'a \<Rightarrow> bool) \<Rightarrow> 'a list \<Rightarrow> nat" where
  "pair_count R [] = 0"
| "pair_count R (x # xs) = length (filter (R x) xs) + pair_count R xs"

lemma pair_count_cong:
  "(\<And>a b. a \<in> set xs \<Longrightarrow> b \<in> set xs \<Longrightarrow> R a b = S a b) \<Longrightarrow> pair_count R xs = pair_count S xs"
proof (induction xs)
  case (Cons x xs)
  then have "filter (R x) xs = filter (S x) xs" by (intro filter_cong) auto
  with Cons show ?case by simp
qed simp

lemma pair_count_map: "pair_count R (map f xs) = pair_count (\<lambda>a b. R (f a) (f b)) xs"
  by (induction xs) (simp_all add: filter_map o_def)

lemma pair_count_none: "(\<And>a b. \<not> R a b) \<Longrightarrow> pair_count R xs = 0"
  by (induction xs) simp_all

lemma pair_count_filter: "pair_count R (filter P xs) = pair_count (\<lambda>a b. P a \<and> P b \<and> R a b) xs"
  by (induction xs) (simp_all add: conj_commute conj_left_commute)

lemma pair_count_double:
  assumes "\<And>a b. R a b = R b a"
  shows "(\<Sum>x\<leftarrow>xs. length (filter (R x) xs)) = 2 * pair_count R xs + length (filter (\<lambda>x. R x x) xs)"
proof (induction xs)
  case (Cons x xs)
  have "length (filter (R y) (x # xs)) = (if R x y then 1 else 0) + length (filter (R y) xs)" for y
    using assms [of y x] by (cases "R x y") simp_all
  then have "(\<Sum>y\<leftarrow>xs. length (filter (R y) (x # xs))) = (\<Sum>y\<leftarrow>xs. (if R x y then 1 else 0)) + (\<Sum>y\<leftarrow>xs. length (filter (R y) xs))"
    by (simp only: sum_list_addf)
  moreover have "(\<Sum>y\<leftarrow>ys. (if R x y then 1 else 0)) = length (filter (R x) ys)" for ys by (induction ys) auto
  ultimately show ?case using Cons by simp
qed simp

lemma pair_count_mset:
  assumes "\<And>a b. R a b = R b a" and "mset xs = mset ys"
  shows "pair_count R xs = pair_count R ys"
proof -
  have f: "length (filter P xs) = length (filter P ys)" for P
    using assms(2) by (metis mset_filter size_mset)
  have "(\<Sum>x\<leftarrow>xs. length (filter (R x) xs)) = (\<Sum>x\<leftarrow>xs. length (filter (R x) ys))" by (simp add: f)
  also have "\<dots> = sum_mset (image_mset (\<lambda>x. length (filter (R x) ys)) (mset xs))" by (metis mset_map sum_mset_sum_list)
  also have "\<dots> = (\<Sum>x\<leftarrow>ys. length (filter (R x) ys))" unfolding assms(2) by (metis mset_map sum_mset_sum_list)
  finally have "2 * pair_count R xs + length (filter (\<lambda>x. R x x) xs) = 2 * pair_count R ys + length (filter (\<lambda>x. R x x) ys)"
    unfolding pair_count_double [OF assms(1)] .
  then show ?thesis using f [of "\<lambda>x. R x x"] by simp
qed

lemma pair_count_card:
  "pair_count R xs = card {(i, j). i < j \<and> j < length xs \<and> R (xs ! i) (xs ! j)}"
proof (induction xs)
  case (Cons x xs)
  let ?A = "{(i, j). i < j \<and> j < length xs \<and> R (xs ! i) (xs ! j)}"
  let ?B = "{j. j < length xs \<and> R x (xs ! j)}"
  have "{(i, j). i < j \<and> j < length (x # xs) \<and> R ((x # xs) ! i) ((x # xs) ! j)} =
      (\<lambda>j. (0, Suc j)) ` ?B \<union> (\<lambda>(i, j). (Suc i, Suc j)) ` ?A" (is "?L = ?U \<union> ?V")
  proof
    show "?L \<subseteq> ?U \<union> ?V"
    proof
      fix p assume "p \<in> ?L"
      then obtain i j where p: "p = (i, Suc j)" "i < Suc j" "j < length xs" "R ((x # xs) ! i) (xs ! j)"
        by (auto simp: less_Suc_eq_0_disj)
      then show "p \<in> ?U \<union> ?V" by (cases i) auto
    qed
  qed auto
  moreover have "finite ?A" by (rule finite_subset [of _ "{..<length xs} \<times> {..<length xs}"]) auto
  moreover have "?U \<inter> ?V = {}" by auto
  moreover have "card ?U = card ?B" by (rule card_image) (simp add: inj_on_def)
  moreover have "card ?V = card ?A" by (rule card_image) (auto simp: inj_on_def)
  moreover have "length (filter (R x) xs) = card ?B" by (rule length_filter_conv_card)
  ultimately show ?case using Cons by (simp add: card_Un_disjoint)
qed simp

section \<open>Overlapping subnets\<close>

text \<open>All the pairs that the loops visit and report.\<close>

definition hits :: "subnet \<times> string \<Rightarrow> (subnet \<times> string) list \<Rightarrow> (subnet \<times> subnet) list" where
  "hits o1 xs = map (\<lambda>i. (fst o1, fst i)) (filter (\<lambda>i. prefix (snd o1) (snd i)) xs)"

fun all_hits :: "(subnet \<times> string) list \<Rightarrow> (subnet \<times> subnet) list" where
  "all_hits [] = []"
| "all_hits (o1 # xs) = hits o1 xs @ all_hits xs"

lemma inner_loop_take:
  "int (length ov) < limit \<Longrightarrow>
   inner_loop limit o1 xs ov = (take (nat limit) (ov @ hits o1 xs), int (length (ov @ hits o1 xs)) \<ge> limit)"
proof (induction xs arbitrary: ov)
  case (Cons i xs)
  show ?case
  proof (cases "prefix (snd o1) (snd i)")
    case True
    then have h: "hits o1 (i # xs) = (fst o1, fst i) # hits o1 xs" by (simp add: hits_def)
    show ?thesis
    proof (cases "int (length (ov @ [(fst o1, fst i)])) = limit")
      case True': True
      then have "nat limit = Suc (length ov)" by simp
      with True' True h show ?thesis by (simp add: Let_def)
    next
      case False
      with Cons.prems have "int (length (ov @ [(fst o1, fst i)])) < limit" by simp
      from Cons.IH [OF this] True False h show ?thesis by (simp add: Let_def)
    qed
  next
    case False
    then have "hits o1 (i # xs) = hits o1 xs" by (simp add: hits_def)
    with False Cons show ?thesis by simp
  qed
qed (simp add: hits_def)

lemma outer_loop_take:
  "int (length ov) < limit \<Longrightarrow> outer_loop limit xs ov = take (nat limit) (ov @ all_hits xs)"
proof (induction xs arbitrary: ov)
  case (Cons o1 xs)
  show ?case
  proof (cases "int (length (ov @ hits o1 xs)) \<ge> limit")
    case True
    then have "take (nat limit) (ov @ hits o1 xs) = take (nat limit) ((ov @ hits o1 xs) @ all_hits xs)" by simp
    with True Cons.prems show ?thesis by (simp add: inner_loop_take)
  next
    case False
    then have "take (nat limit) (ov @ hits o1 xs) = ov @ hits o1 xs" by simp
    with False Cons.prems Cons.IH [of "ov @ hits o1 xs"] show ?thesis by (simp add: inner_loop_take)
  qed
qed simp

definition comparable :: "subnet \<times> string \<Rightarrow> subnet \<times> string \<Rightarrow> bool" where
  "comparable a b = (prefix (snd a) (snd b) \<or> prefix (snd b) (snd a))"

lemma prefix_before_comparable: "prefix_before a b \<Longrightarrow> prefix (snd a) (snd b) \<longleftrightarrow> comparable a b"
proof -
  assume b: "prefix_before a b"
  then have l: "length (snd a) \<le> length (snd b)" by (auto simp: prefix_before_def split: if_splits)
  have "prefix (snd a) (snd b)" if "prefix (snd b) (snd a)"
  proof -
    have "snd b = snd a" using that l prefix_length_le [OF that] by (auto simp: prefix_def)
    then show ?thesis by simp
  qed
  then show ?thesis by (auto simp: comparable_def)
qed

lemma all_hits_count:
  "sorted_wrt prefix_before xs \<Longrightarrow> length (all_hits xs) = pair_count comparable xs"
proof (induction xs)
  case (Cons x xs)
  then have "filter (\<lambda>i. prefix (snd x) (snd i)) xs = filter (comparable x) xs"
    using prefix_before_comparable by (intro filter_cong) auto
  with Cons show ?case by (simp add: hits_def)
qed simp

lemma all_hits_members:
  "(p, c) \<in> set (all_hits xs) \<Longrightarrow> \<exists>a b. (p, a) \<in> set xs \<and> (c, b) \<in> set xs \<and> prefix a b"
  by (induction xs) (fastforce simp: hits_def)+

definition prefix_of :: "subnet \<Rightarrow> parsed_ip option" where
  "prefix_of s = (case parse_ip (subnet_prefix s) of None \<Rightarrow> None | Some p \<Rightarrow> if pip_prefix p then Some p else None)"

lemma binary_prefixes_eq:
  "binary_prefixes ss = map (\<lambda>s. (s, get_network_prefix_as_binary (the (prefix_of s)))) (filter (\<lambda>s. prefix_of s \<noteq> None) ss)"
  by (induction ss) (auto simp: prefix_of_def split: option.splits)

text \<open>The addresses of a subnet; a prefix that does not parse has none.\<close>

definition network :: "subnet \<Rightarrow> 8 word list set" where
  "network s = (case prefix_of s of None \<Rightarrow> {} | Some p \<Rightarrow> addresses_of p)"

definition plain_subnet :: "subnet \<Rightarrow> bool" where
  "plain_subnet s = (case prefix_of s of None \<Rightarrow> True | Some p \<Rightarrow> plain_prefix p)"

lemma prefix_of_parse: "prefix_of s = Some p \<Longrightarrow> parse_ip (subnet_prefix s) = Some p"
  by (auto simp: prefix_of_def split: option.splits if_splits)

lemma comparable_networks:
  assumes "plain_subnet s" and "plain_subnet t"
  shows "prefix_of s \<noteq> None \<and> prefix_of t \<noteq> None \<and>
      comparable (s, get_network_prefix_as_binary (the (prefix_of s))) (t, get_network_prefix_as_binary (the (prefix_of t)))
    \<longleftrightarrow> network s \<inter> network t \<noteq> {}"
proof (cases "prefix_of s")
  case p: (Some p)
  show ?thesis
  proof (cases "prefix_of t")
    case q: (Some q)
    have "plain_prefix p" "plain_prefix q" using assms p q by (simp_all add: plain_subnet_def)
    from nested_networks [OF prefix_of_parse [OF p] this(1) prefix_of_parse [OF q] this(2)]
    show ?thesis by (auto simp: comparable_def network_def p q)
  qed (simp add: network_def)
qed (simp add: network_def)

lemma overlaps_count:
  assumes "mset (sort_slice (binary_prefixes ss)) = mset (binary_prefixes ss)"
    and "sorted_wrt prefix_before (sort_slice (binary_prefixes ss))" and "\<forall>s \<in> set ss. plain_subnet s"
  shows "length (all_hits (sort_slice (binary_prefixes ss))) =
    card {(i, j). i < j \<and> j < length ss \<and> network (ss ! i) \<inter> network (ss ! j) \<noteq> {}}"
proof -
  have "length (all_hits (sort_slice (binary_prefixes ss))) = pair_count comparable (sort_slice (binary_prefixes ss))"
    by (rule all_hits_count [OF assms(2)])
  also have "\<dots> = pair_count comparable (binary_prefixes ss)"
    by (rule pair_count_mset [OF _ assms(1)]) (auto simp: comparable_def)
  also have "\<dots> = pair_count (\<lambda>s t. network s \<inter> network t \<noteq> {}) ss"
    unfolding binary_prefixes_eq pair_count_map pair_count_filter
    by (rule pair_count_cong) (use assms(3) comparable_networks in blast)
  finally show ?thesis unfolding pair_count_card .
qed

lemma overlaps_nested:
  assumes "mset (sort_slice (binary_prefixes ss)) = mset (binary_prefixes ss)" and "\<forall>s \<in> set ss. plain_subnet s"
    and "(p, c) \<in> set (all_hits (sort_slice (binary_prefixes ss)))"
  shows "p \<in> set ss \<and> c \<in> set ss \<and> network c \<subseteq> network p"
proof -
  have set: "set (sort_slice (binary_prefixes ss)) = set (binary_prefixes ss)" by (rule mset_eq_setD [OF assms(1)])
  obtain a b where ab: "(p, a) \<in> set (binary_prefixes ss)" "(c, b) \<in> set (binary_prefixes ss)" "prefix a b"
    using all_hits_members [OF assms(3)] unfolding set by blast
  then obtain x y where xy: "prefix_of p = Some x" "prefix_of c = Some y" "a = get_network_prefix_as_binary x"
    "b = get_network_prefix_as_binary y" "p \<in> set ss" "c \<in> set ss"
    unfolding binary_prefixes_eq by auto
  have "plain_subnet p" "plain_subnet c" using assms(2) xy(5,6) by blast+
  then have "plain_prefix x" "plain_prefix y" using xy(1,2) by (simp_all add: plain_subnet_def)
  from nested_networks [OF prefix_of_parse [OF xy(1)] this(1) prefix_of_parse [OF xy(2)] this(2)]
  show ?thesis using ab(3) xy by (simp add: network_def)
qed


text \<open>A sorting function as the theorem asks for, and a configuration with an overlap.\<close>

definition prefix_key :: "subnet \<times> string \<Rightarrow> nat \<times> string \<times> int" where
  "prefix_key a = (length (snd a), snd a, subnet_id (fst a))"

lemma sort_key_sorts: "mset (sort_key prefix_key xs) = mset xs \<and> sorted_wrt prefix_before (sort_key prefix_key xs)"
proof -
  have k: "prefix_before a b" if "prefix_key a \<le> prefix_key b" for a b
    using that by (auto simp: prefix_key_def prefix_before_def less_eq_prod_def)
  have "sorted_wrt prefix_before (sort_key prefix_key xs)"
    by (rule sorted_wrt_mono_rel [OF _ sorted_sort_key [of prefix_key xs, unfolded sorted_map]]) (rule k)
  then show ?thesis by simp
qed

definition plain_context :: "string \<Rightarrow> config \<Rightarrow> db_host list \<Rightarrow> check_context" where
  "plain_context version c hosts =
     \<lparr>cx_daemon_id = 1, cx_daemon_name = ''dhcp4'', cx_version = version, cx_config = c, cx_hosts = Inr hosts,
      cx_machine = (\<lambda>_ _. Inr None)\<rparr>"

definition has_address :: "parsed_ip \<Rightarrow> 8 word list \<Rightarrow> bool" where
  "has_address p x =
     (case pip_ip_net p of
        None \<Rightarrow> x = pip_ip p
      | Some n \<Rightarrow> length x = 16 \<and> ip_mask x (net_mask n) = Some (net_ip n))"

lemma has_address_iff: "has_address p x \<longleftrightarrow> x \<in> addresses_of p"
  by (simp add: has_address_def addresses_of_def network_addresses_def split: option.split)

definition overlapping :: config where
  "overlapping = plain_dhcp4 []
     [empty_network4\<lparr>n4_name := ''net'', n4_subnets := [plain_subnet4 2 ''10.1.0.0/16'' [] [] no_reservation_parameters]\<rparr>]
     [plain_subnet4 1 ''10.0.0.0/8'' [] [] no_reservation_parameters, plain_subnet4 3 ''bad'' [] [] no_reservation_parameters]"


section \<open>Canonical prefixes\<close>

text \<open>The address that a text is taken for: the first one of a network.\<close>

definition network_address :: "parsed_ip \<Rightarrow> 8 word list" where
  "network_address p =
     (if pip_prefix p then (case pip_ip_net p of None \<Rightarrow> pip_ip p | Some n \<Rightarrow> the (to16 (net_ip n))) else pip_ip p)"

lemma parse_ip_of_string:
  assumes "length ip = 4 \<or> length ip = 16"
  shows "\<exists>q. parse_ip (ip_string ip) = Some q \<and> pip_ip q = the (to16 ip)"
  using ip_string_roundtrip [OF assms] assms by (auto simp: parse_ip_def Let_def to16_def)

lemma parse_ip_host_prefix:
  assumes "parse_ip s = Some p" and "\<not> pip_prefix p"
  shows "pip_network_prefix p = ip_string (pip_ip p)"
  using assms by (auto simp: parse_ip_def Let_def split: option.splits if_splits)

lemma expected_address:
  assumes "parse_ip s = Some p"
  shows "\<exists>q. parse_ip (pip_network_prefix p) = Some q \<and> pip_ip q = network_address p \<and> length (pip_ip q) = 16"
proof (cases "pip_prefix p")
  case True
  obtain n where n: "net_parse_cidr s = Some (pip_ip p, n)" "pip_ip_net p = Some n" "pip_network_prefix p = ip_string (net_ip n)"
    using parse_ip_prefix_cases [OF assms True] by metis
  have "length (net_ip n) = 4 \<or> length (net_ip n) = 16" using cidr_networks [OF n(1)] by auto
  from parse_ip_of_string [OF this] n True show ?thesis by (auto simp: network_address_def dest: parse_ip_length)
next
  case False
  have "length (pip_ip p) = 16" by (rule parse_ip_length [OF assms])
  with parse_ip_of_string [of "pip_ip p"] parse_ip_host_prefix [OF assms False] False show ?thesis
    by (auto simp: network_address_def)
qed

lemma same_bytes_eq: "length as = length bs \<Longrightarrow> same_bytes as bs = Done (as = bs)"
  by (induction as bs rule: list_induct2) auto

lemma canonical_prefix_value:
  "get_canonical_prefix s =
     (case parse_ip s of
        None \<Rightarrow> Done ([], False)
      | Some p \<Rightarrow> Done (get_network_prefix_with_length p, pip_ip p = network_address p))"
proof (cases "parse_ip s")
  case (Some p)
  obtain q where q: "parse_ip (pip_network_prefix p) = Some q" "pip_ip q = network_address p" "length (pip_ip q) = 16"
    using expected_address [OF Some] by blast
  have "same_bytes (pip_ip p) (pip_ip q) = Done (pip_ip p = pip_ip q)"
    by (rule same_bytes_eq) (simp add: parse_ip_length [OF Some] q(3))
  then show ?thesis using Some q by (simp add: get_canonical_prefix_def)
qed (simp add: get_canonical_prefix_def)

definition is_canonical :: "subnet \<Rightarrow> bool" where
  "is_canonical s = (case parse_ip (subnet_prefix s) of None \<Rightarrow> False | Some p \<Rightarrow> pip_ip p = network_address p)"

lemma canonical_issues_done:
  "length issues < 10 \<Longrightarrow> \<exists>new. canonical_issues ss issues = Done (issues @ new) \<and> (new = [] \<longleftrightarrow> list_all is_canonical ss)"
proof (induction ss arbitrary: issues)
  case (Cons s ss)
  obtain t ok where t: "get_canonical_prefix (subnet_prefix s) = Done (t, ok)" "ok = is_canonical s"
    by (cases "parse_ip (subnet_prefix s)") (auto simp: canonical_prefix_value is_canonical_def)
  show ?case
  proof (cases ok)
    case True
    with Cons.IH [OF Cons.prems] t show ?thesis by simp
  next
    case False
    let ?i = "issues @ [int_str (int (length issues) + 1) @ ''. '' @ id_text s @ subnet_prefix s @ '' is invalid prefix'' @
                         (if t \<noteq> [] then '', expected: '' @ t else [])]"
    show ?thesis
    proof (cases "length ?i = 10")
      case True
      with False t show ?thesis by (simp add: Let_def)
    next
      case f: False
      then have "length ?i < 10" using Cons.prems by simp
      from Cons.IH [OF this] obtain new where "canonical_issues ss ?i = Done (?i @ new)" by blast
      with False t f show ?thesis by (simp add: Let_def)
    qed
  qed
qed simp

text \<open>
  The checker of canonical prefixes never fails on a daemon of DHCP and reports exactly the
  configurations with a subnet whose prefix does not parse or whose address is not the first
  one of its network.  The prefix it proposes is the canonical one of the network; of a prefix
  of length zero the length is lost in it.
\<close>

theorem canonical_prefixes_reported:
  assumes "is_dhcp_daemon cx" and "cx_daemon_id cx \<noteq> 0"
  shows "(if list_all is_canonical (daemon_subnets cx) then canonical_prefixes cx = no_issue else reported (canonical_prefixes cx)) \<and>
    (\<forall>s. get_canonical_prefix s =
       (case parse_ip s of None \<Rightarrow> Done ([], False)
        | Some p \<Rightarrow> Done (get_network_prefix_with_length p, pip_ip p = network_address p))) \<and>
    get_canonical_prefix ''10.0.0.1/0'' = Done (''0.0.0.0/32'', False)"
proof -
  obtain new where "canonical_issues (daemon_subnets cx) [] = Done new" "new = [] \<longleftrightarrow> list_all is_canonical (daemon_subnets cx)"
    using canonical_issues_done [of "[]" "daemon_subnets cx"] by auto
  then have "if list_all is_canonical (daemon_subnets cx) then canonical_prefixes cx = no_issue else reported (canonical_prefixes cx)"
    using assms by (simp add: canonical_prefixes_def)
  moreover have "get_canonical_prefix ''10.0.0.1/0'' = Done (''0.0.0.0/32'', False)" by code_simp
  ultimately show ?thesis using canonical_prefix_value by blast
qed

lemma canonical_prefixes_reported_witness:
  "reported (canonical_prefixes (plain_context ''2.5.0'' overlapping []))"
proof -
  have "\<not> list_all is_canonical (daemon_subnets (plain_context ''2.5.0'' overlapping []))" by code_simp
  moreover have "is_dhcp_daemon (plain_context ''2.5.0'' overlapping [])" "cx_daemon_id (plain_context ''2.5.0'' overlapping []) \<noteq> 0"
    by (simp_all add: is_dhcp_daemon_def plain_context_def)
  ultimately show ?thesis using canonical_prefixes_reported by presburger
qed

section \<open>Exhausted pools\<close>

lemma count_reserved_value:
  "counter_ok n \<Longrightarrow> \<exists>m. count_reserved inside (map Some ps) n = Done m \<and>
     to_big_int m = to_big_int n + int (length (filter inside ps)) \<and> counter_ok m"
proof (induction ps arbitrary: n)
  case (Cons p ps)
  show ?case
  proof (cases "inside p")
    case True
    have a: "to_big_int (add_uint64 n 1) = to_big_int n + 1" "counter_ok (add_uint64 n 1)"
      using add_uint64_value [OF Cons.prems, of 1] by simp_all
    from Cons.IH [OF a(2)] True a(1) show ?thesis by auto
  next
    case False
    with Cons show ?thesis by simp
  qed
qed simp

lemma new_counter: "counter_ok (new_big_counter 0)" "to_big_int (new_big_counter 0) = 0"
  by (simp_all add: new_big_counter_def counter_ok_def to_big_int_def)

lemma pool_exhausted_iff:
  assumes "parse_ip_range address_range (pl_pool q) = Inr (lb, ub)"
  shows "pool_exhausted address_range (map Some ps) q =
    Done (calculate_range_size lb ub \<le> int (length (filter (\<lambda>p. is_in_range p lb ub) ps)))"
  using count_reserved_value [OF new_counter(1), of "\<lambda>p. is_in_range p lb ub" ps] assms
  by (auto simp: pool_exhausted_def new_counter(2) not_less)

definition range_addresses :: "8 word list \<Rightarrow> 8 word list \<Rightarrow> 8 word list set" where
  "range_addresses lb ub = {ip. length ip = 16 \<and> bytes_nat lb \<le> bytes_nat ip \<and> bytes_nat ip \<le> bytes_nat ub}"

lemma range_addresses_card:
  assumes "length ub = 16"
  shows "int (card (range_addresses lb ub)) = max 0 (calculate_range_size lb ub)" and "finite (range_addresses lb ub)"
proof -
  have "card (range_addresses lb ub) = card {bytes_nat lb..bytes_nat ub}"
    unfolding range_addresses_def using card_between [of "bytes_nat ub" 16 "bytes_nat lb"] bytes_nat_bound [of ub] assms by simp
  then show "int (card (range_addresses lb ub)) = max 0 (calculate_range_size lb ub)"
    by (simp add: calculate_range_size_def max_def of_nat_diff)
  have "finite {ip :: 8 word list. length ip = 16}" using finite_lists_length_eq [of "UNIV :: 8 word set" 16] by simp
  then show "finite (range_addresses lb ub)" by (rule rev_finite_subset) (auto simp: range_addresses_def)
qed

text \<open>The addresses among the reservations, without the prefixes.\<close>

definition reserved_ips :: "parsed_ip list \<Rightarrow> 8 word list list" where
  "reserved_ips ps = map pip_ip (filter (\<lambda>p. \<not> pip_prefix p) ps)"

lemma in_range_count:
  assumes "\<forall>p \<in> set ps. length (pip_ip p) = 16" and "length lb = 16" and "length ub = 16"
  shows "length (filter (\<lambda>p. is_in_range p lb ub) ps) = length (filter (\<lambda>ip. ip \<in> range_addresses lb ub) (reserved_ips ps))"
  using assms(1)
proof (induction ps)
  case (Cons p ps)
  then have "is_in_range p lb ub \<longleftrightarrow> \<not> pip_prefix p \<and> pip_ip p \<in> range_addresses lb ub"
    using assms(2,3) by (simp add: is_in_range_def Let_def bytes_compare_nat range_addresses_def)
  with Cons show ?case by (simp add: reserved_ips_def)
qed (simp add: reserved_ips_def)

lemma distinct_count_covers:
  assumes "finite A"
  shows "distinct xs \<Longrightarrow> card A \<le> length (filter (\<lambda>x. x \<in> A) xs) \<longleftrightarrow> A \<subseteq> set xs"
    and "A \<subseteq> set xs \<Longrightarrow> card A \<le> length (filter (\<lambda>x. x \<in> A) xs)"
proof -
  have set: "set (filter (\<lambda>x. x \<in> A) xs) = A \<inter> set xs" by auto
  have le: "card (A \<inter> set xs) \<le> length (filter (\<lambda>x. x \<in> A) xs)" using card_length [of "filter (\<lambda>x. x \<in> A) xs"] set by simp
  show *: "card A \<le> length (filter (\<lambda>x. x \<in> A) xs)" if "A \<subseteq> set xs"
    using le that by (simp add: Int_absorb2)
  show "card A \<le> length (filter (\<lambda>x. x \<in> A) xs) \<longleftrightarrow> A \<subseteq> set xs" if d: "distinct xs"
  proof
    assume "card A \<le> length (filter (\<lambda>x. x \<in> A) xs)"
    then have "card A \<le> card (A \<inter> set xs)" using distinct_card [of "filter (\<lambda>x. x \<in> A) xs"] d set by simp
    then have "A \<inter> set xs = A" by (intro card_seteq [OF assms]) auto
    then show "A \<subseteq> set xs" by blast
  qed (rule *)
qed

lemma pool_exhausted_covers:
  assumes "parse_ip_range address_range (pl_pool q) = Inr (lb, ub)" and "CHR ''-'' \<in> set (pl_pool q)"
    and "\<forall>p \<in> set ps. length (pip_ip p) = 16"
  obtains b where "pool_exhausted address_range (map Some ps) q = Done b"
    "range_addresses lb ub \<subseteq> set (reserved_ips ps) \<Longrightarrow> b"
    "distinct (reserved_ips ps) \<Longrightarrow> b \<Longrightarrow> range_addresses lb ub \<subseteq> set (reserved_ips ps)"
proof -
  have l: "length lb = 16" "length ub = 16" using parse_ip_range_pair [OF assms(1,2)] by simp_all
  define b where "b = (calculate_range_size lb ub \<le> int (length (filter (\<lambda>p. is_in_range p lb ub) ps)))"
  have b: "b \<longleftrightarrow> card (range_addresses lb ub) \<le> length (filter (\<lambda>ip. ip \<in> range_addresses lb ub) (reserved_ips ps))"
    unfolding b_def in_range_count [OF assms(3) l] using range_addresses_card(1) [OF l(2), of lb] by linarith
  show ?thesis
  proof (rule that)
    show "pool_exhausted address_range (map Some ps) q = Done b" by (simp add: pool_exhausted_iff [OF assms(1)] b_def)
  qed (use b distinct_count_covers [OF range_addresses_card(2) [OF l(2), of lb], of "reserved_ips ps"] in auto)
qed

lemma exhausted_pools_take:
  assumes "\<forall>q \<in> set qs. E q = Done (e q)" and "length issues < 10"
  shows "exhausted_pools E label s qs issues = Done (take 10 (issues @ map (\<lambda>q. (s, label q)) (filter e qs)))"
  using assms
proof (induction qs arbitrary: issues)
  case (Cons q qs)
  show ?case
  proof (cases "e q \<and> length issues < 9")
    case True
    then have l: "length (issues @ [(s, label q)]) < 10" by simp
    have "\<forall>q \<in> set qs. E q = Done (e q)" using Cons.prems by simp
    from Cons.IH [OF this l] Cons.prems True show ?thesis by (simp add: take_Cons')
  next
    case False
    with Cons.prems(2) have "e q \<Longrightarrow> length issues = 9" by simp
    with Cons show ?thesis by (cases "e q") (simp_all add: Let_def)
  qed
qed simp

lemma exhausted_subnets_take:
  assumes "\<And>s issues. s \<in> set ss \<Longrightarrow> length issues < 10 \<Longrightarrow> f s issues = Done (take 10 (issues @ g s))" and "length issues < 10"
  shows "exhausted_subnets f ss issues = Done (take 10 (issues @ concat (map g ss)))"
  using assms
proof (induction ss arbitrary: issues)
  case (Cons s ss)
  show ?case
  proof (cases "length issues + length (g s) < 10")
    case True
    then have "length (issues @ g s) < 10" by simp
    with Cons True show ?thesis by simp
  next
    case False
    with Cons.prems(1) [of s issues] Cons.prems(2) show ?thesis by simp
  qed
qed simp

text \<open>
  The parsed reservations of a subnet, when all of them parse, and the bounds of a pool that is
  written as a range.
\<close>

definition parsed_reservations :: "check_context \<Rightarrow> subnet \<Rightarrow> parsed_ip list option" where
  "parsed_reservations cx s =
     (case get_daemon_hosts_and_index_by_subnet cx of
        Inl e \<Rightarrow> None
      | Inr (_, db_hosts) \<Rightarrow>
          (case reserved_addresses db_hosts s of
             Done ps \<Rightarrow> (if None \<in> set ps then None else Some (map the ps))
           | _ \<Rightarrow> None))"

lemma exhausted_check:
  assumes "is_dhcp_daemon cx" and "cx_daemon_id cx \<noteq> 0" and "get_daemon_hosts_and_index_by_subnet cx = Inr (h, m)"
    and "exhausted_subnets (subnet_pool_issues address_range m) (get_subnets (cx_config cx)) [] = Done issues"
  shows "reported (address_pools_exhausted_by_reservations address_range cx) \<longleftrightarrow> issues \<noteq> []"
proof (cases "issues = []")
  case True
  with assms show ?thesis by (simp add: address_pools_exhausted_by_reservations_def)
next
  case False
  then have "length issues \<noteq> 0" by simp
  with assms False show ?thesis by (simp add: address_pools_exhausted_by_reservations_def)
qed

definition written_range :: "(ipnet \<Rightarrow> 8 word list \<times> 8 word list) \<Rightarrow> pool \<Rightarrow> bool" where
  "written_range address_range q = (CHR ''-'' \<in> set (pl_pool q) \<and> (\<exists>b. parse_ip_range address_range (pl_pool q) = Inr b))"

definition pool_addresses :: "(ipnet \<Rightarrow> 8 word list \<times> 8 word list) \<Rightarrow> pool \<Rightarrow> 8 word list set" where
  "pool_addresses address_range q =
     (case parse_ip_range address_range (pl_pool q) of Inl e \<Rightarrow> {} | Inr (lb, ub) \<Rightarrow> range_addresses lb ub)"

lemma host_addresses_parsed:
  "host_addresses w as = Done ps \<Longrightarrow> \<forall>p \<in> set ps. \<exists>q. p = Some q \<and> length (pip_ip q) = 16"
  by (induction as arbitrary: ps) (auto simp: parse_ip_length split: option.splits if_splits)

lemma reserved_addresses_length:
  assumes "reserved_addresses db s = Done ps" and "Some p \<in> set ps"
  shows "length (pip_ip p) = 16"
proof -
  obtain hs where "host_addresses False (concat (map get_ip_reservations (hosts_at db (subnet_id s)))) = Done hs"
    and ps: "ps = configured_addresses (subnet_reservations s) @ hs"
    using assms(1) by (cases "host_addresses False (concat (map get_ip_reservations (hosts_at db (subnet_id s))))")
      (auto simp: reserved_addresses_def)
  from host_addresses_parsed [OF this(1)] show ?thesis
    using assms(2) unfolding ps configured_addresses_def
    by (auto split: if_splits dest: parse_ip_length sym [where t = "parse_ip _"])
qed

lemma subnet_pool_issues_take:
  assumes r: "parsed_reservations cx s = Some ps" and d: "get_daemon_hosts_and_index_by_subnet cx = Inr (h, db)"
    and w: "\<forall>q \<in> set (subnet_pools s). written_range address_range q"
  obtains e where
    "\<And>issues. length issues < 10 \<Longrightarrow> subnet_pool_issues address_range db s issues =
       Done (take 10 (issues @ map (\<lambda>q. (s, pl_pool q)) (filter e (subnet_pools s))))"
    "\<And>q. q \<in> set (subnet_pools s) \<Longrightarrow> pool_addresses address_range q \<subseteq> set (reserved_ips ps) \<Longrightarrow> e q"
    "\<And>q. q \<in> set (subnet_pools s) \<Longrightarrow> distinct (reserved_ips ps) \<Longrightarrow> e q \<Longrightarrow> pool_addresses address_range q \<subseteq> set (reserved_ips ps)"
proof -
  obtain rs where rs: "reserved_addresses db s = Done rs" "None \<notin> set rs" "ps = map the rs"
    using r d by (auto simp: parsed_reservations_def split: run.splits if_splits)
  have "None \<notin> set rs \<Longrightarrow> map (Some \<circ> the) rs = rs" for rs :: "parsed_ip option list" by (induction rs) auto
  with rs(2,3) have m: "rs = map Some ps" by simp
  have len: "\<forall>p \<in> set ps. length (pip_ip p) = 16" using reserved_addresses_length [OF rs(1)] m by auto
  have "\<exists>b. pool_exhausted address_range rs q = Done b \<and> (pool_addresses address_range q \<subseteq> set (reserved_ips ps) \<longrightarrow> b) \<and>
      (distinct (reserved_ips ps) \<longrightarrow> b \<longrightarrow> pool_addresses address_range q \<subseteq> set (reserved_ips ps))"
    if q: "q \<in> set (subnet_pools s)" for q
  proof -
    obtain lb ub where b: "parse_ip_range address_range (pl_pool q) = Inr (lb, ub)" "CHR ''-'' \<in> set (pl_pool q)"
      using w q by (auto simp: written_range_def)
    show ?thesis
      by (rule pool_exhausted_covers [OF b len]) (auto simp: m pool_addresses_def b(1))
  qed
  then obtain e where e: "\<forall>q \<in> set (subnet_pools s). pool_exhausted address_range rs q = Done (e q) \<and>
      (pool_addresses address_range q \<subseteq> set (reserved_ips ps) \<longrightarrow> e q) \<and>
      (distinct (reserved_ips ps) \<longrightarrow> e q \<longrightarrow> pool_addresses address_range q \<subseteq> set (reserved_ips ps))"
    by metis
  show ?thesis
  proof (rule that [of e])
    fix issues :: "(subnet \<times> string) list"
    assume "length issues < 10"
    with exhausted_pools_take [of "subnet_pools s" "pool_exhausted address_range rs" e issues pl_pool s] e
    show "subnet_pool_issues address_range db s issues =
        Done (take 10 (issues @ map (\<lambda>q. (s, pl_pool q)) (filter e (subnet_pools s))))"
      by (simp add: subnet_pool_issues_def rs(1))
  qed (use e in blast)+
qed


text \<open>
  Exhausted pools are found: when every address of some pool of a subnet is reserved, in the
  configuration or in the database, there is a report; and when there is a report, then the
  subnets have a pool whose addresses are all reserved, or one address is reserved twice in
  a subnet: the checker counts reservations, not addresses.  Only the subnets at the top of
  the configuration are looked at, the subnets of shared networks are not.
\<close>

theorem exhausted_pools_reported:
  assumes "is_dhcp_daemon cx" and "cx_daemon_id cx \<noteq> 0" and "get_daemon_hosts_and_index_by_subnet cx = Inr db"
    and "\<forall>s \<in> set (get_subnets (cx_config cx)). parsed_reservations cx s = Some (R s) \<and>
      (\<forall>q \<in> set (subnet_pools s). written_range address_range q)"
  shows "((\<exists>s \<in> set (get_subnets (cx_config cx)). \<exists>q \<in> set (subnet_pools s).
        pool_addresses address_range q \<subseteq> set (reserved_ips (R s))) \<longrightarrow>
      reported (address_pools_exhausted_by_reservations address_range cx)) \<and>
    (reported (address_pools_exhausted_by_reservations address_range cx) \<longrightarrow>
      (\<exists>s \<in> set (get_subnets (cx_config cx)). \<not> distinct (reserved_ips (R s)) \<or>
        (\<exists>q \<in> set (subnet_pools s). pool_addresses address_range q \<subseteq> set (reserved_ips (R s)))))"
proof -
  let ?ss = "get_subnets (cx_config cx)"
  obtain h m where db: "get_daemon_hosts_and_index_by_subnet cx = Inr (h, m)" using assms(3) by (cases db) simp
  define good where "good s e \<longleftrightarrow> (\<forall>issues. length issues < 10 \<longrightarrow> subnet_pool_issues address_range m s issues =
         Done (take 10 (issues @ map (\<lambda>q. (s, pl_pool q)) (filter e (subnet_pools s))))) \<and>
      (\<forall>q \<in> set (subnet_pools s). (pool_addresses address_range q \<subseteq> set (reserved_ips (R s)) \<longrightarrow> e q) \<and>
         (distinct (reserved_ips (R s)) \<longrightarrow> e q \<longrightarrow> pool_addresses address_range q \<subseteq> set (reserved_ips (R s))))" for s e
  have "\<forall>s \<in> set ?ss. \<exists>e. good s e"
  proof
    fix s assume s: "s \<in> set ?ss"
    have r: "parsed_reservations cx s = Some (R s)" "\<forall>q \<in> set (subnet_pools s). written_range address_range q"
      using assms(4) s by blast+
    show "\<exists>e. good s e"
    proof (rule subnet_pool_issues_take [OF r(1) db r(2)])
      show "\<exists>e. good s e" if "\<And>issues. length issues < 10 \<Longrightarrow> subnet_pool_issues address_range m s issues =
          Done (take 10 (issues @ map (\<lambda>q. (s, pl_pool q)) (filter e (subnet_pools s))))"
        "\<And>q. q \<in> set (subnet_pools s) \<Longrightarrow> pool_addresses address_range q \<subseteq> set (reserved_ips (R s)) \<Longrightarrow> e q"
        "\<And>q. q \<in> set (subnet_pools s) \<Longrightarrow> distinct (reserved_ips (R s)) \<Longrightarrow> e q \<Longrightarrow>
          pool_addresses address_range q \<subseteq> set (reserved_ips (R s))" for e
        unfolding good_def
        by (intro exI [of _ e] conjI ballI, use that(1) in blast, use that(2) in blast, use that(3) in blast)
    qed
  qed
  from bchoice [OF this] obtain e where e: "\<forall>s \<in> set ?ss. good s (e s)" by blast
  define found where "found = concat (map (\<lambda>s. map (\<lambda>q. (s, pl_pool q)) (filter (e s) (subnet_pools s))) ?ss)"
  have "exhausted_subnets (subnet_pool_issues address_range m) ?ss [] = Done (take 10 ([] @ found))"
    unfolding found_def by (rule exhausted_subnets_take) (use e good_def in simp_all)
  then have "reported (address_pools_exhausted_by_reservations address_range cx) \<longleftrightarrow> found \<noteq> []"
    by (auto dest: exhausted_check [OF assms(1,2) db])
  moreover have "found \<noteq> [] \<longleftrightarrow> (\<exists>s \<in> set ?ss. \<exists>q \<in> set (subnet_pools s). e s q)"
    by (auto simp: found_def filter_empty_conv)
  ultimately show ?thesis using e unfolding good_def by blast
qed

definition plain_reservation :: "string \<Rightarrow> reservation" where
  "plain_reservation a =
     \<lparr>rv_hw_address = [], rv_duid = [], rv_circuit_id = [], rv_client_id = [], rv_flex_id = [], rv_ip_address = a,
      rv_ip_addresses = [], rv_prefixes = [], rv_hostname = [], rv_client_classes = [], rv_next_server = [],
      rv_boot_file_name = [], rv_server_hostname = [], rv_option_data = []\<rparr>"

definition pool_with :: "string \<Rightarrow> reservation list \<Rightarrow> config" where
  "pool_with text1 rs = plain_dhcp4 [] [] [plain_subnet4 1 ''10.0.0.0/8'' [plain_pool text1] rs no_reservation_parameters]"

lemma exhausted_pools_reported_witness:
  "reported (address_pools_exhausted_by_reservations network_range
     (plain_context ''2.5.0'' (pool_with ''10.0.0.1-10.0.0.1'' [plain_reservation ''10.0.0.1'']) []))"
proof -
  let ?c = "pool_with ''10.0.0.1-10.0.0.1'' [plain_reservation ''10.0.0.1'']" and ?ip = "v4_in_v6_prefix @ [10, 0, 0, 1]"
  let ?cx = "plain_context ''2.5.0'' ?c []" and ?q = "plain_pool ''10.0.0.1-10.0.0.1''"
  let ?s = "Subnet4 (plain_subnet4 1 ''10.0.0.0/8'' [?q] [plain_reservation ''10.0.0.1''] no_reservation_parameters)"
  have ss: "get_subnets (cx_config ?cx) = [?s]"
    by (simp add: plain_context_def pool_with_def plain_dhcp4_def get_subnets_def index_dhcp4_def)
  have "map_option reserved_ips (parsed_reservations ?cx ?s) = Some [?ip]" by code_simp
  then obtain ps where ps: "parsed_reservations ?cx ?s = Some ps" "reserved_ips ps = [?ip]" by auto
  have r: "parse_ip_range network_range (pl_pool ?q) = Inr (?ip, ?ip)" by code_simp
  have pools: "subnet_pools ?s = [?q]" by code_simp
  have d: "CHR ''-'' \<in> set (pl_pool ?q)" by code_simp
  have h: "get_daemon_hosts_and_index_by_subnet ?cx = Inr (False, [])" by code_simp
  have "length x = 16 \<Longrightarrow> bytes_nat x = bytes_nat ?ip \<Longrightarrow> x = ?ip" for x
    by (rule bytes_nat_inject) (simp_all add: v4_in_v6_prefix_def)
  then have sub: "pool_addresses network_range ?q \<subseteq> set (reserved_ips ps)"
    unfolding ps(2) by (auto simp: pool_addresses_def r range_addresses_def simp del: append_assoc)
  have all: "\<forall>s \<in> set (get_subnets (cx_config ?cx)). parsed_reservations ?cx s = Some ps \<and>
      (\<forall>q \<in> set (subnet_pools s). written_range network_range q)"
    unfolding ss using ps(1) d r pools by (simp add: written_range_def)
  have cx: "is_dhcp_daemon ?cx" "cx_daemon_id ?cx \<noteq> 0" by (simp_all add: is_dhcp_daemon_def plain_context_def)
  have "\<exists>s \<in> set (get_subnets (cx_config ?cx)). \<exists>q \<in> set (subnet_pools s). pool_addresses network_range q \<subseteq> set (reserved_ips ps)"
    by (rule bexI [of _ ?s], rule bexI [of _ ?q], rule sub) (simp_all only: ss pools list.set_intros)
  with exhausted_pools_reported [OF cx h all] show ?thesis by (rule mp [OF conjunct1])
qed

text \<open>An address reserved twice is counted twice, so half of this pool is free.\<close>

lemma repeated_reservation_counted:
  "reported (address_pools_exhausted_by_reservations network_range
     (plain_context ''2.5.0'' (pool_with ''10.0.0.1-10.0.0.2'' [plain_reservation ''10.0.0.1'', plain_reservation ''10.0.0.1'']) []))"
proof -
  let ?c = "pool_with ''10.0.0.1-10.0.0.2'' [plain_reservation ''10.0.0.1'', plain_reservation ''10.0.0.1'']"
  let ?cx = "plain_context ''2.5.0'' ?c []"
  have h: "get_daemon_hosts_and_index_by_subnet ?cx = Inr (False, [])" by code_simp
  have "case exhausted_subnets (subnet_pool_issues network_range []) (get_subnets (cx_config ?cx)) [] of Done xs \<Rightarrow> xs \<noteq> [] | _ \<Rightarrow> False"
    by code_simp
  then obtain is1 where "exhausted_subnets (subnet_pool_issues network_range []) (get_subnets (cx_config ?cx)) [] = Done is1" "is1 \<noteq> []"
    by (cases "exhausted_subnets (subnet_pool_issues network_range []) (get_subnets (cx_config ?cx)) []") auto
  moreover have "is_dhcp_daemon ?cx" "cx_daemon_id ?cx \<noteq> 0" by (simp_all add: is_dhcp_daemon_def plain_context_def)
  ultimately show ?thesis using exhausted_check [OF _ _ h] by blast
qed


section \<open>Sums of sizes\<close>

text \<open>The measure of a thing: its size below the limit of 64 bits, an overflow from there on.\<close>

definition measures :: "('a \<Rightarrow> (check_error + string) + int) \<Rightarrow> ('a \<Rightarrow> int) \<Rightarrow> 'a \<Rightarrow> bool" where
  "measures f total1 x =
     (0 \<le> total1 x \<and> (if total1 x < 2 ^ 63 then f x = Inr (total1 x) else (\<exists>r. f x = Inl (Inr r))))"

lemma add_pool_sizes_measures:
  assumes "\<forall>q \<in> set qs. f q = Inr (size1 q) \<and> 0 \<le> size1 q" and "0 \<le> n" and "n < 2 ^ 63"
  shows "if n + (\<Sum>q\<leftarrow>qs. size1 q) < 2 ^ 63 then add_pool_sizes f what s qs n = Inr (n + (\<Sum>q\<leftarrow>qs. size1 q))
    else \<exists>r. add_pool_sizes f what s qs n = Inl (Inr r)"
  using assms
proof (induction qs arbitrary: n)
  case (Cons q qs)
  have rest: "0 \<le> (\<Sum>q\<leftarrow>qs. size1 q)" using Cons.prems(1) by (intro sum_list_nonneg) auto
  show ?case
  proof (cases "n + size1 q < 2 ^ 63")
    case True
    with Cons.prems have "is_int64 (n + size1 q)" by (simp add: is_int64_def)
    with Cons.IH [of "n + size1 q"] Cons.prems True show ?thesis by (simp add: Let_def add.assoc)
  next
    case False
    then have "\<not> is_int64 (n + size1 q)" by (simp add: is_int64_def)
    with Cons.prems False rest show ?thesis by (simp add: Let_def)
  qed
qed simp

lemma add_subnet_sizes_measures:
  assumes "\<forall>s \<in> set ss. measures f total1 s" and "0 \<le> n" and "n < 2 ^ 63 \<or> name = []"
  shows "if (\<forall>s \<in> set ss. total1 s < 2 ^ 63) \<and> (name = [] \<or> n + (\<Sum>s\<leftarrow>ss. total1 s) < 2 ^ 63)
    then add_subnet_sizes f what name ss n = Inr (n + (\<Sum>s\<leftarrow>ss. total1 s))
    else \<exists>r. add_subnet_sizes f what name ss n = Inl (Inr r)"
  using assms
proof (induction ss arbitrary: n)
  case (Cons s ss)
  have rest: "0 \<le> (\<Sum>s\<leftarrow>ss. total1 s)" using Cons.prems(1) by (intro sum_list_nonneg) (auto simp: measures_def)
  show ?case
  proof (cases "total1 s < 2 ^ 63")
    case f: False
    then have "\<exists>r. f s = Inl (Inr r)" using Cons.prems(1) unfolding measures_def by (metis list.set_intros(1))
    with f show ?thesis by auto
  next
    case f: True
    then have m: "f s = Inr (total1 s)" "0 \<le> total1 s" using Cons.prems(1) unfolding measures_def by simp_all
    show ?thesis
    proof (cases "name = [] \<or> n + total1 s < 2 ^ 63")
      case True
      then have "\<not> (name \<noteq> [] \<and> \<not> is_int64 (n + total1 s))" using m(2) Cons.prems(2) by (auto simp: is_int64_def)
      with m have eq: "add_subnet_sizes f what name (s # ss) n = add_subnet_sizes f what name ss (n + total1 s)"
        by (simp only: add_subnet_sizes.simps sum.case Let_def if_False)
      have "\<forall>s \<in> set ss. measures f total1 s" "0 \<le> n + total1 s" "n + total1 s < 2 ^ 63 \<or> name = []"
        using Cons.prems m(2) True by auto
      from Cons.IH [OF this] f show ?thesis unfolding eq by (simp only: list.set ball_simps list.map sum_list.Cons add.assoc simp_thms)
    next
      case False
      then have "name \<noteq> [] \<and> \<not> is_int64 (n + total1 s)" by (auto simp: is_int64_def)
      with False rest m f show ?thesis by (auto simp: Let_def)
    qed
  qed
qed auto

lemma find_exceeding_measures:
  assumes "\<forall>n \<in> set ns. \<forall>s \<in> set (network_subnets n). measures f total1 s"
  shows "\<exists>found. find_exceeding f what ns = Inr found \<and>
    (found \<noteq> None \<longleftrightarrow> (\<exists>n \<in> set ns. (\<exists>s \<in> set (network_subnets n). 2 ^ 63 \<le> total1 s) \<or>
      (network_name n \<noteq> [] \<and> 2 ^ 63 \<le> (\<Sum>s\<leftarrow>network_subnets n. total1 s))))"
  using assms
proof (induction ns)
  case (Cons n ns)
  let ?ok = "(\<forall>s \<in> set (network_subnets n). total1 s < 2 ^ 63) \<and>
      (network_name n = [] \<or> 0 + (\<Sum>s\<leftarrow>network_subnets n. total1 s) < 2 ^ 63)"
  have a: "if ?ok then add_subnet_sizes f what (network_name n) (network_subnets n) 0 = Inr (0 + (\<Sum>s\<leftarrow>network_subnets n. total1 s))
      else \<exists>r. add_subnet_sizes f what (network_name n) (network_subnets n) 0 = Inl (Inr r)"
    by (rule add_subnet_sizes_measures) (use Cons.prems in auto)
  show ?case
  proof (cases ?ok)
    case True
    then have "add_subnet_sizes f what (network_name n) (network_subnets n) 0 = Inr (0 + (\<Sum>s\<leftarrow>network_subnets n. total1 s))"
      using a unfolding if_P [OF True] by blast
    with Cons True show ?thesis by (auto simp: not_le)
  next
    case False
    then obtain r where "add_subnet_sizes f what (network_name n) (network_subnets n) 0 = Inl (Inr r)"
      using a unfolding if_not_P [OF False] by blast
    with False show ?thesis by (auto simp: not_less)
  qed
qed simp

text \<open>
  The limit of the statistics is found exactly: when the bounds of every pool are in order, no
  error comes back, and a network is reported if and only if the pools of one of its subnets
  hold \<open>2 ^ 63\<close> addresses or more together, or, in a shared network with a name, the pools of
  all its subnets do.  The subnets outside of a shared network are not added up.  The same
  holds of the delegated prefixes.
\<close>

theorem statistics_overflow_found:
  assumes "\<forall>n \<in> set ns. \<forall>s \<in> set (network_subnets n). \<forall>q \<in> set (subnet_pools s).
      \<exists>lb ub. get_boundaries address_range q = Inr (lb, ub) \<and> bytes_nat lb \<le> bytes_nat ub"
    and "\<And>s. addresses s = (\<Sum>q\<leftarrow>subnet_pools s. case get_boundaries address_range q of Inl e \<Rightarrow> 0 | Inr (lb, ub) \<Rightarrow> calculate_range_size lb ub)"
    and "\<And>s. delegated s = (\<Sum>q\<leftarrow>subnet_pd_pools s. calculate_delegated_prefix_range_size (pd_prefix_len q) (pd_delegated_len q))"
  shows "(\<exists>found. find_shared_network_exceeding_address_limit address_range ns = Inr found \<and>
      (found \<noteq> None \<longleftrightarrow> (\<exists>n \<in> set ns. (\<exists>s \<in> set (network_subnets n). 2 ^ 63 \<le> addresses s) \<or>
        (network_name n \<noteq> [] \<and> 2 ^ 63 \<le> (\<Sum>s\<leftarrow>network_subnets n. addresses s))))) \<and>
    (\<exists>found. find_shared_network_exceeding_delegated_prefix_limit ns = Inr found \<and>
      (found \<noteq> None \<longleftrightarrow> (\<exists>n \<in> set ns. (\<exists>s \<in> set (network_subnets n). 2 ^ 63 \<le> delegated s) \<or>
        (network_name n \<noteq> [] \<and> 2 ^ 63 \<le> (\<Sum>s\<leftarrow>network_subnets n. delegated s)))))"
proof (rule conjI)
  show "\<exists>found. find_shared_network_exceeding_address_limit address_range ns = Inr found \<and>
      (found \<noteq> None \<longleftrightarrow> (\<exists>n \<in> set ns. (\<exists>s \<in> set (network_subnets n). 2 ^ 63 \<le> addresses s) \<or>
        (network_name n \<noteq> [] \<and> 2 ^ 63 \<le> (\<Sum>s\<leftarrow>network_subnets n. addresses s))))"
    unfolding find_shared_network_exceeding_address_limit_def
  proof (intro find_exceeding_measures ballI)
    fix n s assume s: "n \<in> set ns" "s \<in> set (network_subnets n)"
    let ?size = "\<lambda>q. case get_boundaries address_range q of Inl e \<Rightarrow> 0 | Inr (lb, ub) \<Rightarrow> calculate_range_size lb ub"
    have q: "\<forall>q \<in> set (subnet_pools s). address_pool_size address_range q = Inr (?size q) \<and> 0 \<le> ?size q"
      using assms(1) s by (fastforce simp: address_pool_size_def calculate_range_size_def)
    then have "0 \<le> addresses s" unfolding assms(2) by (intro sum_list_nonneg) auto
    with add_pool_sizes_measures [OF q, of 0 "''addresses''" s]
    show "measures (\<lambda>s. add_pool_sizes (address_pool_size address_range) ''addresses'' s (subnet_pools s) 0) addresses s"
      by (simp add: measures_def assms(2))
  qed
next
  show "\<exists>found. find_shared_network_exceeding_delegated_prefix_limit ns = Inr found \<and>
      (found \<noteq> None \<longleftrightarrow> (\<exists>n \<in> set ns. (\<exists>s \<in> set (network_subnets n). 2 ^ 63 \<le> delegated s) \<or>
        (network_name n \<noteq> [] \<and> 2 ^ 63 \<le> (\<Sum>s\<leftarrow>network_subnets n. delegated s))))"
    unfolding find_shared_network_exceeding_delegated_prefix_limit_def
  proof (intro find_exceeding_measures ballI)
    fix n s assume s: "n \<in> set ns" "s \<in> set (network_subnets n)"
    let ?size = "\<lambda>q. calculate_delegated_prefix_range_size (pd_prefix_len q) (pd_delegated_len q)"
    have q: "\<forall>q \<in> set (subnet_pd_pools s). pd_pool_size q = Inr (?size q) \<and> 0 \<le> ?size q"
      by (simp add: pd_pool_size_def calculate_delegated_prefix_range_size_def)
    then have "0 \<le> delegated s" unfolding assms(3) by (intro sum_list_nonneg) auto
    with add_pool_sizes_measures [OF q, of 0 "''delegated prefixes''" s]
    show "measures (\<lambda>s. add_pool_sizes pd_pool_size ''delegated prefixes'' s (subnet_pd_pools s) 0) delegated s"
      by (simp add: measures_def assms(3))
  qed
qed

text \<open>Two subnets of \<open>2 ^ 62\<close> addresses and more, each below the limit, in a shared network with a name.\<close>

definition wide_subnet6 :: "int \<Rightarrow> string \<Rightarrow> subnet6" where
  "wide_subnet6 i pool1 =
     \<lparr>s6_common = plain_common [plain_pool pool1] [] no_reservation_parameters, s6_id = i, s6_subnet = ''2001:db8::/32'',
      s6_preferred_lifetime_parameters = no_lifetime, s6_pd_allocator = None, s6_interface_id = None,
      s6_pd_pools = [], s6_rapid_commit = None\<rparr>"

definition wide_network :: shared_network where
  "wide_network = Network6 (empty_network6\<lparr>n6_name := ''wide'', n6_subnets :=
     [wide_subnet6 1 ''2001:db8::-2001:db8::7000:0:0:0'', wide_subnet6 2 ''2001:db8:1::-2001:db8:1::7000:0:0:0'']\<rparr>)"

fun ordered_bounds :: "range_error + 8 word list \<times> 8 word list \<Rightarrow> bool" where
  "ordered_bounds (Inl e) = False"
| "ordered_bounds (Inr (lb, ub)) = (bytes_nat lb \<le> bytes_nat ub)"

lemma statistics_overflow_found_witness:
  "\<exists>found. find_shared_network_exceeding_address_limit network_range [wide_network] = Inr (Some found)"
proof -
  let ?size = "\<lambda>q. case get_boundaries network_range q of Inl e \<Rightarrow> 0 | Inr (lb, ub) \<Rightarrow> calculate_range_size lb ub"
  have "list_all (\<lambda>s. list_all (\<lambda>q. ordered_bounds (get_boundaries network_range q)) (subnet_pools s)) (network_subnets wide_network)"
    by code_simp
  then have "\<forall>n \<in> set [wide_network]. \<forall>s \<in> set (network_subnets n). \<forall>q \<in> set (subnet_pools s).
      \<exists>lb ub. get_boundaries network_range q = Inr (lb, ub) \<and> bytes_nat lb \<le> bytes_nat ub"
    by (fastforce simp: list_all_iff elim: ordered_bounds.elims)
  moreover have "(2 :: int) ^ 63 \<le> (\<Sum>s\<leftarrow>network_subnets wide_network. \<Sum>q\<leftarrow>subnet_pools s. ?size q)" by code_simp
  moreover have "network_name wide_network \<noteq> []" by code_simp
  ultimately show ?thesis
    using statistics_overflow_found [of "[wide_network]" network_range "\<lambda>s. \<Sum>q\<leftarrow>subnet_pools s. ?size q", OF _ refl refl] by auto
qed

section \<open>Reservations outside of the pools\<close>

lemma scan_reservations_value:
  "scan_reservations has hit rs ex =
     (ex \<or> (\<exists>r \<in> set rs. has r), \<exists>r \<in> set rs. has r \<and> hit r)"
  by (induction rs arbitrary: ex) auto

lemma scan_hosts_value:
  "scan_hosts hit hs ex =
     (ex \<or> hs \<noteq> [], \<exists>h \<in> set hs. get_ip_reservations h \<noteq> [] \<and> hit (get_ip_reservations h))"
  by (induction hs arbitrary: ex) (auto simp: Let_def)

lemma subnet_out_of_pool_iff:
  "subnet_out_of_pool has hit db_hit c db n s \<longleftrightarrow>
     \<not> out_of_pool_enabled c n s \<and>
     ((\<exists>r \<in> set (subnet_reservations s). has r) \<or> hosts_at db (subnet_id s) \<noteq> []) \<and>
     \<not> (\<exists>r \<in> set (subnet_reservations s). has r \<and> hit s r) \<and>
     \<not> (\<exists>h \<in> set (hosts_at db (subnet_id s)). get_ip_reservations h \<noteq> [] \<and> db_hit s (get_ip_reservations h))"
proof -
  have "hosts_at [] i = []" for i by (simp add: hosts_at_def)
  then show ?thesis by (auto simp: subnet_out_of_pool_def scan_reservations_value scan_hosts_value)
qed

lemma count_out_of_pool_pos:
  "count_out_of_pool has hit db_hit c db ns > 0 \<longleftrightarrow>
     (\<exists>n \<in> set ns. \<exists>s \<in> set (network_subnets n). subnet_out_of_pool has hit db_hit c db n s)"
  by (auto simp: count_out_of_pool_def filter_empty_conv)

text \<open>
  The mode for reservations outside of the pools is recommended exactly when some subnet, at
  the top or in a shared network, does not have it at any level, has a reservation, and has
  none whose address is in a pool.  A host of the database counts as a reservation even when
  it has no address.
\<close>

theorem out_of_pool_recommended:
  assumes "cx_daemon_name cx = ''dhcp4''" and "cx_daemon_id cx \<noteq> 0" and "get_daemon_hosts_and_index_by_subnet cx = Inr (h, db)"
  shows "reported (reservations_out_of_pool address_range cx) \<longleftrightarrow>
    (\<exists>n \<in> set (get_shared_networks (cx_config cx) True). \<exists>s \<in> set (network_subnets n).
       \<not> out_of_pool_enabled (cx_config cx) n s \<and>
       ((\<exists>r \<in> set (subnet_reservations s). rv_ip_address r \<noteq> []) \<or> hosts_at db (subnet_id s) \<noteq> []) \<and>
       (\<forall>r \<in> set (subnet_reservations s). \<forall>p. parse_ip (rv_ip_address r) = Some p \<and> rv_ip_address r \<noteq> [] \<longrightarrow>
          \<not> list_ex (in_pool address_range p) (subnet_pools s)) \<and>
       (\<forall>a \<in> set (concat (map get_ip_reservations (hosts_at db (subnet_id s)))). \<forall>p. parse_ip a = Some p \<and> \<not> pip_prefix p \<longrightarrow>
          \<not> list_ex (in_pool address_range p) (subnet_pools s)))"
    (is "_ \<longleftrightarrow> (\<exists>n \<in> ?ns. \<exists>s \<in> _ n. ?oop n s)")
proof -
  let ?count = "count_out_of_pool has_address4 (hit4 address_range) (db_hit4 address_range) (cx_config cx) db
      (get_shared_networks (cx_config cx) True)"
  have "reported (reservations_out_of_pool address_range cx) \<longleftrightarrow> ?count > 0"
    using assms by (cases "?count > 0") (simp_all add: reservations_out_of_pool_def is_dhcp_daemon_def check_dhcpv4_reservations_out_of_pool_def)
  also have "\<dots> \<longleftrightarrow> (\<exists>n \<in> ?ns. \<exists>s \<in> set (network_subnets n).
      subnet_out_of_pool has_address4 (hit4 address_range) (db_hit4 address_range) (cx_config cx) db n s)"
    by (rule count_out_of_pool_pos)
  also have "\<dots> \<longleftrightarrow> (\<exists>n \<in> ?ns. \<exists>s \<in> set (network_subnets n). ?oop n s)"
  proof (intro bex_cong refl)
    fix n s
    have a: "(\<exists>r \<in> set (subnet_reservations s). has_address4 r \<and> hit4 address_range s r) \<longleftrightarrow>
        \<not> (\<forall>r \<in> set (subnet_reservations s). \<forall>p. parse_ip (rv_ip_address r) = Some p \<and> rv_ip_address r \<noteq> [] \<longrightarrow>
          \<not> list_ex (in_pool address_range p) (subnet_pools s))"
      by (auto simp: has_address4_def hit4_def is_any_address_in_pools_def split: option.splits)
    have b: "(\<exists>h \<in> set (hosts_at db (subnet_id s)). get_ip_reservations h \<noteq> [] \<and> db_hit4 address_range s (get_ip_reservations h)) \<longleftrightarrow>
        \<not> (\<forall>a \<in> set (concat (map get_ip_reservations (hosts_at db (subnet_id s)))). \<forall>p. parse_ip a = Some p \<and> \<not> pip_prefix p \<longrightarrow>
          \<not> list_ex (in_pool address_range p) (subnet_pools s))"
      by (fastforce simp: db_hit4_def is_any_ip_reservation_in_pools_def list_ex_iff split: option.splits)
    show "subnet_out_of_pool has_address4 (hit4 address_range) (db_hit4 address_range) (cx_config cx) db n s \<longleftrightarrow> ?oop n s"
    proof -
      have c: "(\<exists>r \<in> set (subnet_reservations s). has_address4 r) \<longleftrightarrow> (\<exists>r \<in> set (subnet_reservations s). rv_ip_address r \<noteq> [])"
        by (simp add: has_address4_def)
      show ?thesis unfolding subnet_out_of_pool_iff a b c by (simp only: not_not)
    qed
  qed
  finally show ?thesis .
qed


lemma out_of_pool_recommended_witness:
  "reported (reservations_out_of_pool network_range
     (plain_context ''2.5.0'' (pool_with ''10.0.0.1-10.0.0.2'' [plain_reservation ''10.0.0.9'']) []))"
proof -
  let ?c = "pool_with ''10.0.0.1-10.0.0.2'' [plain_reservation ''10.0.0.9'']"
  let ?cx = "plain_context ''2.5.0'' ?c []"
  let ?s = "Subnet4 (plain_subnet4 1 ''10.0.0.0/8'' [plain_pool ''10.0.0.1-10.0.0.2''] [plain_reservation ''10.0.0.9''] no_reservation_parameters)"
  let ?n = "Network4 (empty_network4\<lparr>n4_subnets :=
     [plain_subnet4 1 ''10.0.0.0/8'' [plain_pool ''10.0.0.1-10.0.0.2''] [plain_reservation ''10.0.0.9''] no_reservation_parameters]\<rparr>)"
  have ns: "get_shared_networks (cx_config ?cx) True = [?n]"
    by (simp add: plain_context_def pool_with_def plain_dhcp4_def get_shared_networks_def dhcp4_shared_networks_def index_dhcp4_def)
  have ss: "network_subnets ?n = [?s]" by simp
  have rs: "subnet_reservations ?s = [plain_reservation ''10.0.0.9'']" by code_simp
  have a: "rv_ip_address (plain_reservation ''10.0.0.9'') = ''10.0.0.9''" by code_simp
  have cx: "cx_daemon_name ?cx = ''dhcp4''" "cx_daemon_id ?cx \<noteq> 0" by (simp_all add: plain_context_def)
  have h: "get_daemon_hosts_and_index_by_subnet ?cx = Inr (False, [])" by code_simp
  have e: "\<not> out_of_pool_enabled (cx_config ?cx) ?n ?s" by code_simp
  have p: "list_all (\<lambda>p. \<not> list_ex (in_pool network_range p) (subnet_pools ?s)) (case parse_ip ''10.0.0.9'' of None \<Rightarrow> [] | Some p \<Rightarrow> [p])"
    by code_simp
  have hs: "hosts_at [] (subnet_id ?s) = []" by (simp add: hosts_at_def)
  have "\<exists>n \<in> set (get_shared_networks (cx_config ?cx) True). \<exists>s \<in> set (network_subnets n).
       \<not> out_of_pool_enabled (cx_config ?cx) n s \<and>
       ((\<exists>r \<in> set (subnet_reservations s). rv_ip_address r \<noteq> []) \<or> hosts_at [] (subnet_id s) \<noteq> []) \<and>
       (\<forall>r \<in> set (subnet_reservations s). \<forall>p. parse_ip (rv_ip_address r) = Some p \<and> rv_ip_address r \<noteq> [] \<longrightarrow>
          \<not> list_ex (in_pool network_range p) (subnet_pools s)) \<and>
       (\<forall>a \<in> set (concat (map get_ip_reservations (hosts_at [] (subnet_id s)))). \<forall>p. parse_ip a = Some p \<and> \<not> pip_prefix p \<longrightarrow>
          \<not> list_ex (in_pool network_range p) (subnet_pools s))"
  proof (rule bexI [of _ ?n], rule bexI [of _ ?s], intro conjI)
    show "(\<exists>r \<in> set (subnet_reservations ?s). rv_ip_address r \<noteq> []) \<or> hosts_at [] (subnet_id ?s) \<noteq> []" unfolding rs by (simp add: a)
    show "\<forall>r \<in> set (subnet_reservations ?s). \<forall>p. parse_ip (rv_ip_address r) = Some p \<and> rv_ip_address r \<noteq> [] \<longrightarrow>
        \<not> list_ex (in_pool network_range p) (subnet_pools ?s)"
      unfolding rs using p by (auto simp: a)
    show "\<forall>a \<in> set (concat (map get_ip_reservations (hosts_at [] (subnet_id ?s)))). \<forall>p. parse_ip a = Some p \<and> \<not> pip_prefix p \<longrightarrow>
        \<not> list_ex (in_pool network_range p) (subnet_pools ?s)" unfolding hs by simp
  qed (simp_all only: e ns ss list.set_intros not_False_eq_True)
  with out_of_pool_recommended [OF cx h] show ?thesis by (rule iffD2)
qed

end
