(* ===== verification/Kea_Statistics.thy ===== *)
theory Kea_Statistics
  imports Big_Counter Option_Fields
begin

text \<open>
  The statistics of leases: the values that a Kea server returns and how they are kept
  (\<open>SubnetStats\<close> of \<open>server/database/model/subnet.go\<close> and \<open>storeDaemonStats\<close> of
  \<open>server/apps/kea/statspuller.go\<close>), and the counter that adds them up by subnet, by shared
  network and over all (\<open>server/apps/kea/statisticscounter.go\<close>).  Utilizations, which are
  floating-point quotients, are not modelled; the updates of the database are arguments.
\<close>

section \<open>The statistics of a subnet\<close>

datatype stat_value = StatBig int | StatInt64 int | StatUint64 uint64 | StatText string | StatOther

type_synonym subnet_stats = "string \<rightharpoonup> stat_value"

definition total_nas :: string where "total_nas = ''total-nas''"
definition assigned_nas :: string where "assigned_nas = ''assigned-nas''"
definition declined_nas :: string where "declined_nas = ''declined-nas''"
definition total_pds :: string where "total_pds = ''total-pds''"
definition assigned_pds :: string where "assigned_pds = ''assigned-pds''"
definition total_addresses :: string where "total_addresses = ''total-addresses''"
definition assigned_addresses :: string where "assigned_addresses = ''assigned-addresses''"
definition declined_addresses :: string where "declined_addresses = ''declined-addresses''"

definition get_big_counter :: "subnet_stats \<Rightarrow> string \<Rightarrow> big_counter option" where
  "get_big_counter s name =
     (case s name of
        Some (StatBig v) \<Rightarrow> new_big_counter_from_big_int v
      | Some (StatInt64 v) \<Rightarrow> new_big_counter_from_int64 v
      | Some (StatUint64 v) \<Rightarrow> Some (new_big_counter v)
      | _ \<Rightarrow> None)"

fun native_stat :: "native_number \<Rightarrow> stat_value" where
  "native_stat (NativeBig v) = StatBig v"
| "native_stat (NativeUint v) = StatUint64 v"

definition set_big_counter :: "string \<Rightarrow> big_counter \<Rightarrow> subnet_stats \<Rightarrow> subnet_stats" where
  "set_big_counter name c s = s(name \<mapsto> native_stat (convert_to_native_type c))"

text \<open>
  The text form: \<open>MarshalJSON\<close> writes the integers as strings, \<open>UnmarshalJSON\<close> reads a string as
  the narrowest type that fits, an unsigned one first.
\<close>

fun marshal_stat :: "stat_value \<Rightarrow> stat_value" where
  "marshal_stat (StatBig v) = StatText (int_str v)"
| "marshal_stat (StatInt64 v) = StatText (int_str v)"
| "marshal_stat (StatUint64 v) = StatText (int_str (uint v))"
| "marshal_stat v = v"

definition big_set_string :: "string \<Rightarrow> int option" where
  "big_set_string s =
     (if s = [] then None
      else (let t = (if hd s = CHR ''+'' \<or> hd s = CHR ''-'' then tl s else s)
            in if t = [] \<or> (\<exists>c \<in> set t. \<not> is_digit c) then None
               else Some (if hd s = CHR ''-'' then - int (digits_value t) else int (digits_value t))))"

definition unmarshal_stat :: "stat_value \<Rightarrow> stat_value" where
  "unmarshal_stat v =
     (case v of
        StatText s \<Rightarrow>
          (case strconv_parse_uint 64 s of
             Some n \<Rightarrow> StatUint64 (word_of_int (int n))
           | None \<Rightarrow>
               (case strconv_parse_int 64 s of
                  Some i \<Rightarrow> StatInt64 i
                | None \<Rightarrow> (case big_set_string s of Some i \<Rightarrow> StatBig i | None \<Rightarrow> v)))
      | _ \<Rightarrow> v)"

definition marshal_stats :: "subnet_stats \<Rightarrow> subnet_stats" where
  "marshal_stats s = (\<lambda>k. map_option marshal_stat (s k))"

text \<open>Decoding adds to the map that is already there.\<close>

definition unmarshal_stats :: "subnet_stats \<Rightarrow> subnet_stats \<Rightarrow> subnet_stats" where
  "unmarshal_stats text1 s = s ++ (\<lambda>k. map_option unmarshal_stat (text1 k))"

section \<open>The rows of a response\<close>

text \<open>\<open>strings.Replace(name, "addreses", "addresses", 1)\<close>.\<close>

fun replace_first :: "string \<Rightarrow> string \<Rightarrow> string \<Rightarrow> string" where
  "replace_first old new [] = (if old = [] then new else [])"
| "replace_first old new (c # s) =
     (if take (length old) (c # s) = old then new @ drop (length old) (c # s)
      else c # replace_first old new s)"

text \<open>\<open>big.Int.Int64\<close>: the low 64 bits, with a sign.\<close>

definition low_int64 :: "int \<Rightarrow> int" where
  "low_int64 v = (let m = v mod 2 ^ 64 in if m < 2 ^ 63 then m else m - 2 ^ 64)"

definition unsigned_value :: "int \<Rightarrow> int" where
  "unsigned_value v = (if v < 0 then max_uint64 + (1 + v) else v)"

text \<open>
  A row under its columns: the local subnet it names last and its statistics.  A value without
  a column, and a value too small for a counter, are panics.
\<close>

fun read_row :: "string list \<Rightarrow> int list \<Rightarrow> int option \<Rightarrow> subnet_stats \<Rightarrow> (int option \<times> subnet_stats) run" where
  "read_row cols [] sn s = Done (sn, s)"
| "read_row [] (v # vs) sn s = Panic"
| "read_row (name # cols) (v # vs) sn s =
     (if name = ''subnet-id'' then read_row cols vs (Some (low_int64 v)) s
      else (case new_big_counter_from_big_int (unsigned_value v) of
              None \<Rightarrow> Panic
            | Some c \<Rightarrow> read_row cols vs sn (set_big_counter (replace_first ''addreses'' ''addresses'' name) c s)))"

text \<open>
  The local subnets of the app, by their identifier in Kea and the family; \<open>update\<close> tells how the
  database answers.  The last error of the rows is returned.
\<close>

type_synonym local_subnets = "int \<times> int \<rightharpoonup> subnet_stats"

datatype stats_error = EmptyResponse | MissingArguments | NoLocalSubnet int int | UpdateFailed string

fun store_rows ::
    "(int \<times> int \<Rightarrow> string option) \<Rightarrow> int \<Rightarrow> string list \<Rightarrow> int list list \<Rightarrow> local_subnets \<Rightarrow> stats_error option \<Rightarrow>
     (local_subnets \<times> stats_error option) run" where
  "store_rows update family cols [] m last_err = Done (m, last_err)"
| "store_rows update family cols (r # rs) m last_err =
     bind_run (read_row cols r None Map.empty) (\<lambda>(sn, s).
       (let key = (case sn of None \<Rightarrow> None | Some i \<Rightarrow> if m (i, family) = None then None else Some (i, family)) in
        case key of
          None \<Rightarrow> store_rows update family cols rs m (Some (NoLocalSubnet (case sn of None \<Rightarrow> 0 | Some i \<Rightarrow> i) family))
        | Some k \<Rightarrow>
            store_rows update family cols rs (m(k \<mapsto> s))
              (case update k of Some e \<Rightarrow> Some (UpdateFailed e) | None \<Rightarrow> last_err)))"

text \<open>The responses are given as the columns and rows of their arguments, \<open>None\<close> without arguments.\<close>

definition store_daemon_stats ::
    "(int \<times> int \<Rightarrow> string option) \<Rightarrow> int \<Rightarrow> (string list \<times> int list list) option list \<Rightarrow> local_subnets \<Rightarrow>
     (local_subnets \<times> stats_error option) run" where
  "store_daemon_stats update family responses m =
     (case responses of
        [] \<Rightarrow> Done (m, Some EmptyResponse)
      | None # _ \<Rightarrow> Done (m, Some MissingArguments)
      | Some (cols, rows) # _ \<Rightarrow> store_rows update family cols rows m None)"

section \<open>The counter of statistics\<close>

record local_subnet =
  lsn_daemon_id :: int
  lsn_stats :: subnet_stats

record stat_subnet =
  sts_id :: int
  sts_shared_network_id :: int
  sts_prefix :: string
  sts_local_subnets :: "local_subnet list"

definition get_family :: "stat_subnet \<Rightarrow> int" where
  "get_family s = (if CHR '':'' \<in> set (sts_prefix s) then 6 else 4)"

record global_stats =
  gls_total_ipv4_addresses :: big_counter
  gls_total_assigned_ipv4_addresses :: big_counter
  gls_total_declined_ipv4_addresses :: big_counter
  gls_total_ipv6_addresses :: big_counter
  gls_total_assigned_ipv6_addresses :: big_counter
  gls_total_declined_ipv6_addresses :: big_counter
  gls_total_delegated_prefixes :: big_counter
  gls_total_assigned_delegated_prefixes :: big_counter

definition new_global_stats :: global_stats where
  "new_global_stats =
     \<lparr>gls_total_ipv4_addresses = new_big_counter 0, gls_total_assigned_ipv4_addresses = new_big_counter 0,
      gls_total_declined_ipv4_addresses = new_big_counter 0, gls_total_ipv6_addresses = new_big_counter 0,
      gls_total_assigned_ipv6_addresses = new_big_counter 0, gls_total_declined_ipv6_addresses = new_big_counter 0,
      gls_total_delegated_prefixes = new_big_counter 0, gls_total_assigned_delegated_prefixes = new_big_counter 0\<rparr>"

record ipv4_stats =
  i4_total_addresses :: uint64
  i4_total_assigned_addresses :: uint64
  i4_total_declined_addresses :: uint64

record ipv6_stats =
  i6_total_addresses :: big_counter
  i6_total_assigned_addresses :: big_counter
  i6_total_declined_addresses :: big_counter
  i6_total_delegated_prefixes :: big_counter
  i6_total_assigned_delegated_prefixes :: big_counter

datatype counted_stats = Stats4 ipv4_stats | Stats6 ipv6_stats

record shared_network_stats =
  sns_total_addresses :: big_counter
  sns_total_assigned_addresses :: big_counter
  sns_total_delegated_prefixes :: big_counter
  sns_total_assigned_delegated_prefixes :: big_counter

definition new_shared_network_stats :: shared_network_stats where
  "new_shared_network_stats =
     \<lparr>sns_total_addresses = new_big_counter 0, sns_total_assigned_addresses = new_big_counter 0,
      sns_total_delegated_prefixes = new_big_counter 0, sns_total_assigned_delegated_prefixes = new_big_counter 0\<rparr>"

definition global_add_ipv4_subnet :: "ipv4_stats \<Rightarrow> global_stats \<Rightarrow> global_stats" where
  "global_add_ipv4_subnet s g =
     g\<lparr>gls_total_ipv4_addresses := add_uint64 (gls_total_ipv4_addresses g) (i4_total_addresses s),
       gls_total_assigned_ipv4_addresses := add_uint64 (gls_total_assigned_ipv4_addresses g) (i4_total_assigned_addresses s),
       gls_total_declined_ipv4_addresses := add_uint64 (gls_total_declined_ipv4_addresses g) (i4_total_declined_addresses s)\<rparr>"

definition global_add_ipv6_subnet :: "ipv6_stats \<Rightarrow> global_stats \<Rightarrow> global_stats" where
  "global_add_ipv6_subnet s g =
     g\<lparr>gls_total_ipv6_addresses := counter_add (gls_total_ipv6_addresses g) (i6_total_addresses s),
       gls_total_assigned_ipv6_addresses := counter_add (gls_total_assigned_ipv6_addresses g) (i6_total_assigned_addresses s),
       gls_total_declined_ipv6_addresses := counter_add (gls_total_declined_ipv6_addresses g) (i6_total_declined_addresses s),
       gls_total_delegated_prefixes := counter_add (gls_total_delegated_prefixes g) (i6_total_delegated_prefixes s),
       gls_total_assigned_delegated_prefixes :=
         counter_add (gls_total_assigned_delegated_prefixes g) (i6_total_assigned_delegated_prefixes s)\<rparr>"

definition network_add_ipv4_subnet :: "ipv4_stats \<Rightarrow> shared_network_stats \<Rightarrow> shared_network_stats" where
  "network_add_ipv4_subnet s n =
     n\<lparr>sns_total_addresses := add_uint64 (sns_total_addresses n) (i4_total_addresses s),
       sns_total_assigned_addresses := add_uint64 (sns_total_assigned_addresses n) (i4_total_assigned_addresses s)\<rparr>"

definition network_add_ipv6_subnet :: "ipv6_stats \<Rightarrow> shared_network_stats \<Rightarrow> shared_network_stats" where
  "network_add_ipv6_subnet s n =
     n\<lparr>sns_total_addresses := counter_add (sns_total_addresses n) (i6_total_addresses s),
       sns_total_assigned_addresses := counter_add (sns_total_assigned_addresses n) (i6_total_assigned_addresses s),
       sns_total_delegated_prefixes := counter_add (sns_total_delegated_prefixes n) (i6_total_delegated_prefixes s),
       sns_total_assigned_delegated_prefixes :=
         counter_add (sns_total_assigned_delegated_prefixes n) (i6_total_assigned_delegated_prefixes s)\<rparr>"

text \<open>\<open>GetStatistics\<close> of the three kinds.\<close>

definition network_statistics :: "shared_network_stats \<Rightarrow> string \<rightharpoonup> native_number" where
  "network_statistics n =
     [total_nas \<mapsto> convert_to_native_type (sns_total_addresses n),
      assigned_nas \<mapsto> convert_to_native_type (sns_total_assigned_addresses n),
      total_pds \<mapsto> convert_to_native_type (sns_total_delegated_prefixes n),
      assigned_pds \<mapsto> convert_to_native_type (sns_total_assigned_delegated_prefixes n)]"

definition ipv4_statistics :: "ipv4_stats \<Rightarrow> string \<rightharpoonup> native_number" where
  "ipv4_statistics s =
     [total_addresses \<mapsto> NativeUint (i4_total_addresses s),
      assigned_addresses \<mapsto> NativeUint (i4_total_assigned_addresses s),
      declined_addresses \<mapsto> NativeUint (i4_total_declined_addresses s)]"

definition ipv6_statistics :: "ipv6_stats \<Rightarrow> string \<rightharpoonup> native_number" where
  "ipv6_statistics s =
     [total_nas \<mapsto> convert_to_native_type (i6_total_addresses s),
      assigned_nas \<mapsto> convert_to_native_type (i6_total_assigned_addresses s),
      declined_nas \<mapsto> convert_to_native_type (i6_total_declined_addresses s),
      total_pds \<mapsto> convert_to_native_type (i6_total_delegated_prefixes s),
      assigned_pds \<mapsto> convert_to_native_type (i6_total_assigned_delegated_prefixes s)]"

record statistics_counter =
  stc_global :: global_stats
  stc_shared_networks :: "int \<rightharpoonup> shared_network_stats"
  stc_out_of_pool_addresses :: "int \<rightharpoonup> uint64"
  stc_out_of_pool_prefixes :: "int \<rightharpoonup> uint64"
  stc_excluded_daemons :: "int list"

definition new_statistics_counter :: statistics_counter where
  "new_statistics_counter =
     \<lparr>stc_global = new_global_stats, stc_shared_networks = Map.empty, stc_out_of_pool_addresses = Map.empty,
      stc_out_of_pool_prefixes = Map.empty, stc_excluded_daemons = []\<rparr>"

definition set_out_of_pool_addresses :: "(int \<rightharpoonup> uint64) \<Rightarrow> statistics_counter \<Rightarrow> statistics_counter" where
  "set_out_of_pool_addresses m c = c\<lparr>stc_out_of_pool_addresses := m\<rparr>"

definition set_out_of_pool_prefixes :: "(int \<rightharpoonup> uint64) \<Rightarrow> statistics_counter \<Rightarrow> statistics_counter" where
  "set_out_of_pool_prefixes m c = c\<lparr>stc_out_of_pool_prefixes := m\<rparr>"

definition set_excluded_daemons :: "int list \<Rightarrow> statistics_counter \<Rightarrow> statistics_counter" where
  "set_excluded_daemons ds c = c\<lparr>stc_excluded_daemons := ds\<rparr>"

fun sum_stat_ipv6 :: "string \<Rightarrow> int list \<Rightarrow> local_subnet list \<Rightarrow> big_counter \<Rightarrow> big_counter" where
  "sum_stat_ipv6 name excluded [] sum1 = sum1"
| "sum_stat_ipv6 name excluded (l # ls) sum1 =
     (if lsn_daemon_id l \<in> set excluded then sum_stat_ipv6 name excluded ls sum1
      else (case get_big_counter (lsn_stats l) name of
              None \<Rightarrow> sum_stat_ipv6 name excluded ls sum1
            | Some v \<Rightarrow> sum_stat_ipv6 name excluded ls (counter_add sum1 v)))"

definition sum_stat_local_subnets_ipv6 :: "stat_subnet \<Rightarrow> string \<Rightarrow> int list \<Rightarrow> big_counter" where
  "sum_stat_local_subnets_ipv6 s name excluded = sum_stat_ipv6 name excluded (sts_local_subnets s) (new_big_counter 0)"

fun sum_stat_ipv4 :: "string \<Rightarrow> int list \<Rightarrow> local_subnet list \<Rightarrow> uint64 \<Rightarrow> uint64" where
  "sum_stat_ipv4 name excluded [] sum1 = sum1"
| "sum_stat_ipv4 name excluded (l # ls) sum1 =
     (if lsn_daemon_id l \<in> set excluded then sum_stat_ipv4 name excluded ls sum1
      else (case get_big_counter (lsn_stats l) name of
              None \<Rightarrow> sum_stat_ipv4 name excluded ls sum1
            | Some v \<Rightarrow>
                (case to_uint64 v of (n, ok) \<Rightarrow>
                   sum_stat_ipv4 name excluded ls (if ok then sum1 + n else sum1))))"

definition sum_stat_local_subnets_ipv4 :: "stat_subnet \<Rightarrow> string \<Rightarrow> int list \<Rightarrow> uint64" where
  "sum_stat_local_subnets_ipv4 s name excluded = sum_stat_ipv4 name excluded (sts_local_subnets s) 0"

text \<open>The entry of the shared network is there when it is needed.\<close>

definition update_network ::
    "(shared_network_stats \<Rightarrow> shared_network_stats) \<Rightarrow> stat_subnet \<Rightarrow> statistics_counter \<Rightarrow> statistics_counter" where
  "update_network f s c =
     (if sts_shared_network_id s \<noteq> 0
      then c\<lparr>stc_shared_networks :=
               (stc_shared_networks c)(sts_shared_network_id s := map_option f (stc_shared_networks c (sts_shared_network_id s)))\<rparr>
      else c)"

definition add_ipv4_subnet :: "stat_subnet \<Rightarrow> uint64 \<Rightarrow> statistics_counter \<Rightarrow> statistics_counter \<times> ipv4_stats" where
  "add_ipv4_subnet s out_of_pool c =
     (let ex = stc_excluded_daemons c;
          st = \<lparr>i4_total_addresses = sum_stat_local_subnets_ipv4 s total_addresses ex + out_of_pool,
                i4_total_assigned_addresses = sum_stat_local_subnets_ipv4 s assigned_addresses ex,
                i4_total_declined_addresses = sum_stat_local_subnets_ipv4 s declined_addresses ex\<rparr>;
          c = update_network (network_add_ipv4_subnet st) s c
      in (c\<lparr>stc_global := global_add_ipv4_subnet st (stc_global c)\<rparr>, st))"

definition add_ipv6_subnet ::
    "stat_subnet \<Rightarrow> uint64 \<Rightarrow> uint64 \<Rightarrow> statistics_counter \<Rightarrow> statistics_counter \<times> ipv6_stats" where
  "add_ipv6_subnet s out_addresses out_prefixes c =
     (let ex = stc_excluded_daemons c;
          st = \<lparr>i6_total_addresses = add_uint64 (sum_stat_local_subnets_ipv6 s total_nas ex) out_addresses,
                i6_total_assigned_addresses = sum_stat_local_subnets_ipv6 s assigned_nas ex,
                i6_total_declined_addresses = sum_stat_local_subnets_ipv6 s declined_nas ex,
                i6_total_delegated_prefixes = add_uint64 (sum_stat_local_subnets_ipv6 s total_pds ex) out_prefixes,
                i6_total_assigned_delegated_prefixes = sum_stat_local_subnets_ipv6 s assigned_pds ex\<rparr>;
          c = update_network (network_add_ipv6_subnet st) s c
      in (c\<lparr>stc_global := global_add_ipv6_subnet st (stc_global c)\<rparr>, st))"

definition ensure_network :: "stat_subnet \<Rightarrow> statistics_counter \<Rightarrow> statistics_counter" where
  "ensure_network s c =
     (if sts_shared_network_id s \<noteq> 0 \<and> stc_shared_networks c (sts_shared_network_id s) = None
      then c\<lparr>stc_shared_networks := (stc_shared_networks c)(sts_shared_network_id s \<mapsto> new_shared_network_stats)\<rparr>
      else c)"

definition add_subnet :: "stat_subnet \<Rightarrow> statistics_counter \<Rightarrow> statistics_counter \<times> counted_stats" where
  "add_subnet s c =
     (let c = ensure_network s c;
          out_addresses = (case stc_out_of_pool_addresses c (sts_id s) of Some n \<Rightarrow> n | None \<Rightarrow> 0) in
      if get_family s = 4 then (case add_ipv4_subnet s out_addresses c of (c, st) \<Rightarrow> (c, Stats4 st))
      else (let out_prefixes = (case stc_out_of_pool_prefixes c (sts_id s) of Some n \<Rightarrow> n | None \<Rightarrow> 0) in
            case add_ipv6_subnet s out_addresses out_prefixes c of (c, st) \<Rightarrow> (c, Stats6 st)))"

text \<open>The counter as the puller sets it up, with the global reservations, and its loop over the subnets.\<close>

definition prepared_counter ::
    "(int \<rightharpoonup> uint64) \<Rightarrow> (int \<rightharpoonup> uint64) \<Rightarrow> uint64 \<Rightarrow> uint64 \<Rightarrow> uint64 \<Rightarrow> int list \<Rightarrow> statistics_counter" where
  "prepared_counter out_addresses out_prefixes global4 global6 global_pd excluded =
     (let c = set_out_of_pool_prefixes out_prefixes (set_out_of_pool_addresses out_addresses new_statistics_counter);
          g = stc_global c
      in set_excluded_daemons excluded
           (c\<lparr>stc_global := g\<lparr>gls_total_ipv4_addresses := add_uint64 (gls_total_ipv4_addresses g) global4,
                             gls_total_ipv6_addresses := add_uint64 (gls_total_ipv6_addresses g) global6,
                             gls_total_delegated_prefixes := add_uint64 (gls_total_delegated_prefixes g) global_pd\<rparr>\<rparr>))"

fun add_subnets :: "stat_subnet list \<Rightarrow> statistics_counter \<Rightarrow> statistics_counter \<times> counted_stats list" where
  "add_subnets [] c = (c, [])"
| "add_subnets (s # ss) c =
     (case add_subnet s c of (c, st) \<Rightarrow> case add_subnets ss c of (c, sts) \<Rightarrow> (c, st # sts))"

end
