(* ===== verification/Kea_Statistics_Correct.thy ===== *)
theory Kea_Statistics_Correct
  imports Kea_Statistics
begin

text \<open>
  What the statistics of leases add up to, that they survive their text form, and when a row of
  a response cannot be read.
\<close>

section \<open>Values of statistics\<close>

lemma from_big_int_value:
  assumes "new_big_counter_from_big_int v = Some c"
  shows "counter_ok c \<and> to_big_int c = v \<and> 0 \<le> v"
  using assms uint_word_of_int64 [of v] max_uint64_pos
  by (auto simp: new_big_counter_from_big_int_def new_big_counter_def counter_ok_def to_big_int_def is_uint64_def split: if_splits)

lemma new_counter_value: "counter_ok (new_big_counter w)" "to_big_int (new_big_counter w) = uint w"
  by (simp_all add: new_big_counter_def counter_ok_def to_big_int_def)

lemma get_big_counter_ok: "get_big_counter s name = Some c \<Longrightarrow> counter_ok c \<and> 0 \<le> to_big_int c"
  using from_big_int_value
  by (fastforce simp: get_big_counter_def new_big_counter_from_int64_def new_counter_value split: option.splits stat_value.splits if_splits)

text \<open>The values of a statistic in the local subnets of the daemons that count.\<close>

definition local_values :: "string \<Rightarrow> int list \<Rightarrow> local_subnet list \<Rightarrow> int list" where
  "local_values name excluded ls =
     concat (map (\<lambda>l. if lsn_daemon_id l \<in> set excluded then []
                     else (case get_big_counter (lsn_stats l) name of None \<Rightarrow> [] | Some c \<Rightarrow> [to_big_int c])) ls)"

lemma sum_stat_ipv6_value:
  "counter_ok n \<Longrightarrow> counter_ok (sum_stat_ipv6 name ex ls n) \<and>
     to_big_int (sum_stat_ipv6 name ex ls n) = to_big_int n + sum_list (local_values name ex ls)"
proof (induction ls arbitrary: n)
  case (Cons l ls)
  show ?case
  proof (cases "lsn_daemon_id l \<in> set ex \<or> get_big_counter (lsn_stats l) name = None")
    case True
    with Cons show ?thesis by (auto simp: local_values_def)
  next
    case False
    then obtain c where c: "lsn_daemon_id l \<notin> set ex" "get_big_counter (lsn_stats l) name = Some c" by auto
    from counter_add_value [OF Cons.prems] get_big_counter_ok [OF c(2)]
    have "to_big_int (counter_add n c) = to_big_int n + to_big_int c" "counter_ok (counter_add n c)" by blast+
    with Cons.IH c show ?thesis by (simp add: local_values_def)
  qed
qed (simp add: local_values_def)

lemma sum_stat_ipv4_value:
  "uint (sum_stat_ipv4 name ex ls n) =
     (uint n + sum_list (filter (\<lambda>v. v \<le> max_uint64) (local_values name ex ls))) mod 2 ^ 64"
proof (induction ls arbitrary: n)
  case Nil
  show ?case using uint_bounds [of n] by (simp add: local_values_def max_uint64_def)
next
  case (Cons l ls)
  show ?case
  proof (cases "lsn_daemon_id l \<in> set ex \<or> get_big_counter (lsn_stats l) name = None")
    case True
    with Cons show ?thesis by (auto simp: local_values_def)
  next
    case False
    then obtain c where c: "lsn_daemon_id l \<notin> set ex" "get_big_counter (lsn_stats l) name = Some c" by auto
    have ok: "counter_ok c" "0 \<le> to_big_int c" using get_big_counter_ok [OF c(2)] by simp_all
    show ?thesis
    proof (cases "to_big_int c \<le> max_uint64")
      case True
      then have t: "to_uint64 c = (word_of_int (to_big_int c), True)" using counter_reads(1) [OF ok(1)] by simp
      have "uint (word_of_int (to_big_int c) :: uint64) = to_big_int c"
        using True ok(2) by (intro uint_word_of_int64) (simp add: is_uint64_def)
      then have "uint (n + word_of_int (to_big_int c)) = (uint n + to_big_int c) mod 2 ^ 64" by (simp add: uint_word_ariths(1))
      with Cons c t True show ?thesis by (simp add: local_values_def mod_add_left_eq add.assoc)
    next
      case False
      then have "to_uint64 c = (word_of_int max_uint64, False)" using counter_reads(1) [OF ok(1)] by simp
      with Cons c False show ?thesis by (simp add: local_values_def)
    qed
  qed
qed

section \<open>What a subnet contributes\<close>

text \<open>
  The numbers of addresses of a subnet: as IPv4 they wrap at \<open>2 ^ 64\<close>, as IPv6 they do not; the
  prefixes are those of an IPv6 subnet.
\<close>

definition out_of_pool :: "(int \<rightharpoonup> uint64) \<Rightarrow> stat_subnet \<Rightarrow> int" where
  "out_of_pool m s = (case m (sts_id s) of None \<Rightarrow> 0 | Some n \<Rightarrow> uint n)"

definition value4 :: "string \<Rightarrow> int list \<Rightarrow> int \<Rightarrow> stat_subnet \<Rightarrow> int" where
  "value4 name ex extra s =
     (if get_family s = 4
      then (sum_list (filter (\<lambda>v. v \<le> max_uint64) (local_values name ex (sts_local_subnets s))) + extra) mod 2 ^ 64 else 0)"

definition value6 :: "string \<Rightarrow> int list \<Rightarrow> int \<Rightarrow> stat_subnet \<Rightarrow> int" where
  "value6 name ex extra s =
     (if get_family s = 4 then 0 else sum_list (local_values name ex (sts_local_subnets s)) + extra)"

definition stats4 :: "int list \<Rightarrow> uint64 \<Rightarrow> stat_subnet \<Rightarrow> ipv4_stats" where
  "stats4 ex out1 s =
     \<lparr>i4_total_addresses = sum_stat_local_subnets_ipv4 s total_addresses ex + out1,
      i4_total_assigned_addresses = sum_stat_local_subnets_ipv4 s assigned_addresses ex,
      i4_total_declined_addresses = sum_stat_local_subnets_ipv4 s declined_addresses ex\<rparr>"

definition stats6 :: "int list \<Rightarrow> uint64 \<Rightarrow> uint64 \<Rightarrow> stat_subnet \<Rightarrow> ipv6_stats" where
  "stats6 ex out1 out2 s =
     \<lparr>i6_total_addresses = add_uint64 (sum_stat_local_subnets_ipv6 s total_nas ex) out1,
      i6_total_assigned_addresses = sum_stat_local_subnets_ipv6 s assigned_nas ex,
      i6_total_declined_addresses = sum_stat_local_subnets_ipv6 s declined_nas ex,
      i6_total_delegated_prefixes = add_uint64 (sum_stat_local_subnets_ipv6 s total_pds ex) out2,
      i6_total_assigned_delegated_prefixes = sum_stat_local_subnets_ipv6 s assigned_pds ex\<rparr>"

lemma stats4_values:
  assumes "get_family s = 4"
  shows "uint (i4_total_addresses (stats4 ex out1 s)) = value4 total_addresses ex (uint out1) s"
    "uint (i4_total_assigned_addresses (stats4 ex out1 s)) = value4 assigned_addresses ex 0 s"
    "uint (i4_total_declined_addresses (stats4 ex out1 s)) = value4 declined_addresses ex 0 s"
  using assms
  by (simp_all add: stats4_def sum_stat_local_subnets_ipv4_def value4_def sum_stat_ipv4_value uint_word_ariths(1) mod_add_left_eq)

lemma stats6_values:
  assumes "get_family s \<noteq> 4"
  shows "counter_ok (i6_total_addresses (stats6 ex out1 out2 s)) \<and>
      to_big_int (i6_total_addresses (stats6 ex out1 out2 s)) = value6 total_nas ex (uint out1) s"
    "counter_ok (i6_total_assigned_addresses (stats6 ex out1 out2 s)) \<and>
      to_big_int (i6_total_assigned_addresses (stats6 ex out1 out2 s)) = value6 assigned_nas ex 0 s"
    "counter_ok (i6_total_declined_addresses (stats6 ex out1 out2 s)) \<and>
      to_big_int (i6_total_declined_addresses (stats6 ex out1 out2 s)) = value6 declined_nas ex 0 s"
    "counter_ok (i6_total_delegated_prefixes (stats6 ex out1 out2 s)) \<and>
      to_big_int (i6_total_delegated_prefixes (stats6 ex out1 out2 s)) = value6 total_pds ex (uint out2) s"
    "counter_ok (i6_total_assigned_delegated_prefixes (stats6 ex out1 out2 s)) \<and>
      to_big_int (i6_total_assigned_delegated_prefixes (stats6 ex out1 out2 s)) = value6 assigned_pds ex 0 s"
proof -
  have v: "counter_ok (sum_stat_local_subnets_ipv6 s name ex) \<and>
      to_big_int (sum_stat_local_subnets_ipv6 s name ex) = value6 name ex 0 s" for name
    using sum_stat_ipv6_value [OF new_counter_value(1), of name ex "sts_local_subnets s" 0] assms
    by (simp add: sum_stat_local_subnets_ipv6_def value6_def new_counter_value)
  have w: "counter_ok (add_uint64 (sum_stat_local_subnets_ipv6 s name ex) out1) \<and>
      to_big_int (add_uint64 (sum_stat_local_subnets_ipv6 s name ex) out1) = value6 name ex (uint out1) s" for name out1
    using add_uint64_value [of "sum_stat_local_subnets_ipv6 s name ex" out1] v [of name] assms by (simp add: value6_def)
  show "counter_ok (i6_total_addresses (stats6 ex out1 out2 s)) \<and>
      to_big_int (i6_total_addresses (stats6 ex out1 out2 s)) = value6 total_nas ex (uint out1) s"
    "counter_ok (i6_total_assigned_addresses (stats6 ex out1 out2 s)) \<and>
      to_big_int (i6_total_assigned_addresses (stats6 ex out1 out2 s)) = value6 assigned_nas ex 0 s"
    "counter_ok (i6_total_declined_addresses (stats6 ex out1 out2 s)) \<and>
      to_big_int (i6_total_declined_addresses (stats6 ex out1 out2 s)) = value6 declined_nas ex 0 s"
    "counter_ok (i6_total_delegated_prefixes (stats6 ex out1 out2 s)) \<and>
      to_big_int (i6_total_delegated_prefixes (stats6 ex out1 out2 s)) = value6 total_pds ex (uint out2) s"
    "counter_ok (i6_total_assigned_delegated_prefixes (stats6 ex out1 out2 s)) \<and>
      to_big_int (i6_total_assigned_delegated_prefixes (stats6 ex out1 out2 s)) = value6 assigned_pds ex 0 s"
    using v w by (simp_all add: stats6_def)
qed

section \<open>The totals\<close>

text \<open>One subnet: the totals it goes to, in terms of its statistics.\<close>

abbreviation pool_extra :: "(int \<rightharpoonup> uint64) \<Rightarrow> stat_subnet \<Rightarrow> uint64" where
  "pool_extra m s \<equiv> (case m (sts_id s) of Some n \<Rightarrow> n | None \<Rightarrow> 0)"

lemma uint_pool_extra: "uint (pool_extra m s) = out_of_pool m s"
  by (simp add: out_of_pool_def split: option.split)

definition network_before :: "stat_subnet \<Rightarrow> statistics_counter \<Rightarrow> shared_network_stats" where
  "network_before s c =
     (case stc_shared_networks c (sts_shared_network_id s) of None \<Rightarrow> new_shared_network_stats | Some n \<Rightarrow> n)"

lemma add_subnet_parts:
  fixes s :: stat_subnet and c :: statistics_counter
  defines "ex \<equiv> stc_excluded_daemons c" and "a \<equiv> pool_extra (stc_out_of_pool_addresses c) s" and "p \<equiv> pool_extra (stc_out_of_pool_prefixes c) s"
  shows "stc_global (fst (add_subnet s c)) =
      (if get_family s = 4 then global_add_ipv4_subnet (stats4 ex a s) (stc_global c)
       else global_add_ipv6_subnet (stats6 ex a p s) (stc_global c))"
    and "stc_shared_networks (fst (add_subnet s c)) =
      (if sts_shared_network_id s = 0 then stc_shared_networks c
       else (stc_shared_networks c)(sts_shared_network_id s \<mapsto>
         (if get_family s = 4 then network_add_ipv4_subnet (stats4 ex a s) (network_before s c)
          else network_add_ipv6_subnet (stats6 ex a p s) (network_before s c))))"
    and "stc_excluded_daemons (fst (add_subnet s c)) = ex"
    and "stc_out_of_pool_addresses (fst (add_subnet s c)) = stc_out_of_pool_addresses c"
    and "stc_out_of_pool_prefixes (fst (add_subnet s c)) = stc_out_of_pool_prefixes c"
  by (auto simp: add_subnet_def Let_def add_ipv4_subnet_def add_ipv6_subnet_def ensure_network_def update_network_def
      stats4_def stats6_def network_before_def ex_def a_def p_def split: option.split)

text \<open>A total that each subnet adds its part to.\<close>

definition adds :: "(statistics_counter \<Rightarrow> big_counter) \<Rightarrow> (stat_subnet \<Rightarrow> int) \<Rightarrow> statistics_counter \<Rightarrow> bool" where
  "adds total1 part c =
     (\<forall>s c'. stc_excluded_daemons c' = stc_excluded_daemons c \<and> stc_out_of_pool_addresses c' = stc_out_of_pool_addresses c \<and>
        stc_out_of_pool_prefixes c' = stc_out_of_pool_prefixes c \<and> counter_ok (total1 c') \<longrightarrow>
        counter_ok (total1 (fst (add_subnet s c'))) \<and>
        to_big_int (total1 (fst (add_subnet s c'))) = to_big_int (total1 c') + part s)"

lemma adds_up:
  assumes "adds total1 part c" and "counter_ok (total1 c)"
  shows "counter_ok (total1 (fst (add_subnets ss c))) \<and>
    to_big_int (total1 (fst (add_subnets ss c))) = to_big_int (total1 c) + (\<Sum>s\<leftarrow>ss. part s)"
  using assms
proof (induction ss arbitrary: c)
  case (Cons s ss)
  let ?c = "fst (add_subnet s c)"
  have kept: "stc_excluded_daemons ?c = stc_excluded_daemons c" "stc_out_of_pool_addresses ?c = stc_out_of_pool_addresses c"
    "stc_out_of_pool_prefixes ?c = stc_out_of_pool_prefixes c" by (rule add_subnet_parts)+
  have step: "counter_ok (total1 ?c)" "to_big_int (total1 ?c) = to_big_int (total1 c) + part s"
    using Cons.prems unfolding adds_def by blast+
  have "adds total1 part ?c" using Cons.prems(1) unfolding adds_def kept .
  from Cons.IH [OF this step(1)] step(2) show ?case by (simp add: case_prod_beta)
qed simp

lemmas counter_values = counter_add_value add_uint64_value

lemma global_adds:
  fixes c :: statistics_counter
  defines "ex \<equiv> stc_excluded_daemons c" and "oa \<equiv> out_of_pool (stc_out_of_pool_addresses c)" and "op \<equiv> out_of_pool (stc_out_of_pool_prefixes c)"
  shows "adds (\<lambda>c. gls_total_ipv4_addresses (stc_global c)) (\<lambda>s. value4 total_addresses ex (oa s) s) c"
    "adds (\<lambda>c. gls_total_assigned_ipv4_addresses (stc_global c)) (value4 assigned_addresses ex 0) c"
    "adds (\<lambda>c. gls_total_declined_ipv4_addresses (stc_global c)) (value4 declined_addresses ex 0) c"
    "adds (\<lambda>c. gls_total_ipv6_addresses (stc_global c)) (\<lambda>s. value6 total_nas ex (oa s) s) c"
    "adds (\<lambda>c. gls_total_assigned_ipv6_addresses (stc_global c)) (value6 assigned_nas ex 0) c"
    "adds (\<lambda>c. gls_total_declined_ipv6_addresses (stc_global c)) (value6 declined_nas ex 0) c"
    "adds (\<lambda>c. gls_total_delegated_prefixes (stc_global c)) (\<lambda>s. value6 total_pds ex (op s) s) c"
    "adds (\<lambda>c. gls_total_assigned_delegated_prefixes (stc_global c)) (value6 assigned_pds ex 0) c"
  unfolding adds_def add_subnet_parts(1) ex_def oa_def op_def
  by (auto simp: global_add_ipv4_subnet_def global_add_ipv6_subnet_def counter_values stats4_values stats6_values uint_pool_extra
      value4_def [of _ _ _ s for s] value6_def [of _ _ _ s for s])


text \<open>The statistics of a shared network, zero as long as it has none, and the part of a subnet of it.\<close>

definition network_of :: "int \<Rightarrow> statistics_counter \<Rightarrow> shared_network_stats" where
  "network_of i c = (case stc_shared_networks c i of None \<Rightarrow> new_shared_network_stats | Some n \<Rightarrow> n)"

definition part_of :: "int \<Rightarrow> (stat_subnet \<Rightarrow> int) \<Rightarrow> stat_subnet \<Rightarrow> int" where
  "part_of i f s = (if sts_shared_network_id s = i then f s else 0)"

lemma network_of_step:
  assumes "i \<noteq> 0"
  shows "network_of i (fst (add_subnet s c)) =
    (if sts_shared_network_id s \<noteq> i then network_of i c
     else if get_family s = 4
     then network_add_ipv4_subnet (stats4 (stc_excluded_daemons c) (pool_extra (stc_out_of_pool_addresses c) s) s) (network_of i c)
     else network_add_ipv6_subnet (stats6 (stc_excluded_daemons c) (pool_extra (stc_out_of_pool_addresses c) s)
       (pool_extra (stc_out_of_pool_prefixes c) s) s) (network_of i c))"
  using assms by (auto simp: network_of_def add_subnet_parts(2) network_before_def)

lemma network_adds:
  fixes c :: statistics_counter
  assumes "i \<noteq> 0"
  defines "ex \<equiv> stc_excluded_daemons c" and "oa \<equiv> out_of_pool (stc_out_of_pool_addresses c)" and "op \<equiv> out_of_pool (stc_out_of_pool_prefixes c)"
  shows "adds (\<lambda>c. sns_total_addresses (network_of i c))
      (part_of i (\<lambda>s. value4 total_addresses ex (oa s) s + value6 total_nas ex (oa s) s)) c"
    "adds (\<lambda>c. sns_total_assigned_addresses (network_of i c))
      (part_of i (\<lambda>s. value4 assigned_addresses ex 0 s + value6 assigned_nas ex 0 s)) c"
    "adds (\<lambda>c. sns_total_delegated_prefixes (network_of i c)) (part_of i (\<lambda>s. value6 total_pds ex (op s) s)) c"
    "adds (\<lambda>c. sns_total_assigned_delegated_prefixes (network_of i c)) (part_of i (value6 assigned_pds ex 0)) c"
  unfolding adds_def network_of_step [OF assms(1)] ex_def oa_def op_def
  by (auto simp: network_add_ipv4_subnet_def network_add_ipv6_subnet_def counter_values stats4_values stats6_values uint_pool_extra
      part_of_def value4_def [of _ _ _ s for s] value6_def [of _ _ _ s for s])

lemma networks_of_subnets:
  "stc_shared_networks (fst (add_subnets ss c)) i \<noteq> None \<longleftrightarrow>
     stc_shared_networks c i \<noteq> None \<or> (i \<noteq> 0 \<and> i \<in> sts_shared_network_id ` set ss)"
proof (induction ss arbitrary: c)
  case (Cons s ss)
  have "stc_shared_networks (fst (add_subnet s c)) i \<noteq> None \<longleftrightarrow>
      stc_shared_networks c i \<noteq> None \<or> (i \<noteq> 0 \<and> i = sts_shared_network_id s)"
    by (auto simp: add_subnet_parts(2))
  with Cons [of "fst (add_subnet s c)"] show ?case by (auto simp: case_prod_beta)
qed simp

lemma prepared_parts:
  fixes c :: statistics_counter
  assumes "c = prepared_counter oa op g4 g6 gpd ex"
  shows "stc_excluded_daemons c = ex" "stc_out_of_pool_addresses c = oa" "stc_out_of_pool_prefixes c = op"
    "stc_shared_networks c = Map.empty"
    "stc_global c = new_global_stats\<lparr>gls_total_ipv4_addresses := new_big_counter g4, gls_total_ipv6_addresses := new_big_counter g6,
       gls_total_delegated_prefixes := new_big_counter gpd\<rparr>"
proof -
  have z: "add_uint64 (new_big_counter 0) v = new_big_counter v" for v
    by (simp add: add_uint64_def new_big_counter_def is_extended_def can_add_to_base_iff uint_bounds)
  show "stc_excluded_daemons c = ex" "stc_out_of_pool_addresses c = oa" "stc_out_of_pool_prefixes c = op"
    "stc_shared_networks c = Map.empty"
    "stc_global c = new_global_stats\<lparr>gls_total_ipv4_addresses := new_big_counter g4, gls_total_ipv6_addresses := new_big_counter g6,
       gls_total_delegated_prefixes := new_big_counter gpd\<rparr>"
    by (simp_all add: assms prepared_counter_def Let_def set_out_of_pool_addresses_def set_out_of_pool_prefixes_def
        set_excluded_daemons_def new_statistics_counter_def new_global_stats_def z)
qed



definition two_subnets :: "stat_subnet list" where
  "two_subnets =
     [\<lparr>sts_id = 1, sts_shared_network_id = 7, sts_prefix = ''192.0.2.0/24'', sts_local_subnets =
        [\<lparr>lsn_daemon_id = 1, lsn_stats = [''total-addresses'' \<mapsto> StatUint64 256]\<rparr>,
         \<lparr>lsn_daemon_id = 2, lsn_stats = [''total-addresses'' \<mapsto> StatUint64 1000]\<rparr>]\<rparr>,
      \<lparr>sts_id = 2, sts_shared_network_id = 7, sts_prefix = ''2001:db8::/64'', sts_local_subnets =
        [\<lparr>lsn_daemon_id = 1, lsn_stats = [''total-nas'' \<mapsto> StatBig (2 ^ 64)]\<rparr>]\<rparr>]"


section \<open>The text form\<close>



lemma int_str_neg: "i < 0 \<Longrightarrow> int_str i = CHR ''-'' # nat_str (nat (- i))"
  by (simp add: int_str_def)

lemma int_str_natural: "0 \<le> i \<Longrightarrow> int_str i = nat_str (nat i)"
  by (simp add: int_str_def)

lemma big_set_string_int_str: "big_set_string (int_str i) = Some i"
proof (cases "i < 0")
  case True
  then show ?thesis
    using nat_str_digits by (auto simp: big_set_string_def int_str_neg digits_value_nat_str)
next
  case False
  then have d: "\<forall>c \<in> set (nat_str (nat i)). is_digit c" using nat_str_digits by blast
  then have "is_digit (hd (nat_str (nat i)))" by (simp add: hd_in_set)
  then have "hd (nat_str (nat i)) \<noteq> CHR ''-''" "hd (nat_str (nat i)) \<noteq> CHR ''+''" by (auto simp: is_digit_def)
  with False d show ?thesis by (auto simp: big_set_string_def int_str_natural digits_value_nat_str)
qed

lemma unmarshal_int:
  "unmarshal_stat (StatText (int_str i)) =
     (if 0 \<le> i \<and> i \<le> max_uint64 then StatUint64 (word_of_int i)
      else if - (2 ^ 63) \<le> i \<and> i < 0 then StatInt64 i else StatBig i)"
proof (cases "0 \<le> i")
  case True
  have d: "\<forall>c \<in> set (nat_str (nat i)). is_digit c" using nat_str_digits by blast
  have u: "strconv_parse_uint 64 (int_str i) = (if i \<le> max_uint64 then Some (nat i) else None)"
    using True d by (auto simp: int_str_natural strconv_parse_uint_def digits_value_nat_str max_uint64_def)
  moreover have "strconv_parse_int 64 (int_str i) = None" if "\<not> i \<le> max_uint64"
  proof -
    have "is_digit (hd (nat_str (nat i)))" using d by (simp add: hd_in_set)
    then have "hd (nat_str (nat i)) \<noteq> CHR ''-''" "hd (nat_str (nat i)) \<noteq> CHR ''+''" by (auto simp: is_digit_def)
    with True d that show ?thesis
      by (auto simp: int_str_natural strconv_parse_int_def digits_value_nat_str Let_def max_uint64_def)
  qed
  ultimately show ?thesis using True by (simp add: unmarshal_stat_def big_set_string_int_str)
next
  case False
  have d: "\<forall>c \<in> set (nat_str (nat (- i))). is_digit c" using nat_str_digits by blast
  have "strconv_parse_uint 64 (int_str i) = None" using False by (simp add: int_str_neg strconv_parse_uint_def)
  moreover have "strconv_parse_int 64 (int_str i) = (if - (2 ^ 63) \<le> i then Some i else None)"
    using False d by (auto simp: int_str_neg strconv_parse_int_def digits_value_nat_str Let_def)
  ultimately show ?thesis using False by (simp add: unmarshal_stat_def big_set_string_int_str)
qed

fun valid_stat :: "stat_value \<Rightarrow> bool" where
  "valid_stat (StatInt64 i) = (- (2 ^ 63) \<le> i \<and> i < 2 ^ 63)"
| "valid_stat (StatText s) = (unmarshal_stat (StatText s) = StatText s)"
| "valid_stat _ = True"

text \<open>
  Statistics survive their text form: every counter that is read from them is the same
  afterwards, also one that does not fit into 64 bits, and what is no number is unchanged.
  The type may become another one: it is the narrowest that fits.
\<close>

theorem statistics_survive_text:
  assumes "\<forall>v \<in> ran s. valid_stat v"
  shows "get_big_counter (unmarshal_stats (marshal_stats s) Map.empty) name = get_big_counter s name \<and>
    (\<forall>t. s name = Some (StatText t) \<longrightarrow> unmarshal_stats (marshal_stats s) Map.empty name = Some (StatText t)) \<and>
    dom (unmarshal_stats (marshal_stats s) Map.empty) = dom s"
proof -
  have at: "unmarshal_stats (marshal_stats s) Map.empty k = map_option (unmarshal_stat \<circ> marshal_stat) (s k)" for k
    by (simp add: unmarshal_stats_def marshal_stats_def option.map_comp)
  have ok: "valid_stat v" if "s k = Some v" for k v using assms that by (auto simp: ran_def)
  have m: "max_uint64 < i" if "\<not> (0 \<le> i \<and> i \<le> max_uint64)" "\<not> i < 0" for i using that by linarith
  have u: "uint v \<le> max_uint64" "0 \<le> uint v" for v :: uint64 by (rule uint_bounds)+
  have "get_big_counter (unmarshal_stats (marshal_stats s) Map.empty) name = get_big_counter s name"
  proof (cases "s name")
    case (Some v)
    note c = ok [OF Some]
    show ?thesis
    proof (cases v)
      case (StatBig i)
      with Some show ?thesis
        by (auto simp: get_big_counter_def at unmarshal_int new_big_counter_from_big_int_def new_big_counter_from_int64_def is_uint64_def)
    next
      case (StatInt64 i)
      with Some c show ?thesis
        by (auto simp: get_big_counter_def at unmarshal_int new_big_counter_from_int64_def max_uint64_def)
    next
      case (StatUint64 w)
      with Some u [of w] show ?thesis by (simp add: get_big_counter_def at unmarshal_int)
    qed (use Some c in \<open>simp_all add: get_big_counter_def at unmarshal_stat_def\<close>)
  qed (simp add: get_big_counter_def at)
  moreover have "unmarshal_stats (marshal_stats s) Map.empty name = Some (StatText t)" if "s name = Some (StatText t)" for t
    using ok [OF that] that by (simp add: at)
  ultimately show ?thesis by (auto simp: at dom_def)
qed


lemma statistics_survive_text_witness:
  "map_option to_big_int (get_big_counter (unmarshal_stats (marshal_stats [''total-nas'' \<mapsto> StatBig (2 ^ 70), ''x'' \<mapsto> StatInt64 (- 5)]) Map.empty) ''total-nas'') = Some (2 ^ 70)"
proof -
  have "\<forall>v \<in> ran [''total-nas'' \<mapsto> StatBig (2 ^ 70), ''x'' \<mapsto> StatInt64 (- 5)]. valid_stat v" by (auto simp: ran_def split: if_splits)
  from statistics_survive_text [OF this, of "''total-nas''"]
  have "get_big_counter (unmarshal_stats (marshal_stats [''total-nas'' \<mapsto> StatBig (2 ^ 70), ''x'' \<mapsto> StatInt64 (- 5)]) Map.empty) ''total-nas'' =
      get_big_counter [''total-nas'' \<mapsto> StatBig (2 ^ 70), ''x'' \<mapsto> StatInt64 (- 5)] ''total-nas''" by (rule conjunct1)
  also have "\<dots> = new_big_counter_from_big_int (2 ^ 70)" by (simp add: get_big_counter_def)
  finally show ?thesis by (simp add: new_big_counter_from_big_int_def is_uint64_def max_uint64_def to_big_int_def)
qed

section \<open>Rows of a response\<close>

definition stored_value :: "int \<Rightarrow> stat_value" where
  "stored_value v =
     (let w = (if v < 0 then 2 ^ 64 + v else v) in if w < 2 ^ 64 then StatUint64 (word_of_int w) else StatBig w)"

definition repaired :: "string \<Rightarrow> string" where
  "repaired = replace_first ''addreses'' ''addresses''"

text \<open>The statistics of the columns of a row, a later column over an earlier one.\<close>

definition row_stats :: "(string \<times> int) list \<Rightarrow> subnet_stats" where
  "row_stats cvs = map_of (rev (map (\<lambda>(n, v). (repaired n, stored_value v)) (filter (\<lambda>(n, v). n \<noteq> ''subnet-id'') cvs)))"

definition row_subnet :: "(string \<times> int) list \<Rightarrow> int option" where
  "row_subnet cvs = map_of (rev (map (\<lambda>(n, v). (n, low_int64 v)) cvs)) ''subnet-id''"

lemma stored_counter:
  "new_big_counter_from_big_int (unsigned_value v) =
     (if v < - (2 ^ 64) then None
      else Some (if stored_value v = StatBig (unsigned_value v) then \<lparr>bc_base = word_of_int max_uint64, bc_extended = Some (unsigned_value v)\<rparr>
                 else new_big_counter (word_of_int (unsigned_value v))))"
  by (auto simp: new_big_counter_from_big_int_def unsigned_value_def stored_value_def is_uint64_def max_uint64_def Let_def)

lemma set_stored_counter:
  assumes "new_big_counter_from_big_int (unsigned_value v) = Some c"
  shows "set_big_counter name c s = s(name \<mapsto> stored_value v)"
  using assms
  by (auto simp: new_big_counter_from_big_int_def set_big_counter_def convert_to_native_type_def new_big_counter_def unsigned_value_def
      stored_value_def is_uint64_def max_uint64_def Let_def split: if_splits)

lemma read_row_value:
  "read_row cols vs sn s =
     (if length cols < length vs \<or> (\<exists>(n, v) \<in> set (zip cols vs). n \<noteq> ''subnet-id'' \<and> v < - (2 ^ 64)) then Panic
      else Done (case row_subnet (zip cols vs) of None \<Rightarrow> sn | Some i \<Rightarrow> Some i, s ++ row_stats (zip cols vs)))"
proof (induction cols vs sn s rule: read_row.induct)
  case (3 name cols v vs sn s)
  show ?case
  proof (cases "name = ''subnet-id''")
    case True
    with 3(1) show ?thesis by (auto simp: row_subnet_def row_stats_def map_add_def split: option.splits)
  next
    case False
    show ?thesis
    proof (cases "v < - (2 ^ 64)")
      case True
      then have "new_big_counter_from_big_int (unsigned_value v) = None" by (simp add: stored_counter)
      with False True show ?thesis by auto
    next
      case small: False
      then obtain c where c: "new_big_counter_from_big_int (unsigned_value v) = Some c" by (simp add: stored_counter)
      have "s(repaired name \<mapsto> stored_value v) ++ row_stats (zip cols vs) = s ++ row_stats (zip (name # cols) (v # vs))"
        using False by (auto simp: row_stats_def map_add_def split: option.split)
      moreover have "row_subnet (zip (name # cols) (v # vs)) = row_subnet (zip cols vs)"
        using False by (auto simp: row_subnet_def map_add_def split: option.split)
      moreover have "read_row (name # cols) (v # vs) sn s = read_row cols vs sn (s(repaired name \<mapsto> stored_value v))"
        using False c by (simp add: set_stored_counter [OF c] repaired_def del: fun_upd_apply)
      moreover have "(\<exists>(n, v) \<in> set (zip (name # cols) (v # vs)). n \<noteq> ''subnet-id'' \<and> v < - (2 ^ 64)) \<longleftrightarrow>
          (\<exists>(n, v) \<in> set (zip cols vs). n \<noteq> ''subnet-id'' \<and> v < - (2 ^ 64))" using small by simp
      moreover note 3(2) [OF False c, unfolded set_stored_counter [OF c], folded repaired_def]
      ultimately show ?thesis by (simp only: list.size add_less_cancel_right)
    qed
  qed
qed (simp_all add: row_subnet_def row_stats_def)

text \<open>
  A row of a response is read completely: it names the local subnet of its last column for
  it, and holds for every other column the value as a number without sign, a negative one of
  an old server being \<open>2 ^ 64\<close> too small; the misspelt names are repaired, and of two columns
  with the same name the later one counts.  A row fails, with a panic, exactly when it has
  more values than there are columns or one below \<open>- 2 ^ 64\<close>.
\<close>

theorem row_read_completely:
  "read_row cols vs None Map.empty =
     (if length cols < length vs \<or> (\<exists>(n, v) \<in> set (zip cols vs). n \<noteq> ''subnet-id'' \<and> v < - (2 ^ 64)) then Panic
      else Done (row_subnet (zip cols vs), row_stats (zip cols vs)))"
  unfolding read_row_value by (simp split: option.split)

end
