(* ===== verification/Periodic_Executor.thy ===== *)
theory Periodic_Executor
  imports Stork_Prelude "HOL-Library.Word"
begin

text \<open>
  The executor that runs an action periodically: \<open>util/periodicexecutor.go\<close>.  Its fields are a
  record, each section under its mutex is one operation, and the goroutine of its loop is a
  state machine whose steps interleave with calls of \<open>Pause\<close> and \<open>Unpause\<close> from elsewhere.
  A ticker is the period it runs with, \<open>None\<close> when it is stopped; a ticker that is stopped or
  reset has no tick left in its channel, and one with a period that is not positive is a panic.
\<close>

section \<open>Operations\<close>

record executor =
  pe_interval :: int
  pe_ticker :: "int option"
  pe_active :: bool
  pe_pause_count :: "16 word"

text \<open>One minute in nanoseconds.\<close>

definition inactive_interval :: int where
  "inactive_interval = 60000000000"

definition ticker_reset :: "int \<Rightarrow> executor \<Rightarrow> executor run" where
  "ticker_reset d e = (if d \<le> 0 then Panic else Done (e\<lparr>pe_ticker := Some d\<rparr>))"

definition new_periodic_executor :: "string + int \<Rightarrow> string + executor" where
  "new_periodic_executor first =
     (case first of
        Inl e \<Rightarrow> Inl e
      | Inr interval \<Rightarrow>
          (let active = (\<not> interval \<le> 0);
               interval = (if interval \<le> 0 then inactive_interval else interval)
           in Inr \<lparr>pe_interval = interval, pe_ticker = Some interval, pe_active = active, pe_pause_count = 0\<rparr>))"

definition executor_pause :: "executor \<Rightarrow> executor" where
  "executor_pause e = e\<lparr>pe_ticker := None, pe_pause_count := pe_pause_count e + 1\<rparr>"

definition executor_paused :: "executor \<Rightarrow> bool" where
  "executor_paused e = (pe_pause_count e > 0)"

definition executor_unpause :: "executor \<Rightarrow> executor run" where
  "executor_unpause e =
     (let e = (if pe_pause_count e > 0 then e\<lparr>pe_pause_count := pe_pause_count e - 1\<rparr> else e) in
      if pe_pause_count e = 0 then ticker_reset (pe_interval e) e else Done e)"

definition get_interval :: "executor \<Rightarrow> int" where
  "get_interval e = pe_interval e"

definition executor_reset :: "int \<Rightarrow> executor \<Rightarrow> executor run" where
  "executor_reset interval e = ticker_reset interval (e\<lparr>pe_pause_count := 0, pe_interval := interval\<rparr>)"

text \<open>The end of an iteration: the interval is read again, an error keeps it.\<close>

definition check_interval :: "string + int \<Rightarrow> executor \<Rightarrow> executor run" where
  "check_interval read1 e =
     (let prev = pe_interval e;
          next1 = (case read1 of Inl err \<Rightarrow> prev | Inr i \<Rightarrow> i) in
      if next1 \<le> 0 \<and> pe_active e then
        bind_run (if prev \<noteq> inactive_interval then executor_reset inactive_interval e else Done e)
          (\<lambda>e. Done (e\<lparr>pe_active := False\<rparr>))
      else if next1 > 0 \<and> next1 \<noteq> prev then
        bind_run (executor_reset next1 e) (\<lambda>e. Done (e\<lparr>pe_active := True\<rparr>))
      else Done e)"

section \<open>The loop\<close>

text \<open>
  Where the loop is: in its select, in the action, between the action and the check of the
  interval, or at its end.
\<close>

datatype loop_phase = Selecting | Acting | Checking | Ended

datatype executor_event = Tick | ActionDone | IntervalRead "string + int" | ShutDown | OutsidePause | OutsideUnpause

type_synonym executor_state = "loop_phase \<times> executor"

text \<open>What an event does, \<open>None\<close> when it cannot happen.\<close>

fun executor_step :: "executor_event \<Rightarrow> executor_state \<Rightarrow> executor_state run option" where
  "executor_step Tick (p, e) =
     (if p \<noteq> Selecting \<or> pe_ticker e = None then None
      else if pe_active e then Some (Done (Acting, executor_pause e))
      else Some (Done (Checking, e)))"
| "executor_step ActionDone (p, e) =
     (if p \<noteq> Acting then None else Some (bind_run (executor_unpause e) (\<lambda>e. Done (Checking, e))))"
| "executor_step (IntervalRead r) (p, e) =
     (if p \<noteq> Checking then None else Some (bind_run (check_interval r e) (\<lambda>e. Done (Selecting, e))))"
| "executor_step ShutDown (p, e) = (if p \<noteq> Selecting then None else Some (Done (Ended, executor_pause e)))"
| "executor_step OutsidePause (p, e) = Some (Done (p, executor_pause e))"
| "executor_step OutsideUnpause (p, e) = Some (bind_run (executor_unpause e) (\<lambda>e. Done (p, e)))"

inductive executor_reach :: "executor_state \<Rightarrow> executor_event list \<Rightarrow> executor_state \<Rightarrow> bool" where
  reach_start: "executor_reach s [] s"
| reach_step: "executor_reach s es t \<Longrightarrow> executor_step ev t = Some (Done u) \<Longrightarrow> executor_reach s (es @ [ev]) u"

inductive_cases reach_snocE: "executor_reach s (es @ [ev]) u"

section \<open>Pauses\<close>

lemma pause_add: "unat (c :: 16 word) + 1 < 65536 \<Longrightarrow> unat (c + 1) = unat c + 1"
  using unat_add_lem [of c 1] by simp

lemma pause_sub: "(c :: 16 word) > 0 \<Longrightarrow> unat (c - 1) = unat c - 1"
  by (simp add: word_gt_0 unat_minus_one)

text \<open>The pauses that are not undone, of a sequence of calls; \<open>True\<close> stands for \<open>Pause\<close>.\<close>

definition outstanding :: "bool list \<Rightarrow> nat" where
  "outstanding calls = fold (\<lambda>b n. if b then n + 1 else n - 1) calls 0"

definition call_executor :: "bool \<Rightarrow> executor run \<Rightarrow> executor run" where
  "call_executor b r = bind_run r (\<lambda>e. if b then Done (executor_pause e) else executor_unpause e)"

definition ticker_follows :: "executor \<Rightarrow> bool" where
  "ticker_follows e \<longleftrightarrow> 0 < pe_interval e \<and> pe_ticker e = (if pe_pause_count e = 0 then Some (pe_interval e) else None)"

lemma outstanding_snoc: "outstanding (calls @ [b]) = (if b then outstanding calls + 1 else outstanding calls - 1)"
  by (simp add: outstanding_def)

lemma unpause_value:
  assumes "ticker_follows e"
  obtains u where "executor_unpause e = Done u" "ticker_follows u" "unat (pe_pause_count u) = unat (pe_pause_count e) - 1"
    "pe_interval u = pe_interval e" "pe_active u = pe_active e"
proof (cases "pe_pause_count e > 0")
  case True
  then show ?thesis
    using assms that pause_sub [OF True]
    by (cases "pe_pause_count e = 1") (auto simp: executor_unpause_def ticker_reset_def Let_def ticker_follows_def)
next
  case False
  then have "pe_pause_count e = 0" by (simp add: word_gt_0)
  then show ?thesis using assms that by (auto simp: executor_unpause_def ticker_reset_def ticker_follows_def)
qed

lemma pause_value:
  assumes "ticker_follows e" and "unat (pe_pause_count e) < 65535"
  shows "ticker_follows (executor_pause e)" "unat (pe_pause_count (executor_pause e)) = unat (pe_pause_count e) + 1"
proof -
  show u: "unat (pe_pause_count (executor_pause e)) = unat (pe_pause_count e) + 1"
    using assms(2) pause_add [of "pe_pause_count e"] by (simp add: executor_pause_def)
  then have "pe_pause_count (executor_pause e) \<noteq> 0" by (metis Suc_eq_plus1 nat.distinct(1) unat_0)
  with assms(1) show "ticker_follows (executor_pause e)" by (simp add: ticker_follows_def executor_pause_def)
qed

lemma calls_value:
  assumes "ticker_follows e" and "unat (pe_pause_count e) = 0" and "length calls < 65536"
  shows "\<exists>u. fold call_executor calls (Done e) = Done u \<and> ticker_follows u \<and> unat (pe_pause_count u) = outstanding calls \<and>
    outstanding calls \<le> length calls"
  using assms(3)
proof (induction calls rule: rev_induct)
  case Nil
  with assms show ?case by (simp add: outstanding_def)
next
  case (snoc b calls)
  then obtain u where u: "fold call_executor calls (Done e) = Done u" "ticker_follows u"
    "unat (pe_pause_count u) = outstanding calls" "outstanding calls \<le> length calls" by auto
  have step: "fold call_executor (calls @ [b]) (Done e) = (if b then Done (executor_pause u) else executor_unpause u)"
    by (simp add: u(1)) (simp add: call_executor_def)
  show ?case
  proof (cases b)
    case True
    have "unat (pe_pause_count u) < 65535" using u(3,4) snoc.prems by simp
    from pause_value [OF u(2) this] u(3,4) True show ?thesis unfolding step by (simp add: outstanding_snoc)
  next
    case False
    from u(2) obtain w where "executor_unpause u = Done w" "ticker_follows w" "unat (pe_pause_count w) = unat (pe_pause_count u) - 1"
      by (rule unpause_value)
    with u(3,4) False show ?thesis unfolding step by (simp add: outstanding_snoc)
  qed
qed

text \<open>
  Pauses are counted: after any calls of \<open>Pause\<close> and \<open>Unpause\<close>, fewer than \<open>2 ^ 16\<close>, the
  executor is paused if and only if more pauses than unpauses are outstanding (an unpause too
  many does not count), and its ticker runs, with the interval, if and only if it is not paused.
  The counter is bounded: with \<open>2 ^ 16\<close> pauses the ticker is stopped and the executor
  says that it is not paused.
\<close>

theorem pauses_are_counted:
  assumes "ticker_follows e" and "pe_pause_count e = 0" and "length calls < 65536"
  shows "\<exists>u. fold call_executor calls (Done e) = Done u \<and>
      (executor_paused u \<longleftrightarrow> 0 < outstanding calls) \<and>
      pe_ticker u = (if 0 < outstanding calls then None else Some (pe_interval u)) \<and>
    (\<exists>v. fold call_executor (replicate 65536 True) (Done e) = Done v \<and> \<not> executor_paused v \<and> pe_ticker v = None)"
proof -
  have z: "unat (pe_pause_count e) = 0" by (simp add: assms(2))
  obtain u where u: "fold call_executor calls (Done e) = Done u" "ticker_follows u" "unat (pe_pause_count u) = outstanding calls"
    using calls_value [OF assms(1) z assms(3)] by blast
  have p: "(0 < pe_pause_count u) = (0 < outstanding calls)" using u(3) by (metis unat_gt_0 word_gt_0)
  have "length (replicate 65535 True) < 65536" by (simp only: length_replicate)
  from calls_value [OF assms(1) z this] obtain w where
    w: "fold call_executor (replicate 65535 True) (Done e) = Done w" "unat (pe_pause_count w) = outstanding (replicate 65535 True)" by blast
  have o: "outstanding (replicate n True) = n" for n
    by (induction n) (simp add: outstanding_def, simp add: outstanding_snoc flip: replicate_append_same)
  have "pe_pause_count w = 65535" using w(2) unfolding o by (simp add: word_unat_eq_iff)
  then have "executor_pause w = w\<lparr>pe_ticker := None, pe_pause_count := 0\<rparr>" by (simp add: executor_pause_def)
  moreover have "replicate 65536 True = replicate 65535 True @ [True]"
    by (simp only: replicate_append_same flip: replicate_Suc) simp
  ultimately have "fold call_executor (replicate 65536 True) (Done e) = Done (w\<lparr>pe_ticker := None, pe_pause_count := 0\<rparr>)"
    using w(1) by (simp only: fold_append o_apply fold.simps id_apply call_executor_def bind_run.simps if_True)
  moreover have "\<not> executor_paused (w\<lparr>pe_ticker := None, pe_pause_count := 0\<rparr>)" by (simp add: executor_paused_def)
  moreover have "executor_paused u \<longleftrightarrow> 0 < outstanding calls" by (simp add: executor_paused_def p)
  moreover have "pe_ticker u = (if 0 < outstanding calls then None else Some (pe_interval u))"
    using u(2) p by (auto simp: ticker_follows_def word_gt_0)
  ultimately show ?thesis using u(1) by auto
qed

section \<open>The runs of the loop\<close>

fun state_ok :: "nat \<Rightarrow> executor_state \<Rightarrow> bool" where
  "state_ok n (p, e) \<longleftrightarrow> ticker_follows e \<and> unat (pe_pause_count e) \<le> n \<and>
     (\<not> pe_active e \<longrightarrow> pe_interval e = inactive_interval) \<and> (p = Acting \<longrightarrow> pe_active e)"

lemma new_executor_ok:
  assumes "new_periodic_executor first = Inr e"
  shows "state_ok 0 (Selecting, e)" and "pe_pause_count e = 0"
  using assms by (auto simp: new_periodic_executor_def Let_def ticker_follows_def inactive_interval_def split: sum.splits if_splits)

lemma reset_value:
  assumes "0 < d"
  shows "executor_reset d e = Done (e\<lparr>pe_pause_count := 0, pe_interval := d, pe_ticker := Some d\<rparr>)"
  using assms by (simp add: executor_reset_def ticker_reset_def)

lemma check_interval_value:
  assumes "ticker_follows e" and "\<not> pe_active e \<longrightarrow> pe_interval e = inactive_interval"
  shows "\<exists>u. check_interval r e = Done u \<and> ticker_follows u \<and> unat (pe_pause_count u) \<le> unat (pe_pause_count e) \<and>
    (\<not> pe_active u \<longrightarrow> pe_interval u = inactive_interval)"
proof -
  have i: "0 < inactive_interval" by (simp add: inactive_interval_def)
  show ?thesis
    using assms i by (cases r) (auto simp: check_interval_def Let_def reset_value ticker_follows_def)
qed

lemma executor_step_ok:
  assumes "state_ok n s" and "n < 65535" and "executor_step ev s = Some r"
  shows "\<exists>t. r = Done t \<and> state_ok (n + 1) t"
proof -
  obtain p e where s: "s = (p, e)" by (cases s)
  have ok: "ticker_follows e" "unat (pe_pause_count e) \<le> n" "\<not> pe_active e \<longrightarrow> pe_interval e = inactive_interval" "p = Acting \<longrightarrow> pe_active e"
    using assms(1) by (simp_all add: s)
  have c: "unat (pe_pause_count e) < 65535" using ok(2) assms(2) by simp
  note pv = pause_value [OF ok(1) c]
  have kept: "pe_active (executor_pause e) = pe_active e" "pe_interval (executor_pause e) = pe_interval e" by (simp_all add: executor_pause_def)
  from ok(1) obtain u where u: "executor_unpause e = Done u" "ticker_follows u" "unat (pe_pause_count u) = unat (pe_pause_count e) - 1"
    "pe_interval u = pe_interval e" "pe_active u = pe_active e" by (rule unpause_value)
  show ?thesis
  proof (cases ev)
    case (IntervalRead r)
    from check_interval_value [OF ok(1,3), of r] show ?thesis
      using assms(3) IntervalRead ok(2) by (auto simp: s split: if_splits)
  qed (use assms(3) ok u pv kept in \<open>auto simp: s split: if_splits\<close>)
qed

lemma executor_reach_ok:
  assumes "executor_reach s es t" and "state_ok 0 s" and "length es \<le> 65535"
  shows "state_ok (length es) t"
  using assms
proof (induction rule: executor_reach.induct)
  case (reach_step s es t ev u)
  then have "state_ok (length es) t" "length es < 65535" by simp_all
  from executor_step_ok [OF this reach_step.hyps(2)] show ?case by simp
qed simp



lemma pauses_are_counted_witness:
  "\<exists>e u. new_periodic_executor (Inr 5) = Inr e \<and> fold call_executor [True, True, False, False, False, True] (Done e) = Done u \<and> executor_paused u"
proof -
  obtain e where e: "new_periodic_executor (Inr 5) = Inr e" by (simp add: new_periodic_executor_def Let_def)
  from new_executor_ok [OF this] have "ticker_follows e" "pe_pause_count e = 0" by simp_all
  from pauses_are_counted [OF this, of "[True, True, False, False, False, True]"] e show ?thesis by (auto simp: outstanding_def)
qed


section \<open>Disabled and enabled again\<close>

lemma inactive_stays:
  assumes "executor_reach (p, e) es (q, f)" and "state_ok 0 (p, e)" and "length es < 65535" and "\<not> pe_active e"
    and "\<forall>r. IntervalRead r \<in> set es \<longrightarrow> (case r of Inl err \<Rightarrow> True | Inr i \<Rightarrow> i \<le> 0 \<or> i = inactive_interval)"
  shows "\<not> pe_active f"
proof -
  have "state_ok 0 s \<Longrightarrow> length es < 65535 \<Longrightarrow> \<not> pe_active (snd s) \<Longrightarrow>
      (\<forall>r. IntervalRead r \<in> set es \<longrightarrow> (case r of Inl err \<Rightarrow> True | Inr i \<Rightarrow> i \<le> 0 \<or> i = inactive_interval)) \<Longrightarrow> \<not> pe_active (snd t)"
    if "executor_reach s es t" for s t
    using that
  proof (induction rule: executor_reach.induct)
    case (reach_step s es t ev u)
    then have na: "\<not> pe_active (snd t)" by simp
    obtain p e where t: "t = (p, e)" by (cases t)
    have ok: "state_ok (length es) t" using executor_reach_ok [OF reach_step.hyps(1)] reach_step.prems by simp
    have i: "pe_interval e = inactive_interval" "p \<noteq> Acting" using ok na by (auto simp: t)
    have ev: "case r of Inl err \<Rightarrow> True | Inr i \<Rightarrow> i \<le> 0 \<or> i = inactive_interval" if "ev = IntervalRead r" for r
      using reach_step.prems(4) that by simp
    have u: "pe_active w = pe_active e" if "executor_unpause e = Done w" for w
      using that by (auto simp: executor_unpause_def ticker_reset_def Let_def split: if_splits)
    show ?case
    proof (cases ev)
      case (IntervalRead r)
      with ev [OF this] reach_step.hyps(2) na i show ?thesis
        by (cases r) (auto simp: t check_interval_def Let_def split: if_splits)
    qed (use reach_step.hyps(2) na i u in \<open>auto simp: t executor_pause_def split: if_splits\<close>)
  qed simp
  from this [OF assms(1,2,3)] assms(4,5) show ?thesis by simp
qed

text \<open>
  C24: A disabled executor that reads an interval becomes active exactly when the interval is
  positive and other than one minute, the interval it has while it is disabled; with one minute
  it stays disabled through any run in which this does not change.  A changed interval also
  ends every pause that is outstanding from outside.
\<close>

theorem disabled_executor_enabled:
  assumes "new_periodic_executor first = Inr e0" and "executor_reach (Selecting, e0) es (Checking, e)" and "length es < 65535"
  shows "(\<not> pe_active e \<longrightarrow> (\<forall>i. \<exists>u. executor_step (IntervalRead (Inr i)) (Checking, e) = Some (Done (Selecting, u)) \<and>
        (pe_active u \<longleftrightarrow> 0 < i \<and> i \<noteq> inactive_interval))) \<and>
    (\<forall>i. 0 < i \<and> i \<noteq> pe_interval e \<longrightarrow> (\<exists>u. executor_step (IntervalRead (Inr i)) (Checking, e) = Some (Done (Selecting, u)) \<and>
        \<not> executor_paused u \<and> pe_ticker u = Some i)) \<and>
    (\<forall>es' q f. first = Inr 0 \<and> executor_reach (Selecting, e0) es' (q, f) \<and> length es' < 65535 \<and>
       (\<forall>r. IntervalRead r \<in> set es' \<longrightarrow> r = Inr inactive_interval) \<longrightarrow> \<not> pe_active f)"
proof -
  have ok: "state_ok (length es) (Checking, e)"
    using executor_reach_ok [OF assms(2) new_executor_ok(1) [OF assms(1)]] assms(3) by simp
  then have e: "\<not> pe_active e \<longrightarrow> pe_interval e = inactive_interval" by simp
  have "\<not> pe_active e \<longrightarrow> (\<forall>i. \<exists>u. executor_step (IntervalRead (Inr i)) (Checking, e) = Some (Done (Selecting, u)) \<and>
        (pe_active u \<longleftrightarrow> 0 < i \<and> i \<noteq> inactive_interval))"
    using e by (auto simp: check_interval_def reset_value)
  moreover have "\<forall>i. 0 < i \<and> i \<noteq> pe_interval e \<longrightarrow> (\<exists>u. executor_step (IntervalRead (Inr i)) (Checking, e) = Some (Done (Selecting, u)) \<and>
        \<not> executor_paused u \<and> pe_ticker u = Some i)"
    by (auto simp: check_interval_def reset_value executor_paused_def)
  moreover have "\<not> pe_active f" if "first = Inr 0" "executor_reach (Selecting, e0) es' (q, f)" "length es' < 65535"
    "\<forall>r. IntervalRead r \<in> set es' \<longrightarrow> r = Inr inactive_interval" for es' q f
  proof (rule inactive_stays [OF that(2) new_executor_ok(1) [OF assms(1)] that(3)])
    show "\<not> pe_active e0" using assms(1) that(1) by (auto simp: new_periodic_executor_def)
  qed (use that(4) in auto)
  ultimately show ?thesis by blast
qed

lemma disabled_executor_enabled_witness:
  "\<exists>e u. executor_reach (Selecting, e) [Tick] (Checking, e) \<and> \<not> pe_active e \<and>
     executor_step (IntervalRead (Inr inactive_interval)) (Checking, e) = Some (Done (Selecting, u)) \<and> \<not> pe_active u"
proof -
  let ?e = "\<lparr>pe_interval = inactive_interval, pe_ticker = Some inactive_interval, pe_active = False, pe_pause_count = 0\<rparr>"
  have e: "new_periodic_executor (Inr 0) = Inr ?e" by (simp add: new_periodic_executor_def Let_def)
  have r: "executor_reach (Selecting, ?e) [Tick] (Checking, ?e)" using reach_step [OF reach_start, of Tick "(Selecting, ?e)"] by simp
  from disabled_executor_enabled [OF e r] have "\<exists>u. executor_step (IntervalRead (Inr inactive_interval)) (Checking, ?e) = Some (Done (Selecting, u)) \<and> \<not> pe_active u"
    by auto
  with r show ?thesis by auto
qed

end
