(* ===== verification/Include_Files.thy ===== *)
theory Include_Files
  imports Go_Strings
begin

text \<open>
  Configuration files with include statements: \<open>ReadFileWithIncludes\<close> of \<open>util/util.go\<close>.  Reading
  a file is an argument, a function from paths to contents; the functions of \<open>path/filepath\<close>
  and the regular expression of the statements are written out.  The recursion over the files
  is bounded by fuel, and \<open>None\<close> is its end; a theorem shows how much is enough.
\<close>

section \<open>Paths\<close>

text \<open>\<open>Clean\<close> goes over the elements of a path; \<open>out\<close> holds the ones kept, the last one first.\<close>

fun clean_elements :: "bool \<Rightarrow> string list \<Rightarrow> string list \<Rightarrow> string list" where
  "clean_elements rooted [] out = rev out"
| "clean_elements rooted (e # es) out =
     (if e = [] \<or> e = ''.'' then clean_elements rooted es out
      else if e = ''..'' then
        (if out \<noteq> [] \<and> hd out \<noteq> ''..'' then clean_elements rooted es (tl out)
         else if rooted then clean_elements rooted es out
         else clean_elements rooted es (e # out))
      else clean_elements rooted es (e # out))"

definition is_abs :: "string \<Rightarrow> bool" where
  "is_abs p = (p \<noteq> [] \<and> hd p = CHR ''/'')"

definition filepath_clean :: "string \<Rightarrow> string" where
  "filepath_clean p =
     (let s = strings_join ''/'' (clean_elements (is_abs p) (strings_split CHR ''/'' p) []) in
      if is_abs p then CHR ''/'' # s else if s = [] then ''.'' else s)"

definition filepath_dir :: "string \<Rightarrow> string" where
  "filepath_dir p = filepath_clean (rev (dropWhile (\<lambda>c. c \<noteq> CHR ''/'') (rev p)))"

definition filepath_join :: "string \<Rightarrow> string \<Rightarrow> string" where
  "filepath_join a b =
     (if a \<noteq> [] then filepath_clean (a @ ''/'' @ b) else if b \<noteq> [] then filepath_clean b else [])"

section \<open>Include statements\<close>

text \<open>
  The expression \<open><\?include\s*"([^"]+\..*)"\s*\?>\<close> at the start of a text: the position of the dot
  and of the closing quote are tried from the last one on, as the greedy operators do, and the
  second one does not cross the end of a line.
\<close>

definition re_space :: "char \<Rightarrow> bool" where
  "re_space c = (c = CHR 0x09 \<or> c = CHR 0x0A \<or> c = CHR 0x0C \<or> c = CHR 0x0D \<or> c = CHR 0x20)"

definition closes :: "string \<Rightarrow> nat \<Rightarrow> nat \<Rightarrow> bool" where
  "closes body k j =
     (k < j \<and> j < length body \<and> body ! j = CHR 0x22 \<and> CHR 0x0A \<notin> set (take (j - (k + 1)) (drop (k + 1) body)) \<and>
      take 2 (dropWhile re_space (drop (j + 1) body)) = ''?>'')"

definition include_path :: "string \<Rightarrow> nat option" where
  "include_path body =
     (let dots = filter (\<lambda>k. body ! k = CHR ''.'') (rev [1..<length (takeWhile (\<lambda>c. c \<noteq> CHR 0x22) body)])
      in find (\<lambda>j. True) (concat (map (\<lambda>k. filter (closes body k) (rev [0..<length body])) dots)))"

text \<open>The path of the statement and the length of the text it matches.\<close>

definition include_at :: "string \<Rightarrow> (string \<times> nat) option" where
  "include_at s =
     (if take 9 s \<noteq> ''<?include'' then None
      else (let r = dropWhile re_space (drop 9 s) in
            if r = [] \<or> hd r \<noteq> CHR 0x22 then None
            else (case include_path (tl r) of
                    None \<Rightarrow> None
                  | Some j \<Rightarrow>
                      Some (take j (tl r),
                        length s - length (drop 2 (dropWhile re_space (drop (j + 1) (tl r))))))))"

text \<open>\<open>FindAllStringSubmatch\<close>: position, path and length of each statement, from the left.\<close>

function find_includes :: "nat \<Rightarrow> string \<Rightarrow> (nat \<times> string \<times> nat) list" where
  "find_includes pos [] = []"
| "find_includes pos (c # s) =
     (case include_at (c # s) of
        Some (p, n) \<Rightarrow> (pos, p, n) # find_includes (pos + n) (drop (n - 1) s)
      | None \<Rightarrow> find_includes (pos + 1) s)"
  by pat_completeness auto

termination by (relation "measure (\<lambda>(pos, s). length s)") auto

section \<open>Reading\<close>

datatype include_error = CannotRead string | IncludeLoop string string | InnerInclude string string string include_error

definition nested_path :: "string \<Rightarrow> string \<Rightarrow> string" where
  "nested_path path p = filepath_clean (if \<not> is_abs p then filepath_join (filepath_dir path) p else p)"

text \<open>The statements are replaced from the last one to the first; \<open>read_nested\<close> is the recursive call.\<close>

fun expand_includes ::
    "(string \<Rightarrow> string list \<Rightarrow> (include_error + string) option) \<Rightarrow> string \<Rightarrow> string list \<Rightarrow>
     (nat \<times> string \<times> nat) list \<Rightarrow> string \<Rightarrow> (include_error + string) option" where
  "expand_includes read_nested path parents [] text1 = Some (Inr text1)"
| "expand_includes read_nested path parents ((start, p, n) # ms) text1 =
     (let nested = nested_path path p in
      if nested \<in> set parents then Some (Inl (IncludeLoop p path))
      else (case read_nested nested (nested # parents) of
              None \<Rightarrow> None
            | Some (Inl e) \<Rightarrow> Some (Inl (InnerInclude p path nested e))
            | Some (Inr content) \<Rightarrow>
                expand_includes read_nested path parents ms (take start text1 @ content @ drop (start + n) text1)))"

fun read_includes ::
    "nat \<Rightarrow> (string \<Rightarrow> string option) \<Rightarrow> string \<Rightarrow> string list \<Rightarrow> (include_error + string) option" where
  "read_includes 0 read_file path parents = None"
| "read_includes (Suc fuel) read_file path parents =
     (case read_file path of
        None \<Rightarrow> Some (Inl (CannotRead path))
      | Some text1 \<Rightarrow>
          expand_includes (read_includes fuel read_file) path parents (rev (find_includes 0 text1)) text1)"

definition read_file_with_includes :: "nat \<Rightarrow> (string \<Rightarrow> string option) \<Rightarrow> string \<Rightarrow> (include_error + string) option" where
  "read_file_with_includes fuel read_file path = read_includes fuel read_file path []"

section \<open>It ends\<close>

lemma expand_some:
  assumes "\<And>q. q \<notin> set parents \<Longrightarrow> \<exists>r. f q (q # parents) = Some r"
  shows "\<exists>r. expand_includes f path parents ms t = Some r"
proof (induction ms arbitrary: t)
  case (Cons m ms)
  obtain start p n where m: "m = (start, p, n)" by (cases m)
  show ?case
  proof (cases "nested_path path p \<in> set parents")
    case False
    from assms [OF this] obtain r where "f (nested_path path p) (nested_path path p # parents) = Some r" by blast
    with Cons m False show ?thesis by (cases r) (simp_all add: Let_def)
  qed (simp add: m Let_def)
qed simp

lemma read_includes_some:
  assumes "finite (dom read_file)" and "fuel \<ge> (if path \<in> dom read_file then card (dom read_file - set parents) + 2 else 1)"
  shows "\<exists>r. read_includes fuel read_file path parents = Some r"
  using assms(2)
proof (induction fuel arbitrary: path parents)
  case 0
  then show ?case by (simp split: if_splits)
next
  case (Suc fuel)
  show ?case
  proof (cases "read_file path")
    case (Some t)
    have fuel: "card (dom read_file - set parents) + 1 \<le> fuel" using Suc.prems Some by (simp add: domI)
    have "\<exists>r. read_includes fuel read_file q (q # parents) = Some r" if q: "q \<notin> set parents" for q
    proof (rule Suc.IH)
      show "(if q \<in> dom read_file then card (dom read_file - set (q # parents)) + 2 else 1) \<le> fuel"
      proof (cases "q \<in> dom read_file")
        case True
        then have "card (dom read_file - set (q # parents)) < card (dom read_file - set parents)"
          by (intro psubset_card_mono) (use assms(1) q in auto)
        with fuel show ?thesis by (subst if_P [OF True]) linarith
      next
        case False
        with fuel show ?thesis by simp
      qed
    qed
    then show ?thesis using Some by (simp add: expand_some)
  qed simp
qed

lemma expand_mono:
  assumes "\<And>q ps r. f q ps = Some r \<Longrightarrow> g q ps = Some r"
  shows "expand_includes f path parents ms t = Some r \<Longrightarrow> expand_includes g path parents ms t = Some r"
proof (induction ms arbitrary: t)
  case (Cons m ms)
  obtain start p n where m: "m = (start, p, n)" by (cases m)
  show ?case
  proof (cases "nested_path path p \<in> set parents")
    case True
    with Cons.prems m show ?thesis by (simp add: Let_def)
  next
    case False
    with Cons.prems m obtain x where x: "f (nested_path path p) (nested_path path p # parents) = Some x"
      by (cases "f (nested_path path p) (nested_path path p # parents)") (simp_all add: Let_def)
    from assms [OF x] x Cons m False show ?thesis by (cases x) (simp_all add: Let_def)
  qed
qed simp

lemma read_includes_mono:
  "read_includes fuel read_file path parents = Some r \<Longrightarrow> fuel \<le> fuel' \<Longrightarrow> read_includes fuel' read_file path parents = Some r"
proof (induction fuel arbitrary: fuel' path parents r)
  case (Suc fuel)
  then obtain k where k: "fuel' = Suc k" "fuel \<le> k" by (cases fuel') auto
  show ?case
  proof (cases "read_file path")
    case (Some t)
    have "expand_includes (read_includes k read_file) path parents (rev (find_includes 0 t)) t = Some r"
      by (rule expand_mono [where f = "read_includes fuel read_file"])
        (rule Suc.IH [OF _ k(2)], assumption, use Suc.prems(1) Some in simp)
    with k Some show ?thesis by simp
  qed (use Suc.prems k in simp)
qed simp

text \<open>
  C25: Reading a file with its includes ends: when finitely many files can be read, as many
  levels as there are files, and two, are enough, and more of them change nothing; the
  recursion ends because an included file is never one of its parents.
\<close>

theorem includes_terminate:
  assumes "finite (dom read_file)" and "card (dom read_file) + 2 \<le> fuel"
  shows "\<exists>r. \<forall>fuel' \<ge> fuel. read_file_with_includes fuel' read_file path = Some r"
proof -
  have "\<exists>r. read_includes fuel read_file path [] = Some r"
    by (rule read_includes_some [OF assms(1)]) (use assms(2) in auto)
  then show ?thesis using read_includes_mono unfolding read_file_with_includes_def by blast
qed

section \<open>When it succeeds\<close>

definition includes_edge :: "(string \<Rightarrow> string option) \<Rightarrow> string \<Rightarrow> string \<Rightarrow> bool" where
  "includes_edge read_file p q \<longleftrightarrow>
     (\<exists>t start s n. read_file p = Some t \<and> (start, s, n) \<in> set (find_includes 0 t) \<and> q = nested_path p s)"

lemma expand_Inr_iff:
  "(\<exists>t'. expand_includes f path parents ms t = Some (Inr t')) \<longleftrightarrow>
     (\<forall>(start, p, n) \<in> set ms. nested_path path p \<notin> set parents \<and>
        (\<exists>c. f (nested_path path p) (nested_path path p # parents) = Some (Inr c)))"
proof (induction ms arbitrary: t)
  case (Cons m ms)
  obtain start p n where m: "m = (start, p, n)" by (cases m)
  show ?case
  proof (cases "nested_path path p \<notin> set parents \<and> (\<exists>c. f (nested_path path p) (nested_path path p # parents) = Some (Inr c))")
    case True
    then obtain c where c: "nested_path path p \<notin> set parents" "f (nested_path path p) (nested_path path p # parents) = Some (Inr c)" by blast
    with Cons.IH [of "take start t @ c @ drop (start + n) t"] show ?thesis by (simp add: m Let_def)
  next
    case False
    then show ?thesis by (auto simp: m Let_def split: option.splits sum.splits)
  qed
qed simp

lemma read_includes_Inr_iff:
  "(\<exists>t. read_includes (Suc n) read_file path parents = Some (Inr t)) \<longleftrightarrow>
     path \<in> dom read_file \<and>
     (\<forall>q. includes_edge read_file path q \<longrightarrow> q \<notin> set parents \<and> (\<exists>c. read_includes n read_file q (q # parents) = Some (Inr c)))"
proof (cases "read_file path")
  case (Some t)
  have "(\<forall>(start, p, k) \<in> set (rev (find_includes 0 t)). nested_path path p \<notin> set parents \<and>
        (\<exists>c. read_includes n read_file (nested_path path p) (nested_path path p # parents) = Some (Inr c))) \<longleftrightarrow>
      (\<forall>q. includes_edge read_file path q \<longrightarrow> q \<notin> set parents \<and> (\<exists>c. read_includes n read_file q (q # parents) = Some (Inr c)))"
    using Some by (fastforce simp: includes_edge_def)
  then show ?thesis using Some expand_Inr_iff [of "read_includes n read_file" path parents "rev (find_includes 0 t)" t]
    by (simp add: domI)
qed auto

lemma success_means:
  assumes "read_includes n read_file path parents = Some (Inr t)"
  shows "(\<forall>q. (includes_edge read_file)\<^sup>*\<^sup>* path q \<longrightarrow> q \<in> dom read_file) \<and>
    (\<forall>p \<in> set parents. \<not> (includes_edge read_file)\<^sup>+\<^sup>+ path p) \<and>
    (\<forall>r. (includes_edge read_file)\<^sup>+\<^sup>+ path r \<longrightarrow> \<not> (includes_edge read_file)\<^sup>+\<^sup>+ r r)"
  using assms
proof (induction n arbitrary: path parents t)
  case (Suc n)
  let ?E = "includes_edge read_file"
  have s: "path \<in> dom read_file"
    "\<And>q. ?E path q \<Longrightarrow> q \<notin> set parents \<and> (\<exists>c. read_includes n read_file q (q # parents) = Some (Inr c))"
    using Suc.prems read_includes_Inr_iff [of n read_file path parents] by blast+
  have ih: "(\<forall>r. ?E\<^sup>*\<^sup>* q r \<longrightarrow> r \<in> dom read_file)" "\<forall>p \<in> set (q # parents). \<not> ?E\<^sup>+\<^sup>+ q p"
    "\<forall>r. ?E\<^sup>+\<^sup>+ q r \<longrightarrow> \<not> ?E\<^sup>+\<^sup>+ r r" if "?E path q" for q
    using Suc.IH s(2) [OF that] by blast+
  have "q \<in> dom read_file" if "?E\<^sup>*\<^sup>* path q" for q
    using that s(1) ih(1) by (metis converse_rtranclpE)
  moreover have "\<not> ?E\<^sup>+\<^sup>+ path p" if "p \<in> set parents" for p
  proof
    assume "?E\<^sup>+\<^sup>+ path p"
    then obtain q where q: "?E path q" "?E\<^sup>*\<^sup>* q p" by (blast dest: tranclpD)
    then show False using s(2) [OF q(1)] ih(2) [OF q(1)] that by (auto dest!: rtranclpD)
  qed
  moreover have "\<not> ?E\<^sup>+\<^sup>+ r r" if pr: "?E\<^sup>+\<^sup>+ path r" for r
  proof -
    obtain q where q: "?E path q" "?E\<^sup>*\<^sup>* q r" using pr by (blast dest: tranclpD)
    then show ?thesis using ih(2,3) [OF q(1)] by (auto dest!: rtranclpD)
  qed
  ultimately show ?case by blast
qed simp

lemma expand_Inl:
  "expand_includes f path parents ms t = Some (Inl e) \<Longrightarrow>
     \<exists>(start, p, n) \<in> set ms. nested_path path p \<in> set parents \<or> (\<exists>e'. f (nested_path path p) (nested_path path p # parents) = Some (Inl e'))"
proof (induction ms arbitrary: t)
  case (Cons m ms)
  obtain start p n where m: "m = (start, p, n)" by (cases m)
  show ?case
  proof (cases "nested_path path p \<in> set parents \<or> (\<exists>e'. f (nested_path path p) (nested_path path p # parents) = Some (Inl e'))")
    case False
    with Cons.prems m obtain t' where "expand_includes f path parents ms t' = Some (Inl e)"
      by (auto simp: Let_def split: option.splits sum.splits)
    from Cons.IH [OF this] show ?thesis by auto
  qed (auto simp: m)
qed simp

lemma failure_means:
  assumes "read_includes n read_file path parents = Some (Inl e)"
    and "\<forall>q. (includes_edge read_file)\<^sup>*\<^sup>* path q \<longrightarrow> q \<in> dom read_file"
    and "\<forall>p \<in> set parents. \<not> (includes_edge read_file)\<^sup>+\<^sup>+ path p"
  shows "\<exists>r. (includes_edge read_file)\<^sup>+\<^sup>+ path r \<and> (includes_edge read_file)\<^sup>+\<^sup>+ r r"
  using assms
proof (induction n arbitrary: path parents e)
  case (Suc n)
  let ?E = "includes_edge read_file"
  obtain t where t: "read_file path = Some t" using Suc.prems(2) by blast
  with Suc.prems(1) obtain start p k where m: "(start, p, k) \<in> set (find_includes 0 t)"
    "nested_path path p \<in> set parents \<or> (\<exists>e'. read_includes n read_file (nested_path path p) (nested_path path p # parents) = Some (Inl e'))"
    using expand_Inl [of "read_includes n read_file" path parents "rev (find_includes 0 t)" t e] by auto
  define q where "q = nested_path path p"
  have E: "?E path q" using t m(1) by (auto simp: includes_edge_def q_def)
  then have "q \<notin> set parents" using Suc.prems(3) by blast
  then obtain e' where e': "read_includes n read_file q (q # parents) = Some (Inl e')" using m(2) by (auto simp: q_def)
  show ?case
  proof (cases "?E\<^sup>+\<^sup>+ q q")
    case True
    with E show ?thesis by blast
  next
    case False
    have "\<forall>r. ?E\<^sup>*\<^sup>* q r \<longrightarrow> r \<in> dom read_file" using Suc.prems(2) E by (meson converse_rtranclp_into_rtranclp)
    moreover have "\<forall>p \<in> set (q # parents). \<not> ?E\<^sup>+\<^sup>+ q p" using False Suc.prems(3) E by (auto dest: tranclp_into_tranclp2)
    ultimately obtain r where "?E\<^sup>+\<^sup>+ q r" "?E\<^sup>+\<^sup>+ r r" using Suc.IH [OF e'] by blast
    with E show ?thesis by (meson tranclp_into_tranclp2)
  qed
qed simp

text \<open>
  C26: A file is read with its includes if and only if every file that it includes, through any
  number of files, can be read and none of them includes itself, through any number of files.
  An error is never a false alarm: a file may be included many times.
\<close>

theorem includes_succeed_iff:
  assumes "finite (dom read_file)" and "card (dom read_file) + 2 \<le> fuel"
  shows "(\<exists>t. read_file_with_includes fuel read_file path = Some (Inr t)) \<longleftrightarrow>
    (\<forall>q. (includes_edge read_file)\<^sup>*\<^sup>* path q \<longrightarrow> q \<in> dom read_file \<and> \<not> (includes_edge read_file)\<^sup>+\<^sup>+ q q)"
    (is "?success \<longleftrightarrow> ?acyclic")
proof
  assume ?success
  then obtain t where "read_includes fuel read_file path [] = Some (Inr t)" by (auto simp: read_file_with_includes_def)
  note m = success_means [OF this]
  show ?acyclic
  proof (intro allI impI conjI)
    fix q assume q: "(includes_edge read_file)\<^sup>*\<^sup>* path q"
    with m show "q \<in> dom read_file" by blast
    show "\<not> (includes_edge read_file)\<^sup>+\<^sup>+ q q"
    proof
      assume c: "(includes_edge read_file)\<^sup>+\<^sup>+ q q"
      then have "(includes_edge read_file)\<^sup>+\<^sup>+ path q" using q by (meson rtranclp_tranclp_tranclp)
      with m c show False by blast
    qed
  qed
next
  assume a: ?acyclic
  have "(if path \<in> dom read_file then card (dom read_file - set []) + 2 else 1) \<le> fuel" using assms(2) by auto
  from read_includes_some [OF assms(1) this] obtain r where r: "read_includes fuel read_file path [] = Some r" by blast
  show ?success
  proof (cases r)
    case (Inl e)
    have reach: "\<forall>q. (includes_edge read_file)\<^sup>*\<^sup>* path q \<longrightarrow> q \<in> dom read_file" using a by blast
    from failure_means [OF r [unfolded Inl] reach] obtain q where
      "(includes_edge read_file)\<^sup>+\<^sup>+ path q" "(includes_edge read_file)\<^sup>+\<^sup>+ q q" by auto
    with a show ?thesis by (meson tranclp_into_rtranclp)
  next
    case (Inr t)
    with r show ?thesis by (auto simp: read_file_with_includes_def)
  qed
qed

section \<open>What is read\<close>

lemma fewer_parents:
  "read_includes n read_file path parents = Some (Inr t) \<Longrightarrow> set parents' \<subseteq> set parents \<Longrightarrow>
     read_includes n read_file path parents' = Some (Inr t)"
proof (induction n arbitrary: path parents parents' t)
  case (Suc n)
  have "expand_includes (read_includes n read_file) path parents' ms s = Some (Inr t)"
    if "expand_includes (read_includes n read_file) path parents ms s = Some (Inr t)" for ms s
    using that
  proof (induction ms arbitrary: s)
    case (Cons m ms)
    obtain start p k where m: "m = (start, p, k)" by (cases m)
    let ?q = "nested_path path p"
    from Cons.prems m obtain c where c: "?q \<notin> set parents" "read_includes n read_file ?q (?q # parents) = Some (Inr c)"
      "expand_includes (read_includes n read_file) path parents ms (take start s @ c @ drop (start + k) s) = Some (Inr t)"
      by (auto simp: Let_def split: option.splits sum.splits if_splits)
    have "read_includes n read_file ?q (?q # parents') = Some (Inr c)" by (rule Suc.IH [OF c(2)]) (use Suc.prems(2) in auto)
    moreover have "?q \<notin> set parents'" using c(1) Suc.prems(2) by blast
    ultimately show ?case using Cons.IH [OF c(3)] m by (simp add: Let_def)
  qed simp
  then show ?case using Suc.prems(1) by (auto split: option.splits)
qed simp

text \<open>The reference: one pass from the left, in which each statement is replaced.\<close>

function weave :: "(string \<Rightarrow> string) \<Rightarrow> string \<Rightarrow> string" where
  "weave g [] = []"
| "weave g (c # s) =
     (case include_at (c # s) of
        Some (p, n) \<Rightarrow> g p @ weave g (drop (n - 1) s)
      | None \<Rightarrow> c # weave g s)"
  by pat_completeness auto

termination by (relation "measure (\<lambda>(g, s). length s)") auto

lemma length_dropWhile: "length (dropWhile P xs) \<le> length xs"
  by (induction xs) auto

lemma include_at_length:
  assumes "include_at s = Some (p, n)"
  shows "1 \<le> n \<and> n \<le> length s"
proof -
  have t: "take 9 s = ''<?include''" using assms by (auto simp: include_at_def split: if_splits)
  then have "length (take 9 s) = 9" by simp
  then have l: "9 \<le> length s" by simp
  obtain j where n: "n = length s - length (drop 2 (dropWhile re_space (drop (j + 1) (tl (dropWhile re_space (drop 9 s))))))"
    using assms by (auto simp: include_at_def Let_def split: if_splits option.splits)
  have "length (drop 2 (dropWhile re_space (drop (j + 1) (tl (dropWhile re_space (drop 9 s)))))) \<le> length (drop 9 s)"
    using length_dropWhile [of re_space "drop (j + 1) (tl (dropWhile re_space (drop 9 s)))"] length_dropWhile [of re_space "drop 9 s"] by simp
  with l n show ?thesis by simp
qed

lemma expand_append:
  "expand_includes f path parents (ms @ [m]) t = Some (Inr u) \<longleftrightarrow>
     (\<exists>v. expand_includes f path parents ms t = Some (Inr v) \<and> expand_includes f path parents [m] v = Some (Inr u))"
proof (induction ms arbitrary: t)
  case (Cons a ms)
  obtain start p n where "a = (start, p, n)" by (cases a)
  with Cons show ?case by (auto simp: Let_def split: option.splits sum.splits)
qed simp

lemma expand_weaves:
  assumes "expand_includes f path parents (rev (find_includes (length pre) s)) (pre @ s) = Some (Inr t)"
    and "\<And>q c. f q (q # parents) = Some (Inr c) \<Longrightarrow> content q = c"
  shows "t = pre @ weave (\<lambda>p. content (nested_path path p)) s"
  using assms(1)
proof (induction "length pre" s arbitrary: pre t rule: find_includes.induct)
  case (2 c s)
  show ?case
  proof (cases "include_at (c # s)")
    case None
    have "expand_includes f path parents (rev (find_includes (length (pre @ [c])) s)) ((pre @ [c]) @ s) = Some (Inr t)"
      using 2(3) None by simp
    with 2(1) [OF None, of "pre @ [c]"] None show ?thesis by simp
  next
    case (Some m)
    obtain p n where m: "m = (p, n)" by (cases m)
    have n: "1 \<le> n" "n \<le> length (c # s)" using include_at_length [of "c # s" p n] Some m by auto
    let ?pre = "pre @ take n (c # s)"
    have len: "length ?pre = length pre + n" using n by simp
    have rest: "drop (n - 1) s = drop n (c # s)" using n(1) by (cases n) auto
    have whole: "?pre @ drop (n - 1) s = pre @ c # s" unfolding rest by simp
    from 2(3) Some m obtain v where v: "expand_includes f path parents (rev (find_includes (length pre + n) (drop (n - 1) s))) (pre @ c # s) = Some (Inr v)"
      and last: "expand_includes f path parents [(length pre, p, n)] v = Some (Inr t)"
      by (auto simp: expand_append)
    have "v = ?pre @ weave (\<lambda>p. content (nested_path path p)) (drop (n - 1) s)"
      by (rule 2(2) [OF Some m [symmetric], of ?pre v]) (use len v whole in simp_all)
    moreover obtain d where d: "f (nested_path path p) (nested_path path p # parents) = Some (Inr d)"
      and t: "t = take (length pre) v @ d @ drop (length pre + n) v"
      using last by (auto simp: Let_def split: if_splits option.splits sum.splits)
    ultimately have "t = pre @ d @ weave (\<lambda>p. content (nested_path path p)) (drop (n - 1) s)" using n len by simp
    then show ?thesis using Some m assms(2) [OF d] by simp
  qed
qed simp

text \<open>
  C27: What is read is the text of the file with every statement replaced by what is read from
  the file it names, as one pass from the left would do it: replacing the statements from the
  last one to the first by their positions does not mix them up, whatever the included texts
  contain, and an include statement inside an included text counts as well.
\<close>

theorem includes_woven:
  assumes "read_file_with_includes (Suc fuel) read_file path = Some (Inr t)" and "read_file path = Some text1"
  shows "t = weave (\<lambda>p. case read_file_with_includes fuel read_file (nested_path path p) of Some (Inr c) \<Rightarrow> c | _ \<Rightarrow> []) text1"
proof -
  let ?content = "\<lambda>q. case read_file_with_includes fuel read_file q of Some (Inr c) \<Rightarrow> c | _ \<Rightarrow> []"
  have e: "expand_includes (read_includes fuel read_file) path [] (rev (find_includes (length []) text1)) ([] @ text1) = Some (Inr t)"
    using assms by (simp add: read_file_with_includes_def)
  have "?content q = c" if "read_includes fuel read_file q (q # []) = Some (Inr c)" for q c
    using fewer_parents [OF that, of "[]"] by (simp add: read_file_with_includes_def)
  from expand_weaves [where content = ?content, OF e this] show ?thesis by simp
qed

section \<open>An example\<close>

definition example_files :: "string \<Rightarrow> string option" where
  "example_files =
     [''/etc/a.conf'' \<mapsto> ''x <?include '' @ [CHR 0x22] @ ''sub/../b.conf'' @ [CHR 0x22] @ ''?> y'',
      ''/etc/b.conf'' \<mapsto> ''middle'',
      ''/etc/loop.conf'' \<mapsto> ''<?include '' @ [CHR 0x22] @ ''./loop.conf'' @ [CHR 0x22] @ ''?>'']"

lemma example_dom: "dom example_files = {''/etc/a.conf'', ''/etc/b.conf'', ''/etc/loop.conf''}"
  by (auto simp: example_files_def)

lemma includes_terminate_witness:
  "\<exists>r. read_file_with_includes 5 example_files ''/etc/loop.conf'' = Some r"
proof -
  have "finite (dom example_files)" "card (dom example_files) + 2 \<le> 5" by (simp_all add: example_dom)
  from includes_terminate [OF this] show ?thesis by blast
qed

lemma includes_succeed_iff_witness:
  "''/etc/a.conf'' \<in> dom example_files \<and> \<not> (includes_edge example_files)\<^sup>+\<^sup>+ ''/etc/a.conf'' ''/etc/a.conf''"
proof -
  have "finite (dom example_files)" "card (dom example_files) + 2 \<le> 5" by (simp_all add: example_dom)
  note i = includes_succeed_iff [OF this, of "''/etc/a.conf''"]
  have "case read_file_with_includes 5 example_files ''/etc/a.conf'' of Some (Inr t) \<Rightarrow> True | _ \<Rightarrow> False" by code_simp
  then have "\<exists>t. read_file_with_includes 5 example_files ''/etc/a.conf'' = Some (Inr t)" by (auto split: option.splits sum.splits)
  with i show ?thesis by blast
qed

lemma includes_woven_witness:
  "weave (\<lambda>p. case read_file_with_includes 4 example_files (nested_path ''/etc/a.conf'' p) of Some (Inr c) \<Rightarrow> c | _ \<Rightarrow> [])
     (the (example_files ''/etc/a.conf'')) = ''x middle y''"
proof -
  have r: "read_file_with_includes (Suc 4) example_files ''/etc/a.conf'' = Some (Inr ''x middle y'')" by code_simp
  have "example_files ''/etc/a.conf'' = Some (the (example_files ''/etc/a.conf''))" by (simp add: example_files_def)
  from includes_woven [OF r this] show ?thesis by (rule sym)
qed

end
