(* ===== verification/Env_File.thy ===== *)
theory Env_File
  imports Go_Strings
begin

text \<open>
  Files of environment variables: \<open>util/envfile.go\<close>.  The reader is the text of the file; the lines
  are those of \<open>bufio.Scanner\<close>, which stops without a word at a line of 64 KiB or more.  The
  setters of variables are a state with a function that sets one.
\<close>

section \<open>Lines\<close>

text \<open>
  The lines of the scanner: a carriage return before the end is dropped, nothing comes after the
  last newline, and a line that does not fit into the buffer ends the scan.
\<close>

definition max_token :: nat where
  "max_token = 65536"

definition drop_cr :: "string \<Rightarrow> string" where
  "drop_cr l = (if l \<noteq> [] \<and> last l = CHR 0x0D then butlast l else l)"

fun scan_pieces :: "string list \<Rightarrow> string list" where
  "scan_pieces [] = []"
| "scan_pieces [l] = (if l = [] \<or> length l \<ge> max_token then [] else [drop_cr l])"
| "scan_pieces (l # ls) = (if length l \<ge> max_token then [] else drop_cr l # scan_pieces ls)"

definition scan_lines :: "string \<Rightarrow> string list" where
  "scan_lines text1 = scan_pieces (strings_split CHR 0x0A text1)"

section \<open>Entries\<close>

datatype line_error = NoEqualSign | EmptyKey

text \<open>A line: an empty key stands for a line without an entry.\<close>

definition load_environment_line :: "string \<Rightarrow> line_error + string \<times> string" where
  "load_environment_line line1 =
     (let line2 = trim_space line1 in
      if line2 = [] then Inr ([], [])
      else if take 1 line2 = ''#'' then Inr ([], [])
      else (case strings_cut CHR ''='' line2 of
              None \<Rightarrow> Inl NoEqualSign
            | Some (key, value) \<Rightarrow> if key = [] then Inl EmptyKey else Inr (key, value)))"

text \<open>The pairs in their order; the value of a key that is there is overwritten at its place.\<close>

fun set_pair :: "string \<Rightarrow> string \<Rightarrow> (string \<times> string) list \<Rightarrow> (string \<times> string) list" where
  "set_pair k v [] = [(k, v)]"
| "set_pair k v ((k', v') # ps) = (if k' = k then (k, v) # ps else (k', v') # set_pair k v ps)"

fun load_lines :: "nat \<Rightarrow> string list \<Rightarrow> (string \<times> string) list \<Rightarrow> nat \<times> line_error + (string \<times> string) list" where
  "load_lines i [] data = Inr data"
| "load_lines i (l # ls) data =
     (case load_environment_line l of
        Inl e \<Rightarrow> Inl (i + 1, e)
      | Inr (k, v) \<Rightarrow> if k = [] then load_lines (i + 1) ls data else load_lines (i + 1) ls (set_pair k v data))"

definition load_environment_entries :: "string \<Rightarrow> nat \<times> line_error + (string \<times> string) list" where
  "load_environment_entries text1 = load_lines 0 (scan_lines text1) []"

datatype env_error = CannotOpen string | BadLine nat line_error | CannotSet string string string

definition load_environment_file :: "(string \<Rightarrow> string + string) \<Rightarrow> string \<Rightarrow> env_error + (string \<times> string) list" where
  "load_environment_file open_file path =
     (case open_file path of
        Inl e \<Rightarrow> Inl (CannotOpen path)
      | Inr text1 \<Rightarrow>
          (case load_environment_entries text1 of Inl (i, e) \<Rightarrow> Inl (BadLine i e) | Inr data \<Rightarrow> Inr data))"

text \<open>
  A setter is called with a key and a value; it changes the state and may fail.  The first failure
  ends the loops.
\<close>

type_synonym 's setter = "string \<Rightarrow> string \<Rightarrow> 's \<Rightarrow> string option \<times> 's"

fun call_setters :: "'s setter list \<Rightarrow> string \<Rightarrow> string \<Rightarrow> 's \<Rightarrow> env_error option \<times> 's" where
  "call_setters [] k v s = (None, s)"
| "call_setters (f # fs) k v s =
     (case f k v s of
        (Some e, s) \<Rightarrow> (Some (CannotSet k v e), s)
      | (None, s) \<Rightarrow> call_setters fs k v s)"

fun set_pairs :: "'s setter list \<Rightarrow> (string \<times> string) list \<Rightarrow> 's \<Rightarrow> env_error option \<times> 's" where
  "set_pairs fs [] s = (None, s)"
| "set_pairs fs ((k, v) # ps) s =
     (case call_setters fs k v s of
        (Some e, s) \<Rightarrow> (Some e, s)
      | (None, s) \<Rightarrow> set_pairs fs ps s)"

definition load_environment_file_to_setter ::
    "(string \<Rightarrow> string + string) \<Rightarrow> 's setter list \<Rightarrow> string \<Rightarrow> 's \<Rightarrow> env_error option \<times> 's" where
  "load_environment_file_to_setter open_file setters path s =
     (case load_environment_file open_file path of
        Inl e \<Rightarrow> (Some e, s)
      | Inr data \<Rightarrow> set_pairs setters data s)"

section \<open>What is loaded\<close>

definition line_entry :: "string \<Rightarrow> (string \<times> string) list" where
  "line_entry l = (case load_environment_line l of Inl e \<Rightarrow> [] | Inr (k, v) \<Rightarrow> if k = [] then [] else [(k, v)])"

definition bad_line :: "string \<Rightarrow> bool" where
  "bad_line l = (\<exists>e. load_environment_line l = Inl e)"

lemma set_pair_keys: "map fst (set_pair k v ps) = (if k \<in> fst ` set ps then map fst ps else map fst ps @ [k])"
  by (induction k v ps rule: set_pair.induct) auto

lemma set_pair_map: "map_of (set_pair k v ps) = (map_of ps)(k \<mapsto> v)"
  by (induction k v ps rule: set_pair.induct) auto

definition first_keys :: "string list \<Rightarrow> string list" where
  "first_keys ks = rev (remdups (rev ks))"

definition file_entries :: "string \<Rightarrow> (string \<times> string) list" where
  "file_entries text1 = concat (map line_entry (scan_lines text1))"

lemma distinct_first_keys [simp]: "distinct (first_keys ks)"
  by (simp add: first_keys_def)

lemma load_lines_good:
  "\<forall>l \<in> set ls. \<not> bad_line l \<Longrightarrow> load_lines i ls data = Inr (fold (\<lambda>(k, v). set_pair k v) (concat (map line_entry ls)) data)"
  by (induction i ls data rule: load_lines.induct) (auto simp: bad_line_def line_entry_def split: sum.splits)

lemma load_lines_bad:
  "\<forall>l \<in> set ls. \<not> bad_line l \<Longrightarrow> load_environment_line b = Inl e \<Longrightarrow>
     load_lines i (ls @ b # rest) data = Inl (i + length ls + 1, e)"
  by (induction i ls data rule: load_lines.induct) (auto simp: bad_line_def split: sum.splits)

lemma remdups_snoc: "remdups (xs @ [k]) = remdups (filter (\<lambda>x. x \<noteq> k) xs) @ [k]"
  by (induction xs) auto

lemma fold_set_pair:
  "distinct (map fst data) \<Longrightarrow> distinct (map fst (fold (\<lambda>(k, v). set_pair k v) ps data)) \<and>
     map_of (fold (\<lambda>(k, v). set_pair k v) ps data) = map_of (rev ps @ data) \<and>
     map fst (fold (\<lambda>(k, v). set_pair k v) ps data) = map fst data @ filter (\<lambda>k. k \<notin> fst ` set data) (first_keys (map fst ps))"
proof (induction ps arbitrary: data)
  case (Cons p ps)
  obtain k v where p: "p = (k, v)" by (cases p)
  have d: "distinct (map fst (set_pair k v data))"
    using Cons.prems unfolding set_pair_keys by auto
  have keys: "fst ` set (set_pair k v data) = insert k (fst ` set data)"
    using arg_cong [OF set_pair_keys [of k v data], of set] by (auto simp: image_iff split: if_splits)
  have first: "first_keys (k # ks) = k # filter (\<lambda>x. x \<noteq> k) (first_keys ks)" for ks
    by (simp add: first_keys_def remdups_snoc rev_filter remdups_filter)
  from Cons.IH [OF d] Cons.prems show ?case
    by (auto simp: p keys set_pair_keys set_pair_map first)
qed (simp add: first_keys_def)

text \<open>
  What is loaded from a file of variables: if no line of it is bad, every variable once, in
  the order of first appearance and with the value that comes last; otherwise the first bad
  line and what is wrong with it.  A line is bad if and only if it is, without the space around
  it, neither empty nor a comment and has no key before an equal sign.
\<close>

theorem environment_entries_loaded:
  "(case load_environment_entries text1 of
      Inr data \<Rightarrow> (\<forall>l \<in> set (scan_lines text1). \<not> bad_line l) \<and> distinct (map fst data) \<and>
        map fst data = first_keys (map fst (file_entries text1)) \<and> map_of data = map_of (rev (file_entries text1))
    | Inl (i, e) \<Rightarrow> 0 < i \<and> i \<le> length (scan_lines text1) \<and> load_environment_line (scan_lines text1 ! (i - 1)) = Inl e \<and>
        (\<forall>l \<in> set (take (i - 1) (scan_lines text1)). \<not> bad_line l)) \<and>
    (bad_line line1 \<longleftrightarrow> (let t = trim_space line1 in t \<noteq> [] \<and> hd t \<noteq> CHR ''#'' \<and> (CHR ''='' \<notin> set t \<or> hd t = CHR ''='')))"
proof (rule conjI)
  show "case load_environment_entries text1 of
      Inr data \<Rightarrow> (\<forall>l \<in> set (scan_lines text1). \<not> bad_line l) \<and> distinct (map fst data) \<and>
        map fst data = first_keys (map fst (file_entries text1)) \<and> map_of data = map_of (rev (file_entries text1))
    | Inl (i, e) \<Rightarrow> 0 < i \<and> i \<le> length (scan_lines text1) \<and> load_environment_line (scan_lines text1 ! (i - 1)) = Inl e \<and>
        (\<forall>l \<in> set (take (i - 1) (scan_lines text1)). \<not> bad_line l)"
  proof (cases "\<forall>l \<in> set (scan_lines text1). \<not> bad_line l")
    case True
    then show ?thesis
      using fold_set_pair [of "[]" "file_entries text1"]
      by (simp add: load_environment_entries_def load_lines_good file_entries_def)
  next
    case False
    then obtain good b rest where l: "scan_lines text1 = good @ b # rest" "bad_line b" "\<forall>l \<in> set good. \<not> bad_line l"
      using split_list_first_prop [of "scan_lines text1" bad_line] by blast
    obtain e where e: "load_environment_line b = Inl e" using l(2) by (auto simp: bad_line_def)
    show ?thesis using l load_lines_bad [OF l(3) e, of 0 rest "[]"] e by (simp add: load_environment_entries_def)
  qed
next
  obtain t where t: "trim_space line1 = t" by simp
  show "bad_line line1 \<longleftrightarrow> (let t = trim_space line1 in t \<noteq> [] \<and> hd t \<noteq> CHR ''#'' \<and> (CHR ''='' \<notin> set t \<or> hd t = CHR ''=''))"
    unfolding bad_line_def load_environment_line_def Let_def t
    by (cases t) (auto simp: strings_cut_None dest: strings_cut_Some split: option.split)
qed

definition sample_file :: string where
  "sample_file = ''A=1'' @ CHR 0x0A # ''# first'' @ CHR 0x0A # ''B=2'' @ CHR 0x0A # ''A=3''"

lemma sample_line: "load_environment_line ''A=1'' = Inr (''A'', ''1'')"
proof -
  have t: "trim_space ''A=1'' = ''A=1''" by (rule trim_spaceI; simp add: space_codes_eq)
  show ?thesis by (simp add: load_environment_line_def t Let_def)
qed

theorem environment_entries_loaded_witness:
  "\<exists>data. load_environment_entries sample_file = Inr data \<and> map fst data = [''A'', ''B''] \<and> map_of data ''A'' = Some ''3''"
proof -
  let ?ls = "[''A=1'', ''# first'', ''B=2'', ''A=3'']"
  have ls: "scan_lines sample_file = ?ls" by (simp add: scan_lines_def sample_file_def drop_cr_def max_token_def)
  have t: "trim_space ''A=1'' = ''A=1''" "trim_space ''# first'' = ''# first''" "trim_space ''B=2'' = ''B=2''" "trim_space ''A=3'' = ''A=3''"
    by (rule trim_spaceI; simp add: space_codes_eq)+
  have e: "load_environment_line ''A=1'' = Inr (''A'', ''1'')" "load_environment_line ''# first'' = Inr ([], [])"
    "load_environment_line ''B=2'' = Inr (''B'', ''2'')" "load_environment_line ''A=3'' = Inr (''A'', ''3'')"
    by (simp_all add: load_environment_line_def t Let_def)
  have "load_lines 0 ?ls [] = Inr [(''A'', ''3''), (''B'', ''2'')]" by (simp add: e)
  then have l: "load_environment_entries sample_file = Inr [(''A'', ''3''), (''B'', ''2'')]"
    unfolding load_environment_entries_def ls .
  have "first_keys (map fst (concat (map line_entry ?ls))) = [''A'', ''B'']" by (simp add: e line_entry_def first_keys_def)
  then have k: "first_keys (map fst (file_entries sample_file)) = [''A'', ''B'']" unfolding file_entries_def ls .
  have "map_of (rev (concat (map line_entry ?ls))) ''A'' = Some ''3''" by (simp add: e line_entry_def)
  then have v: "map_of (rev (file_entries sample_file)) ''A'' = Some ''3''" unfolding file_entries_def ls .
  note loaded = environment_entries_loaded [of sample_file "[]", unfolded l sum.case, THEN conjunct1]
  have "map fst [(''A'', ''3''), (''B'', ''2'')] = [''A'', ''B'']" using loaded unfolding k by (elim conjE)
  moreover have "map_of [(''A'', ''3''), (''B'', ''2'')] ''A'' = Some ''3''"
    using loaded [THEN conjunct2, THEN conjunct2, THEN conjunct2, THEN fun_cong, of "''A''"] unfolding v .
  ultimately show ?thesis using l by (intro exI conjI)
qed

text \<open>The beginning of a file whose lines all fit, and of one with a line that does not.\<close>

lemma scan_piece: "ls \<noteq> [] \<Longrightarrow> length l < max_token \<Longrightarrow> scan_pieces (l # ls) = drop_cr l # scan_pieces ls"
  by (cases ls) (auto simp: max_token_def)

lemma scan_long: "max_token \<le> length l \<Longrightarrow> scan_pieces (l # ls) = []"
  by (cases ls) auto

text \<open>
  A file with a line of 64 KiB or more is scanned without an error up to that line; the rest
  of it is lost.
\<close>

theorem long_line_ends_file:
  assumes "max_token \<le> length l" and "CHR 0x0A \<notin> set l" and "\<forall>k \<in> set ls. CHR 0x0A \<notin> set k \<and> length k < max_token"
  shows "scan_lines (concat (map (\<lambda>k. k @ [CHR 0x0A]) ls) @ l @ CHR 0x0A # rest) = map drop_cr ls"
  using assms(3)
proof (induction ls)
  case Nil
  then show ?case using assms by (simp add: scan_lines_def strings_split_app scan_long)
next
  case (Cons k ls)
  then show ?case by (simp add: scan_lines_def strings_split_app scan_piece)
qed

theorem long_line_ends_file_witness:
  "load_environment_entries (''A=1'' @ CHR 0x0A # replicate 65536 CHR ''x'' @ CHR 0x0A # ''B=2'') = Inr [(''A'', ''1'')]"
proof -
  have "scan_lines (concat (map (\<lambda>k. k @ [CHR 0x0A]) [''A=1'']) @ replicate 65536 CHR ''x'' @ CHR 0x0A # ''B=2'') = map drop_cr [''A=1'']"
    by (rule long_line_ends_file) (simp_all add: max_token_def)
  then have "scan_lines (''A=1'' @ CHR 0x0A # replicate 65536 CHR ''x'' @ CHR 0x0A # ''B=2'') = [drop_cr ''A=1'']"
    by (simp only: list.map concat.simps append.simps)
  moreover have "load_lines 0 [drop_cr ''A=1''] [] = Inr [(''A'', ''1'')]" by (simp add: drop_cr_def sample_line)
  ultimately show ?thesis by (simp only: load_environment_entries_def)
qed

end
