(* ===== verification/Hosts.thy ===== *)
theory Hosts
  imports Kea_Config
begin

text \<open>
  Host reservations of the server: \<open>server/database/model/host.go\<close>, as far as it works in memory,
  the creation of a host from a reservation of Kea (\<open>NewHostFromKeaConfigReservation\<close> in
  \<open>keaconfig.go\<close>) and the merging of new hosts into the ones of the database
  (\<open>overrideIntoDatabaseHosts\<close> in \<open>server/apps/kea/host.go\<close>).  The identifiers that the database
  gives to rows of identifiers and reservations are left out, as is the pointer to the daemon.
  The hash of an option set is an argument.
\<close>

section \<open>Data\<close>

text \<open>The sources of a host: an unspecified one is the empty text.\<close>

definition data_source_config :: string where "data_source_config = ''config''"
definition data_source_api :: string where "data_source_api = ''api''"

definition data_source_specified :: "string \<Rightarrow> bool" where
  "data_source_specified s = (s \<noteq> [])"

definition parse_host_data_source :: "string \<Rightarrow> string + string" where
  "parse_host_data_source s = (if s \<noteq> data_source_config \<and> s \<noteq> data_source_api then Inl s else Inr s)"

record host_identifier =
  hi_type :: string
  hi_value :: "8 word list"

record local_host =
  lh_daemon_id :: int
  lh_data_source :: string
  lh_options :: "dhcp_option list"
  lh_options_hash :: string
  lh_client_classes :: "string list"
  lh_next_server :: string
  lh_server_hostname :: string
  lh_boot_file_name :: string
  lh_hostname :: string
  lh_ip_reservations :: "string list"

text \<open>The subnet of a host comes with the daemons and identifiers of its local subnets.\<close>

record host =
  ho_id :: int
  ho_subnet_id :: int
  ho_subnet :: "(int \<times> int) list option"
  ho_identifiers :: "host_identifier list"
  ho_local_hosts :: "local_host list"

definition reservation_is_prefix :: "string \<Rightarrow> bool" where
  "reservation_is_prefix address = (case parse_ip address of None \<Rightarrow> False | Some p \<Rightarrow> pip_prefix p)"

section \<open>Reading a host\<close>

text \<open>The addresses of all daemons, each one once; the code returns them in any order.\<close>

definition host_ip_reservations :: "host \<Rightarrow> string list" where
  "host_ip_reservations h = remdups (concat (map lh_ip_reservations (ho_local_hosts h)))"

fun has_ip_address_in :: "string \<Rightarrow> string list \<Rightarrow> bool" where
  "has_ip_address_in address [] = False"
| "has_ip_address_in address (a # as) =
     (case make_cidr a of
        Inl e \<Rightarrow> has_ip_address_in address as
      | Inr host_cidr \<Rightarrow>
          (case make_cidr address of
             Inl e \<Rightarrow> False
           | Inr arg_cidr \<Rightarrow> if host_cidr = arg_cidr then True else has_ip_address_in address as))"

definition has_ip_address :: "host \<Rightarrow> string \<Rightarrow> bool" where
  "has_ip_address h address = has_ip_address_in address (host_ip_reservations h)"

text \<open>Whether there is an identifier of the type, and whether the first one has the value.\<close>

fun has_identifier_in :: "host_identifier list \<Rightarrow> string \<Rightarrow> 8 word list \<Rightarrow> bool \<times> bool" where
  "has_identifier_in [] t v = (False, False)"
| "has_identifier_in (i # is1) t v = (if t = hi_type i then (True, hi_value i = v) else has_identifier_in is1 t v)"

definition has_identifier :: "host \<Rightarrow> string \<Rightarrow> 8 word list \<Rightarrow> bool \<times> bool" where
  "has_identifier h t v = has_identifier_in (ho_identifiers h) t v"

definition has_identifier_type :: "host \<Rightarrow> string \<Rightarrow> bool" where
  "has_identifier_type h t = list_ex (\<lambda>i. t = hi_type i) (ho_identifiers h)"

definition has_equal_ip_reservations :: "host \<Rightarrow> host \<Rightarrow> bool" where
  "has_equal_ip_reservations h other =
     (length (host_ip_reservations h) = length (host_ip_reservations other) \<and>
      list_all (has_ip_address h) (host_ip_reservations other))"

definition host_is_same :: "host \<Rightarrow> host \<Rightarrow> bool" where
  "host_is_same h other =
     (length (ho_identifiers h) = length (ho_identifiers other) \<and>
      list_all (\<lambda>o1. snd (has_identifier h (hi_type o1) (hi_value o1))) (ho_identifiers other))"

definition get_local_host :: "host \<Rightarrow> int \<Rightarrow> local_host option" where
  "get_local_host h daemon = find (\<lambda>l. lh_daemon_id l = daemon) (ho_local_hosts h)"

text \<open>The digits of an identifier, with a separator between the bytes unless it is empty.\<close>

definition lower_hex :: "8 word list \<Rightarrow> string" where
  "lower_hex bs = concat (map (\<lambda>b. [hex_char (unat b div 16), hex_char (unat b mod 16)]) bs)"

fun separate_pairs :: "string \<Rightarrow> string \<Rightarrow> string \<Rightarrow> string" where
  "separate_pairs sep (a # b # s) out = separate_pairs sep s ((if out \<noteq> [] then out @ sep else out) @ [a, b])"
| "separate_pairs sep s out = out"

definition identifier_to_hex :: "host_identifier \<Rightarrow> string \<Rightarrow> string" where
  "identifier_to_hex i sep = (let e = lower_hex (hi_value i) in if sep = [] then e else separate_pairs sep e [])"

definition get_hostname :: "host \<Rightarrow> string" where
  "get_hostname h = (case ho_local_hosts h of [] \<Rightarrow> [] | l # ls \<Rightarrow> lh_hostname l)"

definition get_client_classes :: "host \<Rightarrow> int \<Rightarrow> string list" where
  "get_client_classes h d = (case get_local_host h d of None \<Rightarrow> [] | Some l \<Rightarrow> lh_client_classes l)"

definition get_next_server :: "host \<Rightarrow> int \<Rightarrow> string" where
  "get_next_server h d = (case get_local_host h d of None \<Rightarrow> [] | Some l \<Rightarrow> lh_next_server l)"

definition get_server_hostname :: "host \<Rightarrow> int \<Rightarrow> string" where
  "get_server_hostname h d = (case get_local_host h d of None \<Rightarrow> [] | Some l \<Rightarrow> lh_server_hostname l)"

definition get_boot_file_name :: "host \<Rightarrow> int \<Rightarrow> string" where
  "get_boot_file_name h d = (case get_local_host h d of None \<Rightarrow> [] | Some l \<Rightarrow> lh_boot_file_name l)"

text \<open>The options of all local hosts of the daemon, not only of the first one.\<close>

definition get_dhcp_options :: "host \<Rightarrow> int \<Rightarrow> dhcp_option list" where
  "get_dhcp_options h d = concat (map lh_options (filter (\<lambda>l. lh_daemon_id l = d) (ho_local_hosts h)))"

definition get_host_subnet_id :: "host \<Rightarrow> int \<Rightarrow> (int \<times> int) + int" where
  "get_host_subnet_id h d =
     (case ho_subnet h of
        None \<Rightarrow> Inr 0
      | Some ls \<Rightarrow> (case find (\<lambda>(daemon, i). daemon = d) ls of Some (daemon, i) \<Rightarrow> Inr i | None \<Rightarrow> Inl (ho_id h, d)))"

section \<open>Joining hosts\<close>

fun put_local_host :: "local_host \<Rightarrow> local_host list \<Rightarrow> local_host list" where
  "put_local_host l [] = [l]"
| "put_local_host l (k # ks) =
     (if lh_daemon_id k = lh_daemon_id l \<and> lh_data_source k = lh_data_source l then l # ks else k # put_local_host l ks)"

definition add_or_update_local_host :: "local_host \<Rightarrow> host \<Rightarrow> host" where
  "add_or_update_local_host l h = h\<lparr>ho_local_hosts := put_local_host l (ho_local_hosts h)\<rparr>"

definition host_join :: "host \<Rightarrow> host \<Rightarrow> bool \<times> host" where
  "host_join h other =
     (if \<not> host_is_same h other then (False, h)
      else (True, fold add_or_update_local_host (ho_local_hosts other) h))"

text \<open>
  A new host is joined into the first existing host that is the same; the existing hosts are
  changed in place, so a later new host finds the earlier one joined.  Each result is the value
  at its own step.
\<close>

fun join_first :: "host \<Rightarrow> host list \<Rightarrow> host \<times> host list" where
  "join_first new_host [] = (new_host, [])"
| "join_first new_host (h # hs) =
     (case host_join h new_host of
        (True, h') \<Rightarrow> (h', h' # hs)
      | (False, _) \<Rightarrow> (case join_first new_host hs of (r, hs') \<Rightarrow> (r, h # hs')))"

fun override_hosts :: "host list \<Rightarrow> host list \<Rightarrow> host list" where
  "override_hosts existing [] = []"
| "override_hosts existing (n # ns) =
     (case join_first n existing of (r, existing') \<Rightarrow> r # override_hosts existing' ns)"

section \<open>Hosts from reservations\<close>

text \<open>The identifiers of a reservation with their names in JSON, in the order in which they are read.\<close>

definition identifier_fields :: "reservation \<Rightarrow> (string \<times> string) list" where
  "identifier_fields r =
     [(''hw-address'', rv_hw_address r), (''duid'', rv_duid r), (''circuit-id'', rv_circuit_id r),
      (''client-id'', rv_client_id r), (''flex-id'', rv_flex_id r)]"

fun read_identifiers :: "(string \<times> string) list \<Rightarrow> string + host_identifier list" where
  "read_identifiers [] = Inr []"
| "read_identifiers ((name, field) # fs) =
     (let v = trim_space field in
      if length v > 0 then
        (case hex_decode (remove_chars [CHR '':''] v) of
           (bytes, False) \<Rightarrow> Inl name
         | (bytes, True) \<Rightarrow>
             (case read_identifiers fs of
                Inl e \<Rightarrow> Inl e
              | Inr is1 \<Rightarrow> Inr (\<lparr>hi_type = name, hi_value = bytes\<rparr> # is1)))
      else read_identifiers fs)"

fun read_options :: "(int \<Rightarrow> dhcp_option \<Rightarrow> option_definition option) \<Rightarrow> ip_type \<Rightarrow> single_option_data list \<Rightarrow> option_error + dhcp_option list" where
  "read_options find_def universe [] = Inr []"
| "read_options find_def universe (d # ds) =
     (case create_dhcp_option find_def d universe of
        Inl e \<Rightarrow> Inl e
      | Inr o1 \<Rightarrow> (case read_options find_def universe ds of Inl e \<Rightarrow> Inl e | Inr os \<Rightarrow> Inr (o1 # os)))"

text \<open>The hash of the options leaves their names out; an empty set has no hash.\<close>

definition options_hash :: "(dhcp_option list \<Rightarrow> string) \<Rightarrow> dhcp_option list \<Rightarrow> string" where
  "options_hash hash os = (if length os \<noteq> 0 then hash (map (\<lambda>o1. o1\<lparr>do_name := []\<rparr>) os) else [])"

datatype host_error = BadIdentifier string | BadOption option_error

definition new_host_from_reservation ::
    "(int \<Rightarrow> dhcp_option \<Rightarrow> option_definition option) \<Rightarrow> (dhcp_option list \<Rightarrow> string) \<Rightarrow> reservation \<Rightarrow>
     int \<Rightarrow> string \<Rightarrow> string \<Rightarrow> host_error + host" where
  "new_host_from_reservation find_def hash r daemon_id daemon_name source =
     (case read_identifiers (identifier_fields r) of
        Inl e \<Rightarrow> Inl (BadIdentifier e)
      | Inr is1 \<Rightarrow>
          (case read_options find_def (if daemon_name = ''dhcp6'' then IPv6 else IPv4) (rv_option_data r) of
             Inl e \<Rightarrow> Inl (BadOption e)
           | Inr os \<Rightarrow> Inr
               \<lparr>ho_id = 0, ho_subnet_id = 0, ho_subnet = None, ho_identifiers = is1,
                ho_local_hosts =
                  [\<lparr>lh_daemon_id = daemon_id, lh_data_source = source, lh_options = os, lh_options_hash = options_hash hash os,
                    lh_client_classes = rv_client_classes r, lh_next_server = rv_next_server r,
                    lh_server_hostname = rv_server_hostname r, lh_boot_file_name = rv_boot_file_name r,
                    lh_hostname = rv_hostname r,
                    lh_ip_reservations = map trim_space (rv_ip_addresses r @ rv_prefixes r) @
                      (if length (rv_ip_address r) > 0 then [trim_space (rv_ip_address r)] else [])\<rparr>]\<rparr>))"

section \<open>What joining does\<close>

text \<open>The local host of a daemon from a source.\<close>

definition local_at :: "local_host list \<Rightarrow> int \<times> string \<Rightarrow> local_host option" where
  "local_at ls k = find (\<lambda>l. (lh_daemon_id l, lh_data_source l) = k) ls"

definition local_key :: "local_host \<Rightarrow> int \<times> string" where
  "local_key l = (lh_daemon_id l, lh_data_source l)"

definition identifier_types :: "host \<Rightarrow> string list" where
  "identifier_types h = map hi_type (ho_identifiers h)"

lemma has_identifier_in_iff:
  "distinct (map hi_type is1) \<Longrightarrow> snd (has_identifier_in is1 t v) \<longleftrightarrow> \<lparr>hi_type = t, hi_value = v\<rparr> \<in> set is1"
proof (induction is1 t v rule: has_identifier_in.induct)
  case (2 i is1 t v)
  then show ?case by (cases i) (auto simp: image_iff)
qed simp

lemma identifier_eta [simp]: "\<lparr>hi_type = hi_type i, hi_value = hi_value i\<rparr> = i"
  by (cases i) simp

lemma same_hosts_iff:
  assumes "distinct (identifier_types h)" and "distinct (identifier_types k)"
  shows "host_is_same h k \<longleftrightarrow> set (ho_identifiers h) = set (ho_identifiers k)"
proof -
  have d: "distinct (ho_identifiers h)" "distinct (ho_identifiers k)"
    using assms by (auto simp: identifier_types_def distinct_map)
  have sub: "host_is_same h k \<longleftrightarrow> length (ho_identifiers h) = length (ho_identifiers k) \<and> set (ho_identifiers k) \<subseteq> set (ho_identifiers h)"
    using assms(1) by (auto simp: host_is_same_def has_identifier_def identifier_types_def has_identifier_in_iff list_all_iff)
  show ?thesis
    unfolding sub using d by (metis List.finite_set card_subset_eq distinct_card order_refl)
qed

lemma put_local_keys:
  "map local_key (put_local_host l ls) =
     (if local_key l \<in> local_key ` set ls then map local_key ls else map local_key ls @ [local_key l])"
  by (induction l ls rule: put_local_host.induct) (auto simp: local_key_def)

lemma put_local_at: "local_at (put_local_host l ls) k = (if k = local_key l then Some l else local_at ls k)"
  by (induction l ls rule: put_local_host.induct) (auto simp: local_key_def local_at_def)

lemma local_add [simp]: "ho_local_hosts (add_or_update_local_host l h) = put_local_host l (ho_local_hosts h)"
  by (simp add: add_or_update_local_host_def)

lemma local_at_snoc:
  "local_at (ls @ [l]) k = (case local_at ls k of Some l \<Rightarrow> Some l | None \<Rightarrow> if k = local_key l then Some l else None)"
  by (induction ls) (auto simp: local_at_def local_key_def)

lemma fold_local_at:
  "local_at (ho_local_hosts (fold add_or_update_local_host ls h)) k =
     (case local_at (rev ls) k of Some l \<Rightarrow> Some l | None \<Rightarrow> local_at (ho_local_hosts h) k)"
proof (induction ls arbitrary: h)
  case (Cons l ls)
  show ?case by (simp add: Cons.IH put_local_at local_at_snoc split: option.split)
qed (simp add: local_at_def)

lemma local_at_Nil [simp]: "local_at [] k = None"
  by (simp add: local_at_def)

lemma local_at_Cons: "local_at (l # ls) k = (if k = local_key l then Some l else local_at ls k)"
  by (auto simp: local_at_def local_key_def)

lemma local_at_absent: "k \<notin> local_key ` set ls \<Longrightarrow> local_at ls k = None"
  by (induction ls) (auto simp: local_at_Cons)

lemma local_at_rev: "distinct (map local_key ls) \<Longrightarrow> local_at (rev ls) k = local_at ls k"
  by (induction ls) (auto simp: local_at_snoc local_at_Cons local_at_absent split: option.split)

lemma fold_local_frame:
  "ho_id (fold add_or_update_local_host ls h) = ho_id h \<and> ho_subnet_id (fold add_or_update_local_host ls h) = ho_subnet_id h \<and>
     ho_identifiers (fold add_or_update_local_host ls h) = ho_identifiers h"
  by (induction ls arbitrary: h) (simp_all add: add_or_update_local_host_def)

lemma fold_local_keys:
  "distinct (map local_key (ho_local_hosts h)) \<Longrightarrow>
     distinct (map local_key (ho_local_hosts (fold add_or_update_local_host ls h)))"
  by (induction ls arbitrary: h) (auto simp: put_local_keys)

lemma join_value:
  assumes "distinct (map local_key (ho_local_hosts n))" and "host_is_same h n"
  obtains j where "host_join h n = (True, j)" "ho_id j = ho_id h" "ho_identifiers j = ho_identifiers h"
    "\<And>k. local_at (ho_local_hosts j) k = (case local_at (ho_local_hosts n) k of Some l \<Rightarrow> Some l | None \<Rightarrow> local_at (ho_local_hosts h) k)"
proof
  let ?j = "fold add_or_update_local_host (ho_local_hosts n) h"
  show "host_join h n = (True, ?j)" using assms(2) by (simp add: host_join_def)
  show "ho_id ?j = ho_id h" "ho_identifiers ?j = ho_identifiers h" by (simp_all add: fold_local_frame)
  show "local_at (ho_local_hosts ?j) k = (case local_at (ho_local_hosts n) k of Some l \<Rightarrow> Some l | None \<Rightarrow> local_at (ho_local_hosts h) k)" for k
    by (simp add: fold_local_at local_at_rev [OF assms(1)])
qed

text \<open>
  How a list of existing hosts may change: each keeps its number and identifiers, and no local
  host of a daemon and source goes away.
\<close>

definition keeps :: "host \<Rightarrow> host \<Rightarrow> bool" where
  "keeps h j = (ho_id j = ho_id h \<and> ho_identifiers j = ho_identifiers h \<and>
     (\<forall>k. local_at (ho_local_hosts h) k \<noteq> None \<longrightarrow> local_at (ho_local_hosts j) k \<noteq> None))"

lemma keeps_refl [simp]: "keeps h h" by (simp add: keeps_def)

lemma keeps_trans: "keeps h j \<Longrightarrow> keeps j i \<Longrightarrow> keeps h i" by (simp add: keeps_def)

lemma keeps_same: "keeps h j \<Longrightarrow> host_is_same j n = host_is_same h n"
  by (simp add: keeps_def host_is_same_def has_identifier_def)

definition result_for :: "host list \<Rightarrow> host \<Rightarrow> host \<Rightarrow> bool" where
  "result_for existing n r =
     ((case find (\<lambda>h. host_is_same h n) existing of None \<Rightarrow> r = n | Some h \<Rightarrow> keeps h r) \<and>
      (\<forall>k l. local_at (ho_local_hosts n) k = Some l \<longrightarrow> local_at (ho_local_hosts r) k = Some l))"

lemma join_first_value:
  assumes "distinct (map local_key (ho_local_hosts n))"
  shows "case join_first n hs of (r, hs') \<Rightarrow> result_for hs n r \<and> list_all2 keeps hs hs'"
proof (induction hs)
  case (Cons h hs)
  show ?case
  proof (cases "host_is_same h n")
    case True
    from join_value [OF assms this] obtain j where j: "host_join h n = (True, j)" "ho_id j = ho_id h" "ho_identifiers j = ho_identifiers h"
      "\<And>k. local_at (ho_local_hosts j) k = (case local_at (ho_local_hosts n) k of Some l \<Rightarrow> Some l | None \<Rightarrow> local_at (ho_local_hosts h) k)"
      by metis
    have "keeps h j" unfolding keeps_def j by (simp split: option.split)
    then show ?thesis using True by (simp add: j(1) j(4) result_for_def list.rel_refl)
  next
    case False
    then have "host_join h n = (False, h)" by (simp add: host_join_def)
    with Cons False show ?thesis by (cases "join_first n hs") (simp add: result_for_def)
  qed
qed (simp add: result_for_def)

lemma result_for_kept:
  assumes "list_all2 keeps hs hs'" and "result_for hs' n r"
  shows "result_for hs n r"
proof -
  have "case find (\<lambda>h. host_is_same h n) hs of None \<Rightarrow> find (\<lambda>h. host_is_same h n) hs' = None
    | Some h \<Rightarrow> \<exists>j. find (\<lambda>h. host_is_same h n) hs' = Some j \<and> keeps h j"
    using assms(1) by (induction rule: list_all2_induct) (auto simp: keeps_same split: option.split)
  with assms(2) show ?thesis by (auto simp: result_for_def split: option.splits intro: keeps_trans)
qed

lemma override_value:
  assumes "\<forall>n \<in> set ns. distinct (map local_key (ho_local_hosts n))"
  shows "list_all2 (result_for hs) ns (override_hosts hs ns)"
  using assms
proof (induction ns arbitrary: hs)
  case (Cons n ns)
  obtain r hs' where r: "join_first n hs = (r, hs')" by (cases "join_first n hs")
  with join_first_value [of n hs] Cons.prems have k: "result_for hs n r" "list_all2 keeps hs hs'" by simp_all
  have "list_all2 (result_for hs') ns (override_hosts hs' ns)" using Cons by simp
  then have "list_all2 (result_for hs) ns (override_hosts hs' ns)"
    by (rule list_all2_mono) (rule result_for_kept [OF k(2)])
  with r k show ?case by simp
qed simp

text \<open>
  New hosts are merged into the existing ones: there is one result for each new host; it
  has the local hosts of the new host, and if there is an existing host with the same
  identifiers then it is the first of these, with its number, its identifiers and at least its
  local hosts; otherwise the new host itself.  Two hosts without repeated types of identifiers
  are the same if and only if they have the same identifiers, in any order.  (The new hosts are
  taken to be different: two equal ones would share the slice of local hosts of the existing
  host, and the code would change the first result with the second.)
\<close>

theorem new_hosts_merged:
  assumes "\<forall>n \<in> set new. distinct (map local_key (ho_local_hosts n)) \<and> distinct (identifier_types n)"
    and "\<forall>h \<in> set existing. distinct (identifier_types h)"
    and "distinct (map (\<lambda>n. set (ho_identifiers n)) new)"
  shows "list_all2 (\<lambda>n r.
      (\<forall>k l. local_at (ho_local_hosts n) k = Some l \<longrightarrow> local_at (ho_local_hosts r) k = Some l) \<and>
      (case find (\<lambda>h. set (ho_identifiers h) = set (ho_identifiers n)) existing of
         None \<Rightarrow> r = n
       | Some h \<Rightarrow> ho_id r = ho_id h \<and> ho_identifiers r = ho_identifiers h \<and>
           (\<forall>k. local_at (ho_local_hosts h) k \<noteq> None \<longrightarrow> local_at (ho_local_hosts r) k \<noteq> None)))
    new (override_hosts existing new)"
proof -
  have v: "list_all2 (result_for existing) new (override_hosts existing new)" using assms(1) by (intro override_value) blast
  have f: "find (\<lambda>h. host_is_same h n) existing = find (\<lambda>h. set (ho_identifiers h) = set (ho_identifiers n)) existing"
    if "n \<in> set new" for n
    using assms that by (intro find_cong refl) (simp add: same_hosts_iff)
  show ?thesis
  proof (rule list_all2_all_nthI)
    show "length new = length (override_hosts existing new)" using v by (rule list_all2_lengthD)
  next
    fix i assume i: "i < length new"
    then have "result_for existing (new ! i) (override_hosts existing new ! i)" using v by (rule list_all2_nthD [rotated])
    with f [OF nth_mem [OF i]] show "(\<forall>k l. local_at (ho_local_hosts (new ! i)) k = Some l \<longrightarrow>
        local_at (ho_local_hosts (override_hosts existing new ! i)) k = Some l) \<and>
      (case find (\<lambda>h. set (ho_identifiers h) = set (ho_identifiers (new ! i))) existing of
         None \<Rightarrow> override_hosts existing new ! i = new ! i
       | Some h \<Rightarrow> ho_id (override_hosts existing new ! i) = ho_id h \<and> ho_identifiers (override_hosts existing new ! i) = ho_identifiers h \<and>
           (\<forall>k. local_at (ho_local_hosts h) k \<noteq> None \<longrightarrow> local_at (ho_local_hosts (override_hosts existing new ! i)) k \<noteq> None))"
      by (auto simp: result_for_def keeps_def split: option.splits)
  qed
qed

definition sample_local :: "int \<Rightarrow> string \<Rightarrow> local_host" where
  "sample_local d source = \<lparr>lh_daemon_id = d, lh_data_source = source, lh_options = [], lh_options_hash = [],
     lh_client_classes = [], lh_next_server = [], lh_server_hostname = [], lh_boot_file_name = [], lh_hostname = ''printer'',
     lh_ip_reservations = [''192.0.2.1'']\<rparr>"

definition sample_host :: "int \<Rightarrow> int \<Rightarrow> string \<Rightarrow> host" where
  "sample_host i d source = \<lparr>ho_id = i, ho_subnet_id = 0, ho_subnet = None,
     ho_identifiers = [\<lparr>hi_type = ''hw-address'', hi_value = [1, 2]\<rparr>], ho_local_hosts = [sample_local d source]\<rparr>"

theorem new_hosts_merged_witness:
  "ho_id (hd (override_hosts [sample_host 7 1 data_source_config] [sample_host 0 2 data_source_api])) = 7 \<and>
   length (override_hosts [sample_host 7 1 data_source_config] [sample_host 0 2 data_source_api]) = 1"
proof -
  have "\<forall>n \<in> set [sample_host 0 2 data_source_api]. distinct (map local_key (ho_local_hosts n)) \<and> distinct (identifier_types n)"
    "\<forall>h \<in> set [sample_host 7 1 data_source_config]. distinct (identifier_types h)"
    "distinct (map (\<lambda>n. set (ho_identifiers n)) [sample_host 0 2 data_source_api])"
    by (simp_all add: sample_host_def identifier_types_def)
  from new_hosts_merged [OF this] show ?thesis
    by (auto simp: list_all2_Cons1 sample_host_def)
qed

end
