(* ===== verification/Kea_Commands.thy ===== *)
theory Kea_Commands
  imports Kea_Config
begin

text \<open>
  Commands to Kea and the errors of its responses: \<open>appctrl/kea/keacommand.go\<close>,
  \<open>appctrl/kea/hostcmds.go\<close> and \<open>appctrl/kea/leasecmds.go\<close>.  A command has its arguments as a map;
  writing it as JSON is the library's.
\<close>

section \<open>Commands\<close>

datatype command_argument = ArgInt int | ArgText string

record command =
  cm_command :: string
  cm_daemons :: "string list"
  cm_arguments :: "string \<rightharpoonup> command_argument"

definition new_command_base :: "string \<Rightarrow> string list \<Rightarrow> command" where
  "new_command_base name daemons = \<lparr>cm_command = name, cm_daemons = daemons, cm_arguments = Map.empty\<rparr>"

definition with_argument :: "string \<Rightarrow> command_argument \<Rightarrow> command \<Rightarrow> command" where
  "with_argument name value c = c\<lparr>cm_arguments := (cm_arguments c)(name \<mapsto> value)\<rparr>"

definition new_command_reservation_get_page :: "int \<Rightarrow> int \<Rightarrow> int \<Rightarrow> int \<Rightarrow> string list \<Rightarrow> command" where
  "new_command_reservation_get_page local_subnet_id source_index from1 limit daemons =
     (let c = with_argument ''limit'' (ArgInt limit)
                (with_argument ''subnet-id'' (ArgInt local_subnet_id) (new_command_base ''reservation-get-page'' daemons));
          c = (if from1 > 0 then with_argument ''from'' (ArgInt from1) c else c)
      in if source_index > 0 then with_argument ''source-index'' (ArgInt source_index) c else c)"

definition new_command_lease4_get :: "string \<Rightarrow> string list \<Rightarrow> command" where
  "new_command_lease4_get ip_address daemons =
     with_argument ''ip-address'' (ArgText ip_address) (new_command_base ''lease4-get'' daemons)"

definition new_command_lease6_get :: "string \<Rightarrow> string \<Rightarrow> string list \<Rightarrow> command" where
  "new_command_lease6_get lease_type ip_address daemons =
     with_argument ''ip-address'' (ArgText ip_address)
       (with_argument ''type'' (ArgText lease_type) (new_command_base ''lease6-get'' daemons))"

section \<open>Responses\<close>

definition response_success :: int where "response_success = 0"
definition response_error :: int where "response_error = 1"
definition response_command_unsupported :: int where "response_command_unsupported = 2"
definition response_empty :: int where "response_empty = 3"
definition response_conflict :: int where "response_conflict = 4"

record response_header =
  rh_result :: int
  rh_text :: string
  rh_daemon :: string

datatype kea_error = UnsupportedOperation int string | NumberOverflow int string
  | ConnectivityIssue int string | OtherKeaError int string

definition new_kea_error :: "int \<Rightarrow> string \<Rightarrow> kea_error option" where
  "new_kea_error result1 text1 =
     (if result1 = response_success \<or> result1 = response_empty then None
      else if result1 = response_command_unsupported then Some (UnsupportedOperation result1 text1)
      else if strings_contains text1 ''Number overflow'' then Some (NumberOverflow result1 text1)
      else if strings_contains text1 ''server is likely to be offline'' then Some (ConnectivityIssue result1 text1)
      else Some (OtherKeaError result1 text1))"

definition get_error :: "response_header \<Rightarrow> kea_error option" where
  "get_error h = new_kea_error (rh_result h) (rh_text h)"

text \<open>The older check of a response, which lets a conflict pass.\<close>

definition get_response_error :: "response_header \<Rightarrow> string option" where
  "get_response_error h =
     (if rh_result h = response_error \<or> rh_result h = response_command_unsupported then
        Some ((if rh_result h = response_command_unsupported then ''unsupported command'' else ''error'') @
          '' status ('' @ int_str (rh_result h) @ '') returned by '' @
          (if length (rh_daemon h) > 0 then ''Kea '' @ rh_daemon h @ '' daemon'' else ''Kea'') @
          '' with text: '' @ [CHR 0x27] @ rh_text h @ [CHR 0x27])
      else None)"

lemma get_error_None [simp]: "get_error h = None \<longleftrightarrow> rh_result h = response_success \<or> rh_result h = response_empty"
  by (simp add: get_error_def new_kea_error_def)

end
