(* ===== verification/Hosts_Puller.thy ===== *)
theory Hosts_Puller
  imports Hosts Kea_Commands
begin

text \<open>
  The puller of host reservations: \<open>server/apps/kea/host.go\<close>.  An iterator asks a daemon for its
  reservations page by page; the pages are compared by hashes with those of the last pull, and
  only when one has changed the hosts are written, in a transaction.  The agents are a function
  \<open>forward\<close> on a state of their own, the database is a record of functions on its state.
\<close>

section \<open>Agents and database\<close>

record page_args =
  pg_hosts :: "reservation list"
  pg_from :: int
  pg_source_index :: int

text \<open>A failure to send, or the first error of the sending and the list of responses.\<close>

type_synonym page_reply = "string + (string option \<times> (response_header \<times> page_args option) list)"

type_synonym 'k agents = "command \<Rightarrow> 'k \<Rightarrow> page_reply \<times> 'k"

text \<open>A subnet with its local subnets: the daemon, when it is known, and the identifier in Kea.\<close>

record pull_subnet =
  ps_id :: int
  ps_local_subnets :: "(int option \<times> int) list"

record 'db hosts_store =
  st_subnets :: "int \<Rightarrow> 'db \<Rightarrow> string + pull_subnet list"
  st_begin :: "'db \<Rightarrow> string option"
  st_commit :: "'db \<Rightarrow> string option"
  st_delete_daemon :: "int \<Rightarrow> string \<Rightarrow> 'db \<Rightarrow> string + 'db"
  st_get_hosts :: "int \<Rightarrow> 'db \<Rightarrow> string + host list"
  st_add_host :: "host \<Rightarrow> 'db \<Rightarrow> string + 'db"
  st_update_host :: "host \<Rightarrow> 'db \<Rightarrow> string + 'db"
  st_delete_orphans :: "'db \<Rightarrow> string + 'db"

record pull_daemon =
  pd_id :: int
  pd_name :: string
  pd_active :: bool
  pd_is_dhcp :: bool
  pd_config :: "config option"

datatype pull_error = SendFailed string | FirstError string | NoResponse | KeaFailed kea_error | LacksArguments
  | LacksConfiguration int | DatabaseError string

section \<open>The iterator\<close>

record trace_response =
  tr_hash :: string
  tr_subnet_index :: int
  tr_hosts :: "reservation list"

type_synonym host_trace = "trace_response list"

definition has_equal_hashes :: "host_trace \<Rightarrow> host_trace \<Rightarrow> bool" where
  "has_equal_hashes trace other =
     (length trace \<le> length other \<and> list_all (\<lambda>i. tr_hash (trace ! i) = tr_hash (other ! i)) (rev [0..<length trace]))"

record host_iterator =
  it_limit :: int
  it_from :: int
  it_source_index :: int
  it_subnets :: "pull_subnet list"
  it_subnet_index :: int
  it_trace :: host_trace

definition new_host_iterator :: "int \<Rightarrow> host_iterator" where
  "new_host_iterator limit =
     \<lparr>it_limit = limit, it_from = 0, it_source_index = 1, it_subnets = [], it_subnet_index = -1, it_trace = []\<rparr>"

definition get_subnet :: "host_iterator \<Rightarrow> int \<Rightarrow> pull_subnet option" where
  "get_subnet it i = (if i < 0 \<or> i \<ge> int (length (it_subnets it)) then None else Some (it_subnets it ! nat i))"

definition get_current_subnet :: "host_iterator \<Rightarrow> pull_subnet option" where
  "get_current_subnet it = get_subnet it (it_subnet_index it)"

text \<open>The identifier of the subnet in the daemon, zero for the global reservations.\<close>

definition local_subnet_id :: "pull_daemon \<Rightarrow> pull_subnet option \<Rightarrow> int" where
  "local_subnet_id d s =
     (case s of
        None \<Rightarrow> 0
      | Some s \<Rightarrow> (case find (\<lambda>(daemon, i). daemon = Some (pd_id d)) (ps_local_subnets s) of
                    None \<Rightarrow> 0 | Some (daemon, i) \<Rightarrow> i))"

definition page_command :: "pull_daemon \<Rightarrow> host_iterator \<Rightarrow> command" where
  "page_command d it =
     new_command_reservation_get_page (local_subnet_id d (get_current_subnet it)) (it_source_index it) (it_from it)
       (it_limit it) [pd_name d]"

definition send_reservation_get_page ::
    "'k agents \<Rightarrow> pull_daemon \<Rightarrow> host_iterator \<Rightarrow> 'k \<Rightarrow> (pull_error + reservation list \<times> int \<times> host_iterator) \<times> 'k" where
  "send_reservation_get_page forward d it k =
     (case forward (page_command d it) k of
        (Inl e, k) \<Rightarrow> (Inl (SendFailed e), k)
      | (Inr (Some e, rs), k) \<Rightarrow> (Inl (FirstError e), k)
      | (Inr (None, []), k) \<Rightarrow> (Inl NoResponse, k)
      | (Inr (None, (header, args) # rs), k) \<Rightarrow>
          (case get_error header of
             Some (UnsupportedOperation r t) \<Rightarrow> (Inr ([], response_command_unsupported, it), k)
           | Some e \<Rightarrow> (Inl (KeaFailed e), k)
           | None \<Rightarrow>
               (case args of
                  None \<Rightarrow> (Inl LacksArguments, k)
                | Some a \<Rightarrow> (Inr (pg_hosts a, rh_result header, it\<lparr>it_from := pg_from a, it_source_index := pg_source_index a\<rparr>), k))))"

text \<open>The subnets from the current one on, until one has a page; \<open>n\<close> of them are left.\<close>

fun page_loop ::
    "nat \<Rightarrow> 'k agents \<Rightarrow> (reservation list \<Rightarrow> string) \<Rightarrow> pull_daemon \<Rightarrow> host_iterator \<Rightarrow> 'k \<Rightarrow>
     (pull_error + reservation list \<times> bool \<times> host_iterator) \<times> 'k" where
  "page_loop 0 forward hash d it k = (Inr ([], True, it), k)"
| "page_loop (Suc n) forward hash d it k =
     (case send_reservation_get_page forward d it k of
        (Inl e, k) \<Rightarrow> (Inl e, k)
      | (Inr (hosts, result1, it), k) \<Rightarrow>
          if result1 = response_command_unsupported then (Inr (hosts, True, it), k)
          else if length hosts = 0 then
            page_loop n forward hash d
              (it\<lparr>it_from := 0, it_source_index := 1, it_subnet_index := it_subnet_index it + 1\<rparr>) k
          else (Inr (hosts, False, it\<lparr>it_trace := it_trace it @
                 [\<lparr>tr_hash = hash hosts, tr_subnet_index = it_subnet_index it, tr_hosts = hosts\<rparr>]\<rparr>), k))"

definition get_page_from_host_cmds ::
    "'k agents \<Rightarrow> (int \<Rightarrow> string + pull_subnet list) \<Rightarrow> (reservation list \<Rightarrow> string) \<Rightarrow> pull_daemon \<Rightarrow> host_iterator \<Rightarrow> 'k \<Rightarrow>
     (pull_error + reservation list \<times> bool \<times> host_iterator) \<times> 'k" where
  "get_page_from_host_cmds forward subnets hash d it k =
     (case (if length (it_subnets it) = 0 then subnets (pd_id d) else Inr (it_subnets it)) of
        Inl e \<Rightarrow> (Inl (DatabaseError e), k)
      | Inr ss \<Rightarrow>
          page_loop (nat (int (length ss) - it_subnet_index it)) forward hash d (it\<lparr>it_subnets := ss\<rparr>) k)"

section \<open>Writing the hosts\<close>

fun commit_hosts_into_db :: "'db hosts_store \<Rightarrow> int \<Rightarrow> host list \<Rightarrow> 'db \<Rightarrow> string + 'db" where
  "commit_hosts_into_db st sid [] db = Inr db"
| "commit_hosts_into_db st sid (h # hs) db =
     (let h = h\<lparr>ho_subnet_id := sid\<rparr> in
      case (if ho_id h = 0 then st_add_host st h db else st_update_host st h db) of
        Inl e \<Rightarrow> Inl e
      | Inr db \<Rightarrow> commit_hosts_into_db st sid hs db)"

definition override_into_database_hosts :: "'db hosts_store \<Rightarrow> int \<Rightarrow> host list \<Rightarrow> 'db \<Rightarrow> string + host list" where
  "override_into_database_hosts st sid new db =
     (if length new = 0 then Inr []
      else (case st_get_hosts st sid db of
              Inl e \<Rightarrow> Inl e
            | Inr existing \<Rightarrow> Inr (override_hosts existing new)))"

text \<open>\<open>convert\<close> makes a host of a reservation; reservations that fail are left out.\<close>

fun converted_hosts :: "(reservation \<Rightarrow> host_error + host) \<Rightarrow> pull_subnet option \<Rightarrow> reservation list \<Rightarrow> host list" where
  "converted_hosts convert s [] = []"
| "converted_hosts convert s (r # rs) =
     (case convert r of
        Inl e \<Rightarrow> converted_hosts convert s rs
      | Inr h \<Rightarrow> (case s of None \<Rightarrow> h | Some s \<Rightarrow> h\<lparr>ho_subnet_id := ps_id s\<rparr>) # converted_hosts convert s rs)"

definition convert_and_update_hosts ::
    "(reservation \<Rightarrow> host_error + host) \<Rightarrow> 'db hosts_store \<Rightarrow> pull_subnet option \<Rightarrow> reservation list \<Rightarrow> 'db \<Rightarrow> string + 'db" where
  "convert_and_update_hosts convert st s rs db =
     (let sid = (case s of None \<Rightarrow> 0 | Some s \<Rightarrow> ps_id s) in
      case override_into_database_hosts st sid (converted_hosts convert s rs) db of
        Inl e \<Rightarrow> Inl e
      | Inr hosts \<Rightarrow> commit_hosts_into_db st sid hosts db)"

section \<open>Pulling\<close>

fun update_cached ::
    "(pull_subnet option \<Rightarrow> reservation list \<Rightarrow> 'db \<Rightarrow> string + 'db) \<Rightarrow> host_iterator \<Rightarrow> host_trace \<Rightarrow> 'db \<Rightarrow> string + 'db" where
  "update_cached update it [] db = Inr db"
| "update_cached update it (t # ts) db =
     (case update (get_subnet it (tr_subnet_index t)) (tr_hosts t) db of
        Inl e \<Rightarrow> Inl e
      | Inr db \<Rightarrow> update_cached update it ts db)"

text \<open>
  A page: nothing is done while all pages are as in the last pull; the first other one begins
  the transaction, which writes the pages received so far, and then the page itself.
\<close>

definition start_transaction ::
    "'db hosts_store \<Rightarrow> (pull_subnet option \<Rightarrow> reservation list \<Rightarrow> 'db \<Rightarrow> string + 'db) \<Rightarrow> pull_daemon \<Rightarrow> host_iterator \<Rightarrow>
     'db \<Rightarrow> string + 'db" where
  "start_transaction st update d it db =
     (case st_begin st db of
        Some e \<Rightarrow> Inl e
      | None \<Rightarrow>
          (case st_delete_daemon st (pd_id d) data_source_api db of
             Inl e \<Rightarrow> Inl e
           | Inr db \<Rightarrow> update_cached update it (it_trace it) db))"

definition process_page ::
    "'db hosts_store \<Rightarrow> (pull_subnet option \<Rightarrow> reservation list \<Rightarrow> 'db \<Rightarrow> string + 'db) \<Rightarrow> pull_daemon \<Rightarrow> host_trace option \<Rightarrow>
     host_iterator \<Rightarrow> reservation list \<Rightarrow> 'db \<Rightarrow> 'db option \<Rightarrow> string + 'db option" where
  "process_page st update d old it rs db tx =
     (if length rs = 0 then Inr tx
      else if (case old of None \<Rightarrow> False | Some t \<Rightarrow> has_equal_hashes (it_trace it) t) then Inr tx
      else (case (case tx of None \<Rightarrow> start_transaction st update d it db | Some t \<Rightarrow> Inr t) of
              Inl e \<Rightarrow> Inl e
            | Inr t \<Rightarrow> (case update (get_current_subnet it) rs t of Inl e \<Rightarrow> Inl e | Inr t \<Rightarrow> Inr (Some t))))"

text \<open>The pages, until the last one; a daemon that goes on sending pages uses up the fuel.\<close>

fun pull_loop ::
    "nat \<Rightarrow> 'k agents \<Rightarrow> 'db hosts_store \<Rightarrow> (reservation list \<Rightarrow> string) \<Rightarrow>
     (pull_subnet option \<Rightarrow> reservation list \<Rightarrow> 'db \<Rightarrow> string + 'db) \<Rightarrow> pull_daemon \<Rightarrow> host_trace option \<Rightarrow> 'db \<Rightarrow>
     host_iterator \<Rightarrow> 'db option \<Rightarrow> 'k \<Rightarrow> ((pull_error + host_iterator \<times> 'db option) \<times> 'k) option" where
  "pull_loop 0 forward st hash update d old db it tx k = None"
| "pull_loop (Suc fuel) forward st hash update d old db it tx k =
     (case get_page_from_host_cmds forward (\<lambda>i. st_subnets st i db) hash d it k of
        (Inl e, k) \<Rightarrow> Some (Inl e, k)
      | (Inr (rs, done1, it), k) \<Rightarrow>
          (case process_page st update d old it rs db tx of
             Inl e \<Rightarrow> Some (Inl (DatabaseError e), k)
           | Inr tx \<Rightarrow>
               if done1 then Some (Inr (it, tx), k)
               else pull_loop fuel forward st hash update d old db it tx k))"

text \<open>What a pull leaves behind: the database, the traces, and the daemons whose review was begun.\<close>

record 'db pull_state =
  pu_db :: 'db
  pu_traces :: "int \<rightharpoonup> host_trace"
  pu_reviews :: "int list"

datatype pull_outcome = Pulled | Skipped | Erred pull_error

definition default_host_cmds_page_limit :: int where "default_host_cmds_page_limit = 1000"

definition pull_from_daemon ::
    "nat \<Rightarrow> 'k agents \<Rightarrow> 'db hosts_store \<Rightarrow> (reservation list \<Rightarrow> string) \<Rightarrow> (pull_daemon \<Rightarrow> reservation \<Rightarrow> host_error + host) \<Rightarrow>
     pull_daemon \<Rightarrow> 'db pull_state \<Rightarrow> 'k \<Rightarrow> (pull_outcome \<times> 'db pull_state \<times> 'k) option" where
  "pull_from_daemon fuel forward st hash convert d s k =
     (if \<not> pd_active d then Some (Skipped, s, k)
      else (case pd_config d of
        None \<Rightarrow> Some (Erred (LacksConfiguration (pd_id d)), s, k)
      | Some c \<Rightarrow>
          if \<not> has_hook_library c ''libdhcp_host_cmds'' then Some (Skipped, s, k)
          else (case pull_loop fuel forward st hash (convert_and_update_hosts (convert d) st) d (pu_traces s (pd_id d)) (pu_db s)
                       (new_host_iterator default_host_cmds_page_limit) None k of
                  None \<Rightarrow> None
                | Some (Inl e, k) \<Rightarrow> Some (Erred e, s, k)
                | Some (Inr (it, tx), k) \<Rightarrow>
                    (let trace = map (\<lambda>t. t\<lparr>tr_hosts := []\<rparr>) (it_trace it) in
                     case tx of
                       None \<Rightarrow> Some (Pulled, s\<lparr>pu_traces := (pu_traces s)(pd_id d \<mapsto> trace)\<rparr>, k)
                     | Some t \<Rightarrow>
                         (case st_commit st t of
                            Some e \<Rightarrow> Some (Erred (DatabaseError e), s, k)
                          | None \<Rightarrow> Some (Pulled,
                              s\<lparr>pu_db := t, pu_reviews := pu_reviews s @ [pd_id d],
                                pu_traces := (pu_traces s)(pd_id d \<mapsto> trace)\<rparr>, k))))))"

text \<open>An app, with the counts of daemons that were pulled, skipped and failed; then all apps.\<close>

fun pull_from_app ::
    "(pull_daemon \<Rightarrow> 's \<Rightarrow> 'k \<Rightarrow> (pull_outcome \<times> 's \<times> 'k) option) \<Rightarrow> pull_daemon list \<Rightarrow> nat \<times> nat \<times> nat \<Rightarrow> 's \<Rightarrow> 'k \<Rightarrow>
     ((nat \<times> nat \<times> nat) \<times> 's \<times> 'k) option" where
  "pull_from_app pull [] counts s k = Some (counts, s, k)"
| "pull_from_app pull (d # ds) (successes, skips, errors) s k =
     (if \<not> pd_is_dhcp d then pull_from_app pull ds (successes, skips, errors) s k
      else (case pull d s k of
              None \<Rightarrow> None
            | Some (Erred e, s, k) \<Rightarrow> pull_from_app pull ds (successes, skips, errors + 1) s k
            | Some (Skipped, s, k) \<Rightarrow> pull_from_app pull ds (successes, skips + 1, errors) s k
            | Some (Pulled, s, k) \<Rightarrow> pull_from_app pull ds (successes + 1, skips, errors) s k))"

definition pull_hosts ::
    "nat \<Rightarrow> 'k agents \<Rightarrow> 'db hosts_store \<Rightarrow> (reservation list \<Rightarrow> string) \<Rightarrow> (pull_daemon \<Rightarrow> reservation \<Rightarrow> host_error + host) \<Rightarrow>
     string + pull_daemon list list \<Rightarrow> 'db pull_state \<Rightarrow> 'k \<Rightarrow> ((string + nat \<times> nat \<times> nat) \<times> 'db pull_state \<times> 'k) option" where
  "pull_hosts fuel forward st hash convert apps s k =
     (case apps of
        Inl e \<Rightarrow> Some (Inl e, s, k)
      | Inr apps \<Rightarrow>
          (case pull_from_app (pull_from_daemon fuel forward st hash convert) (concat apps) (0, 0, 0) s k of
             None \<Rightarrow> None
           | Some (counts, s, k) \<Rightarrow>
               (case st_delete_orphans st (pu_db s) of
                  Inl e \<Rightarrow> Some (Inl e, s, k)
                | Inr db \<Rightarrow> Some (Inr counts, s\<lparr>pu_db := db\<rparr>, k))))"

end
