(* ===== verification/Hosts_Puller_Correct.thy ===== *)
theory Hosts_Puller_Correct
  imports Hosts_Puller Kea_Config_Correct
begin

text \<open>
  What the puller of hosts does with a daemon that sends its reservations page by page, as Kea
  documents it: every page is seen once and in order, nothing is written while the hashes are
  those of the last pull, and everything otherwise.  A pull that receives fewer pages than the
  last one, with the same hashes, writes nothing, so the hosts that are gone stay.
\<close>

section \<open>A daemon with pages\<close>

text \<open>
  The documented use of \<open>reservation-get-page\<close>: it is started at \<open>from\<close> zero and \<open>source-index\<close>
  one, every response has the position of the next page, and after the last page comes an
  empty one.  \<open>pages\<close> are those of a subnet in the daemon, \<open>cursor\<close> their positions.
\<close>

definition kea_pages ::
    "'k agents \<Rightarrow> pull_daemon \<Rightarrow> (int \<Rightarrow> reservation list list) \<Rightarrow> (int \<Rightarrow> nat \<Rightarrow> int \<times> int) \<Rightarrow> bool" where
  "kea_pages forward d pages cursor \<longleftrightarrow>
     (\<forall>sid k. cursor sid 0 = (0, 1) \<and> [] \<notin> set (pages sid) \<and>
        (\<forall>i \<le> length (pages sid). \<exists>hdr a. get_error hdr = None \<and>
           forward (new_command_reservation_get_page sid (snd (cursor sid i)) (fst (cursor sid i))
                      default_host_cmds_page_limit [pd_name d]) k = (Inr (None, [(hdr, Some a)]), k) \<and>
           pg_hosts a = (if i < length (pages sid) then pages sid ! i else []) \<and>
           (i < length (pages sid) \<longrightarrow> (pg_from a, pg_source_index a) = cursor sid (Suc i))))"

definition subnet_at :: "pull_subnet list \<Rightarrow> int \<Rightarrow> pull_subnet option" where
  "subnet_at ss a = (if a < 0 \<or> a \<ge> int (length ss) then None else Some (ss ! nat a))"

text \<open>The pages of the global reservations, then of each subnet; each with its index.\<close>

fun later_pages :: "pull_daemon \<Rightarrow> pull_subnet list \<Rightarrow> (int \<Rightarrow> reservation list list) \<Rightarrow> nat \<Rightarrow> int \<Rightarrow> (int \<times> reservation list) list" where
  "later_pages d ss pages 0 a = []"
| "later_pages d ss pages (Suc n) a =
     map (Pair a) (pages (local_subnet_id d (subnet_at ss a))) @ later_pages d ss pages n (a + 1)"

definition all_pages :: "pull_daemon \<Rightarrow> pull_subnet list \<Rightarrow> (int \<Rightarrow> reservation list list) \<Rightarrow> (int \<times> reservation list) list" where
  "all_pages d ss pages = later_pages d ss pages (length ss + 1) (-1)"

definition page_response :: "(reservation list \<Rightarrow> string) \<Rightarrow> int \<times> reservation list \<Rightarrow> trace_response" where
  "page_response hash p = \<lparr>tr_hash = hash (snd p), tr_subnet_index = fst p, tr_hosts = snd p\<rparr>"

section \<open>The iterator\<close>

text \<open>The iterator before page \<open>i\<close> of subnet \<open>a\<close>, with \<open>n\<close> subnets after it.\<close>

definition before_page ::
    "pull_daemon \<Rightarrow> pull_subnet list \<Rightarrow> (int \<Rightarrow> reservation list list) \<Rightarrow> (int \<Rightarrow> nat \<Rightarrow> int \<times> int) \<Rightarrow> int \<Rightarrow> nat \<Rightarrow> nat \<Rightarrow> host_iterator \<Rightarrow> bool" where
  "before_page d ss pages cursor a i n it \<longleftrightarrow>
     it_limit it = default_host_cmds_page_limit \<and> it_subnets it = ss \<and> it_subnet_index it = a \<and>
     (it_from it, it_source_index it) = cursor (local_subnet_id d (subnet_at ss a)) i \<and>
     i \<le> length (pages (local_subnet_id d (subnet_at ss a))) \<and> a + int (Suc n) = int (length ss)"

definition pages_left ::
    "pull_daemon \<Rightarrow> pull_subnet list \<Rightarrow> (int \<Rightarrow> reservation list list) \<Rightarrow> int \<Rightarrow> nat \<Rightarrow> nat \<Rightarrow> (int \<times> reservation list) list" where
  "pages_left d ss pages a i n =
     map (Pair a) (drop i (pages (local_subnet_id d (subnet_at ss a)))) @ later_pages d ss pages n (a + 1)"

lemma current_subnet: "before_page d ss pages cursor a i n it \<Longrightarrow> get_current_subnet it = subnet_at ss a"
  by (auto simp: before_page_def get_current_subnet_def get_subnet_def subnet_at_def)

lemma send_page:
  assumes "kea_pages forward d pages cursor" and "before_page d ss pages cursor a i n it"
  obtains r it' where
    "send_reservation_get_page forward d it k =
       (Inr (if i < length (pages (local_subnet_id d (subnet_at ss a))) then pages (local_subnet_id d (subnet_at ss a)) ! i else [], r, it'), k)"
    "r \<noteq> response_command_unsupported" "it_trace it' = it_trace it" "it_subnets it' = ss" "it_subnet_index it' = a"
    "it_limit it' = default_host_cmds_page_limit"
    "i < length (pages (local_subnet_id d (subnet_at ss a))) \<Longrightarrow> before_page d ss pages cursor a (Suc i) n it'"
proof -
  let ?sid = "local_subnet_id d (subnet_at ss a)"
  have it: "it_limit it = default_host_cmds_page_limit" "it_subnets it = ss" "it_subnet_index it = a"
    "it_from it = fst (cursor ?sid i)" "it_source_index it = snd (cursor ?sid i)" "i \<le> length (pages ?sid)"
    "a + int (Suc n) = int (length ss)"
    using assms(2) by (auto simp: before_page_def prod_eq_iff)
  have c: "page_command d it = new_command_reservation_get_page ?sid (snd (cursor ?sid i)) (fst (cursor ?sid i))
      default_host_cmds_page_limit [pd_name d]"
    by (simp add: page_command_def current_subnet [OF assms(2)] it)
  obtain hdr x where x: "get_error hdr = None" "forward (page_command d it) k = (Inr (None, [(hdr, Some x)]), k)"
    "pg_hosts x = (if i < length (pages ?sid) then pages ?sid ! i else [])"
    "i < length (pages ?sid) \<longrightarrow> (pg_from x, pg_source_index x) = cursor ?sid (Suc i)"
    using assms(1) it(6) unfolding kea_pages_def c by blast
  let ?it = "it\<lparr>it_from := pg_from x, it_source_index := pg_source_index x\<rparr>"
  show thesis
  proof (rule that)
    show "send_reservation_get_page forward d it k = (Inr (if i < length (pages ?sid) then pages ?sid ! i else [], rh_result hdr, ?it), k)"
      using x(3) unfolding send_reservation_get_page_def x(2) by (simp add: x(1))
    show "rh_result hdr \<noteq> response_command_unsupported"
      using x(1) by (auto simp: response_success_def response_empty_def response_command_unsupported_def)
    show "before_page d ss pages cursor a (Suc i) n ?it" if "i < length (pages ?sid)"
      using that x(4) it by (simp add: before_page_def)
  qed (simp_all add: it)
qed

lemma page_loop_next:
  assumes "kea_pages forward d pages cursor" and "before_page d ss pages cursor a i n it"
  shows "case pages_left d ss pages a i n of
      [] \<Rightarrow> \<exists>it'. page_loop (Suc n) forward hash d it k = (Inr ([], True, it'), k) \<and> it_trace it' = it_trace it
    | (b, p) # ps \<Rightarrow> \<exists>it' j m. page_loop (Suc n) forward hash d it k = (Inr (p, False, it'), k) \<and>
        it_trace it' = it_trace it @ [page_response hash (b, p)] \<and> before_page d ss pages cursor b j m it' \<and>
        pages_left d ss pages b j m = ps \<and> p \<noteq> []"
  using assms(2)
proof (induction n arbitrary: a i it)
  case (Suc n)
  let ?sid = "local_subnet_id d (subnet_at ss a)"
  from send_page [OF assms(1) Suc.prems, where k = k] obtain r it' where
    s: "send_reservation_get_page forward d it k = (Inr (if i < length (pages ?sid) then pages ?sid ! i else [], r, it'), k)"
      "r \<noteq> response_command_unsupported" "it_trace it' = it_trace it" "it_subnets it' = ss" "it_subnet_index it' = a"
      "it_limit it' = default_host_cmds_page_limit"
    and b: "i < length (pages ?sid) \<Longrightarrow> before_page d ss pages cursor a (Suc i) (Suc n) it'" by metis
  show ?case
  proof (cases "i < length (pages ?sid)")
    case True
    then have ne: "pages ?sid ! i \<noteq> []" using assms(1) unfolding kea_pages_def by (metis nth_mem)
    have l: "pages_left d ss pages a i (Suc n) = (a, pages ?sid ! i) # pages_left d ss pages a (Suc i) (Suc n)"
      by (simp add: pages_left_def Cons_nth_drop_Suc [OF True, symmetric])
    let ?it = "it'\<lparr>it_trace := it_trace it' @ [page_response hash (a, pages ?sid ! i)]\<rparr>"
    have "page_loop (Suc (Suc n)) forward hash d it k = (Inr (pages ?sid ! i, False, ?it), k)"
      using ne True s by (simp add: page_response_def)
    moreover have "before_page d ss pages cursor a (Suc i) (Suc n) ?it" using b [OF True] by (simp add: before_page_def)
    ultimately show ?thesis unfolding l using s(3) ne by auto
  next
    case False
    let ?it = "it'\<lparr>it_from := 0, it_source_index := 1, it_subnet_index := a + 1\<rparr>"
    have z: "cursor sid 0 = (0, 1)" for sid using assms(1) by (simp add: kea_pages_def)
    have "before_page d ss pages cursor (a + 1) 0 n ?it"
      using Suc.prems s z by (simp add: before_page_def)
    note ih = Suc.IH [OF this]
    have l: "pages_left d ss pages a i (Suc n) = pages_left d ss pages (a + 1) 0 n"
      using False Suc.prems by (simp add: pages_left_def before_page_def)
    have eq: "page_loop (Suc (Suc n)) forward hash d it k = page_loop (Suc n) forward hash d ?it k"
      using s False by (subst page_loop.simps) (simp del: page_loop.simps)
    have tr: "it_trace ?it = it_trace it" using s(3) by simp
    show ?thesis using ih unfolding l eq tr .
  qed
next
  case 0
  let ?sid = "local_subnet_id d (subnet_at ss a)"
  from send_page [OF assms(1) 0, where k = k] obtain r it' where
    s: "send_reservation_get_page forward d it k = (Inr (if i < length (pages ?sid) then pages ?sid ! i else [], r, it'), k)"
      "r \<noteq> response_command_unsupported" "it_trace it' = it_trace it"
    and b: "i < length (pages ?sid) \<Longrightarrow> before_page d ss pages cursor a (Suc i) 0 it'" by metis
  show ?case
  proof (cases "i < length (pages ?sid)")
    case True
    then have ne: "pages ?sid ! i \<noteq> []" using assms(1) unfolding kea_pages_def by (metis nth_mem)
    have l: "pages_left d ss pages a i 0 = (a, pages ?sid ! i) # pages_left d ss pages a (Suc i) 0"
      by (simp add: pages_left_def Cons_nth_drop_Suc [OF True, symmetric])
    let ?it = "it'\<lparr>it_trace := it_trace it' @ [page_response hash (a, pages ?sid ! i)]\<rparr>"
    have "page_loop (Suc 0) forward hash d it k = (Inr (pages ?sid ! i, False, ?it), k)"
      using ne True s b [OF True] by (simp add: page_response_def before_page_def)
    moreover have "before_page d ss pages cursor a (Suc i) 0 ?it" using b [OF True] by (simp add: before_page_def)
    ultimately show ?thesis unfolding l using s(3) ne by auto
  next
    case False
    then have "pages_left d ss pages a i 0 = []" by (simp add: pages_left_def)
    then show ?thesis using s False by simp
  qed
qed

section \<open>The pull\<close>

text \<open>
  The pull over the pages still to come, \<open>ds\<close> having come before: \<open>put\<close> stores a page and
  \<open>clear\<close> is the database without the hosts of the daemon.
\<close>

definition unchanged :: "(reservation list \<Rightarrow> string) \<Rightarrow> host_trace option \<Rightarrow> (int \<times> reservation list) list \<Rightarrow> bool" where
  "unchanged hash old ps =
     (case old of None \<Rightarrow> False | Some t \<Rightarrow> map (hash \<circ> snd) ps = take (length ps) (map tr_hash t))"

fun written ::
    "((int \<times> reservation list) list \<Rightarrow> bool) \<Rightarrow> (int \<times> reservation list \<Rightarrow> 'db \<Rightarrow> 'db) \<Rightarrow> 'db \<Rightarrow>
     (int \<times> reservation list) list \<Rightarrow> 'db option \<Rightarrow> (int \<times> reservation list) list \<Rightarrow> 'db option" where
  "written same put clear ds tx [] = tx"
| "written same put clear ds tx (p # ps) =
     written same put clear (ds @ [p])
       (if same (ds @ [p]) then tx
        else Some (put p (case tx of None \<Rightarrow> fold put (ds @ [p]) clear | Some t \<Rightarrow> t))) ps"

lemma has_equal_hashes_iff:
  "has_equal_hashes t u \<longleftrightarrow> map tr_hash t = take (length t) (map tr_hash u)"
proof -
  have "map tr_hash t = take (length t) (map tr_hash u) \<longleftrightarrow>
      length t \<le> length u \<and> (\<forall>i < length t. tr_hash (t ! i) = tr_hash (u ! i))"
    by (subst list_eq_iff_nth_eq) (auto simp: min_def)
  then show ?thesis by (auto simp: has_equal_hashes_def list_all_iff)
qed

lemma unchanged_trace:
  "(case old of None \<Rightarrow> False | Some t \<Rightarrow> has_equal_hashes (map (page_response hash) ps) t) = unchanged hash old ps"
  by (simp add: unchanged_def has_equal_hashes_iff page_response_def comp_def split: option.split)

lemma update_cached_pages:
  assumes "\<And>s rs t. update s rs t = Inr (conv s rs t)"
  shows "update_cached update it (map (page_response hash) ps) t =
      Inr (fold (\<lambda>(a, p). conv (get_subnet it a) p) ps t)"
  by (induction ps arbitrary: t) (auto simp: assms page_response_def)

lemma later_pages_outside:
  "before_page d ss pages cursor a i n it \<Longrightarrow> get_subnet it = subnet_at ss"
  by (simp add: before_page_def get_subnet_def subnet_at_def fun_eq_iff)

text \<open>The iterator at its beginning, when it has no subnets yet, gets them first.\<close>

definition at_page ::
    "pull_daemon \<Rightarrow> pull_subnet list \<Rightarrow> (int \<Rightarrow> reservation list list) \<Rightarrow> (int \<Rightarrow> nat \<Rightarrow> int \<times> int) \<Rightarrow> int \<Rightarrow> nat \<Rightarrow> nat \<Rightarrow> host_iterator \<Rightarrow> bool" where
  "at_page d ss pages cursor a i n it \<longleftrightarrow> (it_subnets it = [] \<or> it_subnets it = ss) \<and>
     before_page d ss pages cursor a i n (it\<lparr>it_subnets := ss\<rparr>)"

lemma get_page_next:
  assumes "kea_pages forward d pages cursor" and "at_page d ss pages cursor a i n it" and "subnets (pd_id d) = Inr ss"
  shows "case pages_left d ss pages a i n of
      [] \<Rightarrow> \<exists>it'. get_page_from_host_cmds forward subnets hash d it k = (Inr ([], True, it'), k) \<and> it_trace it' = it_trace it
    | (b, p) # ps \<Rightarrow> \<exists>it' j m. get_page_from_host_cmds forward subnets hash d it k = (Inr (p, False, it'), k) \<and>
        it_trace it' = it_trace it @ [page_response hash (b, p)] \<and> before_page d ss pages cursor b j m it' \<and>
        pages_left d ss pages b j m = ps \<and> p \<noteq> []"
proof -
  let ?it = "it\<lparr>it_subnets := ss\<rparr>"
  have it: "before_page d ss pages cursor a i n ?it" using assms(2) by (simp add: at_page_def)
  then have n: "nat (int (length ss) - it_subnet_index it) = Suc n" by (simp add: before_page_def nat_eq_iff)
  have g: "(if length (it_subnets it) = 0 then subnets (pd_id d) else Inr (it_subnets it)) = Inr ss"
    using assms(2,3) by (auto simp: at_page_def)
  have eq: "get_page_from_host_cmds forward subnets hash d it k = page_loop (Suc n) forward hash d ?it k"
    unfolding get_page_from_host_cmds_def g sum.case n ..
  have tr: "it_trace ?it = it_trace it" by simp
  show ?thesis using page_loop_next [OF assms(1) it, of hash k] unfolding eq tr .
qed

lemma at_pageI: "before_page d ss pages cursor a i n it \<Longrightarrow> at_page d ss pages cursor a i n it"
  by (simp add: at_page_def before_page_def)

lemma pull_loop_pages:
  assumes kea: "kea_pages forward d pages cursor" and sub: "st_subnets st (pd_id d) db = Inr ss"
    and upd: "\<And>s rs t. update s rs t = Inr (conv s rs t)"
    and st: "st_begin st db = None" "st_delete_daemon st (pd_id d) data_source_api db = Inr clear"
  defines "put \<equiv> \<lambda>(a, p). conv (subnet_at ss a) p"
  assumes "at_page d ss pages cursor a i n it" and "it_trace it = map (page_response hash) ds"
    and "length (pages_left d ss pages a i n) < fuel"
  shows "\<exists>it'. pull_loop fuel forward st hash update d old db it tx k =
      Some (Inr (it', written (unchanged hash old) put clear ds tx (pages_left d ss pages a i n)), k) \<and>
    it_trace it' = map (page_response hash) (ds @ pages_left d ss pages a i n)"
  using assms(7-9)
proof (induction fuel arbitrary: a i n it ds tx)
  case (Suc fuel)
  have page: "case pages_left d ss pages a i n of
      [] \<Rightarrow> \<exists>it'. get_page_from_host_cmds forward (\<lambda>i. st_subnets st i db) hash d it k = (Inr ([], True, it'), k) \<and> it_trace it' = it_trace it
    | (b, p) # ps \<Rightarrow> \<exists>it' j m. get_page_from_host_cmds forward (\<lambda>i. st_subnets st i db) hash d it k = (Inr (p, False, it'), k) \<and>
        it_trace it' = it_trace it @ [page_response hash (b, p)] \<and> before_page d ss pages cursor b j m it' \<and>
        pages_left d ss pages b j m = ps \<and> p \<noteq> []"
    by (rule get_page_next [OF kea Suc.prems(1)]) (rule sub)
  show ?case
  proof (cases "pages_left d ss pages a i n")
    case Nil
    with page obtain it' where "get_page_from_host_cmds forward (\<lambda>i. st_subnets st i db) hash d it k = (Inr ([], True, it'), k)"
      "it_trace it' = it_trace it" by auto
    with Nil Suc.prems(2) show ?thesis by (simp add: process_page_def)
  next
    case (Cons q ps)
    obtain b p where q: "q = (b, p)" by (cases q)
    from page Cons q obtain it' j m where
      g: "get_page_from_host_cmds forward (\<lambda>i. st_subnets st i db) hash d it k = (Inr (p, False, it'), k)"
      and t: "it_trace it' = map (page_response hash) (ds @ [q])"
      and b: "before_page d ss pages cursor b j m it'" and l: "pages_left d ss pages b j m = ps" and p: "p \<noteq> []"
      using Suc.prems(2) by auto
    let ?tx = "if unchanged hash old (ds @ [q]) then tx
        else Some (put q (case tx of None \<Rightarrow> fold put (ds @ [q]) clear | Some t \<Rightarrow> t))"
    have w: "(\<lambda>(a, p). conv (get_subnet it' a) p) = put" by (simp add: put_def later_pages_outside [OF b])
    have "start_transaction st update d it' db = Inr (fold put (ds @ [q]) clear)"
      unfolding start_transaction_def t update_cached_pages [OF upd] st option.case sum.case w ..
    then have "process_page st update d old it' p db tx = Inr ?tx"
      using p unfolding process_page_def t unchanged_trace upd current_subnet [OF b]
      by (auto simp: put_def q split: option.split)
    with g have step: "pull_loop (Suc fuel) forward st hash update d old db it tx k = pull_loop fuel forward st hash update d old db it' ?tx k"
      by simp
    have "length (pages_left d ss pages b j m) < fuel" using Suc.prems(3) Cons l by simp
    from Suc.IH [OF at_pageI [OF b] t this] show ?thesis unfolding step l Cons by simp
  qed
qed simp

lemma written_Some: "(\<And>qs. qs \<noteq> [] \<Longrightarrow> \<not> same (ds @ qs)) \<Longrightarrow> written same put clear ds (Some t) ps = Some (fold put ps t)"
proof (induction ps arbitrary: ds t)
  case (Cons p ps)
  have "\<not> same (ds @ [p])" by (rule Cons.prems) simp
  moreover have "written same put clear (ds @ [p]) (Some (put p t)) ps = Some (fold put ps (put p t))"
    by (rule Cons.IH) (use Cons.prems in \<open>simp add: Cons.prems\<close>)
  ultimately show ?case by simp
qed simp

text \<open>How many of the pages have the hashes of the last pull.\<close>

definition same_pages :: "(reservation list \<Rightarrow> string) \<Rightarrow> host_trace option \<Rightarrow> (int \<times> reservation list) list \<Rightarrow> nat" where
  "same_pages hash old ps =
     length (takeWhile (\<lambda>(x, y). x = y)
       (zip (map (hash \<circ> snd) ps) (case old of None \<Rightarrow> [] | Some t \<Rightarrow> map tr_hash t)))"

lemma unchanged_iff:
  assumes "qs \<noteq> []"
  shows "unchanged hash old qs \<longleftrightarrow> length qs \<le> same_pages hash old qs"
proof (cases old)
  case (Some t)
  have "xs = take (length xs) ys \<longleftrightarrow> length xs \<le> length (takeWhile (\<lambda>(x, y). x = y) (zip xs ys))" for xs ys :: "string list"
    by (induction xs arbitrary: ys) (auto split: list.splits simp: zip_Cons1 take_Cons')
  from this [of "map (hash \<circ> snd) qs" "map tr_hash t"] Some show ?thesis by (simp add: unchanged_def same_pages_def)
qed (use assms in \<open>simp add: unchanged_def same_pages_def\<close>)

lemma same_pages_take:
  "same_pages hash old (take n ps) = min n (same_pages hash old ps)"
proof -
  have "length (takeWhile P (zip (take n xs) ys)) = min n (length (takeWhile P (zip xs ys)))" for P and xs ys :: "string list"
    by (induction xs arbitrary: ys n) (auto simp: take_Cons' zip_Cons1 split: list.splits)
  then show ?thesis by (simp add: same_pages_def flip: take_map)
qed

lemma same_pages_le: "same_pages hash old ps \<le> length ps"
  unfolding same_pages_def by (rule order_trans [OF length_takeWhile_le]) simp

lemma unchanged_take:
  assumes "0 < n" and "n \<le> length ps"
  shows "unchanged hash old (take n ps) \<longleftrightarrow> n \<le> same_pages hash old ps"
proof -
  have "take n ps \<noteq> []" using assms by auto
  from unchanged_iff [OF this, of hash old] show ?thesis using assms by (auto simp: same_pages_take)
qed

lemma written_all:
  "written (unchanged hash old) put clear [] None ps =
     (let u = same_pages hash old ps in
      if u = length ps then None else Some (fold put (drop u ps) (fold put (take (Suc u) ps) clear)))"
proof -
  let ?u = "same_pages hash old ps"
  have same: "written (unchanged hash old) put clear (take n ps) None (drop n ps) =
      written (unchanged hash old) put clear [] None ps" if "n \<le> ?u" for n
    using that
  proof (induction n)
    case (Suc n)
    then have n: "n < length ps" using same_pages_le [of hash old ps] by simp
    have "unchanged hash old (take (Suc n) ps)" using Suc.prems n by (simp add: unchanged_take)
    with Suc show ?case by (simp add: Cons_nth_drop_Suc [OF n, symmetric] take_Suc_conv_app_nth [OF n])
  qed simp
  show ?thesis
  proof (cases "?u = length ps")
    case True
    then show ?thesis using same [of ?u] by simp
  next
    case False
    then have u: "?u < length ps" using same_pages_le [of hash old ps] by simp
    have no: "\<not> unchanged hash old (take (Suc ?u) ps @ qs)" for qs
    proof
      let ?w = "take (Suc ?u) ps @ qs"
      assume "unchanged hash old ?w"
      then have "length ?w \<le> same_pages hash old ?w" using u by (subst (asm) unchanged_iff) auto
      then have "Suc ?u \<le> same_pages hash old (take (Suc ?u) ?w)" unfolding same_pages_take using u by auto
      then have "Suc ?u \<le> same_pages hash old (take (Suc ?u) ps)" using u by simp
      then show False by (simp add: same_pages_take)
    qed
    have "written (unchanged hash old) put clear (take ?u ps) None (drop ?u ps) =
        written (unchanged hash old) put clear (take (Suc ?u) ps)
          (Some (put (ps ! ?u) (fold put (take (Suc ?u) ps) clear))) (drop (Suc ?u) ps)"
      using no [of "[]"] by (simp add: Cons_nth_drop_Suc [OF u, symmetric] take_Suc_conv_app_nth [OF u])
    also have "\<dots> = Some (fold put (drop (Suc ?u) ps) (put (ps ! ?u) (fold put (take (Suc ?u) ps) clear)))"
      by (rule written_Some) (rule no)
    finally show ?thesis using same [of ?u] False by (simp add: Let_def Cons_nth_drop_Suc [OF u, symmetric])
  qed
qed

section \<open>What a pull does\<close>

text \<open>A database that never fails, on which \<open>conv\<close> writes a page and \<open>clear\<close> removes the hosts of a daemon.\<close>

definition store_works ::
    "'db hosts_store \<Rightarrow> pull_daemon \<Rightarrow> (reservation \<Rightarrow> host_error + host) \<Rightarrow> pull_subnet list \<Rightarrow>
     (pull_subnet option \<Rightarrow> reservation list \<Rightarrow> 'db \<Rightarrow> 'db) \<Rightarrow> ('db \<Rightarrow> 'db) \<Rightarrow> bool" where
  "store_works st d convert ss conv clear \<longleftrightarrow>
     (\<forall>db. st_subnets st (pd_id d) db = Inr ss \<and> st_begin st db = None \<and> st_commit st db = None \<and>
        st_delete_daemon st (pd_id d) data_source_api db = Inr (clear db) \<and>
        (\<forall>s rs. convert_and_update_hosts convert st s rs db = Inr (conv s rs db)))"

definition emptied_trace :: "(reservation list \<Rightarrow> string) \<Rightarrow> (int \<times> reservation list) list \<Rightarrow> host_trace" where
  "emptied_trace hash ps = map (\<lambda>(a, p). \<lparr>tr_hash = hash p, tr_subnet_index = a, tr_hosts = []\<rparr>) ps"

text \<open>
  C0: A pull from a daemon that sends its reservations in pages ends and sees every page, the
  global ones first and then those of each subnet, in order.  Let \<open>u\<close> be the number of pages at
  the beginning whose hashes are those of the last pull.  If these are all of them then
  nothing is written and no review is begun, whatever the last pull had seen after them;
  otherwise the hosts of the daemon are removed, the pages up to the first different one are
  written, and then that one once more and all the others.  The hashes are kept for the next
  pull, without the hosts.
\<close>

theorem hosts_pulled:
  assumes "pd_active d" and "pd_config d = Some c" and "has_hook_library c ''libdhcp_host_cmds''"
    and "kea_pages forward d pages cursor" and "store_works st d (convert d) ss conv clear"
    and "length (all_pages d ss pages) < fuel"
  shows "let ps = all_pages d ss pages; u = same_pages hash (pu_traces s (pd_id d)) ps;
       put = (\<lambda>(a, p). conv (subnet_at ss a) p);
       s' = s\<lparr>pu_traces := (pu_traces s)(pd_id d \<mapsto> emptied_trace hash ps)\<rparr> in
     pull_from_daemon fuel forward st hash convert d s k =
       Some (Pulled,
         (if u = length ps then s'
          else s'\<lparr>pu_db := fold put (drop u ps) (fold put (take (Suc u) ps) (clear (pu_db s))),
                 pu_reviews := pu_reviews s @ [pd_id d]\<rparr>), k)"
proof -
  let ?ps = "all_pages d ss pages" and ?old = "pu_traces s (pd_id d)"
  let ?put = "\<lambda>(a, p). conv (subnet_at ss a) p" and ?it = "new_host_iterator default_host_cmds_page_limit"
  have st: "st_subnets st (pd_id d) (pu_db s) = Inr ss" "st_begin st (pu_db s) = None" "st_commit st db = None"
    "st_delete_daemon st (pd_id d) data_source_api (pu_db s) = Inr (clear (pu_db s))"
    "convert_and_update_hosts (convert d) st x rs db = Inr (conv x rs db)" for x rs db
    using assms(5) by (simp_all add: store_works_def)
  have zero: "cursor 0 0 = (0, 1)" using assms(4) by (simp add: kea_pages_def)
  have at: "at_page d ss pages cursor (-1) 0 (length ss) ?it"
    by (simp add: at_page_def before_page_def new_host_iterator_def subnet_at_def local_subnet_id_def zero)
  have left: "pages_left d ss pages (-1) 0 (length ss) = ?ps" by (simp add: pages_left_def all_pages_def)
  have "it_trace ?it = map (page_response hash) []" by (simp add: new_host_iterator_def)
  from pull_loop_pages [where update = "convert_and_update_hosts (convert d) st" and conv = conv, OF assms(4) st(1) st(5) st(2) st(4) at this, unfolded left, OF assms(6), where old = ?old and tx = None and k = k]
  obtain it' where it': "pull_loop fuel forward st hash (convert_and_update_hosts (convert d) st) d ?old (pu_db s) ?it None k =
      Some (Inr (it', written (unchanged hash ?old) ?put (clear (pu_db s)) [] None ?ps), k)"
    "it_trace it' = map (page_response hash) ?ps" by auto
  have trace: "map (\<lambda>t. t\<lparr>tr_hosts := []\<rparr>) (it_trace it') = emptied_trace hash ?ps"
    by (simp add: it'(2) emptied_trace_def page_response_def case_prod_beta)
  show ?thesis
    using assms(1,3) unfolding pull_from_daemon_def assms(2) option.case it'(1) trace written_all
    by (simp add: Let_def st(3) trace)
qed

text \<open>A daemon that had two pages of global reservations and now has one; the database is a list of hosts.\<close>

definition sample_reservation :: reservation where
  "sample_reservation = \<lparr>rv_hw_address = ''01:02'', rv_duid = [], rv_circuit_id = [], rv_client_id = [], rv_flex_id = [],
     rv_ip_address = ''192.0.2.1'', rv_ip_addresses = [], rv_prefixes = [], rv_hostname = ''printer'', rv_client_classes = [],
     rv_next_server = [], rv_boot_file_name = [], rv_server_hostname = [], rv_option_data = []\<rparr>"

definition sample_agents :: "unit agents" where
  "sample_agents c k =
     (let page = (cm_arguments c ''from'' = None \<and> cm_arguments c ''subnet-id'' = Some (ArgInt 0)) in
      (Inr (None, [(\<lparr>rh_result = (if page then 0 else 3), rh_text = [], rh_daemon = []\<rparr>,
         Some \<lparr>pg_hosts = (if page then [sample_reservation] else []), pg_from = 1, pg_source_index = 1\<rparr>)]), k))"

definition sample_pages :: "int \<Rightarrow> reservation list list" where
  "sample_pages sid = (if sid = 0 then [[sample_reservation]] else [])"

definition sample_cursor :: "int \<Rightarrow> nat \<Rightarrow> int \<times> int" where
  "sample_cursor sid i = (int i, 1)"

definition sample_daemon :: pull_daemon where
  "sample_daemon = \<lparr>pd_id = 5, pd_name = ''dhcp4'', pd_active = True, pd_is_dhcp = True,
     pd_config = Some (plain_dhcp4 [\<lparr>hl_library = ''libdhcp_host_cmds.so'', hl_has_parameters = False, hl_ha = None, hl_legal_log = None\<rparr>] [] [])\<rparr>"

definition list_store :: "host list hosts_store" where
  "list_store =
     \<lparr>st_subnets = (\<lambda>d db. Inr []), st_begin = (\<lambda>db. None), st_commit = (\<lambda>db. None),
      st_delete_daemon = (\<lambda>d source db. Inr []), st_get_hosts = (\<lambda>i db. Inr db),
      st_add_host = (\<lambda>h db. Inr (db @ [h])), st_update_host = (\<lambda>h db. Inr db), st_delete_orphans = (\<lambda>db. Inr db)\<rparr>"

definition no_convert :: "reservation \<Rightarrow> host_error + host" where
  "no_convert r = Inl (BadIdentifier [])"

definition sample_state :: "host list pull_state" where
  "sample_state = \<lparr>pu_db = [],
     pu_traces = [5 \<mapsto> emptied_trace (concat \<circ> map rv_hostname) [(-1, [sample_reservation]), (-1, [sample_reservation, sample_reservation])]],
     pu_reviews = []\<rparr>"

lemma commit_list_store: "\<exists>db'. commit_hosts_into_db list_store sid hs db = Inr db'"
  by (induction hs arbitrary: db) (simp_all add: list_store_def Let_def)

lemma update_list_store: "\<exists>db'. convert_and_update_hosts convert list_store s rs db = Inr db'"
proof -
  have "\<exists>hs. override_into_database_hosts list_store i new db = Inr hs" for i new
    by (simp add: override_into_database_hosts_def list_store_def)
  then show ?thesis
    unfolding convert_and_update_hosts_def Let_def using commit_list_store by (metis sum.case(2))
qed

lemma list_store_works:
  "store_works list_store d convert [] (\<lambda>s rs db. projr (convert_and_update_hosts convert list_store s rs db)) (\<lambda>db. [])"
proof -
  have "convert_and_update_hosts convert list_store s rs db = Inr (projr (convert_and_update_hosts convert list_store s rs db))" for s rs db
    using update_list_store [of convert s rs db] by auto
  then show ?thesis by (simp add: store_works_def list_store_def)
qed

lemma sample_agents_page: "kea_pages sample_agents sample_daemon sample_pages sample_cursor"
  unfolding kea_pages_def
proof (intro allI conjI impI)
  fix sid i and k :: unit
  show "sample_cursor sid 0 = (0, 1)" by (simp add: sample_cursor_def)
  show "[] \<notin> set (sample_pages sid)" by (simp add: sample_pages_def)
  assume i: "i \<le> length (sample_pages sid)"
  then have "i = 0 \<or> i = 1 \<and> sid = 0" by (auto simp: sample_pages_def split: if_splits)
  then show "\<exists>hdr a. get_error hdr = None \<and>
      sample_agents (new_command_reservation_get_page sid (snd (sample_cursor sid i)) (fst (sample_cursor sid i))
        default_host_cmds_page_limit [pd_name sample_daemon]) k = (Inr (None, [(hdr, Some a)]), k) \<and>
      pg_hosts a = (if i < length (sample_pages sid) then sample_pages sid ! i else []) \<and>
      (i < length (sample_pages sid) \<longrightarrow> (pg_from a, pg_source_index a) = sample_cursor sid (Suc i))"
    by (auto simp: sample_agents_def new_command_reservation_get_page_def with_argument_def new_command_base_def
      sample_cursor_def sample_pages_def Let_def response_success_def response_empty_def)
qed

theorem hosts_pulled_witness:
  "\<exists>s'. pull_from_daemon 2 sample_agents list_store (concat \<circ> map rv_hostname) (\<lambda>d. no_convert) sample_daemon sample_state () =
     Some (Pulled, s', ()) \<and> pu_db s' = pu_db sample_state \<and> pu_reviews s' = [] \<and> map_option length (pu_traces s' 5) = Some 1"
proof -
  let ?h = "concat \<circ> map rv_hostname"
  have ps: "all_pages sample_daemon [] sample_pages = [(-1, [sample_reservation])]"
    by (simp add: all_pages_def sample_pages_def subnet_at_def local_subnet_id_def)
  have u: "same_pages ?h (pu_traces sample_state (pd_id sample_daemon)) [(-1, [sample_reservation])] = 1"
    by (simp add: same_pages_def sample_state_def sample_daemon_def emptied_trace_def)
  have c: "pd_active sample_daemon" "has_hook_library (the (pd_config sample_daemon)) ''libdhcp_host_cmds''" by code_simp+
  have d: "pd_config sample_daemon = Some (the (pd_config sample_daemon))" by (simp add: sample_daemon_def)
  have l: "(1 = length [(-1::int, [sample_reservation])]) = True" by simp
  note pulled = hosts_pulled [OF c(1) d c(2) sample_agents_page, where convert = "\<lambda>d. no_convert" and st = list_store and fuel = 2
      and hash = ?h and s = sample_state and k = "()", OF list_store_works, unfolded ps Let_def u l if_True]
  show ?thesis
    by (rule exI, rule conjI, rule pulled) (simp_all add: sample_state_def sample_daemon_def emptied_trace_def)
qed

end
