(* ===== verification/Leases.thy ===== *)
theory Leases
  imports Hosts Kea_Commands Kea_Config_Correct
begin

text \<open>
  The search for leases in the monitored Kea servers: \<open>server/apps/kea/lease.go\<close>.  The agents are
  two functions on a state of their own, one for a command with a single lease as its answer,
  one for a list of commands with lists of leases.  The fields of a lease that nothing here
  reads are left out, and the app of a lease is its identifier.
\<close>

section \<open>Data\<close>

record lease =
  ls_id :: int
  ls_app_id :: int
  ls_client_id :: string
  ls_duid :: string
  ls_hw_address :: string
  ls_hostname :: string
  ls_ip_address :: string
  ls_state :: int

record lease_app =
  la_id :: int
  la_version :: string
  la_daemons :: "(string \<times> config option) list"

type_synonym 'a reply = "string + string option \<times> 'a"

record 'k lease_agents =
  ag_one :: "lease_app \<Rightarrow> command \<Rightarrow> 'k \<Rightarrow> (response_header \<times> lease option) list reply \<times> 'k"
  ag_many :: "lease_app \<Rightarrow> command list \<Rightarrow> 'k \<Rightarrow> (response_header \<times> lease list option) list list reply \<times> 'k"

datatype lease_error = CannotSend string | GeneralError string | InvalidResponse string | ErrorReturned string
  | CommandUnsupported string | ArgumentsMissing string | InvalidMac string

section \<open>Single leases\<close>

definition validate_get_leases_response :: "string \<Rightarrow> int \<Rightarrow> 'a option \<Rightarrow> lease_error option" where
  "validate_get_leases_response name result1 arguments =
     (if result1 = response_error then Some (ErrorReturned name)
      else if result1 = response_command_unsupported then Some (CommandUnsupported name)
      else if arguments = None then Some (ArgumentsMissing name)
      else None)"

definition get_one_lease :: "'k lease_agents \<Rightarrow> lease_app \<Rightarrow> command \<Rightarrow> 'k \<Rightarrow> (lease_error + lease option) \<times> 'k" where
  "get_one_lease ags app c k =
     (case ag_one ags app c k of
        (Inl e, k) \<Rightarrow> (Inl (CannotSend e), k)
      | (Inr (Some e, rs), k) \<Rightarrow> (Inl (GeneralError e), k)
      | (Inr (None, []), k) \<Rightarrow> (Inl (InvalidResponse (cm_command c)), k)
      | (Inr (None, (h, a) # rs), k) \<Rightarrow>
          ((if rh_result h = response_empty then Inr None
            else (case validate_get_leases_response (cm_command c) (rh_result h) a of
                    Some e \<Rightarrow> Inl e
                  | None \<Rightarrow> Inr (map_option (\<lambda>l. l\<lparr>ls_app_id := la_id app\<rparr>) a))), k))"

definition get_lease4_by_ip_address :: "'k lease_agents \<Rightarrow> lease_app \<Rightarrow> string \<Rightarrow> 'k \<Rightarrow> (lease_error + lease option) \<times> 'k" where
  "get_lease4_by_ip_address ags app ip = get_one_lease ags app (new_command_lease4_get ip [''dhcp4''])"

definition get_lease6_by_ip_address :: "'k lease_agents \<Rightarrow> lease_app \<Rightarrow> string \<Rightarrow> string \<Rightarrow> 'k \<Rightarrow> (lease_error + lease option) \<times> 'k" where
  "get_lease6_by_ip_address ags app lease_type ip = get_one_lease ags app (new_command_lease6_get lease_type ip [''dhcp6''])"

section \<open>Leases by properties\<close>

text \<open>The command of a name, when there is one.\<close>

definition property_command :: "lease_app \<Rightarrow> string \<Rightarrow> string \<Rightarrow> lease_error + command option" where
  "property_command app value name =
     (if name = ''lease4-get-by-hw-address'' then
        (if length value > 0 then
           (case format_mac_address value of
              (v, True) \<Rightarrow> Inr (Some (with_argument ''hw-address'' (ArgText v) (new_command_base name [''dhcp4''])))
            | (v, False) \<Rightarrow> Inl (InvalidMac value))
         else Inr (Some (with_argument ''hw-address'' (ArgText value) (new_command_base name [''dhcp4'']))))
      else if name = ''lease4-get-by-client-id'' then
        Inr (Some (with_argument ''client-id'' (ArgText value) (new_command_base name [''dhcp4''])))
      else if name = ''lease6-get-by-duid'' then
        (let v = (if length value = 0
                  then (if less_than (parse_semantic_version_or_latest (la_version app)) (new_semantic_version 2 3 8)
                        then ''0'' else ''00:00:00'')
                  else value)
         in Inr (Some (with_argument ''duid'' (ArgText v) (new_command_base name [''dhcp6'']))))
      else if name = ''lease4-get-by-hostname'' then
        Inr (Some (with_argument ''hostname'' (ArgText value) (new_command_base name [''dhcp4''])))
      else if name = ''lease6-get-by-hostname'' then
        Inr (Some (with_argument ''hostname'' (ArgText value) (new_command_base name [''dhcp6''])))
      else Inr None)"

fun property_commands :: "lease_app \<Rightarrow> string \<Rightarrow> string list \<Rightarrow> lease_error + command list" where
  "property_commands app value [] = Inr []"
| "property_commands app value (n # ns) =
     (case property_command app value n of
        Inl e \<Rightarrow> Inl e
      | Inr c \<Rightarrow>
          (case property_commands app value ns of
             Inl e \<Rightarrow> Inl e
           | Inr cs \<Rightarrow> Inr ((case c of None \<Rightarrow> [] | Some c \<Rightarrow> [c]) @ cs)))"

text \<open>The answers to the commands: leases, and whether one of them was an error.\<close>

fun collect_leases ::
    "(command \<times> (response_header \<times> lease list option) list) list \<Rightarrow> lease list \<Rightarrow> bool \<Rightarrow> lease_error + lease list \<times> bool" where
  "collect_leases [] leases warns = Inr (leases, warns)"
| "collect_leases ((c, []) # rs) leases warns = Inl (InvalidResponse (cm_command c))"
| "collect_leases ((c, (h, a) # _) # rs) leases warns =
     (if rh_result h \<noteq> response_empty then
        (case validate_get_leases_response (cm_command c) (rh_result h) a of
           Some e \<Rightarrow> collect_leases rs leases True
         | None \<Rightarrow> collect_leases rs (leases @ (case a of None \<Rightarrow> [] | Some ls \<Rightarrow> ls)) warns)
      else collect_leases rs leases warns)"

definition get_leases_by_properties ::
    "'k lease_agents \<Rightarrow> lease_app \<Rightarrow> string \<Rightarrow> string list \<Rightarrow> 'k \<Rightarrow> (lease_error + lease list \<times> bool) \<times> 'k" where
  "get_leases_by_properties ags app value names k =
     (case property_commands app value names of
        Inl e \<Rightarrow> (Inl e, k)
      | Inr cs \<Rightarrow>
          if length cs = 0 then (Inr ([], False), k)
          else (case ag_many ags app cs k of
                  (Inl e, k) \<Rightarrow> (Inl (CannotSend e), k)
                | (Inr (Some e, rs), k) \<Rightarrow> (Inl (GeneralError e), k)
                | (Inr (None, rs), k) \<Rightarrow>
                    (case collect_leases (zip cs rs) [] False of
                       Inl e \<Rightarrow> (Inl e, k)
                     | Inr (leases, warns) \<Rightarrow> (Inr (map (\<lambda>l. l\<lparr>ls_app_id := la_id app\<rparr>) leases, warns), k))))"

definition get_leases_by ::
    "string \<Rightarrow> 'k lease_agents \<Rightarrow> lease_app \<Rightarrow> string \<Rightarrow> 'k \<Rightarrow> (lease_error + lease list) \<times> 'k" where
  "get_leases_by name ags app value k =
     (case get_leases_by_properties ags app value [name] k of
        (Inl e, k) \<Rightarrow> (Inl e, k)
      | (Inr (leases, warns), k) \<Rightarrow> (Inr leases, k))"

definition get_leases4_by_hw_address :: "'k lease_agents \<Rightarrow> lease_app \<Rightarrow> string \<Rightarrow> 'k \<Rightarrow> (lease_error + lease list) \<times> 'k" where
  "get_leases4_by_hw_address = get_leases_by ''lease4-get-by-hw-address''"
definition get_leases4_by_client_id :: "'k lease_agents \<Rightarrow> lease_app \<Rightarrow> string \<Rightarrow> 'k \<Rightarrow> (lease_error + lease list) \<times> 'k" where
  "get_leases4_by_client_id = get_leases_by ''lease4-get-by-client-id''"
definition get_leases4_by_hostname :: "'k lease_agents \<Rightarrow> lease_app \<Rightarrow> string \<Rightarrow> 'k \<Rightarrow> (lease_error + lease list) \<times> 'k" where
  "get_leases4_by_hostname = get_leases_by ''lease4-get-by-hostname''"
definition get_leases6_by_duid :: "'k lease_agents \<Rightarrow> lease_app \<Rightarrow> string \<Rightarrow> 'k \<Rightarrow> (lease_error + lease list) \<times> 'k" where
  "get_leases6_by_duid = get_leases_by ''lease6-get-by-duid''"
definition get_leases6_by_hostname :: "'k lease_agents \<Rightarrow> lease_app \<Rightarrow> string \<Rightarrow> 'k \<Rightarrow> (lease_error + lease list) \<times> 'k" where
  "get_leases6_by_hostname = get_leases_by ''lease6-get-by-hostname''"

definition has_lease_cmds_hook :: "lease_app \<Rightarrow> string \<Rightarrow> bool" where
  "has_lease_cmds_hook app name =
     (case find (\<lambda>(n, c). n = name) (la_daemons app) of
        Some (n, Some c) \<Rightarrow> has_hook_library c ''libdhcp_lease_cmds''
      | _ \<Rightarrow> False)"

section \<open>Searching by text\<close>

datatype query_type = QueryIPv4 | QueryIPv6 | QueryIdentifier | QueryHostname

definition query_type_of :: "string \<Rightarrow> query_type" where
  "query_type_of text1 =
     (case net_parse_ip text1 of
        Some ip \<Rightarrow> if to4 ip \<noteq> None then QueryIPv4 else QueryIPv6
      | None \<Rightarrow> if is_hex_identifier text1 then QueryIdentifier else QueryHostname)"

text \<open>The types of an IPv6 lease are tried until one is found.\<close>

fun find_lease6 :: "'k lease_agents \<Rightarrow> lease_app \<Rightarrow> string \<Rightarrow> string list \<Rightarrow> bool \<Rightarrow> 'k \<Rightarrow> (lease list \<times> bool) \<times> 'k" where
  "find_lease6 ags app text1 [] err k = (([], err), k)"
| "find_lease6 ags app text1 (t # ts) err k =
     (case get_lease6_by_ip_address ags app t text1 k of
        (Inl e, k) \<Rightarrow> find_lease6 ags app text1 ts True k
      | (Inr (Some l), k) \<Rightarrow> (([l], err), k)
      | (Inr None, k) \<Rightarrow> find_lease6 ags app text1 ts err k)"

text \<open>Since Kea 2.3.8 a client of DHCPv6 has at least three bytes of identifier.\<close>

definition refined_query :: "string \<Rightarrow> lease_app \<Rightarrow> query_type \<Rightarrow> query_type" where
  "refined_query text1 app q =
     (if q = QueryIdentifier \<and> has_lease_cmds_hook app ''dhcp6'' \<and> count_hex_identifier_bytes text1 < 3
        \<and> greater_than_or_equal (parse_semantic_version_or_latest (la_version app)) (new_semantic_version 2 3 8)
      then QueryHostname else q)"

definition query_commands :: "lease_app \<Rightarrow> query_type \<Rightarrow> string list" where
  "query_commands app q =
     (if q = QueryIdentifier then
        (if has_lease_cmds_hook app ''dhcp4'' then [''lease4-get-by-hw-address'', ''lease4-get-by-client-id''] else []) @
        (if has_lease_cmds_hook app ''dhcp6'' then [''lease6-get-by-duid''] else [])
      else
        (if has_lease_cmds_hook app ''dhcp4'' then [''lease4-get-by-hostname''] else []) @
        (if has_lease_cmds_hook app ''dhcp6'' then [''lease6-get-by-hostname''] else []))"

text \<open>An app: its leases, whether it erred, and the query type the loop goes on with.\<close>

definition find_leases_in_app ::
    "'k lease_agents \<Rightarrow> string \<Rightarrow> lease_app \<Rightarrow> query_type \<Rightarrow> 'k \<Rightarrow> (lease list \<times> bool) \<times> query_type \<times> 'k" where
  "find_leases_in_app ags text1 app q k =
     (case q of
        QueryIPv4 \<Rightarrow>
          if has_lease_cmds_hook app ''dhcp4'' then
            (case get_lease4_by_ip_address ags app text1 k of
               (Inl e, k) \<Rightarrow> (([], True), q, k)
             | (Inr l, k) \<Rightarrow> ((case l of None \<Rightarrow> [] | Some l \<Rightarrow> [l], False), q, k))
          else (([], False), q, k)
      | QueryIPv6 \<Rightarrow>
          if has_lease_cmds_hook app ''dhcp6'' then
            (case find_lease6 ags app text1 [''IA_NA'', ''IA_PD''] False k of (r, k) \<Rightarrow> (r, q, k))
          else (([], False), q, k)
      | _ \<Rightarrow>
          (let q = refined_query text1 app q in
           case get_leases_by_properties ags app text1 (query_commands app q) k of
             (Inl e, k) \<Rightarrow> (([], True), q, k)
           | (Inr (leases, warns), k) \<Rightarrow> ((leases, warns), q, k)))"

fun find_leases_in_apps ::
    "'k lease_agents \<Rightarrow> string \<Rightarrow> lease_app list \<Rightarrow> query_type \<Rightarrow> 'k \<Rightarrow> (lease list \<times> lease_app list) \<times> 'k" where
  "find_leases_in_apps ags text1 [] q k = (([], []), k)"
| "find_leases_in_apps ags text1 (a # as) q k =
     (case find_leases_in_app ags text1 a q k of
        ((leases, erred), q, k) \<Rightarrow>
          (case find_leases_in_apps ags text1 as q k of
             ((ls, es), k) \<Rightarrow> ((leases @ ls, (if erred then [a] else []) @ es), k)))"

definition find_leases ::
    "'k lease_agents \<Rightarrow> string + lease_app list \<Rightarrow> string \<Rightarrow> 'k \<Rightarrow> (string + lease list \<times> lease_app list) \<times> 'k" where
  "find_leases ags apps text1 k =
     (case apps of
        Inl e \<Rightarrow> (Inl e, k)
      | Inr as \<Rightarrow> (case find_leases_in_apps ags text1 as (query_type_of text1) k of (r, k) \<Rightarrow> (Inr r, k)))"

section \<open>Declined leases\<close>

definition lease_state_declined :: int where "lease_state_declined = 1"

fun find_declined_in_apps :: "'k lease_agents \<Rightarrow> lease_app list \<Rightarrow> 'k \<Rightarrow> (lease list \<times> lease_app list) \<times> 'k" where
  "find_declined_in_apps ags [] k = (([], []), k)"
| "find_declined_in_apps ags (a # as) k =
     (let names = (if has_lease_cmds_hook a ''dhcp4'' then [''lease4-get-by-hw-address''] else []) @
                  (if has_lease_cmds_hook a ''dhcp6'' then [''lease6-get-by-duid''] else [])
      in case get_leases_by_properties ags a [] names k of
           (r, k) \<Rightarrow>
             (let (leases, erred) = (case r of
                    Inl e \<Rightarrow> ([], True)
                  | Inr (ls, warns) \<Rightarrow> (filter (\<lambda>l. ls_state l = lease_state_declined) ls, warns))
              in case find_declined_in_apps ags as k of
                   ((ls, es), k) \<Rightarrow> ((leases @ ls, (if erred then [a] else []) @ es), k)))"

definition find_declined_leases ::
    "'k lease_agents \<Rightarrow> string + lease_app list \<Rightarrow> 'k \<Rightarrow> (string + lease list \<times> lease_app list) \<times> 'k" where
  "find_declined_leases ags apps k =
     (case apps of
        Inl e \<Rightarrow> (Inl e, k)
      | Inr as \<Rightarrow> (case find_declined_in_apps ags as k of (r, k) \<Rightarrow> (Inr r, k)))"

section \<open>Leases of a host\<close>

text \<open>The identifiers of a lease in the order in which they are compared; the first match ends it.\<close>

definition lease_identifiers :: "lease \<Rightarrow> (string \<times> string) list" where
  "lease_identifiers l = [(ls_client_id l, ''client-id''), (ls_duid l, ''duid''), (ls_hw_address l, ''hw-address'')]"

definition lease_conflicts :: "host \<Rightarrow> lease \<Rightarrow> bool" where
  "lease_conflicts h l =
     (\<not> list_ex (\<lambda>(i, t). length i > 0 \<and> snd (has_identifier h t (hex_to_bytes i))) (lease_identifiers l))"

definition find_host_lease_conflicts :: "host \<Rightarrow> lease list \<Rightarrow> int list" where
  "find_host_lease_conflicts h leases =
     (if has_identifier_type h ''circuit-id'' \<or> has_identifier_type h ''flex-id'' then []
      else map ls_id (filter (lease_conflicts h) leases))"

text \<open>What the loops over the apps and addresses keep: the leases, the next number, the apps that erred.\<close>

record host_search =
  hs_leases :: "lease list"
  hs_next_id :: int
  hs_erred :: "lease_app list"

definition add_found :: "lease option \<Rightarrow> host_search \<Rightarrow> host_search" where
  "add_found l s =
     (case l of
        None \<Rightarrow> s
      | Some l \<Rightarrow> s\<lparr>hs_leases := hs_leases s @ [l\<lparr>ls_id := hs_next_id s\<rparr>], hs_next_id := hs_next_id s + 1\<rparr>)"

text \<open>The command for an address, if its daemon has the hook and has not failed: the result and the two flags.\<close>

definition ask_address ::
    "'k lease_agents \<Rightarrow> lease_app \<Rightarrow> parsed_ip \<Rightarrow> bool \<times> bool \<Rightarrow> host_search \<Rightarrow> 'k \<Rightarrow> (bool \<times> bool) \<times> host_search \<times> 'k" where
  "ask_address ags app p errs s k =
     (case pip_protocol p of
        IPv4 \<Rightarrow>
          if \<not> fst errs \<and> has_lease_cmds_hook app ''dhcp4'' then
            (case get_lease4_by_ip_address ags app (pip_network_prefix p) k of
               (Inl e, k) \<Rightarrow> ((True, snd errs), s, k)
             | (Inr l, k) \<Rightarrow> (errs, add_found l s, k))
          else (errs, s, k)
      | IPv6 \<Rightarrow>
          if \<not> snd errs \<and> has_lease_cmds_hook app ''dhcp6'' then
            (case get_lease6_by_ip_address ags app (if pip_prefix p then ''IA_PD'' else ''IA_NA'') (pip_network_prefix p) k of
               (Inl e, k) \<Rightarrow> ((fst errs, True), s, k)
             | (Inr l, k) \<Rightarrow> (errs, add_found l s, k))
          else (errs, s, k))"

fun ask_addresses ::
    "'k lease_agents \<Rightarrow> lease_app \<Rightarrow> string list \<Rightarrow> bool \<times> bool \<Rightarrow> bool \<Rightarrow> host_search \<Rightarrow> 'k \<Rightarrow> host_search \<times> 'k" where
  "ask_addresses ags app [] errs app_error s k = (s, k)"
| "ask_addresses ags app (x # xs) errs app_error s k =
     (case parse_ip x of
        None \<Rightarrow> ask_addresses ags app xs errs app_error s k
      | Some p \<Rightarrow>
          (case ask_address ags app p errs s k of
             (errs, s, k) \<Rightarrow>
               (if fst errs \<or> snd errs then
                  (let s = (if \<not> app_error then s\<lparr>hs_erred := hs_erred s @ [app]\<rparr> else s) in
                   if fst errs \<and> snd errs then (s, k) else ask_addresses ags app xs errs True s k)
                else ask_addresses ags app xs errs app_error s k)))"

fun ask_apps :: "'k lease_agents \<Rightarrow> lease_app list \<Rightarrow> string list \<Rightarrow> host_search \<Rightarrow> 'k \<Rightarrow> host_search \<times> 'k" where
  "ask_apps ags [] xs s k = (s, k)"
| "ask_apps ags (a # as) xs s k =
     (case ask_addresses ags a xs (False, False) False s k of (s, k) \<Rightarrow> ask_apps ags as xs s k)"

text \<open>The leases, the conflicts and the apps that erred; no host has no leases.\<close>

definition find_leases_by_host_id ::
    "'k lease_agents \<Rightarrow> string + host option \<Rightarrow> string + lease_app list \<Rightarrow> 'k \<Rightarrow>
     (string + lease list \<times> int list \<times> lease_app list) \<times> 'k" where
  "find_leases_by_host_id ags found_host apps k =
     (case found_host of
        Inl e \<Rightarrow> (Inl e, k)
      | Inr None \<Rightarrow> (Inr ([], [], []), k)
      | Inr (Some h) \<Rightarrow>
          (case apps of
             Inl e \<Rightarrow> (Inl e, k)
           | Inr as \<Rightarrow>
               (case ask_apps ags as (host_ip_reservations h) \<lparr>hs_leases = [], hs_next_id = 1, hs_erred = []\<rparr> k of
                  (s, k) \<Rightarrow> (Inr (hs_leases s, find_host_lease_conflicts h (hs_leases s), hs_erred s), k))))"

section \<open>Leases of a host are numbered\<close>

definition numbered :: "host_search \<Rightarrow> bool" where
  "numbered s \<longleftrightarrow> map ls_id (hs_leases s) = [1..hs_next_id s - 1] \<and> hs_next_id s = 1 + int (length (hs_leases s))"

lemma numbered_found: "numbered s \<Longrightarrow> numbered (add_found l s)"
  using upto_rec2 [of 1 "hs_next_id s"] by (auto simp: numbered_def add_found_def split: option.split)

lemma found_erred [simp]: "hs_erred (add_found l s) = hs_erred s"
  by (simp add: add_found_def split: option.split)

text \<open>
  An agent that keeps the commands it has sent, each with its app and whether the answer was an
  error: \<open>answer\<close> is what it would say.
\<close>

definition is_failure :: "(response_header \<times> lease option) list reply \<Rightarrow> bool" where
  "is_failure r =
     (case r of
        Inl e \<Rightarrow> True
      | Inr (Some e, rs) \<Rightarrow> True
      | Inr (None, []) \<Rightarrow> True
      | Inr (None, (h, a) # rs) \<Rightarrow> rh_result h \<noteq> response_empty \<and> validate_get_leases_response [] (rh_result h) a \<noteq> None)"

type_synonym sent = "lease_app \<times> command \<times> bool"

definition recording :: "(lease_app \<Rightarrow> command \<Rightarrow> (response_header \<times> lease option) list reply) \<Rightarrow> sent list lease_agents" where
  "recording answer =
     \<lparr>ag_one = (\<lambda>a c log. (answer a c, log @ [(a, c, is_failure (answer a c))])),
      ag_many = (\<lambda>a cs log. (Inl [], log))\<rparr>"

lemma one_lease_recorded:
  "\<exists>r. get_one_lease (recording answer) a c log = (r, log @ [(a, c, is_failure (answer a c))]) \<and>
     (is_failure (answer a c) \<longleftrightarrow> (\<exists>e. r = Inl e))"
  by (auto simp: get_one_lease_def recording_def is_failure_def validate_get_leases_response_def
    split: sum.splits option.splits list.splits prod.splits)

text \<open>No command goes to a daemon of an app after one that failed.\<close>

fun quiet :: "sent list \<Rightarrow> bool" where
  "quiet [] = True"
| "quiet ((a, c, failed) # es) =
     ((failed \<longrightarrow> (\<forall>(b, c', f) \<in> set es. b = a \<longrightarrow> cm_daemons c' \<noteq> cm_daemons c)) \<and> quiet es)"

definition any_failed :: "sent list \<Rightarrow> bool" where
  "any_failed es = (\<exists>(a, c, f) \<in> set es. f)"

lemma any_failed_simps [simp]:
  "\<not> any_failed []" "any_failed ((a, c, f) # es) = (f \<or> any_failed es)" "any_failed (es @ fs) = (any_failed es \<or> any_failed fs)"
  by (auto simp: any_failed_def)

lemma quiet_append:
  "quiet es \<Longrightarrow> quiet fs \<Longrightarrow> (\<forall>(a, c, f) \<in> set es. \<forall>(b, c', f') \<in> set fs. b \<noteq> a) \<Longrightarrow> quiet (es @ fs)"
  by (induction es rule: quiet.induct) auto

definition allowed :: "lease_app \<Rightarrow> bool \<times> bool \<Rightarrow> sent \<Rightarrow> bool" where
  "allowed a errs = (\<lambda>(b, c, f). b = a \<and> (cm_daemons c = [''dhcp4''] \<and> \<not> fst errs \<or> cm_daemons c = [''dhcp6''] \<and> \<not> snd errs))"

text \<open>What asking for one address does: nothing, or one allowed command.\<close>

definition asked ::
    "lease_app \<Rightarrow> bool \<times> bool \<Rightarrow> bool \<times> bool \<Rightarrow> sent list \<Rightarrow> bool" where
  "asked a errs errs' es \<longleftrightarrow>
     quiet es \<and> (\<forall>e \<in> set es. allowed a errs e) \<and> (fst errs' \<or> snd errs' \<longleftrightarrow> fst errs \<or> snd errs \<or> any_failed es) \<and>
     (\<forall>e. allowed a errs' e \<longrightarrow> allowed a errs e \<and> (\<forall>(b, c, f) \<in> set es. f \<longrightarrow> cm_daemons (fst (snd e)) \<noteq> cm_daemons c))"

lemma asked_none: "asked a errs errs []"
  by (simp add: asked_def)

lemma asked_dhcp4: "\<not> fst errs \<Longrightarrow> cm_daemons c = [''dhcp4''] \<Longrightarrow> asked a errs (f, snd errs) [(a, c, f)]"
  by (auto simp: asked_def allowed_def)

lemma asked_dhcp6: "\<not> snd errs \<Longrightarrow> cm_daemons c = [''dhcp6''] \<Longrightarrow> asked a errs (fst errs, f) [(a, c, f)]"
  by (auto simp: asked_def allowed_def)

lemma ask_address_recorded:
  "\<exists>errs' s' es. ask_address (recording answer) a p errs s log = (errs', s', log @ es) \<and> asked a errs errs' es \<and>
     (numbered s \<longrightarrow> numbered s') \<and> hs_erred s' = hs_erred s"
proof (cases "pip_protocol p")
  case IPv4
  let ?c = "new_command_lease4_get (pip_network_prefix p) [''dhcp4'']"
  have d: "cm_daemons ?c = [''dhcp4'']" by (simp add: new_command_lease4_get_def with_argument_def new_command_base_def)
  obtain r where r: "get_one_lease (recording answer) a ?c log = (r, log @ [(a, ?c, is_failure (answer a ?c))])"
      "is_failure (answer a ?c) \<longleftrightarrow> (\<exists>e. r = Inl e)" using one_lease_recorded [of answer a ?c log] by blast
  note eq = ask_address_def IPv4 ip_type.case get_lease4_by_ip_address_def r(1) prod.case
  show ?thesis
  proof (cases "\<not> fst errs \<and> has_lease_cmds_hook a ''dhcp4''")
    case True
    then have e: "(False, snd errs) = errs" by (simp add: prod_eq_iff)
    from True asked_dhcp4 [OF _ d, of errs a "is_failure (answer a ?c)"] r(2) e show ?thesis
      unfolding eq if_P [OF True] by (cases r) (auto simp: numbered_found)
  next
    case False
    show ?thesis unfolding eq if_not_P [OF False] by (intro exI [of _ "[]"] exI conjI) (auto simp: asked_none)
  qed
next
  case IPv6
  let ?c = "new_command_lease6_get (if pip_prefix p then ''IA_PD'' else ''IA_NA'') (pip_network_prefix p) [''dhcp6'']"
  have d: "cm_daemons ?c = [''dhcp6'']" by (simp add: new_command_lease6_get_def with_argument_def new_command_base_def)
  obtain r where r: "get_one_lease (recording answer) a ?c log = (r, log @ [(a, ?c, is_failure (answer a ?c))])"
      "is_failure (answer a ?c) \<longleftrightarrow> (\<exists>e. r = Inl e)" using one_lease_recorded [of answer a ?c log] by blast
  note eq = ask_address_def IPv6 ip_type.case get_lease6_by_ip_address_def r(1) prod.case
  show ?thesis
  proof (cases "\<not> snd errs \<and> has_lease_cmds_hook a ''dhcp6''")
    case True
    then have e: "(fst errs, False) = errs" by (simp add: prod_eq_iff)
    from True asked_dhcp6 [OF _ d, of errs a "is_failure (answer a ?c)"] r(2) e show ?thesis
      unfolding eq if_P [OF True] by (cases r) (auto simp: numbered_found)
  next
    case False
    show ?thesis unfolding eq if_not_P [OF False] by (intro exI [of _ "[]"] exI conjI) (auto simp: asked_none)
  qed
qed

lemma quiet_more:
  assumes "quiet es" and "quiet fs" and "\<forall>e \<in> set fs. \<forall>(b, c, f) \<in> set es. f \<longrightarrow> cm_daemons (fst (snd e)) \<noteq> cm_daemons c"
  shows "quiet (es @ fs)"
  using assms by (induction es rule: quiet.induct) fastforce+

lemma asked_then:
  assumes "asked a errs errs' es" and "quiet fs" and "\<forall>e \<in> set fs. allowed a errs' e"
  shows "quiet (es @ fs)" "\<forall>e \<in> set (es @ fs). allowed a errs e"
proof -
  have "\<forall>(b, c, f) \<in> set es. f \<longrightarrow> cm_daemons (fst (snd e)) \<noteq> cm_daemons c" if "e \<in> set fs" for e
    using assms(1,3) that unfolding asked_def by blast
  moreover have "quiet es" using assms(1) by (simp add: asked_def)
  ultimately show "quiet (es @ fs)" using assms(2) by (intro quiet_more) blast+
  show "\<forall>e \<in> set (es @ fs). allowed a errs e" using assms by (auto simp: asked_def)
qed

lemma ask_addresses_recorded:
  "\<exists>s' es. ask_addresses (recording answer) a xs errs (fst errs \<or> snd errs) s log = (s', log @ es) \<and>
     (\<forall>e \<in> set es. allowed a errs e) \<and> quiet es \<and> (numbered s \<longrightarrow> numbered s') \<and>
     hs_erred s' = hs_erred s @ (if \<not> (fst errs \<or> snd errs) \<and> any_failed es then [a] else [])"
proof (induction xs arbitrary: errs s log)
  case (Cons x xs)
  show ?case
  proof (cases "parse_ip x")
    case (Some p)
    obtain errs' s' es where step: "ask_address (recording answer) a p errs s log = (errs', s', log @ es)"
      "asked a errs errs' es" "numbered s \<longrightarrow> numbered s'" "hs_erred s' = hs_erred s"
      using ask_address_recorded [of answer a p errs s log] by blast
    let ?fail = "fst errs' \<or> snd errs'" and ?old = "fst errs \<or> snd errs"
    have fail: "?fail \<longleftrightarrow> ?old \<or> any_failed es" using step(2) by (simp add: asked_def)
    let ?s = "if ?fail \<and> \<not> ?old then s'\<lparr>hs_erred := hs_erred s' @ [a]\<rparr> else s'"
    have eq: "ask_addresses (recording answer) a (x # xs) errs ?old s log =
        (if fst errs' \<and> snd errs' then (?s, log @ es) else ask_addresses (recording answer) a xs errs' ?fail ?s (log @ es))"
      using fail by (auto simp: Some step(1) Let_def)
    have n: "numbered s \<longrightarrow> numbered ?s" using step(3) by (simp add: numbered_def)
    have erred: "hs_erred ?s = hs_erred s @ (if \<not> ?old \<and> any_failed es then [a] else [])" using step(4) fail by auto
    show ?thesis
    proof (cases "fst errs' \<and> snd errs'")
      case True
      show ?thesis unfolding eq if_P [OF True] using n erred step(2) unfolding asked_def by blast
    next
      case False
      obtain t fs where t: "ask_addresses (recording answer) a xs errs' ?fail ?s (log @ es) = (t, (log @ es) @ fs)"
        "\<forall>e \<in> set fs. allowed a errs' e" "quiet fs" "numbered ?s \<longrightarrow> numbered t"
        "hs_erred t = hs_erred ?s @ (if \<not> ?fail \<and> any_failed fs then [a] else [])"
        using Cons.IH [of errs' ?s "log @ es"] by blast
      have "hs_erred t = hs_erred s @ (if \<not> ?old \<and> any_failed (es @ fs) then [a] else [])"
        using t(5) erred fail step(4) by auto
      with asked_then [OF step(2) t(3,2)] t(1,4) n show ?thesis
        unfolding eq if_not_P [OF False] by (intro exI [of _ t] exI [of _ "es @ fs"]) simp
    qed
  qed (use Cons.IH in simp)
qed simp

lemma ask_apps_recorded:
  assumes "distinct as"
  shows "\<exists>s' es. ask_apps (recording answer) as xs s log = (s', log @ es) \<and> quiet es \<and> (numbered s \<longrightarrow> numbered s') \<and>
     fst ` set es \<subseteq> set as \<and> hs_erred s' = hs_erred s @ filter (\<lambda>a. \<exists>c. (a, c, True) \<in> set es) as"
  using assms
proof (induction as arbitrary: s log)
  case (Cons a as)
  have d: "distinct as" using Cons.prems by simp
  obtain s1 es where one: "ask_addresses (recording answer) a xs (False, False) False s log = (s1, log @ es)"
    "\<forall>e \<in> set es. allowed a (False, False) e" "quiet es" "numbered s \<longrightarrow> numbered s1"
    "hs_erred s1 = hs_erred s @ (if any_failed es then [a] else [])"
    using ask_addresses_recorded [of answer a xs "(False, False)" s log] by auto
  obtain s2 fs where rest: "ask_apps (recording answer) as xs s1 (log @ es) = (s2, (log @ es) @ fs)" "quiet fs"
    "numbered s1 \<longrightarrow> numbered s2" "fst ` set fs \<subseteq> set as"
    "hs_erred s2 = hs_erred s1 @ filter (\<lambda>a. \<exists>c. (a, c, True) \<in> set fs) as"
    using Cons.IH [OF d, of s1 "log @ es"] by blast
  have own: "\<forall>(b, c, f) \<in> set es. b = a" using one(2) by (auto simp: allowed_def)
  have other: "\<forall>(b, c, f) \<in> set fs. b \<noteq> a" using rest(4) Cons.prems by force
  have "quiet (es @ fs)" using one(3) rest(2) own other by (intro quiet_append) auto
  moreover have "(\<exists>c. (a, c, True) \<in> set (es @ fs)) = any_failed es"
    using own rest(4) Cons.prems unfolding any_failed_def by fastforce
  moreover have "filter (\<lambda>a. \<exists>c. (a, c, True) \<in> set (es @ fs)) as = filter (\<lambda>a. \<exists>c. (a, c, True) \<in> set fs) as"
    using own Cons.prems by (intro filter_cong) auto
  ultimately have "hs_erred s2 = hs_erred s @ filter (\<lambda>a. \<exists>c. (a, c, True) \<in> set (es @ fs)) (a # as)"
    using rest(5) one(5) by simp
  moreover have "fst ` set (es @ fs) \<subseteq> set (a # as)" using own rest(4) by auto
  ultimately show ?case using one(1,4) rest(1,3) \<open>quiet (es @ fs)\<close> by (intro exI [of _ s2] exI [of _ "es @ fs"]) simp
qed simp

text \<open>
  C29: The search for the leases of a host numbers the leases from one on without gaps, so the
  numbers of the conflicts are those of leases; when the host has neither a circuit identifier
  nor a flexible one they are the numbers of exactly the leases none of whose identifiers is
  that of the host.  The apps that erred are exactly those to which a failing command was sent,
  in order, and after a failing command none is sent to the same daemon of the app.
\<close>

theorem host_leases_searched:
  assumes "distinct apps"
  shows "\<exists>leases conflicts erred log.
      find_leases_by_host_id (recording answer) (Inr (Some h)) (Inr apps) [] = (Inr (leases, conflicts, erred), log) \<and>
      map ls_id leases = [1..int (length leases)] \<and>
      set conflicts \<subseteq> {1..int (length leases)} \<and>
      (has_identifier_type h ''circuit-id'' \<or> has_identifier_type h ''flex-id'' \<or>
         (\<forall>l \<in> set leases. ls_id l \<in> set conflicts \<longleftrightarrow>
            (\<forall>(i, t) \<in> set (lease_identifiers l). i = [] \<or> \<not> snd (has_identifier h t (hex_to_bytes i))))) \<and>
      erred = filter (\<lambda>a. \<exists>c. (a, c, True) \<in> set log) apps \<and> quiet log"
proof -
  let ?s = "\<lparr>hs_leases = [], hs_next_id = 1, hs_erred = []\<rparr>"
  obtain s log where r: "ask_apps (recording answer) apps (host_ip_reservations h) ?s [] = (s, [] @ log)" "quiet log"
    "numbered ?s \<longrightarrow> numbered s" "hs_erred s = hs_erred ?s @ filter (\<lambda>a. \<exists>c. (a, c, True) \<in> set log) apps"
    using ask_apps_recorded [OF assms, of answer "host_ip_reservations h" ?s "[]"] by blast
  let ?leases = "hs_leases s" and ?conflicts = "find_host_lease_conflicts h (hs_leases s)"
  have n: "map ls_id ?leases = [1..int (length ?leases)]" using r(3) by (simp add: numbered_def)
  have "distinct (map ls_id ?leases)" unfolding n by simp
  then have inj: "inj_on ls_id (set ?leases)" by (simp add: distinct_map)
  have "set (map ls_id ?leases) = {1..int (length ?leases)}" unfolding n by simp
  then have sub: "set ?conflicts \<subseteq> {1..int (length ?leases)}" by (auto simp: find_host_lease_conflicts_def)
  have conf: "ls_id l \<in> set ?conflicts \<longleftrightarrow> (\<forall>(i, t) \<in> set (lease_identifiers l). i = [] \<or> \<not> snd (has_identifier h t (hex_to_bytes i)))"
    if "\<not> has_identifier_type h ''circuit-id''" "\<not> has_identifier_type h ''flex-id''" "l \<in> set ?leases" for l
  proof -
    have "ls_id l \<in> set ?conflicts \<longleftrightarrow> lease_conflicts h l"
      using that inj by (auto simp: find_host_lease_conflicts_def dest: inj_onD)
    then show ?thesis by (auto simp: lease_conflicts_def list_ex_iff)
  qed
  show ?thesis
  proof (intro exI conjI)
    show "find_leases_by_host_id (recording answer) (Inr (Some h)) (Inr apps) [] = (Inr (?leases, ?conflicts, hs_erred s), log)"
      using r(1) by (simp add: find_leases_by_host_id_def)
    show "hs_erred s = filter (\<lambda>a. \<exists>c. (a, c, True) \<in> set log) apps" using r(4) by simp
    show "has_identifier_type h ''circuit-id'' \<or> has_identifier_type h ''flex-id'' \<or>
         (\<forall>l \<in> set ?leases. ls_id l \<in> set ?conflicts \<longleftrightarrow>
            (\<forall>(i, t) \<in> set (lease_identifiers l). i = [] \<or> \<not> snd (has_identifier h t (hex_to_bytes i))))"
      using conf by blast
  qed (rule n sub r(2))+
qed

definition lease_server :: lease_app where
  "lease_server = \<lparr>la_id = 3, la_version = ''2.4.0'', la_daemons = [(''dhcp4'', Some (plain_dhcp4
     [\<lparr>hl_library = ''libdhcp_lease_cmds.so'', hl_has_parameters = False, hl_ha = None, hl_legal_log = None\<rparr>] [] []))]\<rparr>"

definition one_answer :: "lease_app \<Rightarrow> command \<Rightarrow> (response_header \<times> lease option) list reply" where
  "one_answer a c = Inr (None, [(\<lparr>rh_result = 0, rh_text = [], rh_daemon = []\<rparr>,
     Some \<lparr>ls_id = 0, ls_app_id = 0, ls_client_id = [], ls_duid = [], ls_hw_address = ''03:04'', ls_hostname = [],
       ls_ip_address = ''192.0.2.1'', ls_state = 0\<rparr>)])"

theorem host_leases_searched_witness:
  "\<exists>leases log. find_leases_by_host_id (recording one_answer) (Inr (Some (sample_host 7 1 data_source_api))) (Inr [lease_server]) [] =
       (Inr (leases, [1], []), log) \<and> map ls_id leases = [1] \<and> quiet log"
proof -
  let ?f = "find_leases_by_host_id (recording one_answer) (Inr (Some (sample_host 7 1 data_source_api))) (Inr [lease_server]) []"
  have "(case fst ?f of Inr (leases, conflicts, erred) \<Rightarrow> length leases = 1 \<and> conflicts = [1] \<and> erred = [] | Inl e \<Rightarrow> False)"
    by code_simp
  moreover have "distinct [lease_server]" by simp
  from host_leases_searched [OF this, of one_answer "sample_host 7 1 data_source_api"] obtain leases conflicts erred log where
    r: "?f = (Inr (leases, conflicts, erred), log)" "map ls_id leases = [1..int (length leases)]" "quiet log" by blast
  ultimately show ?thesis by auto
qed

section \<open>The search by text\<close>

text \<open>Each app searched with a type of its own.\<close>

fun search_apps ::
    "'k lease_agents \<Rightarrow> string \<Rightarrow> (lease_app \<times> query_type) list \<Rightarrow> 'k \<Rightarrow> (lease list \<times> lease_app list) \<times> 'k" where
  "search_apps ags text1 [] k = (([], []), k)"
| "search_apps ags text1 ((a, q) # as) k =
     (case find_leases_in_app ags text1 a q k of
        ((leases, erred), _, k) \<Rightarrow>
          (case search_apps ags text1 as k of
             ((ls, es), k) \<Rightarrow> ((leases @ ls, (if erred then [a] else []) @ es), k)))"

definition rejects_short :: "lease_app \<Rightarrow> bool" where
  "rejects_short a = (has_lease_cmds_hook a ''dhcp6'' \<and>
     greater_than_or_equal (parse_semantic_version_or_latest (la_version a)) (new_semantic_version 2 3 8))"

definition query_at :: "string \<Rightarrow> lease_app list \<Rightarrow> nat \<Rightarrow> query_type" where
  "query_at text1 apps i =
     (if query_type_of text1 = QueryIdentifier \<and> count_hex_identifier_bytes text1 < 3 \<and>
         (\<exists>a \<in> set (take i apps). rejects_short a)
      then QueryHostname else query_type_of text1)"

lemma next_query:
  "fst (snd (find_leases_in_app ags text1 a q k)) =
     (if q = QueryIdentifier \<and> count_hex_identifier_bytes text1 < 3 \<and> rejects_short a then QueryHostname else q)"
  by (cases q) (auto simp: find_leases_in_app_def refined_query_def rejects_short_def Let_def
    split: sum.splits prod.splits)

lemma search_apps_from:
  "find_leases_in_apps ags text1 (drop i apps) (query_at text1 apps i) k =
     search_apps ags text1 (map (\<lambda>j. (apps ! j, query_at text1 apps j)) [i..<length apps]) k"
proof (induction "length apps - i" arbitrary: i k)
  case (Suc n)
  then have i: "i < length apps" by simp
  let ?q = "query_at text1 apps i"
  have q: "fst (snd (find_leases_in_app ags text1 (apps ! i) ?q k)) = query_at text1 apps (Suc i)"
    unfolding next_query by (auto simp: query_at_def take_Suc_conv_app_nth [OF i])
  obtain leases erred k' where f: "find_leases_in_app ags text1 (apps ! i) ?q k = ((leases, erred), query_at text1 apps (Suc i), k')"
    using q by (metis prod.exhaust_sel)
  have "n = length apps - Suc i" using Suc.hyps(2) by simp
  from Suc.hyps(1) [OF this] show ?case
    by (simp add: Cons_nth_drop_Suc [OF i, symmetric] upt_conv_Cons [OF i] f)
qed simp

text \<open>
  C30: What is searched for in each app: a text that is an address is searched for as an address,
  another one as an identifier if it consists of hexadecimal digits, and as a hostname if not.
  A text of less than three bytes is searched for as a hostname from the first app on that is
  a DHCPv6 server since 2.3.8, also in the apps after it that know such identifiers; so the
  leases that are found depend on the order of the apps.
\<close>

theorem leases_searched:
  "find_leases ags (Inr apps) text1 k =
     (case search_apps ags text1 (map (\<lambda>i. (apps ! i, query_at text1 apps i)) [0..<length apps]) k of (r, k) \<Rightarrow> (Inr r, k))"
proof -
  have "query_at text1 apps 0 = query_type_of text1" by (simp add: query_at_def)
  with search_apps_from [of ags text1 0 apps k] show ?thesis by (simp add: find_leases_def)
qed

end
