(* ===== verification/Config_Manager.thy ===== *)
theory Config_Manager
  imports Stork_Prelude
begin

text \<open>
  The configuration manager: \<open>server/apps/manager.go\<close> with the contexts of \<open>server/config/context.go\<close>.
  A transaction of a user is a context with a number; the daemons it changes are locked with a
  key, and a goroutine ends it when the user is idle.  The methods are steps under the mutex;
  random numbers, the time and the data of the transaction are arguments.
\<close>

section \<open>Contexts and locks\<close>

text \<open>
  The values of a context, and the marks of the cancel functions it was made with: it is done when
  one of them has been called.
\<close>

record 's config_ctx =
  cx_id :: "int option"
  cx_user :: "int option"
  cx_lock :: "int option"
  cx_daemons :: "int list option"
  cx_state :: "'s option"
  cx_marks :: "nat list"

record config_lock =
  cl_key :: int
  cl_user :: int

record 's config_manager =
  mg_contexts :: "int \<rightharpoonup> 's config_ctx \<times> nat"
  mg_locks :: "int \<rightharpoonup> config_lock"
  mg_key :: int
  mg_cancelled :: "nat \<Rightarrow> bool"
  mg_timers :: "'s config_ctx list"
  mg_mark :: nat

definition new_manager :: "'s config_manager" where
  "new_manager = \<lparr>mg_contexts = Map.empty, mg_locks = Map.empty, mg_key = 0,
     mg_cancelled = (\<lambda>_. False), mg_timers = [], mg_mark = 0\<rparr>"

definition empty_ctx :: "'s config_ctx" where
  "empty_ctx = \<lparr>cx_id = None, cx_user = None, cx_lock = None, cx_daemons = None, cx_state = None, cx_marks = []\<rparr>"

datatype manager_error = RandomFailed string | NoUniqueContext | LockedBy int int | LacksLockKey | LacksUser | LacksContextId
  | UserMismatch | LacksState

definition generate_key :: "'s config_manager \<Rightarrow> int \<times> 's config_manager" where
  "generate_key m = (mg_key m + 1, m\<lparr>mg_key := mg_key m + 1\<rparr>)"

text \<open>The numbers are those of the random source, of which at most ten are tried.\<close>

fun try_context_ids :: "nat \<Rightarrow> (string + int) list \<Rightarrow> 's config_manager \<Rightarrow> manager_error + int" where
  "try_context_ids 0 rs m = Inl NoUniqueContext"
| "try_context_ids (Suc n) [] m = Inl NoUniqueContext"
| "try_context_ids (Suc n) (Inl e # rs) m = Inl (RandomFailed e)"
| "try_context_ids (Suc n) (Inr r # rs) m = (if mg_contexts m r = None then Inr r else try_context_ids n rs m)"

definition generate_context_id :: "(string + int) list \<Rightarrow> 's config_manager \<Rightarrow> manager_error + int" where
  "generate_context_id rs m = try_context_ids 10 rs m"

definition is_locked :: "int \<Rightarrow> 's config_manager \<Rightarrow> int \<times> bool" where
  "is_locked i m = (case mg_locks m i of Some l \<Rightarrow> (cl_user l, True) | None \<Rightarrow> (0, False))"

definition lock_daemon :: "'s config_ctx \<Rightarrow> int \<Rightarrow> 's config_manager \<Rightarrow> manager_error option \<times> 's config_manager" where
  "lock_daemon c i m =
     (let (user, locked) = is_locked i m in
      if locked then (Some (LockedBy i user), m)
      else (case cx_lock c of
              None \<Rightarrow> (Some LacksLockKey, m)
            | Some k \<Rightarrow>
                (case cx_user c of
                   None \<Rightarrow> (Some LacksUser, m)
                 | Some u \<Rightarrow> (None, m\<lparr>mg_locks := (mg_locks m)(i \<mapsto> \<lparr>cl_key = k, cl_user = u\<rparr>)\<rparr>))))"

definition unlock_daemon :: "'s config_ctx \<Rightarrow> int \<Rightarrow> 's config_manager \<Rightarrow> 's config_manager" where
  "unlock_daemon c i m =
     (case cx_lock c of
        None \<Rightarrow> m
      | Some k \<Rightarrow>
          (case mg_locks m i of
             Some l \<Rightarrow> if cl_key l = k then m\<lparr>mg_locks := (mg_locks m)(i := None)\<rparr> else m
           | None \<Rightarrow> m))"

definition unlock_daemons :: "'s config_ctx \<Rightarrow> 's config_manager \<Rightarrow> 's config_manager" where
  "unlock_daemons c m = (case cx_daemons c of Some ids \<Rightarrow> fold (unlock_daemon c) ids m | None \<Rightarrow> m)"

definition create_context :: "(string + int) list \<Rightarrow> int \<Rightarrow> 's config_manager \<Rightarrow> manager_error + 's config_ctx" where
  "create_context rs user m =
     (case generate_context_id rs m of
        Inl e \<Rightarrow> Inl e
      | Inr i \<Rightarrow> Inr (empty_ctx\<lparr>cx_id := Some i, cx_user := Some user\<rparr>))"

text \<open>The locks that are left from a failed attempt are those from the first place of the daemon on.\<close>

fun lock_all :: "'s config_ctx \<Rightarrow> int list \<Rightarrow> int list \<Rightarrow> 's config_manager \<Rightarrow> manager_error option \<times> 's config_manager" where
  "lock_all c ids [] m = (None, m)"
| "lock_all c ids (i # is') m =
     (case lock_daemon c i m of
        (Some err, m) \<Rightarrow> (Some err, fold (unlock_daemon c) (takeWhile (\<lambda>u. u \<noteq> i) ids) m)
      | (None, m) \<Rightarrow> lock_all c ids is' m)"

definition lock_configs ::
    "'s config_ctx \<Rightarrow> int list \<Rightarrow> 's config_manager \<Rightarrow> ('s config_ctx \<times> manager_error option) \<times> 's config_manager" where
  "lock_configs c ids m =
     (let (k, m) = generate_key m; c = c\<lparr>cx_lock := Some k\<rparr> in
      case lock_all c ids ids m of
        (Some err, m) \<Rightarrow> ((c, Some err), m)
      | (None, m) \<Rightarrow> ((c\<lparr>cx_daemons := Some ids\<rparr>, None), m))"

definition cancel :: "nat \<Rightarrow> 's config_manager \<Rightarrow> 's config_manager" where
  "cancel t m = m\<lparr>mg_cancelled := (mg_cancelled m)(t := True)\<rparr>"

definition ctx_done :: "'s config_ctx \<Rightarrow> 's config_manager \<Rightarrow> bool" where
  "ctx_done c m = list_ex (mg_cancelled m) (cx_marks c)"

text \<open>A context that replaces another one of the user ends the goroutine of that one and starts its own.\<close>

definition remember_context :: "'s config_ctx \<Rightarrow> 's config_manager \<Rightarrow> manager_error option \<times> 's config_manager" where
  "remember_context c m =
     (case cx_id c of None \<Rightarrow> (Some LacksContextId, m) | Some i \<Rightarrow>
     (case cx_user c of None \<Rightarrow> (Some LacksUser, m) | Some u \<Rightarrow>
     (let store = (\<lambda>m. let c' = c\<lparr>cx_marks := mg_mark m # cx_marks c\<rparr> in
            m\<lparr>mg_contexts := (mg_contexts m)(i \<mapsto> (c', mg_mark m)), mg_timers := mg_timers m @ [c'], mg_mark := mg_mark m + 1\<rparr>) in
      case mg_contexts m i of
        None \<Rightarrow> (None, store m)
      | Some (old, t) \<Rightarrow>
          if cx_user old \<noteq> Some u then (Some UserMismatch, m)
          else (None, store (cancel t m)))))"

definition recover_context :: "int \<Rightarrow> int \<Rightarrow> 's config_manager \<Rightarrow> 's config_ctx option" where
  "recover_context i u m =
     (case mg_contexts m i of
        Some (c, t) \<Rightarrow> if cx_user c = Some u then Some c else None
      | None \<Rightarrow> None)"

definition context_ended :: "'s config_ctx \<Rightarrow> 's config_manager \<Rightarrow> 's config_manager" where
  "context_ended c m =
     (let m = (case cx_id c of
                 None \<Rightarrow> m
               | Some i \<Rightarrow>
                   (case mg_contexts m i of
                      None \<Rightarrow> m
                    | Some (c', t) \<Rightarrow> (cancel t m)\<lparr>mg_contexts := (mg_contexts m)(i := None)\<rparr>))
      in unlock_daemons c m)"

section \<open>Runs\<close>

text \<open>
  What is done to a manager, with any contexts, and the ends of the goroutines: one whose time is
  over ends its context, and one whose context is done just stops.
\<close>

datatype 's manager_event =
    LockConfigs "'s config_ctx" "int list"
  | UnlockConfigs "'s config_ctx"
  | RememberContext "'s config_ctx"
  | ContextDone "'s config_ctx"
  | TimeOver "'s config_ctx"
  | TimerStops "'s config_ctx"

fun manager_step :: "'s manager_event \<Rightarrow> 's config_manager \<Rightarrow> 's config_manager" where
  "manager_step (LockConfigs c ids) m = snd (lock_configs c ids m)"
| "manager_step (UnlockConfigs c) m = unlock_daemons c m"
| "manager_step (RememberContext c) m = snd (remember_context c m)"
| "manager_step (ContextDone c) m = context_ended c m"
| "manager_step (TimeOver c) m =
     (if c \<in> set (mg_timers m) then context_ended c (m\<lparr>mg_timers := remove1 c (mg_timers m)\<rparr>) else m)"
| "manager_step (TimerStops c) m =
     (if c \<in> set (mg_timers m) \<and> ctx_done c m then m\<lparr>mg_timers := remove1 c (mg_timers m)\<rparr> else m)"

definition run_manager :: "'s manager_event list \<Rightarrow> 's config_manager \<Rightarrow> 's config_manager" where
  "run_manager = fold manager_step"

text \<open>The context with which an event may give back locks.\<close>

fun releasing_ctx :: "'s manager_event \<Rightarrow> 's config_ctx option" where
  "releasing_ctx (UnlockConfigs c) = Some c"
| "releasing_ctx (ContextDone c) = Some c"
| "releasing_ctx (TimeOver c) = Some c"
| "releasing_ctx _ = None"

definition releases :: "int \<Rightarrow> 's manager_event \<Rightarrow> bool" where
  "releases k e = (case releasing_ctx e of None \<Rightarrow> False | Some c \<Rightarrow> cx_lock c = Some k)"

section \<open>Locks\<close>

lemma unlock_daemon_locks:
  "mg_locks (unlock_daemon c i m) =
     (if (\<exists>l. mg_locks m i = Some l \<and> cx_lock c = Some (cl_key l)) then (mg_locks m)(i := None) else mg_locks m)"
  "mg_key (unlock_daemon c i m) = mg_key m"
  "mg_contexts (unlock_daemon c i m) = mg_contexts m" "mg_timers (unlock_daemon c i m) = mg_timers m"
  "mg_cancelled (unlock_daemon c i m) = mg_cancelled m" "mg_mark (unlock_daemon c i m) = mg_mark m"
  by (auto simp: unlock_daemon_def split: option.splits)

lemma fold_unlock_locks:
  "mg_locks (fold (unlock_daemon c) ids m) j =
     (if j \<in> set ids \<and> (\<exists>l. mg_locks m j = Some l \<and> cx_lock c = Some (cl_key l)) then None else mg_locks m j)"
  by (induction ids arbitrary: m) (auto simp: unlock_daemon_locks)

lemma fold_unlock_keeps:
  "mg_key (fold (unlock_daemon c) ids m) = mg_key m" "mg_contexts (fold (unlock_daemon c) ids m) = mg_contexts m"
  "mg_timers (fold (unlock_daemon c) ids m) = mg_timers m" "mg_cancelled (fold (unlock_daemon c) ids m) = mg_cancelled m"
  "mg_mark (fold (unlock_daemon c) ids m) = mg_mark m"
  by (induction ids arbitrary: m) (simp_all add: unlock_daemon_locks)

lemma unlock_daemons_locks:
  "mg_locks (unlock_daemons c m) j =
     (if j \<in> set (case cx_daemons c of None \<Rightarrow> [] | Some ids \<Rightarrow> ids) \<and> (\<exists>l. mg_locks m j = Some l \<and> cx_lock c = Some (cl_key l))
      then None else mg_locks m j)"
  by (auto simp: unlock_daemons_def fold_unlock_locks split: option.splits)

lemma unlock_daemons_keeps:
  "mg_key (unlock_daemons c m) = mg_key m" "mg_contexts (unlock_daemons c m) = mg_contexts m"
  "mg_timers (unlock_daemons c m) = mg_timers m" "mg_cancelled (unlock_daemons c m) = mg_cancelled m"
  "mg_mark (unlock_daemons c m) = mg_mark m"
  by (simp_all add: unlock_daemons_def fold_unlock_keeps split: option.split)

lemma context_ended_keeps:
  "mg_locks (context_ended c m) = mg_locks (unlock_daemons c m)" "mg_key (context_ended c m) = mg_key m"
  "mg_timers (context_ended c m) = mg_timers m" "mg_mark (context_ended c m) = mg_mark m"
  by (auto simp: context_ended_def unlock_daemons_keeps unlock_daemons_locks cancel_def split: option.splits intro!: ext)

text \<open>The keys of the locks are those that have been handed out.\<close>

definition keys_known :: "'s config_manager \<Rightarrow> bool" where
  "keys_known m = (\<forall>i l. mg_locks m i = Some l \<longrightarrow> cl_key l \<le> mg_key m)"

lemma lock_all_cases:
  assumes "cx_lock c = Some k" and "cx_user c = Some u" and "lock_all c ids is' m = (err, m')"
  obtains (locked) "err = None" "distinct is'" "\<forall>i \<in> set is'. mg_locks m i = None"
      "mg_locks m' = (\<lambda>i. if i \<in> set is' then Some \<lparr>cl_key = k, cl_user = u\<rparr> else mg_locks m i)"
      "m' = m\<lparr>mg_locks := mg_locks m'\<rparr>"
    | (refused) js i ks where "err \<noteq> None" "is' = js @ i # ks" "distinct js" "\<forall>j \<in> set js. mg_locks m j = None"
      "mg_locks m i \<noteq> None \<or> i \<in> set js"
      "m' = fold (unlock_daemon c) (takeWhile (\<lambda>x. x \<noteq> i) ids)
        (m\<lparr>mg_locks := \<lambda>j. if j \<in> set js then Some \<lparr>cl_key = k, cl_user = u\<rparr> else mg_locks m j\<rparr>)"
proof -
  have "(err = None \<and> distinct is' \<and> (\<forall>i \<in> set is'. mg_locks m i = None) \<and>
      m' = m\<lparr>mg_locks := \<lambda>i. if i \<in> set is' then Some \<lparr>cl_key = k, cl_user = u\<rparr> else mg_locks m i\<rparr>) \<or>
    (\<exists>js i ks. err \<noteq> None \<and> is' = js @ i # ks \<and> distinct js \<and> (\<forall>j \<in> set js. mg_locks m j = None) \<and>
      (mg_locks m i \<noteq> None \<or> i \<in> set js) \<and>
      m' = fold (unlock_daemon c) (takeWhile (\<lambda>x. x \<noteq> i) ids)
        (m\<lparr>mg_locks := \<lambda>j. if j \<in> set js then Some \<lparr>cl_key = k, cl_user = u\<rparr> else mg_locks m j\<rparr>))"
    using assms(3)
  proof (induction is' arbitrary: m)
    case Nil
    then show ?case by simp
  next
    case (Cons i is')
    show ?case
    proof (cases "mg_locks m i")
      case (Some l)
      then have "err \<noteq> None \<and> m' = fold (unlock_daemon c) (takeWhile (\<lambda>x. x \<noteq> i) ids) m"
        using Cons(2) by (auto simp: lock_daemon_def is_locked_def)
      with Some show ?thesis by (intro disjI2 exI [of _ "[]"] exI [of _ i] exI [of _ is']) simp
    next
      case None
      let ?m = "m\<lparr>mg_locks := (mg_locks m)(i \<mapsto> \<lparr>cl_key = k, cl_user = u\<rparr>)\<rparr>"
      have "lock_all c ids is' ?m = (err, m')"
        using Cons(2) None assms(1,2) by (simp add: lock_daemon_def is_locked_def)
      from Cons(1) [OF this] consider
        (locked) "err = None" "distinct is'" "\<forall>j \<in> set is'. mg_locks ?m j = None"
          "m' = ?m\<lparr>mg_locks := \<lambda>j. if j \<in> set is' then Some \<lparr>cl_key = k, cl_user = u\<rparr> else mg_locks ?m j\<rparr>"
      | (refused) js j ks where "err \<noteq> None" "is' = js @ j # ks" "distinct js" "\<forall>j \<in> set js. mg_locks ?m j = None"
          "mg_locks ?m j \<noteq> None \<or> j \<in> set js"
          "m' = fold (unlock_daemon c) (takeWhile (\<lambda>x. x \<noteq> j) ids)
            (?m\<lparr>mg_locks := \<lambda>j. if j \<in> set js then Some \<lparr>cl_key = k, cl_user = u\<rparr> else mg_locks ?m j\<rparr>)"
        by blast
      then show ?thesis
      proof cases
        case a: locked
        then have "i \<notin> set is'" by auto
        with a None show ?thesis
          by (intro disjI1) (auto intro!: arg_cong [of _ _ "\<lambda>f. m\<lparr>mg_locks := f\<rparr>"] split: if_splits)
      next
        case a: refused
        have "i \<notin> set js" using a(4) by auto
        moreover have "(\<lambda>j. if j \<in> set (i # js) then Some \<lparr>cl_key = k, cl_user = u\<rparr> else mg_locks m j) =
            (\<lambda>j. if j \<in> set js then Some \<lparr>cl_key = k, cl_user = u\<rparr> else mg_locks ?m j)" by auto
        ultimately show ?thesis using a None
          by (intro disjI2 exI [of _ "i # js"] exI [of _ j] exI [of _ ks]) (auto split: if_splits)
      qed
    qed
  qed
  then consider (l) "err = None" "distinct is'" "\<forall>i \<in> set is'. mg_locks m i = None"
      "m' = m\<lparr>mg_locks := \<lambda>i. if i \<in> set is' then Some \<lparr>cl_key = k, cl_user = u\<rparr> else mg_locks m i\<rparr>"
    | (r) js i ks where "err \<noteq> None" "is' = js @ i # ks" "distinct js" "\<forall>j \<in> set js. mg_locks m j = None"
      "mg_locks m i \<noteq> None \<or> i \<in> set js"
      "m' = fold (unlock_daemon c) (takeWhile (\<lambda>x. x \<noteq> i) ids)
        (m\<lparr>mg_locks := \<lambda>j. if j \<in> set js then Some \<lparr>cl_key = k, cl_user = u\<rparr> else mg_locks m j\<rparr>)"
    by blast
  then show thesis
  proof cases
    case l
    show thesis by (rule locked) (simp_all add: l)
  next
    case r
    then show thesis by (rule refused)
  qed
qed

text \<open>
  C36: Locking the configurations of daemons that are all different is all or nothing: it succeeds
  exactly when none of them is locked, then they have a new key and the user of the transaction,
  and otherwise the locks are those there were.
\<close>

theorem locks_all_or_nothing:
  assumes "keys_known m" and "distinct ids" and "cx_user c = Some u" and "lock_configs c ids m = ((c', err), m')"
  shows "(err = None \<longleftrightarrow> (\<forall>i \<in> set ids. mg_locks m i = None)) \<and> cx_lock c' = Some (mg_key m + 1) \<and>
    (err = None \<longrightarrow> cx_daemons c' = Some ids) \<and>
    mg_locks m' = (if err = None then (\<lambda>i. if i \<in> set ids then Some \<lparr>cl_key = mg_key m + 1, cl_user = u\<rparr> else mg_locks m i)
      else mg_locks m)"
proof -
  let ?c = "c\<lparr>cx_lock := Some (mg_key m + 1)\<rparr>" and ?m = "m\<lparr>mg_key := mg_key m + 1\<rparr>"
  obtain e m1 where l: "lock_all ?c ids ids ?m = (e, m1)" by fastforce
  with assms(4) have eq: "err = e" "m' = m1" "c' = (if e = None then ?c\<lparr>cx_daemons := Some ids\<rparr> else ?c)"
    by (auto simp: lock_configs_def generate_key_def Let_def split: option.splits)
  have new: "mg_locks m j \<noteq> Some l" if "cl_key l = mg_key m + 1" for j l
    using assms(1) that by (fastforce simp: keys_known_def)
  have c: "cx_lock ?c = Some (mg_key m + 1)" "cx_user ?c = Some u" using assms(3) by simp_all
  from c l show ?thesis
  proof (cases rule: lock_all_cases)
    case locked
    then show ?thesis by (simp add: eq cong: if_cong)
  next
    case (refused js i ks)
    have i: "i \<notin> set js" "mg_locks m i \<noteq> None" using refused(2,5) assms(2) by auto
    have "takeWhile (\<lambda>x. x \<noteq> i) (js @ i # ks) = js" using i(1) by (induction js) auto
    then have tw: "takeWhile (\<lambda>x. x \<noteq> i) ids = js" by (simp add: refused(2))
    have "mg_locks m1 j = mg_locks m j" for j
      using refused(4) new by (auto simp: refused(6) tw fold_unlock_locks)
    then have "mg_locks m1 = mg_locks m" by blast
    moreover have "\<not> (\<forall>i \<in> set ids. mg_locks m i = None)" using i(2) refused(2) by auto
    moreover obtain y where "e = Some y" using refused(1) by blast
    ultimately show ?thesis by (simp add: eq)
  qed
qed

text \<open>Where a key may be: on daemons that were locked with it, and nowhere when it has not been handed out.\<close>

definition key_within :: "int \<Rightarrow> int set \<Rightarrow> 's config_manager \<Rightarrow> bool" where
  "key_within k S m = (k \<le> mg_key m \<and> (\<forall>i l. mg_locks m i = Some l \<and> cl_key l = k \<longrightarrow> i \<in> S))"

lemma lock_configs_locks:
  assumes "lock_configs c ids m = ((c', err), m')"
  shows "mg_key m' = mg_key m + 1" and "cx_lock c' = Some (mg_key m + 1)"
    and "mg_locks m' i = mg_locks m i \<or> (\<exists>u. mg_locks m i = None \<and> mg_locks m' i = Some \<lparr>cl_key = mg_key m + 1, cl_user = u\<rparr>) \<or>
      (\<exists>l. mg_locks m i = Some l \<and> cl_key l = mg_key m + 1 \<and> mg_locks m' i = None)"
    and "mg_contexts m' = mg_contexts m" "mg_timers m' = mg_timers m" "mg_cancelled m' = mg_cancelled m" "mg_mark m' = mg_mark m"
proof -
  let ?c = "c\<lparr>cx_lock := Some (mg_key m + 1)\<rparr>" and ?m = "m\<lparr>mg_key := mg_key m + 1\<rparr>"
  obtain e m1 where l: "lock_all ?c ids ids ?m = (e, m1)" by fastforce
  with assms have eq: "m' = m1" "cx_lock c' = Some (mg_key m + 1)"
    by (auto simp: lock_configs_def generate_key_def Let_def split: option.splits)
  then show "cx_lock c' = Some (mg_key m + 1)" by simp
  show "mg_key m' = mg_key m + 1" "mg_contexts m' = mg_contexts m" "mg_timers m' = mg_timers m" "mg_cancelled m' = mg_cancelled m"
    "mg_mark m' = mg_mark m"
    and "mg_locks m' i = mg_locks m i \<or> (\<exists>u. mg_locks m i = None \<and> mg_locks m' i = Some \<lparr>cl_key = mg_key m + 1, cl_user = u\<rparr>) \<or>
      (\<exists>l. mg_locks m i = Some l \<and> cl_key l = mg_key m + 1 \<and> mg_locks m' i = None)"
  proof -
    have k: "cx_lock ?c = Some (mg_key m + 1)" by simp
    have "mg_key m1 = mg_key ?m \<and> mg_contexts m1 = mg_contexts ?m \<and> mg_timers m1 = mg_timers ?m \<and> mg_cancelled m1 = mg_cancelled ?m \<and>
        mg_mark m1 = mg_mark ?m \<and>
        (mg_locks m1 i = mg_locks ?m i \<or> (\<exists>u. mg_locks ?m i = None \<and> mg_locks m1 i = Some \<lparr>cl_key = mg_key m + 1, cl_user = u\<rparr>) \<or>
          (\<exists>l. mg_locks ?m i = Some l \<and> cl_key l = mg_key m + 1 \<and> mg_locks m1 i = None))"
    proof (cases "cx_user c")
      case None
      have "lock_daemon ?c i M = (err, M') \<Longrightarrow> err \<noteq> None \<and> M' = M" for i M err M'
        using None by (auto simp: lock_daemon_def is_locked_def split: option.splits)
      then have "m1 = ?m \<or> (\<exists>j. m1 = fold (unlock_daemon ?c) (takeWhile (\<lambda>x. x \<noteq> j) ids) ?m)"
        using l by (cases ids) (auto split: prod.splits option.splits)
      then show ?thesis
      proof
        assume "\<exists>j. m1 = fold (unlock_daemon ?c) (takeWhile (\<lambda>x. x \<noteq> j) ids) ?m"
        then show ?thesis
          by (cases "mg_locks m i") (auto simp: fold_unlock_locks fold_unlock_keeps split: if_splits)
      qed simp
    next
      case (Some u)
      then have u: "cx_user ?c = Some u" by simp
      from k u l show ?thesis
      proof (cases rule: lock_all_cases)
        case locked
        note f = locked(5) [THEN arg_cong, of mg_key] locked(5) [THEN arg_cong, of mg_contexts] locked(5) [THEN arg_cong, of mg_timers]
          locked(5) [THEN arg_cong, of mg_cancelled] locked(5) [THEN arg_cong, of mg_mark]
        show ?thesis using locked(3) f by (auto simp: locked(4))
      next
        case (refused js i' ks)
        show ?thesis unfolding refused(6)
          by (cases "mg_locks m i"; cases "i \<in> set js") (use refused(4) in \<open>auto simp: fold_unlock_locks fold_unlock_keeps split: if_splits\<close>)
      qed
    qed
    then show "mg_key m' = mg_key m + 1" "mg_contexts m' = mg_contexts m" "mg_timers m' = mg_timers m" "mg_cancelled m' = mg_cancelled m"
      "mg_mark m' = mg_mark m"
      "mg_locks m' i = mg_locks m i \<or> (\<exists>u. mg_locks m i = None \<and> mg_locks m' i = Some \<lparr>cl_key = mg_key m + 1, cl_user = u\<rparr>) \<or>
        (\<exists>l. mg_locks m i = Some l \<and> cl_key l = mg_key m + 1 \<and> mg_locks m' i = None)"
      by (simp_all add: eq)
  qed
qed

text \<open>What a step does to the lock of a daemon.\<close>

lemma manager_step_locks:
  "mg_key m \<le> mg_key (manager_step e m) \<and>
   (mg_locks (manager_step e m) i = mg_locks m i \<or>
    (\<exists>l. mg_locks (manager_step e m) i = Some l \<and> mg_locks m i = None \<and> cl_key l > mg_key m \<and> cl_key l \<le> mg_key (manager_step e m)) \<or>
    (\<exists>l. mg_locks m i = Some l \<and> mg_locks (manager_step e m) i = None \<and> (releases (cl_key l) e \<or> cl_key l > mg_key m)))"
proof (cases e)
  case (LockConfigs c ids)
  obtain c' err m' where l: "lock_configs c ids m = ((c', err), m')" by (metis prod.exhaust)
  from lock_configs_locks(1) [OF l] lock_configs_locks(3) [OF l, of i] show ?thesis by (auto simp: LockConfigs l)
next
  case (RememberContext c)
  have "mg_key (snd (remember_context c m)) = mg_key m" "mg_locks (snd (remember_context c m)) = mg_locks m"
    by (auto simp: remember_context_def cancel_def Let_def split: option.split prod.split)
  then show ?thesis by (simp add: RememberContext)
qed (auto simp: unlock_daemons_locks unlock_daemons_keeps context_ended_keeps releases_def)

lemma manager_step_new:
  "mg_locks (manager_step e m) i = Some l \<Longrightarrow>
     mg_locks m i = Some l \<or> (cl_key l > mg_key m \<and> cl_key l \<le> mg_key (manager_step e m))"
  using manager_step_locks [of m e i] by auto

lemma manager_step_key: "mg_key m \<le> mg_key (manager_step e m)"
  using manager_step_locks [of m e 0] by blast

lemma run_manager_Cons [simp]: "run_manager (e # es) m = run_manager es (manager_step e m)"
  by (simp add: run_manager_def)

lemma run_manager_Nil [simp]: "run_manager [] m = m"
  by (simp add: run_manager_def)

lemma keys_known_run: "keys_known m \<Longrightarrow> keys_known (run_manager es m)"
proof (induction es arbitrary: m)
  case (Cons e es)
  have "keys_known (manager_step e m)"
    unfolding keys_known_def
  proof (intro allI impI)
    fix i l assume "mg_locks (manager_step e m) i = Some l"
    with manager_step_new [of e m i l] manager_step_key [of m e] Cons(2) show "cl_key l \<le> mg_key (manager_step e m)"
      by (fastforce simp: keys_known_def)
  qed
  from Cons(1) [OF this] show ?case by simp
qed simp

lemma lock_kept_run:
  "keys_known m \<Longrightarrow> mg_locks m i = Some l \<Longrightarrow> \<forall>e \<in> set es. \<not> releases (cl_key l) e \<Longrightarrow> mg_locks (run_manager es m) i = Some l"
proof (induction es arbitrary: m)
  case (Cons e es)
  have "keys_known (manager_step e m)" using keys_known_run [OF Cons(2), of "[e]"] by simp
  moreover have "mg_locks (manager_step e m) i = Some l"
    using manager_step_locks [of m e i] Cons(2-4) by (fastforce simp: keys_known_def)
  ultimately show ?case using Cons(1,4) by simp
qed simp

lemma key_within_run: "key_within k S m \<Longrightarrow> key_within k S (run_manager es m)"
proof (induction es arbitrary: m)
  case (Cons e es)
  have "key_within k S (manager_step e m)"
    unfolding key_within_def
  proof (intro conjI allI impI)
    show "k \<le> mg_key (manager_step e m)"
      using manager_step_key [of m e] Cons(2) by (simp add: key_within_def)
    fix i l assume "mg_locks (manager_step e m) i = Some l \<and> cl_key l = k"
    with manager_step_new [of e m i l] Cons(2) show "i \<in> S" by (auto simp: key_within_def)
  qed
  from Cons(1) [OF this] show ?case by simp
qed simp

lemma lock_configs_new_key:
  assumes "keys_known m" and "lock_configs c ids m = ((c', None), m1)"
  shows "\<forall>i \<in> set ids. \<exists>u. cx_user c = Some u \<and> mg_locks m1 i = Some \<lparr>cl_key = mg_key m + 1, cl_user = u\<rparr>"
    and "key_within (mg_key m + 1) (set ids) m1"
    and "c' = c\<lparr>cx_lock := Some (mg_key m + 1), cx_daemons := Some ids\<rparr>"
proof -
  let ?k = "mg_key m + 1" and ?c = "c\<lparr>cx_lock := Some (mg_key m + 1)\<rparr>" and ?m = "m\<lparr>mg_key := mg_key m + 1\<rparr>"
  from assms(2) have l: "lock_all ?c ids ids ?m = (None, m1)" and c': "c' = ?c\<lparr>cx_daemons := Some ids\<rparr>"
    by (auto simp: lock_configs_def generate_key_def Let_def split: option.splits prod.splits)
  have new: "mg_locks m j \<noteq> Some l" if "cl_key l = ?k" for j l
    using assms(1) that by (fastforce simp: keys_known_def)
  have key: "mg_key m1 = ?k" using lock_configs_locks(1) [OF assms(2)] .
  show "c' = c\<lparr>cx_lock := Some ?k, cx_daemons := Some ids\<rparr>" using c' by simp
  show "\<forall>i \<in> set ids. \<exists>u. cx_user c = Some u \<and> mg_locks m1 i = Some \<lparr>cl_key = ?k, cl_user = u\<rparr>"
  proof (cases "cx_user c")
    case None
    with l show ?thesis by (cases ids) (auto simp: lock_daemon_def split: prod.splits if_splits)
  next
    case (Some u)
    then have cu: "cx_lock ?c = Some ?k" "cx_user ?c = Some u" by simp_all
    from cu l show ?thesis by (cases rule: lock_all_cases) (use Some in auto)
  qed
  show "key_within ?k (set ids) m1"
    unfolding key_within_def
  proof (intro conjI allI impI)
    fix i l assume a: "mg_locks m1 i = Some l \<and> cl_key l = ?k"
    show "i \<in> set ids"
    proof (cases "cx_user c")
      case None
      with l have "m1 = ?m" by (cases ids) (auto simp: lock_daemon_def split: prod.splits if_splits)
      with a new show ?thesis by auto
    next
      case (Some u)
      then have cu: "cx_lock ?c = Some ?k" "cx_user ?c = Some u" by simp_all
      from cu l show ?thesis by (cases rule: lock_all_cases) (use a new in \<open>auto split: if_splits\<close>)
    qed
  qed (simp add: key)
qed

text \<open>
  C35: The daemons that were locked for a transaction stay locked with its key whatever is done with
  contexts of other keys, by anyone and also by the goroutines; once the transaction has ended,
  nothing is ever locked with its key again.
\<close>

theorem locks_held_until_released:
  assumes "keys_known m" and "lock_configs c ids m = ((c', None), m1)"
  shows "((\<forall>e \<in> set es. \<not> releases (mg_key m + 1) e) \<longrightarrow>
      (\<forall>i \<in> set ids. \<exists>u. cx_user c = Some u \<and> mg_locks (run_manager es m1) i = Some \<lparr>cl_key = mg_key m + 1, cl_user = u\<rparr>)) \<and>
    (\<forall>i l. mg_locks (run_manager fs (context_ended c' (run_manager es m1))) i = Some l \<longrightarrow> cl_key l \<noteq> mg_key m + 1)"
proof -
  let ?k = "mg_key m + 1"
  have known: "keys_known m1"
    using keys_known_run [OF assms(1), of "[LockConfigs c ids]"] assms(2) by simp
  have gone: "key_within ?k {} (context_ended c' (run_manager es m1))"
    using key_within_run [OF lock_configs_new_key(2) [OF assms], of es]
    by (auto simp: key_within_def context_ended_keeps unlock_daemons_locks lock_configs_new_key(3) [OF assms] split: if_splits)
  have "cl_key l \<noteq> ?k" if "mg_locks (run_manager fs (context_ended c' (run_manager es m1))) i = Some l" for i l
    using key_within_run [OF gone, of fs] that by (auto simp: key_within_def)
  moreover have "\<exists>u. cx_user c = Some u \<and> mg_locks (run_manager es m1) i = Some \<lparr>cl_key = ?k, cl_user = u\<rparr>"
    if i: "i \<in> set ids" and es: "\<forall>e \<in> set es. \<not> releases ?k e" for i
  proof -
    from lock_configs_new_key(1) [OF assms] i obtain u
      where u: "cx_user c = Some u" "mg_locks m1 i = Some \<lparr>cl_key = ?k, cl_user = u\<rparr>" by blast
    from lock_kept_run [OF known u(2)] es u(1) show ?thesis by simp
  qed
  ultimately show ?thesis by blast
qed

text \<open>A transaction that is locked, ended by its goroutine and locked again by another user.\<close>

definition edit_ctx :: "nat config_ctx" where
  "edit_ctx = empty_ctx\<lparr>cx_id := Some 77, cx_user := Some 5\<rparr>"

lemma keys_known_new: "keys_known new_manager"
  by (simp add: keys_known_def new_manager_def)

lemma edit_ctx_locked:
  "lock_configs edit_ctx [1, 2] new_manager = ((fst (fst (lock_configs edit_ctx [1, 2] new_manager)), None),
     snd (lock_configs edit_ctx [1, 2] new_manager))"
  by (simp add: lock_configs_def generate_key_def new_manager_def edit_ctx_def empty_ctx_def lock_daemon_def is_locked_def)

lemma locks_all_or_nothing_witness:
  "mg_locks (snd (lock_configs edit_ctx [1, 2] new_manager)) 2 = Some \<lparr>cl_key = 1, cl_user = 5\<rparr> \<and>
   mg_locks (snd (lock_configs edit_ctx [1, 2] new_manager)) 3 = None"
proof -
  have "distinct [1 :: int, 2]" "cx_user edit_ctx = Some 5" by (simp_all add: edit_ctx_def)
  from locks_all_or_nothing [OF keys_known_new this edit_ctx_locked] show ?thesis by (simp add: new_manager_def)
qed

lemma locks_held_until_released_witness:
  "mg_locks (run_manager [LockConfigs (edit_ctx\<lparr>cx_user := Some 6\<rparr>) [1], RememberContext edit_ctx]
     (snd (lock_configs edit_ctx [1, 2] new_manager))) 2 = Some \<lparr>cl_key = 1, cl_user = 5\<rparr>"
  using locks_held_until_released [OF keys_known_new edit_ctx_locked,
    where es = "[LockConfigs (edit_ctx\<lparr>cx_user := Some 6\<rparr>) [1], RememberContext edit_ctx]" and fs = "[]"]
  by (simp add: releases_def edit_ctx_def new_manager_def del: run_manager_Cons)

section \<open>Expiry\<close>

text \<open>
  Cancelled marks and marks of stored contexts have been handed out, and a goroutine is one of a
  context that is stored or done.
\<close>

definition timers_known :: "'s config_manager \<Rightarrow> bool" where
  "timers_known m \<longleftrightarrow> (\<forall>t. mg_cancelled m t \<longrightarrow> t < mg_mark m) \<and>
     (\<forall>i c t. mg_contexts m i = Some (c, t) \<longrightarrow> t \<in> set (cx_marks c) \<and> t < mg_mark m) \<and>
     (\<forall>d \<in> set (mg_timers m). ctx_done d m \<or> (\<exists>i t. cx_id d = Some i \<and> mg_contexts m i = Some (d, t)))"

lemma timers_knownD:
  assumes "timers_known m"
  shows "mg_cancelled m t \<Longrightarrow> t < mg_mark m" and "mg_contexts m i = Some (c, t) \<Longrightarrow> t \<in> set (cx_marks c) \<and> t < mg_mark m"
    and "d \<in> set (mg_timers m) \<Longrightarrow> ctx_done d m \<or> (\<exists>i t. cx_id d = Some i \<and> mg_contexts m i = Some (d, t))"
  using assms by (auto simp: timers_known_def)

lemma ctx_done_iff: "ctx_done c m \<longleftrightarrow> (\<exists>t \<in> set (cx_marks c). mg_cancelled m t)"
  by (simp add: ctx_done_def list_ex_iff)

lemma timers_known_unlock: "timers_known (unlock_daemons c m) = timers_known m"
  by (simp add: timers_known_def unlock_daemons_keeps ctx_done_iff)

lemma timers_known_ended:
  assumes "timers_known m"
  shows "timers_known (context_ended c m)"
proof (cases "\<exists>i c' t. cx_id c = Some i \<and> mg_contexts m i = Some (c', t)")
  case False
  then have "context_ended c m = unlock_daemons c m"
    by (auto simp: context_ended_def Let_def split: option.splits)
  with assms show ?thesis by (simp add: timers_known_unlock)
next
  case True
  then obtain i c' t where c: "cx_id c = Some i" "mg_contexts m i = Some (c', t)" by blast
  note t = timers_knownD(2) [OF assms c(2)]
  have "timers_known ((cancel t m)\<lparr>mg_contexts := (mg_contexts m)(i := None)\<rparr>)"
    unfolding timers_known_def
  proof (intro conjI allI impI ballI)
    fix d assume "d \<in> set (mg_timers ((cancel t m)\<lparr>mg_contexts := (mg_contexts m)(i := None)\<rparr>))"
    then have "d \<in> set (mg_timers m)" by (simp add: cancel_def)
    from timers_knownD(3) [OF assms this]
    show "ctx_done d ((cancel t m)\<lparr>mg_contexts := (mg_contexts m)(i := None)\<rparr>) \<or>
      (\<exists>j s. cx_id d = Some j \<and> mg_contexts ((cancel t m)\<lparr>mg_contexts := (mg_contexts m)(i := None)\<rparr>) j = Some (d, s))"
    proof
      assume "ctx_done d m"
      then show ?thesis by (auto simp: ctx_done_iff cancel_def)
    next
      assume "\<exists>j s. cx_id d = Some j \<and> mg_contexts m j = Some (d, s)"
      then obtain j s where j: "cx_id d = Some j" "mg_contexts m j = Some (d, s)" by blast
      show ?thesis
      proof (cases "j = i")
        case True
        then have "t \<in> set (cx_marks d)" using j(2) c(2) t by simp
        then show ?thesis by (intro disjI1) (force simp: ctx_done_iff cancel_def)
      next
        case False
        then show ?thesis using j by simp
      qed
    qed
  qed (use timers_knownD(1,2) [OF assms] t in \<open>auto simp: cancel_def split: if_splits\<close>)
  then show ?thesis by (simp add: context_ended_def c timers_known_unlock)
qed

text \<open>What remembering a context does when it is accepted.\<close>

lemma remember_context_accepted:
  assumes "remember_context c m = (None, m1)" and "cx_id c = Some i"
  shows "mg_timers m1 = mg_timers m @ [c\<lparr>cx_marks := mg_mark m # cx_marks c\<rparr>]" and "mg_mark m1 = mg_mark m + 1"
    and "mg_contexts m1 = (mg_contexts m)(i \<mapsto> (c\<lparr>cx_marks := mg_mark m # cx_marks c\<rparr>, mg_mark m))"
    and "mg_cancelled m1 t \<longleftrightarrow> mg_cancelled m t \<or> (\<exists>old. mg_contexts m i = Some (old, t))"
  using assms by (auto simp: remember_context_def cancel_def Let_def split: option.splits if_splits)

lemma timers_known_remember:
  assumes "timers_known m" and "remember_context c m = (None, m1)"
  shows "timers_known m1"
proof -
  from assms(2) obtain i where i: "cx_id c = Some i" by (auto simp: remember_context_def split: option.splits)
  note r = remember_context_accepted [OF assms(2) i]
  show ?thesis
    unfolding timers_known_def
  proof (intro conjI allI impI ballI)
    fix t assume "mg_cancelled m1 t"
    then show "t < mg_mark m1" using timers_knownD(1,2) [OF assms(1)] by (fastforce simp: r)
  next
    fix d assume "d \<in> set (mg_timers m1)"
    then consider "d = c\<lparr>cx_marks := mg_mark m # cx_marks c\<rparr>" | "d \<in> set (mg_timers m)" by (auto simp: r)
    then show "ctx_done d m1 \<or> (\<exists>i t. cx_id d = Some i \<and> mg_contexts m1 i = Some (d, t))"
    proof cases
      case 1
      then show ?thesis by (simp add: r i)
    next
      case 2
      from timers_knownD(3) [OF assms(1) this] show ?thesis
        using timers_knownD(2) [OF assms(1)] by (fastforce simp: ctx_done_iff r)
    qed
  qed (use timers_knownD(2) [OF assms(1)] in \<open>fastforce simp: r split: if_splits\<close>)+
qed

lemma timers_known_step: "timers_known m \<Longrightarrow> timers_known (manager_step e m)"
proof (cases e)
  case (LockConfigs c ids)
  assume a: "timers_known m"
  obtain c' err m' where l: "lock_configs c ids m = ((c', err), m')" by (metis prod.exhaust)
  show ?thesis using a lock_configs_locks(4-7) [OF l] by (simp add: LockConfigs l timers_known_def ctx_done_iff)
next
  case (RememberContext c)
  assume a: "timers_known m"
  obtain err m' where r: "remember_context c m = (err, m')" by fastforce
  show ?thesis
  proof (cases err)
    case None
    with timers_known_remember [OF a] r show ?thesis by (simp add: RememberContext)
  next
    case (Some x)
    with r have "m' = m" by (auto simp: remember_context_def Let_def split: option.splits if_splits)
    with a r show ?thesis by (simp add: RememberContext)
  qed
next
  case (TimeOver c)
  assume a: "timers_known m"
  have "timers_known (m\<lparr>mg_timers := remove1 c (mg_timers m)\<rparr>)"
    using a by (auto simp: timers_known_def ctx_done_iff dest: notin_set_remove1 [THEN contrapos_nn])
  with a show ?thesis by (simp add: TimeOver timers_known_ended)
next
  case (TimerStops c)
  assume a: "timers_known m"
  have "timers_known (m\<lparr>mg_timers := remove1 c (mg_timers m)\<rparr>)"
    using a by (auto simp: timers_known_def ctx_done_iff dest: notin_set_remove1 [THEN contrapos_nn])
  with a show ?thesis by (simp add: TimerStops)
qed (simp_all add: timers_known_unlock timers_known_ended)

lemma timers_known_run: "timers_known m \<Longrightarrow> timers_known (run_manager es m)"
  by (induction es arbitrary: m) (simp_all add: timers_known_step)

lemma timers_known_new: "timers_known new_manager"
  by (simp add: timers_known_def new_manager_def)

text \<open>
  C37: A transaction that has just been remembered has a goroutine that can still end it when the
  user is idle exactly if the context it was remembered with does not come from the one that was
  stored for it nor from another one that is done.  A context that was recovered does, and so
  remembering it again leaves the transaction, with its locks, without an end.
\<close>

theorem remembered_transaction_expires_iff:
  assumes "m = run_manager es new_manager" and "remember_context c m = (None, m1)" and "cx_id c = Some i"
  shows "(\<exists>d \<in> set (mg_timers m1). cx_id d = Some i \<and> \<not> ctx_done d m1) \<longleftrightarrow>
    \<not> ctx_done c m \<and> (\<forall>old t. mg_contexts m i = Some (old, t) \<longrightarrow> t \<notin> set (cx_marks c))"
proof -
  have known: "timers_known m" using timers_known_run [OF timers_known_new] assms(1) by simp
  note r = remember_context_accepted [OF assms(2,3)]
  let ?c = "c\<lparr>cx_marks := mg_mark m # cx_marks c\<rparr>"
  have fresh: "\<not> mg_cancelled m1 (mg_mark m)"
    using timers_knownD(1,2) [OF known] by (fastforce simp: r)
  have ended: "ctx_done ?c m1 \<longleftrightarrow> ctx_done c m \<or> (\<exists>old t. mg_contexts m i = Some (old, t) \<and> t \<in> set (cx_marks c))"
    using fresh by (auto simp: ctx_done_iff r)
  have "d = ?c" if d: "d \<in> set (mg_timers m1)" "cx_id d = Some i" "\<not> ctx_done d m1" for d
  proof (rule ccontr)
    assume "d \<noteq> ?c"
    with d have "d \<in> set (mg_timers m)" by (simp add: r)
    from timers_knownD(3) [OF known this] d(2,3) obtain t where "mg_contexts m i = Some (d, t)"
      by (auto simp: ctx_done_iff r)
    with timers_knownD(2) [OF known this] d(3) show False by (auto simp: ctx_done_iff r)
  qed
  moreover have "?c \<in> set (mg_timers m1)" "cx_id ?c = Some i" by (simp_all add: r assms(3))
  ultimately show ?thesis using ended by blast
qed

lemma remembered_transaction_expires_iff_witness:
  "\<exists>m1 m2. remember_context edit_ctx new_manager = (None, m1) \<and> (\<exists>d \<in> set (mg_timers m1). cx_id d = Some 77 \<and> \<not> ctx_done d m1) \<and>
     remember_context (edit_ctx\<lparr>cx_marks := [0], cx_state := Some 9\<rparr>) m1 = (None, m2) \<and>
     \<not> (\<exists>d \<in> set (mg_timers m2). cx_id d = Some 77 \<and> \<not> ctx_done d m2)"
proof -
  have c: "cx_id edit_ctx = Some 77" "cx_marks edit_ctx = []" "cx_user edit_ctx = Some 5"
    by (simp_all add: edit_ctx_def empty_ctx_def)
  obtain m1 where m1: "remember_context edit_ctx new_manager = (None, m1)"
    using c by (simp add: remember_context_def new_manager_def Let_def)
  have s: "mg_contexts m1 77 = Some (edit_ctx\<lparr>cx_marks := [0]\<rparr>, 0)"
    using remember_context_accepted(3) [OF m1 c(1)] c by (simp add: new_manager_def)
  let ?c = "edit_ctx\<lparr>cx_marks := [0], cx_state := Some 9\<rparr>"
  obtain m2 where m2: "remember_context ?c m1 = (None, m2)"
    using s c by (simp add: remember_context_def Let_def)
  have run: "m1 = run_manager [RememberContext edit_ctx] new_manager" "new_manager = run_manager [] (new_manager :: nat config_manager)"
    by (simp_all add: m1)
  have c2: "cx_id ?c = Some 77" using c by simp
  from remembered_transaction_expires_iff [OF run(2) m1 c(1)] remembered_transaction_expires_iff [OF run(1) m2 c2] s m1 m2
  show ?thesis by (intro exI [of _ m1] exI [of _ m2]) (simp add: ctx_done_iff c new_manager_def)
qed

end
