(* ===== verification/Event_Center.thy ===== *)
theory Event_Center
  imports Option_Fields
begin

text \<open>
  The event center: \<open>server/eventcenter/eventcenter.go\<close>, \<open>subscriber.go\<close> and \<open>sse.go\<close>.  Events are
  created from objects, stored, and dispatched to the subscribers whose filters they match.
  The database and the query of an URL, already decoded, are arguments; a channel is a number,
  and the subscribers come in the order in which the map is gone through.
\<close>

section \<open>Events\<close>

record relations =
  rel_machine_id :: int
  rel_app_id :: int
  rel_subnet_id :: int
  rel_daemon_id :: int
  rel_user_id :: int

record event =
  ev_text :: string
  ev_level :: int
  ev_relations :: relations
  ev_details :: string
  ev_streams :: "string list"

definition regular_message :: string where "regular_message = ''message''"

text \<open>The objects an event is made of: tags, streams, texts and errors.\<close>

datatype event_object =
    DaemonObject int string int string "int option"
  | AppObject int string string string int
  | MachineObject int string string
  | SubnetObject int string
  | UserObject int string string
  | StreamObject string
  | TextObject string
  | ErrorObject string
  | ErrorsObject "string option list"
  | UnknownObject

function replace_all :: "string \<Rightarrow> string \<Rightarrow> string \<Rightarrow> string" where
  "replace_all old new [] = []"
| "replace_all old new (c # s) =
     (if old \<noteq> [] \<and> take (length old) (c # s) = old then new @ replace_all old new (drop (length old) (c # s))
      else c # replace_all old new s)"
  by pat_completeness auto

termination by (relation "measure (\<lambda>(old, new, s). length s)") auto

definition quoted :: "string \<Rightarrow> string \<Rightarrow> string" where
  "quoted name value = CHR '' '' # name @ ''='' @ [CHR 0x22] @ value @ [CHR 0x22]"

definition daemon_tag :: "int \<Rightarrow> string \<Rightarrow> int \<Rightarrow> string \<Rightarrow> string" where
  "daemon_tag i name app_id app_type =
     ''<daemon'' @ quoted ''id'' (int_str i) @ quoted ''name'' name @ quoted ''appId'' (int_str app_id) @ quoted ''appType'' app_type @ ''>''"

definition app_tag :: "int \<Rightarrow> string \<Rightarrow> string \<Rightarrow> string \<Rightarrow> string" where
  "app_tag i name app_type version =
     ''<app'' @ quoted ''id'' (int_str i) @ quoted ''name'' name @ quoted ''type'' app_type @ quoted ''version'' version @ ''>''"

definition machine_tag :: "int \<Rightarrow> string \<Rightarrow> string \<Rightarrow> string" where
  "machine_tag i address hostname =
     ''<machine'' @ quoted ''id'' (int_str i) @ quoted ''address'' address @ quoted ''hostname'' hostname @ ''>''"

definition subnet_tag :: "int \<Rightarrow> string \<Rightarrow> string" where
  "subnet_tag i pfx = ''<subnet'' @ quoted ''id'' (int_str i) @ quoted ''prefix'' pfx @ ''>''"

definition user_tag :: "int \<Rightarrow> string \<Rightarrow> string \<Rightarrow> string" where
  "user_tag i login email =
     ''<user'' @ quoted ''id'' (int_str i) @ quoted ''login'' login @ quoted ''email'' email @ ''>''"

definition replace_tag :: "string \<Rightarrow> string \<Rightarrow> event \<Rightarrow> event" where
  "replace_tag name tag e = e\<lparr>ev_text := replace_all name tag (ev_text e)\<rparr>"

definition relate :: "(relations \<Rightarrow> relations) \<Rightarrow> event \<Rightarrow> event" where
  "relate f e = e\<lparr>ev_relations := f (ev_relations e)\<rparr>"

fun add_object :: "event_object \<Rightarrow> event \<Rightarrow> event" where
  "add_object (DaemonObject i name app_id app_type machine_id) e =
     relate (\<lambda>r. let r = r\<lparr>rel_daemon_id := i, rel_app_id := app_id\<rparr> in
               (case machine_id of None \<Rightarrow> r | Some m \<Rightarrow> r\<lparr>rel_machine_id := m\<rparr>))
       (replace_tag ''{daemon}'' (daemon_tag i name app_id app_type) e)"
| "add_object (AppObject i name app_type version machine_id) e =
     relate (\<lambda>r. r\<lparr>rel_app_id := i, rel_machine_id := machine_id\<rparr>)
       (replace_tag ''{app}'' (app_tag i name app_type version) e)"
| "add_object (MachineObject i address hostname) e =
     relate (\<lambda>r. r\<lparr>rel_machine_id := i\<rparr>) (replace_tag ''{machine}'' (machine_tag i address hostname) e)"
| "add_object (SubnetObject i pfx) e =
     relate (\<lambda>r. r\<lparr>rel_subnet_id := i\<rparr>) (replace_tag ''{subnet}'' (subnet_tag i pfx) e)"
| "add_object (UserObject i login email) e =
     relate (\<lambda>r. r\<lparr>rel_user_id := i\<rparr>) (replace_tag ''{user}'' (user_tag i login email) e)"
| "add_object (StreamObject s) e = e\<lparr>ev_streams := ev_streams e @ [s]\<rparr>"
| "add_object (TextObject s) e = (if length s > 0 then e\<lparr>ev_details := s\<rparr> else e)"
| "add_object (ErrorObject s) e = (if length s > 0 then e\<lparr>ev_details := s\<rparr> else e)"
| "add_object (ErrorsObject es) e =
     e\<lparr>ev_details := strings_join ''; '' (concat (map (\<lambda>x. case x of None \<Rightarrow> [] | Some s \<Rightarrow> [s]) es))\<rparr>"
| "add_object UnknownObject e = e"

definition no_relations :: relations where
  "no_relations = \<lparr>rel_machine_id = 0, rel_app_id = 0, rel_subnet_id = 0, rel_daemon_id = 0, rel_user_id = 0\<rparr>"

definition create_event :: "int \<Rightarrow> string \<Rightarrow> event_object list \<Rightarrow> event" where
  "create_event level text1 objects =
     fold add_object objects
       \<lparr>ev_text = text1, ev_level = level, ev_relations = no_relations, ev_details = [], ev_streams = []\<rparr>"

section \<open>Subscribers\<close>

record subscriber_filters =
  sf_relations :: relations
  sf_level :: int
  sf_streams :: "string list"

record subscriber =
  sb_address :: string
  sb_use_filter :: bool
  sb_filters :: subscriber_filters

definition new_subscriber :: "string \<Rightarrow> subscriber" where
  "new_subscriber address =
     \<lparr>sb_address = address, sb_use_filter = False,
      sb_filters = \<lparr>sf_relations = no_relations, sf_level = 0, sf_streams = []\<rparr>\<rparr>"

text \<open>The query of an URL: the values of a name.\<close>

type_synonym query_values = "string \<Rightarrow> string list"

definition get_query_value_as_int64 :: "string \<Rightarrow> query_values \<Rightarrow> string + int" where
  "get_query_value_as_int64 name vs =
     (case vs name of
        [] \<Rightarrow> Inr 0
      | v # _ \<Rightarrow> (case strconv_parse_int 64 v of None \<Rightarrow> Inl name | Some i \<Rightarrow> Inr i))"

definition is_in_filter :: "subscriber_filters \<Rightarrow> event \<Rightarrow> bool" where
  "is_in_filter f e =
     ((sf_level f = 0 \<or> sf_level f \<le> ev_level e) \<and>
      (rel_machine_id (sf_relations f) = 0 \<or> rel_machine_id (ev_relations e) = rel_machine_id (sf_relations f)) \<and>
      (rel_app_id (sf_relations f) = 0 \<or> rel_app_id (ev_relations e) = rel_app_id (sf_relations f)) \<and>
      (rel_subnet_id (sf_relations f) = 0 \<or> rel_subnet_id (ev_relations e) = rel_subnet_id (sf_relations f)) \<and>
      (rel_daemon_id (sf_relations f) = 0 \<or> rel_daemon_id (ev_relations e) = rel_daemon_id (sf_relations f)) \<and>
      (rel_user_id (sf_relations f) = 0 \<or> rel_user_id (ev_relations e) = rel_user_id (sf_relations f)))"

datatype filter_error = BadNumber string | AppTypeWithApp | DaemonNameWithDaemon | AppTypeRequired | MachineRequired
  | AppsFailed string | NoSuchApp string | NoSuchDaemon string

record filter_app =
  fa_id :: int
  fa_type :: string
  fa_daemons :: "(string \<times> int) list"

text \<open>The identifiers of the query, in the order in which they are read.\<close>

definition read_relations :: "query_values \<Rightarrow> filter_error + relations" where
  "read_relations vs =
     (case get_query_value_as_int64 ''machine'' vs of Inl e \<Rightarrow> Inl (BadNumber e) | Inr m \<Rightarrow>
     (case get_query_value_as_int64 ''app'' vs of Inl e \<Rightarrow> Inl (BadNumber e) | Inr a \<Rightarrow>
     (case get_query_value_as_int64 ''subnet'' vs of Inl e \<Rightarrow> Inl (BadNumber e) | Inr s \<Rightarrow>
     (case get_query_value_as_int64 ''daemon'' vs of Inl e \<Rightarrow> Inl (BadNumber e) | Inr d \<Rightarrow>
     (case get_query_value_as_int64 ''user'' vs of Inl e \<Rightarrow> Inl (BadNumber e) | Inr u \<Rightarrow>
        Inr \<lparr>rel_machine_id = m, rel_app_id = a, rel_subnet_id = s, rel_daemon_id = d, rel_user_id = u\<rparr>)))))"

text \<open>An app and a daemon that are given by type and name.\<close>

definition resolve_app ::
    "(int \<Rightarrow> string + filter_app list) \<Rightarrow> string list \<Rightarrow> string list \<Rightarrow> relations \<Rightarrow> filter_error + relations" where
  "resolve_app apps_of app_type daemon_name r =
     (if app_type \<noteq> [] \<and> rel_app_id r \<noteq> 0 then Inl AppTypeWithApp
      else if daemon_name \<noteq> [] \<and> rel_daemon_id r \<noteq> 0 then Inl DaemonNameWithDaemon
      else if daemon_name \<noteq> [] \<and> app_type = [] then Inl AppTypeRequired
      else if app_type = [] then Inr r
      else if rel_machine_id r = 0 then Inl MachineRequired
      else (case apps_of (rel_machine_id r) of
              Inl e \<Rightarrow> Inl (AppsFailed e)
            | Inr apps \<Rightarrow>
                (case find (\<lambda>a. fa_type a = hd app_type) apps of
                   None \<Rightarrow> Inl (NoSuchApp (hd app_type))
                 | Some a \<Rightarrow>
                     (let r = r\<lparr>rel_app_id := fa_id a\<rparr> in
                      if daemon_name = [] then Inr r
                      else (case find (\<lambda>(n, i). n = hd daemon_name) (fa_daemons a) of
                              None \<Rightarrow> Inl (NoSuchDaemon (hd daemon_name))
                            | Some (n, i) \<Rightarrow> Inr (r\<lparr>rel_daemon_id := i\<rparr>))))))"

definition apply_filters_from_query ::
    "(int \<Rightarrow> string + filter_app list) \<Rightarrow> query_values \<Rightarrow> subscriber \<Rightarrow> filter_error + subscriber" where
  "apply_filters_from_query apps_of vs s =
     (case get_query_value_as_int64 ''level'' vs of
        Inl e \<Rightarrow> Inl (BadNumber e)
      | Inr level \<Rightarrow>
          (let f = (sb_filters s)\<lparr>sf_level := level, sf_streams := sf_streams (sb_filters s) @ vs ''stream''\<rparr> in
           if regular_message \<notin> set (vs ''stream'') then Inr (s\<lparr>sb_filters := f\<rparr>)
           else (case read_relations vs of
                   Inl e \<Rightarrow> Inl e
                 | Inr r \<Rightarrow>
                     (case resolve_app apps_of (vs ''appType'') (vs ''daemonName'') r of
                        Inl e \<Rightarrow> Inl e
                      | Inr r \<Rightarrow> Inr (s\<lparr>sb_filters := f\<lparr>sf_relations := r\<rparr>,
                          sb_use_filter := sb_use_filter s \<or>
                            list_ex (\<lambda>i. i \<noteq> 0) [rel_machine_id r, rel_app_id r, rel_subnet_id r, rel_daemon_id r, rel_user_id r, level]\<rparr>)))))"

definition find_matching_event_streams :: "subscriber \<Rightarrow> event \<Rightarrow> string list" where
  "find_matching_event_streams s e =
     concat (map (\<lambda>x.
       if x = regular_message \<and> (\<not> sb_use_filter s \<or> is_in_filter (sb_filters s) e) then [regular_message]
       else if x \<in> set (ev_streams e) then [x] else []) (sf_streams (sb_filters s)))"

section \<open>Dispatching\<close>

text \<open>
  The event is sent to a subscriber with the streams that match; these streams then stay in the
  event, for the subscribers that follow.
\<close>

fun dispatch_event :: "(nat \<times> subscriber) list \<Rightarrow> event \<Rightarrow> (nat \<times> event) list" where
  "dispatch_event [] e = []"
| "dispatch_event ((ch, s) # ss) e =
     (let streams = find_matching_event_streams s e in
      if length streams > 0 then (ch, e\<lparr>ev_streams := streams\<rparr>) # dispatch_event ss (e\<lparr>ev_streams := streams\<rparr>)
      else dispatch_event ss e)"

text \<open>What a connection writes for an event; \<open>to_json\<close> is its text or nothing.\<close>

definition serve_event :: "(event \<Rightarrow> string option) \<Rightarrow> event \<Rightarrow> string" where
  "serve_event to_json e =
     (case to_json e of
        None \<Rightarrow> []
      | Some j \<Rightarrow> concat (map (\<lambda>m.
          (if m \<noteq> regular_message then ''event: '' @ m @ [CHR 0x0A] else []) @ ''data: '' @ j @ [CHR 0x0A, CHR 0x0A])
          (ev_streams e)))"

text \<open>A turn of the main loop: an event that cannot be stored is not dispatched.\<close>

definition main_loop_event ::
    "(event \<Rightarrow> 'db \<Rightarrow> string + 'db) \<Rightarrow> (nat \<times> subscriber) list \<Rightarrow> event \<Rightarrow> 'db \<Rightarrow> (nat \<times> event) list \<times> 'db" where
  "main_loop_event add subs e db =
     (case add e db of
        Inl err \<Rightarrow> ([], db)
      | Inr db \<Rightarrow> (dispatch_event subs e, db))"

section \<open>Filters\<close>

text \<open>
  A subscriber made from a query is not served worse for the flag that skips its filter: it
  gets the streams that the filter alone would give it.
\<close>

theorem filter_flag_correct:
  assumes "apply_filters_from_query apps_of vs (new_subscriber address) = Inr s"
  shows "find_matching_event_streams s e =
    concat (map (\<lambda>x. if (x = regular_message \<and> is_in_filter (sb_filters s) e) \<or> x \<in> set (ev_streams e) then [x] else [])
      (vs ''stream''))"
proof -
  from assms obtain level where level: "get_query_value_as_int64 ''level'' vs = Inr level"
    by (auto simp: apply_filters_from_query_def split: sum.splits)
  show ?thesis
  proof (cases "regular_message \<in> set (vs ''stream'')")
    case False
    with assms level have "s = (new_subscriber address)\<lparr>sb_filters := (sb_filters (new_subscriber address))
        \<lparr>sf_level := level, sf_streams := vs ''stream''\<rparr>\<rparr>"
      by (simp add: apply_filters_from_query_def new_subscriber_def)
    with False show ?thesis
      by (auto simp: find_matching_event_streams_def new_subscriber_def intro!: arg_cong [of _ _ concat])
  next
    case True
    with assms level obtain r where
      s: "sf_streams (sb_filters s) = vs ''stream''" "sf_relations (sb_filters s) = r" "sf_level (sb_filters s) = level"
      "sb_use_filter s \<longleftrightarrow> list_ex (\<lambda>i. i \<noteq> 0) [rel_machine_id r, rel_app_id r, rel_subnet_id r, rel_daemon_id r, rel_user_id r, level]"
      by (auto simp: apply_filters_from_query_def new_subscriber_def Let_def split: sum.splits)
    have "\<not> sb_use_filter s \<Longrightarrow> is_in_filter (sb_filters s) e"
      using s by (simp add: is_in_filter_def)
    then have "\<not> sb_use_filter s \<or> is_in_filter (sb_filters s) e \<longleftrightarrow> is_in_filter (sb_filters s) e" by blast
    then show ?thesis
      unfolding find_matching_event_streams_def s(1) by (auto intro!: arg_cong [of _ _ concat])
  qed
qed

section \<open>Deliveries\<close>

lemma matching_streams_asked:
  "x \<in> set (find_matching_event_streams s e) \<Longrightarrow>
     x \<in> set (sf_streams (sb_filters s)) \<and> (x \<in> set (ev_streams e) \<or> x = regular_message)"
  by (auto simp: find_matching_event_streams_def split: if_splits)

lemma is_in_filter_streams [simp]: "is_in_filter f (e\<lparr>ev_streams := xs\<rparr>) = is_in_filter f e"
  by (simp add: is_in_filter_def)

definition admits :: "subscriber \<Rightarrow> event \<Rightarrow> bool" where
  "admits s e = (regular_message \<in> set (sf_streams (sb_filters s)) \<and> (\<not> sb_use_filter s \<or> is_in_filter (sb_filters s) e))"

lemma admits_streams [simp]: "admits s (e\<lparr>ev_streams := xs\<rparr>) = admits s e"
  by (simp add: admits_def)

lemma admits_matches: "admits s e \<Longrightarrow> regular_message \<in> set (find_matching_event_streams s e)"
  by (auto simp: admits_def find_matching_event_streams_def)

lemma delivered_admitted:
  "(ch, s) \<in> set subs \<Longrightarrow> admits s e \<Longrightarrow>
     \<exists>e'. (ch, e') \<in> set (dispatch_event subs e) \<and> regular_message \<in> set (ev_streams e')"
proof (induction subs e rule: dispatch_event.induct)
  case (2 ch' s' ss e)
  show ?case
  proof (cases "(ch, s) = (ch', s')")
    case True
    with 2(4) have m: "regular_message \<in> set (find_matching_event_streams s' e)" by (simp add: admits_matches)
    then have "find_matching_event_streams s' e \<noteq> []" by auto
    with True m show ?thesis by (intro exI [of _ "e\<lparr>ev_streams := find_matching_event_streams s' e\<rparr>"]) (simp add: Let_def)
  next
    case False
    with 2(3) have "(ch, s) \<in> set ss" by auto
    with 2(1,2,4) show ?thesis
      by (cases "length (find_matching_event_streams s' e) > 0") (auto simp: Let_def)
  qed
qed simp

lemma delivered_asked:
  "(ch, e') \<in> set (dispatch_event subs e) \<Longrightarrow>
     (\<exists>s. (ch, s) \<in> set subs \<and> set (ev_streams e') \<subseteq> set (sf_streams (sb_filters s))) \<and>
     ev_streams e' \<noteq> [] \<and> set (ev_streams e') \<subseteq> insert regular_message (set (ev_streams e)) \<and>
     e'\<lparr>ev_streams := ev_streams e\<rparr> = e"
proof (induction subs e rule: dispatch_event.induct)
  case (2 ch' s' ss e)
  let ?xs = "find_matching_event_streams s' e"
  show ?case
  proof (cases "length ?xs > 0")
    case False
    with 2(2,3) show ?thesis by (auto simp: Let_def)
  next
    case True
    with 2(3) consider "ch = ch'" "e' = e\<lparr>ev_streams := ?xs\<rparr>" | "(ch, e') \<in> set (dispatch_event ss (e\<lparr>ev_streams := ?xs\<rparr>))"
      by (auto simp: Let_def)
    then show ?thesis
    proof cases
      case 1
      with True show ?thesis using matching_streams_asked [of _ s' e] by fastforce
    next
      case 2
      from "2.IH"(1) [OF refl True this] have IH: "(\<exists>s. (ch, s) \<in> set ss \<and> set (ev_streams e') \<subseteq> set (sf_streams (sb_filters s)))"
        "ev_streams e' \<noteq> []" "set (ev_streams e') \<subseteq> insert regular_message (set ?xs)"
        "e'\<lparr>ev_streams := ?xs\<rparr> = e\<lparr>ev_streams := ?xs\<rparr>" by simp_all
      from IH(4) have "e'\<lparr>ev_streams := ?xs, ev_streams := ev_streams e\<rparr> = e\<lparr>ev_streams := ?xs, ev_streams := ev_streams e\<rparr>"
        by metis
      then have "e'\<lparr>ev_streams := ev_streams e\<rparr> = e" by simp
      with IH(1-3) show ?thesis using matching_streams_asked [of _ s' e] by fastforce
    qed
  qed
qed simp

text \<open>
  Dispatching reaches every subscriber of the regular messages whose filter admits the event,
  and what it sends is, on any channel, the event itself with at least one stream, all of them
  asked for by a subscriber of the channel and, regular messages apart, named by the event.
\<close>

theorem events_dispatched:
  "((ch, s) \<in> set subs \<and> regular_message \<in> set (sf_streams (sb_filters s)) \<and>
      (\<not> sb_use_filter s \<or> is_in_filter (sb_filters s) e) \<longrightarrow>
      (\<exists>e'. (ch, e') \<in> set (dispatch_event subs e) \<and> regular_message \<in> set (ev_streams e'))) \<and>
   ((ch, e') \<in> set (dispatch_event subs e) \<longrightarrow>
      (\<exists>s. (ch, s) \<in> set subs \<and> set (ev_streams e') \<subseteq> set (sf_streams (sb_filters s))) \<and>
      ev_streams e' \<noteq> [] \<and> set (ev_streams e') \<subseteq> insert regular_message (set (ev_streams e)) \<and>
      e'\<lparr>ev_streams := ev_streams e\<rparr> = e)"
  using delivered_admitted [of ch s subs e] delivered_asked [of ch e' subs e] unfolding admits_def by blast

definition all_events :: subscriber where
  "all_events = (new_subscriber ''a'')\<lparr>sb_filters := (sb_filters (new_subscriber ''a''))\<lparr>sf_streams := [regular_message]\<rparr>\<rparr>"

definition started_event :: event where
  "started_event = create_event 0 ''started {machine}'' [MachineObject 7 ''h'' ''h'', StreamObject ''connectivity'']"

lemma all_events_channel: "(3, all_events) \<in> set [(3::nat, all_events)]" by simp

lemma events_dispatched_witness:
  "\<exists>e'. (3, e') \<in> set (dispatch_event [(3, all_events)] started_event) \<and> regular_message \<in> set (ev_streams e') \<and>
     e'\<lparr>ev_streams := ev_streams started_event\<rparr> = started_event"
proof -
  have "regular_message \<in> set (sf_streams (sb_filters all_events))" "\<not> sb_use_filter all_events"
    by (simp_all add: all_events_def new_subscriber_def)
  with all_events_channel have "(3, all_events) \<in> set [(3::nat, all_events)] \<and>
      regular_message \<in> set (sf_streams (sb_filters all_events)) \<and>
      (\<not> sb_use_filter all_events \<or> is_in_filter (sb_filters all_events) started_event)" by blast
  from events_dispatched [THEN conjunct1, THEN mp, OF this] obtain e' where
    e': "(3, e') \<in> set (dispatch_event [(3, all_events)] started_event)" "regular_message \<in> set (ev_streams e')"
    by blast
  from events_dispatched [of 3 all_events "[(3, all_events)]" started_event e'] e'(1)
  have "e'\<lparr>ev_streams := ev_streams started_event\<rparr> = started_event" by blast
  with e' show ?thesis by blast
qed

definition warnings_query :: query_values where
  "warnings_query = (\<lambda>_. [])(''stream'' := [regular_message], ''level'' := [''1''])"

lemma warnings_query_applied:
  "apply_filters_from_query (\<lambda>_. Inr []) warnings_query (new_subscriber ''a'') =
     Inr \<lparr>sb_address = ''a'', sb_use_filter = True,
      sb_filters = \<lparr>sf_relations = no_relations, sf_level = 1, sf_streams = [regular_message]\<rparr>\<rparr>"
  by code_simp

lemma filter_flag_correct_witness:
  "find_matching_event_streams
      \<lparr>sb_address = ''a'', sb_use_filter = True,
       sb_filters = \<lparr>sf_relations = no_relations, sf_level = 1, sf_streams = [regular_message]\<rparr>\<rparr> started_event = []"
  using filter_flag_correct [OF warnings_query_applied, of started_event]
  by (simp add: warnings_query_def started_event_def create_event_def is_in_filter_def relate_def replace_tag_def regular_message_def)

end
