(* ===== verification/Agent_Comm.thy ===== *)
theory Agent_Comm
  imports Event_Center Kea_Commands Hex_Text
begin

text \<open>
  The communication of the server with the agents: \<open>server/agentcomm\<close> with its statistics
  (\<open>stats.go\<close>), the call of an agent with one retry (\<open>manager.go\<close>, \<open>agentcomm.go\<close>) and the commands
  that are forwarded through it (\<open>grpcli.go\<close>).  The connection and the remote call are arguments
  over a world; the decoding of JSON is one too.  A dereference of a null pointer and an index out
  of range are \<open>Panics\<close>.  Counts are integers: they stay below \<open>2^63\<close>.
\<close>

section \<open>Error counts\<close>

datatype comm_error_transition = CommErrorNone | CommErrorNew | CommErrorReset | CommErrorContinued

datatype kea_daemon_type = KeaDaemonDHCPv4 | KeaDaemonDHCPv6 | KeaDaemonD2 | KeaDaemonCA | KeaDaemonUnknown

datatype bind9_channel_type = Bind9ChannelRNDC | Bind9ChannelStats

type_synonym 'k error_counts = "'k \<rightharpoonup> int"

definition get_error_count :: "'k \<Rightarrow> 'k error_counts \<Rightarrow> int" where
  "get_error_count k m = (case m k of None \<Rightarrow> 0 | Some c \<Rightarrow> c)"

definition increase_error_count_by :: "'k \<Rightarrow> int \<Rightarrow> 'k error_counts \<Rightarrow> 'k error_counts" where
  "increase_error_count_by k i m = m(k \<mapsto> get_error_count k m + i)"

definition increase_error_count :: "'k \<Rightarrow> 'k error_counts \<Rightarrow> 'k error_counts" where
  "increase_error_count k m = increase_error_count_by k 1 m"

definition reset_error_count :: "'k \<Rightarrow> 'k error_counts \<Rightarrow> 'k error_counts" where
  "reset_error_count k m = m(k := None)"

definition update_error_count :: "'k \<Rightarrow> int \<Rightarrow> 'k error_counts \<Rightarrow> comm_error_transition \<times> 'k error_counts" where
  "update_error_count k new_count m =
     (let current = get_error_count k m in
      if new_count = 0 \<and> current = 0 then (CommErrorNone, m)
      else if new_count > 0 \<and> current > 0 then (CommErrorContinued, increase_error_count_by k new_count m)
      else if new_count = 0 \<and> current > 0 then (CommErrorReset, reset_error_count k m)
      else if new_count > 0 \<and> current = 0 then (CommErrorNew, increase_error_count_by k new_count m)
      else (CommErrorNone, m))"

record agent_comm_stats =
  agent_comm_errors :: "string error_counts"
  kea_comm_errors :: "int \<rightharpoonup> kea_daemon_type error_counts"
  bind9_comm_errors :: "int \<rightharpoonup> bind9_channel_type error_counts"

definition new_agent_stats :: agent_comm_stats where
  "new_agent_stats = \<lparr>agent_comm_errors = Map.empty, kea_comm_errors = Map.empty, bind9_comm_errors = Map.empty\<rparr>"

text \<open>The counts of an app, made when they are asked for.\<close>

definition get_kea_comm_error_stats :: "int \<Rightarrow> agent_comm_stats \<Rightarrow> kea_daemon_type error_counts" where
  "get_kea_comm_error_stats app_id s = (case kea_comm_errors s app_id of None \<Rightarrow> Map.empty | Some m \<Rightarrow> m)"

definition get_bind9_comm_error_stats :: "int \<Rightarrow> agent_comm_stats \<Rightarrow> bind9_channel_type error_counts" where
  "get_bind9_comm_error_stats app_id s = (case bind9_comm_errors s app_id of None \<Rightarrow> Map.empty | Some m \<Rightarrow> m)"

definition put_kea :: "int \<Rightarrow> kea_daemon_type error_counts \<Rightarrow> agent_comm_stats \<Rightarrow> agent_comm_stats" where
  "put_kea app_id m s = s\<lparr>kea_comm_errors := (kea_comm_errors s)(app_id \<mapsto> m)\<rparr>"

definition put_bind9 :: "int \<Rightarrow> bind9_channel_type error_counts \<Rightarrow> agent_comm_stats \<Rightarrow> agent_comm_stats" where
  "put_bind9 app_id m s = s\<lparr>bind9_comm_errors := (bind9_comm_errors s)(app_id \<mapsto> m)\<rparr>"

definition get_kea_daemon_type_from_name :: "string \<Rightarrow> kea_daemon_type" where
  "get_kea_daemon_type_from_name name =
     (if name = ''dhcp4'' then KeaDaemonDHCPv4
      else if name = ''dhcp6'' then KeaDaemonDHCPv6
      else if name = ''d2'' then KeaDaemonD2
      else if name = '''' \<or> name = ''ca'' then KeaDaemonCA
      else KeaDaemonUnknown)"

section \<open>Requests and responses\<close>

datatype agent_request =
    PingReq
  | GetStateReq
  | ForwardRndcCommandReq string int string
  | ForwardToNamedStatsReq string
  | ForwardToKeaOverHTTPReq string "string list"
  | ForwardToNSDReq string int string
  | TailTextFileReq string int

fun encode_as_comm_stats_request_name :: "agent_request \<Rightarrow> string" where
  "encode_as_comm_stats_request_name PingReq = ''PingReq''"
| "encode_as_comm_stats_request_name GetStateReq = ''GetStateReq''"
| "encode_as_comm_stats_request_name (ForwardRndcCommandReq _ _ _) = ''ForwardRndcCommandReq''"
| "encode_as_comm_stats_request_name (ForwardToNamedStatsReq _) = ''ForwardToNamedStatsReq''"
| "encode_as_comm_stats_request_name (ForwardToKeaOverHTTPReq _ _) = ''ForwardToKeaOverHTTPReq''"
| "encode_as_comm_stats_request_name (ForwardToNSDReq _ _ _) = ''ForwardToNSDReq''"
| "encode_as_comm_stats_request_name (TailTextFileReq _ _) = ''TailTextFileReq''"

text \<open>The status of a response, which may be missing, with its code.\<close>

record status =
  st_ok :: bool
  st_message :: string

record kea_response =
  kr_status :: "status option"
  kr_body :: string

record access_point =
  ap_type :: string
  ap_address :: string
  ap_port :: int
  ap_key :: string
  ap_secure :: bool

record detected_app =
  da_type :: string
  da_access_points :: "access_point list"

record grpc_state =
  gs_agent_version :: string
  gs_cpus :: int
  gs_cpus_load :: string
  gs_memory :: int
  gs_hostname :: string
  gs_uptime :: int
  gs_used_memory :: int
  gs_os :: string
  gs_platform :: "string \<times> string \<times> string"
  gs_kernel :: "string \<times> string"
  gs_virtualization :: "string \<times> string"
  gs_host_id :: string
  gs_error :: string
  gs_apps :: "detected_app list"

text \<open>A response; a missing pointer inside of one is \<open>None\<close>.\<close>

datatype agent_response =
    PingRsp
  | GetStateRsp grpc_state
  | ForwardRndcCommandRsp "status option" "(status option \<times> string) option"
  | ForwardToNamedStatsRsp "status option" "(status option \<times> string) option"
  | ForwardToKeaOverHTTPRsp "status option" "kea_response list"
  | ForwardToNSDRsp string
  | TailTextFileRsp "status option" "string list"
  | NoResponse

datatype comm_error = NoAccessPoint string | NoStatistics string | AgentFailed string string | WrongResponse
  | DaemonFailed string | StatusFailed string | StillFailing string | ParseFailed string

datatype 'a outcome = Panics | Fails comm_error | Returns 'a

section \<open>Calling an agent\<close>

text \<open>The connections: opening one, which may fail, and calling through it.\<close>

record 'w connector =
  cn_connect :: "string \<Rightarrow> 'w \<Rightarrow> string option \<times> 'w"
  cn_call :: "string \<Rightarrow> agent_request \<Rightarrow> 'w \<Rightarrow> (string + agent_response) \<times> 'w"

record 'w agents =
  ag_states :: "string \<rightharpoonup> agent_comm_stats"
  ag_events :: "event list"
  ag_world :: 'w

definition join_host_port :: "string \<Rightarrow> string \<Rightarrow> string" where
  "join_host_port host port =
     (if CHR '':'' \<in> set host then ''['' @ host @ '']:'' @ port else host @ '':'' @ port)"

definition get_connected_agent :: "'w connector \<Rightarrow> string \<Rightarrow> 'w agents \<Rightarrow> string option \<times> 'w agents" where
  "get_connected_agent cn address st =
     (case ag_states st address of
        Some _ \<Rightarrow> (None, st)
      | None \<Rightarrow>
          (let st = st\<lparr>ag_states := (ag_states st)(address \<mapsto> new_agent_stats)\<rparr>;
               (err, w) = cn_connect cn address (ag_world st)
           in (err, st\<lparr>ag_world := w\<rparr>)))"

definition get_connected_agent_stats :: "string \<Rightarrow> int \<Rightarrow> 'w agents \<Rightarrow> agent_comm_stats option" where
  "get_connected_agent_stats address port st =
     ag_states st (if port \<noteq> 0 then join_host_port address (int_str port) else address)"

definition do_call :: "'w connector \<Rightarrow> string \<Rightarrow> agent_request \<Rightarrow> 'w agents \<Rightarrow> (string + agent_response) \<times> 'w agents" where
  "do_call cn address req st = (let (r, w) = cn_call cn address req (ag_world st) in (r, st\<lparr>ag_world := w\<rparr>))"

definition handle_request ::
    "'w connector \<Rightarrow> string \<Rightarrow> agent_request \<Rightarrow> 'w agents \<Rightarrow> (string + agent_response) \<times> 'w agents" where
  "handle_request cn address req st =
     (case get_connected_agent cn address st of
        (Some err, st) \<Rightarrow> (Inl err, st)
      | (None, st) \<Rightarrow>
          (case do_call cn address req st of
             (Inr response, st) \<Rightarrow> (Inr response, st)
           | (Inl err, st) \<Rightarrow>
               (let failed = (\<lambda>e. Inl (''grpc manager is unable to re-establish connection with the agent '' @ address @ '': '' @ e));
                    (err2, w) = cn_connect cn address (ag_world st);
                    st = st\<lparr>ag_world := w\<rparr>
                in case err2 of
                     Some e \<Rightarrow> (failed e, st)
                   | None \<Rightarrow>
                       (case do_call cn address req st of
                          (Inr response, st) \<Rightarrow> (Inr response, st)
                        | (Inl e, st) \<Rightarrow> (failed e, st)))))"

section \<open>States of the communication\<close>

definition check_agent_comm_state ::
    "string \<Rightarrow> string option \<Rightarrow> string error_counts \<Rightarrow> (comm_error_transition \<times> string) \<times> string error_counts" where
  "check_agent_comm_state name req_err m =
     (let comm_errors = get_error_count name m in
      case req_err of
        Some err \<Rightarrow>
          if comm_errors = 0 then ((CommErrorNew, err), increase_error_count name m)
          else if comm_errors > 0 then ((CommErrorContinued, err), increase_error_count name m)
          else ((CommErrorNone, ''''), m)
      | None \<Rightarrow>
          if comm_errors = 0 then ((CommErrorNone, ''''), m)
          else if comm_errors > 0 then ((CommErrorReset, ''''), reset_error_count name m)
          else ((CommErrorNone, ''''), m))"

text \<open>The message of the status is read before the status is checked.\<close>

definition check_bind9_comm_state ::
    "bind9_channel_type \<Rightarrow> status option option \<Rightarrow> bind9_channel_type error_counts \<Rightarrow>
     ((comm_error_transition \<times> string) \<times> bind9_channel_type error_counts) option" where
  "check_bind9_comm_state ch resp m =
     (case resp of
        None \<Rightarrow> Some ((CommErrorNone, ''''), m)
      | Some None \<Rightarrow> None
      | Some (Some s) \<Rightarrow>
          (let comm_errors = get_error_count ch m; details = st_message s in
           Some (if comm_errors = 0 \<and> \<not> st_ok s then ((CommErrorNew, details), increase_error_count ch m)
             else if comm_errors > 0 \<and> \<not> st_ok s then ((CommErrorContinued, details), increase_error_count ch m)
             else if comm_errors = 0 \<and> st_ok s then ((CommErrorNone, details), m)
             else if comm_errors > 0 \<and> st_ok s then ((CommErrorReset, details), reset_error_count ch m)
             else ((CommErrorNone, details), m))))"

section \<open>Events of the communication\<close>

definition ev_warning :: int where "ev_warning = 1"
definition ev_error :: int where "ev_error = 2"
definition sse_connectivity :: string where "sse_connectivity = ''connectivity''"

record controlled_machine =
  mc_id :: int
  mc_address :: string
  mc_hostname :: string
  mc_agent_port :: int

record controlled_app =
  ca_id :: int
  ca_name :: string
  ca_type :: string
  ca_version :: string
  ca_machine :: controlled_machine
  ca_control :: "string + (string \<times> int \<times> bool)"
  ca_daemon_tag :: "string \<Rightarrow> event_object"

definition machine_object :: "controlled_machine \<Rightarrow> event_object" where
  "machine_object m = MachineObject (mc_id m) (mc_address m) (mc_hostname m)"

definition app_object :: "controlled_app \<Rightarrow> event_object" where
  "app_object a = AppObject (ca_id a) (ca_name a) (ca_type a) (ca_version a) (mc_id (ca_machine a))"

definition add_event :: "int \<Rightarrow> string \<Rightarrow> event_object list \<Rightarrow> 'w agents \<Rightarrow> 'w agents" where
  "add_event level text1 objects st = st\<lparr>ag_events := ag_events st @ [create_event level text1 objects]\<rparr>"

text \<open>A new trouble is an error and its end is a warning; what goes on as before is only logged.\<close>

definition report_transition ::
    "comm_error_transition \<Rightarrow> string \<Rightarrow> event_object list \<Rightarrow> event_object list \<Rightarrow> 'w agents \<Rightarrow> 'w agents" where
  "report_transition tr about details objects st =
     (case tr of
        CommErrorNew \<Rightarrow> add_event ev_error (about @ '' failed'') (objects @ StreamObject sse_connectivity # details) st
      | CommErrorReset \<Rightarrow> add_event ev_warning (about @ '' succeeded'') (objects @ StreamObject sse_connectivity # details) st
      | _ \<Rightarrow> st)"

definition agent_addr_port :: "controlled_machine \<Rightarrow> string" where
  "agent_addr_port m = join_host_port (mc_address m) (int_str (mc_agent_port m))"

definition put_stats :: "controlled_machine \<Rightarrow> agent_comm_stats \<Rightarrow> 'w agents \<Rightarrow> 'w agents" where
  "put_stats m stats st =
     st\<lparr>ag_states := (ag_states st)((if mc_agent_port m \<noteq> 0 then agent_addr_port m else mc_address m) \<mapsto> stats)\<rparr>"

text \<open>What every command but those for NSD begins with: the call, the statistics of the agent, the event.\<close>

definition call_agent ::
    "'w connector \<Rightarrow> controlled_machine \<Rightarrow> agent_request \<Rightarrow> string \<Rightarrow> 'w agents \<Rightarrow>
     ((string + agent_response) \<times> comm_error_transition \<times> string) option \<times> 'w agents" where
  "call_agent cn m req about st =
     (let (resp, st) = handle_request cn (agent_addr_port m) req st
      in case get_connected_agent_stats (mc_address m) (mc_agent_port m) st of
           None \<Rightarrow> (None, st)
         | Some stats \<Rightarrow>
             (let ((tr, details), errs) =
                    check_agent_comm_state (encode_as_comm_stats_request_name req)
                      (case resp of Inl e \<Rightarrow> Some e | Inr _ \<Rightarrow> None) (agent_comm_errors stats);
                  st = put_stats m (stats\<lparr>agent_comm_errors := errs\<rparr>) st
              in (Some (resp, tr, details), report_transition tr about [TextObject details] [machine_object m] st)))"

section \<open>Commands to the agent and to BIND 9\<close>

text \<open>The error for a wrong response wraps no error, and so is none.\<close>

definition ping :: "'w connector \<Rightarrow> controlled_machine \<Rightarrow> 'w agents \<Rightarrow> unit outcome \<times> 'w agents" where
  "ping cn m st =
     (case call_agent cn m PingReq ''pinging Stork agent on {machine}'' st of
        (None, st) \<Rightarrow> (Fails (NoStatistics (agent_addr_port m)), st)
      | (Some (Inl err, tr, details), st) \<Rightarrow> (Fails (AgentFailed (agent_addr_port m) err), st)
      | (Some (Inr resp, tr, details), st) \<Rightarrow> (Returns (), st))"

record comm_state =
  cs_address :: string
  cs_last_visited_at :: int
  cs_state :: grpc_state

definition get_state ::
    "'w connector \<Rightarrow> int \<Rightarrow> controlled_machine \<Rightarrow> 'w agents \<Rightarrow> comm_state outcome \<times> 'w agents" where
  "get_state cn now m st =
     (case call_agent cn m GetStateReq ''communication with Stork agent on {machine} to get state'' st of
        (None, st) \<Rightarrow> (Fails (NoStatistics (agent_addr_port m)), st)
      | (Some (Inl err, tr, details), st) \<Rightarrow> (Fails (AgentFailed (agent_addr_port m) err), st)
      | (Some (Inr resp, tr, details), st) \<Rightarrow>
          (case resp of
             GetStateRsp s \<Rightarrow> (Returns \<lparr>cs_address = mc_address m, cs_last_visited_at = now, cs_state = s\<rparr>, st)
           | _ \<Rightarrow> (Fails WrongResponse, st)))"

text \<open>The status of a response that has one.\<close>

fun get_status :: "agent_response \<Rightarrow> status option option" where
  "get_status (ForwardRndcCommandRsp s _) = Some s"
| "get_status (ForwardToNamedStatsRsp s _) = Some s"
| "get_status (ForwardToKeaOverHTTPRsp s _) = Some s"
| "get_status (TailTextFileRsp s _) = Some s"
| "get_status _ = None"

definition stats_of :: "controlled_machine \<Rightarrow> 'w agents \<Rightarrow> agent_comm_stats" where
  "stats_of m st = (case get_connected_agent_stats (mc_address m) (mc_agent_port m) st of None \<Rightarrow> new_agent_stats | Some s \<Rightarrow> s)"

definition change_bind9 ::
    "controlled_app \<Rightarrow> (bind9_channel_type error_counts \<Rightarrow> bind9_channel_type error_counts) \<Rightarrow> 'w agents \<Rightarrow> 'w agents" where
  "change_bind9 app f st =
     (let stats = stats_of (ca_machine app) st
      in put_stats (ca_machine app) (put_bind9 (ca_id app) (f (get_bind9_comm_error_stats (ca_id app) stats)) stats) st)"

definition report_bind9 ::
    "controlled_app \<Rightarrow> bind9_channel_type \<Rightarrow> status option option \<Rightarrow> string \<Rightarrow> 'w agents \<Rightarrow>
     ((comm_error_transition \<times> string) \<times> 'w agents) option" where
  "report_bind9 app ch resp about st =
     (case check_bind9_comm_state ch resp (get_bind9_comm_error_stats (ca_id app) (stats_of (ca_machine app) st)) of
        None \<Rightarrow> None
      | Some ((tr, details), m) \<Rightarrow>
          Some ((tr, details), report_transition tr about [TextObject details] [machine_object (ca_machine app), app_object app]
            (change_bind9 app (\<lambda>_. m) st)))"

definition bind9_count :: "controlled_app \<Rightarrow> bind9_channel_type \<Rightarrow> 'w agents \<Rightarrow> int" where
  "bind9_count app ch st = get_error_count ch (get_bind9_comm_error_stats (ca_id app) (stats_of (ca_machine app) st))"

text \<open>The first error of a series comes with an empty output, which is left out here.\<close>

definition forward_rndc_command ::
    "'w connector \<Rightarrow> controlled_app \<Rightarrow> string \<Rightarrow> 'w agents \<Rightarrow> string outcome \<times> 'w agents" where
  "forward_rndc_command cn app command1 st =
     (case ca_control app of
        Inl err \<Rightarrow> (Fails (NoAccessPoint err), st)
      | Inr (ctrl_address, ctrl_port, _) \<Rightarrow>
     (case call_agent cn (ca_machine app) (ForwardRndcCommandReq ctrl_address ctrl_port command1)
             ''communication with Stork agent on {machine} to forward rndc command'' st of
        (None, st) \<Rightarrow> (Fails (NoStatistics (agent_addr_port (ca_machine app))), st)
      | (Some (resp, _, _), st) \<Rightarrow>
     (case report_bind9 app Bind9ChannelRNDC (case resp of Inl _ \<Rightarrow> None | Inr r \<Rightarrow> get_status r)
             ''communication between the Stork agent on {machine} and {app} to forward rndc command'' st of
        None \<Rightarrow> (Panics, st)
      | Some ((tr, details), st) \<Rightarrow>
     (case resp of
        Inl err \<Rightarrow> (Fails (AgentFailed (agent_addr_port (ca_machine app)) err), st)
      | Inr r \<Rightarrow>
          if tr \<noteq> CommErrorReset \<and> tr \<noteq> CommErrorNone then (Fails (DaemonFailed details), st)
          else (case r of
                  ForwardRndcCommandRsp outer (Some (Some inner, output)) \<Rightarrow>
                    if st_ok inner then (Returns output, change_bind9 app (reset_error_count Bind9ChannelRNDC) st)
                    else (let st = change_bind9 app (increase_error_count Bind9ChannelRNDC) st in
                          if bind9_count app Bind9ChannelRNDC st > 1
                          then (Fails (StillFailing (mc_address (ca_machine app))), st)
                          else (case outer of None \<Rightarrow> (Panics, st) | Some s \<Rightarrow> (Fails (StatusFailed (st_message s)), st)))
                | ForwardRndcCommandRsp _ _ \<Rightarrow> (Panics, st)
                | _ \<Rightarrow> (Fails WrongResponse, st))))))"

text \<open>
  The response is looked at before the error of the agent, so that the error is never returned.
  \<open>parse_stats\<close> is the decoding of the body, with an error or none.
\<close>

definition forward_to_named_stats ::
    "'w connector \<Rightarrow> (string \<Rightarrow> string option) \<Rightarrow> controlled_app \<Rightarrow> string \<Rightarrow> int \<Rightarrow> string \<Rightarrow> 'w agents \<Rightarrow>
     unit outcome \<times> 'w agents" where
  "forward_to_named_stats cn parse_stats app stats_address stats_port stats_path st =
     (case call_agent cn (ca_machine app)
             (ForwardToNamedStatsReq (host_with_port_url stats_address stats_port False @ stats_path))
             ''communication with Stork agent on {machine} to query for named stats'' st of
        (None, st) \<Rightarrow> (Fails (NoStatistics (agent_addr_port (ca_machine app))), st)
      | (Some (Inr (ForwardToNamedStatsRsp _ inner), _, _), st) \<Rightarrow>
     (case report_bind9 app Bind9ChannelStats (Some (case inner of None \<Rightarrow> None | Some (s, _) \<Rightarrow> s))
             ''communication between the Stork agent on {machine} and {app} to query named stats'' st of
        None \<Rightarrow> (Panics, st)
      | Some ((tr, details), st) \<Rightarrow>
          if tr \<noteq> CommErrorReset \<and> tr \<noteq> CommErrorNone then (Fails (DaemonFailed details), st)
          else (case inner of
                  Some (Some status1, body) \<Rightarrow>
                    (let err = (if st_ok status1 then map_option ParseFailed (parse_stats body)
                                else Some (StatusFailed (st_message status1))) in
                     case err of
                       None \<Rightarrow> (Returns (), change_bind9 app (reset_error_count Bind9ChannelStats) st)
                     | Some e \<Rightarrow>
                         (let st = change_bind9 app (increase_error_count Bind9ChannelStats) st in
                          if bind9_count app Bind9ChannelStats st > 1
                          then (Fails (StillFailing (mc_address (ca_machine app))), st)
                          else (Fails e, st)))
                | _ \<Rightarrow> (Panics, st)))
      | (Some _, st) \<Rightarrow> (Fails WrongResponse, st))"

definition forward_to_nsd ::
    "'w connector \<Rightarrow> controlled_app \<Rightarrow> string \<Rightarrow> 'w agents \<Rightarrow> string outcome \<times> 'w agents" where
  "forward_to_nsd cn app command1 st =
     (case ca_control app of
        Inl err \<Rightarrow> (Fails (NoAccessPoint err), st)
      | Inr (ctrl_address, ctrl_port, _) \<Rightarrow>
          (case handle_request cn (agent_addr_port (ca_machine app)) (ForwardToNSDReq ctrl_address ctrl_port command1) st of
             (Inl err, st) \<Rightarrow> (Fails (AgentFailed (agent_addr_port (ca_machine app)) err), st)
           | (Inr (ForwardToNSDRsp output), st) \<Rightarrow> (Returns output, st)
           | (Inr _, st) \<Rightarrow> (Fails WrongResponse, st)))"

definition tail_text_file ::
    "'w connector \<Rightarrow> controlled_machine \<Rightarrow> string \<Rightarrow> int \<Rightarrow> 'w agents \<Rightarrow> string list outcome \<times> 'w agents" where
  "tail_text_file cn m path offset st =
     (case call_agent cn m (TailTextFileReq path offset)
             ''communication with Stork agent on {machine} to tail the text file'' st of
        (None, st) \<Rightarrow> (Fails (NoStatistics (agent_addr_port m)), st)
      | (Some (Inl err, _, _), st) \<Rightarrow> (Fails (AgentFailed (agent_addr_port m) err), st)
      | (Some (Inr resp, _, _), st) \<Rightarrow>
          (case resp of
             TailTextFileRsp None _ \<Rightarrow> (Panics, st)
           | TailTextFileRsp (Some s) lines \<Rightarrow>
               if st_ok s then (Returns lines, st) else (Fails (StatusFailed (st_message s)), st)
           | _ \<Rightarrow> (Fails WrongResponse, st)))"

section \<open>Commands to Kea\<close>

record kea_scan =
  ks_ca :: int
  ks_dhcp4 :: int
  ks_dhcp6 :: int
  ks_d2 :: int
  ks_dhcp4_message :: string
  ks_dhcp6_message :: string
  ks_d2_message :: string
  ks_errors :: "string option list"

definition new_kea_scan :: kea_scan where
  "new_kea_scan = \<lparr>ks_ca = -1, ks_dhcp4 = -1, ks_dhcp6 = -1, ks_d2 = -1,
     ks_dhcp4_message = [], ks_dhcp6_message = [], ks_d2_message = [], ks_errors = []\<rparr>"

text \<open>Decoding JSON gives what could be read, with an error or none; the daemons of the command are then set.\<close>

type_synonym json_headers = "string \<Rightarrow> string option \<times> response_header list"

fun tag_daemons :: "string list \<Rightarrow> response_header list \<Rightarrow> response_header list" where
  "tag_daemons (d # ds) (h # hs) = h\<lparr>rh_daemon := d\<rparr> # tag_daemons ds hs"
| "tag_daemons _ hs = hs"

definition unmarshal_response_list ::
    "json_headers \<Rightarrow> command \<Rightarrow> string \<Rightarrow> string option \<times> response_header list" where
  "unmarshal_response_list json c body =
     (case json body of
        (Some err, hs) \<Rightarrow> (Some err, hs)
      | (None, hs) \<Rightarrow> (None, tag_daemons (cm_daemons c) hs))"

definition seen :: "int \<Rightarrow> int" where "seen c = (if c < 0 then 0 else c)"

definition scan_header :: "response_header \<Rightarrow> kea_scan \<times> string \<Rightarrow> kea_scan \<times> string" where
  "scan_header h kb =
     (let (k, b) = kb; failed = (rh_result h = response_error) in
      if rh_daemon h = ''dhcp4'' then
        (let k = k\<lparr>ks_dhcp4 := seen (ks_dhcp4 k)\<rparr> in
         (if failed then k\<lparr>ks_dhcp4 := ks_dhcp4 k + 1, ks_dhcp4_message := rh_text h\<rparr> else k, b))
      else if rh_daemon h = ''dhcp6'' then
        (let k = k\<lparr>ks_dhcp6 := seen (ks_dhcp6 k)\<rparr> in
         (if failed then k\<lparr>ks_dhcp6 := ks_dhcp6 k + 1, ks_dhcp6_message := rh_text h\<rparr> else k, b))
      else if rh_daemon h = ''d2'' then
        (let k = k\<lparr>ks_d2 := seen (ks_d2 k)\<rparr> in
         (if failed then k\<lparr>ks_d2 := ks_d2 k + 1, ks_d2_message := rh_text h\<rparr> else k, b))
      else if rh_daemon h = ''ca'' \<or> rh_daemon h = '''' then
        (if failed then (k\<lparr>ks_ca := ks_ca k + 1\<rparr>, b @ rh_text h @ [CHR 0x0A]) else (k, b))
      else (k, b))"

text \<open>A response with an error status is counted and has no item in the errors; its message is dropped.\<close>

definition scan_response :: "json_headers \<Rightarrow> command option \<Rightarrow> kea_response \<Rightarrow> kea_scan \<Rightarrow> kea_scan option" where
  "scan_response json c r k =
     (let k = k\<lparr>ks_ca := seen (ks_ca k)\<rparr> in
      case kr_status r of
        None \<Rightarrow> None
      | Some s \<Rightarrow>
          if \<not> st_ok s then Some (k\<lparr>ks_ca := ks_ca k + 1\<rparr>)
          else (case c of
                  None \<Rightarrow> None
                | Some c \<Rightarrow>
                    (let (err, hs) = unmarshal_response_list json c (kr_body r);
                         kb = (case err of
                                 None \<Rightarrow> (k, '''')
                               | Some e \<Rightarrow> (k\<lparr>ks_ca := ks_ca k + 1\<rparr>,
                                   ''received invalid response from Kea ControlAgent: '' @ e @ [CHR 0x0A]));
                         (k, b) = fold scan_header hs kb
                     in Some (k\<lparr>ks_errors := ks_errors k @ [if length b \<noteq> 0 then Some b else None]\<rparr>))))"

fun scan_responses :: "json_headers \<Rightarrow> command list \<Rightarrow> kea_response list \<Rightarrow> kea_scan \<Rightarrow> kea_scan option" where
  "scan_responses json cs [] k = Some k"
| "scan_responses json cs (r # rs) k =
     (case scan_response json (case cs of [] \<Rightarrow> None | c # _ \<Rightarrow> Some c) r k of
        None \<Rightarrow> None
      | Some k \<Rightarrow> scan_responses json (tl cs) rs k)"

record kea_comm_state =
  kc_ca :: comm_error_transition
  kc_dhcp4 :: comm_error_transition
  kc_dhcp6 :: comm_error_transition
  kc_d2 :: comm_error_transition
  kc_scan :: kea_scan

definition check_kea_comm_state ::
    "json_headers \<Rightarrow> command list \<Rightarrow> kea_response list \<Rightarrow> kea_daemon_type error_counts \<Rightarrow>
     (kea_comm_state \<times> kea_daemon_type error_counts) option" where
  "check_kea_comm_state json cs rs m =
     (case scan_responses json cs rs new_kea_scan of
        None \<Rightarrow> None
      | Some k \<Rightarrow>
          (let (ca, m) = update_error_count KeaDaemonCA (ks_ca k) m;
               (dhcp4, m) = update_error_count KeaDaemonDHCPv4 (ks_dhcp4 k) m;
               (dhcp6, m) = update_error_count KeaDaemonDHCPv6 (ks_dhcp6 k) m;
               (d2, m) = update_error_count KeaDaemonD2 (ks_d2 k) m
           in Some (\<lparr>kc_ca = ca, kc_dhcp4 = dhcp4, kc_dhcp6 = dhcp6, kc_d2 = d2, kc_scan = k\<rparr>, m)))"

record kea_cmds_result =
  kr_error :: "string option"
  kr_cmds_errors :: "string option list"

fun get_first_error :: "kea_cmds_result option \<Rightarrow> string option" where
  "get_first_error None = None"
| "get_first_error (Some r) =
     (case kr_error r of
        Some e \<Rightarrow> Some e
      | None \<Rightarrow> (case find (\<lambda>e. e \<noteq> None) (kr_cmds_errors r) of None \<Rightarrow> None | Some e \<Rightarrow> e))"

text \<open>
  The responses are decoded into what the caller asked for: \<open>parse idx c body\<close> is the error or
  none.  An error takes the place of the item with its index, or is added at the end.
\<close>

fun parse_responses ::
    "(nat \<Rightarrow> command \<Rightarrow> string \<Rightarrow> string option) \<Rightarrow> nat \<Rightarrow> command list \<Rightarrow> comm_error_transition \<Rightarrow> nat \<Rightarrow> kea_response list \<Rightarrow>
     string option list \<times> kea_daemon_type error_counts \<Rightarrow> (string option list \<times> kea_daemon_type error_counts) option" where
  "parse_responses parse n cs tr idx [] em = Some em"
| "parse_responses parse n cs tr idx (r # rs) (errors, m) =
     (if idx \<ge> n \<or> idx \<ge> length cs then None
      else (case parse idx (cs ! idx) (kr_body r) of
              None \<Rightarrow> parse_responses parse n cs tr (Suc idx) rs (errors, m)
            | Some e \<Rightarrow>
                parse_responses parse n cs tr (Suc idx) rs
                  (if length errors > idx then errors[idx := Some e] else errors @ [Some e],
                   if tr \<noteq> CommErrorNew \<and> tr \<noteq> CommErrorContinued then increase_error_count KeaDaemonCA m else m)))"

definition report_daemon ::
    "comm_error_transition \<Rightarrow> controlled_app \<Rightarrow> string \<Rightarrow> string \<Rightarrow> event_object \<Rightarrow> 'w agents \<Rightarrow> 'w agents" where
  "report_daemon tr app about name details st =
     report_transition tr about (if tr = CommErrorNew then [details] else []) [ca_daemon_tag app name, machine_object (ca_machine app)] st"

definition change_kea ::
    "controlled_app \<Rightarrow> kea_daemon_type error_counts \<Rightarrow> 'w agents \<Rightarrow> 'w agents" where
  "change_kea app m st = put_stats (ca_machine app) (put_kea (ca_id app) m (stats_of (ca_machine app) st)) st"

definition forward_to_kea_over_http ::
    "'w connector \<Rightarrow> json_headers \<Rightarrow> (nat \<Rightarrow> command \<Rightarrow> string \<Rightarrow> string option) \<Rightarrow> (command \<Rightarrow> string) \<Rightarrow>
     controlled_app \<Rightarrow> command list \<Rightarrow> nat \<Rightarrow> 'w agents \<Rightarrow> kea_cmds_result outcome \<times> 'w agents" where
  "forward_to_kea_over_http cn json parse marshal app cs n st =
     (case ca_control app of
        Inl err \<Rightarrow> (Fails (NoAccessPoint err), st)
      | Inr (ca_address, ca_port, secure) \<Rightarrow>
     (case call_agent cn (ca_machine app)
             (ForwardToKeaOverHTTPReq (host_with_port_url ca_address ca_port secure) (map marshal cs))
             ''communication with Stork agent on {machine} to forward Kea command'' st of
        (None, st) \<Rightarrow> (Fails (NoStatistics (agent_addr_port (ca_machine app))), st)
      | (Some (Inl err, _, _), st) \<Rightarrow> (Fails (AgentFailed (agent_addr_port (ca_machine app)) err), st)
      | (Some (Inr (ForwardToKeaOverHTTPRsp None rs), tr, details), st) \<Rightarrow> (Panics, st)
      | (Some (Inr (ForwardToKeaOverHTTPRsp (Some status1) rs), tr, details), st) \<Rightarrow>
          if tr \<noteq> CommErrorReset \<and> tr \<noteq> CommErrorNone then (Fails (DaemonFailed details), st)
          else (case check_kea_comm_state json cs rs (get_kea_comm_error_stats (ca_id app) (stats_of (ca_machine app) st)) of
                  None \<Rightarrow> (Panics, st)
                | Some (c, m) \<Rightarrow>
                    (let k = kc_scan c;
                         st = report_daemon (kc_ca c) app ''forwarding Kea command via the Kea Control Agent {daemon} on {machine}'' ''ca'' (ErrorsObject (ks_errors k)) st;
                         st = report_daemon (kc_dhcp4 c) app ''processing Kea command by {daemon} on {machine}'' ''dhcp4'' (TextObject (ks_dhcp4_message k)) st;
                         st = report_daemon (kc_dhcp6 c) app ''processing Kea command by {daemon} on {machine}'' ''dhcp6'' (TextObject (ks_dhcp6_message k)) st;
                         st = report_daemon (kc_d2 c) app ''processing Kea command by {daemon} on {machine}'' ''d2'' (TextObject (ks_d2_message k)) st
                     in case parse_responses parse n cs (kc_ca c) 0 rs (ks_errors k, m) of
                          None \<Rightarrow> (Panics, st)
                        | Some (errors, m) \<Rightarrow>
                            (Returns \<lparr>kr_error = (if st_ok status1 then None else Some (st_message status1)),
                                      kr_cmds_errors = errors\<rparr>, change_kea app m st)))
      | (Some (Inr _, _, _), st) \<Rightarrow> (Fails WrongResponse, st)))"

section \<open>Calls and their statistics\<close>

lemma handle_request_states:
  assumes "handle_request cn a req st = (resp, st')"
  shows "ag_events st' = ag_events st" and
    "ag_states st' = (case ag_states st a of None \<Rightarrow> (ag_states st)(a \<mapsto> new_agent_stats) | Some _ \<Rightarrow> ag_states st)"
  using assms
  by (auto simp: handle_request_def get_connected_agent_def do_call_def Let_def split: option.splits prod.splits sum.splits)

lemma handle_request_origin:
  assumes "handle_request cn a req st = (Inr r, st')"
  shows "\<exists>w w'. cn_call cn a req w = (Inr r, w')"
  using assms
  by (auto simp: handle_request_def get_connected_agent_def do_call_def Let_def split: option.splits prod.splits sum.splits)

definition agent_count :: "controlled_machine \<Rightarrow> agent_request \<Rightarrow> 'w agents \<Rightarrow> int" where
  "agent_count m req st = get_error_count (encode_as_comm_stats_request_name req) (agent_comm_errors (stats_of m st))"

lemma get_error_count_update [simp]:
  "get_error_count k (increase_error_count k c) = get_error_count k c + 1"
  "get_error_count k (increase_error_count_by k i c) = get_error_count k c + i"
  "get_error_count k (reset_error_count k c) = 0"
  by (simp_all add: get_error_count_def increase_error_count_def increase_error_count_by_def reset_error_count_def)

lemma check_agent_comm_state_cases:
  assumes "check_agent_comm_state name err c = ((tr, details), c')" and "get_error_count name c \<ge> 0"
  shows "tr = (if err = None then (if get_error_count name c = 0 then CommErrorNone else CommErrorReset)
      else (if get_error_count name c = 0 then CommErrorNew else CommErrorContinued))"
    and "get_error_count name c' = (if err = None then 0 else get_error_count name c + 1)"
  using assms
  by (auto simp: check_agent_comm_state_def Let_def split: if_splits option.splits)

lemma stats_of_put [simp]: "stats_of m (put_stats m s st) = s"
  by (simp add: stats_of_def put_stats_def get_connected_agent_stats_def agent_addr_port_def)

lemma put_stats_events [simp]: "ag_events (put_stats m s st) = ag_events st"
  by (simp add: put_stats_def)

lemma report_transition_states [simp]:
  "ag_states (report_transition tr about ds os st) = ag_states st"
  "stats_of m (report_transition tr about ds os st) = stats_of m st"
  by (simp_all add: report_transition_def add_event_def stats_of_def get_connected_agent_stats_def
      split: comm_error_transition.split)

lemma create_event_level: "ev_level (create_event l t os) = l"
proof -
  have "ev_level (add_object x e) = ev_level e" for x e
    by (cases x) (simp_all add: relate_def replace_tag_def)
  then have "ev_level (fold add_object os e) = ev_level e" for e by (induction os arbitrary: e) simp_all
  then show ?thesis by (simp add: create_event_def)
qed

definition transition_levels :: "comm_error_transition \<Rightarrow> int list" where
  "transition_levels tr = (if tr = CommErrorNew then [ev_error] else if tr = CommErrorReset then [ev_warning] else [])"

lemma report_transition_levels [simp]:
  "map ev_level (ag_events (report_transition tr about ds os st)) = map ev_level (ag_events st) @ transition_levels tr"
  by (cases tr) (simp_all add: report_transition_def add_event_def transition_levels_def create_event_level)

lemma get_connected_agent_stats_put [simp]:
  "get_connected_agent_stats (mc_address m) (mc_agent_port m) (put_stats m s st) = Some s"
  by (simp add: put_stats_def get_connected_agent_stats_def agent_addr_port_def)

lemma get_connected_agent_stats_report [simp]:
  "get_connected_agent_stats a p (report_transition tr about ds os st) = get_connected_agent_stats a p st"
  by (simp add: get_connected_agent_stats_def)

text \<open>A call: the answer, the count of the request and the event that follow from it.\<close>

lemma call_agent_steps:
  assumes port: "mc_agent_port m \<noteq> 0" and count: "agent_count m req st \<ge> 0"
    and call: "call_agent cn m req about st = (x, st')"
  obtains resp tr details st1 where "x = Some (resp, tr, details)"
    "handle_request cn (agent_addr_port m) req st = (resp, st1)"
    "tr = (if isl resp then (if agent_count m req st = 0 then CommErrorNew else CommErrorContinued)
       else (if agent_count m req st = 0 then CommErrorNone else CommErrorReset))"
    "agent_count m req st' = (if isl resp then agent_count m req st + 1 else 0)"
    "map ev_level (ag_events st') = map ev_level (ag_events st) @ transition_levels tr"
    "bind9_comm_errors (stats_of m st') = bind9_comm_errors (stats_of m st)"
    "get_connected_agent_stats (mc_address m) (mc_agent_port m) st' = Some (stats_of m st')"
proof -
  obtain resp st1 where h: "handle_request cn (agent_addr_port m) req st = (resp, st1)" by fastforce
  note hs = handle_request_states [OF h]
  have st1: "get_connected_agent_stats (mc_address m) (mc_agent_port m) st1 = Some (stats_of m st1)"
    "stats_of m st1 = stats_of m st"
    using port hs(2) by (auto simp: get_connected_agent_stats_def stats_of_def agent_addr_port_def split: option.splits)
  let ?name = "encode_as_comm_stats_request_name req"
  let ?err = "case resp of Inl e \<Rightarrow> Some e | Inr _ \<Rightarrow> None"
  obtain tr details errs where c: "check_agent_comm_state ?name ?err (agent_comm_errors (stats_of m st)) = ((tr, details), errs)"
    by (metis prod.exhaust)
  have eq: "x = Some (resp, tr, details)"
    "st' = report_transition tr about [TextObject details] [machine_object m]
       (put_stats m ((stats_of m st)\<lparr>agent_comm_errors := errs\<rparr>) st1)"
    using call unfolding call_agent_def h prod.case st1 Let_def option.case c by simp_all
  note cs = check_agent_comm_state_cases [OF c, folded agent_count_def, OF count]
  have err: "?err = None \<longleftrightarrow> \<not> isl resp" by (simp split: sum.split)
  show thesis
  proof (rule that [OF eq(1) h])
    show "tr = (if isl resp then (if agent_count m req st = 0 then CommErrorNew else CommErrorContinued)
       else (if agent_count m req st = 0 then CommErrorNone else CommErrorReset))"
      using cs(1) err by simp
    show "agent_count m req st' = (if isl resp then agent_count m req st + 1 else 0)"
      using cs(2) err by (simp add: agent_count_def eq(2))
    show "map ev_level (ag_events st') = map ev_level (ag_events st) @ transition_levels tr"
      by (simp add: eq(2) hs(1))
    show "bind9_comm_errors (stats_of m st') = bind9_comm_errors (stats_of m st)" by (simp add: eq(2))
    show "get_connected_agent_stats (mc_address m) (mc_agent_port m) st' = Some (stats_of m st')" by (simp add: eq(2))
  qed
qed

section \<open>Pings\<close>

fun run_pings :: "'w connector \<Rightarrow> controlled_machine \<Rightarrow> nat \<Rightarrow> 'w agents \<Rightarrow> bool list \<times> 'w agents" where
  "run_pings cn m 0 st = ([], st)"
| "run_pings cn m (Suc n) st =
     (let (o1, st) = ping cn m st; (os, st) = run_pings cn m n st in ((o1 = Returns ()) # os, st))"

text \<open>The levels of the events that a series of answers, given or not, calls for.\<close>

fun comm_edges :: "bool \<Rightarrow> bool list \<Rightarrow> int list" where
  "comm_edges down [] = []"
| "comm_edges down (answered # xs) =
     (if answered = down then [if answered then ev_warning else ev_error] else []) @ comm_edges (\<not> answered) xs"

definition failures_after :: "int \<Rightarrow> bool list \<Rightarrow> int" where
  "failures_after = foldl (\<lambda>c answered. if answered then 0 else c + 1)"

lemma ping_step:
  assumes "mc_agent_port m \<noteq> 0" and "agent_count m PingReq st \<ge> 0" and "ping cn m st = (o1, st')"
  shows "agent_count m PingReq st' = (if o1 = Returns () then 0 else agent_count m PingReq st + 1) \<and>
    map ev_level (ag_events st') = map ev_level (ag_events st) @
      (if (o1 = Returns ()) = (agent_count m PingReq st > 0) then [if o1 = Returns () then ev_warning else ev_error] else [])"
proof -
  obtain x st1 where c: "call_agent cn m PingReq ''pinging Stork agent on {machine}'' st = (x, st1)" by fastforce
  obtain resp tr details st2 where r: "x = Some (resp, tr, details)"
    "tr = (if isl resp then (if agent_count m PingReq st = 0 then CommErrorNew else CommErrorContinued)
       else (if agent_count m PingReq st = 0 then CommErrorNone else CommErrorReset))"
    "agent_count m PingReq st1 = (if isl resp then agent_count m PingReq st + 1 else 0)"
    "map ev_level (ag_events st1) = map ev_level (ag_events st) @ transition_levels tr"
    by (rule call_agent_steps [OF assms(1,2) c])
  have o: "st' = st1" "o1 = Returns () \<longleftrightarrow> \<not> isl resp"
    using assms(3) unfolding ping_def c r(1) by (auto split: sum.splits)
  show ?thesis using r(3,4) assms(2) by (auto simp: o r(2) transition_levels_def)
qed

text \<open>
  C31: However the connections and the agent behave, a series of pings of a machine adds an error
  event exactly when an answer is missing after one that was given, and a warning exactly when one
  is given after a missing one, and the count is that of the answers missing at the end.
\<close>

theorem pings_report_edges:
  assumes "mc_agent_port m \<noteq> 0" and "agent_count m PingReq st \<ge> 0" and "run_pings cn m n st = (answers, st')"
  shows "length answers = n \<and>
    map ev_level (ag_events st') = map ev_level (ag_events st) @ comm_edges (agent_count m PingReq st > 0) answers \<and>
    agent_count m PingReq st' = failures_after (agent_count m PingReq st) answers"
  using assms(2,3)
proof (induction n arbitrary: st answers)
  case 0
  then show ?case by (simp add: failures_after_def)
next
  case (Suc n)
  obtain o1 st1 os where p: "ping cn m st = (o1, st1)" "run_pings cn m n st1 = (os, st')"
    and answers: "answers = (o1 = Returns ()) # os"
    using Suc(3) by (auto simp: Let_def split: prod.splits)
  note s = ping_step [OF assms(1) Suc(2) p(1)]
  then have "agent_count m PingReq st1 \<ge> 0" using Suc(2) by simp
  from Suc(1) [OF this p(2)] s Suc(2) show ?case
    by (auto simp: answers failures_after_def)
qed

definition flaky :: "nat connector" where
  "flaky = \<lparr>cn_connect = (\<lambda>a w. (None, w)), cn_call = (\<lambda>a req w. (if w < 4 then Inl ''down'' else Inr PingRsp, w + 1))\<rparr>"

definition some_machine :: controlled_machine where
  "some_machine = \<lparr>mc_id = 1, mc_address = ''h'', mc_hostname = ''h'', mc_agent_port = 8080\<rparr>"

definition no_agents :: "'w \<Rightarrow> 'w agents" where
  "no_agents w = \<lparr>ag_states = Map.empty, ag_events = [], ag_world = w\<rparr>"

lemma agent_count_no_agents [simp]: "agent_count m req (no_agents w) = 0"
  by (simp add: agent_count_def stats_of_def no_agents_def get_connected_agent_stats_def new_agent_stats_def get_error_count_def)

lemma pings_report_edges_witness:
  "\<exists>st'. run_pings flaky some_machine 3 (no_agents 0) = ([False, False, True], st') \<and>
     map ev_level (ag_events st') = [ev_error, ev_warning] \<and> agent_count some_machine PingReq st' = 0"
proof -
  obtain answers st' where r: "run_pings flaky some_machine 3 (no_agents 0) = (answers, st')" by fastforce
  have "fst (run_pings flaky some_machine 3 (no_agents 0)) = [False, False, True]" by code_simp
  then have a: "answers = [False, False, True]" by (simp add: r)
  have p: "mc_agent_port some_machine \<noteq> 0" by (simp add: some_machine_def)
  have c: "agent_count some_machine PingReq (no_agents (0 :: nat)) \<ge> 0" by simp
  have e: "ag_events (no_agents (0 :: nat)) = []" by (simp add: no_agents_def)
  from pings_report_edges [OF p c r] r show ?thesis
    by (simp add: a e failures_after_def)
qed

section \<open>Statistics that cannot be read\<close>

lemma bind9_count_change [simp]:
  "bind9_count app ch (change_bind9 app f st) = get_error_count ch (f (get_bind9_comm_error_stats (ca_id app) (stats_of (ca_machine app) st)))"
  by (simp add: bind9_count_def change_bind9_def Let_def get_bind9_comm_error_stats_def put_bind9_def)

lemma change_bind9_keeps [simp]:
  "ag_events (change_bind9 app f st) = ag_events st"
  "agent_count (ca_machine app) req (change_bind9 app f st) = agent_count (ca_machine app) req st"
  "get_connected_agent_stats (mc_address (ca_machine app)) (mc_agent_port (ca_machine app)) (change_bind9 app f st) =
     Some (stats_of (ca_machine app) (change_bind9 app f st))"
  by (simp_all add: change_bind9_def Let_def agent_count_def put_bind9_def)

lemma report_transition_counts [simp]:
  "bind9_count app ch (report_transition tr about ds os st) = bind9_count app ch st"
  "agent_count m req (report_transition tr about ds os st) = agent_count m req st"
  by (simp_all add: bind9_count_def agent_count_def)

definition poll_named_stats ::
    "'w connector \<Rightarrow> (string \<Rightarrow> string option) \<Rightarrow> controlled_app \<Rightarrow> string \<Rightarrow> int \<Rightarrow> string \<Rightarrow>
     unit outcome list \<times> 'w agents \<Rightarrow> unit outcome list \<times> 'w agents" where
  "poll_named_stats cn parse_stats app address port path os_st =
     (let (o1, st) = forward_to_named_stats cn parse_stats app address port path (snd os_st) in (fst os_st @ [o1], st))"

definition stats_request :: "string \<Rightarrow> int \<Rightarrow> string \<Rightarrow> agent_request" where
  "stats_request address port path = ForwardToNamedStatsReq (host_with_port_url address port False @ path)"

text \<open>However often it is asked, the agent answers the request with this body and a good status.\<close>

definition answers_statistics :: "'w connector \<Rightarrow> controlled_machine \<Rightarrow> agent_request \<Rightarrow> string \<Rightarrow> bool" where
  "answers_statistics cn m req body =
     (\<forall>w. \<exists>outer s w'. st_ok s \<and> cn_call cn (agent_addr_port m) req w = (Inr (ForwardToNamedStatsRsp outer (Some (Some s, body))), w'))"

definition agent_known :: "controlled_machine \<Rightarrow> 'w agents \<Rightarrow> bool" where
  "agent_known m st = (get_connected_agent_stats (mc_address m) (mc_agent_port m) st \<noteq> None)"

lemma unparsed_statistics_step:
  assumes port: "mc_agent_port (ca_machine app) \<noteq> 0"
    and answers: "answers_statistics cn (ca_machine app) (stats_request address port path) body"
    and known: "agent_known (ca_machine app) st"
    and bad: "parse_stats body = Some e"
    and counts: "agent_count (ca_machine app) (stats_request address port path) st = 0" "bind9_count app Bind9ChannelStats st = 1"
  obtains st' where "forward_to_named_stats cn parse_stats app address port path st = (Fails (ParseFailed e), st')"
    "agent_known (ca_machine app) st'"
    "agent_count (ca_machine app) (stats_request address port path) st' = 0" "bind9_count app Bind9ChannelStats st' = 1"
    "map ev_level (ag_events st') = map ev_level (ag_events st) @ [ev_warning]"
proof -
  let ?m = "ca_machine app"
  let ?req = "stats_request address port path"
  let ?about = "''communication with Stork agent on {machine} to query for named stats''"
  let ?about9 = "''communication between the Stork agent on {machine} and {app} to query named stats''"
  from answers obtain outer s w' where a: "st_ok s"
    "cn_call cn (agent_addr_port ?m) ?req (ag_world st) = (Inr (ForwardToNamedStatsRsp outer (Some (Some s, body))), w')" unfolding answers_statistics_def by blast
  let ?r = "ForwardToNamedStatsRsp outer (Some (Some s, body))"
  have h: "handle_request cn (agent_addr_port ?m) ?req st = (Inr ?r, st\<lparr>ag_world := w'\<rparr>)"
    using known port a(2)
    by (auto simp: agent_known_def handle_request_def get_connected_agent_def do_call_def get_connected_agent_stats_def agent_addr_port_def
        split: option.splits)
  obtain x st1 where c: "call_agent cn ?m ?req ?about st = (x, st1)" by fastforce
  have "agent_count ?m ?req st \<ge> 0" using counts by simp
  from call_agent_steps [OF port this c] h counts(1) obtain details where call: "x = Some (Inr ?r, CommErrorNone, details)"
    "agent_count ?m ?req st1 = 0" "map ev_level (ag_events st1) = map ev_level (ag_events st)"
    "bind9_comm_errors (stats_of ?m st1) = bind9_comm_errors (stats_of ?m st)"
    by (metis (no_types, lifting) Pair_inject append_Nil2 comm_error_transition.distinct(1,3) sum.disc(2) transition_levels_def)
  let ?c = "get_bind9_comm_error_stats (ca_id app) (stats_of ?m st1)"
  have one: "get_error_count Bind9ChannelStats ?c = 1"
    using counts(2) call(4) by (simp add: bind9_count_def get_bind9_comm_error_stats_def)
  define st2 where "st2 = report_transition CommErrorReset ?about9 [TextObject (st_message s)] [machine_object ?m, app_object app]
    (change_bind9 app (\<lambda>_. reset_error_count Bind9ChannelStats ?c) st1)"
  have r: "report_bind9 app Bind9ChannelStats (Some (Some s)) ?about9 st1 = Some ((CommErrorReset, st_message s), st2)"
    using a(1) one by (simp add: report_bind9_def check_bind9_comm_state_def Let_def st2_def)
  define st3 where "st3 = change_bind9 app (increase_error_count Bind9ChannelStats) st2"
  have st3: "bind9_count app Bind9ChannelStats st3 = 1"
    by (simp add: st3_def bind9_count_def [symmetric]) (simp add: st2_def)
  show thesis
  proof (rule that)
    show "forward_to_named_stats cn parse_stats app address port path st = (Fails (ParseFailed e), st3)"
      unfolding forward_to_named_stats_def stats_request_def [symmetric] c prod.case call(1) option.case sum.case agent_response.case r
      using a(1) bad st3 by (simp add: Let_def st3_def)
    show "bind9_count app Bind9ChannelStats st3 = 1" by (rule st3)
    show "agent_count ?m ?req st3 = 0" using call(2) by (simp add: st3_def st2_def)
    show "map ev_level (ag_events st3) = map ev_level (ag_events st) @ [ev_warning]"
      using call(3) by (simp add: st3_def st2_def transition_levels_def)
    show "agent_known ?m st3" by (simp add: st3_def agent_known_def)
  qed
qed

text \<open>
  C34: Statistics of BIND 9 that arrive and cannot be decoded, once they have been counted, make
  every later poll report that the communication succeeded again: the count never goes above one,
  and the poll never says that BIND 9 is still failing.
\<close>

theorem unparsed_statistics_flap:
  assumes "mc_agent_port (ca_machine app) \<noteq> 0"
    and "answers_statistics cn (ca_machine app) (stats_request address port path) body"
    and "agent_known (ca_machine app) st" and "parse_stats body = Some e"
    and "agent_count (ca_machine app) (stats_request address port path) st = 0" "bind9_count app Bind9ChannelStats st = 1"
  shows "\<exists>st'. (poll_named_stats cn parse_stats app address port path ^^ n) ([], st) = (replicate n (Fails (ParseFailed e)), st') \<and>
    map ev_level (ag_events st') = map ev_level (ag_events st) @ replicate n ev_warning \<and>
    bind9_count app Bind9ChannelStats st' = 1"
proof -
  have "\<exists>st'. (poll_named_stats cn parse_stats app address port path ^^ n) ([], st) = (replicate n (Fails (ParseFailed e)), st') \<and>
    map ev_level (ag_events st') = map ev_level (ag_events st) @ replicate n ev_warning \<and>
    bind9_count app Bind9ChannelStats st' = 1 \<and> agent_count (ca_machine app) (stats_request address port path) st' = 0 \<and>
    agent_known (ca_machine app) st'"
  proof (induction n)
    case 0
    show ?case using assms(3,5,6) by simp
  next
    case (Suc n)
    then obtain st1 where i: "(poll_named_stats cn parse_stats app address port path ^^ n) ([], st) = (replicate n (Fails (ParseFailed e)), st1)"
      "map ev_level (ag_events st1) = map ev_level (ag_events st) @ replicate n ev_warning"
      "bind9_count app Bind9ChannelStats st1 = 1" "agent_count (ca_machine app) (stats_request address port path) st1 = 0"
      "agent_known (ca_machine app) st1" by blast
    obtain st2 where s: "forward_to_named_stats cn parse_stats app address port path st1 = (Fails (ParseFailed e), st2)"
      "agent_known (ca_machine app) st2"
      "agent_count (ca_machine app) (stats_request address port path) st2 = 0" "bind9_count app Bind9ChannelStats st2 = 1"
      "map ev_level (ag_events st2) = map ev_level (ag_events st1) @ [ev_warning]"
      by (rule unparsed_statistics_step [where parse_stats = parse_stats, OF assms(1,2) i(5) assms(4) i(4,3)])
    have "poll_named_stats cn parse_stats app address port path (replicate n (Fails (ParseFailed e)), st1) =
        (replicate (Suc n) (Fails (ParseFailed e)), st2)"
      using s(1) by (simp add: poll_named_stats_def replicate_append_same)
    moreover have "map ev_level (ag_events st2) = map ev_level (ag_events st) @ replicate (Suc n) ev_warning"
      using s(5) i(2) by (simp add: replicate_append_same)
    ultimately show ?case using s(2-4) i(1) by (intro exI [of _ st2]) simp
  qed
  then show ?thesis by blast
qed

definition some_app :: controlled_app where
  "some_app = \<lparr>ca_id = 3, ca_name = ''n'', ca_type = ''bind9'', ca_version = ''9'', ca_machine = some_machine,
     ca_control = Inr (''h'', 953, False), ca_daemon_tag = (\<lambda>_. UnknownObject)\<rparr>"

definition garbling :: "unit connector" where
  "garbling = \<lparr>cn_connect = (\<lambda>a w. (None, w)),
     cn_call = (\<lambda>a req w. (Inr (ForwardToNamedStatsRsp None (Some (Some \<lparr>st_ok = True, st_message = []\<rparr>, ''x''))), w))\<rparr>"

definition counted_once :: "unit agents" where
  "counted_once = change_bind9 some_app (\<lambda>_. [Bind9ChannelStats \<mapsto> 1]) (put_stats some_machine new_agent_stats (no_agents ()))"

lemma agent_count_put: "agent_count m req (put_stats m new_agent_stats st) = 0"
  by (simp add: agent_count_def new_agent_stats_def get_error_count_def)

lemma counted_once_facts:
  "agent_known (ca_machine some_app) counted_once" "agent_count (ca_machine some_app) req counted_once = 0"
  "bind9_count some_app Bind9ChannelStats counted_once = 1" "ag_events counted_once = []"
proof -
  have m: "some_machine = ca_machine some_app" by (simp add: some_app_def)
  show "agent_known (ca_machine some_app) counted_once" "agent_count (ca_machine some_app) req counted_once = 0"
    "bind9_count some_app Bind9ChannelStats counted_once = 1" "ag_events counted_once = []"
    unfolding counted_once_def m
    by (simp_all add: agent_known_def agent_count_put get_error_count_def no_agents_def)
qed

lemma unparsed_statistics_flap_witness:
  "\<exists>st'. (poll_named_stats garbling (\<lambda>_. Some ''bad'') some_app ''h'' 8053 ''json'' ^^ 5) ([], counted_once) =
      (replicate 5 (Fails (ParseFailed ''bad'')), st') \<and>
    map ev_level (ag_events st') = replicate 5 ev_warning \<and> bind9_count some_app Bind9ChannelStats st' = 1"
proof -
  have "mc_agent_port (ca_machine some_app) \<noteq> 0" by (simp add: some_app_def some_machine_def)
  moreover have "answers_statistics garbling (ca_machine some_app) (stats_request ''h'' 8053 ''json'') ''x''"
    by (simp add: answers_statistics_def garbling_def)
  ultimately show ?thesis
    using unparsed_statistics_flap [where parse_stats = "\<lambda>_. Some ''bad''" and body = "''x''" and e = "''bad''" and n = 5,
      OF _ _ counted_once_facts(1) _ counted_once_facts(2,3)]
    by (simp add: counted_once_facts(4))
qed
section \<open>Errors of the commands to Kea\<close>

definition ca_header_text :: "response_header \<Rightarrow> string" where
  "ca_header_text h =
     (if (rh_daemon h = ''ca'' \<or> rh_daemon h = '''') \<and> rh_result h = response_error then rh_text h @ [CHR 0x0A] else [])"

definition command_error :: "json_headers \<Rightarrow> command \<Rightarrow> string \<Rightarrow> string option" where
  "command_error json c body =
     (let (err, hs) = unmarshal_response_list json c body;
          t = (case err of None \<Rightarrow> [] | Some e \<Rightarrow> ''received invalid response from Kea ControlAgent: '' @ e @ [CHR 0x0A]) @
              concat (map ca_header_text hs)
      in if t = [] then None else Some t)"

definition accepted :: "kea_response \<Rightarrow> bool" where
  "accepted r = (case kr_status r of None \<Rightarrow> False | Some s \<Rightarrow> st_ok s)"

lemma scan_header_text:
  "snd (scan_header h kb) = snd kb @ ca_header_text h" "ks_errors (fst (scan_header h kb)) = ks_errors (fst kb)"
  by (cases kb; simp add: scan_header_def ca_header_text_def Let_def)+

lemma fold_scan_header:
  "snd (fold scan_header hs kb) = snd kb @ concat (map ca_header_text hs)"
  "ks_errors (fst (fold scan_header hs kb)) = ks_errors (fst kb)"
  by (induction hs arbitrary: kb) (simp_all add: scan_header_text)

lemma scan_response_errors:
  assumes "scan_response json c r k = Some k'"
  shows "kr_status r \<noteq> None" and
    "ks_errors k' = ks_errors k @ (if accepted r then [command_error json (the c) (kr_body r)] else [])" and
    "accepted r \<Longrightarrow> c \<noteq> None"
proof -
  from assms show "kr_status r \<noteq> None" by (auto simp: scan_response_def Let_def split: option.splits)
  then obtain s where s: "kr_status r = Some s" by blast
  show c: "accepted r \<Longrightarrow> c \<noteq> None" using assms s by (cases c) (auto simp: scan_response_def Let_def accepted_def)
  show "ks_errors k' = ks_errors k @ (if accepted r then [command_error json (the c) (kr_body r)] else [])"
  proof (cases "st_ok s")
    case False
    with assms s show ?thesis by (auto simp: scan_response_def Let_def accepted_def)
  next
    case True
    then have acc: "accepted r" using s by (simp add: accepted_def)
    with c obtain c' where c': "c = Some c'" by blast
    obtain err hs where u: "unmarshal_response_list json c' (kr_body r) = (err, hs)" by fastforce
    define k0 where "k0 = k\<lparr>ks_ca := seen (ks_ca k)\<rparr>"
    define kb where "kb = (case err of None \<Rightarrow> (k0, '''')
       | Some e \<Rightarrow> (k0\<lparr>ks_ca := ks_ca k0 + 1\<rparr>, ''received invalid response from Kea ControlAgent: '' @ e @ [CHR 0x0A]))"
    obtain k1 b where f: "fold scan_header hs kb = (k1, b)" by fastforce
    have k': "k' = k1\<lparr>ks_errors := ks_errors k1 @ [if length b \<noteq> 0 then Some b else None]\<rparr>"
      using assms unfolding scan_response_def s c' k0_def [symmetric] Let_def option.case u prod.case kb_def [symmetric] f
      using True by simp
    have "b = snd kb @ concat (map ca_header_text hs)" "ks_errors k1 = ks_errors (fst kb)"
      using fold_scan_header [of hs kb] by (simp_all add: f)
    then show ?thesis
      by (cases err) (simp_all add: k' acc c' command_error_def u kb_def k0_def)
  qed
qed

lemma scan_responses_errors:
  "scan_responses json cs rs k = Some k' \<Longrightarrow>
     ks_errors k' = ks_errors k @ map (\<lambda>(c, r). command_error json c (kr_body r)) (filter (\<lambda>(c, r). accepted r) (zip cs rs)) \<and>
     (\<forall>r \<in> set rs. kr_status r \<noteq> None) \<and> (\<forall>i < length rs. accepted (rs ! i) \<longrightarrow> i < length cs)"
proof (induction json cs rs k rule: scan_responses.induct)
  case (2 json cs r rs k)
  let ?c = "case cs of [] \<Rightarrow> None | c # _ \<Rightarrow> Some c"
  from 2(2) obtain k1 where k1: "scan_response json ?c r k = Some k1" "scan_responses json (tl cs) rs k1 = Some k'"
    by (auto split: option.splits)
  note e = scan_response_errors [OF k1(1)]
  note IH = 2(1) [OF k1]
  show ?case
  proof (cases cs)
    case Nil
    with e(3) have "\<not> accepted r" by auto
    with e IH Nil show ?thesis by (auto simp: nth_Cons less_Suc_eq_0_disj split: nat.split)
  next
    case (Cons c cs')
    with e IH show ?thesis by (auto simp: nth_Cons less_Suc_eq_0_disj split: nat.split)
  qed
qed simp

text \<open>
  C33: The errors of the commands that are found in the responses are, in order, those of the
  commands whose response has a good status: a command whose response has another status has no
  item, and the items after it are those of later commands.
\<close>

theorem errors_of_accepted_commands:
  assumes "check_kea_comm_state json cs rs m = Some (c, m')"
  shows "ks_errors (kc_scan c) =
    map (\<lambda>(c, r). command_error json c (kr_body r)) (filter (\<lambda>(c, r). accepted r) (zip cs rs))"
proof -
  from assms obtain k where "scan_responses json cs rs new_kea_scan = Some k" "kc_scan c = k"
    by (auto simp: check_kea_comm_state_def Let_def split: option.splits prod.splits)
  with scan_responses_errors show ?thesis by (fastforce simp: new_kea_scan_def)
qed

definition a_command :: command where "a_command = new_command_base ''version-get'' []"

definition rejected_response :: kea_response where
  "rejected_response = \<lparr>kr_status = Some \<lparr>st_ok = False, st_message = ''no CA''\<rparr>, kr_body = []\<rparr>"

definition good_response :: kea_response where
  "good_response = \<lparr>kr_status = Some \<lparr>st_ok = True, st_message = []\<rparr>, kr_body = ''[]''\<rparr>"

definition no_headers :: json_headers where
  "no_headers body = (if body = [] then Some ''unexpected end'' else None, [])"

lemma rejected_good_state:
  "\<exists>c m'. check_kea_comm_state no_headers [a_command, a_command] [rejected_response, good_response] Map.empty = Some (c, m')"
  by (simp add: check_kea_comm_state_def scan_response_def rejected_response_def good_response_def Let_def
      unmarshal_response_list_def no_headers_def split: prod.split)

lemma errors_of_accepted_commands_witness:
  "\<exists>c m'. check_kea_comm_state no_headers [a_command, a_command] [rejected_response, good_response] Map.empty = Some (c, m') \<and>
     ks_errors (kc_scan c) = [None]"
proof -
  from rejected_good_state obtain c m' where
    c: "check_kea_comm_state no_headers [a_command, a_command] [rejected_response, good_response] Map.empty = Some (c, m')" by blast
  from errors_of_accepted_commands [OF c] c show ?thesis
    by (simp add: accepted_def rejected_response_def good_response_def command_error_def unmarshal_response_list_def
        no_headers_def a_command_def new_command_base_def)
qed

text \<open>Decoding keeps an error that is there, and leaves none only when there was none.\<close>

lemma parse_responses_clean:
  "parse_responses parse n cs tr idx rs em = Some (errors, m) \<Longrightarrow> \<forall>e \<in> set errors. e = None \<Longrightarrow>
     errors = fst em \<and> idx + length rs \<le> length cs \<or> rs = [] \<and> errors = fst em"
proof (induction parse n cs tr idx rs em rule: parse_responses.induct)
  case (2 parse n cs tr idx r rs errs m0)
  have bounds: "idx < length cs" using 2(3) by (auto split: if_splits)
  let ?em = "\<lambda>e. (if length errs > idx then errs[idx := Some e] else errs @ [Some e],
    if tr \<noteq> CommErrorNew \<and> tr \<noteq> CommErrorContinued then increase_error_count KeaDaemonCA m0 else m0)"
  have cond: "\<not> (idx \<ge> n \<or> idx \<ge> length cs)" using 2(3) by (auto split: if_splits)
  show ?case
  proof (cases "parse idx (cs ! idx) (kr_body r)")
    case None
    with 2(3) cond have "parse_responses parse n cs tr (Suc idx) rs (errs, m0) = Some (errors, m)" by simp
    from 2(1) [OF cond None this 2(4)] bounds show ?thesis by auto
  next
    case (Some e)
    with 2(3) cond have p: "parse_responses parse n cs tr (Suc idx) rs (?em e) = Some (errors, m)" by simp
    from 2(2) [OF cond Some p 2(4)] have "errors = fst (?em e)" by blast
    then have "Some e \<in> set errors"
      by (auto simp: set_update_memI split: if_splits)
    with 2(4) show ?thesis by blast
  qed
qed simp

lemma parse_responses_parsed:
  "parse_responses parse n cs tr idx rs em = Some (errors, m) \<Longrightarrow> \<forall>e \<in> set errors. e = None \<Longrightarrow>
     i < length rs \<Longrightarrow> parse (idx + i) (cs ! (idx + i)) (kr_body (rs ! i)) = None"
proof (induction parse n cs tr idx rs em arbitrary: i rule: parse_responses.induct)
  case (2 parse n cs tr idx r rs errs m0)
  have cond: "\<not> (idx \<ge> n \<or> idx \<ge> length cs)" using 2(3) by (auto split: if_splits)
  let ?em = "\<lambda>e. (if length errs > idx then errs[idx := Some e] else errs @ [Some e],
    if tr \<noteq> CommErrorNew \<and> tr \<noteq> CommErrorContinued then increase_error_count KeaDaemonCA m0 else m0)"
  show ?case
  proof (cases "parse idx (cs ! idx) (kr_body r)")
    case None
    with 2(3) cond have p: "parse_responses parse n cs tr (Suc idx) rs (errs, m0) = Some (errors, m)" by simp
    show ?thesis
    proof (cases i)
      case (Suc j)
      with 2(1) [OF cond None p 2(4), of j] 2(5) show ?thesis by simp
    qed (simp add: None)
  next
    case (Some e)
    with 2(3) cond have p: "parse_responses parse n cs tr (Suc idx) rs (?em e) = Some (errors, m)" by simp
    from parse_responses_clean [OF p 2(4)] have "errors = fst (?em e)" by blast
    then have "Some e \<in> set errors" by (auto simp: set_update_memI split: if_splits)
    with 2(4) show ?thesis by blast
  qed
qed simp

lemma get_first_error_None:
  assumes "get_first_error (Some r) = None"
  shows "kr_error r = None" "\<forall>e \<in> set (kr_cmds_errors r). e = None"
proof -
  show "kr_error r = None" using assms by (simp split: option.splits)
  with assms have "find (\<lambda>e. e \<noteq> None) (kr_cmds_errors r) = None"
    by (auto split: option.splits simp: find_Some_iff)
  then show "\<forall>e \<in> set (kr_cmds_errors r). e = None" by (simp add: find_None_iff)
qed

lemma call_agent_origin:
  assumes "call_agent cn m req about st = (Some (Inr r, tr, details), st')"
  shows "\<exists>w w'. cn_call cn (agent_addr_port m) req w = (Inr r, w')"
proof -
  obtain resp st1 where h: "handle_request cn (agent_addr_port m) req st = (resp, st1)" by fastforce
  with assms have "resp = Inr r"
    by (auto simp: call_agent_def Let_def split: option.splits prod.splits)
  with handle_request_origin h show ?thesis by metis
qed

lemma forward_to_kea_returned:
  assumes "forward_to_kea_over_http cn json parse marshal app cs n st = (Returns r, st')"
  obtains address port secure s rs w w' c m m' m'' errors where "ca_control app = Inr (address, port, secure)"
    "cn_call cn (agent_addr_port (ca_machine app))
       (ForwardToKeaOverHTTPReq (host_with_port_url address port secure) (map marshal cs)) w =
     (Inr (ForwardToKeaOverHTTPRsp (Some s) rs), w')"
    "check_kea_comm_state json cs rs m = Some (c, m')"
    "parse_responses parse n cs (kc_ca c) 0 rs (ks_errors (kc_scan c), m') = Some (errors, m'')"
    "r = \<lparr>kr_error = (if st_ok s then None else Some (st_message s)), kr_cmds_errors = errors\<rparr>"
proof -
  let ?about = "''communication with Stork agent on {machine} to forward Kea command''"
  from assms obtain address port secure where ctl: "ca_control app = Inr (address, port, secure)"
    by (auto simp: forward_to_kea_over_http_def split: sum.splits)
  let ?req = "ForwardToKeaOverHTTPReq (host_with_port_url address port secure) (map marshal cs)"
  obtain x st1 where c: "call_agent cn (ca_machine app) ?req ?about st = (x, st1)" by fastforce
  from assms obtain s rs tr details where x: "x = Some (Inr (ForwardToKeaOverHTTPRsp (Some s) rs), tr, details)"
    unfolding forward_to_kea_over_http_def ctl sum.case prod.case c
    by (auto split: option.splits sum.splits prod.splits agent_response.splits)
  let ?m = "get_kea_comm_error_stats (ca_id app) (stats_of (ca_machine app) st1)"
  note body = assms [unfolded forward_to_kea_over_http_def ctl sum.case prod.case c x option.case agent_response.case]
  from body obtain cst m' where ck: "check_kea_comm_state json cs rs ?m = Some (cst, m')"
    by (auto split: if_splits option.splits)
  from body obtain errors m'' where p: "parse_responses parse n cs (kc_ca cst) 0 rs (ks_errors (kc_scan cst), m') = Some (errors, m'')"
    and r: "r = \<lparr>kr_error = (if st_ok s then None else Some (st_message s)), kr_cmds_errors = errors\<rparr>"
    unfolding ck option.case prod.case Let_def by (auto split: if_splits option.splits)
  from call_agent_origin [OF c [unfolded x]] obtain w w' where
    "cn_call cn (agent_addr_port (ca_machine app)) ?req w = (Inr (ForwardToKeaOverHTTPRsp (Some s) rs), w')" by blast
  from that [OF ctl this ck p r] show thesis .
qed

text \<open>
  C32: When the result of forwarding commands to Kea shows no first error, the agent answered with a
  good status and at most a response for each command, every response was decoded for its command and
  is not empty, as long as nothing decodes an empty body, and a response with a good status could be
  read as a list of headers, none of which reports an error of the control agent.
\<close>

theorem kea_commands_without_error:
  assumes "forward_to_kea_over_http cn json parse marshal app cs n st = (Returns r, st')"
    and "get_first_error (Some r) = None" and "\<And>i c. parse i c [] \<noteq> None"
  shows "\<exists>address port secure s rs w w'. ca_control app = Inr (address, port, secure) \<and>
    cn_call cn (agent_addr_port (ca_machine app))
      (ForwardToKeaOverHTTPReq (host_with_port_url address port secure) (map marshal cs)) w =
      (Inr (ForwardToKeaOverHTTPRsp (Some s) rs), w') \<and> st_ok s \<and> length rs \<le> length cs \<and>
    (\<forall>i < length rs. parse i (cs ! i) (kr_body (rs ! i)) = None \<and> kr_body (rs ! i) \<noteq> [] \<and>
      (accepted (rs ! i) \<longrightarrow> command_error json (cs ! i) (kr_body (rs ! i)) = None))"
proof -
  from assms(1) obtain address port secure s rs w w' c m m' errors m'' where f: "ca_control app = Inr (address, port, secure)"
    "cn_call cn (agent_addr_port (ca_machine app))
       (ForwardToKeaOverHTTPReq (host_with_port_url address port secure) (map marshal cs)) w =
     (Inr (ForwardToKeaOverHTTPRsp (Some s) rs), w')"
    "check_kea_comm_state json cs rs m = Some (c, m')"
    "parse_responses parse n cs (kc_ca c) 0 rs (ks_errors (kc_scan c), m') = Some (errors, m'')"
    "r = \<lparr>kr_error = (if st_ok s then None else Some (st_message s)), kr_cmds_errors = errors\<rparr>"
    by (rule forward_to_kea_returned)
  note g = get_first_error_None [OF assms(2)]
  have clean: "\<forall>e \<in> set errors. e = None" using g(2) f(5) by simp
  note p = parse_responses_clean [OF f(4) clean] parse_responses_parsed [OF f(4) clean]
  from f(3) obtain k where k: "scan_responses json cs rs new_kea_scan = Some k" "kc_scan c = k"
    by (auto simp: check_kea_comm_state_def Let_def split: option.splits prod.splits)
  note sc = scan_responses_errors [OF k(1)]
  have errs: "errors = map (\<lambda>(c, r). command_error json c (kr_body r)) (filter (\<lambda>(c, r). accepted r) (zip cs rs))"
    using p(1) sc k(2) by (auto simp: new_kea_scan_def)
  have "command_error json (cs ! i) (kr_body (rs ! i)) = None" if "i < length rs" "accepted (rs ! i)" for i
  proof -
    have "(cs ! i, rs ! i) \<in> set (zip cs rs)" using that sc by (auto simp: set_zip)
    with that have "command_error json (cs ! i) (kr_body (rs ! i)) \<in> set errors" by (force simp: errs)
    with clean show ?thesis by blast
  qed
  moreover have "st_ok s" using g(1) f(5) by (simp split: if_splits)
  moreover have "length rs \<le> length cs" using p(1) by auto
  moreover have "parse i (cs ! i) (kr_body (rs ! i)) = None \<and> kr_body (rs ! i) \<noteq> []" if "i < length rs" for i
    using p(2) [OF that] assms(3) by (metis add_0)
  ultimately show ?thesis using f(1,2) by blast
qed

definition answering :: "unit connector" where
  "answering = \<lparr>cn_connect = (\<lambda>a w. (None, w)),
     cn_call = (\<lambda>a req w. (Inr (ForwardToKeaOverHTTPRsp (Some \<lparr>st_ok = True, st_message = []\<rparr>) [good_response]), w))\<rparr>"

definition no_body :: "nat \<Rightarrow> command \<Rightarrow> string \<Rightarrow> string option" where
  "no_body i c body = (if body = [] then Some ''unexpected end'' else None)"

lemma kea_commands_without_error_witness:
  "\<exists>st'. forward_to_kea_over_http answering no_headers no_body cm_command some_app [a_command] 1 (no_agents ()) =
      (Returns \<lparr>kr_error = None, kr_cmds_errors = [None]\<rparr>, st') \<and>
    (\<exists>w w' s rs. cn_call answering ''h:8080'' (ForwardToKeaOverHTTPReq ''http://h:953/'' [''version-get'']) w =
      (Inr (ForwardToKeaOverHTTPRsp (Some s) rs), w') \<and> st_ok s \<and> length rs \<le> 1)"
proof -
  have "fst (forward_to_kea_over_http answering no_headers no_body cm_command some_app [a_command] 1 (no_agents ())) =
      Returns \<lparr>kr_error = None, kr_cmds_errors = [None]\<rparr>" by code_simp
  then obtain st' where st': "forward_to_kea_over_http answering no_headers no_body cm_command some_app [a_command] 1 (no_agents ()) =
      (Returns \<lparr>kr_error = None, kr_cmds_errors = [None]\<rparr>, st')" by (metis prod.collapse)
  have g: "get_first_error (Some \<lparr>kr_error = None, kr_cmds_errors = [None]\<rparr>) = None" by simp
  have nb: "\<And>i c. no_body i c [] \<noteq> None" by (simp add: no_body_def)
  have a: "agent_addr_port (ca_machine some_app) = ''h:8080''" "host_with_port_url ''h'' 953 False = ''http://h:953/''"
    by code_simp+
  from kea_commands_without_error [where parse = no_body, OF st' g nb] st' show ?thesis
    by (auto simp: some_app_def a_command_def new_command_base_def a [unfolded some_app_def, simplified])
qed

end
