(* ===== verification/Config_Commit.thy ===== *)
theory Config_Commit
  imports Config_Manager Agent_Comm
begin

text \<open>
  The commit of configuration changes: \<open>Commit\<close>, \<open>CommitDue\<close> and \<open>Schedule\<close> of the manager in
  \<open>server/apps/manager.go\<close>, and the commit functions of \<open>server/apps/kea/configmodule.go\<close> with the
  recipes of \<open>server/config\<close>.  Daemons, hosts, shared networks and subnets of the database are
  types of the model, and the agents and the queries of the database are arguments.
\<close>

section \<open>Recipes\<close>

record ('a, 'd, 'h, 'n, 's) config_recipe =
  rc_commands :: "('a \<times> command) list"
  rc_daemons_before :: "'d list option"
  rc_daemons_after :: "'d list option"
  rc_host_before :: "'h option"
  rc_host_after :: "'h option"
  rc_host_id :: "int option"
  rc_network_before :: "'n option"
  rc_network_after :: "'n option"
  rc_network_id :: "int option"
  rc_subnet_before :: "'s option"
  rc_subnet_after :: "'s option"
  rc_subnet_id :: "int option"

record 'r config_update =
  up_target :: string
  up_operation :: string
  up_daemons :: "int list"
  up_recipe :: 'r

definition set_recipe_for_update :: "nat \<Rightarrow> 'r \<Rightarrow> 'r config_update list \<Rightarrow> 'r config_update list option" where
  "set_recipe_for_update i r us = (if length us \<le> i then None else Some (us[i := (us ! i)\<lparr>up_recipe := r\<rparr>]))"

definition get_recipe_for_update :: "nat \<Rightarrow> 'r config_update list \<Rightarrow> 'r option" where
  "get_recipe_for_update i us = (if length us \<le> i then None else Some (up_recipe (us ! i)))"

text \<open>\<open>NilHost\<close> is the panic for a host that has gone from the database meanwhile.\<close>

datatype commit_error = CommandFailed string | MissingRecipe string | StoreFailed string | UnknownOperation string
  | UnknownModule string | NoState | BadIndex | NoNewIdentifier | NilHost | ContextFailed manager_error | NoUser | JsonFailed string

text \<open>The queries of the database; a transaction that fails changes nothing.\<close>

record ('d, 'h, 'n, 's, 'db) config_store =
  cs_update_daemon :: "'d \<Rightarrow> 'db \<Rightarrow> string + 'db"
  cs_add_host :: "'h \<Rightarrow> 'db \<Rightarrow> string + 'db"
  cs_update_host :: "'h \<Rightarrow> 'db \<Rightarrow> string + 'db"
  cs_get_host :: "int \<Rightarrow> 'db \<Rightarrow> string + 'h option"
  cs_host_from_config :: "'h \<Rightarrow> bool"
  cs_delete_host :: "int \<Rightarrow> 'db \<Rightarrow> string + 'db"
  cs_delete_api_daemons :: "int \<Rightarrow> 'db \<Rightarrow> string + 'db"
  cs_commit_network :: "'n \<Rightarrow> 'db \<Rightarrow> string + int \<times> 'db"
  cs_network_number :: "'n \<Rightarrow> int"
  cs_delete_network_daemons :: "int \<Rightarrow> 'db \<Rightarrow> string + 'db"
  cs_delete_network :: "int \<Rightarrow> 'db \<Rightarrow> string + 'db"
  cs_commit_subnet :: "'s \<Rightarrow> 'db \<Rightarrow> string + int list \<times> 'db"
  cs_delete_subnet :: "int \<Rightarrow> 'db \<Rightarrow> string + 'db"

section \<open>Commands\<close>

type_synonym ('a, 'k) send = "'a \<Rightarrow> command \<Rightarrow> 'k \<Rightarrow> (string + kea_cmds_result \<times> response_header list) \<times> 'k"

definition first_response_error :: "response_header list \<Rightarrow> string option" where
  "first_response_error hs =
     (case find (\<lambda>h. get_response_error h \<noteq> None) hs of None \<Rightarrow> None | Some h \<Rightarrow> get_response_error h)"

definition command_sent :: "string + kea_cmds_result \<times> response_header list \<Rightarrow> string option" where
  "command_sent r =
     (case r of
        Inl e \<Rightarrow> Some e
      | Inr (result, hs) \<Rightarrow> (case get_first_error (Some result) of Some e \<Rightarrow> Some e | None \<Rightarrow> first_response_error hs))"

fun send_commands :: "('a, 'k) send \<Rightarrow> ('a \<times> command) list \<Rightarrow> 'k \<Rightarrow> commit_error option \<times> 'k" where
  "send_commands send [] k = (None, k)"
| "send_commands send ((app, c) # cs) k =
     (case send app c k of
        (r, k) \<Rightarrow>
          (case command_sent r of
             Some e \<Rightarrow> (Some (CommandFailed e), k)
           | None \<Rightarrow> send_commands send cs k))"

fun commit_changes ::
    "('a, 'k) send \<Rightarrow> ('a, 'd, 'h, 'n, 's) config_recipe config_update list \<Rightarrow> 'k \<Rightarrow> commit_error option \<times> 'k" where
  "commit_changes send [] k = (None, k)"
| "commit_changes send (u # us) k =
     (case send_commands send (rc_commands (up_recipe u)) k of
        (Some e, k) \<Rightarrow> (Some e, k)
      | (None, k) \<Rightarrow> commit_changes send us k)"

section \<open>Storing what was changed\<close>

text \<open>
  What is stored for an update with a number, for each of the operations.  The updates are shared
  with the context, so that what is set in one of them is seen by all that follows.
\<close>

type_synonym ('u, 'db) stored = "commit_error option \<times> 'u list \<times> 'db"

definition only_store :: "'u list \<Rightarrow> 'db \<Rightarrow> string + 'db \<Rightarrow> ('u, 'db) stored" where
  "only_store us db r = (case r of Inl e \<Rightarrow> (Some (StoreFailed e), us, db) | Inr db \<Rightarrow> (None, us, db))"

fun update_daemons :: "('d \<Rightarrow> 'db \<Rightarrow> string + 'db) \<Rightarrow> 'd list \<Rightarrow> 'u list \<Rightarrow> 'db \<Rightarrow> ('u, 'db) stored" where
  "update_daemons upd [] us db = (None, us, db)"
| "update_daemons upd (d # ds) us db =
     (case upd d db of Inl e \<Rightarrow> (Some (StoreFailed e), us, db) | Inr db \<Rightarrow> update_daemons upd ds us db)"

type_synonym ('a, 'd, 'h, 'n, 's) kea_update = "('a, 'd, 'h, 'n, 's) config_recipe config_update"

definition store_host_delete ::
    "('d, 'h, 'n, 's, 'db) config_store \<Rightarrow> int \<Rightarrow> ('a, 'd, 'h, 'n, 's) kea_update list \<Rightarrow> 'db \<Rightarrow>
     (('a, 'd, 'h, 'n, 's) kea_update, 'db) stored" where
  "store_host_delete st i us db =
     (case cs_get_host st i db of
        Inl e \<Rightarrow> (Some (StoreFailed e), us, db)
      | Inr None \<Rightarrow> (Some NilHost, us, db)
      | Inr (Some h) \<Rightarrow>
          only_store us db (if cs_host_from_config st h then cs_delete_api_daemons st i db else cs_delete_host st i db))"

definition store_network_add ::
    "('d, 'h, 'n, 's, 'db) config_store \<Rightarrow> nat \<Rightarrow> 'n \<Rightarrow> ('a, 'd, 'h, 'n, 's) kea_update list \<Rightarrow> 'db \<Rightarrow>
     (('a, 'd, 'h, 'n, 's) kea_update, 'db) stored" where
  "store_network_add st i n us db =
     (case cs_commit_network st n db of
        Inl e \<Rightarrow> (Some (StoreFailed e), us, db)
      | Inr (new, db) \<Rightarrow>
          (case get_recipe_for_update i us of
             None \<Rightarrow> (Some BadIndex, us, db)
           | Some r \<Rightarrow>
               (let r = r\<lparr>rc_network_id := Some new\<rparr>; us = us[i := (us ! i)\<lparr>up_recipe := r\<rparr>] in
                case set_recipe_for_update 0 r us of None \<Rightarrow> (Some BadIndex, us, db) | Some us \<Rightarrow> (None, us, db))))"

definition store_network_update ::
    "('d, 'h, 'n, 's, 'db) config_store \<Rightarrow> 'n \<Rightarrow> 'u list \<Rightarrow> 'db \<Rightarrow> ('u, 'db) stored" where
  "store_network_update st n us db =
     (case cs_delete_network_daemons st (cs_network_number st n) db of
        Inl e \<Rightarrow> (Some (StoreFailed e), us, db)
      | Inr db' \<Rightarrow>
          (case cs_commit_network st n db' of
             Inl e \<Rightarrow> (Some (StoreFailed e), us, db)
           | Inr (_, db') \<Rightarrow> (None, us, db')))"

definition store_subnet_add ::
    "('d, 'h, 'n, 's, 'db) config_store \<Rightarrow> nat \<Rightarrow> 's \<Rightarrow> ('a, 'd, 'h, 'n, 's) kea_update list \<Rightarrow> 'db \<Rightarrow>
     (('a, 'd, 'h, 'n, 's) kea_update, 'db) stored" where
  "store_subnet_add st i s us db =
     (case cs_commit_subnet st s db of
        Inl e \<Rightarrow> (Some (StoreFailed e), us, db)
      | Inr (added, db) \<Rightarrow>
          if length added \<noteq> 1 then (Some NoNewIdentifier, us, db)
          else (case get_recipe_for_update i us of
             None \<Rightarrow> (Some BadIndex, us, db)
           | Some r \<Rightarrow>
               (let r = r\<lparr>rc_subnet_id := Some (hd added)\<rparr>; us = us[i := (us ! i)\<lparr>up_recipe := r\<rparr>] in
                case set_recipe_for_update 0 r us of None \<Rightarrow> (Some BadIndex, us, db) | Some us \<Rightarrow> (None, us, db))))"

definition store_subnet_update ::
    "('d, 'h, 'n, 's, 'db) config_store \<Rightarrow> 's \<Rightarrow> 'u list \<Rightarrow> 'db \<Rightarrow> ('u, 'db) stored" where
  "store_subnet_update st s us db =
     (case cs_commit_subnet st s db of Inl e \<Rightarrow> (Some (StoreFailed e), us, db) | Inr (_, db) \<Rightarrow> (None, us, db))"

definition needed :: "string \<Rightarrow> 'x option \<Rightarrow> ('x \<Rightarrow> 'u list \<Rightarrow> 'db \<Rightarrow> ('u, 'db) stored) \<Rightarrow> 'u list \<Rightarrow> 'db \<Rightarrow> ('u, 'db) stored" where
  "needed what x f us db = (case x of None \<Rightarrow> (Some (MissingRecipe what), us, db) | Some y \<Rightarrow> f y us db)"

definition store_update ::
    "('d, 'h, 'n, 's, 'db) config_store \<Rightarrow> string \<Rightarrow> nat \<Rightarrow> ('a, 'd, 'h, 'n, 's) kea_update list \<Rightarrow> 'db \<Rightarrow>
     (('a, 'd, 'h, 'n, 's) kea_update, 'db) stored" where
  "store_update st op i us db =
     (let r = up_recipe (us ! i) in
      if op = ''global_parameters_update'' then
        needed ''KeaDaemonsAfterConfigUpdate'' (rc_daemons_after r) (update_daemons (cs_update_daemon st)) us db
      else if op = ''host_add'' then
        needed ''HostAfterUpdate'' (rc_host_after r) (\<lambda>h us db. only_store us db (cs_add_host st h db)) us db
      else if op = ''host_update'' then
        needed ''HostAfterUpdate'' (rc_host_after r) (\<lambda>h us db. only_store us db (cs_update_host st h db)) us db
      else if op = ''host_delete'' then needed ''HostID'' (rc_host_id r) (store_host_delete st) us db
      else if op = ''shared_network_add'' then needed ''SharedNetworkAfterUpdate'' (rc_network_after r) (store_network_add st i) us db
      else if op = ''shared_network_update'' then needed ''SharedNetworkAfterUpdate'' (rc_network_after r) (store_network_update st) us db
      else if op = ''shared_network_delete'' then
        needed ''SharedNetworkID'' (rc_network_id r) (\<lambda>n us db. only_store us db (cs_delete_network st n db)) us db
      else if op = ''subnet_add'' then needed ''SubnetAfterUpdate'' (rc_subnet_after r) (store_subnet_add st i) us db
      else if op = ''subnet_update'' then needed ''SubnetAfterUpdate'' (rc_subnet_after r) (store_subnet_update st) us db
      else needed ''SubnetID'' (rc_subnet_id r) (\<lambda>s us db. only_store us db (cs_delete_subnet st s db)) us db)"

definition known_operations :: "string list" where
  "known_operations = [''global_parameters_update'', ''host_add'', ''host_update'', ''host_delete'', ''shared_network_add'',
     ''shared_network_update'', ''shared_network_delete'', ''subnet_add'', ''subnet_update'', ''subnet_delete'']"

fun store_updates ::
    "('d, 'h, 'n, 's, 'db) config_store \<Rightarrow> string \<Rightarrow> nat list \<Rightarrow> ('a, 'd, 'h, 'n, 's) kea_update list \<Rightarrow> 'db \<Rightarrow>
     (('a, 'd, 'h, 'n, 's) kea_update, 'db) stored" where
  "store_updates st op [] us db = (None, us, db)"
| "store_updates st op (i # is') us db =
     (case store_update st op i us db of
        (Some e, us, db) \<Rightarrow> (Some e, us, db)
      | (None, us, db) \<Rightarrow> store_updates st op is' us db)"

section \<open>Commit\<close>

record ('u, 'db, 'k) commit_world =
  cw_updates :: "'u list"
  cw_db :: 'db
  cw_agents :: 'k

text \<open>
  Each of the functions for an operation sends the commands of all updates of the transaction and
  stores all of them.
\<close>

definition commit_operation ::
    "('a, 'k) send \<Rightarrow> ('d, 'h, 'n, 's, 'db) config_store \<Rightarrow> string \<Rightarrow> (('a, 'd, 'h, 'n, 's) kea_update, 'db, 'k) commit_world \<Rightarrow>
     commit_error option \<times> (('a, 'd, 'h, 'n, 's) kea_update, 'db, 'k) commit_world" where
  "commit_operation send st op w =
     (case commit_changes send (cw_updates w) (cw_agents w) of
        (Some e, k) \<Rightarrow> (Some e, w\<lparr>cw_agents := k\<rparr>)
      | (None, k) \<Rightarrow>
          (case store_updates st op [0..<length (cw_updates w)] (cw_updates w) (cw_db w) of
             (err, us, db) \<Rightarrow> (err, \<lparr>cw_updates = us, cw_db = db, cw_agents = k\<rparr>)))"

fun commit_each ::
    "(nat \<Rightarrow> 'w \<Rightarrow> commit_error option \<times> 'w) \<Rightarrow> nat list \<Rightarrow> 'w \<Rightarrow> commit_error option \<times> 'w" where
  "commit_each f [] w = (None, w)"
| "commit_each f (i # is') w = (case f i w of (Some e, w) \<Rightarrow> (Some e, w) | (None, w) \<Rightarrow> commit_each f is' w)"

definition module_commit ::
    "('a, 'k) send \<Rightarrow> ('d, 'h, 'n, 's, 'db) config_store \<Rightarrow> (('a, 'd, 'h, 'n, 's) kea_update, 'db, 'k) commit_world \<Rightarrow>
     commit_error option \<times> (('a, 'd, 'h, 'n, 's) kea_update, 'db, 'k) commit_world" where
  "module_commit send st w =
     commit_each (\<lambda>i w. let op = up_operation (cw_updates w ! i) in
         if op \<in> set known_operations then commit_operation send st op w else (Some (UnknownOperation op), w))
       [0..<length (cw_updates w)] w"

definition manager_commit ::
    "('a, 'k) send \<Rightarrow> ('d, 'h, 'n, 's, 'db) config_store \<Rightarrow> bool \<Rightarrow> (('a, 'd, 'h, 'n, 's) kea_update, 'db, 'k) commit_world \<Rightarrow>
     commit_error option \<times> (('a, 'd, 'h, 'n, 's) kea_update, 'db, 'k) commit_world" where
  "manager_commit send st has_state w =
     (if \<not> has_state then (Some NoState, w)
      else commit_each (\<lambda>i w. let t = up_target (cw_updates w ! i) in
          if t = ''kea'' then module_commit send st w else (Some (UnknownModule t), w))
        [0..<length (cw_updates w)] w)"

section \<open>Scheduled changes\<close>

text \<open>A change of the database; the recipe of an update is text, and \<open>decode\<close> reads it.\<close>

record scheduled_change =
  sc_id :: int
  sc_user :: int
  sc_updates :: "string option config_update list"

definition has_kea_updates :: "scheduled_change \<Rightarrow> bool" where
  "has_kea_updates c = list_ex (\<lambda>u. up_target u = ''kea'') (sc_updates c)"

definition new_config_update_from_db_model ::
    "(string \<Rightarrow> 'r option) \<Rightarrow> 'r \<Rightarrow> string option config_update \<Rightarrow> 'r config_update option" where
  "new_config_update_from_db_model decode blank u =
     (let v = (\<lambda>r. \<lparr>up_target = up_target u, up_operation = up_operation u, up_daemons = up_daemons u, up_recipe = r\<rparr>) in
      case up_recipe u of
        None \<Rightarrow> Some (v blank)
      | Some t \<Rightarrow> map_option v (decode t))"

definition scheduled_updates ::
    "(string \<Rightarrow> 'r option) \<Rightarrow> 'r \<Rightarrow> scheduled_change \<Rightarrow> 'r config_update list" where
  "scheduled_updates decode blank c =
     concat (map (\<lambda>u. case new_config_update_from_db_model decode blank u of None \<Rightarrow> [] | Some v \<Rightarrow> [v]) (sc_updates c))"

text \<open>
  Marking a change as executed comes with the text of its error or none; when it fails the other
  changes are left for later.
\<close>

fun commit_due_changes ::
    "('a, 'k) send \<Rightarrow> ('d, 'h, 'n, 's, 'db) config_store \<Rightarrow> (string \<Rightarrow> ('a, 'd, 'h, 'n, 's) config_recipe option) \<Rightarrow>
     ('a, 'd, 'h, 'n, 's) config_recipe \<Rightarrow> (int \<Rightarrow> commit_error option) \<Rightarrow> (int \<Rightarrow> commit_error option \<Rightarrow> 'db \<Rightarrow> string + 'db) \<Rightarrow>
     scheduled_change list \<Rightarrow> 'db \<Rightarrow> 'k \<Rightarrow> commit_error option \<times> 'db \<times> 'k" where
  "commit_due_changes send st decode blank new_context mark [] db k = (None, db, k)"
| "commit_due_changes send st decode blank new_context mark (c # cs) db k =
     (let (err, db, k) = (case new_context (sc_user c) of
            Some e \<Rightarrow> (Some e, db, k)
          | None \<Rightarrow>
              (case manager_commit send st (has_kea_updates c)
                      \<lparr>cw_updates = (if has_kea_updates c then scheduled_updates decode blank c else []), cw_db = db, cw_agents = k\<rparr> of
                 (err, w) \<Rightarrow> (err, cw_db w, cw_agents w)))
      in case mark (sc_id c) err db of
           Inl e \<Rightarrow> (Some (StoreFailed e), db, k)
         | Inr db \<Rightarrow> commit_due_changes send st decode blank new_context mark cs db k)"

definition commit_due ::
    "('a, 'k) send \<Rightarrow> ('d, 'h, 'n, 's, 'db) config_store \<Rightarrow> (string \<Rightarrow> ('a, 'd, 'h, 'n, 's) config_recipe option) \<Rightarrow>
     ('a, 'd, 'h, 'n, 's) config_recipe \<Rightarrow> (int \<Rightarrow> commit_error option) \<Rightarrow> (int \<Rightarrow> commit_error option \<Rightarrow> 'db \<Rightarrow> string + 'db) \<Rightarrow>
     ('db \<Rightarrow> string + scheduled_change list) \<Rightarrow> 'db \<Rightarrow> 'k \<Rightarrow> commit_error option \<times> 'db \<times> 'k" where
  "commit_due send st decode blank new_context mark due db k =
     (case due db of
        Inl e \<Rightarrow> (Some (StoreFailed e), db, k)
      | Inr cs \<Rightarrow> commit_due_changes send st decode blank new_context mark cs db k)"

fun schedule_updates ::
    "('r \<Rightarrow> string + string) \<Rightarrow> 'r config_update list \<Rightarrow> commit_error + string option config_update list" where
  "schedule_updates encode [] = Inr []"
| "schedule_updates encode (u # us) =
     (case encode (up_recipe u) of
        Inl e \<Rightarrow> Inl (JsonFailed e)
      | Inr t \<Rightarrow>
          (case schedule_updates encode us of
             Inl e \<Rightarrow> Inl e
           | Inr vs \<Rightarrow> Inr (\<lparr>up_target = up_target u, up_operation = up_operation u, up_daemons = up_daemons u, up_recipe = Some t\<rparr> # vs)))"

definition schedule ::
    "('r \<Rightarrow> string + string) \<Rightarrow> ('t \<Rightarrow> scheduled_change \<Rightarrow> 'db \<Rightarrow> string + 'db) \<Rightarrow> 'r config_update list config_ctx \<Rightarrow> 't \<Rightarrow> 'db \<Rightarrow>
     commit_error option \<times> 'db" where
  "schedule encode add c deadline db =
     (case cx_state c of None \<Rightarrow> (Some NoState, db) | Some us \<Rightarrow>
     (case cx_user c of None \<Rightarrow> (Some NoUser, db) | Some u \<Rightarrow>
     (case schedule_updates encode us of Inl e \<Rightarrow> (Some e, db) | Inr vs \<Rightarrow>
     (case add deadline \<lparr>sc_id = 0, sc_user = u, sc_updates = vs\<rparr> db of
        Inl e \<Rightarrow> (Some (StoreFailed e), db)
      | Inr db \<Rightarrow> (None, db)))))"

section \<open>What is sent\<close>

definition all_commands :: "('a, 'd, 'h, 'n, 's) kea_update list \<Rightarrow> ('a \<times> command) list" where
  "all_commands us = concat (map (\<lambda>u. rc_commands (up_recipe u)) us)"

lemma send_commands_append:
  "send_commands send (xs @ ys) k =
     (case send_commands send xs k of (Some e, k) \<Rightarrow> (Some e, k) | (None, k) \<Rightarrow> send_commands send ys k)"
  by (induction send xs k rule: send_commands.induct) (auto split: prod.split option.split)

lemma commit_changes_send: "commit_changes send us k = send_commands send (all_commands us) k"
  by (induction send us k rule: commit_changes.induct)
    (auto simp: all_commands_def send_commands_append split: prod.split option.split)


text \<open>An agent that takes every command, and what it has taken.\<close>

definition send_effect :: "('a, 'k) send \<Rightarrow> ('a \<times> command) list \<Rightarrow> 'k \<Rightarrow> 'k" where
  "send_effect send = fold (\<lambda>(app, c) k. snd (send app c k))"

lemma send_commands_taken:
  "(\<And>app c k. command_sent (fst (send app c k)) = None) \<Longrightarrow> send_commands send cs k = (None, send_effect send cs k)"
proof (induction send cs k rule: send_commands.induct)
  case (2 send app c cs k)
  obtain r k' where r: "send app c k = (r, k')" by fastforce
  from 2(2) [of app c k] r have "command_sent r = None" by simp
  with 2(1) [OF r [symmetric] this 2(2)] r show ?case by (simp add: send_effect_def)
qed (simp add: send_effect_def)

lemma send_effect_append: "send_effect send (xs @ ys) k = send_effect send ys (send_effect send xs k)"
  by (simp add: send_effect_def)

lemma store_updates_kept:
  "(\<And>i db. i \<in> set is' \<Longrightarrow> \<exists>db'. store_update st op i us db = (None, us, db')) \<Longrightarrow>
     \<exists>db'. store_updates st op is' us db = (None, us, db')"
proof (induction is' arbitrary: db)
  case (Cons i is')
  from Cons(2) [of i db] obtain db1 where "store_update st op i us db = (None, us, db1)" by auto
  with Cons(1) [of db1] Cons(2) show ?case by simp
qed simp

lemma commit_each_repeats:
  assumes "\<And>i w. i \<in> set is' \<Longrightarrow> cw_updates w = us \<Longrightarrow>
      \<exists>db. f i w = (None, \<lparr>cw_updates = us, cw_db = db, cw_agents = send_effect send cs (cw_agents w)\<rparr>)"
    and "cw_updates w = us"
  shows "\<exists>db. commit_each f is' w =
    (None, \<lparr>cw_updates = us, cw_db = db, cw_agents = send_effect send (concat (replicate (length is') cs)) (cw_agents w)\<rparr>)"
  using assms
proof (induction is' arbitrary: w)
  case Nil
  then show ?case by (cases w) (simp add: send_effect_def)
next
  case (Cons i is')
  from Cons(2) [of i w] Cons(3) obtain db where
    f: "f i w = (None, \<lparr>cw_updates = us, cw_db = db, cw_agents = send_effect send cs (cw_agents w)\<rparr>)" by auto
  from Cons(1) [OF Cons(2), of "\<lparr>cw_updates = us, cw_db = db, cw_agents = send_effect send cs (cw_agents w)\<rparr>"] f
  show ?case by (simp add: send_effect_append)
qed


text \<open>An agent that notes the commands and a store of numbers, for two hosts that are added.\<close>

definition noting :: "(unit, command list) send" where
  "noting app c k = (Inr (\<lparr>kr_error = None, kr_cmds_errors = [None]\<rparr>, []), k @ [c])"

definition numbers :: "(unit, nat, unit, unit, nat list) config_store" where
  "numbers = \<lparr>cs_update_daemon = (\<lambda>d db. Inr db), cs_add_host = (\<lambda>h db. Inr (db @ [h])), cs_update_host = (\<lambda>h db. Inr db),
     cs_get_host = (\<lambda>i db. Inr None), cs_host_from_config = (\<lambda>h. False), cs_delete_host = (\<lambda>i db. Inr db),
     cs_delete_api_daemons = (\<lambda>i db. Inr db), cs_commit_network = (\<lambda>n db. Inr (1, db)), cs_network_number = (\<lambda>n. 1),
     cs_delete_network_daemons = (\<lambda>i db. Inr db), cs_delete_network = (\<lambda>i db. Inr db), cs_commit_subnet = (\<lambda>s db. Inr ([1], db)),
     cs_delete_subnet = (\<lambda>i db. Inr db)\<rparr>"

definition host_added :: "nat \<Rightarrow> (unit, unit, nat, unit, unit) kea_update" where
  "host_added h = \<lparr>up_target = ''kea'', up_operation = ''host_add'', up_daemons = [],
     up_recipe = \<lparr>rc_commands = [((), a_command)], rc_daemons_before = None, rc_daemons_after = None, rc_host_before = None,
       rc_host_after = Some h, rc_host_id = None, rc_network_before = None, rc_network_after = None, rc_network_id = None,
       rc_subnet_before = None, rc_subnet_after = None, rc_subnet_id = None\<rparr>\<rparr>"

lemma noting_taken: "command_sent (fst (noting app c k)) = None"
  by (simp add: noting_def command_sent_def first_response_error_def)

lemma host_added_facts:
  "up_target (host_added h) = ''kea'' \<and> up_operation (host_added h) \<in> set known_operations"
  "rc_commands (up_recipe (host_added h)) = [((), a_command)]" "up_operation (host_added h) = ''host_add''"
  "rc_host_after (up_recipe (host_added h)) = Some h"
  by (simp_all add: host_added_def known_operations_def)

lemma host_added_stored:
  "rc_host_after (up_recipe (us ! i)) = Some h \<Longrightarrow> store_update numbers ''host_add'' i us db = (None, us, db @ [h])"
  by (simp add: store_update_def needed_def only_store_def numbers_def)



text \<open>A change that was scheduled is read back as it was.\<close>

lemma scheduled_change_read_back:
  assumes "\<And>r t. encode r = Inr t \<Longrightarrow> decode t = Some r"
  shows "schedule_updates encode us = Inr vs \<Longrightarrow>
    scheduled_updates decode blank \<lparr>sc_id = i, sc_user = u, sc_updates = vs\<rparr> = us"
proof (induction us arbitrary: vs)
  case (Cons v us)
  then obtain t ws where "encode (up_recipe v) = Inr t" "schedule_updates encode us = Inr ws"
    "vs = \<lparr>up_target = up_target v, up_operation = up_operation v, up_daemons = up_daemons v, up_recipe = Some t\<rparr> # ws"
    by (auto split: sum.splits)
  with Cons(1) [of ws] assms show ?case
    by (simp add: scheduled_updates_def new_config_update_from_db_model_def)
qed (simp add: scheduled_updates_def)

end
