(* ===== verification/Authorization.thy ===== *)
theory Authorization
  imports Include_Files Option_Fields
begin

text \<open>
  Who may use a resource of the server: \<open>server/auth/auth.go\<close>, with the groups of a user from
  \<open>server/database/model/user.go\<close>.  A request has its method and the path of its URL.
\<close>

record system_group =
  sg_id :: int
  sg_name :: string

record system_user =
  su_id :: int
  su_groups :: "system_group list"

definition super_admin_group_id :: int where "super_admin_group_id = 1"
definition admin_group_id :: int where "admin_group_id = 2"

definition in_group :: "system_user \<Rightarrow> system_group \<Rightarrow> bool" where
  "in_group u g =
     list_ex (\<lambda>h. (sg_id h > 0 \<and> sg_id h = sg_id g) \<or> (length (sg_name h) > 0 \<and> sg_name h = sg_name g)) (su_groups u)"

definition group_of :: "int \<Rightarrow> system_group" where
  "group_of i = \<lparr>sg_id = i, sg_name = []\<rparr>"

text \<open>The path without dots and doubled slashes, and with a slash at its end.\<close>

definition cleaned_path :: "string \<Rightarrow> string" where
  "cleaned_path p = (let p = filepath_clean p in if p = [] \<or> last p \<noteq> CHR ''/'' then p @ ''/'' else p)"

definition has_prefix :: "string \<Rightarrow> string \<Rightarrow> bool" where
  "has_prefix s pre = (take (length pre) s = pre)"

definition authorize :: "system_user option \<Rightarrow> (string \<times> string) option \<Rightarrow> bool" where
  "authorize user req =
     (case (user, req) of
        (Some u, Some (http_method, path)) \<Rightarrow>
          if in_group u (group_of super_admin_group_id) then True
          else (let p = cleaned_path path in
            if has_prefix p ''/api/users/'' then has_prefix p (''/api/users/'' @ int_str (su_id u) @ ''/'')
            else if has_prefix p ''/api/sessions/'' \<and> http_method = ''DELETE'' then True
            else in_group u (group_of admin_group_id))
      | _ \<Rightarrow> False)"

lemma int_str_no_slash: "CHR ''/'' \<notin> set (int_str i)"
proof -
  have "\<not> is_digit CHR ''/''" by (simp add: is_digit_def)
  then show ?thesis unfolding int_str_def by (auto dest: nat_str_digits)
qed

lemma has_prefix_append [simp]: "has_prefix (a @ s) (a @ t) = has_prefix s t"
  by (simp add: has_prefix_def)

lemma has_prefix_segment:
  "CHR ''/'' \<notin> set a \<Longrightarrow> CHR ''/'' \<notin> set b \<Longrightarrow> has_prefix (a @ CHR ''/'' # s) (b @ [CHR ''/'']) \<longleftrightarrow> a = b"
proof (induction a arbitrary: b)
  case Nil
  then show ?case by (cases b) (auto simp: has_prefix_def)
next
  case (Cons x a)
  then show ?case by (cases b) (auto simp: has_prefix_def)
qed

text \<open>
  C40: A user who is no super-admin is let to a resource of a user, however its path is written,
  exactly if the user is the same, and never to the list of users; one who is in no group is let to
  nothing but that and the end of a session.
\<close>

theorem users_confined:
  assumes "\<not> in_group u (group_of super_admin_group_id)"
  shows "(CHR ''/'' \<notin> set seg \<and> cleaned_path path = ''/api/users/'' @ seg @ ''/'' @ rest \<longrightarrow>
      authorize (Some u) (Some (meth, path)) = (seg = int_str (su_id u))) \<and>
    (cleaned_path path = ''/api/users/'' \<longrightarrow> \<not> authorize (Some u) (Some (meth, path))) \<and>
    (su_groups u = [] \<and> authorize (Some u) (Some (meth, path)) \<longrightarrow>
      has_prefix (cleaned_path path) (''/api/users/'' @ int_str (su_id u) @ ''/'') \<or>
      has_prefix (cleaned_path path) ''/api/sessions/'' \<and> meth = ''DELETE'')"
proof (intro conjI impI; (elim conjE)?)
  assume a: "CHR ''/'' \<notin> set seg" "cleaned_path path = ''/api/users/'' @ seg @ ''/'' @ rest"
  have "has_prefix (cleaned_path path) ''/api/users/''" by (simp add: a(2) has_prefix_def)
  then have "authorize (Some u) (Some (meth, path)) =
      has_prefix (''/api/users/'' @ seg @ ''/'' @ rest) (''/api/users/'' @ int_str (su_id u) @ ''/'')"
    using assms a(2) by (simp add: authorize_def Let_def)
  also have "\<dots> = has_prefix (seg @ CHR ''/'' # rest) (int_str (su_id u) @ [CHR ''/''])"
    using has_prefix_append [of "''/api/users/''"] by simp
  finally show "authorize (Some u) (Some (meth, path)) = (seg = int_str (su_id u))"
    using has_prefix_segment [OF a(1) int_str_no_slash] by simp
next
  assume a: "cleaned_path path = ''/api/users/''"
  have "int_str (su_id u) @ ''/'' \<noteq> []" by simp
  then show "\<not> authorize (Some u) (Some (meth, path))"
    using assms by (auto simp: authorize_def Let_def a has_prefix_def dest: arg_cong [of _ _ length])
next
  assume "su_groups u = []" "authorize (Some u) (Some (meth, path))"
  then show "has_prefix (cleaned_path path) (''/api/users/'' @ int_str (su_id u) @ ''/'') \<or>
      has_prefix (cleaned_path path) ''/api/sessions/'' \<and> meth = ''DELETE''"
    using assms by (auto simp: authorize_def Let_def in_group_def split: if_splits)
qed

definition plain_admin :: system_user where
  "plain_admin = \<lparr>su_id = 12, su_groups = [group_of 2]\<rparr>"

lemma users_confined_witness:
  "authorize (Some plain_admin) (Some (''PUT'', ''/api//users/x/../12'')) \<and> \<not> authorize (Some plain_admin) (Some (''PUT'', ''/api/users/1''))"
proof -
  have n: "\<not> in_group plain_admin (group_of super_admin_group_id)" by code_simp
  have c: "cleaned_path ''/api//users/x/../12'' = ''/api/users/'' @ ''12'' @ ''/'' @ []"
    "cleaned_path ''/api/users/1'' = ''/api/users/'' @ ''1'' @ ''/'' @ []" by code_simp+
  have i: "int_str (su_id plain_admin) = ''12''" by code_simp
  from users_confined [OF n, of "''12''" "''/api//users/x/../12''" "[]"] users_confined [OF n, of "''1''" "''/api/users/1''" "[]"] c i
  show ?thesis by simp
qed

end
