(* ===== verification/Spec2Isabelle.thy ===== *)
theory Spec2Isabelle
  imports Dns_Manager Review_Dispatcher Cidr Ordered_Map Big_Counter Semver Option_Fields Kea_Checkers_Correct
    Kea_Statistics_Correct Periodic_Executor Include_Files Env_File Hosts_Puller_Correct Leases Config_Commit Authorization
begin

text \<open>
  Stork watches DHCP servers (Kea) and DNS servers (BIND 9, NSD).  An agent runs beside the
  monitored servers; the Stork server asks the agents over gRPC, keeps what they say in a database
  and shows it to its users.  This library models the core logic of both, the Go code under
  \<open>stork/backend\<close> (paths below are relative to it), as functions and step relations.

  \<^bold>\<open>How the parts interact.\<close>  The agent reads the zones of a DNS server into an inventory and sends
  them in a stream; the DNS manager of the server stores what arrives in batches.  For Kea the server sends
  commands through the agent, counts the failures of the communication and reports them as
  events.  From the answers it pulls host reservations, adds up statistics and searches for leases.
  The configuration of a Kea daemon is decoded, reviewed by a set of checkers, shown without its
  secrets, and changed in transactions that lock daemons, send commands and store the result.

  \<^bold>\<open>The Go library.\<close>  Only the functions that the code calls are modelled.
  \<^item> \<open>Stork_Prelude\<close>: general lemmas, and the locale \<open>comparison\<close>: the laws that sorting and binary
    search need of a three-way comparison.
  \<^item> \<open>Go_Strings\<close> (\<open>strings\<close>, \<open>strconv\<close>), \<open>Go_Net\<close> (\<open>net\<close>: addresses, networks and masks as text and
    bytes), \<open>Go_FS\<close> (\<open>os\<close> and \<open>path\<close> over a tree of files, where any call may fail).

  \<^bold>\<open>DNS zones.\<close>
  \<^item> \<open>Dns_Names\<close> (\<open>util/fqdn.go\<close>): the DNS order of names, FQDNs in text and in wire form, with their
    round trips.
  \<^item> \<open>Zones\<close> (\<open>appdata/bind9stats\<close>): views, filters and iterators.  The linear and the binary search
    yield the same zones, and paging after the last zone seen gives every zone once.
  \<^item> \<open>Zone_Storage\<close>, \<open>Storage_Refinement\<close> (\<open>agent/zoneinventory.go\<close>): the storages in memory, on disk
    and of both kinds.  Each is an instance of the locale \<open>zone_store\<close>, the abstract contract of a
    storage, and the one on disk refines the one in memory.
  \<^item> \<open>Zone_Inventory\<close> (same file): the states of the inventory and its goroutines as the relation
    \<open>inventory_step\<close>.  At most one long task runs, and a stream that ends has sent everything.
  \<^item> \<open>Zone_Stream\<close> (\<open>agent/agent.go\<close>, \<open>server/agentcomm/grpcli.go\<close>): both ends of the stream of zones.
  \<^item> \<open>Dns_Manager\<close> (\<open>server/dnsop/manager.go\<close>, \<open>server/database/model/batch.go\<close>): fetching from all the
    agents, batches, states; how an error of one app spreads to the next ones.

  \<^bold>\<open>Configuration review.\<close>
  \<^item> \<open>Checker_Controller\<close> (\<open>server/configreview/checkercontroller.go\<close>, \<open>report.go\<close>): the preferences of
    checkers, with the locale \<open>checker_preferences\<close> for what the callers rely on.
  \<^item> \<open>Review_Dispatcher\<close> (\<open>dispatcher.go\<close>): registration, the reviews under way as the relation
    \<open>review_step\<close>, the transaction that stores reports.
  \<^item> \<open>Kea_Checkers\<close>, \<open>Kea_Checkers_Correct\<close> (\<open>keachecker.go\<close>): every checker, and what the checkers
    find: overlapping subnets, exhausted pools, reservations outside of pools and others.

  \<^bold>\<open>Utilities\<close> (\<open>util\<close>).
  \<^item> \<open>Cidr\<close> (\<open>cidr.go\<close>), \<open>Hex_Text\<close> (\<open>util.go\<close>), \<open>Ordered_Map\<close> (\<open>orderedmap.go\<close>, behind the locale
    \<open>insertion_ordered\<close>), \<open>Big_Counter\<close> (\<open>bigcounter.go\<close>, 64-bit words that become a number without
    bound), \<open>Semver\<close> (\<open>semver.go\<close>, an instance of \<open>linorder\<close>).
  \<^item> \<open>Include_Files\<close> (\<open>util.go\<close>): the inclusion of files, which ends, and succeeds exactly when there
    is no cycle and every file can be read; \<open>Env_File\<close> (\<open>envfile.go\<close>).
  \<^item> \<open>Periodic_Executor\<close> (\<open>periodicexecutor.go\<close>): the executor and its ticker as \<open>executor_step\<close>.

  \<^bold>\<open>Kea.\<close>
  \<^item> \<open>Option_Fields\<close>, \<open>Kea_Raw_Config\<close>, \<open>Kea_Config\<close>, \<open>Kea_Config_Correct\<close> (\<open>appcfg/kea\<close>): DHCP options,
    the JSON document with merging and hiding, and its typed form.  What Stork writes for an option
    or a subnet reads back as the same data.
  \<^item> \<open>Kea_Commands\<close> (\<open>appctrl/kea\<close>): commands and the errors of their responses.
  \<^item> \<open>Kea_Statistics\<close>, \<open>Kea_Statistics_Correct\<close> (\<open>server/apps/kea\<close>, \<open>server/database/model\<close>): statistics
    of leases and their exact sums.
  \<^item> \<open>Hosts\<close>, \<open>Hosts_Puller\<close>, \<open>Hosts_Puller_Correct\<close> (\<open>server/database/model/host.go\<close>,
    \<open>server/apps/kea/host.go\<close>): reservations and how they are pulled page by page.
  \<^item> \<open>Leases\<close> (\<open>server/apps/kea/lease.go\<close>): searches over all agents, errors and conflicts.

  \<^bold>\<open>The server.\<close>
  \<^item> \<open>Agent_Comm\<close> (\<open>server/agentcomm\<close>): calls of an agent, counts of errors, events on every change,
    commands to Kea, BIND 9 and NSD.
  \<^item> \<open>Event_Center\<close> (\<open>server/eventcenter\<close>): making, filtering and dispatching events.
  \<^item> \<open>Config_Manager\<close> (\<open>server/apps/manager.go\<close>, \<open>server/config\<close>): transactions, locks and timeouts as
    \<open>manager_step\<close>; \<open>Config_Commit\<close> (with \<open>server/apps/kea/configmodule.go\<close>): committing a transaction,
    now or later.
  \<^item> \<open>Authorization\<close> (\<open>server/auth/auth.go\<close>): who may use which resource.

  \<^bold>\<open>How the model corresponds to the code.\<close>  A struct is a record, a function or method a definition of
  the same name in lower case with underscores (with a prefix where it would clash), a method that changes its
  receiver returns it changed, and an error is the left side of a sum.  A panic has a value of its
  own where the code can reach one.  Slices are lists and maps are association lists or functions;
  where Go goes through a map in any order, the order is an argument.  What runs under a mutex is
  one step; goroutines that interleave are steps of a relation or of a list of events.

  \<^bold>\<open>Bounds and fuel.\<close>  A text is a list of bytes.  Bytes, addresses and the base of a big counter are words,
  as are numbers parsed to a fixed width; other numbers, such as identifiers and counts, are unbounded, which
  agrees with the code below \<open>2^63\<close>.  Two functions have fuel.  \<open>read_includes\<close> needs no more than the number of files
  that can be read and two (\<open>includes_terminate\<close>).  \<open>pull_loop\<close> needs more than the number of pages the
  daemon has (\<open>hosts_pulled\<close>); a daemon that never ends keeps the code busy as well.  The bounds that the
  code itself has are kept: ten issues in a report, ten tries for the number of a context, a line of 64 KiB in a
  file of variables.

  \<^bold>\<open>Arguments of the model.\<close>  The splitter of DNS labels, the library of address ranges, sorting that is not
  stable, the hash of options, the table of standard options, JSON and gRPC, the agents and the database are
  arguments.  Where a property relies on one, it names what it relies on as a hypothesis, and the
  witness after it has a concrete one.

  \<^bold>\<open>What is not modelled.\<close>  The handlers of the REST interface and the queries of the database, which pass data on;
  the exporters of metrics; the detection of servers from processes and files; the registration of
  agents and its certificates; the pullers of states and of high availability; hooks, dumps,
  command lines and generated code; the data types of the BIND 9 statistics channel other than views
  and zones; in the configuration module of Kea, the functions that begin and apply a change.  Races on fields
  that the code uses outside of a mutex, such as the number of the next transaction, are taken as
  atomic.
\<close>

end
